(* ===== verification/Prelude.thy ===== *)
theory Prelude
  imports Main "HOL-Library.Word" "HOL-Library.Finite_Map"
begin

text \<open>
  Shared vocabulary of the development: bytes and big-endian integers as the Go package
  \<open>encoding/binary\<close> lays them out, byte slices, and the lemmas on lists and maps that several
  components use. Two collections of facts are filled by the components: \<open>wire\<close> holds the
  length and field facts of wire formats, \<open>invs\<close> the preservation facts of state invariants.
\<close>

unbundle bit_operations_syntax

named_theorems wire
named_theorems invs

type_synonym byte = "8 word"
type_synonym bytes = "byte list"
type_synonym u8 = "8 word"
type_synonym u16 = "16 word"
type_synonym u32 = "32 word"
type_synonym u64 = "64 word"

text \<open>Instants and durations are nanosecond counts, as in Go's package \<open>time\<close>.\<close>

type_synonym time = int

abbreviation second :: time where "second \<equiv> 1000000000"
abbreviation millisecond :: time where "millisecond \<equiv> 1000000"

section \<open>Slices\<close>

text \<open>The Go slice \<open>b[i:j]\<close>, for \<open>i \<le> j \<le> len(b)\<close>; every use is behind a length check.\<close>

definition slice :: "nat \<Rightarrow> nat \<Rightarrow> 'a list \<Rightarrow> 'a list" where
  "slice i j xs = take (j - i) (drop i xs)"

lemma length_slice [simp]: "length (slice i j xs) = min (j - i) (length xs - i)"
  by (simp add: slice_def min.commute)

lemma slice_append_right:
  "length xs \<le> i \<Longrightarrow> slice i j (xs @ ys) = slice (i - length xs) (j - length xs) ys"
  by (simp add: slice_def)

lemma slice_append_left: "j \<le> length xs \<Longrightarrow> slice i j (xs @ ys) = slice i j xs"
  by (cases "i \<le> j") (auto simp: slice_def)

lemma slice_all [simp]: "slice 0 (length xs) xs = xs"
  by (simp add: slice_def)

lemma slice_0: "slice 0 n xs = take n xs"
  by (simp add: slice_def)

lemma length_eq_2: "length xs = 2 \<longleftrightarrow> (\<exists>a b. xs = [a, b])"
  by (auto simp: length_Suc_conv eval_nat_numeral)

text \<open>A byte string cut at fixed offsets, the way the decoders read headers.\<close>

lemma split_2: "xs = take i xs @ take j (drop i xs) @ drop (i + j) xs"
  by (metis append_take_drop_id drop_drop add.commute)

lemma split_3: "xs = take i xs @ take j (drop i xs) @ take k (drop (i + j) xs) @ drop (i + j + k) xs"
  by (metis append_take_drop_id drop_drop add.commute)

section \<open>Decimal numbers\<close>

definition char_of_digit :: "int \<Rightarrow> char" where
  "char_of_digit n = char_of (if n < 10 then 48 + n else 87 + n)"

text \<open>Printing a number that is not negative.\<close>

function show_dec :: "int \<Rightarrow> string" where
  "show_dec n = (if n < 10 then [char_of_digit n] else show_dec (n div 10) @ [char_of_digit (n mod 10)])"
  by auto
termination by (relation "measure nat") auto

declare show_dec.simps [simp del]

lemma length_show_dec_pos [simp]: "0 < length (show_dec n)"
  by (subst show_dec.simps) simp

lemma show_dec_nonempty [simp]: "show_dec n \<noteq> []"
  using length_show_dec_pos [of n] by (simp del: length_show_dec_pos)

lemma char_of_digit_code: "0 \<le> n \<Longrightarrow> n < 10 \<Longrightarrow> (of_char (char_of_digit n) :: int) = 48 + n"
  by (simp add: char_of_digit_def of_char_of)

lemma show_dec_chars:
  "0 \<le> n \<Longrightarrow> x \<in> set (show_dec n) \<Longrightarrow> 48 \<le> (of_char x :: int) \<and> (of_char x :: int) \<le> 57"
proof (induction n rule: show_dec.induct)
  case (1 n)
  show ?case
  proof (cases "n < 10")
    case True
    then have "x = char_of_digit n" using 1(3) by (subst (asm) show_dec.simps) simp
    then show ?thesis using True 1(2) by (simp add: char_of_digit_code)
  next
    case False
    then consider "x \<in> set (show_dec (n div 10))" | "x = char_of_digit (n mod 10)"
      using 1(3) by (subst (asm) show_dec.simps) auto
    then show ?thesis
      using 1(1) [OF False] False by cases (auto simp: char_of_digit_code)
  qed
qed

lemma length_show_dec_mono:
  "0 \<le> m \<Longrightarrow> m \<le> n \<Longrightarrow> length (show_dec m) \<le> length (show_dec n)"
proof (induction n arbitrary: m rule: show_dec.induct)
  case (1 n)
  show ?case
  proof (cases "m < 10")
    case True
    then have "length (show_dec m) = 1" by (subst show_dec.simps) simp
    then show ?thesis using length_show_dec_pos [of n] by linarith
  next
    case False
    then have "length (show_dec (m div 10)) \<le> length (show_dec (n div 10))"
      using 1 by (intro 1(1)) (auto intro: zdiv_mono1)
    then show ?thesis
      using False 1 by (subst show_dec.simps, subst (2) show_dec.simps) simp
  qed
qed

lemma length_show_dec_near:
  assumes "0 < m" "n \<le> 10 * m"
  shows "length (show_dec n) \<le> Suc (length (show_dec m))"
proof -
  have "length (show_dec (10 * m)) = Suc (length (show_dec m))"
    using assms by (subst show_dec.simps) simp
  moreover have "length (show_dec n) \<le> length (show_dec (10 * m))"
  proof (cases "0 \<le> n")
    case False
    then have "length (show_dec n) = 1" by (subst show_dec.simps) simp
    then show ?thesis using length_show_dec_pos [of "10 * m"] by linarith
  qed (use assms in \<open>simp add: length_show_dec_mono\<close>)
  ultimately show ?thesis by simp
qed

section \<open>Big-endian integers\<close>

definition put_be16 :: "u16 \<Rightarrow> bytes" where
  "put_be16 x = [ucast (drop_bit 8 x), ucast x]"

definition put_be32 :: "u32 \<Rightarrow> bytes" where
  "put_be32 x = [ucast (drop_bit 24 x), ucast (drop_bit 16 x), ucast (drop_bit 8 x), ucast x]"

definition put_be64 :: "u64 \<Rightarrow> bytes" where
  "put_be64 x = put_be32 (ucast (drop_bit 32 x)) @ put_be32 (ucast x)"

definition be16 :: "bytes \<Rightarrow> u16" where
  "be16 bs = push_bit 8 (ucast (bs ! 0)) OR ucast (bs ! 1)"

definition be32 :: "bytes \<Rightarrow> u32" where
  "be32 bs = push_bit 24 (ucast (bs ! 0)) OR push_bit 16 (ucast (bs ! 1))
     OR push_bit 8 (ucast (bs ! 2)) OR ucast (bs ! 3)"

definition be64 :: "bytes \<Rightarrow> u64" where
  "be64 bs = push_bit 32 (ucast (be32 (take 4 bs))) OR ucast (be32 (drop 4 bs))"

lemma length_put_be16 [simp]: "length (put_be16 x) = 2"
  by (simp add: put_be16_def)

lemma length_put_be32 [simp]: "length (put_be32 x) = 4"
  by (simp add: put_be32_def)

lemma length_put_be64 [simp]: "length (put_be64 x) = 8"
  by (simp add: put_be64_def)

lemma be16_put_be16 [simp]: "be16 (put_be16 x) = x"
  by (auto simp: be16_def put_be16_def bit_eq_iff bit_simps)

lemma be32_put_be32 [simp]: "be32 (put_be32 x) = x"
proof -
  have "bit (be32 (put_be32 x)) n = bit x n" if "n < 32" for n
    using that by (cases "n < 8"; cases "n < 16"; cases "n < 24")
      (auto simp: be32_def put_be32_def bit_simps)
  then show ?thesis
    by (simp add: bit_eq_iff)
qed

lemma be64_put_be64 [simp]: "be64 (put_be64 x) = x"
  by (auto simp: be64_def put_be64_def bit_eq_iff bit_simps)

lemma put_be16_be16:
  assumes "length bs = 2"
  shows "put_be16 (be16 bs) = bs"
proof -
  from assms obtain a b where "bs = [a, b]"
    by (auto simp: length_Suc_conv eval_nat_numeral)
  then show ?thesis
    by (auto simp: be16_def put_be16_def bit_eq_iff bit_simps dest: bit_imp_le_length)
qed

lemma put_be32_be32:
  assumes "length bs = 4"
  shows "put_be32 (be32 bs) = bs"
proof -
  from assms obtain a b c d where "bs = [a, b, c, d]"
    by (auto simp: length_Suc_conv eval_nat_numeral)
  then show ?thesis
    by (auto simp: be32_def put_be32_def bit_eq_iff bit_simps dest: bit_imp_le_length)
qed

lemma put_be64_be64:
  assumes "length bs = 8"
  shows "put_be64 (be64 bs) = bs"
proof -
  let ?h = "be32 (take 4 bs)" and ?l = "be32 (drop 4 bs)"
  have "ucast (drop_bit 32 (be64 bs)) = ?h" "ucast (be64 bs) = ?l"
    by (auto simp: be64_def bit_eq_iff bit_simps dest: bit_imp_le_length)
  then show ?thesis
    using assms by (simp add: put_be64_def put_be32_be32)
qed

lemma be32_inject: "length xs = 4 \<Longrightarrow> length ys = 4 \<Longrightarrow> be32 xs = be32 ys \<longleftrightarrow> xs = ys"
  by (metis put_be32_be32)

section \<open>Buffers that are reused\<close>

text \<open>
  A Go slice \<open>dst\<close> that a caller hands in for reuse is modelled by the bytes of its backing array,
  so its length is \<open>cap(dst)\<close>: stale contents are visible in the model. \<open>reslice dst n\<close> is the idiom
  \<open>if cap(dst) >= n { dst = dst[:n] } else { dst = make([]byte, n) }\<close>, and \<open>copy_at i src dst\<close> is
  \<open>copy(dst[i:], src)\<close>, which writes no more than \<open>dst\<close> can hold.
\<close>

definition reslice :: "bytes \<Rightarrow> nat \<Rightarrow> bytes" where
  "reslice dst n = (if n \<le> length dst then take n dst else replicate n 0)"

definition copy_at :: "nat \<Rightarrow> 'a list \<Rightarrow> 'a list \<Rightarrow> 'a list" where
  "copy_at i src dst = take i dst @ take (length dst - i) src @ drop (i + length src) dst"

lemma length_reslice [simp]: "length (reslice dst n) = n"
  by (simp add: reslice_def)

lemma length_copy_at [simp]: "i \<le> length dst \<Longrightarrow> length (copy_at i src dst) = length dst"
  by (auto simp: copy_at_def)

lemma copy_at_append:
  "length dst = i + length src + n \<Longrightarrow> copy_at i src dst = take i dst @ src @ drop (i + length src) dst"
  by (simp add: copy_at_def)

section \<open>Reading from a stream\<close>

text \<open>
  A reader is the bytes still to come. \<open>io.ReadFull\<close> of \<open>n\<close> bytes fails with \<open>EOF\<close> when none are
  left and with \<open>ErrUnexpectedEOF\<close> when the stream ends in between; in both cases everything was
  consumed.
\<close>

datatype io_error = EOF | ErrUnexpectedEOF | ErrShortWrite | ErrClosed | ErrTimeout

definition read_full :: "nat \<Rightarrow> bytes \<Rightarrow> io_error + bytes \<times> bytes" where
  "read_full n bs =
     (if n \<le> length bs then Inr (take n bs, drop n bs)
      else Inl (if bs = [] then EOF else ErrUnexpectedEOF))"

lemma read_full_append [simp]: "length xs = n \<Longrightarrow> read_full n (xs @ ys) = Inr (xs, ys)"
  by (simp add: read_full_def)

lemma read_full_Inr:
  "read_full n bs = Inr (xs, ys) \<longleftrightarrow> bs = xs @ ys \<and> length xs = n"
  by (auto simp: read_full_def)

section \<open>Results\<close>

text \<open>A fallible operation returns \<open>Inl e\<close> for the error and \<open>Inr x\<close> for the value.\<close>

definition bind_result :: "'e + 'a \<Rightarrow> ('a \<Rightarrow> 'e + 'b) \<Rightarrow> 'e + 'b" where
  "bind_result r f = (case r of Inl e \<Rightarrow> Inl e | Inr x \<Rightarrow> f x)"

lemma bind_result_simps [simp]:
  "bind_result (Inl e) f = Inl e" "bind_result (Inr x) f = f x"
  by (simp_all add: bind_result_def)

lemma bind_result_Inr: "bind_result r f = Inr y \<longleftrightarrow> (\<exists>x. r = Inr x \<and> f x = Inr y)"
  by (cases r) auto

section \<open>Finite maps\<close>

text \<open>
  Go maps are finite maps \<open>('k, 'v) fmap\<close>. A missing key of a counting map reads as 0, \<open>fmsum\<close>
  adds up a weight over all entries, and \<open>fsize\<close> is \<open>len(m)\<close>.
\<close>

definition count_of :: "('k, nat) fmap \<Rightarrow> 'k \<Rightarrow> nat" where
  "count_of m k = (case fmlookup m k of None \<Rightarrow> 0 | Some n \<Rightarrow> n)"

definition fsize :: "('k, 'v) fmap \<Rightarrow> nat" where
  "fsize m = fcard (fmdom m)"

definition fmsum :: "('k \<Rightarrow> 'v \<Rightarrow> nat) \<Rightarrow> ('k, 'v) fmap \<Rightarrow> nat" where
  "fmsum f m = (\<Sum>k\<in>fset (fmdom m). f k (the (fmlookup m k)))"

lemma fmsum_empty [simp]: "fmsum f fmempty = 0"
  by (simp add: fmsum_def)

lemma fmsum_drop:
  assumes "fmlookup m k = Some v"
  shows "fmsum f m = f k v + fmsum f (fmdrop k m)"
proof -
  have k: "k \<in> fset (fmdom m)"
    using assms by (auto intro: fmdomI)
  have "fset (fmdom (fmdrop k m)) = fset (fmdom m) - {k}"
    by auto
  then have "fmsum f (fmdrop k m) = (\<Sum>j\<in>fset (fmdom m) - {k}. f j (the (fmlookup m j)))"
    unfolding fmsum_def by (intro sum.cong) auto
  then show ?thesis
    using k assms by (simp add: fmsum_def sum.remove [of "fset (fmdom m)" k])
qed

lemma fmdrop_fmupd_same [simp]: "fmdrop k (fmupd k v m) = fmdrop k m"
  by (rule fmap_ext) auto

lemma fmdrop_idle: "fmlookup m k = None \<Longrightarrow> fmdrop k m = m"
  by (rule fmap_ext) auto

lemma fmsum_upd [simp]: "fmsum f (fmupd k v m) = f k v + fmsum f (fmdrop k m)"
  using fmsum_drop [of "fmupd k v m" k v f] by simp

lemma fsize_fmsum: "fsize m = fmsum (\<lambda>_ _. 1) m"
  by (simp add: fsize_def fmsum_def fcard.rep_eq)

lemma fsize_empty [simp]: "fsize fmempty = 0"
  by (simp add: fsize_def)

lemma fsize_upd [simp]: "fsize (fmupd k v m) = Suc (fsize (fmdrop k m))"
  by (simp add: fsize_fmsum)

lemma fsize_drop: "fmlookup m k = Some v \<Longrightarrow> fsize m = Suc (fsize (fmdrop k m))"
  using fmsum_drop [of m k v "\<lambda>_ _. 1"] by (simp add: fsize_fmsum)

lemma fsize_drop_le: "fsize (fmdrop k m) \<le> fsize m"
  by (cases "fmlookup m k") (auto simp: fmdrop_idle dest: fsize_drop)

lemma fmsum_mono: "(\<And>k v. f k v \<le> g k v) \<Longrightarrow> fmsum f m \<le> fmsum g m"
  unfolding fmsum_def by (rule sum_mono) auto

lemma count_of_upd [simp]: "count_of (fmupd k n m) j = (if j = k then n else count_of m j)"
  by (simp add: count_of_def)

lemma count_of_drop [simp]: "count_of (fmdrop k m) j = (if j = k then 0 else count_of m j)"
  by (simp add: count_of_def)

lemma count_of_empty [simp]: "count_of fmempty j = 0"
  by (simp add: count_of_def)

text \<open>
  The counters the program keeps beside its tables: incremented on insertion, and on removal
  decremented or deleted when they would reach zero.
\<close>

definition incr :: "'k \<Rightarrow> ('k, nat) fmap \<Rightarrow> ('k, nat) fmap" where
  "incr k m = fmupd k (count_of m k + 1) m"

definition decr :: "'k \<Rightarrow> ('k, nat) fmap \<Rightarrow> ('k, nat) fmap" where
  "decr k m = (if count_of m k > 1 then fmupd k (count_of m k - 1) m else fmdrop k m)"

definition no_zero :: "('k, nat) fmap \<Rightarrow> bool" where
  "no_zero m \<longleftrightarrow> (\<forall>k. fmlookup m k \<noteq> Some 0)"

lemma count_of_incr [simp]: "count_of (incr k m) j = (if j = k then count_of m j + 1 else count_of m j)"
  by (simp add: incr_def)

lemma count_of_decr [simp]: "count_of (decr k m) j = (if j = k then count_of m j - 1 else count_of m j)"
  by (auto simp: decr_def)

lemma no_zero_empty [simp]: "no_zero fmempty"
  by (simp add: no_zero_def)

lemma no_zero_incr [simp]: "no_zero m \<Longrightarrow> no_zero (incr k m)"
  by (simp add: no_zero_def incr_def)

lemma no_zero_decr [simp]: "no_zero m \<Longrightarrow> no_zero (decr k m)"
  by (auto simp: no_zero_def decr_def)

lemma no_zero_lookup: "no_zero m \<Longrightarrow> fmlookup m k = None \<longleftrightarrow> count_of m k = 0"
  by (auto simp: no_zero_def count_of_def split: option.splits) (metis gr0I)

end
