(* ===== verification/Wire_Format.thy ===== *)
theory Wire_Format
  imports Prelude
begin

text \<open>
  The two contracts of the program's wire formats. A datagram format decodes exactly the encodings
  of valid messages; formats stack when one carries the other as its payload. A stream format reads
  one message off the front of a byte stream and leaves the rest, so that a stream that carries
  several messages can be cut in one way only.
\<close>

section \<open>Datagram formats\<close>

locale datagram_format =
  fixes encode :: "'a \<Rightarrow> bytes"
    and decode :: "bytes \<Rightarrow> 'e + 'a"
    and valid :: "'a \<Rightarrow> bool"
  assumes decode_iff: "decode b = Inr x \<longleftrightarrow> valid x \<and> b = encode x"
begin

lemma decode_encode: "valid x \<Longrightarrow> decode (encode x) = Inr x"
  by (simp add: decode_iff)

lemma encode_inject: "valid x \<Longrightarrow> valid y \<Longrightarrow> encode x = encode y \<longleftrightarrow> x = y"
  by (metis decode_encode sum.inject(2))

lemma decode_rejects: "(\<exists>e. decode b = Inl e) \<longleftrightarrow> (\<nexists>x. valid x \<and> b = encode x)"
  by (metis decode_iff obj_sumE sum.distinct(1))

text \<open>
  A receiver that drops what does not decode: among arbitrary arrivals it sees the messages whose
  encodings arrived, in their order.
\<close>

definition received_messages :: "bytes list \<Rightarrow> 'a list" where
  "received_messages bs = List.map_filter (\<lambda>b. case decode b of Inl e \<Rightarrow> None | Inr x \<Rightarrow> Some x) bs"

lemma received_messages_append:
  "received_messages (bs @ cs) = received_messages bs @ received_messages cs"
  by (induction bs) (simp_all add: received_messages_def split: sum.splits)

lemma received_messages_encoded:
  "\<forall>x\<in>set xs. valid x \<Longrightarrow> received_messages (map encode xs) = xs"
  by (induction xs) (simp_all add: received_messages_def decode_encode)

lemma received_messages_subset:
  "x \<in> set (received_messages bs) \<longleftrightarrow> valid x \<and> encode x \<in> set bs"
  by (induction bs)
    (auto simp: received_messages_def decode_iff decode_encode encode_inject split: sum.splits)

end

text \<open>A format whose messages are the encodings of another.\<close>

locale stacked_format =
  outer: datagram_format wrap unwrap "\<lambda>_. True" + inner: datagram_format encode decode valid
  for wrap :: "bytes \<Rightarrow> bytes" and unwrap :: "bytes \<Rightarrow> 'e + bytes"
    and encode :: "'a \<Rightarrow> bytes" and decode :: "bytes \<Rightarrow> 'd + 'a" and valid :: "'a \<Rightarrow> bool"
begin

definition unstack :: "bytes \<Rightarrow> ('e + 'd) + 'a" where
  "unstack b = (case unwrap b of
     Inl e \<Rightarrow> Inl (Inl e)
   | Inr c \<Rightarrow> (case decode c of Inl d \<Rightarrow> Inl (Inr d) | Inr x \<Rightarrow> Inr x))"

lemma unstack_iff: "unstack b = Inr x \<longleftrightarrow> valid x \<and> b = wrap (encode x)"
  by (auto simp: unstack_def outer.decode_iff inner.decode_iff
      intro: outer.decode_encode inner.decode_encode split: sum.splits)
    (metis inner.decode_encode outer.decode_encode sum.distinct(1) sum.inject(2))+

end

sublocale stacked_format \<subseteq> stack: datagram_format "\<lambda>x. wrap (encode x)" unstack valid
  by unfold_locales (rule unstack_iff)

section \<open>Stream formats\<close>

locale stream_format =
  fixes put :: "'a \<Rightarrow> bytes"
    and get :: "bytes \<Rightarrow> 'e + 'a \<times> bytes"
    and valid :: "'a \<Rightarrow> bool"
  assumes get_put: "valid x \<Longrightarrow> get (put x @ rest) = Inr (x, rest)"
    and get_nil: "\<exists>e. get [] = Inl e"
begin

text \<open>The next \<open>n\<close> messages of a stream.\<close>

fun get_n :: "nat \<Rightarrow> bytes \<Rightarrow> 'e + 'a list \<times> bytes" where
  "get_n 0 b = Inr ([], b)"
| "get_n (Suc n) b = bind_result (get b) (\<lambda>(x, r).
     bind_result (get_n n r) (\<lambda>(xs, r). Inr (x # xs, r)))"

definition put_all :: "'a list \<Rightarrow> bytes" where
  "put_all xs = concat (map put xs)"

lemma put_nonempty: "valid x \<Longrightarrow> put x \<noteq> []"
  using get_put [of x "[]"] get_nil by auto

lemma get_n_put_all:
  "\<forall>x\<in>set xs. valid x \<Longrightarrow> get_n (length xs) (put_all xs @ rest) = Inr (xs, rest)"
  by (induction xs) (simp_all add: put_all_def get_put)

text \<open>No message is the beginning of another, so the cut is unique.\<close>

lemma put_prefix_free: "valid x \<Longrightarrow> valid y \<Longrightarrow> put x @ r = put y @ s \<longleftrightarrow> x = y \<and> r = s"
  by (metis get_put Pair_inject sum.inject(2))

lemma put_all_inject:
  "\<forall>x\<in>set xs. valid x \<Longrightarrow> \<forall>y\<in>set ys. valid y \<Longrightarrow> put_all xs = put_all ys \<longleftrightarrow> xs = ys"
proof (induction xs arbitrary: ys)
  case Nil
  then show ?case by (cases ys) (auto simp: put_all_def put_nonempty)
next
  case (Cons x xs)
  then show ?case
    by (cases ys) (auto simp: put_all_def put_nonempty put_prefix_free)
qed

end

end
