(* ===== verification/Udp_Datagram.thy ===== *)
theory Udp_Datagram
  imports Wire_Format
begin

text \<open>
  The 12-byte datagram header of \<open>internal/protocol/udp.go\<close>. \<open>EncodeUDP\<close> writes into a buffer the
  caller reuses; the model keeps that buffer, and the lemmas show that none of its old contents
  survive, that decoding inverts encoding, and that a datagram is accepted exactly when it is
  the encoding of a valid header.
\<close>

definition UDPProtocolVersion :: u8 where "UDPProtocolVersion = 1"
definition UDPHeaderSize :: nat where "UDPHeaderSize = 12"
definition UDPTypeData :: u8 where "UDPTypeData = 0x11"
definition DefaultMaxUDPPayload :: nat where "DefaultMaxUDPPayload = 1150"
definition MaxUDPFragments :: nat where "MaxUDPFragments = 64"
definition MaxUDPPacketSize :: nat where "MaxUDPPacketSize = 65535"

lemmas udp_consts = UDPProtocolVersion_def UDPHeaderSize_def UDPTypeData_def
  DefaultMaxUDPPayload_def MaxUDPFragments_def MaxUDPPacketSize_def

datatype udp_error =
    ErrUDPDataTooShort
  | ErrUDPUnsupportedVersion u8
  | ErrUDPUnsupportedType u8
  | ErrUDPInvalidFragment

record UDPHeader =
  Version :: u8
  Type :: u8
  SessionID :: u32
  PacketID :: u32
  FragmentID :: u8
  FragmentCount :: u8

definition EncodeUDP :: "bytes \<Rightarrow> u32 \<Rightarrow> u32 \<Rightarrow> u8 \<Rightarrow> u8 \<Rightarrow> bytes \<Rightarrow> bytes" where
  "EncodeUDP dst sessionID packetID fragID fragCount payload =
     (let totalLen = UDPHeaderSize + length payload;
          dst = reslice dst totalLen;
          dst = dst[0 := UDPProtocolVersion];
          dst = dst[1 := UDPTypeData];
          dst = copy_at 2 (put_be32 sessionID) dst;
          dst = copy_at 6 (put_be32 packetID) dst;
          dst = dst[10 := fragID];
          dst = dst[11 := fragCount]
      in copy_at UDPHeaderSize payload dst)"

definition DecodeUDP :: "bytes \<Rightarrow> udp_error + UDPHeader \<times> bytes" where
  "DecodeUDP data =
     (if length data < UDPHeaderSize then Inl ErrUDPDataTooShort
      else let version = data ! 0; pktType = data ! 1 in
      if version \<noteq> UDPProtocolVersion then Inl (ErrUDPUnsupportedVersion version)
      else if pktType \<noteq> UDPTypeData then Inl (ErrUDPUnsupportedType pktType)
      else let sessionID = be32 (slice 2 6 data); packetID = be32 (slice 6 10 data);
               fragID = data ! 10; fragCount = data ! 11 in
      if fragCount = 0 \<or> fragID \<ge> fragCount \<or> unat fragCount > MaxUDPFragments
      then Inl ErrUDPInvalidFragment
      else Inr (\<lparr>Version = version, Type = pktType, SessionID = sessionID, PacketID = packetID,
                 FragmentID = fragID, FragmentCount = fragCount\<rparr>,
                drop UDPHeaderSize data))"

text \<open>The header values the decoder lets through.\<close>

definition valid_fragment :: "u8 \<Rightarrow> u8 \<Rightarrow> bool" where
  "valid_fragment fragID fragCount \<longleftrightarrow>
     fragCount \<noteq> 0 \<and> fragID < fragCount \<and> unat fragCount \<le> MaxUDPFragments"

definition valid_header :: "UDPHeader \<Rightarrow> bool" where
  "valid_header h \<longleftrightarrow> Version h = UDPProtocolVersion \<and> Type h = UDPTypeData
     \<and> valid_fragment (FragmentID h) (FragmentCount h)"

definition data_header :: "u32 \<Rightarrow> u32 \<Rightarrow> u8 \<Rightarrow> u8 \<Rightarrow> UDPHeader" where
  "data_header sid pid i n = \<lparr>Version = UDPProtocolVersion, Type = UDPTypeData, SessionID = sid,
     PacketID = pid, FragmentID = i, FragmentCount = n\<rparr>"

lemma data_header_simps [simp]:
  "Version (data_header sid pid i n) = UDPProtocolVersion"
  "Type (data_header sid pid i n) = UDPTypeData"
  "SessionID (data_header sid pid i n) = sid"
  "PacketID (data_header sid pid i n) = pid"
  "FragmentID (data_header sid pid i n) = i"
  "FragmentCount (data_header sid pid i n) = n"
  by (simp_all add: data_header_def)

lemma data_header_eta:
  "valid_header h \<Longrightarrow> data_header (SessionID h) (PacketID h) (FragmentID h) (FragmentCount h) = h"
  by (cases h) (simp add: data_header_def valid_header_def)

text \<open>The encoding is the header followed by the payload, whatever the buffer held before.\<close>

lemma EncodeUDP_layout [wire]:
  "EncodeUDP dst sid pid i n payload =
     [UDPProtocolVersion, UDPTypeData] @ put_be32 sid @ put_be32 pid @ [i, n] @ payload"
proof -
  obtain hd tl where r: "reslice dst (12 + length payload) = hd @ tl"
    and hd: "length hd = 12" and tl: "length tl = length payload"
    by (metis append_take_drop_id length_reslice length_take length_drop add_diff_cancel_left'
        le_add1 min.absorb2)
  have "hd = take 2 hd @ take 4 (drop 2 hd) @ take 4 (drop 6 hd) @ drop 10 hd"
    using split_3 [of hd 2 4 4] by simp
  moreover from hd have "length (take 2 hd) = 2" "length (drop 10 hd) = 2"
    by simp_all
  then obtain a b k l where "take 2 hd = [a, b]" "drop 10 hd = [k, l]"
    unfolding length_eq_2 by blast
  moreover define s p where "s = take 4 (drop 2 hd)" and "p = take 4 (drop 6 hd)"
  ultimately have hd_eq: "hd = [a, b] @ s @ p @ [k, l]"
    by simp
  have len: "length s = 4" "length p = 4"
    using hd by (simp_all add: s_def p_def)
  have "copy_at 2 x ([v, w] @ s @ p @ z) = [v, w] @ x @ p @ z" if "length x = 4" for v w x z
    using that len by (simp add: copy_at_def)
  moreover have "copy_at 6 x ([v, w] @ y @ p @ z) = [v, w] @ y @ x @ z"
    if "length x = 4" "length y = 4" for v w x y z
    using that len by (simp add: copy_at_def)
  moreover have "([v, w] @ x @ y @ [k, l] @ z)[10 := c, 11 := d] = [v, w] @ x @ y @ [c, d] @ z"
    if "length x = 4" "length y = 4" for v w c d and x y z :: bytes
    using that by (simp add: list_update_append)
  moreover have "copy_at 12 payload ([v, w] @ x @ y @ [c, d] @ tl) = [v, w] @ x @ y @ [c, d] @ payload"
    if "length x = 4" "length y = 4" for v w c d and x y :: bytes
    using that tl by (simp add: copy_at_def)
  ultimately show ?thesis
    by (simp add: EncodeUDP_def Let_def UDPHeaderSize_def r hd_eq)
qed

lemma length_EncodeUDP [simp, wire]:
  "length (EncodeUDP dst sid pid i n payload) = UDPHeaderSize + length payload"
  by (simp add: EncodeUDP_layout udp_consts)

lemma EncodeUDP_buffer: "EncodeUDP dst sid pid i n payload = EncodeUDP [] sid pid i n payload"
  by (simp add: EncodeUDP_layout)

text \<open>What the decoder makes of any byte string that has the encoder's layout.\<close>

lemma DecodeUDP_layout:
  "DecodeUDP (EncodeUDP dst sid pid i n payload) =
     (if valid_fragment i n then Inr (data_header sid pid i n, payload)
      else Inl ErrUDPInvalidFragment)"
  by (auto simp: DecodeUDP_def EncodeUDP_layout Let_def udp_consts valid_fragment_def slice_def
      data_header_def put_be32_def be32_put_be32 [unfolded put_be32_def] not_le)

lemma DecodeUDP_EncodeUDP [simp]:
  "valid_fragment i n \<Longrightarrow>
     DecodeUDP (EncodeUDP dst sid pid i n payload) = Inr (data_header sid pid i n, payload)"
  by (simp add: DecodeUDP_layout)

lemma DecodeUDP_Inr:
  assumes "DecodeUDP data = Inr (h, payload)"
  shows "valid_header h"
    and "data = EncodeUDP [] (SessionID h) (PacketID h) (FragmentID h) (FragmentCount h) payload"
proof -
  from assms have len: "12 \<le> length data"
    by (auto simp: DecodeUDP_def udp_consts split: if_splits)
  then obtain a b s p i n rest
    where data: "data = [a, b] @ s @ p @ [i, n] @ rest" and "length s = 4" "length p = 4"
  proof -
    have 1: "data = take 2 data @ take 4 (drop 2 data) @ take 4 (drop 6 data) @ drop 10 data"
      using split_3 [of data 2 4 4] by simp
    have 2: "drop 10 data = take 2 (drop 10 data) @ drop 12 data"
      using append_take_drop_id [of 2 "drop 10 data"] by simp
    have "length (take 2 data) = 2" "length (take 2 (drop 10 data)) = 2"
      using len by simp_all
    then obtain a b i n where "take 2 data = [a, b]" "take 2 (drop 10 data) = [i, n]"
      unfolding length_eq_2 by blast
    with 1 2 have "data = [a, b] @ take 4 (drop 2 data) @ take 4 (drop 6 data) @ [i, n] @ drop 12 data"
      by metis
    then show ?thesis
      by (rule that) (use len in simp_all)
  qed
  have enc: "data = EncodeUDP [] (be32 s) (be32 p) i n rest"
    if "a = UDPProtocolVersion" "b = UDPTypeData"
    using that data \<open>length s = 4\<close> \<open>length p = 4\<close>
    by (simp add: EncodeUDP_layout put_be32_be32)
  have "a = UDPProtocolVersion" "b = UDPTypeData"
    using assms data by (auto simp: DecodeUDP_def Let_def udp_consts split: if_splits)
  note enc = enc [OF this]
  from assms have "valid_fragment i n" "h = data_header (be32 s) (be32 p) i n" "payload = rest"
    unfolding enc by (auto simp: DecodeUDP_layout split: if_splits)
  then show "valid_header h"
    and "data = EncodeUDP [] (SessionID h) (PacketID h) (FragmentID h) (FragmentCount h) payload"
    using enc by (simp_all add: valid_header_def)
qed

text \<open>A message is a header with its payload; the format is exact in both directions.\<close>

definition udp_message :: "UDPHeader \<times> bytes \<Rightarrow> bytes" where
  "udp_message = (\<lambda>(h, payload).
     EncodeUDP [] (SessionID h) (PacketID h) (FragmentID h) (FragmentCount h) payload)"

definition valid_message :: "UDPHeader \<times> bytes \<Rightarrow> bool" where
  "valid_message = (\<lambda>(h, payload). valid_header h)"

lemma DecodeUDP_iff:
  "DecodeUDP data = Inr (h, payload) \<longleftrightarrow> valid_header h
     \<and> data = EncodeUDP buf (SessionID h) (PacketID h) (FragmentID h) (FragmentCount h) payload"
  (is "_ \<longleftrightarrow> valid_header h \<and> data = ?enc buf")
proof -
  have buf: "?enc buf = ?enc []" by (rule EncodeUDP_buffer)
  show ?thesis
  proof
    assume "DecodeUDP data = Inr (h, payload)"
    then show "valid_header h \<and> data = ?enc buf"
      unfolding buf using DecodeUDP_Inr by blast
  next
    assume v: "valid_header h \<and> data = ?enc buf"
    then have "DecodeUDP data =
        Inr (data_header (SessionID h) (PacketID h) (FragmentID h) (FragmentCount h), payload)"
      by (simp add: valid_header_def)
    then show "DecodeUDP data = Inr (h, payload)"
      using v by (simp add: data_header_eta)
  qed
qed

interpretation udp: datagram_format udp_message DecodeUDP valid_message
  by unfold_locales
    (auto simp: udp_message_def valid_message_def DecodeUDP_iff [where buf = "[]"])

text \<open>
  C35: The datagram codec is exact: a byte string decodes to a header and a payload if and only if
  the header is one the program sends (version 1, data type, a fragment number below a count of at
  most 64) and the string is what the encoder writes for it, into whatever buffer it is given to
  reuse. So decoding inverts encoding, nothing is accepted that was not encoded, and stale buffer
  contents never reach the wire.
\<close>

theorem udp_datagram_exact:
  "DecodeUDP data = Inr (h, payload) \<longleftrightarrow> valid_header h
     \<and> data = EncodeUDP buf (SessionID h) (PacketID h) (FragmentID h) (FragmentCount h) payload"
  by (rule DecodeUDP_iff)

end
