(* ===== verification/Fragmentation.thy ===== *)
theory Fragmentation
  imports Udp_Datagram
begin

text \<open>
  The fragmenter of \<open>internal/udp/fragment.go\<close>: a packet is cut into chunks of at most
  \<open>maxPayload\<close> bytes, each chunk is encoded with its index into one pooled buffer and handed to a
  callback, and the first error of the callback ends the loop. The callback is a state
  transformer, so sending, counting and failing transports are all instances of it.
\<close>

definition DefaultBufferSize :: nat where "DefaultBufferSize = 2048"

record Fragmenter =
  maxPayload :: nat

definition NewFragmenter :: "int \<Rightarrow> Fragmenter" where
  "NewFragmenter m = \<lparr>maxPayload = (if m \<le> 0 then DefaultMaxUDPPayload else nat m)\<rparr>"

definition valid_fragmenter :: "Fragmenter \<Rightarrow> bool" where
  "valid_fragmenter f \<longleftrightarrow> 0 < maxPayload f"

lemma valid_NewFragmenter [simp]: "valid_fragmenter (NewFragmenter m)"
  by (simp add: valid_fragmenter_def NewFragmenter_def udp_consts)

datatype 'e fragment_error = ErrPacketTooLarge nat | HandlerError 'e

type_synonym ('s, 'e) handler = "'s \<Rightarrow> bytes \<Rightarrow> 's \<times> 'e option"

definition numFrags :: "Fragmenter \<Rightarrow> bytes \<Rightarrow> nat" where
  "numFrags f packet = (length packet + maxPayload f - 1) div maxPayload f"

definition chunk :: "Fragmenter \<Rightarrow> bytes \<Rightarrow> nat \<Rightarrow> bytes" where
  "chunk f packet i =
     (let start = i * maxPayload f;
          stop = start + maxPayload f;
          stop = (if stop > length packet then length packet else stop)
      in slice start stop packet)"

text \<open>What the pooled buffer holds after a datagram was encoded in it, or not if it was too small.\<close>

definition buffer_after :: "bytes \<Rightarrow> bytes \<Rightarrow> bytes" where
  "buffer_after buf encoded =
     (if length encoded \<le> length buf then encoded @ drop (length encoded) buf else buf)"

text \<open>The loop over the fragments, from index \<open>i\<close> with \<open>n\<close> fragments left.\<close>

fun fragment_loop ::
  "Fragmenter \<Rightarrow> u32 \<Rightarrow> u32 \<Rightarrow> bytes \<Rightarrow> u8 \<Rightarrow> bytes \<Rightarrow> nat \<Rightarrow> nat \<Rightarrow> ('s, 'e) handler \<Rightarrow> 's
     \<Rightarrow> 's \<times> 'e fragment_error option" where
  "fragment_loop f sid pid packet fragCount buf i 0 handleFrag s = (s, None)"
| "fragment_loop f sid pid packet fragCount buf i (Suc n) handleFrag s =
     (let encoded = EncodeUDP buf sid pid (of_nat i) fragCount (chunk f packet i)
      in case handleFrag s encoded of
           (s', Some e) \<Rightarrow> (s', Some (HandlerError e))
         | (s', None) \<Rightarrow> fragment_loop f sid pid packet fragCount (buffer_after buf encoded) (Suc i) n
                           handleFrag s')"

definition Fragment ::
  "Fragmenter \<Rightarrow> bytes \<Rightarrow> u32 \<Rightarrow> u32 \<Rightarrow> bytes \<Rightarrow> ('s, 'e) handler \<Rightarrow> 's
     \<Rightarrow> 's \<times> 'e fragment_error option" where
  "Fragment f buf sid pid packet handleFrag s =
     (if length packet = 0 then
        (case handleFrag s (EncodeUDP buf sid pid 0 1 []) of
           (s', e) \<Rightarrow> (s', map_option HandlerError e))
      else if numFrags f packet > MaxUDPFragments then (s, Some (ErrPacketTooLarge (numFrags f packet)))
      else fragment_loop f sid pid packet (of_nat (numFrags f packet)) buf 0 (numFrags f packet)
             handleFrag s)"

text \<open>The datagrams a packet turns into, as a list; \<open>None\<close> when there would be too many.\<close>

definition datagrams :: "Fragmenter \<Rightarrow> u32 \<Rightarrow> u32 \<Rightarrow> bytes \<Rightarrow> bytes list option" where
  "datagrams f sid pid packet =
     (if packet = [] then Some [EncodeUDP [] sid pid 0 1 []]
      else if numFrags f packet > MaxUDPFragments then None
      else Some (map (\<lambda>i. EncodeUDP [] sid pid (of_nat i) (of_nat (numFrags f packet)) (chunk f packet i))
                   [0..<numFrags f packet]))"

text \<open>Handing a list of datagrams to a callback, one after the other, up to its first error.\<close>

fun feed_handler :: "('s, 'e) handler \<Rightarrow> 's \<Rightarrow> bytes list \<Rightarrow> 's \<times> 'e fragment_error option" where
  "feed_handler h s [] = (s, None)"
| "feed_handler h s (d # ds) =
     (case h s d of (s', Some e) \<Rightarrow> (s', Some (HandlerError e)) | (s', None) \<Rightarrow> feed_handler h s' ds)"

lemma fragment_loop_feed:
  "fragment_loop f sid pid packet c buf i n h s =
     feed_handler h s (map (\<lambda>j. EncodeUDP [] sid pid (of_nat j) c (chunk f packet j)) [i..<i + n])"
proof (induction n arbitrary: i buf s)
  case 0
  then show ?case by simp
next
  case (Suc n)
  have "[i..<i + Suc n] = i # [Suc i..<Suc i + n]"
    by (simp add: upt_conv_Cons)
  with Suc.IH show ?case
    by (simp add: Let_def EncodeUDP_buffer [of buf] split: prod.splits option.splits)
qed

lemma Fragment_datagrams:
  "Fragment f buf sid pid packet h s =
     (case datagrams f sid pid packet of
        None \<Rightarrow> (s, Some (ErrPacketTooLarge (numFrags f packet)))
      | Some ds \<Rightarrow> feed_handler h s ds)"
  by (auto simp: Fragment_def datagrams_def fragment_loop_feed EncodeUDP_buffer [of buf]
      split: prod.splits option.splits)

section \<open>The chunks of a packet\<close>

lemma chunk_eq: "chunk f packet i = take (maxPayload f) (drop (i * maxPayload f) packet)"
  by (auto simp: chunk_def slice_def Let_def)

lemma chunk_Nil [simp]: "chunk f [] i = []"
  by (simp add: chunk_eq)

lemma concat_chunks_take:
  "concat (map (chunk f packet) [0..<n]) = take (n * maxPayload f) packet"
  by (induction n) (auto simp: chunk_eq take_add add.commute [of "maxPayload f"])

lemma numFrags_covers:
  assumes "valid_fragmenter f"
  shows "length packet \<le> numFrags f packet * maxPayload f"
proof -
  let ?m = "maxPayload f"
  have "length packet + ?m - 1 = numFrags f packet * ?m + (length packet + ?m - 1) mod ?m"
    by (simp add: numFrags_def)
  moreover have "(length packet + ?m - 1) mod ?m < ?m"
    using assms by (simp add: valid_fragmenter_def)
  ultimately show ?thesis by linarith
qed

lemma concat_chunks:
  "valid_fragmenter f \<Longrightarrow> concat (map (chunk f packet) [0..<numFrags f packet]) = packet"
  by (simp add: concat_chunks_take numFrags_covers)

lemma length_chunk_le: "length (chunk f packet i) \<le> maxPayload f"
  by (simp add: chunk_eq)

lemma numFrags_pos: "valid_fragmenter f \<Longrightarrow> packet \<noteq> [] \<Longrightarrow> 0 < numFrags f packet"
  by (cases packet) (auto simp: numFrags_def valid_fragmenter_def div_greater_zero_iff)

lemma numFrags_le_iff:
  assumes "valid_fragmenter f"
  shows "numFrags f packet \<le> n \<longleftrightarrow> length packet \<le> n * maxPayload f"
proof
  assume "numFrags f packet \<le> n"
  then show "length packet \<le> n * maxPayload f"
    using numFrags_covers [OF assms, of packet] by (meson le_trans mult_le_mono1)
next
  assume le: "length packet \<le> n * maxPayload f"
  have m: "0 < maxPayload f" using assms by (simp add: valid_fragmenter_def)
  have "numFrags f packet < Suc n"
    unfolding numFrags_def using m le
    by (subst div_less_iff_less_mult) auto
  then show "numFrags f packet \<le> n" by simp
qed

lemma valid_fragment_of_nat:
  "i < n \<Longrightarrow> n \<le> MaxUDPFragments \<Longrightarrow> valid_fragment (of_nat i) (of_nat n)"
  by (auto simp: valid_fragment_def udp_consts word_less_nat_alt unat_of_nat word_unat_eq_iff)

text \<open>Every datagram decodes to its own fragment of the packet.\<close>

lemma datagram_decodes:
  assumes "i < n" "n \<le> MaxUDPFragments"
  shows "DecodeUDP (EncodeUDP dst sid pid (of_nat i) (of_nat n) (chunk f packet i))
    = Inr (data_header sid pid (of_nat i) (of_nat n), chunk f packet i)"
  using assms by (simp add: valid_fragment_of_nat)

lemma datagrams_Some_iff:
  "valid_fragmenter f \<Longrightarrow>
     datagrams f sid pid packet \<noteq> None \<longleftrightarrow> length packet \<le> MaxUDPFragments * maxPayload f"
  by (cases "packet = []") (auto simp: datagrams_def numFrags_le_iff [symmetric])

text \<open>
  Fragmenting a packet. If the packet fits into 64 fragments, the callback is handed, in order and
  until it first fails, datagrams that decode to the fragments 0, 1, ... of one and the same packet
  number; none is larger than the fragmenter allows, their payloads concatenated are the packet, and
  an empty packet still makes one datagram. If it does not fit, the callback is never called and the
  error carries the number of fragments it would have taken.
\<close>

theorem Fragment_outcome:
  assumes "valid_fragmenter f"
  shows "if length packet \<le> MaxUDPFragments * maxPayload f
    then \<exists>ds. Fragment f buf sid pid packet handleFrag s = feed_handler handleFrag s ds
      \<and> map DecodeUDP ds = map (\<lambda>i. Inr (data_header sid pid (of_nat i) (of_nat (length ds)), chunk f packet i))
          [0..<length ds]
      \<and> length ds = max 1 (numFrags f packet) \<and> length ds \<le> MaxUDPFragments
      \<and> (\<forall>d\<in>set ds. length d \<le> UDPHeaderSize + maxPayload f)
      \<and> concat (map (chunk f packet) [0..<length ds]) = packet
    else Fragment f buf sid pid packet handleFrag s
      = (s, Some (ErrPacketTooLarge (numFrags f packet)))"
proof (cases "length packet \<le> MaxUDPFragments * maxPayload f")
  case True
  then obtain ds where ds: "datagrams f sid pid packet = Some ds"
    using datagrams_Some_iff [OF assms] by blast
  have n: "numFrags f packet \<le> MaxUDPFragments" using True assms by (simp add: numFrags_le_iff)
  have "numFrags f packet = 0" if "packet = []"
    using numFrags_le_iff [OF assms, of packet 0] that by simp
  moreover have "0 < numFrags f packet" if "packet \<noteq> []" using numFrags_pos [OF assms that] .
  ultimately have ds_facts: "length ds = max 1 (numFrags f packet)"
    "map DecodeUDP ds = map (\<lambda>i. Inr (data_header sid pid (of_nat i) (of_nat (length ds)), chunk f packet i))
       [0..<length ds]"
    "\<forall>d\<in>set ds. length d \<le> UDPHeaderSize + maxPayload f"
    "concat (map (chunk f packet) [0..<length ds]) = packet"
    using ds n assms
    by (auto simp: datagrams_def datagram_decodes concat_chunks length_chunk_le
        valid_fragment_def udp_consts split: if_splits)
  have sent: "Fragment f buf sid pid packet handleFrag s = feed_handler handleFrag s ds"
    using ds by (simp add: Fragment_datagrams)
  have max: "length ds \<le> MaxUDPFragments"
    using n ds_facts(1) by (simp add: udp_consts)
  show ?thesis
    using True by (simp only: if_True) (intro exI [of _ ds] conjI sent max ds_facts)
next
  case False
  then have "datagrams f sid pid packet = None"
    using datagrams_Some_iff [OF assms, of sid pid packet] by simp
  then show ?thesis using False by (simp add: Fragment_datagrams)
qed

text \<open>The witness cuts five bytes into fragments of two.\<close>

lemma Fragment_outcome_witness:
  "\<exists>ds. Fragment (NewFragmenter 2) [] 7 9 [1, 2, 3, 4, 5] (\<lambda>sent d. (sent @ [d], None :: io_error option)) []
      = feed_handler (\<lambda>sent d. (sent @ [d], None)) [] ds \<and> length ds = 3"
proof -
  have n: "numFrags (NewFragmenter 2) [1, 2, 3, 4, 5] = 3" "maxPayload (NewFragmenter 2) = 2"
    by (simp_all add: numFrags_def NewFragmenter_def)
  show ?thesis
    using Fragment_outcome [OF valid_NewFragmenter, of "[1, 2, 3, 4, 5]" 2 "[]" 7 9
        "\<lambda>sent d. (sent @ [d], None :: io_error option)" "[]"] n
    by (auto simp: udp_consts)
qed

end
