(* ===== verification/Reassembly_Correct.thy ===== *)
theory Reassembly_Correct
  imports Reassembly
begin

text \<open>
  What the reassembler computes: the fragments of a packet, in any order and repeated at will,
  give back the packet when the last one arrives, and whatever else is fed in between, nothing but
  the packet ever comes out under its key.
\<close>

section \<open>Genuine fragments give back the packet\<close>

text \<open>Entry \<open>e\<close> holds exactly the fragments of \<open>packet\<close> with an index in \<open>I\<close>.\<close>

definition holds_part :: "Fragmenter \<Rightarrow> bytes \<Rightarrow> nat set \<Rightarrow> packetReassembly \<Rightarrow> bool" where
  "holds_part f packet I e \<longleftrightarrow> fragmentCount e = of_nat (numFrags f packet) \<and>
     (\<forall>i<numFrags f packet. fragments e ! i = (if i \<in> I then Some (chunk f packet i) else None))"

text \<open>A packet the fragmenter cuts into several fragments, and that may be reassembled.\<close>

definition multi_fragment :: "Fragmenter \<Rightarrow> bytes \<Rightarrow> bool" where
  "multi_fragment f packet \<longleftrightarrow> valid_fragmenter f \<and> 1 < numFrags f packet
     \<and> numFrags f packet \<le> MaxUDPFragments \<and> length packet \<le> MaxUDPPacketSize"

definition fragment_header :: "Fragmenter \<Rightarrow> u32 \<Rightarrow> u32 \<Rightarrow> bytes \<Rightarrow> nat \<Rightarrow> UDPHeader" where
  "fragment_header f sid pid packet i = data_header sid pid (of_nat i) (of_nat (numFrags f packet))"

lemma fragment_header_cond:
  assumes "multi_fragment f packet" "i < numFrags f packet"
  shows "unat (FragmentCount (fragment_header f sid pid packet i)) = numFrags f packet"
    "unat (FragmentID (fragment_header f sid pid packet i)) = i"
    "FragmentID (fragment_header f sid pid packet i) < FragmentCount (fragment_header f sid pid packet i)"
    "\<not> (FragmentCount (fragment_header f sid pid packet i) = 1
        \<and> FragmentID (fragment_header f sid pid packet i) = 0)"
proof -
  have n: "numFrags f packet < 2 ^ 8" "1 < numFrags f packet" "i < 2 ^ 8"
    using assms by (auto simp: multi_fragment_def udp_consts)
  then show u: "unat (FragmentCount (fragment_header f sid pid packet i)) = numFrags f packet"
    "unat (FragmentID (fragment_header f sid pid packet i)) = i"
    by (simp_all add: fragment_header_def unat_of_nat)
  with assms(2) show "FragmentID (fragment_header f sid pid packet i)
      < FragmentCount (fragment_header f sid pid packet i)"
    by (simp add: word_less_nat_alt)
  show "\<not> (FragmentCount (fragment_header f sid pid packet i) = 1
        \<and> FragmentID (fragment_header f sid pid packet i) = 0)"
    using u(1) n(2) by auto
qed

lemma sum_list_le_prefix:
  assumes "length xs = m" "n \<le> m" "drop n xs = replicate (m - n) None"
    "\<And>i. i < n \<Longrightarrow> xs ! i = None \<or> xs ! i = Some (ys i)"
  shows "sum_list (map (case_option 0 length) xs) \<le> length (concat (map ys [0..<n]))"
proof -
  have "xs = take n xs @ replicate (m - n) None"
    using assms(3) by (metis append_take_drop_id)
  then have "sum_list (map (case_option 0 length) xs) =
      sum_list (map (case_option 0 length) (take n xs @ replicate (m - n) None))"
    by simp
  also have "\<dots> = sum_list (map (case_option 0 length) (take n xs))"
    by (simp add: sum_list_replicate)
  also have "take n xs = map ((!) xs) [0..<n]"
    using assms(1,2) by (intro nth_equalityI) auto
  also have "sum_list (map (case_option 0 length) (map ((!) xs) [0..<n]))
      = (\<Sum>i\<leftarrow>[0..<n]. case_option 0 length (xs ! i))"
    by (simp add: comp_def)
  also have "\<dots> \<le> (\<Sum>i\<leftarrow>[0..<n]. length (ys i))"
    using assms(4) by (intro sum_list_mono) (force split: option.splits)
  also have "\<dots> = length (concat (map ys [0..<n]))"
    by (simp add: length_concat comp_def)
  finally show ?thesis .
qed

lemma genuine_bytes:
  assumes "entry_wf k e" "multi_fragment f packet"
    "unat (fragmentCount e) = numFrags f packet"
    "\<And>i. i < numFrags f packet \<Longrightarrow> fragments e ! i = None \<or> fragments e ! i = Some (chunk f packet i)"
  shows "totalBytes e \<le> MaxUDPPacketSize"
proof -
  have "bytes_held e \<le> length (concat (map (chunk f packet) [0..<numFrags f packet]))"
    unfolding bytes_held_def
    by (rule sum_list_le_prefix [where m = MaxUDPFragments])
      (use assms in \<open>auto simp: entry_wf_def\<close>)
  then show ?thesis
    using assms(1,2) by (simp add: concat_chunks multi_fragment_def entry_wf_def)
qed

lemma assemble_genuine:
  assumes "multi_fragment f packet" "unat (fragmentCount e) = numFrags f packet"
    "\<And>i. i < numFrags f packet \<Longrightarrow> fragments e ! i = Some (chunk f packet i)"
  shows "assemble e = packet"
proof -
  have "map (\<lambda>i. case fragments e ! i of None \<Rightarrow> [] | Some x \<Rightarrow> x) [0..<numFrags f packet]
      = map (chunk f packet) [0..<numFrags f packet]"
    using assms(3) by simp
  then have "assemble e = concat (map (chunk f packet) [0..<numFrags f packet])"
    by (simp only: assemble_def assms(2))
  then show ?thesis
    using assms(1) by (simp add: multi_fragment_def concat_chunks)
qed

text \<open>
  The table holds the fragments \<open>I\<close> of the packet: its entry does, or none has come and there is
  room for one more.
\<close>

definition in_flight :: "Fragmenter \<Rightarrow> u32 \<Rightarrow> u32 \<Rightarrow> bytes \<Rightarrow> nat set \<Rightarrow> Reassembler \<Rightarrow> bool" where
  "in_flight f sid pid packet I r \<longleftrightarrow> (case fmlookup (pending r) (sid, pid) of
     Some e \<Rightarrow> holds_part f packet I e
   | None \<Rightarrow> I = {} \<and> fsize (pending r) < MaxGlobalReassemblyCount
       \<and> count_of (sessionCount r) sid < MaxReassemblyPerSession)"

lemma holds_part_genuine:
  "holds_part f packet I e \<Longrightarrow> i < numFrags f packet \<Longrightarrow>
     fragments e ! i = None \<or> fragments e ! i = Some (chunk f packet i)"
  by (simp add: holds_part_def)

lemma holds_part_count:
  "holds_part f packet I e \<Longrightarrow> multi_fragment f packet \<Longrightarrow>
     unat (fragmentCount e) = numFrags f packet"
  by (simp add: holds_part_def multi_fragment_def unat_of_nat udp_consts)

lemma holds_part_stored:
  assumes "holds_part f packet I e" "i < numFrags f packet" "numFrags f packet \<le> length (fragments e)"
  shows "holds_part f packet (insert i I) (stored i (chunk f packet i) e)"
  using assms by (auto simp: holds_part_def nth_list_update)

lemma holds_part_full:
  assumes "holds_part f packet I e" "multi_fragment f packet" "entry_wf k e"
  shows "receivedCount e = fragmentCount e \<longleftrightarrow> {..<numFrags f packet} \<subseteq> I"
  using received_full_iff [OF assms(3)] holds_part_count [OF assms(1,2)] assms(1)
  by (auto simp: holds_part_def)

text \<open>The entry a genuine fragment meets, after \<open>get_entry\<close>.\<close>

lemma in_flight_entry:
  assumes "in_flight f sid pid packet I r" "accounts_ok r" "multi_fragment f packet"
    "i < numFrags f packet" "h = fragment_header f sid pid packet i"
  obtains e r' where "get_entry now h r = Inr (e, r')" "holds_part f packet I e"
    "closed r' = closed r"
proof (cases "fmlookup (pending r) (sid, pid)")
  case (Some e)
  then show ?thesis
    using assms(1,5) by (intro that [of e r])
      (simp_all add: get_entry_def in_flight_def fragment_header_def)
next
  case None
  then have I: "I = {}" and room: "fsize (pending r) < MaxGlobalReassemblyCount"
    "count_of (sessionCount r) sid < MaxReassemblyPerSession"
    using assms(1) by (simp_all add: in_flight_def)
  obtain e0 r0 where g: "pool_get r = (e0, r0)" by fastforce
  then obtain e r' where ge: "get_entry now h r = Inr (e, r')"
    using None room assms(5) by (simp add: get_entry_def Let_def fragment_header_def)
  from this assms(2) show ?thesis
  proof (cases rule: get_entry_cases)
    case old
    then show ?thesis using None assms(5) by (simp add: fragment_header_def)
  next
    case new
    then have "holds_part f packet I e"
      using I assms(3,5) by (simp add: holds_part_def fresh_entry_def clean_def fragment_header_def
          multi_fragment_def)
    then show ?thesis using ge new(9) by (intro that)
  qed
qed

text \<open>One genuine fragment: it is added, and the packet is returned exactly when none is missing.\<close>

lemma feed_genuine:
  assumes ok: "reassembler_ok r" and open_: "\<not> closed r" and multi: "multi_fragment f packet"
    and i: "i < numFrags f packet" and part: "in_flight f sid pid packet I r"
    and h: "h = fragment_header f sid pid packet i"
    and fed: "FeedAppend now dst_nil h (chunk f packet i) r = (r', res)"
  shows "if {..<numFrags f packet} \<subseteq> insert i I
    then res = Inr (Some packet) \<and> fmlookup (pending r') (sid, pid) = None
    else res = Inr None \<and> \<not> closed r' \<and> in_flight f sid pid packet (insert i I) r'"
proof -
  let ?n = "numFrags f packet" and ?c = "chunk f packet i" and ?k = "(sid, pid)"
  note hc = fragment_header_cond [OF multi i, of sid pid, folded h]
  have key: "(SessionID h, PacketID h) = ?k" "SessionID h = sid" "PacketID h = pid"
    by (simp_all add: h fragment_header_def)
  have acc: "accounts_ok r" using ok by (simp add: reassembler_ok_def)
  obtain e r1 where ge: "get_entry now h r = Inr (e, r1)" and e: "holds_part f packet I e"
    and cl: "closed r1 = closed r"
    using in_flight_entry [OF part acc multi i h] by blast
  have n64: "?n \<le> MaxUDPFragments" using multi by (simp add: multi_fragment_def)
  have ok1: "reassembler_ok r1"
    using get_entry_ok [OF ge ok] hc(1) i n64 by linarith
  have lk: "fmlookup (pending r1) ?k = Some e"
    using get_entry_lookup [OF ge acc] key by simp
  have eok: "entry_ok ?k e"
    using ok1 lk by (auto simp: reassembler_ok_def dest: entries_ok_lookup)
  then have wf: "entry_wf ?k e" by (simp add: entry_ok_def)
  have cnt: "fragmentCount e = FragmentCount h"
    using holds_part_count [OF e multi] hc(1) by (simp add: word_unat_eq_iff)
  have notfull: "\<not> {..<?n} \<subseteq> I"
    using holds_part_full [OF e multi wf] eok by (simp add: entry_ok_def)
  have pk: "packet \<noteq> []"
    using multi by (auto simp: multi_fragment_def numFrags_def valid_fragmenter_def)
  have fe: "feed_entry dst_nil h ?c e r1 = (r', res)"
    using FeedAppend_feed_entry [of h r now dst_nil ?c] fed hc n64 open_ ge by simp
  show ?thesis
  proof (cases "i \<in> I")
    case True
    then have "fragments e ! i = Some ?c" using e i by (simp add: holds_part_def)
    then have "res = Inr None" "r' = r1\<lparr>pending := fmupd ?k e (pending r1)\<rparr>"
      using fe eok by (auto simp: feed_entry_def Let_def hc(2) cnt key entry_ok_def)
    then show ?thesis
      using True notfull e cl open_ by (simp add: insert_absorb in_flight_def)
  next
    case False
    then have None: "fragments e ! i = None" using e i by (simp add: holds_part_def)
    let ?e = "stored i ?c e"
    have i_cnt: "i < unat (fragmentCount e)" using hc(1) cnt i by simp
    have wf': "entry_wf ?k ?e" using stored_wf(1) [OF eok i_cnt None] .
    have e': "holds_part f packet (insert i I) ?e"
      using e i n64 wf by (intro holds_part_stored) (simp_all add: entry_wf_def)
    have tb: "totalBytes ?e \<le> MaxUDPPacketSize"
      by (rule genuine_bytes [OF wf' multi holds_part_count [OF e' multi] holds_part_genuine [OF e']])
    have full: "receivedCount ?e = fragmentCount ?e \<longleftrightarrow> {..<?n} \<subseteq> insert i I"
      using holds_part_full [OF e' multi wf'] .
    have out: "assemble ?e = packet" if "{..<?n} \<subseteq> insert i I"
      by (rule assemble_genuine [OF multi holds_part_count [OF e' multi]])
        (use e' that in \<open>auto simp: holds_part_def\<close>)
    show ?thesis
    proof (cases "{..<?n} \<subseteq> insert i I")
      case True
      then have "receivedCount ?e = fragmentCount ?e" using full by blast
      then have "res = Inr (append_to dst_nil packet)" "fmlookup (pending r') ?k = None"
        using fe tb out [OF True] by (auto simp: feed_entry_def Let_def hc(2) cnt key None)
      then show ?thesis using True pk by (simp add: append_to_def)
    next
      case False
      then have "receivedCount ?e \<noteq> fragmentCount ?e" using full by blast
      then have "res = Inr None" "closed r' = closed r1" "fmlookup (pending r') ?k = Some ?e"
        using fe tb by (auto simp: feed_entry_def Let_def hc(2) cnt key None)
      then show ?thesis using False e' cl open_ by (simp add: in_flight_def)
    qed
  qed
qed

text \<open>A sequence of arrivals of one packet's fragments, each at its own time.\<close>

fun feed_indices ::
  "bool \<Rightarrow> Fragmenter \<Rightarrow> u32 \<Rightarrow> u32 \<Rightarrow> bytes \<Rightarrow> (time \<times> nat) list \<Rightarrow> Reassembler
     \<Rightarrow> Reassembler \<times> (reassembly_error + bytes option) list" where
  "feed_indices dst_nil f sid pid packet [] r = (r, [])"
| "feed_indices dst_nil f sid pid packet ((now, i) # is) r =
     (case FeedAppend now dst_nil (fragment_header f sid pid packet i) (chunk f packet i) r of
        (r', res) \<Rightarrow> case feed_indices dst_nil f sid pid packet is r' of
          (r'', ress) \<Rightarrow> (r'', res # ress))"

lemma feed_indices_complete:
  assumes "multi_fragment f packet" "reassembler_ok r" "\<not> closed r"
    "in_flight f sid pid packet I r"
    "\<forall>(now, j)\<in>set arrivals. j < numFrags f packet" "i < numFrags f packet"
    "i \<notin> I \<union> snd ` set arrivals" "{..<numFrags f packet} \<subseteq> insert i (I \<union> snd ` set arrivals)"
  shows "snd (feed_indices dst_nil f sid pid packet (arrivals @ [(now, i)]) r)
      = replicate (length arrivals) (Inr None) @ [Inr (Some packet)]"
  using assms(2-)
proof (induction arrivals arbitrary: r I)
  case Nil
  obtain r' res where fed: "FeedAppend now dst_nil (fragment_header f sid pid packet i)
      (chunk f packet i) r = (r', res)" by fastforce
  from feed_genuine [OF Nil.prems(1,2) assms(1) Nil.prems(5,3) refl fed] Nil.prems(7)
  show ?case by (simp add: fed)
next
  case (Cons a arrivals)
  obtain t j where a: "a = (t, j)" by fastforce
  have j: "j < numFrags f packet" and ji: "j \<noteq> i" using Cons.prems by (auto simp: a)
  obtain r' res where fed: "FeedAppend t dst_nil (fragment_header f sid pid packet j)
      (chunk f packet j) r = (r', res)" by fastforce
  have "\<not> {..<numFrags f packet} \<subseteq> insert j I"
    using Cons.prems(5,6) ji by auto
  with feed_genuine [OF Cons.prems(1,2) assms(1) j Cons.prems(3) refl fed]
  have res: "res = Inr None" "\<not> closed r'" "in_flight f sid pid packet (insert j I) r'"
    by simp_all
  have "reassembler_ok r'"
    using FeedAppend_ok [OF Cons.prems(1)] fed by (metis fst_conv)
  from Cons.IH [OF this res(2,3)] Cons.prems(4-7) show ?case
    by (auto simp: a fed res(1) split: prod.splits)
qed

section \<open>Nothing but the packet comes out\<close>

text \<open>Everything that can happen to a reassembler.\<close>

datatype reassembly_event =
    Arrive time bool UDPHeader bytes
  | Tick time "reassemblyKey list"
  | Stop "reassemblyKey list"

fun reassembly_step ::
  "reassembly_event \<Rightarrow> Reassembler \<Rightarrow> Reassembler \<times> (reassembly_error + bytes option)" where
  "reassembly_step (Arrive now dst_nil h payload) r = FeedAppend now dst_nil h payload r"
| "reassembly_step (Tick now order) r = (cleaner_tick now order r, Inr None)"
| "reassembly_step (Stop order) r = (cleaner_stop order r, Inr None)"

fun reassembly_run ::
  "reassembly_event list \<Rightarrow> Reassembler \<Rightarrow> Reassembler \<times> (reassembly_error + bytes option) list" where
  "reassembly_run [] r = (r, [])"
| "reassembly_run (ev # evs) r = (case reassembly_step ev r of (r', res) \<Rightarrow>
     case reassembly_run evs r' of (r'', ress) \<Rightarrow> (r'', res # ress))"

text \<open>
  An arrival concerns a packet if it has its key and its number of fragments, and it is genuine if
  it is then one of its fragments. Forged fragments with the same key and count are what
  authentication excludes; everything else may arrive.
\<close>

definition concerns :: "Fragmenter \<Rightarrow> u32 \<Rightarrow> u32 \<Rightarrow> bytes \<Rightarrow> UDPHeader \<Rightarrow> bool" where
  "concerns f sid pid packet h \<longleftrightarrow> SessionID h = sid \<and> PacketID h = pid
     \<and> FragmentCount h = of_nat (numFrags f packet)"

fun genuine :: "Fragmenter \<Rightarrow> u32 \<Rightarrow> u32 \<Rightarrow> bytes \<Rightarrow> reassembly_event \<Rightarrow> bool" where
  "genuine f sid pid packet (Arrive now dst_nil h payload) =
     (concerns f sid pid packet h \<longrightarrow> payload = chunk f packet (unat (FragmentID h)))"
| "genuine f sid pid packet _ = True"

fun answers :: "Fragmenter \<Rightarrow> u32 \<Rightarrow> u32 \<Rightarrow> bytes \<Rightarrow> reassembly_event \<Rightarrow> bool" where
  "answers f sid pid packet (Arrive now dst_nil h payload) = concerns f sid pid packet h"
| "answers f sid pid packet _ = False"

text \<open>Only genuine fragments are held for the packet.\<close>

definition only_genuine :: "Fragmenter \<Rightarrow> bytes \<Rightarrow> packetReassembly \<Rightarrow> bool" where
  "only_genuine f packet e \<longleftrightarrow> (fragmentCount e = of_nat (numFrags f packet) \<longrightarrow>
     (\<forall>i<numFrags f packet. fragments e ! i = None \<or> fragments e ! i = Some (chunk f packet i)))"

definition pending_genuine :: "Fragmenter \<Rightarrow> u32 \<Rightarrow> u32 \<Rightarrow> bytes \<Rightarrow> Reassembler \<Rightarrow> bool" where
  "pending_genuine f sid pid packet r \<longleftrightarrow>
     (\<forall>e. fmlookup (pending r) (sid, pid) = Some e \<longrightarrow> only_genuine f packet e)"

lemma feed_entry_frame:
  "(SessionID h, PacketID h) \<noteq> k \<Longrightarrow>
     fmlookup (pending (fst (feed_entry dst_nil h payload e r))) k = fmlookup (pending r) k"
  by (auto simp: feed_entry_def Let_def)

lemma get_entry_frame:
  "get_entry now h r = Inr (e, r') \<Longrightarrow> (SessionID h, PacketID h) \<noteq> k \<Longrightarrow> accounts_ok r \<Longrightarrow>
     fmlookup (pending r') k = fmlookup (pending r) k"
  by (erule (1) get_entry_cases) auto

lemma only_genuine_stored:
  assumes "only_genuine f packet e" "numFrags f packet \<le> length (fragments e)"
    "fragmentCount e = of_nat (numFrags f packet) \<longrightarrow> payload = chunk f packet i"
  shows "only_genuine f packet (stored i payload e)"
  using assms by (cases "i < length (fragments e)") (auto simp: only_genuine_def nth_list_update)

lemma only_genuine_assemble:
  assumes "only_genuine f packet e" "entry_wf k e" "multi_fragment f packet"
    "fragmentCount e = of_nat (numFrags f packet)" "receivedCount e = fragmentCount e"
  shows "assemble e = packet"
proof -
  have n: "unat (fragmentCount e) = numFrags f packet"
    using assms(3,4) by (simp add: multi_fragment_def unat_of_nat udp_consts)
  have "\<forall>i<numFrags f packet. fragments e ! i \<noteq> None"
    using received_full_iff [OF assms(2)] assms(5) n by simp
  then show ?thesis
    using assms(1,4)
    by (intro assemble_genuine [OF assms(3) n]) (unfold only_genuine_def, blast)
qed

text \<open>A fragment for the packet's entry: what is kept stays genuine, what is returned is the packet.\<close>

lemma feed_entry_genuine:
  assumes fe: "feed_entry dst_nil h payload e r = (r', res)"
    and key: "SessionID h = sid" "PacketID h = pid"
    and multi: "multi_fragment f packet" and e: "entry_ok (sid, pid) e"
    and frag: "FragmentID h < FragmentCount h" and gen: "only_genuine f packet e"
    and payload: "concerns f sid pid packet h \<longrightarrow> payload = chunk f packet (unat (FragmentID h))"
  shows "pending_genuine f sid pid packet r'"
    and "concerns f sid pid packet h \<Longrightarrow> res = Inr (Some d) \<Longrightarrow> d = packet"
proof -
  let ?i = "unat (FragmentID h)"
  have pay: "fragmentCount e = of_nat (numFrags f packet) \<longrightarrow> payload = chunk f packet ?i"
    if "fragmentCount e = FragmentCount h"
    using payload key that by (auto simp: concerns_def)
  have len: "numFrags f packet \<le> length (fragments e)"
    using multi e by (simp add: multi_fragment_def entry_ok_def entry_wf_def)
  have st: "only_genuine f packet (stored ?i payload e)" if "fragmentCount e = FragmentCount h"
    using only_genuine_stored [OF gen len pay [OF that]] .
  show "pending_genuine f sid pid packet r'"
    using fe gen st key
    by (auto simp: feed_entry_def Let_def pending_genuine_def split: if_splits)
  assume con: "concerns f sid pid packet h" and res: "res = Inr (Some d)"
  have ne: "receivedCount e \<noteq> fragmentCount e" using e by (simp add: entry_ok_def)
  from fe res ne have cnt: "fragmentCount e = FragmentCount h" and none: "fragments e ! ?i = None"
    and full: "receivedCount (stored ?i payload e) = fragmentCount e"
    and d: "append_to dst_nil (assemble (stored ?i payload e)) = Some d"
    by (auto simp: feed_entry_def Let_def split: if_splits)
  have "?i < unat (fragmentCount e)" using frag cnt by (simp add: word_less_nat_alt)
  then have "entry_wf (sid, pid) (stored ?i payload e)"
    using e none by (intro stored_wf(1))
  then have "assemble (stored ?i payload e) = packet"
    using con cnt full by (intro only_genuine_assemble [OF st [OF cnt] _ multi]) (simp_all add: concerns_def)
  then show "d = packet" using d by (simp add: append_to_def split: if_splits)
qed

lemma fresh_only_genuine: "fresh_entry now h e \<Longrightarrow> multi_fragment f packet \<Longrightarrow> only_genuine f packet e"
  by (simp add: only_genuine_def fresh_entry_def clean_def multi_fragment_def)

lemma FeedAppend_genuine:
  assumes ok: "reassembler_ok r" and multi: "multi_fragment f packet"
    and pg: "pending_genuine f sid pid packet r"
    and payload: "concerns f sid pid packet h \<longrightarrow> payload = chunk f packet (unat (FragmentID h))"
    and fed: "FeedAppend now dst_nil h payload r = (r', res)"
  shows "pending_genuine f sid pid packet r'"
    and "concerns f sid pid packet h \<Longrightarrow> res = Inr (Some d) \<Longrightarrow> d = packet"
proof -
  have single: "\<not> (FragmentCount h = 1 \<and> FragmentID h = 0)" if "concerns f sid pid packet h"
  proof
    assume "FragmentCount h = 1 \<and> FragmentID h = 0"
    then have "(of_nat (numFrags f packet) :: u8) = 1" using that by (simp add: concerns_def)
    then have "unat (of_nat (numFrags f packet) :: u8) = 1" by simp
    then show False using multi by (simp add: multi_fragment_def unat_of_nat udp_consts)
  qed
  have acc: "accounts_ok r" using ok by (simp add: reassembler_ok_def)
  have both: "pending_genuine f sid pid packet r'
    \<and> (concerns f sid pid packet h \<longrightarrow> res = Inr (Some d) \<longrightarrow> d = packet)"
  proof (cases "(FragmentCount h = 1 \<and> FragmentID h = 0) \<or> FragmentCount h = 0
      \<or> FragmentID h \<ge> FragmentCount h \<or> unat (FragmentCount h) > MaxUDPFragments \<or> closed r")
    case True
    then show ?thesis using fed pg single by (auto simp: FeedAppend_def split: if_splits)
  next
    case False
    then have cond: "unat (FragmentCount h) \<le> MaxUDPFragments" "FragmentID h < FragmentCount h"
      "\<not> (FragmentCount h = 1 \<and> FragmentID h = 0)" "\<not> closed r" "0 < unat (FragmentCount h)"
      by (auto simp: word_gt_0 unat_gt_0)
    show ?thesis
    proof (cases "get_entry now h r")
      case (Inl err)
      then show ?thesis using fed pg cond by (auto simp: FeedAppend_feed_entry)
    next
      case (Inr er)
      then obtain e r1 where ge: "get_entry now h r = Inr (e, r1)" by (cases er) auto
      have fe: "feed_entry dst_nil h payload e r1 = (r', res)"
        using fed cond ge by (simp add: FeedAppend_feed_entry)
      have lk: "fmlookup (pending r1) (SessionID h, PacketID h) = Some e"
        using get_entry_lookup [OF ge acc] .
      have ok1: "reassembler_ok r1" using get_entry_ok [OF ge ok cond(5,1)] .
      show ?thesis
      proof (cases "(SessionID h, PacketID h) = (sid, pid)")
        case True
        have e: "entry_ok (sid, pid) e"
          using ok1 lk True by (auto simp: reassembler_ok_def dest: entries_ok_lookup)
        have og: "only_genuine f packet e"
          using ge acc
        proof (cases rule: get_entry_cases)
          case old
          then show ?thesis using pg True by (simp add: pending_genuine_def)
        next
          case new
          then show ?thesis using multi by (intro fresh_only_genuine)
        qed
        show ?thesis
          using feed_entry_genuine [OF fe _ _ multi e cond(2) og payload] True by blast
      next
        case False
        have "fmlookup (pending r') (sid, pid) = fmlookup (pending r) (sid, pid)"
          using feed_entry_frame [OF False, of dst_nil payload e r1] get_entry_frame [OF ge False acc] fe
          by simp
        moreover have "\<not> concerns f sid pid packet h" using False by (auto simp: concerns_def)
        ultimately show ?thesis using pg by (simp add: pending_genuine_def)
      qed
    qed
  qed
  then show "pending_genuine f sid pid packet r'" by blast
  show "concerns f sid pid packet h \<Longrightarrow> res = Inr (Some d) \<Longrightarrow> d = packet" using both by blast
qed

text \<open>
  A closed reassembler stays closed and only lets single fragments pass, so the two ways of being
  safe, closed or holding genuine fragments only, are kept by every event.
\<close>

definition reassembly_safe :: "Fragmenter \<Rightarrow> u32 \<Rightarrow> u32 \<Rightarrow> bytes \<Rightarrow> Reassembler \<Rightarrow> bool" where
  "reassembly_safe f sid pid packet r \<longleftrightarrow>
     closed r \<or> reassembler_ok r \<and> pending_genuine f sid pid packet r"

lemma sweep_expired_closed [simp]: "closed (sweep_expired deadline ks r) = closed r"
  by (induction ks arbitrary: r) (auto split: option.splits)

lemma recycle_all_closed [simp]: "closed (recycle_all ks r) = closed r"
  by (induction ks arbitrary: r) (auto split: option.splits)

lemma FeedAppend_closed:
  assumes "closed r"
  shows "fst (FeedAppend now dst_nil h payload r) = r"
    and "concerns f sid pid packet h \<Longrightarrow> multi_fragment f packet \<Longrightarrow>
      snd (FeedAppend now dst_nil h payload r) \<noteq> Inr (Some d)"
proof -
  show "fst (FeedAppend now dst_nil h payload r) = r"
    using assms by (auto simp: FeedAppend_def)
  assume con: "concerns f sid pid packet h" and multi: "multi_fragment f packet"
  have "unat (FragmentCount h) = numFrags f packet"
    using con multi by (simp add: concerns_def multi_fragment_def unat_of_nat udp_consts)
  then have "FragmentCount h \<noteq> 1" using multi by (auto simp: multi_fragment_def)
  then show "snd (FeedAppend now dst_nil h payload r) \<noteq> Inr (Some d)"
    using assms by (simp add: FeedAppend_def)
qed

lemma reassembly_step_safe:
  assumes multi: "multi_fragment f packet" and safe: "reassembly_safe f sid pid packet r"
    and gen: "genuine f sid pid packet ev" and step: "reassembly_step ev r = (r', res)"
  shows "reassembly_safe f sid pid packet r'"
    and "answers f sid pid packet ev \<Longrightarrow> res = Inr (Some d) \<Longrightarrow> d = packet"
proof -
  have "reassembly_safe f sid pid packet r'
    \<and> (answers f sid pid packet ev \<longrightarrow> res = Inr (Some d) \<longrightarrow> d = packet)"
  proof (cases "closed r")
    case True
    then have "closed r'"
      using step FeedAppend_closed(1) [OF True]
      by (cases ev) (auto simp: cleaner_tick_def cleaner_stop_def dest: arg_cong [where f = fst])
    then show ?thesis
      using True step FeedAppend_closed(2) [OF True _ multi]
      by (cases ev) (auto simp: reassembly_safe_def dest: arg_cong [where f = snd])
  next
    case False
    then have ok: "reassembler_ok r" and pg: "pending_genuine f sid pid packet r"
      using safe by (simp_all add: reassembly_safe_def)
    show ?thesis
    proof (cases ev)
      case (Arrive now dst_nil h payload)
      then have fed: "FeedAppend now dst_nil h payload r = (r', res)"
        and pay: "concerns f sid pid packet h \<longrightarrow> payload = chunk f packet (unat (FragmentID h))"
        using step gen by simp_all
      have "reassembler_ok r'" using FeedAppend_ok [OF ok, of now dst_nil h payload] fed by simp
      then show ?thesis
        using FeedAppend_genuine [OF ok multi pg pay fed] Arrive by (auto simp: reassembly_safe_def)
    next
      case (Tick now order)
      then have r': "r' = cleaner_tick now order r" using step by simp
      have "pending_genuine f sid pid packet r'"
        using pg by (auto simp: r' pending_genuine_def cleaner_tick_def sweep_expired_pending
            split: option.splits if_splits)
      then show ?thesis
        using cleaner_tick_ok [OF ok] Tick by (simp add: r' reassembly_safe_def)
    next
      case (Stop order)
      then show ?thesis using step by (auto simp: reassembly_safe_def cleaner_stop_def)
    qed
  qed
  then show "reassembly_safe f sid pid packet r'"
    and "answers f sid pid packet ev \<Longrightarrow> res = Inr (Some d) \<Longrightarrow> d = packet" by blast+
qed

lemma length_reassembly_run [simp]: "length (snd (reassembly_run evs r)) = length evs"
  by (induction evs arbitrary: r) (auto split: prod.splits, metis snd_conv)

lemma reassembly_run_sound:
  assumes "multi_fragment f packet" "reassembly_safe f sid pid packet r"
    "\<forall>ev\<in>set evs. genuine f sid pid packet ev" "i < length evs"
    "answers f sid pid packet (evs ! i)" "snd (reassembly_run evs r) ! i = Inr (Some d)"
  shows "d = packet"
  using assms(2-)
proof (induction evs arbitrary: r i)
  case Nil
  then show ?case by simp
next
  case (Cons ev evs)
  obtain r' res where step: "reassembly_step ev r = (r', res)" by fastforce
  obtain r'' ress where run: "reassembly_run evs r' = (r'', ress)" by fastforce
  have gen: "genuine f sid pid packet ev" using Cons.prems(2) by simp
  note safe = reassembly_step_safe [OF assms(1) Cons.prems(1) gen step]
  show ?case
  proof (cases i)
    case 0
    then show ?thesis using Cons.prems safe(2) by (simp add: step run)
  next
    case (Suc j)
    then show ?thesis
      using Cons.IH [OF safe(1), of j] Cons.prems by (simp add: step run)
  qed
qed

section \<open>Bounds\<close>

text \<open>
  When the context ends, Go's loop over the table visits each key once; \<open>orderly\<close> says that the
  orders given for the loops are such.
\<close>

fun orderly :: "reassembly_event list \<Rightarrow> Reassembler \<Rightarrow> bool" where
  "orderly [] r = True"
| "orderly (ev # evs) r = ((case ev of
       Stop order \<Rightarrow> distinct order \<and> set order = fset (fmdom (pending r)) | _ \<Rightarrow> True)
     \<and> orderly evs (fst (reassembly_step ev r)))"

lemma reassembly_run_ok [invs]:
  "reassembler_ok r \<Longrightarrow> orderly evs r \<Longrightarrow> reassembler_ok (fst (reassembly_run evs r))"
proof (induction evs arbitrary: r)
  case Nil
  then show ?case by simp
next
  case (Cons ev evs)
  obtain r' res where step: "reassembly_step ev r = (r', res)" by fastforce
  have "reassembler_ok (fst (reassembly_step ev r))"
    using Cons.prems FeedAppend_ok cleaner_tick_ok cleaner_stop_releases(1)
    by (cases ev) auto
  then have "reassembler_ok (fst (reassembly_run evs r'))"
    using Cons.prems(2) step by (intro Cons.IH) simp_all
  moreover have "fst (reassembly_run (ev # evs) r) = fst (reassembly_run evs r')"
    using step by (simp split: prod.splits)
  ultimately show ?case by simp
qed

lemma fmsum_in_session: "fmsum (in_session sid) m = card {pid. (sid, pid) |\<in>| fmdom m}"
proof -
  have "fmsum (in_session sid) m = (\<Sum>k\<in>fset (fmdom m). if fst k = sid then 1 else 0)"
    by (simp add: fmsum_def in_session_def)
  also have "\<dots> = card {k \<in> fset (fmdom m). fst k = sid}"
    by (simp add: sum.If_cases Int_def)
  also have "{k \<in> fset (fmdom m). fst k = sid} = Pair sid ` {pid. (sid, pid) |\<in>| fmdom m}"
    by auto
  also have "card \<dots> = card {pid. (sid, pid) |\<in>| fmdom m}"
    by (simp add: card_image inj_on_def)
  finally show ?thesis .
qed

text \<open>
  The reassembler's resources are bounded and accounted for. Whatever datagrams arrive, valid
  or not, in whatever order, and whenever the cleaner runs, at most 1024 packets are in flight and
  at most 32 of one session, the per-session counter is the true number, every packet in flight
  holds at most 64 KiB, and the pooled buffers in use are exactly those the table refers to.
\<close>

theorem reassembler_bounded:
  assumes "orderly evs (NewReassembler t)" "r = fst (reassembly_run evs (NewReassembler t))"
  shows "fsize (pending r) \<le> MaxGlobalReassemblyCount
    \<and> card {pid. (sid, pid) |\<in>| fmdom (pending r)} \<le> MaxReassemblyPerSession
    \<and> count_of (sessionCount r) sid = card {pid. (sid, pid) |\<in>| fmdom (pending r)}
    \<and> (\<forall>k e. fmlookup (pending r) k = Some e \<longrightarrow> bytes_held e \<le> MaxUDPPacketSize)
    \<and> bufsOut r = fmsum (\<lambda>_. nbufs) (pending r)"
proof -
  have ok: "accounts_ok r" "entries_ok (pending r)"
    using reassembly_run_ok [OF NewReassembler_ok assms(1)] assms(2)
    by (simp_all add: reassembler_ok_def)
  have count: "count_of (sessionCount r) sid = card {pid. (sid, pid) |\<in>| fmdom (pending r)}"
    using ok(1) by (simp add: accounts_ok_def fmsum_in_session)
  moreover have "count_of (sessionCount r) sid \<le> MaxReassemblyPerSession"
    using ok(1) by (metis accounts_ok_def)
  moreover have "bytes_held e \<le> MaxUDPPacketSize" if "fmlookup (pending r) k = Some e" for k e
    using entries_ok_lookup [OF ok(2) that] by (simp add: entry_ok_def entry_wf_def)
  ultimately show ?thesis
    using ok(1) by (simp add: accounts_ok_def)
qed

definition sample_arrival :: reassembly_event where
  "sample_arrival = Arrive 5 True (data_header 1 2 0 3) [7, 8]"

lemma reassembler_bounded_witness:
  "fsize (pending (fst (reassembly_run [sample_arrival] (NewReassembler 0)))) \<le> MaxGlobalReassemblyCount
   \<and> orderly [sample_arrival] (NewReassembler 0)"
  using reassembler_bounded [of "[sample_arrival]" 0, OF _ refl]
  by (simp add: sample_arrival_def)

section \<open>Completeness and soundness\<close>

lemma feed_all:
  assumes "multi_fragment f packet" "reassembler_ok r" "\<not> closed r"
    "fmlookup (pending r) (sid, pid) = None"
    "fsize (pending r) < MaxGlobalReassemblyCount"
    "count_of (sessionCount r) sid < MaxReassemblyPerSession"
    "snd ` set arrivals = {..<numFrags f packet} - {i}" "i < numFrags f packet"
  shows "snd (feed_indices dst_nil f sid pid packet (arrivals @ [(now, i)]) r)
    = replicate (length arrivals) (Inr None) @ [Inr (Some packet)]"
proof (rule feed_indices_complete [where I = "{}"])
  show "in_flight f sid pid packet {} r"
    using assms(4-6) by (simp add: in_flight_def)
  show "\<forall>(now, j)\<in>set arrivals. j < numFrags f packet"
    using assms(7) by force
qed (use assms in auto)

text \<open>
  C3: A fragmented packet is put together again. Let the fragments of a packet of 2 to 64 fragments
  (at most 64 KiB) arrive in any order, at any times and repeated at will, at a reassembler that is
  open, holds nothing for this packet and has room for one more. Then every arrival but the one
  that completes the set is answered with no packet, and that one is answered with the packet.
\<close>

theorem reassembly_complete:
  assumes "multi_fragment f packet" "reassembler_ok r" "\<not> closed r"
    "fmlookup (pending r) (sid, pid) = None"
    "fsize (pending r) < MaxGlobalReassemblyCount"
    "count_of (sessionCount r) sid < MaxReassemblyPerSession"
    "snd ` set arrivals = {..<numFrags f packet} - {i}" "i < numFrags f packet"
  shows "snd (feed_indices dst_nil f sid pid packet (arrivals @ [(now, i)]) r)
    = replicate (length arrivals) (Inr None) @ [Inr (Some packet)]"
  by (rule feed_all [OF assms])

definition sample_packet :: bytes where "sample_packet = [10, 20, 30, 40, 50]"

lemma numFrags_sample: "numFrags (NewFragmenter 2) sample_packet = 3"
  by (simp add: numFrags_def NewFragmenter_def sample_packet_def)

lemma multi_fragment_sample: "multi_fragment (NewFragmenter 2) sample_packet"
  by (simp add: multi_fragment_def numFrags_sample udp_consts) (simp add: sample_packet_def)

text \<open>The witness lets the last fragment come first and the first one twice.\<close>

lemma reassembly_complete_witness:
  "snd (feed_indices True (NewFragmenter 2) 4 9 sample_packet ([(1, 2), (2, 0), (3, 0)] @ [(4, 1)])
      (NewReassembler 0)) = [Inr None, Inr None, Inr None, Inr (Some sample_packet)]"
proof -
  have "snd ` set [(1 :: time, 2), (2, 0), (3, 0)] = {..<3 :: nat} - {1}"
    by auto
  from reassembly_complete [OF multi_fragment_sample NewReassembler_ok, where i = 1 and
      arrivals = "[(1, 2), (2, 0), (3, 0)]" and dst_nil = True and sid = 4 and pid = 9 and now = 4,
      of 0, unfolded numFrags_sample, OF _ _ _ _ this]
  show ?thesis
    by (simp add: NewReassembler_def MaxGlobalReassemblyCount_def MaxReassemblyPerSession_def
        eval_nat_numeral)
qed

text \<open>
  C4: Nothing but the packet is ever returned under its key. Whatever else is fed in between
  (other sessions and packets, other fragment counts under the same key, fragments of any size),
  whenever the cleaner sweeps or the context ends: if no one forges a fragment under the packet's
  session, number and count, then every packet returned for such a fragment is the packet sent.
\<close>

theorem reassembly_sound:
  assumes "multi_fragment f packet" "reassembler_ok r" "fmlookup (pending r) (sid, pid) = None"
    "\<forall>ev\<in>set evs. genuine f sid pid packet ev" "i < length evs"
    "answers f sid pid packet (evs ! i)" "snd (reassembly_run evs r) ! i = Inr (Some d)"
  shows "d = packet"
proof (rule reassembly_run_sound [OF assms(1) _ assms(4-7)])
  show "reassembly_safe f sid pid packet r"
    using assms(2,3) by (simp add: reassembly_safe_def pending_genuine_def)
qed

definition sample_run :: "reassembly_event list" where
  "sample_run = [Arrive 1 True (data_header 4 9 2 3) [50], Arrive 2 True (data_header 4 8 0 3) [1],
     Tick 3 [(4, 9), (4, 8)], Arrive 4 True (data_header 4 9 0 3) [10, 20],
     Arrive 5 True (data_header 4 9 1 3) [30, 40]]"

lemma sample_run_result:
  "snd (reassembly_run sample_run (NewReassembler 0)) ! 4 = Inr (Some sample_packet)"
  by (simp add: sample_run_def sample_packet_def NewReassembler_def FeedAppend_def get_entry_def
      pool_get_def store_fragment_def GetBuffer_def new_packetReassembly_def cleaner_tick_def
      DefaultReassemblyTimeout_def DefaultBufferSize_def udp_consts MaxGlobalReassemblyCount_def
      MaxReassemblyPerSession_def assemble_def append_to_def Let_def nth_list_update upt_rec
      incr_def word_le_nat_alt)

lemma reassembly_sound_witness:
  "case snd (reassembly_run sample_run (NewReassembler 0)) ! 4 of
     Inr (Some d) \<Rightarrow> d = sample_packet | _ \<Rightarrow> False"
proof -
  obtain d where d: "snd (reassembly_run sample_run (NewReassembler 0)) ! 4 = Inr (Some d)"
    using sample_run_result by blast
  have "d = sample_packet"
  proof (rule reassembly_sound [OF multi_fragment_sample NewReassembler_ok _ _ _ _ d])
    show "fmlookup (pending (NewReassembler 0)) (4, 9) = None"
      by (simp add: NewReassembler_def)
    show "\<forall>ev\<in>set sample_run. genuine (NewFragmenter 2) 4 9 sample_packet ev" by code_simp
    show "4 < length sample_run" by (simp add: sample_run_def)
    show "answers (NewFragmenter 2) 4 9 sample_packet (sample_run ! 4)" by code_simp
  qed
  then show ?thesis by (simp only: d sum.case option.case)
qed

end
