(* ===== verification/Replay_Window.thy ===== *)
theory Replay_Window
  imports Prelude
begin

text \<open>
  The replay window of \<open>internal/udp/replay.go\<close>: a 64-bit map of the packet numbers that were
  delivered, below the highest one, compared by serial-number arithmetic on 32 bits. The
  abstract window counts packets without wrap-around and remembers all of them; the concrete one
  simulates it as long as no packet number is 2^31 or more away from the highest one seen.
\<close>

record ReplayWindow =
  initialized :: bool
  highest :: u32
  bitmap :: u64

definition empty_window :: ReplayWindow where
  "empty_window = \<lparr>initialized = False, highest = 0, bitmap = 0\<rparr>"

text \<open>\<open>int32(packetID - w.highest)\<close> is read as a signed number; \<open>uint32(-delta)\<close> negates on 32 bits.\<close>

definition seenLocked :: "ReplayWindow \<Rightarrow> u32 \<Rightarrow> bool" where
  "seenLocked w packetID =
     (if \<not> initialized w then False
      else let delta = packetID - highest w in
      if sint delta > 0 then False
      else let behind = unat (- delta) in
        behind \<ge> 64 \<or> bitmap w AND push_bit behind 1 \<noteq> 0)"

definition MarkCompleted :: "ReplayWindow \<Rightarrow> u32 \<Rightarrow> ReplayWindow \<times> bool" where
  "MarkCompleted w packetID =
     (if \<not> initialized w then
        (w\<lparr>initialized := True, highest := packetID, bitmap := 1\<rparr>, True)
      else let delta = packetID - highest w in
      if sint delta > 0 then
        (let shift = unat delta;
             bm = (if shift \<ge> 64 then 1 else push_bit shift (bitmap w) OR 1)
         in (w\<lparr>bitmap := bm, highest := packetID\<rparr>, True))
      else let behind = unat (- delta) in
      if behind \<ge> 64 then (w, False)
      else let mask = push_bit behind 1 in
      if bitmap w AND mask \<noteq> 0 then (w, False)
      else (w\<lparr>bitmap := bitmap w OR mask\<rparr>, True))"

text \<open>The verdicts on a sequence of packet numbers, from the empty window.\<close>

fun mark_all :: "ReplayWindow \<Rightarrow> u32 list \<Rightarrow> bool list" where
  "mark_all w [] = []"
| "mark_all w (p # ps) = (case MarkCompleted w p of (w', b) \<Rightarrow> b # mark_all w' ps)"

section \<open>The abstract window\<close>

text \<open>The highest number and everything delivered so far, without wrap-around.\<close>

type_synonym abs_window = "(int \<times> int set) option"

fun abs_mark :: "abs_window \<Rightarrow> int \<Rightarrow> abs_window \<times> bool" where
  "abs_mark None t = (Some (t, {t}), True)"
| "abs_mark (Some (hi, S)) t =
     (if hi < t then (Some (t, insert t S), True)
      else if hi - t \<ge> 64 \<or> t \<in> S then (Some (hi, S), False)
      else (Some (hi, insert t S), True))"

fun abs_run :: "abs_window \<Rightarrow> int list \<Rightarrow> bool list" where
  "abs_run a [] = []"
| "abs_run a (t # ts) = (case abs_mark a t of (a', b) \<Rightarrow> b # abs_run a' ts)"

definition window_rel :: "ReplayWindow \<Rightarrow> abs_window \<Rightarrow> bool" where
  "window_rel w a \<longleftrightarrow> (case a of
     None \<Rightarrow> \<not> initialized w
   | Some (hi, S) \<Rightarrow> initialized w \<and> highest w = of_int hi \<and> (\<forall>t\<in>S. t \<le> hi) \<and>
       (\<forall>k<64. bit (bitmap w) k \<longleftrightarrow> hi - int k \<in> S))"

lemma window_rel_empty [simp]: "window_rel empty_window None"
  by (simp add: window_rel_def empty_window_def)

text \<open>Serial-number arithmetic agrees with the integers when the distance is below 2^31.\<close>

lemma serial_delta:
  assumes "\<bar>t - hi\<bar> < 2 ^ 31"
  shows "sint ((of_int t :: u32) - of_int hi) = t - hi"
proof -
  have "(of_int t :: u32) - of_int hi = of_int (t - hi)" by simp
  moreover have "sint (of_int (t - hi) :: u32) = t - hi"
    using assms by (simp only: sint_sbintrunc') (simp add: signed_take_bit_int_eq_self)
  ultimately show ?thesis by metis
qed

lemma serial_ahead:
  assumes "0 \<le> t - hi" "t - hi < 2 ^ 31"
  shows "unat ((of_int t :: u32) - of_int hi) = nat (t - hi)"
proof -
  have "(of_int t :: u32) - of_int hi = of_int (t - hi)" by simp
  moreover have "unat (of_int (t - hi) :: u32) = nat (t - hi)"
    using assms by (simp only: unat_eq_nat_uint uint_word_of_int_eq)
      (simp add: take_bit_int_eq_self)
  ultimately show ?thesis by metis
qed

lemma serial_behind:
  assumes "t \<le> hi" "hi - t < 2 ^ 31"
  shows "unat (- ((of_int t :: u32) - of_int hi)) = nat (hi - t)"
  using serial_ahead [of hi t] assms by simp

lemma and_mask_bit: "(x :: u64) AND push_bit k 1 \<noteq> 0 \<longleftrightarrow> k < 64 \<and> bit x k"
proof -
  have "x AND push_bit k 1 = (if k < 64 \<and> bit x k then push_bit k 1 else 0)"
    by (intro bit_word_eqI) (auto simp: bit_simps)
  moreover have "push_bit k (1 :: u64) \<noteq> 0" if "k < 64"
    using that bit_push_bit_iff [of k "1 :: u64" k] by (auto simp: bit_simps)
  ultimately show ?thesis by auto
qed

lemma window_step:
  assumes rel: "window_rel w a"
    and near: "\<And>hi S. a = Some (hi, S) \<Longrightarrow> \<bar>t - hi\<bar> < 2 ^ 31"
    and step: "MarkCompleted w (of_int t) = (w', b)" "abs_mark a t = (a', b')"
  shows "b = b' \<and> window_rel w' a'"
proof (cases a)
  case None
  then show ?thesis
    using rel step by (auto simp: window_rel_def MarkCompleted_def bit_simps)
next
  case (Some p)
  obtain hi S where a: "a = Some (hi, S)"
    using Some by (cases p) auto
  have w: "initialized w" "highest w = of_int hi" and S: "\<forall>t\<in>S. t \<le> hi"
    and bits: "\<And>k. k < 64 \<Longrightarrow> bit (bitmap w) k \<longleftrightarrow> hi - int k \<in> S"
    using rel by (auto simp: a window_rel_def)
  have d: "\<bar>t - hi\<bar> < 2 ^ 31" using near a by blast
  show ?thesis
  proof (cases "hi < t")
    case True
    define n where "n = nat (t - hi)"
    have n: "t - hi = int n" "0 < n" using True by (auto simp: n_def)
    have u: "unat ((of_int t :: u32) - of_int hi) = n"
      using True d serial_ahead [of t hi] by (simp add: n_def)
    have b: "b" and w': "w' = w\<lparr>bitmap := if n \<ge> 64 then 1 else push_bit n (bitmap w) OR 1,
        highest := of_int t\<rparr>"
      using step(1) True w serial_delta [OF d] u by (auto simp: MarkCompleted_def Let_def)
    have "bit (bitmap w') k \<longleftrightarrow> t - int k \<in> insert t S" if "k < 64" for k
    proof -
      have *: "bit (bitmap w') k \<longleftrightarrow> k = 0 \<or> (n \<le> k \<and> bit (bitmap w) (k - n))"
        using that by (auto simp: w' bit_simps)
      show ?thesis
      proof (cases "n \<le> k")
        case True
        then have "t - int k = hi - int (k - n)" using n by simp
        with * True n bits [of "k - n"] that show ?thesis by auto
      next
        case False
        then have "t - int k \<notin> S" using S n by fastforce
        with * False show ?thesis by auto
      qed
    qed
    moreover have "\<forall>x\<in>insert t S. x \<le> t" using S True by fastforce
    ultimately show ?thesis
      using step(2) True b w by (auto simp: a window_rel_def w')
  next
    case False
    define n where "n = nat (hi - t)"
    have n: "hi - t = int n" using False by (simp add: n_def)
    have u: "unat (- ((of_int t :: u32) - of_int hi)) = n"
      using False d serial_behind [of t hi] by (simp add: n_def)
    have mark: "(w', b) = (if n \<ge> 64 \<or> bit (bitmap w) n then (w, False)
        else (w\<lparr>bitmap := bitmap w OR push_bit n 1\<rparr>, True))"
      using step(1) False w(1)
      unfolding MarkCompleted_def Let_def w(2) serial_delta [OF d] u and_mask_bit
      by (auto split: if_splits)
    have acc: "n \<ge> 64 \<or> bit (bitmap w) n \<longleftrightarrow> hi - t \<ge> 64 \<or> t \<in> S"
    proof (cases "n < 64")
      case True
      then show ?thesis using bits [of n] n by (auto simp: algebra_simps)
    next
      case False
      then show ?thesis using n by simp
    qed
    have bits': "bit (bitmap w OR push_bit n 1) k \<longleftrightarrow> hi - int k \<in> insert t S" if "k < 64" for k
      using that bits [of k] n by (auto simp: bit_simps)
    show ?thesis
    proof (cases "hi - t \<ge> 64 \<or> t \<in> S")
      case True
      then show ?thesis using mark acc step(2) False rel by (auto simp: a)
    next
      case nacc: False
      then have "w' = w\<lparr>bitmap := bitmap w OR push_bit n 1\<rparr>" "b"
        using mark acc by auto
      then show ?thesis
        using nacc step(2) False w S bits' by (auto simp: a window_rel_def)
    qed
  qed
qed

text \<open>
  A sequence of true packet numbers stays within serial distance when each is less than 2^31
  away from the highest before it.
\<close>

fun serial_ok :: "int option \<Rightarrow> int list \<Rightarrow> bool" where
  "serial_ok hi [] = True"
| "serial_ok None (t # ts) = serial_ok (Some t) ts"
| "serial_ok (Some hi) (t # ts) = (\<bar>t - hi\<bar> < 2 ^ 31 \<and> serial_ok (Some (max hi t)) ts)"

lemma abs_mark_fst: "map_option fst (fst (abs_mark a t)) =
    Some (case a of None \<Rightarrow> t | Some (hi, S) \<Rightarrow> max hi t)"
  by (cases "(a, t)" rule: abs_mark.cases) auto

lemma mark_all_abs_run:
  "window_rel w a \<Longrightarrow> serial_ok (map_option fst a) ts \<Longrightarrow>
     mark_all w (map of_int ts) = abs_run a ts"
proof (induction ts arbitrary: w a)
  case Nil
  then show ?case by simp
next
  case (Cons t ts)
  obtain w' b where m: "MarkCompleted w (of_int t) = (w', b)" by fastforce
  obtain a' b' where am: "abs_mark a t = (a', b')" by fastforce
  have near: "\<bar>t - hi\<bar> < 2 ^ 31" if "a = Some (hi, S)" for hi S
    using Cons.prems(2) that by simp
  have "serial_ok (map_option fst a') ts"
    using Cons.prems(2) abs_mark_fst [of a t] am by (cases a) (auto split: prod.splits)
  with window_step [OF Cons.prems(1) near m am] Cons.IH [of w' a'] show ?case
    by (simp add: m am)
qed

section \<open>What the abstract window accepts\<close>

definition abs_inv :: "int list \<Rightarrow> abs_window \<Rightarrow> bool" where
  "abs_inv past a \<longleftrightarrow> (case a of None \<Rightarrow> past = []
     | Some (hi, S) \<Rightarrow> past \<noteq> [] \<and> hi = Max (set past) \<and> S \<subseteq> set past
         \<and> (\<forall>t\<in>set past. t \<in> S \<or> hi - t \<ge> 64))"

lemma abs_mark_inv:
  assumes "abs_inv past a" "abs_mark a t = (a', b)"
  shows "abs_inv (past @ [t]) a' \<and>
    (b \<longleftrightarrow> t \<notin> set past \<and> (past = [] \<or> Max (set past) - 64 < t))"
proof (cases a)
  case None
  then show ?thesis using assms by (auto simp: abs_inv_def)
next
  case (Some p)
  obtain hi S where a: "a = Some (hi, S)" using Some by (cases p) auto
  have past: "past \<noteq> []" "hi = Max (set past)" "S \<subseteq> set past"
    "\<forall>t\<in>set past. t \<in> S \<or> hi - t \<ge> 64"
    using assms(1) by (auto simp: a abs_inv_def)
  have Max: "Max (set (past @ [t])) = max hi t"
    using past by (simp add: max.commute)
  have hi: "x \<le> hi" if "x \<in> set past" for x
    using that past by simp
  show ?thesis
  proof (cases "hi < t")
    case True
    then have "t \<notin> set past" using hi by force
    moreover have "x \<in> S \<or> t - x \<ge> 64" if "x \<in> set past" for x
      using past(4) that True by fastforce
    moreover have b: "b" "a' = Some (t, insert t S)"
      using assms(2) True by (auto simp: a)
    ultimately have "abs_inv (past @ [t]) a'"
      using True past Max by (auto simp: abs_inv_def)
    moreover have "Max (set past) - 64 < t"
      using True past(2) by linarith
    ultimately show ?thesis
      using b(1) \<open>t \<notin> set past\<close> by blast
  next
    case False
    then have M: "Max (insert t (set past)) = hi"
      using Max by simp
    show ?thesis
    proof (cases "hi - t \<ge> 64 \<or> t \<in> S")
      case True
      then have "a' = Some (hi, S)" "\<not> b"
        using assms(2) False by (auto simp: a)
      with True past M show ?thesis
        by (auto simp del: Max_insert simp: abs_inv_def)
    next
      case nacc: False
      then have "a' = Some (hi, insert t S)" "b"
        using assms(2) False by (auto simp: a)
      moreover from this have "t \<notin> set past"
        using nacc past(4) by blast
      ultimately show ?thesis
        using nacc past M by (auto simp del: Max_insert simp: abs_inv_def)
    qed
  qed
qed

lemma abs_run_verdict:
  "abs_inv past a \<Longrightarrow> i < length ts \<Longrightarrow>
     abs_run a ts ! i \<longleftrightarrow> ts ! i \<notin> set (past @ take i ts) \<and>
       (past @ take i ts = [] \<or> Max (set (past @ take i ts)) - 64 < ts ! i)"
proof (induction ts arbitrary: past a i)
  case Nil
  then show ?case by simp
next
  case (Cons t ts)
  obtain a' b where am: "abs_mark a t = (a', b)" by fastforce
  note inv = abs_mark_inv [OF Cons.prems(1) am]
  show ?case
  proof (cases i)
    case 0
    then show ?thesis using inv am by simp
  next
    case (Suc j)
    then show ?thesis
      using Cons.IH [of "past @ [t]" a' j] Cons.prems(2) inv am by simp
  qed
qed

lemma length_mark_all [simp]: "length (mark_all w ps) = length ps"
  by (induction ps arbitrary: w) (auto split: prod.splits)

lemma mark_all_verdict:
  assumes "serial_ok None ts" "i < length ts"
  shows "mark_all empty_window (map of_int ts) ! i \<longleftrightarrow>
    ts ! i \<notin> set (take i ts) \<and> (i = 0 \<or> Max (set (take i ts)) - 64 < ts ! i)"
proof -
  have "abs_inv [] None" by (simp add: abs_inv_def)
  from abs_run_verdict [OF this assms(2)] assms mark_all_abs_run [OF window_rel_empty, of ts]
  show ?thesis by auto
qed

section \<open>The two queries agree\<close>

lemma MarkCompleted_seen: "snd (MarkCompleted w p) \<longleftrightarrow> \<not> seenLocked w p"
  by (auto simp: MarkCompleted_def seenLocked_def Let_def)

lemma seen_after_mark: "seenLocked (fst (MarkCompleted w p)) p"
  by (auto simp: MarkCompleted_def seenLocked_def Let_def and_mask_bit bit_simps)

text \<open>
  C5: The replay window delivers each packet once. Take the packet numbers of a session as they were
  assigned, without the 32-bit wrap-around, and let them arrive in any order and repeatedly, as long
  as none is 2^31 or more away from the highest before it. Then an arrival is accepted if and only
  if its number has not arrived before and is the first or larger than the highest so far less 64.
\<close>

theorem replay_window_exact:
  assumes "serial_ok None ts" "i < length ts"
  shows "mark_all empty_window (map of_int ts) ! i \<longleftrightarrow>
    ts ! i \<notin> set (take i ts) \<and> (i = 0 \<or> Max (set (take i ts)) - 64 < ts ! i)"
  using assms by (rule mark_all_verdict)

text \<open>The witness crosses the wrap-around and repeats a number behind it.\<close>

lemma replay_window_exact_witness:
  "\<not> mark_all empty_window (map of_int [4294967295, 4294967296, 4294967300, 4294967295]) ! 3"
  using replay_window_exact [of "[4294967295, 4294967296, 4294967300, 4294967295]" 3] by simp

end
