(* ===== verification/P2p_Data.thy ===== *)
theory P2p_Data
  imports Crypto Wire_Format
begin

text \<open>
  The authenticated datagrams of direct paths, \<open>internal/protocol/p2p_data.go\<close>: a magic number,
  the session number and the first 16 bytes of an HMAC over both and the enclosed datagram.
  A packet is accepted exactly when it is the codec's own encoding of the datagram returned.
\<close>

definition P2PDataMagic :: u32 where "P2PDataMagic = 0x52445044"
definition P2PDataMACSize :: nat where "P2PDataMACSize = 16"
definition P2PDataHeaderSize :: nat where "P2PDataHeaderSize = 4 + 4 + P2PDataMACSize"

lemmas p2p_consts = P2PDataMagic_def P2PDataMACSize_def P2PDataHeaderSize_def

datatype p2p_error =
    ErrP2PDataTooShort | ErrP2PDataBadMagic | ErrP2PDataBadSession
  | ErrP2PDataMissingKey | ErrP2PDataBadMAC

text \<open>
  The codec's hash object is reset before each packet, so its state between packets is the key.
\<close>

record P2PCodec =
  codec_session :: u32
  codec_key :: bytes

definition NewP2PCodec :: "u32 \<Rightarrow> bytes \<Rightarrow> p2p_error + P2PCodec" where
  "NewP2PCodec sid key =
     (if length key = 0 then Inl ErrP2PDataMissingKey
      else Inr \<lparr>codec_session = sid, codec_key = key\<rparr>)"

definition p2p_encode :: "P2PCodec \<Rightarrow> bytes \<Rightarrow> bytes \<Rightarrow> bytes" where
  "p2p_encode c dst datagram =
     (let totalLen = P2PDataHeaderSize + length datagram;
          dst = reslice dst totalLen;
          dst = copy_at 0 (put_be32 P2PDataMagic) dst;
          dst = copy_at 4 (put_be32 (codec_session c)) dst;
          dst = copy_at P2PDataHeaderSize datagram dst;
          sum = hmac_sha256 (codec_key c) (slice 0 8 dst @ drop P2PDataHeaderSize dst)
      in copy_at 8 (take P2PDataMACSize sum) dst)"

definition p2p_decode :: "P2PCodec \<Rightarrow> bytes \<Rightarrow> p2p_error + bytes" where
  "p2p_decode c packet =
     (if length packet < P2PDataHeaderSize then Inl ErrP2PDataTooShort
      else if be32 (slice 0 4 packet) \<noteq> P2PDataMagic then Inl ErrP2PDataBadMagic
      else if be32 (slice 4 8 packet) \<noteq> codec_session c then Inl ErrP2PDataBadSession
      else let datagram = drop P2PDataHeaderSize packet;
               sum = hmac_sha256 (codec_key c) (slice 0 8 packet @ datagram)
           in if hmac_equal (slice 8 P2PDataHeaderSize packet) (take P2PDataMACSize sum)
              then Inr datagram else Inl ErrP2PDataBadMAC)"

definition EncodeP2PData :: "u32 \<Rightarrow> bytes \<Rightarrow> bytes \<Rightarrow> p2p_error + bytes" where
  "EncodeP2PData sid key datagram =
     bind_result (NewP2PCodec sid key) (\<lambda>c. Inr (p2p_encode c [] datagram))"

definition DecodeP2PData :: "bytes \<Rightarrow> u32 \<Rightarrow> bytes \<Rightarrow> p2p_error + bytes" where
  "DecodeP2PData packet sid key = bind_result (NewP2PCodec sid key) (\<lambda>c. p2p_decode c packet)"

text \<open>The header the codec puts in front of a datagram, and the authentication tag.\<close>

definition p2p_prefix :: "u32 \<Rightarrow> bytes" where
  "p2p_prefix sid = put_be32 P2PDataMagic @ put_be32 sid"

definition p2p_tag :: "P2PCodec \<Rightarrow> bytes \<Rightarrow> bytes" where
  "p2p_tag c datagram =
     take P2PDataMACSize (hmac_sha256 (codec_key c) (p2p_prefix (codec_session c) @ datagram))"

lemma length_p2p_prefix [simp]: "length (p2p_prefix sid) = 8"
  by (simp add: p2p_prefix_def)

lemma length_p2p_tag [simp]: "length (p2p_tag c d) = 16"
  by (simp add: p2p_tag_def p2p_consts)

lemma p2p_encode_layout [wire]:
  "p2p_encode c dst d = p2p_prefix (codec_session c) @ p2p_tag c d @ d"
proof -
  obtain x y z tl where r: "reslice dst (P2PDataHeaderSize + length d) = x @ y @ z @ tl"
    and len: "length x = 4" "length y = 4" "length z = 16" "length tl = length d"
  proof -
    let ?r = "reslice dst (P2PDataHeaderSize + length d)"
    have "?r = take 4 ?r @ take 4 (drop 4 ?r) @ take 16 (drop 8 ?r) @ drop 24 ?r"
      using split_3 [of ?r 4 4 16] by simp
    then show ?thesis
      by (rule that) (simp_all add: p2p_consts)
  qed
  let ?m = "put_be32 P2PDataMagic" and ?s = "put_be32 (codec_session c)"
  have "copy_at 0 ?m (x @ y @ z @ tl) = ?m @ y @ z @ tl"
    using len by (simp add: copy_at_def)
  moreover have "copy_at 4 ?s (?m @ y @ z @ tl) = ?m @ ?s @ z @ tl"
    using len by (simp add: copy_at_def)
  moreover have "copy_at P2PDataHeaderSize d (?m @ ?s @ z @ tl) = ?m @ ?s @ z @ d"
    using len by (simp add: copy_at_def p2p_consts)
  moreover have "slice 0 8 (?m @ ?s @ z @ d) @ drop P2PDataHeaderSize (?m @ ?s @ z @ d) = ?m @ ?s @ d"
    using len by (simp add: slice_def p2p_consts)
  moreover have "copy_at 8 t (?m @ ?s @ z @ d) = ?m @ ?s @ t @ d" if "length t = 16" for t
    using len that by (simp add: copy_at_def)
  ultimately show ?thesis
    unfolding p2p_encode_def Let_def r
    by (simp add: p2p_tag_def p2p_prefix_def P2PDataMACSize_def)
qed

lemma length_p2p_encode [simp, wire]: "length (p2p_encode c dst d) = P2PDataHeaderSize + length d"
  by (simp add: p2p_encode_layout p2p_consts)

lemma p2p_decode_encode [simp]: "p2p_decode c (p2p_encode c dst d) = Inr d"
  by (simp add: p2p_decode_def p2p_encode_layout p2p_prefix_def p2p_tag_def slice_def p2p_consts)

lemma p2p_decode_Inr:
  assumes "p2p_decode c packet = Inr d"
  shows "packet = p2p_encode c [] d"
proof -
  have len: "24 \<le> length packet"
    using assms by (auto simp: p2p_decode_def p2p_consts split: if_splits)
  define m s t where "m = take 4 packet" and "s = take 4 (drop 4 packet)"
    and "t = take 16 (drop 8 packet)"
  have packet: "packet = m @ s @ t @ drop 24 packet"
    using split_3 [of packet 4 4 16] by (simp add: m_def s_def t_def)
  have lens: "length m = 4" "length s = 4" "length t = 16"
    using len by (simp_all add: m_def s_def t_def)
  have acc: "be32 m = P2PDataMagic" "be32 s = codec_session c" "d = drop 24 packet"
    "t = take 16 (hmac_sha256 (codec_key c) (m @ s @ d))"
    using assms len
    by (auto simp: p2p_decode_def p2p_consts Let_def hmac_equal_def slice_def m_def s_def t_def
        take_add [of 4 4, simplified] split: if_splits)
  from acc lens have "m = put_be32 P2PDataMagic" "s = put_be32 (codec_session c)"
    by (metis put_be32_be32)+
  with acc packet show ?thesis
    by (simp add: p2p_encode_layout p2p_prefix_def p2p_tag_def p2p_consts)
qed

lemma p2p_decode_iff: "p2p_decode c packet = Inr d \<longleftrightarrow> packet = p2p_encode c [] d"
  by (metis p2p_decode_Inr p2p_decode_encode)

text \<open>A packet of one session never passes the codec of another.\<close>

lemma p2p_decode_other_session:
  "codec_session c \<noteq> codec_session c' \<Longrightarrow>
     p2p_decode c' (p2p_encode c dst d) = Inl ErrP2PDataBadSession"
  by (simp add: p2p_decode_def p2p_encode_layout p2p_prefix_def slice_def p2p_consts)

interpretation p2p: datagram_format "p2p_encode c []" "p2p_decode c" "\<lambda>_. True" for c
  by unfold_locales (simp add: p2p_decode_iff)

text \<open>
  The authenticated codec of direct paths is exact: under a session and a key, a packet decodes
  to a datagram if and only if it is byte for byte what encoding that datagram under the same session
  and key gives. A packet of another session, one with a changed byte, a truncated or extended one,
  and every packet under an empty key are rejected with an error.
\<close>

theorem p2p_data_exact:
  "DecodeP2PData packet sid key = Inr d \<longleftrightarrow> EncodeP2PData sid key d = Inr packet"
  by (auto simp: DecodeP2PData_def EncodeP2PData_def NewP2PCodec_def p2p_decode_iff)

end
