(* ===== verification/Punch_Packet.thy ===== *)
theory Punch_Packet
  imports Crypto
begin

text \<open>
  The 40-byte hole-punching packets of \<open>internal/protocol/punch.go\<close>: creation with a random
  nonce, encoding into a reused buffer, and decoding with verification of the tag. The decoder
  looks at neither the reserved bytes 6 and 7 nor anything beyond byte 40; \<open>punch_accepts\<close>
  describes exactly what it accepts.
\<close>

definition PunchMagic :: u32 where "PunchMagic = 0x52445055"
definition PunchVersion :: u8 where "PunchVersion = 1"
definition PunchTypePunch :: u8 where "PunchTypePunch = 0x01"
definition PunchTypePunchAck :: u8 where "PunchTypePunchAck = 0x02"
definition PunchTypeKeepalive :: u8 where "PunchTypeKeepalive = 0x03"
definition PunchPacketSize :: nat where "PunchPacketSize = 40"
definition PunchMACSize :: nat where "PunchMACSize = 16"

lemmas punch_consts = PunchMagic_def PunchVersion_def PunchTypePunch_def PunchTypePunchAck_def
  PunchTypeKeepalive_def PunchPacketSize_def PunchMACSize_def

datatype punch_error =
    ErrPunchTooShort | ErrPunchBadMagic | ErrPunchBadVersion u8 | ErrPunchBadType u8
  | ErrPunchBadMAC | ErrPunchMissingKey | ErrRandom

record PunchPacket =
  pMagic :: u32
  pVersion :: u8
  pType :: u8
  pSessionID :: u64
  pNonce :: u64
  pMAC :: bytes

text \<open>The 24 bytes the tag covers; the reserved bytes are zero.\<close>

definition punch_fields :: "u32 \<Rightarrow> u8 \<Rightarrow> u8 \<Rightarrow> u64 \<Rightarrow> u64 \<Rightarrow> bytes" where
  "punch_fields magic version pktType sessionID nonce =
     put_be32 magic @ [version, pktType, 0, 0] @ put_be64 sessionID @ put_be64 nonce"

definition ComputePunchMAC :: "bytes \<Rightarrow> u32 \<Rightarrow> u8 \<Rightarrow> u8 \<Rightarrow> u64 \<Rightarrow> u64 \<Rightarrow> bytes" where
  "ComputePunchMAC key magic version pktType sessionID nonce =
     take PunchMACSize (hmac_sha256 key (punch_fields magic version pktType sessionID nonce))"

text \<open>\<open>rand.Read\<close> into the nonce buffer yields eight bytes or fails; its result is an argument.\<close>

definition NewPunchPacket :: "u8 \<Rightarrow> u64 \<Rightarrow> bytes \<Rightarrow> bytes option \<Rightarrow> punch_error + PunchPacket" where
  "NewPunchPacket pktType sessionID key rnd =
     (if length key = 0 then Inl ErrPunchMissingKey
      else case rnd of None \<Rightarrow> Inl ErrRandom
      | Some nonceBuf \<Rightarrow>
          (let nonce = be64 nonceBuf;
               mac = ComputePunchMAC key PunchMagic PunchVersion pktType sessionID nonce
           in Inr \<lparr>pMagic = PunchMagic, pVersion = PunchVersion, pType = pktType,
                   pSessionID = sessionID, pNonce = nonce, pMAC = mac\<rparr>))"

definition encode_punch :: "PunchPacket \<Rightarrow> bytes \<Rightarrow> bytes" where
  "encode_punch p dst =
     (let dst = reslice dst PunchPacketSize;
          dst = copy_at 0 (put_be32 (pMagic p)) dst;
          dst = dst[4 := pVersion p];
          dst = dst[5 := pType p];
          dst = dst[6 := 0];
          dst = dst[7 := 0];
          dst = copy_at 8 (put_be64 (pSessionID p)) dst;
          dst = copy_at 16 (put_be64 (pNonce p)) dst
      in copy_at 24 (pMAC p) dst)"

definition DecodePunchPacket :: "bytes \<Rightarrow> bytes \<Rightarrow> punch_error + PunchPacket" where
  "DecodePunchPacket data key =
     (if length key = 0 then Inl ErrPunchMissingKey
      else if length data < PunchPacketSize then Inl ErrPunchTooShort
      else let magic = be32 (slice 0 4 data) in
      if magic \<noteq> PunchMagic then Inl ErrPunchBadMagic
      else let version = data ! 4 in
      if version \<noteq> PunchVersion then Inl (ErrPunchBadVersion version)
      else let pktType = data ! 5 in
      if pktType \<noteq> PunchTypePunch \<and> pktType \<noteq> PunchTypePunchAck \<and> pktType \<noteq> PunchTypeKeepalive
      then Inl (ErrPunchBadType pktType)
      else let sessionID = be64 (slice 8 16 data);
               nonce = be64 (slice 16 24 data);
               receivedMAC = slice 24 40 data;
               expectedMAC = ComputePunchMAC key magic version pktType sessionID nonce in
      if \<not> hmac_equal receivedMAC expectedMAC then Inl ErrPunchBadMAC
      else Inr \<lparr>pMagic = magic, pVersion = version, pType = pktType, pSessionID = sessionID,
                pNonce = nonce, pMAC = receivedMAC\<rparr>)"

definition valid_punch_type :: "u8 \<Rightarrow> bool" where
  "valid_punch_type t \<longleftrightarrow> t \<in> {PunchTypePunch, PunchTypePunchAck, PunchTypeKeepalive}"

text \<open>The packet a holder of the key makes from a type, a session and a nonce.\<close>

definition punch_packet :: "u8 \<Rightarrow> u64 \<Rightarrow> u64 \<Rightarrow> bytes \<Rightarrow> PunchPacket" where
  "punch_packet t sid nonce key = \<lparr>pMagic = PunchMagic, pVersion = PunchVersion, pType = t,
     pSessionID = sid, pNonce = nonce,
     pMAC = ComputePunchMAC key PunchMagic PunchVersion t sid nonce\<rparr>"

lemma length_ComputePunchMAC [simp, wire]: "length (ComputePunchMAC key m v t s n) = 16"
  by (simp add: ComputePunchMAC_def punch_consts)

lemma NewPunchPacket_Inr:
  "key \<noteq> [] \<Longrightarrow>
     NewPunchPacket t sid key (Some nonceBuf) = Inr (punch_packet t sid (be64 nonceBuf) key)"
  by (simp add: NewPunchPacket_def punch_packet_def Let_def)

lemma split_punch:
  assumes "40 \<le> length data"
  obtains m v t r8 s n mac rest
  where "data = m @ [v, t] @ r8 @ s @ n @ mac @ rest" "length m = 4" "length r8 = 2"
    "length s = 8" "length n = 8" "length mac = 16"
proof -
  have 1: "data = take 4 data @ take 2 (drop 4 data) @ take 2 (drop 6 data) @ drop 8 data"
    using split_3 [of data 4 2 2] by simp
  have 2: "drop 8 data = take 8 (drop 8 data) @ take 8 (drop 16 data) @ take 16 (drop 24 data) @ drop 40 data"
    using split_3 [of "drop 8 data" 8 8 16] by simp
  have "length (take 2 (drop 4 data)) = 2" using assms by simp
  then obtain v t where 3: "take 2 (drop 4 data) = [v, t]"
    unfolding length_eq_2 by blast
  have "data = take 4 data @ [v, t] @ take 2 (drop 6 data) @ take 8 (drop 8 data)
      @ take 8 (drop 16 data) @ take 16 (drop 24 data) @ drop 40 data"
    using 1 2 3 by metis
  then show ?thesis
    by (rule that) (use assms in simp_all)
qed

lemma encode_punch_layout [wire]:
  assumes "length (pMAC p) = 16"
  shows "encode_punch p dst =
    put_be32 (pMagic p) @ [pVersion p, pType p, 0, 0] @ put_be64 (pSessionID p)
      @ put_be64 (pNonce p) @ pMAC p"
proof -
  have "40 \<le> length (reslice dst PunchPacketSize)"
    by (simp add: punch_consts)
  then obtain m v t r8 s n mac rest where
    r: "reslice dst PunchPacketSize = m @ [v, t] @ r8 @ s @ n @ mac @ rest"
    and len: "length m = 4" "length r8 = 2" "length s = 8" "length n = 8" "length mac = 16"
    by (rule split_punch)
  from r have "length (m @ [v, t] @ r8 @ s @ n @ mac @ rest) = 40"
    by (metis length_reslice PunchPacketSize_def)
  with len have rest: "rest = []" by simp
  from len obtain r6 r7 where r8: "r8 = [r6, r7]"
    by (auto simp: length_Suc_conv eval_nat_numeral)
  have upd: "(w @ [v, t, r6, r7] @ z)[4 := a, 5 := b, 6 := c, 7 := d] = w @ [a, b, c, d] @ z"
    if "length w = 4" for w :: bytes and z a b c d
    using that by (simp add: list_update_append)
  have "copy_at 0 (put_be32 (pMagic p)) (m @ [v, t, r6, r7] @ s @ n @ mac)
      = put_be32 (pMagic p) @ [v, t, r6, r7] @ s @ n @ mac"
    using len by (simp add: copy_at_def)
  moreover have "copy_at 8 a (w @ [b, c, d, e] @ s @ z) = w @ [b, c, d, e] @ a @ z"
    if "length w = 4" "length a = 8" for w a z :: bytes and b c d e
    using that len by (simp add: copy_at_def)
  moreover have "copy_at 16 a (w @ [b, c, d, e] @ s' @ n @ z) = w @ [b, c, d, e] @ s' @ a @ z"
    if "length w = 4" "length s' = 8" "length a = 8" for w a s' z :: bytes and b c d e
    using that len by (simp add: copy_at_def)
  moreover have "copy_at 24 a (w @ [b, c, d, e] @ s' @ n' @ mac) = w @ [b, c, d, e] @ s' @ n' @ a"
    if "length w = 4" "length s' = 8" "length n' = 8" "length a = 16" for w a s' n' :: bytes and b c d e
    using that len by (simp add: copy_at_def)
  ultimately show ?thesis
    using assms unfolding encode_punch_def Let_def r rest r8
    by (simp add: upd [simplified])
qed

lemma length_encode_punch [simp, wire]:
  "length (pMAC p) = 16 \<Longrightarrow> length (encode_punch p dst) = PunchPacketSize"
  by (simp add: encode_punch_layout punch_consts)

text \<open>
  What the decoder accepts: the encoding of a packet made with the key, in which the two
  reserved bytes are arbitrary and any bytes may follow.
\<close>

definition punch_accepts :: "bytes \<Rightarrow> bytes \<Rightarrow> u8 \<Rightarrow> u64 \<Rightarrow> u64 \<Rightarrow> bool" where
  "punch_accepts key data t sid nonce \<longleftrightarrow> valid_punch_type t \<and>
     (\<exists>r tail. length r = 2 \<and> data = put_be32 PunchMagic @ [PunchVersion, t] @ r @ put_be64 sid
        @ put_be64 nonce @ ComputePunchMAC key PunchMagic PunchVersion t sid nonce @ tail)"

lemma DecodePunchPacket_iff:
  assumes "key \<noteq> []"
  shows "DecodePunchPacket data key = Inr p \<longleftrightarrow>
    (\<exists>t sid nonce. p = punch_packet t sid nonce key \<and> punch_accepts key data t sid nonce)"
    (is "?L \<longleftrightarrow> ?R")
proof
  assume ?L
  then have "40 \<le> length data"
    by (auto simp: DecodePunchPacket_def punch_consts split: if_splits)
  then obtain m v t r8 s n mac rest where
    data: "data = m @ [v, t] @ r8 @ s @ n @ mac @ rest"
    and len: "length m = 4" "length r8 = 2" "length s = 8" "length n = 8" "length mac = 16"
    by (rule split_punch)
  have sl: "slice 0 4 data = m" "data ! 4 = v" "data ! 5 = t" "slice 8 16 data = s"
    "slice 16 24 data = n" "slice 24 40 data = mac"
    using len by (simp_all add: data slice_def nth_append)
  from \<open>?L\<close> have acc: "be32 m = PunchMagic" "v = PunchVersion" "valid_punch_type t"
    "mac = ComputePunchMAC key PunchMagic PunchVersion t (be64 s) (be64 n)"
    "p = punch_packet t (be64 s) (be64 n) key"
    by (auto simp: DecodePunchPacket_def Let_def sl hmac_equal_def valid_punch_type_def
        punch_packet_def split: if_splits)
  have "m = put_be32 PunchMagic" "s = put_be64 (be64 s)" "n = put_be64 (be64 n)"
    using acc(1) len by (metis put_be32_be32, simp_all add: put_be64_be64)
  then have "punch_accepts key data t (be64 s) (be64 n)"
    unfolding punch_accepts_def using acc len data by metis
  with acc show ?R by blast
next
  assume ?R
  then obtain t sid nonce r tail where p: "p = punch_packet t sid nonce key"
    and t: "valid_punch_type t" and r: "length r = 2"
    and data: "data = put_be32 PunchMagic @ [PunchVersion, t] @ r @ put_be64 sid
        @ put_be64 nonce @ ComputePunchMAC key PunchMagic PunchVersion t sid nonce @ tail"
    by (auto simp: punch_accepts_def)
  have sl: "slice 0 4 data = put_be32 PunchMagic" "data ! 4 = PunchVersion" "data ! 5 = t"
    "slice 8 16 data = put_be64 sid" "slice 16 24 data = put_be64 nonce"
    "slice 24 40 data = ComputePunchMAC key PunchMagic PunchVersion t sid nonce"
    "40 \<le> length data"
    using r by (simp_all add: data slice_def nth_append)
  then show ?L
    using assms t by (auto simp: DecodePunchPacket_def Let_def p punch_packet_def valid_punch_type_def
        PunchPacketSize_def)
qed

lemma DecodePunchPacket_encode [simp]:
  assumes "key \<noteq> []" "valid_punch_type t"
  shows "DecodePunchPacket (encode_punch (punch_packet t sid nonce key) dst @ tail) key =
    Inr (punch_packet t sid nonce key)"
proof -
  have "punch_accepts key (encode_punch (punch_packet t sid nonce key) dst @ tail) t sid nonce"
    unfolding punch_accepts_def using assms
    by (intro conjI exI [of _ "[0, 0]"] exI [of _ tail])
      (simp_all add: encode_punch_layout punch_packet_def)
  with assms show ?thesis
    by (auto simp: DecodePunchPacket_iff)
qed

text \<open>
  A hole-punching packet is accepted under a key if and only if it carries the magic number, the
  version, a known type, and the tag that the key gives for exactly these fields with the session
  and nonce it names; the result is then the packet that a holder of the key makes from them. The
  two reserved bytes and whatever follows the 40 bytes are not looked at.
\<close>

theorem punch_packet_exact:
  "DecodePunchPacket data key = Inr p \<longleftrightarrow> key \<noteq> [] \<and>
     (\<exists>t sid nonce r tail. valid_punch_type t \<and> length r = 2
        \<and> NewPunchPacket t sid key (Some (put_be64 nonce)) = Inr p
        \<and> data = take 6 (encode_punch p []) @ r @ drop 8 (encode_punch p []) @ tail)"
  (is "?L \<longleftrightarrow> key \<noteq> [] \<and> ?R")
proof (cases "key = []")
  case True
  then show ?thesis by (simp add: DecodePunchPacket_def)
next
  case False
  have enc: "take 6 (encode_punch q []) = put_be32 PunchMagic @ [PunchVersion, t]"
    "drop 8 (encode_punch q []) = put_be64 sid @ put_be64 nonce
       @ ComputePunchMAC key PunchMagic PunchVersion t sid nonce"
    if "q = punch_packet t sid nonce key" for q t sid nonce
    using that by (simp_all add: encode_punch_layout punch_packet_def put_be32_def)
  have new: "NewPunchPacket t sid key (Some (put_be64 nonce)) = Inr p \<longleftrightarrow> p = punch_packet t sid nonce key"
    for t sid nonce
    using NewPunchPacket_Inr [OF False, of t sid "put_be64 nonce"] by auto
  show ?thesis
    unfolding DecodePunchPacket_iff [OF False] new punch_accepts_def using False enc by fastforce
qed

end
