(* ===== verification/Tcp_Header.thy ===== *)
theory Tcp_Header
  imports Wire_Format
begin

text \<open>
  The 8-byte header of \<open>internal/protocol/tcp.go\<close> that opens a relayed TCP connection on a stream:
  encoding in place (with the panic on a short buffer), decoding, and the reader and writer that
  exchange it over a stream.
\<close>

definition TCPProtocolVersion :: u8 where "TCPProtocolVersion = 1"
definition TCPHeaderSize :: nat where "TCPHeaderSize = 8"
definition TCPTypeOpen :: u8 where "TCPTypeOpen = 0x01"
definition TCPTypeOpenOK :: u8 where "TCPTypeOpenOK = 0x02"
definition TCPTypeError :: u8 where "TCPTypeError = 0x03"
definition TCPTypeClose :: u8 where "TCPTypeClose = 0x04"

lemmas tcp_consts = TCPProtocolVersion_def TCPHeaderSize_def TCPTypeOpen_def TCPTypeOpenOK_def
  TCPTypeError_def TCPTypeClose_def

record TCPHeader =
  Version_t :: u8
  Type_t :: u8
  ConnectionID :: u32
  TargetPort :: u16

datatype tcp_error =
    BufferTooSmall \<comment> \<open>the panic of \<open>Encode\<close>\<close>
  | InsufficientData
  | UnsupportedTCPVersion u8
  | TCPIo io_error

definition encode_tcp :: "TCPHeader \<Rightarrow> bytes \<Rightarrow> tcp_error + bytes" where
  "encode_tcp h b =
     (if length b < TCPHeaderSize then Inl BufferTooSmall
      else let b = b[0 := Version_t h];
               b = b[1 := Type_t h];
               b = copy_at 2 (put_be32 (ConnectionID h)) b
           in Inr (copy_at 6 (put_be16 (TargetPort h)) b))"

definition decode_tcp :: "bytes \<Rightarrow> tcp_error + TCPHeader" where
  "decode_tcp b =
     (if length b < TCPHeaderSize then Inl InsufficientData
      else Inr \<lparr>Version_t = b ! 0, Type_t = b ! 1, ConnectionID = be32 (slice 2 6 b),
                TargetPort = be16 (slice 6 8 b)\<rparr>)"

definition ReadTCPHeader :: "bytes \<Rightarrow> tcp_error + TCPHeader \<times> bytes" where
  "ReadTCPHeader r =
     (case read_full TCPHeaderSize r of
        Inl e \<Rightarrow> Inl (TCPIo e)
      | Inr (buf, rest) \<Rightarrow>
          (case decode_tcp buf of
             Inl e \<Rightarrow> Inl e
           | Inr h \<Rightarrow> if Version_t h \<noteq> TCPProtocolVersion then Inl (UnsupportedTCPVersion (Version_t h))
                      else Inr (h, rest)))"

text \<open>\<open>WriteTCPHeader\<close> encodes into a zeroed array and appends it to the stream.\<close>

definition WriteTCPHeader :: "bytes \<Rightarrow> TCPHeader \<Rightarrow> tcp_error + bytes" where
  "WriteTCPHeader w h = bind_result (encode_tcp h (replicate TCPHeaderSize 0)) (\<lambda>buf. Inr (w @ buf))"

definition tcp_header_bytes :: "TCPHeader \<Rightarrow> bytes" where
  "tcp_header_bytes h = [Version_t h, Type_t h] @ put_be32 (ConnectionID h) @ put_be16 (TargetPort h)"

lemma length_tcp_header_bytes [simp, wire]: "length (tcp_header_bytes h) = TCPHeaderSize"
  by (simp add: tcp_header_bytes_def tcp_consts)

text \<open>Encoding overwrites the first eight bytes and leaves the rest of the buffer alone.\<close>

lemma encode_tcp_layout [wire]:
  assumes "TCPHeaderSize \<le> length b"
  shows "encode_tcp h b = Inr (tcp_header_bytes h @ drop TCPHeaderSize b)"
proof -
  obtain hd where "b = hd @ drop 8 b" and hd: "length hd = 8"
    using assms by (metis append_take_drop_id length_take min.absorb2 tcp_consts(2))
  moreover from hd obtain b0 b1 b2 b3 b4 b5 b6 b7 where "hd = [b0, b1, b2, b3, b4, b5, b6, b7]"
    by (auto simp: length_Suc_conv eval_nat_numeral)
  ultimately obtain b0 b1 b2 b3 b4 b5 b6 b7 rest where "b = [b0, b1, b2, b3, b4, b5, b6, b7] @ rest"
    by metis
  then show ?thesis
    by (simp add: encode_tcp_def Let_def tcp_consts copy_at_def tcp_header_bytes_def
        put_be32_def put_be16_def)
qed

lemma decode_tcp_header_bytes [simp]: "decode_tcp (tcp_header_bytes h @ rest) = Inr h"
  by (simp add: decode_tcp_def tcp_header_bytes_def tcp_consts slice_def put_be32_def put_be16_def
      be32_put_be32 [unfolded put_be32_def] be16_put_be16 [unfolded put_be16_def])

lemma WriteTCPHeader_Inr [wire]: "WriteTCPHeader w h = Inr (w @ tcp_header_bytes h)"
  by (simp add: WriteTCPHeader_def encode_tcp_layout)

lemma ReadTCPHeader_header_bytes:
  "ReadTCPHeader (tcp_header_bytes h @ rest) =
     (if Version_t h = TCPProtocolVersion then Inr (h, rest)
      else Inl (UnsupportedTCPVersion (Version_t h)))"
  using decode_tcp_header_bytes [of h "[]"] by (simp add: ReadTCPHeader_def)

definition sends_tcp :: "TCPHeader \<Rightarrow> bool" where
  "sends_tcp h \<longleftrightarrow> Version_t h = TCPProtocolVersion"

interpretation tcp_header: stream_format tcp_header_bytes ReadTCPHeader sends_tcp
proof unfold_locales
  show "ReadTCPHeader (tcp_header_bytes h @ rest) = Inr (h, rest)" if "sends_tcp h" for h rest
    using that by (simp add: ReadTCPHeader_header_bytes sends_tcp_def)
  show "\<exists>e. ReadTCPHeader [] = Inl e"
    by (simp add: ReadTCPHeader_def read_full_def tcp_consts)
qed

lemma ReadTCPHeader_iff:
  "ReadTCPHeader bs = Inr (h, rest) \<longleftrightarrow> sends_tcp h \<and> bs = tcp_header_bytes h @ rest"
proof
  assume L: "ReadTCPHeader bs = Inr (h, rest)"
  then have len: "8 \<le> length bs"
    by (auto simp: ReadTCPHeader_def read_full_def tcp_consts split: if_splits)
  have "bs = take 2 bs @ take 4 (drop 2 bs) @ take 2 (drop 6 bs) @ drop 8 bs"
    using split_3 [of bs 2 4 2] by simp
  moreover have "length (take 2 bs) = 2" using len by simp
  then obtain v t where "take 2 bs = [v, t]" unfolding length_eq_2 by blast
  moreover have "take 4 (drop 2 bs) = put_be32 (be32 (take 4 (drop 2 bs)))"
    "take 2 (drop 6 bs) = put_be16 (be16 (take 2 (drop 6 bs)))"
    using len by (simp_all add: put_be32_be32 put_be16_be16)
  ultimately have bs: "bs = tcp_header_bytes \<lparr>Version_t = v, Type_t = t,
      ConnectionID = be32 (take 4 (drop 2 bs)), TargetPort = be16 (take 2 (drop 6 bs))\<rparr> @ drop 8 bs"
    by (simp add: tcp_header_bytes_def)
  with L show "sends_tcp h \<and> bs = tcp_header_bytes h @ rest"
    using ReadTCPHeader_header_bytes by (metis Inl_Inr_False Pair_inject Inr_inject sends_tcp_def)
next
  assume "sends_tcp h \<and> bs = tcp_header_bytes h @ rest"
  then show "ReadTCPHeader bs = Inr (h, rest)"
    by (simp add: ReadTCPHeader_header_bytes sends_tcp_def)
qed

text \<open>
  The header exchange on a relayed stream: reading succeeds with a header if and only if the
  stream starts with the eight bytes the writer sends for a header of version 1, and it consumes
  just these, so the payload behind them reaches the copy loop untouched.
\<close>

theorem tcp_header_exact:
  "ReadTCPHeader bs = Inr (h, rest) \<longleftrightarrow> Version_t h = TCPProtocolVersion \<and>
     (\<exists>sent. WriteTCPHeader [] h = Inr sent \<and> length sent = TCPHeaderSize \<and> bs = sent @ rest)"
  by (simp add: ReadTCPHeader_iff sends_tcp_def WriteTCPHeader_Inr)

end
