(* ===== verification/Netip.thy ===== *)
theory Netip
  imports Prelude
begin

text \<open>
  What the program uses of Go's package \<open>net/netip\<close>: addresses with an optional zone, addresses
  with a port, prefixes, and their textual forms, parsed and printed as the package does.
\<close>

section \<open>Text\<close>

definition digit :: "char \<Rightarrow> int option" where
  "digit c = (let n = of_char c in if 48 \<le> n \<and> n \<le> 57 then Some (n - 48) else None)"

definition hex_digit :: "char \<Rightarrow> int option" where
  "hex_digit c = (let n = of_char c in
     if 48 \<le> n \<and> n \<le> 57 then Some (n - 48)
     else if 97 \<le> n \<and> n \<le> 102 then Some (n - 87)
     else if 65 \<le> n \<and> n \<le> 70 then Some (n - 55) else None)"

fun decimal_value :: "int \<Rightarrow> string \<Rightarrow> int option" where
  "decimal_value acc [] = Some acc"
| "decimal_value acc (c # cs) =
     (case digit c of None \<Rightarrow> None | Some d \<Rightarrow> decimal_value (10 * acc + d) cs)"

text \<open>\<open>strconv.ParseUint(s, 10, 16)\<close>.\<close>

definition parse_uint16 :: "string \<Rightarrow> u16 option" where
  "parse_uint16 s = (if s = [] then None
     else case decimal_value 0 s of
       Some n \<Rightarrow> if n < 65536 then Some (word_of_int n) else None | None \<Rightarrow> None)"

text \<open>Printing a number that is not negative, in base 16.\<close>

function show_hex :: "int \<Rightarrow> string" where
  "show_hex n = (if n < 16 then [char_of_digit n] else show_hex (n div 16) @ [char_of_digit (n mod 16)])"
  by auto
termination by (relation "measure nat") auto

declare show_hex.simps [simp del]

fun split_on :: "char \<Rightarrow> string \<Rightarrow> string list" where
  "split_on c [] = [[]]"
| "split_on c (x # xs) = (if x = c then [] # split_on c xs
     else case split_on c xs of [] \<Rightarrow> [[x]] | p # ps \<Rightarrow> (x # p) # ps)"

fun index_of :: "char \<Rightarrow> string \<Rightarrow> nat option" where
  "index_of c [] = None"
| "index_of c (x # xs) = (if x = c then Some 0 else map_option Suc (index_of c xs))"

definition last_index :: "char \<Rightarrow> string \<Rightarrow> nat option" where
  "last_index c s = map_option (\<lambda>i. length s - 1 - i) (index_of c (rev s))"

section \<open>Addresses\<close>

text \<open>The zero \<open>Addr\<close> is \<open>NoAddr\<close>; an IPv6 address has a zone, empty when there is none.\<close>

datatype Addr = NoAddr | V4 u32 | V6 "128 word" string

definition IsValid :: "Addr \<Rightarrow> bool" where
  "IsValid a \<longleftrightarrow> a \<noteq> NoAddr"

fun Is4 :: "Addr \<Rightarrow> bool" where
  "Is4 (V4 _) = True" | "Is4 _ = False"

fun Is6 :: "Addr \<Rightarrow> bool" where
  "Is6 (V6 _ _) = True" | "Is6 _ = False"

fun Is4In6 :: "Addr \<Rightarrow> bool" where
  "Is4In6 (V6 x _) = (drop_bit 32 x = 0xffff)" | "Is4In6 _ = False"

fun Unmap :: "Addr \<Rightarrow> Addr" where
  "Unmap (V6 x z) = (if drop_bit 32 x = 0xffff then V4 (ucast x) else V6 x z)"
| "Unmap a = a"

fun has_zone :: "Addr \<Rightarrow> bool" where
  "has_zone (V6 x z) = (z \<noteq> [])" | "has_zone _ = False"

fun IsUnspecified :: "Addr \<Rightarrow> bool" where
  "IsUnspecified (V4 x) = (x = 0)" | "IsUnspecified (V6 x z) = (x = 0 \<and> z = [])"
| "IsUnspecified NoAddr = False"

text \<open>A mapped IPv4 address is judged as the IPv4 address; \<open>IsUnspecified\<close> does not unmap.\<close>

definition IsMulticast :: "Addr \<Rightarrow> bool" where
  "IsMulticast a = (case Unmap a of
     V4 x \<Rightarrow> drop_bit 28 x = 0xe | V6 x z \<Rightarrow> drop_bit 120 x = 0xff | NoAddr \<Rightarrow> False)"

lemma Unmap_Unmap [simp]: "Unmap (Unmap a) = Unmap a"
  by (cases a) auto

lemma IsValid_Unmap [simp]: "IsValid (Unmap a) = IsValid a"
  by (cases a) (auto simp: IsValid_def)

record AddrPort =
  ap_addr :: Addr
  ap_port :: u16

definition no_addr_port :: AddrPort where
  "no_addr_port = \<lparr>ap_addr = NoAddr, ap_port = 0\<rparr>"

text \<open>\<open>netip.AddrFromSlice\<close>: four or sixteen bytes.\<close>

fun bytes_value :: "int \<Rightarrow> bytes \<Rightarrow> int" where
  "bytes_value acc [] = acc"
| "bytes_value acc (b # bs) = bytes_value (256 * acc + uint b) bs"

definition AddrFromSlice :: "bytes \<Rightarrow> Addr option" where
  "AddrFromSlice bs = (if length bs = 4 then Some (V4 (word_of_int (bytes_value 0 bs)))
     else if length bs = 16 then Some (V6 (word_of_int (bytes_value 0 bs)) []) else None)"

section \<open>Prefixes\<close>

record Prefix =
  p_addr :: Addr
  p_bits :: nat

fun Contains :: "Prefix \<Rightarrow> Addr \<Rightarrow> bool" where
  "Contains p a = (case (p_addr p, a) of
     (V4 n, V4 x) \<Rightarrow> p_bits p \<le> 32 \<and> drop_bit (32 - p_bits p) (x XOR n) = 0
   | (V6 n nz, V6 x z) \<Rightarrow> p_bits p \<le> 128 \<and> z = [] \<and> drop_bit (128 - p_bits p) (x XOR n) = 0
   | _ \<Rightarrow> False)"

declare Contains.simps [simp del]

section \<open>Parsing\<close>

definition octet :: "string \<Rightarrow> int option" where
  "octet s = (if s = [] \<or> (length s > 1 \<and> hd s = CHR ''0'') then None
     else case decimal_value 0 s of Some n \<Rightarrow> if n \<le> 255 then Some n else None | None \<Rightarrow> None)"

definition parse_v4 :: "string \<Rightarrow> int list option" where
  "parse_v4 s = (case map octet (split_on CHR ''.'' s) of
     [Some a, Some b, Some c, Some d] \<Rightarrow> Some [a, b, c, d] | _ \<Rightarrow> None)"

fun hex_value :: "int \<Rightarrow> string \<Rightarrow> int" where
  "hex_value acc [] = acc"
| "hex_value acc (c # cs) = hex_value (16 * acc + (case hex_digit c of Some d \<Rightarrow> d | None \<Rightarrow> 0)) cs"

text \<open>
  The loop of \<open>parseIPv6\<close> over the 16-bit groups: \<open>i\<close> bytes are written, \<open>ell\<close> is where the
  ellipsis was. The result is the bytes written, the ellipsis and the text left over.
\<close>

function parse_groups ::
  "nat \<Rightarrow> nat option \<Rightarrow> int list \<Rightarrow> string \<Rightarrow> (int list \<times> nat option \<times> string) option" where
  "parse_groups i ell bs s =
     (if i \<ge> 16 then Some (bs, ell, s)
      else let off = length (takeWhile (\<lambda>c. hex_digit c \<noteq> None) s);
               acc = hex_value 0 (take off s); r = drop off s in
      if off = 0 \<or> off > 4 then None
      else if r \<noteq> [] \<and> hd r = CHR ''.'' then
        (if ell = None \<and> i \<noteq> 12 then None
         else if i + 4 > 16 then None
         else map_option (\<lambda>q. (bs @ q, ell, [])) (parse_v4 s))
      else let bs = bs @ [acc div 256, acc mod 256]; i = i + 2 in
      if r = [] then Some (bs, ell, [])
      else if hd r \<noteq> CHR '':'' \<or> length r = 1 then None
      else let r = tl r in
      if hd r = CHR '':'' then
        (if ell \<noteq> None then None
         else if tl r = [] then Some (bs, Some i, [])
         else parse_groups i (Some i) bs (tl r))
      else parse_groups i ell bs r)"
  by auto
termination by (relation "measure (\<lambda>(i, ell, bs, s). 16 - i)") auto

declare parse_groups.simps [simp del]

definition octets_value :: "int list \<Rightarrow> int" where
  "octets_value bs = foldl (\<lambda>acc b. 256 * acc + b) 0 bs"

definition parse_v6 :: "string \<Rightarrow> Addr option" where
  "parse_v6 inp =
     (let (s, zone, ok) = (case index_of CHR ''%'' inp of None \<Rightarrow> (inp, [], True)
            | Some i \<Rightarrow> (take i inp, drop (Suc i) inp, drop (Suc i) inp \<noteq> [])) in
      if \<not> ok then None
      else let lead = (take 2 s = ''::''); s' = (if lead then drop 2 s else s) in
      if lead \<and> s' = [] then Some (V6 0 zone)
      else case parse_groups 0 (if lead then Some 0 else None) [] s' of
        None \<Rightarrow> None
      | Some (bs, ell, rest) \<Rightarrow>
          if rest \<noteq> [] then None
          else if length bs < 16 then
            (case ell of None \<Rightarrow> None
             | Some e \<Rightarrow> Some (V6 (word_of_int (octets_value
                 (take e bs @ replicate (16 - length bs) 0 @ drop e bs))) zone))
          else if ell \<noteq> None then None
          else Some (V6 (word_of_int (octets_value bs)) zone))"

fun first_of :: "string \<Rightarrow> char option" where
  "first_of [] = None"
| "first_of (c # cs) = (if c = CHR ''.'' \<or> c = CHR '':'' \<or> c = CHR ''%'' then Some c else first_of cs)"

definition ParseAddr :: "string \<Rightarrow> Addr option" where
  "ParseAddr s = (case first_of s of
     Some c \<Rightarrow>
       if c = CHR ''.'' then map_option (\<lambda>q. V4 (word_of_int (octets_value q))) (parse_v4 s)
       else if c = CHR '':'' then parse_v6 s else None
   | None \<Rightarrow> None)"

definition ParseAddrPort :: "string \<Rightarrow> AddrPort option" where
  "ParseAddrPort s = (case last_index CHR '':'' s of
     None \<Rightarrow> None
   | Some i \<Rightarrow>
       (let ip = take i s; port = drop (Suc i) s in
        if ip = [] \<or> port = [] then None
        else let v6 = (hd ip = CHR ''['') in
        if v6 \<and> (length ip < 2 \<or> last ip \<noteq> CHR '']'') then None
        else case parse_uint16 port of None \<Rightarrow> None
        | Some p \<Rightarrow>
            (case ParseAddr (if v6 then slice 1 (length ip - 1) ip else ip) of
               None \<Rightarrow> None
             | Some a \<Rightarrow> if (v6 \<and> Is4 a) \<or> (\<not> v6 \<and> Is6 a) then None
                         else Some \<lparr>ap_addr = a, ap_port = p\<rparr>)))"

definition ParsePrefix :: "string \<Rightarrow> Prefix option" where
  "ParsePrefix s = (case last_index CHR ''/'' s of
     None \<Rightarrow> None
   | Some i \<Rightarrow>
       (case ParseAddr (take i s) of
          None \<Rightarrow> None
        | Some a \<Rightarrow>
            (let bitsStr = drop (Suc i) s in
             if has_zone a then None
             else if length bitsStr > 1 \<and> (digit (hd bitsStr) = None \<or> digit (hd bitsStr) = Some 0) then None
             else if bitsStr = [] then None
             else case decimal_value 0 bitsStr of None \<Rightarrow> None
             | Some bits \<Rightarrow> if bits > (if Is4 a then 32 else 128) then None
                            else Some \<lparr>p_addr = a, p_bits = nat bits\<rparr>)))"

section \<open>Printing\<close>

definition show_v4 :: "u32 \<Rightarrow> string" where
  "show_v4 x = (let n = uint x in
     show_dec (n div 16777216) @ ''.'' @ show_dec (n div 65536 mod 256) @ ''.''
       @ show_dec (n div 256 mod 256) @ ''.'' @ show_dec (n mod 256))"

definition groups_of :: "128 word \<Rightarrow> int list" where
  "groups_of x = map (\<lambda>i. uint (drop_bit (16 * (7 - i)) x) mod 65536) [0..<8]"

definition zero_run :: "int list \<Rightarrow> nat \<Rightarrow> nat" where
  "zero_run gs i = length (takeWhile (\<lambda>g. g = 0) (drop i gs))"

text \<open>The first longest run of at least two zero groups, as \<open>appendTo6\<close> looks for it.\<close>

fun longest_run :: "int list \<Rightarrow> nat list \<Rightarrow> nat \<Rightarrow> nat \<Rightarrow> nat \<times> nat" where
  "longest_run gs [] st len = (st, len)"
| "longest_run gs (i # is) st len =
     (let l = zero_run gs i in
      if l \<ge> 2 \<and> l > len then longest_run gs is i l else longest_run gs is st len)"

fun join_colon :: "string list \<Rightarrow> string" where
  "join_colon [] = []"
| "join_colon [s] = s"
| "join_colon (s # ss) = s @ '':'' @ join_colon ss"

definition show_v6 :: "128 word \<Rightarrow> string" where
  "show_v6 x = (let gs = groups_of x; (st, len) = longest_run gs [0..<8] 8 0 in
     if len = 0 then join_colon (map show_hex gs)
     else join_colon (map show_hex (take st gs)) @ ''::'' @ join_colon (map show_hex (drop (st + len) gs)))"

fun addr_string :: "Addr \<Rightarrow> string" where
  "addr_string NoAddr = ''invalid IP''"
| "addr_string (V4 x) = show_v4 x"
| "addr_string (V6 x z) = (if drop_bit 32 x = 0xffff then ''::ffff:'' @ show_v4 (ucast x) else show_v6 x)
     @ (if z = [] then [] else ''%'' @ z)"

definition addr_port_string :: "AddrPort \<Rightarrow> string" where
  "addr_port_string ap = (case ap_addr ap of
     NoAddr \<Rightarrow> ''invalid AddrPort''
   | V4 x \<Rightarrow> show_v4 x @ '':'' @ show_dec (uint (ap_port ap))
   | V6 x z \<Rightarrow> ''['' @ addr_string (V6 x z) @ '']:'' @ show_dec (uint (ap_port ap)))"

section \<open>Host and port\<close>

text \<open>\<open>net.SplitHostPort\<close>.\<close>

definition SplitHostPort :: "string \<Rightarrow> (string \<times> string) option" where
  "SplitHostPort s = (case last_index CHR '':'' s of
     None \<Rightarrow> None
   | Some i \<Rightarrow>
       if hd s = CHR ''['' then
         (case index_of CHR '']'' s of
            None \<Rightarrow> None
          | Some e \<Rightarrow>
              if Suc e \<noteq> i then None
              else if CHR ''['' \<in> set (drop 1 s) \<or> CHR '']'' \<in> set (drop (Suc e) s) then None
              else Some (slice 1 e s, drop (Suc i) s))
       else if CHR '':'' \<in> set (take i s) \<or> CHR ''['' \<in> set s \<or> CHR '']'' \<in> set s then None
       else Some (take i s, drop (Suc i) s))"

text \<open>\<open>strings.Trim\<close> with a set of characters.\<close>

definition trim :: "char set \<Rightarrow> string \<Rightarrow> string" where
  "trim cs s = rev (dropWhile (\<lambda>c. c \<in> cs) (rev (dropWhile (\<lambda>c. c \<in> cs) s)))"

lemma index_of_append: "c \<notin> set xs \<Longrightarrow> index_of c (xs @ c # ys) = Some (length xs)"
  by (induction xs) auto

lemma last_index_append: "c \<notin> set ys \<Longrightarrow> last_index c (xs @ c # ys) = Some (length xs)"
  using index_of_append [of c "rev ys" "rev xs"] by (simp add: last_index_def)

lemma SplitHostPort_plain:
  assumes "CHR '':'' \<notin> set host" "CHR ''['' \<notin> set host" "CHR '']'' \<notin> set host"
    "CHR '':'' \<notin> set port" "CHR ''['' \<notin> set port" "CHR '']'' \<notin> set port"
  shows "SplitHostPort (host @ '':'' @ port) = Some (host, port)"
  using assms last_index_append [of "CHR '':''" port host]
  by (cases host) (auto simp: SplitHostPort_def)

lemma SplitHostPort_bracketed:
  assumes "CHR ''['' \<notin> set host" "CHR '']'' \<notin> set host"
    "CHR '':'' \<notin> set port" "CHR ''['' \<notin> set port" "CHR '']'' \<notin> set port"
  shows "SplitHostPort (''['' @ host @ '']:'' @ port) = Some (host, port)"
proof -
  have l: "last_index CHR '':'' (''['' @ host @ '']:'' @ port) = Some (Suc (Suc (length host)))"
    using last_index_append [of "CHR '':''" port "''['' @ host @ '']''"] assms by simp
  have i: "index_of CHR '']'' (''['' @ host @ '']:'' @ port) = Some (Suc (length host))"
    using index_of_append [of "CHR '']''" "''['' @ host" "'':'' @ port"] assms by simp
  show ?thesis
    using assms l i by (simp add: SplitHostPort_def slice_def)
qed

section \<open>The characters of addresses\<close>

definition hex_chars :: "char set" where
  "hex_chars = set ''0123456789abcdef''"

lemma hex_chars_no [simp]: "CHR '':'' \<notin> hex_chars" "CHR ''['' \<notin> hex_chars" "CHR '']'' \<notin> hex_chars"
  "CHR ''.'' \<notin> hex_chars"
  by (simp_all add: hex_chars_def)

lemma char_of_digit_set:
  assumes "0 \<le> n" "n < 16"
  shows "char_of_digit n \<in> hex_chars"
proof -
  have "\<forall>k\<in>set [0..15]. char_of_digit k \<in> hex_chars" by code_simp
  moreover have "n \<in> set [0..15]" using assms by simp
  ultimately show ?thesis by blast
qed

lemma show_dec_set: "0 \<le> n \<Longrightarrow> set (show_dec n) \<subseteq> hex_chars"
proof (induction n rule: show_dec.induct)
  case (1 n)
  show ?case
  proof (cases "n < 10")
    case True
    then show ?thesis using 1(2) char_of_digit_set [of n] by (subst show_dec.simps) simp
  next
    case False
    then have "set (show_dec (n div 10)) \<subseteq> hex_chars" using 1 by simp
    then show ?thesis using False char_of_digit_set [of "n mod 10"] by (subst show_dec.simps) simp
  qed
qed

lemma show_hex_set: "0 \<le> n \<Longrightarrow> set (show_hex n) \<subseteq> hex_chars"
proof (induction n rule: show_hex.induct)
  case (1 n)
  show ?case
  proof (cases "n < 16")
    case True
    then show ?thesis using 1(2) char_of_digit_set [of n] by (subst show_hex.simps) simp
  next
    case False
    then have "set (show_hex (n div 16)) \<subseteq> hex_chars" using 1 by simp
    then show ?thesis using False char_of_digit_set [of "n mod 16"] by (subst show_hex.simps) simp
  qed
qed

lemma show_v4_set: "set (show_v4 x) \<subseteq> insert CHR ''.'' hex_chars"
proof -
  have "set (show_dec n) \<subseteq> insert CHR ''.'' hex_chars" if "0 \<le> n" for n
    using show_dec_set [OF that] by blast
  then show ?thesis by (simp add: show_v4_def Let_def pos_imp_zdiv_nonneg_iff)
qed

lemma join_colon_set: "set (join_colon ss) \<subseteq> insert CHR '':'' (\<Union>s\<in>set ss. set s)"
  by (induction ss rule: join_colon.induct) auto

lemma show_v6_set: "set (show_v6 x) \<subseteq> insert CHR '':'' hex_chars"
proof -
  have g: "0 \<le> n" if "n \<in> set (groups_of x)" for n
    using that by (auto simp: groups_of_def)
  have sub: "set (join_colon (map show_hex gs)) \<subseteq> insert CHR '':'' hex_chars"
    if "set gs \<subseteq> set (groups_of x)" for gs
    using join_colon_set [of "map show_hex gs"] show_hex_set g that by fastforce
  have "set (join_colon (map show_hex (take n (groups_of x)))) \<subseteq> insert CHR '':'' hex_chars"
    "set (join_colon (map show_hex (drop n (groups_of x)))) \<subseteq> insert CHR '':'' hex_chars" for n
    by (intro sub set_take_subset set_drop_subset)+
  moreover have "set (join_colon (map show_hex (groups_of x))) \<subseteq> insert CHR '':'' hex_chars"
    by (rule sub) simp
  moreover obtain st len where "longest_run (groups_of x) [0..<8] 8 0 = (st, len)" by fastforce
  ultimately show ?thesis
    by (simp add: show_v6_def Let_def)
qed

text \<open>The brackets and the colon that separate host and port do not occur inside either.\<close>

lemma addr_string_chars:
  assumes "\<not> has_zone a" "a \<noteq> NoAddr"
  shows "CHR ''['' \<notin> set (addr_string a)" "CHR '']'' \<notin> set (addr_string a)"
    "Is4 a \<Longrightarrow> CHR '':'' \<notin> set (addr_string a)"
proof -
  have 4: "CHR ''['' \<notin> set (show_v4 x)" "CHR '']'' \<notin> set (show_v4 x)" "CHR '':'' \<notin> set (show_v4 x)" for x
    using show_v4_set [of x] by (auto dest: subsetD)
  have 6: "CHR ''['' \<notin> set (show_v6 x)" "CHR '']'' \<notin> set (show_v6 x)" for x
    using show_v6_set [of x] by (auto dest: subsetD)
  show "CHR ''['' \<notin> set (addr_string a)" "CHR '']'' \<notin> set (addr_string a)"
    "Is4 a \<Longrightarrow> CHR '':'' \<notin> set (addr_string a)"
    using assms 4 6 by (cases a; simp)+
qed

lemma show_port_chars:
  "CHR ''['' \<notin> set (show_dec (uint p))" "CHR '']'' \<notin> set (show_dec (uint p))"
  "CHR '':'' \<notin> set (show_dec (uint p))"
  using show_dec_set [of "uint p"] by (auto dest: subsetD)

text \<open>Host and port are found again in the text of an address.\<close>

lemma SplitHostPort_addr_port:
  assumes "\<not> has_zone a" "a \<noteq> NoAddr"
  shows "SplitHostPort (addr_port_string \<lparr>ap_addr = a, ap_port = p\<rparr>) = Some (addr_string a, show_dec (uint p))"
proof (cases a)
  case (V4 x)
  then show ?thesis
    using SplitHostPort_plain [OF addr_string_chars(3,1,2) [OF assms] show_port_chars(3,1,2)] assms
    by (simp add: addr_port_string_def)
next
  case (V6 x z)
  then show ?thesis
    using SplitHostPort_bracketed [OF addr_string_chars(1,2) [OF assms] show_port_chars(3,1,2)]
    by (simp only: addr_port_string_def AddrPort.simps Addr.case)
qed (use assms in simp)

end
