(* ===== verification/Rate_Window.thy ===== *)
theory Rate_Window
  imports Prelude
begin

text \<open>
  The contract of the program's fixed-window rate limiters, the one on UDP sessions and the one per
  remote address. A limiter keeps for each key the start of the current window and how much of it is
  used; it may forget a key once the window is over. Whoever keeps this contract admits at most
  twice its limit within any period of one window's length, wherever the period starts.
\<close>

text \<open>A window that is over, or none.\<close>

definition window_over :: "time \<Rightarrow> time \<Rightarrow> time option \<Rightarrow> bool" where
  "window_over width now start \<longleftrightarrow> (case start of None \<Rightarrow> True | Some st \<Rightarrow> now - st \<ge> width)"

lemma window_over_simps [simp]:
  "window_over width now None" "window_over width now (Some st) \<longleftrightarrow> now - st \<ge> width"
  by (simp_all add: window_over_def)

locale rate_window =
  fixes step :: "'e \<Rightarrow> time \<Rightarrow> 's \<Rightarrow> 's"
    and admits :: "'e \<Rightarrow> time \<Rightarrow> 's \<Rightarrow> 'k \<Rightarrow> bool"
    and start :: "'s \<Rightarrow> 'k \<Rightarrow> time option"
    and used :: "'s \<Rightarrow> 'k \<Rightarrow> nat"
    and width :: "'s \<Rightarrow> time"
    and limit :: "'s \<Rightarrow> nat"
    and good :: "time \<Rightarrow> 's \<Rightarrow> bool"
  assumes const: "width (step e now s) = width s" "limit (step e now s) = limit s"
    and good_step: "good t s \<Longrightarrow> t \<le> now \<Longrightarrow> good now (step e now s)"
    and admit: "good t s \<Longrightarrow> t \<le> now \<Longrightarrow> admits e now s k \<Longrightarrow>
      (window_over (width s) now (start s k) \<and> start (step e now s) k = Some now
         \<and> used (step e now s) k = 1
       \<or> \<not> window_over (width s) now (start s k) \<and> start (step e now s) k = start s k
         \<and> used (step e now s) k = Suc (used s k))
      \<and> used (step e now s) k \<le> limit s"
    and no_admit: "good t s \<Longrightarrow> t \<le> now \<Longrightarrow> \<not> admits e now s k \<Longrightarrow>
      start (step e now s) k = start s k \<and> used (step e now s) k = used s k
      \<or> window_over (width s) now (start s k) \<and>
          (start (step e now s) k = None \<or> start (step e now s) k = Some now)
          \<and> used (step e now s) k = 0"
begin

text \<open>How many of a key's events were admitted at an instant of the period \<open>[a, a + width)\<close>.\<close>

fun admitted_in :: "time \<Rightarrow> 'k \<Rightarrow> ('e \<times> time) list \<Rightarrow> 's \<Rightarrow> nat" where
  "admitted_in a k [] s = 0"
| "admitted_in a k ((e, now) # evs) s =
     (if admits e now s k \<and> a \<le> now \<and> now < a + width s then 1 else 0)
       + admitted_in a k evs (step e now s)"

fun in_order :: "time \<Rightarrow> ('e \<times> time) list \<Rightarrow> bool" where
  "in_order t [] = True"
| "in_order t ((e, now) # evs) = (t \<le> now \<and> in_order now evs)"

text \<open>With \<open>c\<close> admitted in the period so far and the clock at \<open>t\<close>.\<close>

definition budget :: "time \<Rightarrow> 'k \<Rightarrow> time \<Rightarrow> nat \<Rightarrow> 's \<Rightarrow> bool" where
  "budget a k t c s \<longleftrightarrow> (t < a \<longrightarrow> c = 0) \<and> used s k \<le> limit s \<and> (case start s k of
     None \<Rightarrow> c \<le> 2 * limit s \<and> (t < a + width s \<longrightarrow> c \<le> limit s)
   | Some st \<Rightarrow> st \<le> t \<and> (if st < a then c \<le> used s k
       else if st < a + width s then c \<le> limit s + used s k else c \<le> 2 * limit s))"

lemma budget_step:
  assumes "budget a k t c s" "t \<le> now" "0 < width s" "good t s"
  shows "budget a k now (c + (if admits e now s k \<and> a \<le> now \<and> now < a + width s then 1 else 0))
    (step e now s)"
proof (cases "admits e now s k")
  case True
  then show ?thesis
    using assms admit [OF assms(4,2) True] by (cases "start s k") (auto simp: budget_def const split: if_splits)
next
  case False
  then show ?thesis
    using assms no_admit [OF assms(4,2) False] by (cases "start s k") (auto simp: budget_def const split: if_splits)
qed

lemma budget_total:
  assumes "budget a k t c s" "in_order t evs" "0 < width s" "good t s"
  shows "c + admitted_in a k evs s \<le> 2 * limit s"
  using assms
proof (induction evs arbitrary: t c s)
  case Nil
  then show ?case
    by (cases "start s k") (auto simp: budget_def split: if_splits)
next
  case (Cons ev evs)
  obtain e now where ev: "ev = (e, now)" by fastforce
  from Cons.prems have t: "t \<le> now" "in_order now evs" by (simp_all add: ev)
  from Cons.IH [OF budget_step [OF Cons.prems(1) t(1) Cons.prems(3,4)] t(2)]
    good_step [OF Cons.prems(4) t(1)] Cons.prems(3)
  show ?case by (simp add: ev const add.assoc)
qed

lemma admitted_bounded:
  assumes "start s k = None" "used s k = 0" "in_order t evs" "0 < width s" "good t s"
  shows "admitted_in a k evs s \<le> 2 * limit s"
proof -
  have "budget a k t 0 s" using assms by (simp add: budget_def)
  from budget_total [OF this assms(3-5)] show ?thesis by simp
qed

end

end
