(* ===== verification/Udp_Sessions.thy ===== *)
theory Udp_Sessions
  imports Netip Rate_Window
begin

text \<open>
  The session manager of \<open>internal/udp/session.go\<close>: on the relay it gives each client of a public
  UDP port a session with a random number, on the agent it keeps one local socket per session
  number. The two tables of the code hold pointers to the same sessions; here \<open>byKey\<close> refers to a
  session by its number, which the invariant justifies. The invariant ties the tables and the
  per-address counters together and bounds them by the limits; the creation rate is an instance of
  the fixed-window contract.
\<close>

definition DefaultSessionIdleTimeout :: time where "DefaultSessionIdleTimeout = 60 * second"
definition DefaultMaxSessions :: nat where "DefaultMaxSessions = 256"
definition DefaultMaxSessionsPerIP :: nat where "DefaultMaxSessionsPerIP = 32"
definition DefaultSessionCreateRate :: nat where "DefaultSessionCreateRate = 50"

record SessionLimits =
  MaxSessions :: nat
  MaxSessionsPerIP :: nat
  MaxCreatePerSecond :: nat

record SessionKey =
  k_DeviceID :: string
  k_PublicPort :: u16
  k_ClientAddr :: AddrPort

text \<open>The local socket is known by its descriptor; the fields that identify a client are its key.\<close>

record UDPSession =
  s_ID :: u32
  s_key :: SessionKey
  s_Conn :: "nat option"
  s_LastSeen :: time

definition IsExpired :: "time \<Rightarrow> time \<Rightarrow> UDPSession \<Rightarrow> bool" where
  "IsExpired now timeout s \<longleftrightarrow> now - s_LastSeen s > timeout"

text \<open>\<open>ended\<close> lists the sessions closed so far, for which the end callback ran and the socket was closed.\<close>

record SessionManager =
  byID :: "(u32, UDPSession) fmap"
  byKey :: "(SessionKey, u32) fmap"
  sessionsPerIP :: "(Addr, nat) fmap"
  idleTimeout :: time
  limits :: SessionLimits
  rateWindowStart :: "time option"
  rateWindowCount :: nat
  sm_closed :: bool
  ended :: "UDPSession list"

definition or_default :: "int \<Rightarrow> nat \<Rightarrow> nat" where
  "or_default n d = (if n \<le> 0 then d else nat n)"

definition NewSessionManagerWithLimits :: "time \<Rightarrow> int \<Rightarrow> int \<Rightarrow> int \<Rightarrow> SessionManager" where
  "NewSessionManagerWithLimits idle maxSessions maxPerIP maxRate =
     \<lparr>byID = fmempty, byKey = fmempty, sessionsPerIP = fmempty,
      idleTimeout = (if idle \<le> 0 then DefaultSessionIdleTimeout else idle),
      limits = \<lparr>MaxSessions = or_default maxSessions DefaultMaxSessions,
                MaxSessionsPerIP = or_default maxPerIP DefaultMaxSessionsPerIP,
                MaxCreatePerSecond = or_default maxRate DefaultSessionCreateRate\<rparr>,
      rateWindowStart = None, rateWindowCount = 0, sm_closed = False, ended = []\<rparr>"

definition NewSessionManager :: "time \<Rightarrow> SessionManager" where
  "NewSessionManager idle = NewSessionManagerWithLimits idle 0 0 0"

section \<open>Operations\<close>

definition touch :: "time \<Rightarrow> UDPSession \<Rightarrow> UDPSession" where
  "touch now s = s\<lparr>s_LastSeen := now\<rparr>"

definition touch_id :: "time \<Rightarrow> u32 \<Rightarrow> SessionManager \<Rightarrow> SessionManager" where
  "touch_id now sid m = (case fmlookup (byID m) sid of
     None \<Rightarrow> m | Some s \<Rightarrow> m\<lparr>byID := fmupd sid (touch now s) (byID m)\<rparr>)"

definition GetByID :: "time \<Rightarrow> u32 \<Rightarrow> SessionManager \<Rightarrow> SessionManager \<times> UDPSession option" where
  "GetByID now sid m = (touch_id now sid m, map_option (touch now) (fmlookup (byID m) sid))"

definition GetByKey :: "time \<Rightarrow> SessionKey \<Rightarrow> SessionManager \<Rightarrow> SessionManager \<times> UDPSession option" where
  "GetByKey now key m = (case fmlookup (byKey m) key of
     None \<Rightarrow> (m, None) | Some sid \<Rightarrow> GetByID now sid m)"

definition allowCreateLocked :: "time \<Rightarrow> SessionManager \<Rightarrow> SessionManager \<times> bool" where
  "allowCreateLocked now m =
     (let m = (if rateWindowStart m = None \<or> now - the (rateWindowStart m) \<ge> second
               then m\<lparr>rateWindowStart := Some now, rateWindowCount := 0\<rparr> else m) in
      if rateWindowCount m \<ge> MaxCreatePerSecond (limits m) then (m, False)
      else (m\<lparr>rateWindowCount := rateWindowCount m + 1\<rparr>, True))"

text \<open>
  The loop that draws a session number: each draw of four random bytes may fail, and draws are
  repeated while the number is 0 or taken. The draws are an argument; if all of them are used up
  the loop is still running.
\<close>

datatype draw = Drawn u32 | RandFailed | StillDrawing

fun draw_id :: "bytes option list \<Rightarrow> (u32, UDPSession) fmap \<Rightarrow> draw" where
  "draw_id [] m = StillDrawing"
| "draw_id (None # ds) m = RandFailed"
| "draw_id (Some buf # ds) m =
     (let sid = be32 buf AND 0x7fffffff in
      if sid \<noteq> 0 \<and> fmlookup m sid = None then Drawn sid else draw_id ds m)"

datatype created = Existing UDPSession | Created UDPSession | Refused | Waiting

definition ip_of :: "SessionKey \<Rightarrow> Addr" where
  "ip_of key = Unmap (ap_addr (k_ClientAddr key))"

definition count_ip :: "SessionKey \<Rightarrow> (Addr, nat) fmap \<Rightarrow> (Addr, nat) fmap" where
  "count_ip key m = (if IsValid (ip_of key) then incr (ip_of key) m else m)"

definition uncount_ip :: "SessionKey \<Rightarrow> (Addr, nat) fmap \<Rightarrow> (Addr, nat) fmap" where
  "uncount_ip key m = (if IsValid (ip_of key) then decr (ip_of key) m else m)"

definition GetOrCreateByKey ::
  "time \<Rightarrow> bytes option list \<Rightarrow> SessionKey \<Rightarrow> SessionManager \<Rightarrow> SessionManager \<times> created" where
  "GetOrCreateByKey now draws key m = (case fmlookup (byKey m) key of
     Some sid \<Rightarrow> (touch_id now sid m,
                 case fmlookup (byID m) sid of Some s \<Rightarrow> Existing (touch now s) | None \<Rightarrow> Refused)
   | None \<Rightarrow>
       if sm_closed m \<or> fsize (byID m) \<ge> MaxSessions (limits m) then (m, Refused)
       else if IsValid (ip_of key) \<and> count_of (sessionsPerIP m) (ip_of key) \<ge> MaxSessionsPerIP (limits m)
       then (m, Refused)
       else (case allowCreateLocked now m of
         (m, False) \<Rightarrow> (m, Refused)
       | (m, True) \<Rightarrow>
           (case draw_id draws (byID m) of
              StillDrawing \<Rightarrow> (m, Waiting)
            | RandFailed \<Rightarrow> (m, Refused)
            | Drawn sid \<Rightarrow>
                (let s = \<lparr>s_ID = sid, s_key = key, s_Conn = None, s_LastSeen = now\<rparr>
                 in (m\<lparr>byID := fmupd sid s (byID m), byKey := fmupd key sid (byKey m),
                       sessionsPerIP := count_ip key (sessionsPerIP m)\<rparr>, Created s)))))"

definition no_key :: SessionKey where
  "no_key = \<lparr>k_DeviceID = [], k_PublicPort = 0, k_ClientAddr = no_addr_port\<rparr>"

definition AddSessionWithID ::
  "time \<Rightarrow> u32 \<Rightarrow> nat \<Rightarrow> SessionManager \<Rightarrow> SessionManager \<times> UDPSession option" where
  "AddSessionWithID now sid conn m = (case fmlookup (byID m) sid of
     Some s \<Rightarrow> (touch_id now sid m, Some (touch now s))
   | None \<Rightarrow>
       if sid = 0 \<or> sm_closed m \<or> fsize (byID m) \<ge> MaxSessions (limits m) then (m, None)
       else (case allowCreateLocked now m of
         (m, False) \<Rightarrow> (m, None)
       | (m, True) \<Rightarrow>
           (let s = \<lparr>s_ID = sid, s_key = no_key, s_Conn = Some conn, s_LastSeen = now\<rparr>
            in (m\<lparr>byID := fmupd sid s (byID m)\<rparr>, Some s))))"

definition Remove :: "u32 \<Rightarrow> SessionManager \<Rightarrow> SessionManager" where
  "Remove sid m = (case fmlookup (byID m) sid of
     None \<Rightarrow> m
   | Some s \<Rightarrow> m\<lparr>byID := fmdrop sid (byID m), byKey := fmdrop (s_key s) (byKey m),
                 sessionsPerIP := uncount_ip (s_key s) (sessionsPerIP m), ended := s # ended m\<rparr>)"

text \<open>The sessions that the loop over the map gathers are closed in the order of the iteration.\<close>

definition sm_Close :: "u32 list \<Rightarrow> SessionManager \<Rightarrow> SessionManager" where
  "sm_Close order m = (if sm_closed m then m
     else m\<lparr>sm_closed := True, byID := fmempty, byKey := fmempty, sessionsPerIP := fmempty,
            ended := rev (List.map_filter (fmlookup (byID m)) order) @ ended m\<rparr>)"

definition ActiveCount :: "SessionManager \<Rightarrow> nat" where
  "ActiveCount m = fsize (byID m)"

text \<open>The expired sessions are gathered first, then removed one by one.\<close>

definition expired_ids :: "time \<Rightarrow> u32 list \<Rightarrow> SessionManager \<Rightarrow> u32 list" where
  "expired_ids now order m = filter (\<lambda>sid. case fmlookup (byID m) sid of
     Some s \<Rightarrow> IsExpired now (idleTimeout m) s | None \<Rightarrow> False) order"

definition sweep :: "time \<Rightarrow> u32 list \<Rightarrow> SessionManager \<Rightarrow> SessionManager" where
  "sweep now order m = fold Remove (expired_ids now order m) m"

section \<open>Invariant\<close>

definition from_ip :: "Addr \<Rightarrow> u32 \<Rightarrow> UDPSession \<Rightarrow> nat" where
  "from_ip ip sid s = (if IsValid ip \<and> ip_of (s_key s) = ip then 1 else 0)"

definition public_id :: "u32 \<Rightarrow> bool" where
  "public_id sid \<longleftrightarrow> sid \<noteq> 0 \<and> \<not> bit sid 31"

definition tables_ok :: "(u32, UDPSession) fmap \<Rightarrow> (SessionKey, u32) fmap \<Rightarrow> bool" where
  "tables_ok ids keys \<longleftrightarrow>
     (\<forall>sid s. fmlookup ids sid = Some s \<longrightarrow> s_ID s = sid \<and> sid \<noteq> 0
        \<and> (s_key s \<noteq> no_key \<longrightarrow> fmlookup keys (s_key s) = Some sid))
     \<and> (\<forall>key sid. fmlookup keys key = Some sid \<longrightarrow> public_id sid
        \<and> (\<exists>s. fmlookup ids sid = Some s \<and> s_key s = key))"

definition counts_ok :: "(u32, UDPSession) fmap \<Rightarrow> (Addr, nat) fmap \<Rightarrow> nat \<Rightarrow> bool" where
  "counts_ok ids perIP most \<longleftrightarrow> no_zero perIP
     \<and> (\<forall>ip. count_of perIP ip = fmsum (from_ip ip) ids \<and> count_of perIP ip \<le> most)"

definition sessions_ok :: "SessionManager \<Rightarrow> bool" where
  "sessions_ok m \<longleftrightarrow> tables_ok (byID m) (byKey m)
     \<and> counts_ok (byID m) (sessionsPerIP m) (MaxSessionsPerIP (limits m))
     \<and> fsize (byID m) \<le> MaxSessions (limits m) \<and> (sm_closed m \<longrightarrow> byID m = fmempty)"

lemma ip_of_no_key [simp]: "\<not> IsValid (ip_of no_key)"
  by (simp add: ip_of_def no_key_def no_addr_port_def IsValid_def)

lemma New_sessions_ok [invs]: "sessions_ok (NewSessionManagerWithLimits idle a b c)"
  by (simp add: sessions_ok_def tables_ok_def counts_ok_def NewSessionManagerWithLimits_def)

lemma tables_ok_touch:
  "tables_ok ids keys \<Longrightarrow> fmlookup ids sid = Some s \<Longrightarrow> tables_ok (fmupd sid (touch now s) ids) keys"
  by (fastforce simp: tables_ok_def touch_def)

lemma fmsum_touch:
  assumes "fmlookup ids sid = Some s"
  shows "fmsum (from_ip ip) (fmupd sid (touch now s) ids) = fmsum (from_ip ip) ids"
  using fmsum_drop [OF assms, of "from_ip ip"] by (simp add: from_ip_def touch_def)

lemma counts_ok_touch:
  "fmlookup ids sid = Some s \<Longrightarrow>
     counts_ok (fmupd sid (touch now s) ids) perIP most = counts_ok ids perIP most"
  unfolding counts_ok_def by (simp only: fmsum_touch)

lemma touch_id_ok [invs]:
  assumes "sessions_ok m"
  shows "sessions_ok (touch_id now sid m)"
proof (cases "fmlookup (byID m) sid")
  case None
  then show ?thesis using assms by (simp add: touch_id_def)
next
  case (Some s)
  have "fsize (fmupd sid (touch now s) (byID m)) = fsize (byID m)"
    using fsize_drop [OF Some] by simp
  moreover have "byID m \<noteq> fmempty" using Some by auto
  ultimately show ?thesis
    using assms Some
    by (auto simp: touch_id_def sessions_ok_def tables_ok_touch counts_ok_touch)
qed

lemma allowCreate_simps [simp]:
  "byID (fst (allowCreateLocked now m)) = byID m" "byKey (fst (allowCreateLocked now m)) = byKey m"
  "sessionsPerIP (fst (allowCreateLocked now m)) = sessionsPerIP m"
  "limits (fst (allowCreateLocked now m)) = limits m"
  "sm_closed (fst (allowCreateLocked now m)) = sm_closed m"
  "idleTimeout (fst (allowCreateLocked now m)) = idleTimeout m"
  "ended (fst (allowCreateLocked now m)) = ended m"
  by (simp_all add: allowCreateLocked_def Let_def)

lemma allowCreate_ok [invs]: "sessions_ok m \<Longrightarrow> sessions_ok (fst (allowCreateLocked now m))"
  by (simp add: sessions_ok_def)

lemma draw_id_Drawn: "draw_id ds m = Drawn sid \<Longrightarrow> public_id sid \<and> fmlookup m sid = None"
  by (induction ds m rule: draw_id.induct)
    (auto simp: Let_def public_id_def bit_simps split: if_splits)

lemma counts_ok_add:
  assumes "counts_ok ids perIP most" "fmlookup ids sid = None"
    "IsValid (ip_of (s_key s)) \<longrightarrow> count_of perIP (ip_of (s_key s)) < most"
  shows "counts_ok (fmupd sid s ids) (count_ip (s_key s) perIP) most"
proof -
  have drop: "fmdrop sid ids = ids" using assms(2) by (rule fmdrop_idle)
  have "count_of (count_ip (s_key s) perIP) ip = from_ip ip sid s + count_of perIP ip" for ip
    by (auto simp: count_ip_def from_ip_def)
  moreover have "from_ip ip sid s + count_of perIP ip \<le> most" for ip
  proof -
    have "count_of perIP ip \<le> most" using assms(1) unfolding counts_ok_def by blast
    then show ?thesis using assms(3) by (auto simp: from_ip_def)
  qed
  moreover have "no_zero (count_ip (s_key s) perIP)"
    using assms(1) by (simp add: count_ip_def counts_ok_def)
  ultimately show ?thesis
    using assms(1) by (simp add: counts_ok_def drop)
qed

lemma add_session_ok:
  assumes "sessions_ok m" "fmlookup (byID m) sid = None" "sid \<noteq> 0" "\<not> sm_closed m"
    "fsize (byID m) < MaxSessions (limits m)" "s_ID s = sid"
    "tables_ok (fmupd sid s (byID m)) keys"
    "IsValid (ip_of (s_key s)) \<longrightarrow>
       count_of (sessionsPerIP m) (ip_of (s_key s)) < MaxSessionsPerIP (limits m)"
  shows "sessions_ok (m\<lparr>byID := fmupd sid s (byID m), byKey := keys,
    sessionsPerIP := count_ip (s_key s) (sessionsPerIP m)\<rparr>)"
  using assms fmdrop_idle [OF assms(2)] counts_ok_add [OF _ assms(2) assms(8)]
  by (simp add: sessions_ok_def)

lemma GetOrCreate_cases:
  obtains (existing) sid where "fmlookup (byKey m) key = Some sid"
      "GetOrCreateByKey now draws key m = (touch_id now sid m,
         case fmlookup (byID m) sid of Some s \<Rightarrow> Existing (touch now s) | None \<Rightarrow> Refused)"
  | (same) r where "GetOrCreateByKey now draws key m = (m, r)" "r = Refused"
      "fmlookup (byKey m) key = None"
  | (counted) r where "GetOrCreateByKey now draws key m = (fst (allowCreateLocked now m), r)"
      "r = Refused \<or> r = Waiting" "fmlookup (byKey m) key = None"
  | (created) sid s where "GetOrCreateByKey now draws key m =
        ((fst (allowCreateLocked now m))\<lparr>byID := fmupd sid s (byID m),
           byKey := fmupd key sid (byKey m), sessionsPerIP := count_ip key (sessionsPerIP m)\<rparr>, Created s)"
      "s = \<lparr>s_ID = sid, s_key = key, s_Conn = None, s_LastSeen = now\<rparr>"
      "snd (allowCreateLocked now m)" "draw_id draws (byID m) = Drawn sid"
      "fmlookup (byKey m) key = None" "\<not> sm_closed m" "fsize (byID m) < MaxSessions (limits m)"
      "IsValid (ip_of key) \<longrightarrow> count_of (sessionsPerIP m) (ip_of key) < MaxSessionsPerIP (limits m)"
proof (cases "fmlookup (byKey m) key")
  case (Some sid)
  then show ?thesis by (intro existing) (simp_all add: GetOrCreateByKey_def)
next
  case None
  obtain m' ok where al: "allowCreateLocked now m = (m', ok)" by fastforce
  then have m': "fst (allowCreateLocked now m) = m'" by simp
  consider (a) "sm_closed m \<or> fsize (byID m) \<ge> MaxSessions (limits m)"
    | (b) "\<not> (sm_closed m \<or> fsize (byID m) \<ge> MaxSessions (limits m))"
      "IsValid (ip_of key) \<and> count_of (sessionsPerIP m) (ip_of key) \<ge> MaxSessionsPerIP (limits m)"
    | (c) "\<not> (sm_closed m \<or> fsize (byID m) \<ge> MaxSessions (limits m))"
      "\<not> (IsValid (ip_of key) \<and> count_of (sessionsPerIP m) (ip_of key) \<ge> MaxSessionsPerIP (limits m))"
    by blast
  then show ?thesis
  proof cases
    case a
    then show ?thesis using None by (intro same) (simp_all add: GetOrCreateByKey_def)
  next
    case b
    then show ?thesis using None by (intro same) (simp_all add: GetOrCreateByKey_def)
  next
    case c
    have byid: "byID m' = byID m" "byKey m' = byKey m" "sessionsPerIP m' = sessionsPerIP m"
      by (simp_all flip: m')
    have eq: "GetOrCreateByKey now draws key m = (if ok then (case draw_id draws (byID m) of
        StillDrawing \<Rightarrow> (m', Waiting) | RandFailed \<Rightarrow> (m', Refused)
      | Drawn sid \<Rightarrow> (let s = \<lparr>s_ID = sid, s_key = key, s_Conn = None, s_LastSeen = now\<rparr>
          in (m'\<lparr>byID := fmupd sid s (byID m), byKey := fmupd key sid (byKey m),
               sessionsPerIP := count_ip key (sessionsPerIP m)\<rparr>, Created s))) else (m', Refused))"
      using None c al byid by (auto simp: GetOrCreateByKey_def split: draw.splits)
    show ?thesis
    proof (cases ok)
      case False
      then show ?thesis using None eq by (intro counted) (auto simp: m')
    next
      case True
      show ?thesis
      proof (cases "draw_id draws (byID m)")
        case (Drawn sid)
        then show ?thesis
          using None c True al eq by (intro created) (auto simp: m' not_le Let_def)
      next
        case RandFailed
        then show ?thesis using None eq by (intro counted) (auto simp: m')
      next
        case StillDrawing
        then show ?thesis using None eq True by (intro counted [of Waiting]) (auto simp: m')
      qed
    qed
  qed
qed

lemma tables_ok_create:
  assumes "tables_ok ids keys" "fmlookup ids sid = None" "fmlookup keys key = None" "public_id sid"
    "s_ID s = sid" "s_key s = key"
  shows "tables_ok (fmupd sid s ids) (fmupd key sid keys)"
  unfolding tables_ok_def
proof (intro conjI allI impI)
  fix i t assume i: "fmlookup (fmupd sid s ids) i = Some t"
  show "s_ID t = i" "i \<noteq> 0"
    using i assms by (auto simp: tables_ok_def public_id_def split: if_splits)
  show "fmlookup (fmupd key sid keys) (s_key t) = Some i" if "s_key t \<noteq> no_key"
    using i assms that by (fastforce simp: tables_ok_def split: if_splits)
next
  fix k i assume k: "fmlookup (fmupd key sid keys) k = Some i"
  show "public_id i" using k assms by (auto simp: tables_ok_def split: if_splits)
  show "\<exists>t. fmlookup (fmupd sid s ids) i = Some t \<and> s_key t = k"
    using k assms by (fastforce simp: tables_ok_def split: if_splits)
qed

lemma GetOrCreate_ok [invs]:
  assumes "sessions_ok m"
  shows "sessions_ok (fst (GetOrCreateByKey now draws key m))"
proof (cases rule: GetOrCreate_cases [of m key now draws])
  case (created sid s)
  note d = draw_id_Drawn [OF created(4)]
  let ?m = "fst (allowCreateLocked now m)"
  have "sessions_ok ?m" using assms by (rule allowCreate_ok)
  moreover have "tables_ok (fmupd sid s (byID m)) (fmupd key sid (byKey m))"
    using assms d created(2,5) by (intro tables_ok_create) (simp_all add: sessions_ok_def)
  ultimately show ?thesis
    using created d add_session_ok [of ?m sid s "fmupd key sid (byKey m)"]
    by (simp add: public_id_def)
qed (use assms touch_id_ok allowCreate_ok in simp_all)

lemma tables_ok_agent:
  assumes "tables_ok ids keys" "fmlookup ids sid = None" "sid \<noteq> 0" "s_ID s = sid" "s_key s = no_key"
  shows "tables_ok (fmupd sid s ids) keys"
proof -
  have "\<exists>t. fmlookup (fmupd sid s ids) i = Some t \<and> s_key t = k" if "fmlookup keys k = Some i" for k i
    using assms(1,2) that unfolding tables_ok_def by (metis fmupd_lookup option.distinct(1))
  then show ?thesis
    using assms by (auto simp: tables_ok_def)
qed

lemma AddSession_ok [invs]:
  assumes "sessions_ok m"
  shows "sessions_ok (fst (AddSessionWithID now sid conn m))"
proof (cases "fmlookup (byID m) sid")
  case (Some s)
  then show ?thesis using touch_id_ok [OF assms] by (simp add: AddSessionWithID_def)
next
  case None
  obtain m' ok where al: "allowCreateLocked now m = (m', ok)" by fastforce
  then have m': "m' = fst (allowCreateLocked now m)" by simp
  let ?s = "\<lparr>s_ID = sid, s_key = no_key, s_Conn = Some conn, s_LastSeen = now\<rparr>"
  show ?thesis
  proof (cases "sid = 0 \<or> sm_closed m \<or> fsize (byID m) \<ge> MaxSessions (limits m)")
    case True
    then show ?thesis using assms None by (simp add: AddSessionWithID_def)
  next
    case False
    have ok': "sessions_ok m'" using allowCreate_ok [OF assms] by (simp add: m')
    have "tables_ok (fmupd sid ?s (byID m)) (byKey m)"
      using assms None False by (intro tables_ok_agent) (simp_all add: sessions_ok_def)
    then have "sessions_ok (m'\<lparr>byID := fmupd sid ?s (byID m'), byKey := byKey m',
        sessionsPerIP := count_ip (s_key ?s) (sessionsPerIP m')\<rparr>)"
      using None False ok' by (intro add_session_ok) (simp_all add: m')
    then have "sessions_ok (m'\<lparr>byID := fmupd sid ?s (byID m')\<rparr>)"
      by (simp add: count_ip_def)
    then show ?thesis
      using None False ok' al by (cases ok) (auto simp: AddSessionWithID_def Let_def)
  qed
qed

lemma counts_ok_remove:
  assumes "counts_ok ids perIP most" "fmlookup ids sid = Some s"
  shows "counts_ok (fmdrop sid ids) (uncount_ip (s_key s) perIP) most"
proof -
  note total = fmsum_drop [OF assms(2)]
  have "count_of (uncount_ip (s_key s) perIP) ip = fmsum (from_ip ip) (fmdrop sid ids)" for ip
    using assms(1) total [of "from_ip ip"] by (auto simp: counts_ok_def uncount_ip_def from_ip_def)
  moreover have "fmsum (from_ip ip) (fmdrop sid ids) \<le> most" for ip
    using assms(1) total [of "from_ip ip"] unfolding counts_ok_def by (metis add_leD2)
  ultimately show ?thesis
    using assms(1) by (simp add: counts_ok_def uncount_ip_def)
qed

lemma tables_ok_remove:
  assumes "tables_ok ids keys" "fmlookup ids sid = Some s"
  shows "tables_ok (fmdrop sid ids) (fmdrop (s_key s) keys)"
  unfolding tables_ok_def
proof (intro conjI allI impI)
  fix i t assume i: "fmlookup (fmdrop sid ids) i = Some t"
  show "s_ID t = i" "i \<noteq> 0"
    using i assms(1) by (auto simp: tables_ok_def split: if_splits)
  show "fmlookup (fmdrop (s_key s) keys) (s_key t) = Some i" if "s_key t \<noteq> no_key"
  proof -
    have k: "fmlookup keys (s_key t) = Some i" using i assms(1) that
      by (auto simp: tables_ok_def split: if_splits)
    have "s_key t \<noteq> s_key s"
    proof
      assume eq: "s_key t = s_key s"
      then have "fmlookup keys (s_key s) = Some sid"
        using assms that by (auto simp: tables_ok_def)
      then show False using k eq i by (simp split: if_splits)
    qed
    then show ?thesis using k by simp
  qed
next
  fix k i assume k: "fmlookup (fmdrop (s_key s) keys) k = Some i"
  then show "public_id i" using assms(1) by (auto simp: tables_ok_def split: if_splits)
  obtain t where t: "fmlookup ids i = Some t" "s_key t = k"
    using k assms(1) unfolding tables_ok_def by (metis fmlookup_drop option.distinct(1))
  have "i \<noteq> sid"
    using t assms(2) k by (auto split: if_splits)
  then show "\<exists>t. fmlookup (fmdrop sid ids) i = Some t \<and> s_key t = k"
    using t by auto
qed

lemma Remove_ok [invs]: "sessions_ok m \<Longrightarrow> sessions_ok (Remove sid m)"
proof (cases "fmlookup (byID m) sid")
  case (Some s)
  assume ok: "sessions_ok m"
  have "fsize (fmdrop sid (byID m)) \<le> MaxSessions (limits m)"
    using ok fsize_drop_le [of sid "byID m"] by (simp add: sessions_ok_def)
  then show ?thesis
    using ok Some counts_ok_remove [OF _ Some] tables_ok_remove [OF _ Some]
    by (auto simp: Remove_def sessions_ok_def)
qed (simp add: Remove_def)

lemma sm_Close_ok [invs]: "sessions_ok m \<Longrightarrow> sessions_ok (sm_Close order m)"
  by (cases "sm_closed m")
    (simp add: sm_Close_def, simp add: sm_Close_def sessions_ok_def tables_ok_def counts_ok_def)

lemma sweep_ok [invs]: "sessions_ok m \<Longrightarrow> sessions_ok (sweep now order m)"
proof -
  have "sessions_ok (fold Remove ids m)" if "sessions_ok m" for ids m
    using that by (induction ids arbitrary: m) (simp_all add: Remove_ok)
  then show "sessions_ok m \<Longrightarrow> sessions_ok (sweep now order m)" by (simp add: sweep_def)
qed

lemma GetByID_ok [invs]: "sessions_ok m \<Longrightarrow> sessions_ok (fst (GetByID now sid m))"
  by (simp add: GetByID_def touch_id_ok)

lemma GetByKey_ok [invs]: "sessions_ok m \<Longrightarrow> sessions_ok (fst (GetByKey now key m))"
  by (simp add: GetByKey_def GetByID_ok split: option.splits)

section \<open>Everything that happens to a manager\<close>

datatype session_event =
    DoGetByID u32
  | DoGetByKey SessionKey
  | DoGetOrCreate "bytes option list" SessionKey
  | DoAdd u32 nat
  | DoRemove u32
  | DoSweep "u32 list"
  | DoClose "u32 list"

fun session_step :: "session_event \<Rightarrow> time \<Rightarrow> SessionManager \<Rightarrow> SessionManager" where
  "session_step (DoGetByID sid) now m = fst (GetByID now sid m)"
| "session_step (DoGetByKey key) now m = fst (GetByKey now key m)"
| "session_step (DoGetOrCreate draws key) now m = fst (GetOrCreateByKey now draws key m)"
| "session_step (DoAdd sid conn) now m = fst (AddSessionWithID now sid conn m)"
| "session_step (DoRemove sid) now m = Remove sid m"
| "session_step (DoSweep order) now m = sweep now order m"
| "session_step (DoClose order) now m = sm_Close order m"

fun session_run :: "(session_event \<times> time) list \<Rightarrow> SessionManager \<Rightarrow> SessionManager" where
  "session_run [] m = m"
| "session_run ((ev, now) # evs) m = session_run evs (session_step ev now m)"

lemma session_step_ok [invs]: "sessions_ok m \<Longrightarrow> sessions_ok (session_step ev now m)"
  by (cases ev) (simp_all add: invs)

lemma session_run_ok [invs]: "sessions_ok m \<Longrightarrow> sessions_ok (session_run evs m)"
  by (induction evs arbitrary: m) (auto simp: session_step_ok)

section \<open>The creation rate\<close>

text \<open>An event that asks the limiter for a slot, one that gets it, and one that makes a session.\<close>

fun asks_slot :: "session_event \<Rightarrow> SessionManager \<Rightarrow> bool" where
  "asks_slot (DoGetOrCreate draws key) m \<longleftrightarrow> fmlookup (byKey m) key = None
     \<and> \<not> sm_closed m \<and> fsize (byID m) < MaxSessions (limits m)
     \<and> \<not> (IsValid (ip_of key) \<and> count_of (sessionsPerIP m) (ip_of key) \<ge> MaxSessionsPerIP (limits m))"
| "asks_slot (DoAdd sid conn) m \<longleftrightarrow> fmlookup (byID m) sid = None \<and> sid \<noteq> 0
     \<and> \<not> sm_closed m \<and> fsize (byID m) < MaxSessions (limits m)"
| "asks_slot _ m \<longleftrightarrow> False"

definition takes_slot :: "session_event \<Rightarrow> time \<Rightarrow> SessionManager \<Rightarrow> unit \<Rightarrow> bool" where
  "takes_slot ev now m k \<longleftrightarrow> asks_slot ev m \<and> snd (allowCreateLocked now m)"

fun makes_session :: "session_event \<Rightarrow> time \<Rightarrow> SessionManager \<Rightarrow> bool" where
  "makes_session (DoGetOrCreate draws key) now m =
     (case snd (GetOrCreateByKey now draws key m) of Created s \<Rightarrow> True | _ \<Rightarrow> False)"
| "makes_session (DoAdd sid conn) now m =
     (fmlookup (byID m) sid = None \<and> snd (AddSessionWithID now sid conn m) \<noteq> None)"
| "makes_session _ now m = False"

definition rate_state :: "SessionManager \<Rightarrow> time option \<times> nat \<times> SessionLimits" where
  "rate_state m = (rateWindowStart m, rateWindowCount m, limits m)"

lemma rate_state_touch [simp]: "rate_state (touch_id now sid m) = rate_state m"
  by (simp add: rate_state_def touch_id_def split: option.splits)

lemma rate_state_Remove [simp]: "rate_state (Remove sid m) = rate_state m"
  by (simp add: rate_state_def Remove_def split: option.splits)

lemma rate_state_fold [simp]: "rate_state (fold Remove ids m) = rate_state m"
  by (induction ids arbitrary: m) simp_all

lemma rate_state_step:
  "rate_state (session_step ev now m) =
     rate_state (if asks_slot ev m then fst (allowCreateLocked now m) else m)"
proof (cases ev)
  case (DoGetOrCreate draws key)
  then show ?thesis
    by (auto simp: GetOrCreateByKey_def not_le Let_def split: option.splits prod.splits bool.splits draw.splits)
      (simp_all add: rate_state_def)
next
  case (DoAdd sid conn)
  then show ?thesis
    by (auto simp: AddSessionWithID_def not_le Let_def split: option.splits prod.splits bool.splits)
      (simp_all add: rate_state_def)
next
  case (DoGetByKey key)
  then show ?thesis by (simp add: GetByKey_def GetByID_def split: option.splits)
next
  case (DoClose order)
  then show ?thesis by (simp add: sm_Close_def rate_state_def)
qed (simp_all add: GetByID_def sweep_def)

lemma makes_takes: "makes_session ev now m \<Longrightarrow> takes_slot ev now m ()"
proof (induction ev now m rule: makes_session.induct)
  case (1 draws key now m)
  then show ?case
    by (cases rule: GetOrCreate_cases [of m key now draws])
      (auto simp: takes_slot_def not_le split: option.splits)
next
  case (2 sid conn now m)
  then show ?case
    by (auto simp: takes_slot_def AddSessionWithID_def not_le split: if_splits prod.splits bool.splits)
qed auto

lemma allowCreate_rate:
  "rate_state (fst (allowCreateLocked now m)) =
     (let over = window_over second now (rateWindowStart m);
          st = if over then Some now else rateWindowStart m;
          n = if over then 0 else rateWindowCount m
      in (st, if n < MaxCreatePerSecond (limits m) then n + 1 else n, limits m))"
  "snd (allowCreateLocked now m) \<longleftrightarrow>
     (if window_over second now (rateWindowStart m) then 0 else rateWindowCount m)
       < MaxCreatePerSecond (limits m)"
  by (auto simp: allowCreateLocked_def Let_def rate_state_def window_over_def not_le
      split: option.splits)

interpretation session_rate: rate_window session_step takes_slot "\<lambda>m _. rateWindowStart m"
  "\<lambda>m _. rateWindowCount m" "\<lambda>_. second" "\<lambda>m. MaxCreatePerSecond (limits m)" "\<lambda>_ _. True"
proof unfold_locales
  fix ev :: session_event and now :: time and m :: SessionManager and k :: unit
  note step = rate_state_step [of ev now m]
  show "MaxCreatePerSecond (limits (session_step ev now m)) = MaxCreatePerSecond (limits m)"
    using step allowCreate_rate(1) [of now m]
    by (auto simp: rate_state_def Let_def split: if_splits)
  show "(window_over second now (rateWindowStart m) \<and> rateWindowStart (session_step ev now m) = Some now
         \<and> rateWindowCount (session_step ev now m) = 1
       \<or> \<not> window_over second now (rateWindowStart m)
         \<and> rateWindowStart (session_step ev now m) = rateWindowStart m
         \<and> rateWindowCount (session_step ev now m) = Suc (rateWindowCount m))
      \<and> rateWindowCount (session_step ev now m) \<le> MaxCreatePerSecond (limits m)"
    if "takes_slot ev now m k"
    using that step allowCreate_rate [of now m]
    by (auto simp: takes_slot_def rate_state_def Let_def split: if_splits)
  show "rateWindowStart (session_step ev now m) = rateWindowStart m
         \<and> rateWindowCount (session_step ev now m) = rateWindowCount m
      \<or> window_over second now (rateWindowStart m)
         \<and> (rateWindowStart (session_step ev now m) = None
            \<or> rateWindowStart (session_step ev now m) = Some now)
         \<and> rateWindowCount (session_step ev now m) = 0"
    if "\<not> takes_slot ev now m k"
    using that step allowCreate_rate [of now m]
    by (auto simp: takes_slot_def rate_state_def Let_def split: if_splits)
qed simp

text \<open>How many sessions come into being in the second that starts at \<open>a\<close>.\<close>

fun created_in :: "time \<Rightarrow> (session_event \<times> time) list \<Rightarrow> SessionManager \<Rightarrow> nat" where
  "created_in a [] m = 0"
| "created_in a ((ev, now) # evs) m =
     (if makes_session ev now m \<and> a \<le> now \<and> now < a + second then 1 else 0)
       + created_in a evs (session_step ev now m)"

lemma created_in_admitted: "created_in a evs m \<le> session_rate.admitted_in a () evs m"
proof (induction evs arbitrary: m)
  case Nil
  then show ?case by simp
next
  case (Cons e evs)
  obtain ev now where e: "e = (ev, now)" by fastforce
  show ?case
    using Cons.IH [of "session_step ev now m"] makes_takes [of ev now m] by (auto simp: e)
qed

section \<open>Session numbers\<close>

lemma public_of_nat:
  assumes "0 < n" "n < 2 ^ 31"
  shows "public_id (of_nat n)" "(of_nat n :: u32) AND 0x7fffffff = of_nat n"
proof -
  have u: "unat (of_nat n :: u32) = n" using assms(2) by (simp add: unat_of_nat)
  have "\<not> bit n 31" using assms(2) by (simp add: bit_iff_odd)
  then have "\<not> bit (of_nat n :: u32) 31" by (simp add: bit_of_nat_iff)
  moreover have "(of_nat n :: u32) \<noteq> 0" using assms(1) u by (metis less_irrefl unat_0)
  ultimately show "public_id (of_nat n)" by (simp add: public_id_def)
  have "take_bit 31 n = n" using assms(2) by (simp add: take_bit_nat_eq_self)
  then have "take_bit 31 (of_nat n :: u32) = of_nat n"
    by (metis of_nat_take_bit)
  then show "(of_nat n :: u32) AND 0x7fffffff = of_nat n"
    by (simp add: take_bit_eq_mask mask_eq_exp_minus_1)
qed

lemma fresh_public_id:
  assumes "fsize m < 2 ^ 31 - 1"
  obtains n where "0 < n" "n < 2 ^ 31" "fmlookup m (of_nat n :: u32) = None"
proof -
  have inj: "inj_on (of_nat :: nat \<Rightarrow> u32) {1..<2 ^ 31}"
    by (rule inj_on_inverseI [where g = unat]) (simp add: unat_of_nat)
  have "\<not> (of_nat :: nat \<Rightarrow> u32) ` {1..<2 ^ 31} \<subseteq> fset (fmdom m)"
  proof
    assume sub: "(of_nat :: nat \<Rightarrow> u32) ` {1..<2 ^ 31} \<subseteq> fset (fmdom m)"
    have "card ((of_nat :: nat \<Rightarrow> u32) ` {1..<2 ^ 31}) \<le> card (fset (fmdom m))"
      by (rule card_mono [OF _ sub]) simp
    then have "2 ^ 31 - 1 \<le> card (fset (fmdom m))"
      using card_image [OF inj] by simp
    then show False using assms by (simp add: fsize_def fcard.rep_eq)
  qed
  then obtain n where n: "n \<in> {1..<2 ^ 31}" "(of_nat n :: u32) \<notin> fset (fmdom m)" by blast
  then show ?thesis
    by (intro that [of n]) (auto simp: fmdom_notD)
qed

lemma draw_id_append: "draw_id ds m \<noteq> StillDrawing \<Longrightarrow> draw_id (ds @ es) m = draw_id ds m"
  by (induction ds m rule: draw_id.induct) (auto simp: Let_def)

lemma draw_id_continue: "draw_id ds m = StillDrawing \<Longrightarrow> draw_id (ds @ es) m = draw_id es m"
  by (induction ds m rule: draw_id.induct) (auto simp: Let_def split: if_splits)

section \<open>A client keeps its session\<close>

definition keeps :: "session_event \<Rightarrow> bool" where
  "keeps ev \<longleftrightarrow> (case ev of DoRemove _ \<Rightarrow> False | DoSweep _ \<Rightarrow> False | DoClose _ \<Rightarrow> False | _ \<Rightarrow> True)"

definition bound_to :: "SessionKey \<Rightarrow> u32 \<Rightarrow> SessionManager \<Rightarrow> bool" where
  "bound_to key sid m \<longleftrightarrow> fmlookup (byKey m) key = Some sid
     \<and> (\<exists>s. fmlookup (byID m) sid = Some s \<and> s_key s = key)"

lemma bound_to_touch [simp]: "bound_to key sid m \<Longrightarrow> bound_to key sid (touch_id now i m)"
  by (auto simp: bound_to_def touch_id_def touch_def split: option.splits)

lemma bound_to_step:
  assumes "bound_to key sid m" "keeps ev"
  shows "bound_to key sid (session_step ev now m)"
proof (cases ev)
  case (DoGetOrCreate draws key')
  show ?thesis
  proof (cases rule: GetOrCreate_cases [of m key' now draws])
    case (created sid' s)
    then have "key' \<noteq> key" "sid' \<noteq> sid"
      using assms(1) draw_id_Drawn [OF created(4)] by (auto simp: bound_to_def)
    then show ?thesis using assms(1) created DoGetOrCreate by (auto simp: bound_to_def)
  qed (use assms(1) DoGetOrCreate in \<open>auto simp: bound_to_def [of _ _ "fst _"]\<close>,
      simp_all add: bound_to_def)
next
  case (DoAdd sid' conn)
  then show ?thesis
    using assms(1)
    by (auto simp: AddSessionWithID_def bound_to_def Let_def touch_id_def touch_def
        split: option.splits prod.splits bool.splits)
      (metis allowCreate_simps(1,2) fst_conv option.distinct(1))+
next
  case (DoGetByKey key')
  then show ?thesis using assms(1) by (simp add: GetByKey_def GetByID_def split: option.splits)
qed (use assms in \<open>simp_all add: keeps_def GetByID_def\<close>)

lemma bound_to_run:
  "bound_to key sid m \<Longrightarrow> \<forall>(ev, now)\<in>set evs. keeps ev \<Longrightarrow> bound_to key sid (session_run evs m)"
proof (induction evs arbitrary: m)
  case (Cons e evs)
  obtain ev now where e: "e = (ev, now)" by fastforce
  then have "bound_to key sid (session_step ev now m)"
    using Cons.prems by (intro bound_to_step) simp_all
  then show ?case using Cons.IH Cons.prems(2) by (simp add: e)
qed simp

lemma fmsum_from_ip:
  assumes "IsValid ip"
  shows "fmsum (from_ip ip) ids = card {sid. \<exists>s. fmlookup ids sid = Some s \<and> ip_of (s_key s) = ip}"
proof -
  have "fmsum (from_ip ip) ids
      = (\<Sum>sid\<in>fset (fmdom ids). if ip_of (s_key (the (fmlookup ids sid))) = ip then 1 else 0)"
    using assms by (simp add: fmsum_def from_ip_def)
  also have "\<dots> = card {sid \<in> fset (fmdom ids). ip_of (s_key (the (fmlookup ids sid))) = ip}"
    by (simp add: sum.If_cases Int_def)
  also have "{sid \<in> fset (fmdom ids). ip_of (s_key (the (fmlookup ids sid))) = ip}
      = {sid. \<exists>s. fmlookup ids sid = Some s \<and> ip_of (s_key s) = ip}"
    by (auto simp: fmlookup_dom_iff)
  finally show ?thesis .
qed

lemma limits_run [simp]: "limits (session_run evs m) = limits m"
proof (induction evs arbitrary: m)
  case (Cons e evs)
  obtain ev now where e: "e = (ev, now)" by fastforce
  have "limits (session_step ev now m) = limits m"
    using rate_state_step [of ev now m] by (auto simp: rate_state_def split: if_splits)
  then show ?case using Cons.IH by (simp add: e)
qed simp

section \<open>Properties\<close>

text \<open>
  The UDP sessions of a relay stay within their limits and its tables agree. After any sequence
  of operations there are at most \<open>MaxSessions\<close> sessions in total and \<open>MaxSessionsPerIP\<close> from one
  address, where an IPv4 client counts as the same whether it shows up as IPv4 or mapped into IPv6;
  the per-address counters are the true numbers, so that a removal frees exactly its own slot; every
  key leads to the session made for it, under a number that is not 0 and has the high bit clear.
\<close>

theorem udp_sessions_bounded:
  fixes idle :: time and maxS maxIP maxRate :: int
  assumes "m0 = NewSessionManagerWithLimits idle maxS maxIP maxRate" "m = session_run evs m0"
  shows "ActiveCount m \<le> MaxSessions (limits m0)
    \<and> (\<forall>ip. IsValid ip \<longrightarrow> count_of (sessionsPerIP m) ip
          = card {sid. \<exists>s. fmlookup (byID m) sid = Some s \<and> ip_of (s_key s) = ip}
        \<and> count_of (sessionsPerIP m) ip \<le> MaxSessionsPerIP (limits m0))
    \<and> (\<forall>key sid. fmlookup (byKey m) key = Some sid \<longrightarrow> sid \<noteq> 0 \<and> \<not> bit sid 31
        \<and> (\<exists>s. fmlookup (byID m) sid = Some s \<and> s_key s = key \<and> s_ID s = sid))
    \<and> (sm_closed m \<longrightarrow> ActiveCount m = 0)"
proof (intro conjI allI impI)
  have ok: "sessions_ok m" using assms by (simp add: session_run_ok New_sessions_ok)
  have lim: "limits m = limits m0" by (simp add: assms(2))
  show "ActiveCount m \<le> MaxSessions (limits m0)"
    using ok by (simp add: ActiveCount_def sessions_ok_def lim)
  show "count_of (sessionsPerIP m) ip = card {sid. \<exists>s. fmlookup (byID m) sid = Some s \<and> ip_of (s_key s) = ip}"
    "count_of (sessionsPerIP m) ip \<le> MaxSessionsPerIP (limits m0)" if "IsValid ip" for ip
    using ok fmsum_from_ip [OF that] unfolding sessions_ok_def counts_ok_def lim by metis+
  show "sid \<noteq> 0" "\<not> bit sid 31" "\<exists>s. fmlookup (byID m) sid = Some s \<and> s_key s = key \<and> s_ID s = sid"
    if "fmlookup (byKey m) key = Some sid" for key sid
    using ok that unfolding sessions_ok_def tables_ok_def public_id_def by metis+
  show "ActiveCount m = 0" if "sm_closed m"
    using ok that by (simp add: sessions_ok_def ActiveCount_def)
qed

definition sample_client :: SessionKey where
  "sample_client = \<lparr>k_DeviceID = ''pc'', k_PublicPort = 50000,
     k_ClientAddr = \<lparr>ap_addr = V6 0xffff01020304 [], ap_port = 4000\<rparr>\<rparr>"

definition sample_sessions :: "(session_event \<times> time) list" where
  "sample_sessions = [(DoGetOrCreate [Some [0, 0, 0, 0], Some [0x80, 0, 0, 5]] sample_client, 100)]"

lemma udp_sessions_bounded_witness:
  "count_of (sessionsPerIP (session_run sample_sessions (NewSessionManagerWithLimits 0 0 0 0))) (V4 0x01020304)
     \<le> MaxSessionsPerIP (limits (NewSessionManagerWithLimits 0 0 0 0))"
proof -
  have "IsValid (V4 0x01020304)" by (simp add: IsValid_def)
  then show ?thesis
    using udp_sessions_bounded [OF refl refl, where evs = sample_sessions
        and idle = 0 and maxS = 0 and maxIP = 0 and maxRate = 0] by blast
qed

text \<open>
  The rate of new UDP sessions is bounded. Whatever arrives, in the order of the clock, at most
  twice the configured number of sessions per second comes into being within any one second,
  wherever that second starts.
\<close>

theorem udp_session_rate:
  assumes "session_rate.in_order t evs"
  shows "created_in a evs (NewSessionManagerWithLimits idle maxS maxIP maxRate)
    \<le> 2 * MaxCreatePerSecond (limits (NewSessionManagerWithLimits idle maxS maxIP maxRate))"
proof -
  have "session_rate.admitted_in a () evs (NewSessionManagerWithLimits idle maxS maxIP maxRate)
      \<le> 2 * MaxCreatePerSecond (limits (NewSessionManagerWithLimits idle maxS maxIP maxRate))"
    using assms by (intro session_rate.admitted_bounded) (simp_all add: NewSessionManagerWithLimits_def)
  then show ?thesis using created_in_admitted le_trans by blast
qed

lemma udp_session_rate_witness:
  "created_in 0 sample_sessions (NewSessionManagerWithLimits 0 0 0 1)
    \<le> 2 * MaxCreatePerSecond (limits (NewSessionManagerWithLimits 0 0 0 1))"
  by (rule udp_session_rate [where t = 0]) (simp add: sample_sessions_def)

text \<open>
  A client keeps its session. Once a session was made for a client's key, then, whatever other
  clients do and however often sessions are looked up or added, as long as none is removed, swept
  or closed, the client is given the same session number again, and a reply for this number finds
  this client.
\<close>

theorem udp_session_stable:
  assumes "GetOrCreateByKey now draws key m = (m', Created s)"
    "\<forall>(ev, now)\<in>set evs. keeps ev"
  shows "\<exists>s'. snd (GetOrCreateByKey now' draws' key (session_run evs m')) = Existing s'
      \<and> snd (GetByID now' (s_ID s) (session_run evs m')) = Some s' \<and> s_key s' = key
      \<and> s_LastSeen s' = now'"
proof -
  have "bound_to key (s_ID s) m'"
    using assms(1)
    by (cases rule: GetOrCreate_cases [of m key now draws])
      (auto simp: bound_to_def split: option.splits)
  from bound_to_run [OF this assms(2)] obtain s'
    where "fmlookup (byKey (session_run evs m')) key = Some (s_ID s)"
      "fmlookup (byID (session_run evs m')) (s_ID s) = Some s'" "s_key s' = key"
    by (auto simp: bound_to_def)
  then show ?thesis
    by (auto simp: GetOrCreateByKey_def GetByID_def touch_def)
qed

lemma sample_created:
  "GetOrCreateByKey 100 [Some [0, 0, 0, 0], Some [0x80, 0, 0, 5]] sample_client (NewSessionManager 0) =
     (fst (GetOrCreateByKey 100 [Some [0, 0, 0, 0], Some [0x80, 0, 0, 5]] sample_client (NewSessionManager 0)),
      Created \<lparr>s_ID = 5, s_key = sample_client, s_Conn = None, s_LastSeen = 100\<rparr>)"
  by (simp add: GetOrCreateByKey_def NewSessionManager_def NewSessionManagerWithLimits_def
      allowCreateLocked_def or_default_def DefaultMaxSessions_def DefaultMaxSessionsPerIP_def
      DefaultSessionCreateRate_def be32_def Let_def)

lemma udp_session_stable_witness:
  "\<exists>s'. snd (GetOrCreateByKey 300 [] sample_client (session_run [(DoAdd 9 1, 200)]
     (fst (GetOrCreateByKey 100 [Some [0, 0, 0, 0], Some [0x80, 0, 0, 5]] sample_client (NewSessionManager 0)))))
       = Existing s'"
  using udp_session_stable [OF sample_created, of "[(DoAdd 9 1, 200)]" 300 "[]"]
  by (auto simp: keeps_def)

text \<open>
  The draws of an endless source of randomness. Once the loop has ended, more draws change nothing.
\<close>

lemma draw_id_ends:
  assumes "fsize m < 2 ^ 31 - 1" "\<forall>buf. length buf = 4 \<longrightarrow> (\<exists>i. draws i = Some buf)"
  obtains k d where "d \<noteq> StillDrawing" "\<And>n. k \<le> n \<Longrightarrow> draw_id (map draws [0..<n]) m = d"
proof -
  obtain n where n: "0 < n" "n < 2 ^ 31" "fmlookup m (of_nat n :: u32) = None"
    using fresh_public_id [OF assms(1)] .
  note p = public_of_nat [OF n(1,2)]
  obtain i where i: "draws i = Some (put_be32 (of_nat n))"
    using assms(2) length_put_be32 by blast
  have "draw_id [draws i] m \<noteq> StillDrawing" using p n(3) by (simp add: i public_id_def)
  then have "draw_id (map draws [0..<i] @ [draws i]) m \<noteq> StillDrawing"
    by (metis draw_id_append draw_id_continue)
  then have ended: "draw_id (map draws [0..<Suc i]) m \<noteq> StillDrawing" by simp
  have "draw_id (map draws [0..<n']) m = draw_id (map draws [0..<Suc i]) m" if "Suc i \<le> n'" for n'
  proof -
    have "map draws [0..<n'] = map draws [0..<Suc i] @ map draws [Suc i..<n']"
      using that by (metis le_Suc_ex le0 map_append upt_add_eq_append)
    then show ?thesis using draw_id_append [OF ended] by simp
  qed
  with ended show ?thesis by (intro that [of _ "Suc i"])
qed

lemma draw_id_RandFailed: "draw_id ds m = RandFailed \<Longrightarrow> None \<in> set ds"
  by (induction ds m rule: draw_id.induct) (auto simp: Let_def split: if_splits)

text \<open>
  C36: Asking for the session of a client returns, with a fresh number for a new one. The manager is one
  that any sequence of operations has led to, its limit of sessions is below 2^31 (it is 256 if nothing
  else is configured), and the source of randomness is one that brings every four bytes at some time.
  Then after finitely many draws the answer is there and no further draw changes it: a client that has a
  session gets it; if a limit is reached or the manager closed, it is refused; and otherwise it gets a
  new session under a number that was not taken, is not 0 and has the high bit clear, so that it is no
  number of a controller session, and the tables lead to it, unless the source of randomness failed.
\<close>

theorem session_draw_returns:
  assumes "m = session_run evs (NewSessionManagerWithLimits idle maxS maxIP maxRate)"
    "MaxSessions (limits m) < 2 ^ 31" "\<forall>buf. length buf = 4 \<longrightarrow> (\<exists>i. draws i = Some buf)"
  shows "\<exists>k m' r. (\<forall>n\<ge>k. GetOrCreateByKey now (map draws [0..<n]) key m = (m', r)) \<and> r \<noteq> Waiting
    \<and> (case fmlookup (byKey m) key of
        Some sid \<Rightarrow> (\<exists>s. r = Existing s \<and> s_ID s = sid \<and> s_key s = key)
      | None \<Rightarrow>
          if sm_closed m \<or> MaxSessions (limits m) \<le> ActiveCount m
            \<or> IsValid (ip_of key) \<and> MaxSessionsPerIP (limits m) \<le> count_of (sessionsPerIP m) (ip_of key)
            \<or> \<not> snd (allowCreateLocked now m)
          then r = Refused
          else r = Refused \<and> (\<exists>i. draws i = None)
            \<or> (\<exists>s. r = Created s \<and> s_key s = key \<and> s_LastSeen s = now
                \<and> fmlookup (byID m) (s_ID s) = None \<and> s_ID s \<noteq> 0 \<and> \<not> bit (s_ID s) 31
                \<and> fmlookup (byID m') (s_ID s) = Some s \<and> fmlookup (byKey m') key = Some (s_ID s)))"
proof -
  have ok: "sessions_ok m" using assms(1) by (simp add: session_run_ok New_sessions_ok)
  let ?full = "sm_closed m \<or> MaxSessions (limits m) \<le> ActiveCount m
    \<or> IsValid (ip_of key) \<and> MaxSessionsPerIP (limits m) \<le> count_of (sessionsPerIP m) (ip_of key)
    \<or> \<not> snd (allowCreateLocked now m)"
  show ?thesis
  proof (cases "fmlookup (byKey m) key")
    case (Some sid)
    then obtain s where s: "fmlookup (byID m) sid = Some s" "s_key s = key" "s_ID s = sid"
      using ok unfolding sessions_ok_def tables_ok_def by blast
    then have "GetOrCreateByKey now ds key m = (touch_id now sid m, Existing (touch now s))" for ds
      using Some by (simp add: GetOrCreateByKey_def)
    then show ?thesis using Some s
      by (intro exI [of _ 0] exI [of _ "touch_id now sid m"] exI [of _ "Existing (touch now s)"])
        (simp add: touch_def)
  next
    case None
    obtain m1 ok1 where al: "allowCreateLocked now m = (m1, ok1)" by fastforce
    have ids: "byID m1 = byID m" using al by (auto simp: allowCreateLocked_def Let_def split: if_splits)
    have keys: "byKey m1 = byKey m" using al by (auto simp: allowCreateLocked_def Let_def split: if_splits)
    show ?thesis
    proof (cases ?full)
      case True
      then have "GetOrCreateByKey now ds key m = (if sm_closed m \<or> MaxSessions (limits m) \<le> ActiveCount m
          \<or> IsValid (ip_of key) \<and> MaxSessionsPerIP (limits m) \<le> count_of (sessionsPerIP m) (ip_of key)
          then m else m1, Refused)" for ds
        using None al by (auto simp: GetOrCreateByKey_def ActiveCount_def)
      then have "\<exists>m'. \<forall>ds. GetOrCreateByKey now ds key m = (m', Refused)" by blast
      then obtain m' where "\<And>ds. GetOrCreateByKey now ds key m = (m', Refused)" by blast
      then show ?thesis using True None
        by (intro exI [of _ 0] exI [of _ m'] exI [of _ Refused]) auto
    next
      case False
      then have "fsize (byID m) < 2 ^ 31 - 1" using assms(2) by (simp add: ActiveCount_def)
      from draw_id_ends [OF this assms(3)] obtain k d where
        d: "d \<noteq> StillDrawing" "\<And>n. k \<le> n \<Longrightarrow> draw_id (map draws [0..<n]) (byID m) = d" by blast
      have go: "GetOrCreateByKey now ds key m = (case draw_id ds (byID m) of StillDrawing \<Rightarrow> (m1, Waiting)
          | RandFailed \<Rightarrow> (m1, Refused) | Drawn sid \<Rightarrow>
            (let s = \<lparr>s_ID = sid, s_key = key, s_Conn = None, s_LastSeen = now\<rparr>
             in (m1\<lparr>byID := fmupd sid s (byID m1), byKey := fmupd key sid (byKey m1),
                   sessionsPerIP := count_ip key (sessionsPerIP m1)\<rparr>, Created s)))" for ds
        using None False al ids by (auto simp: GetOrCreateByKey_def ActiveCount_def)
      show ?thesis
      proof (cases d)
        case (Drawn sid)
        then have fresh: "public_id sid \<and> fmlookup (byID m) sid = None" using draw_id_Drawn d(2) by blast
        let ?s = "\<lparr>s_ID = sid, s_key = key, s_Conn = None, s_LastSeen = now\<rparr>"
        let ?m = "m1\<lparr>byID := fmupd sid ?s (byID m1), byKey := fmupd key sid (byKey m1),
          sessionsPerIP := count_ip key (sessionsPerIP m1)\<rparr>"
        have "\<forall>n\<ge>k. GetOrCreateByKey now (map draws [0..<n]) key m = (?m, Created ?s)"
          using Drawn d(2) by (simp add: go Let_def)
        then show ?thesis using None False fresh
          by (intro exI [of _ k] exI [of _ ?m] exI [of _ "Created ?s"]) (auto simp: public_id_def)
      next
        case RandFailed
        then have "None \<in> set (map draws [0..<k])" using draw_id_RandFailed d(2) by blast
        then have "\<exists>i. draws i = None" by (metis imageE set_map)
        moreover have "\<forall>n\<ge>k. GetOrCreateByKey now (map draws [0..<n]) key m = (m1, Refused)"
          using RandFailed d(2) by (simp add: go)
        ultimately show ?thesis using None False
          by (intro exI [of _ k] exI [of _ m1] exI [of _ Refused]) auto
      next
        case StillDrawing
        then show ?thesis using d(1) by simp
      qed
    qed
  qed
qed

text \<open>In the witness the source of randomness counts.\<close>

lemma session_draw_returns_witness:
  "\<exists>k m' r. (\<forall>n\<ge>k. GetOrCreateByKey 100 (map (\<lambda>i. Some (put_be32 (of_nat i))) [0..<n]) sample_client
     (NewSessionManagerWithLimits 0 0 0 0) = (m', r)) \<and> r \<noteq> Waiting"
proof -
  have "\<exists>i. Some (put_be32 (of_nat i)) = Some buf" if "length buf = 4" for buf
    using put_be32_be32 [OF that] by (intro exI [of _ "unat (be32 buf)"]) simp
  then have "\<forall>buf. length buf = 4 \<longrightarrow> (\<exists>i. Some (put_be32 (of_nat i)) = Some buf)" by blast
  moreover have "MaxSessions (limits (NewSessionManagerWithLimits 0 0 0 0)) < 2 ^ 31"
    by (simp add: NewSessionManagerWithLimits_def or_default_def DefaultMaxSessions_def)
  moreover have "NewSessionManagerWithLimits 0 0 0 0 = session_run [] (NewSessionManagerWithLimits 0 0 0 0)" by simp
  ultimately show ?thesis
    using session_draw_returns [of "NewSessionManagerWithLimits 0 0 0 0" "[]" 0 0 0 0
        "\<lambda>i. Some (put_be32 (of_nat i))" 100 sample_client] by blast
qed

end
