(* ===== verification/Ip_Guard.thy ===== *)
theory Ip_Guard
  imports Netip Rate_Window
begin

text \<open>
  The per-address guard of \<open>internal/ratelimit/ip_guard.go\<close>: a bound on concurrent holders and a
  fixed-window creation rate for each remote address, with idle addresses swept now and then. The
  release function that a successful acquisition returns is a ticket: releasing twice has no effect.
\<close>

record guard_entry =
  ge_active :: nat
  ge_windowStart :: time
  ge_count :: nat
  ge_lastSeen :: time

text \<open>\<open>tickets\<close> holds the release functions that were handed out and not called yet.\<close>

record IPGuard =
  g_entries :: "(string, guard_entry) fmap"
  maxConcurrent :: nat
  maxPerWindow :: nat
  g_window :: time
  operations :: u64
  tickets :: "(nat, string) fmap"
  nextTicket :: nat

definition NewIPGuard :: "int \<Rightarrow> int \<Rightarrow> time \<Rightarrow> IPGuard" where
  "NewIPGuard maxC maxW window =
     \<lparr>g_entries = fmempty, maxConcurrent = (if maxC \<le> 0 then 16 else nat maxC),
      maxPerWindow = (if maxW \<le> 0 then 60 else nat maxW),
      g_window = (if window \<le> 0 then 60 * second else window),
      operations = 0, tickets = fmempty, nextTicket = 0\<rparr>"

definition addressKey :: "string option \<Rightarrow> string" where
  "addressKey addr = (case addr of
     None \<Rightarrow> ''unknown''
   | Some s \<Rightarrow> (case SplitHostPort s of
       Some (host, port) \<Rightarrow> trim {CHR ''['', CHR '']''} host | None \<Rightarrow> s))"

definition idle_entry :: "time \<Rightarrow> IPGuard \<Rightarrow> guard_entry \<Rightarrow> bool" where
  "idle_entry now g e \<longleftrightarrow> ge_active e = 0 \<and> now - ge_lastSeen e > 2 * g_window g"

definition sweepLocked :: "time \<Rightarrow> IPGuard \<Rightarrow> IPGuard" where
  "sweepLocked now g = g\<lparr>g_entries := fmfilter
     (\<lambda>key. case fmlookup (g_entries g) key of Some e \<Rightarrow> \<not> idle_entry now g e | None \<Rightarrow> False)
     (g_entries g)\<rparr>"

text \<open>The entry the decision is made on: found or new, with the window restarted if it is over.\<close>

definition current_entry :: "time \<Rightarrow> string \<Rightarrow> IPGuard \<Rightarrow> guard_entry" where
  "current_entry now key g =
     (let e = (case fmlookup (g_entries g) key of
                 Some e \<Rightarrow> e
               | None \<Rightarrow> \<lparr>ge_active = 0, ge_windowStart = now, ge_count = 0, ge_lastSeen = 0\<rparr>) in
      if now - ge_windowStart e \<ge> g_window g then e\<lparr>ge_windowStart := now, ge_count := 0\<rparr> else e)"

definition Acquire :: "time \<Rightarrow> string option \<Rightarrow> IPGuard \<Rightarrow> IPGuard \<times> nat option" where
  "Acquire now addr g =
     (let key = addressKey addr;
          g = g\<lparr>operations := operations g + 1\<rparr>;
          g = (if operations g mod 128 = 0 then sweepLocked now g else g);
          e = current_entry now key g in
      if ge_active e \<ge> maxConcurrent g \<or> ge_count e \<ge> maxPerWindow g
      then (g\<lparr>g_entries := fmupd key (e\<lparr>ge_lastSeen := now\<rparr>) (g_entries g)\<rparr>, None)
      else (g\<lparr>g_entries := fmupd key (e\<lparr>ge_active := ge_active e + 1, ge_count := ge_count e + 1,
                                       ge_lastSeen := now\<rparr>) (g_entries g),
              tickets := fmupd (nextTicket g) key (tickets g), nextTicket := nextTicket g + 1\<rparr>,
            Some (nextTicket g)))"

definition release :: "time \<Rightarrow> nat \<Rightarrow> IPGuard \<Rightarrow> IPGuard" where
  "release now t g = (case fmlookup (tickets g) t of
     None \<Rightarrow> g
   | Some key \<Rightarrow>
       (let g = g\<lparr>tickets := fmdrop t (tickets g)\<rparr> in
        case fmlookup (g_entries g) key of
          Some e \<Rightarrow> if ge_active e > 0
            then g\<lparr>g_entries := fmupd key (e\<lparr>ge_active := ge_active e - 1, ge_lastSeen := now\<rparr>) (g_entries g)\<rparr>
            else g
        | None \<Rightarrow> g))"

definition Allow :: "time \<Rightarrow> string option \<Rightarrow> IPGuard \<Rightarrow> IPGuard \<times> bool" where
  "Allow now addr g = (case Acquire now addr g of
     (g, Some t) \<Rightarrow> (release now t g, True) | (g, None) \<Rightarrow> (g, False))"

section \<open>Runs\<close>

datatype guard_event = DoAcquire "string option" | DoRelease nat

fun guard_step :: "guard_event \<Rightarrow> time \<Rightarrow> IPGuard \<Rightarrow> IPGuard" where
  "guard_step (DoAcquire addr) now g = fst (Acquire now addr g)"
| "guard_step (DoRelease t) now g = release now t g"

fun guard_run :: "(guard_event \<times> time) list \<Rightarrow> IPGuard \<Rightarrow> IPGuard" where
  "guard_run [] g = g"
| "guard_run ((ev, now) # evs) g = guard_run evs (guard_step ev now g)"

section \<open>Holders\<close>

text \<open>How many release functions for an address are still to be called.\<close>

definition holders :: "string \<Rightarrow> IPGuard \<Rightarrow> nat" where
  "holders key g = fmsum (\<lambda>t k. if k = key then 1 else 0) (tickets g)"

definition active_of :: "string \<Rightarrow> IPGuard \<Rightarrow> nat" where
  "active_of key g = (case fmlookup (g_entries g) key of Some e \<Rightarrow> ge_active e | None \<Rightarrow> 0)"

definition guard_ok :: "IPGuard \<Rightarrow> bool" where
  "guard_ok g \<longleftrightarrow> (\<forall>key. active_of key g = holders key g \<and> holders key g \<le> maxConcurrent g)
     \<and> (\<forall>t. fmlookup (tickets g) t \<noteq> None \<longrightarrow> t < nextTicket g) \<and> 0 < maxConcurrent g"

lemma NewIPGuard_ok [invs]: "guard_ok (NewIPGuard a b c)"
  by (simp add: guard_ok_def NewIPGuard_def active_of_def holders_def)

lemma lookup_sweep: "fmlookup (g_entries (sweepLocked now g)) key =
    (case fmlookup (g_entries g) key of
       Some e \<Rightarrow> if idle_entry now g e then None else Some e | None \<Rightarrow> None)"
  by (simp add: sweepLocked_def split: option.splits)

lemma sweep_simps [simp]:
  "tickets (sweepLocked now g) = tickets g" "nextTicket (sweepLocked now g) = nextTicket g"
  "maxConcurrent (sweepLocked now g) = maxConcurrent g" "maxPerWindow (sweepLocked now g) = maxPerWindow g"
  "g_window (sweepLocked now g) = g_window g"
  by (simp_all add: sweepLocked_def)

lemma active_of_sweep [simp]: "active_of key (sweepLocked now g) = active_of key g"
  by (simp add: active_of_def lookup_sweep idle_entry_def split: option.splits)

lemma holders_sweep [simp]: "holders key (sweepLocked now g) = holders key g"
  by (simp add: holders_def)

lemma active_current [simp]: "ge_active (current_entry now key g) = active_of key g"
  by (simp add: current_entry_def active_of_def Let_def split: option.splits)

text \<open>The state \<open>Acquire\<close> decides on.\<close>

definition prepared :: "time \<Rightarrow> IPGuard \<Rightarrow> IPGuard" where
  "prepared now g = (let g = g\<lparr>operations := operations g + 1\<rparr> in
     if operations g mod 128 = 0 then sweepLocked now g else g)"

lemma prepared_simps [simp]:
  "tickets (prepared now g) = tickets g" "nextTicket (prepared now g) = nextTicket g"
  "maxConcurrent (prepared now g) = maxConcurrent g" "maxPerWindow (prepared now g) = maxPerWindow g"
  "g_window (prepared now g) = g_window g"
  by (simp_all add: prepared_def Let_def)

lemma active_of_prepared [simp]: "active_of key (prepared now g) = active_of key g"
  by (simp add: prepared_def Let_def) (simp add: active_of_def)

lemma holders_prepared [simp]: "holders key (prepared now g) = holders key g"
  by (simp add: holders_def)

lemma Acquire_prepared:
  "Acquire now addr g =
     (let key = addressKey addr; e = current_entry now key (prepared now g); p = prepared now g in
      if active_of key g \<ge> maxConcurrent g \<or> ge_count e \<ge> maxPerWindow g
      then (p\<lparr>g_entries := fmupd key (e\<lparr>ge_lastSeen := now\<rparr>) (g_entries p)\<rparr>, None)
      else (p\<lparr>g_entries := fmupd key (e\<lparr>ge_active := active_of key g + 1, ge_count := ge_count e + 1,
                                       ge_lastSeen := now\<rparr>) (g_entries p),
              tickets := fmupd (nextTicket g) key (tickets g), nextTicket := nextTicket g + 1\<rparr>,
            Some (nextTicket g)))"
proof -
  have "Acquire now addr g =
     (let key = addressKey addr; p = prepared now g; e = current_entry now key p in
      if ge_active e \<ge> maxConcurrent p \<or> ge_count e \<ge> maxPerWindow p
      then (p\<lparr>g_entries := fmupd key (e\<lparr>ge_lastSeen := now\<rparr>) (g_entries p)\<rparr>, None)
      else (p\<lparr>g_entries := fmupd key (e\<lparr>ge_active := ge_active e + 1, ge_count := ge_count e + 1,
                                       ge_lastSeen := now\<rparr>) (g_entries p),
              tickets := fmupd (nextTicket p) key (tickets p), nextTicket := nextTicket p + 1\<rparr>,
            Some (nextTicket p)))"
    by (simp only: Acquire_def prepared_def Let_def)
  then show ?thesis by (simp only: Let_def prepared_simps active_current active_of_prepared)
qed

lemma Acquire_ok [invs]:
  assumes "guard_ok g"
  shows "guard_ok (fst (Acquire now addr g))"
proof -
  have idle: "fmdrop (nextTicket g) (tickets g) = tickets g"
    using assms by (intro fmdrop_idle) (force simp: guard_ok_def)
  have act: "active_of k g = holders k g" "holders k g \<le> maxConcurrent g" for k
    using assms by (simp_all add: guard_ok_def)
  let ?key = "addressKey addr" and ?e = "current_entry now (addressKey addr) (prepared now g)"
  have other: "active_of k (p\<lparr>g_entries := fmupd ?key e (g_entries p)\<rparr>)
      = (if k = ?key then ge_active e else active_of k p)" for k p e
    by (simp add: active_of_def)
  show ?thesis
  proof (cases "active_of ?key g \<ge> maxConcurrent g \<or> ge_count ?e \<ge> maxPerWindow g")
    case True
    then show ?thesis
      using assms act by (auto simp: Acquire_prepared Let_def guard_ok_def other) (simp_all add: holders_def)
  next
    case False
    let ?g' = "fst (Acquire now addr g)"
    have g': "?g' = (prepared now g)\<lparr>g_entries := fmupd ?key (?e\<lparr>ge_active := active_of ?key g + 1,
        ge_count := ge_count ?e + 1, ge_lastSeen := now\<rparr>) (g_entries (prepared now g)),
        tickets := fmupd (nextTicket g) ?key (tickets g), nextTicket := nextTicket g + 1\<rparr>"
      using False by (simp add: Acquire_prepared Let_def)
    have "active_of k ?g' = (if k = ?key then Suc (active_of k g) else active_of k (prepared now g))" for k
      by (simp only: g') (simp add: active_of_def)
    moreover have "holders k ?g' = (if k = ?key then Suc (holders k g) else holders k g)" for k
      by (simp add: g' holders_def idle)
    moreover have "holders ?key g < maxConcurrent g" using False act by simp
    ultimately show ?thesis
      using assms act by (auto simp: guard_ok_def g' less_Suc_eq)
  qed
qed

lemma holders_drop:
  "fmlookup (tickets g) t = Some key \<Longrightarrow>
     holders k (g\<lparr>tickets := fmdrop t (tickets g)\<rparr>) = holders k g - (if k = key then 1 else 0)"
  using fmsum_drop [of "tickets g" t key "\<lambda>t j. if j = k then 1 else 0"]
  by (auto simp: holders_def)

lemma holders_pos: "fmlookup (tickets g) t = Some key \<Longrightarrow> 0 < holders key g"
  using fmsum_drop [of "tickets g" t key "\<lambda>t j. if j = key then 1 else 0"] by (simp add: holders_def)

lemma release_ok [invs]:
  assumes "guard_ok g"
  shows "guard_ok (release now t g)"
proof (cases "fmlookup (tickets g) t")
  case None
  then show ?thesis using assms by (simp add: release_def)
next
  case (Some key)
  have act: "active_of k g = holders k g" "holders k g \<le> maxConcurrent g" for k
    using assms by (simp_all add: guard_ok_def)
  have "0 < active_of key g" using holders_pos [OF Some] act by simp
  then obtain e where e: "fmlookup (g_entries g) key = Some e" "0 < ge_active e"
    by (auto simp: active_of_def split: option.splits)
  have r: "release now t g = g\<lparr>tickets := fmdrop t (tickets g),
      g_entries := fmupd key (e\<lparr>ge_active := ge_active e - 1, ge_lastSeen := now\<rparr>) (g_entries g)\<rparr>"
    using Some e by (simp add: release_def Let_def)
  have "active_of k (release now t g) = active_of k g - (if k = key then 1 else 0)" for k
    using e by (simp add: r active_of_def)
  moreover have "holders k (release now t g) = holders k g - (if k = key then 1 else 0)" for k
    using holders_drop [OF Some, of k] by (simp add: r holders_def)
  moreover have "holders k g - n \<le> maxConcurrent g" for k n
    using act(2) [of k] by simp
  ultimately show ?thesis
    using assms act by (simp add: guard_ok_def r)
qed

lemma guard_run_ok [invs]: "guard_ok g \<Longrightarrow> guard_ok (guard_run evs g)"
proof (induction evs arbitrary: g)
  case (Cons e evs)
  obtain ev now where e: "e = (ev, now)" by fastforce
  have "guard_ok (guard_step ev now g)"
    using Cons.prems by (cases ev) (simp_all add: invs)
  then show ?case using Cons.IH by (simp add: e)
qed simp

section \<open>The creation rate\<close>

text \<open>The clock does not run backwards, so an entry's window started before it was last seen.\<close>

definition clock_ok :: "time \<Rightarrow> IPGuard \<Rightarrow> bool" where
  "clock_ok t g \<longleftrightarrow> 0 < g_window g \<and> 0 < maxPerWindow g
     \<and> (\<forall>key e. fmlookup (g_entries g) key = Some e \<longrightarrow>
          ge_windowStart e \<le> ge_lastSeen e \<and> ge_lastSeen e \<le> t)"

fun takes_guard_slot :: "guard_event \<Rightarrow> time \<Rightarrow> IPGuard \<Rightarrow> string \<Rightarrow> bool" where
  "takes_guard_slot (DoAcquire addr) now g key \<longleftrightarrow> addressKey addr = key \<and> snd (Acquire now addr g) \<noteq> None"
| "takes_guard_slot (DoRelease t) now g key \<longleftrightarrow> False"

definition guard_start :: "IPGuard \<Rightarrow> string \<Rightarrow> time option" where
  "guard_start g key = map_option ge_windowStart (fmlookup (g_entries g) key)"

definition guard_used :: "IPGuard \<Rightarrow> string \<Rightarrow> nat" where
  "guard_used g key = (case fmlookup (g_entries g) key of Some e \<Rightarrow> ge_count e | None \<Rightarrow> 0)"

lemma lookup_prepared:
  "fmlookup (g_entries (prepared now g)) key = fmlookup (g_entries g) key
   \<or> (\<exists>e. fmlookup (g_entries g) key = Some e \<and> idle_entry now g e
        \<and> fmlookup (g_entries (prepared now g)) key = None)"
  by (auto simp: prepared_def Let_def lookup_sweep idle_entry_def split: option.splits)

lemma clock_ok_prepared: "clock_ok t g \<Longrightarrow> clock_ok t (prepared now g)"
  unfolding clock_ok_def prepared_simps by (metis lookup_prepared option.distinct(1))

lemma clock_ok_current:
  assumes "clock_ok t g" "t \<le> now"
  shows "ge_windowStart (current_entry now key g) \<le> now"
proof -
  have "ge_windowStart e \<le> now" if "fmlookup (g_entries g) key = Some e" for e
    using assms that unfolding clock_ok_def by (meson order_trans)
  then show ?thesis
    by (auto simp: current_entry_def Let_def split: option.splits)
qed

lemma clock_ok_step: "clock_ok t g \<Longrightarrow> t \<le> now \<Longrightarrow> clock_ok now (guard_step ev now g)"
proof (cases ev)
  case (DoAcquire addr)
  assume g: "clock_ok t g" "t \<le> now"
  have p: "clock_ok now (prepared now g)"
    using clock_ok_prepared [OF g(1)] g(2) unfolding clock_ok_def by force
  have "ge_windowStart (current_entry now key (prepared now g)) \<le> now" for key
    using clock_ok_current [OF p order_refl] .
  then show ?thesis
    using p DoAcquire by (simp add: Acquire_prepared Let_def clock_ok_def)
next
  case (DoRelease tk)
  assume g: "clock_ok t g" "t \<le> now"
  have now: "ge_windowStart e \<le> ge_lastSeen e \<and> ge_lastSeen e \<le> now \<and> ge_windowStart e \<le> now"
    if "fmlookup (g_entries g) key = Some e" for key e
    using g that unfolding clock_ok_def by fastforce
  then show ?thesis
    using g DoRelease by (auto simp: release_def Let_def clock_ok_def split: option.splits)
qed

lemma guard_entry_step:
  assumes "clock_ok t g" "t \<le> now"
  shows "(if takes_guard_slot ev now g key then
      (window_over (g_window g) now (guard_start g key)
         \<and> guard_start (guard_step ev now g) key = Some now \<and> guard_used (guard_step ev now g) key = 1
       \<or> \<not> window_over (g_window g) now (guard_start g key)
         \<and> guard_start (guard_step ev now g) key = guard_start g key
         \<and> guard_used (guard_step ev now g) key = Suc (guard_used g key))
      \<and> guard_used (guard_step ev now g) key \<le> maxPerWindow g
    else guard_start (guard_step ev now g) key = guard_start g key
         \<and> guard_used (guard_step ev now g) key = guard_used g key
      \<or> window_over (g_window g) now (guard_start g key)
         \<and> (guard_start (guard_step ev now g) key = None \<or> guard_start (guard_step ev now g) key = Some now)
         \<and> guard_used (guard_step ev now g) key = 0)"
proof (cases ev)
  case (DoRelease tk)
  then show ?thesis
    by (auto simp: release_def Let_def guard_start_def guard_used_def split: option.splits)
next
  case (DoAcquire addr)
  let ?p = "prepared now g"
  let ?e = "current_entry now (addressKey addr) ?p"
  have over: "now - ge_windowStart e \<ge> g_window g"
    if "fmlookup (g_entries g) k = Some e" "idle_entry now g e" for k e
    using assms that unfolding clock_ok_def idle_entry_def by fastforce
  have pos: "0 < maxPerWindow g" "0 < g_window g" using assms(1) by (simp_all add: clock_ok_def)
  have swept: "fmlookup (g_entries ?p) k = fmlookup (g_entries g) k
      \<or> window_over (g_window g) now (guard_start g k) \<and> fmlookup (g_entries ?p) k = None" for k
    using lookup_prepared [of now g k] over by (auto simp: guard_start_def)
  have cur: "ge_windowStart ?e = now \<and> ge_count ?e = 0
        \<and> window_over (g_window g) now (guard_start g (addressKey addr))
      \<or> \<not> window_over (g_window g) now (guard_start g (addressKey addr))
        \<and> guard_start g (addressKey addr) = Some (ge_windowStart ?e)
        \<and> guard_used g (addressKey addr) = ge_count ?e"
    using swept [of "addressKey addr"] pos
    by (auto simp: current_entry_def Let_def guard_start_def guard_used_def split: option.splits)
  show ?thesis
  proof (cases "key = addressKey addr")
    case True
    define st where "st = guard_start (guard_step ev now g) key"
    define us where "us = guard_used (guard_step ev now g) key"
    define tk where "tk = takes_guard_slot ev now g key"
    define ok where "ok \<longleftrightarrow> \<not> (active_of key g \<ge> maxConcurrent g \<or> ge_count ?e \<ge> maxPerWindow g)"
    have "st = Some (ge_windowStart ?e)" "us = ge_count ?e + (if ok then 1 else 0)" "tk = ok"
      using True DoAcquire
      by (auto simp: st_def us_def tk_def ok_def Acquire_prepared Let_def guard_start_def guard_used_def)
    then show ?thesis
      unfolding st_def [symmetric] us_def [symmetric] tk_def [symmetric]
      using cur pos True by (auto simp: ok_def)
  next
    case False
    then show ?thesis
      using swept [of key] DoAcquire
      by (auto simp: Acquire_prepared Let_def guard_start_def guard_used_def)
  qed
qed

lemma guard_const [simp]:
  "g_window (guard_step ev now g) = g_window g" "maxPerWindow (guard_step ev now g) = maxPerWindow g"
  "maxConcurrent (guard_step ev now g) = maxConcurrent g"
  by (cases ev; simp add: Acquire_prepared release_def Let_def split: option.splits)+

interpretation guard_rate: rate_window guard_step takes_guard_slot guard_start guard_used
  g_window maxPerWindow clock_ok
proof unfold_locales
  fix t now ev g key
  assume ok: "clock_ok t g" "t \<le> now"
  show "clock_ok now (guard_step ev now g)" by (rule clock_ok_step [OF ok])
  show "(window_over (g_window g) now (guard_start g key)
         \<and> guard_start (guard_step ev now g) key = Some now \<and> guard_used (guard_step ev now g) key = 1
       \<or> \<not> window_over (g_window g) now (guard_start g key)
         \<and> guard_start (guard_step ev now g) key = guard_start g key
         \<and> guard_used (guard_step ev now g) key = Suc (guard_used g key))
      \<and> guard_used (guard_step ev now g) key \<le> maxPerWindow g" if "takes_guard_slot ev now g key"
    using guard_entry_step [OF ok, of ev key] that by simp
  show "guard_start (guard_step ev now g) key = guard_start g key
         \<and> guard_used (guard_step ev now g) key = guard_used g key
      \<or> window_over (g_window g) now (guard_start g key)
         \<and> (guard_start (guard_step ev now g) key = None \<or> guard_start (guard_step ev now g) key = Some now)
         \<and> guard_used (guard_step ev now g) key = 0" if "\<not> takes_guard_slot ev now g key"
    using guard_entry_step [OF ok, of ev key] that by simp
qed simp_all

section \<open>Properties\<close>

lemma trim_id:
  assumes "\<forall>c\<in>set s. c \<notin> cs"
  shows "trim cs s = s"
proof -
  have "dropWhile (\<lambda>c. c \<in> cs) t = t" if "set t \<subseteq> set s" for t
    using assms that by (cases t) auto
  then show ?thesis by (simp add: trim_def)
qed

text \<open>A connection is counted under its address, whatever port it comes from.\<close>

lemma addressKey_addr_port:
  assumes "\<not> has_zone a" "a \<noteq> NoAddr"
  shows "addressKey (Some (addr_port_string \<lparr>ap_addr = a, ap_port = p\<rparr>)) = addr_string a"
proof -
  have "trim {CHR ''['', CHR '']''} (addr_string a) = addr_string a"
    using addr_string_chars(1,2) [OF assms] by (intro trim_id) auto
  then show ?thesis by (simp add: addressKey_def SplitHostPort_addr_port [OF assms])
qed

lemma guard_run_const [simp]:
  "maxConcurrent (guard_run evs g) = maxConcurrent g" "maxPerWindow (guard_run evs g) = maxPerWindow g"
  by (induction evs arbitrary: g) auto

lemma release_twice: "release now' t (release now t g) = release now t g"
  by (auto simp: release_def Let_def split: option.splits)

text \<open>
  The guard bounds what one address can hold. After any sequence of acquisitions and releases,
  including sweeps and releases that are called again, the entry of an address counts exactly the
  holders that have not released, there are never more than \<open>maxConcurrent\<close> of them, an address that
  is below the bound and below its rate is admitted, and calling a release function a second time
  changes nothing.
\<close>

theorem ip_guard_concurrency:
  assumes "g = guard_run evs (NewIPGuard maxC maxW w)"
  shows "(\<forall>key. active_of key g = holders key g \<and> holders key g \<le> maxConcurrent (NewIPGuard maxC maxW w))
    \<and> (\<forall>now addr. snd (Acquire now addr g) = None \<longleftrightarrow>
        holders (addressKey addr) g = maxConcurrent (NewIPGuard maxC maxW w)
        \<or> ge_count (current_entry now (addressKey addr) (prepared now g)) \<ge> maxPerWindow (NewIPGuard maxC maxW w))
    \<and> (\<forall>now now' t. release now' t (release now t g) = release now t g)"
proof -
  have "guard_ok g" by (simp add: assms guard_run_ok NewIPGuard_ok)
  then have act: "active_of key g = holders key g"
    "holders key g \<le> maxConcurrent (NewIPGuard maxC maxW w)" for key
    by (simp_all add: guard_ok_def assms)
  have "snd (Acquire now addr g) = None \<longleftrightarrow>
        holders (addressKey addr) g = maxConcurrent (NewIPGuard maxC maxW w)
        \<or> ge_count (current_entry now (addressKey addr) (prepared now g)) \<ge> maxPerWindow (NewIPGuard maxC maxW w)"
    for now addr
    using act [of "addressKey addr"] by (auto simp: Acquire_prepared Let_def assms)
  then show ?thesis using act release_twice by blast
qed

lemma ip_guard_concurrency_witness:
  "holders ''10.0.0.1'' (guard_run [(DoAcquire (Some ''10.0.0.1:5000''), 7), (DoAcquire (Some ''10.0.0.1:5001''), 8)]
      (NewIPGuard 1 9 0)) \<le> maxConcurrent (NewIPGuard 1 9 0)"
  using ip_guard_concurrency [OF refl] by blast

text \<open>
  The guard bounds the rate of one address. With a clock that does not run backwards, at most
  twice \<open>maxPerWindow\<close> acquisitions of an address succeed within any period of one window's length,
  wherever it starts, although sweeping forgets idle addresses and their windows.
\<close>

theorem ip_guard_rate:
  assumes "guard_rate.in_order t evs"
  shows "guard_rate.admitted_in a key evs (NewIPGuard maxC maxW w)
    \<le> 2 * maxPerWindow (NewIPGuard maxC maxW w)"
  using assms
  by (intro guard_rate.admitted_bounded)
    (auto simp: guard_start_def guard_used_def clock_ok_def NewIPGuard_def)

lemma ip_guard_rate_witness:
  "guard_rate.admitted_in 0 ''a'' [(DoAcquire (Some ''a''), 5), (DoRelease 0, 6), (DoAcquire (Some ''a''), 7)]
     (NewIPGuard 1 1 10) \<le> 2 * maxPerWindow (NewIPGuard 1 1 10)"
  by (rule ip_guard_rate [where t = 0]) simp

text \<open>
  The guard cannot be evaded by changing ports: the key of a peer is the text of its address
  alone, for every IPv4 address and every IPv6 address without a zone, whatever its port.
\<close>

theorem ip_guard_key:
  assumes "IsValid a" "\<not> has_zone a"
  shows "addressKey (Some (addr_port_string \<lparr>ap_addr = a, ap_port = p\<rparr>)) = addr_string a"
  using assms by (intro addressKey_addr_port) (simp_all add: IsValid_def)

lemma ip_guard_key_witness:
  "addressKey (Some (addr_port_string \<lparr>ap_addr = V4 0x0a000001, ap_port = 3389\<rparr>)) = ''10.0.0.1''"
proof -
  have "addr_string (V4 0x0a000001) = ''10.0.0.1''" by code_simp
  then show ?thesis using ip_guard_key [of "V4 0x0a000001" 3389] by (simp add: IsValid_def)
qed

end
