(* ===== verification/Lease.thy ===== *)
theory Lease
  imports Prelude
begin

text \<open>
  The contract of a registry that leases distinct names from a fixed pool: a client that has a lease
  keeps it until it gives it back, no name is leased twice, and a request is refused only when the
  pool is exhausted.
\<close>

datatype 'd lease_event = Request 'd | GiveBack 'd

locale lease_registry =
  fixes lease :: "'s \<Rightarrow> 'd \<Rightarrow> 'p option"
    and request :: "'d \<Rightarrow> 's \<Rightarrow> 's \<times> 'p option"
    and give_back :: "'d \<Rightarrow> 's \<Rightarrow> 's"
    and pool :: "'s \<Rightarrow> 'p set"
    and good :: "'s \<Rightarrow> bool"
  assumes distinct_leases: "good s \<Longrightarrow> lease s d = Some p \<Longrightarrow> lease s d' = Some p \<Longrightarrow> d = d'"
    and leases_in_pool: "good s \<Longrightarrow> lease s d = Some p \<Longrightarrow> p \<in> pool s"
    and request_good: "good s \<Longrightarrow> good (fst (request d s))"
    and request_pool: "pool (fst (request d s)) = pool s"
    and request_lease: "good s \<Longrightarrow> lease (fst (request d s)) = (lease s)(d := snd (request d s))"
    and request_kept: "good s \<Longrightarrow> lease s d = Some p \<Longrightarrow> snd (request d s) = Some p"
    and request_refused: "good s \<Longrightarrow> snd (request d s) = None \<Longrightarrow> \<forall>p\<in>pool s. \<exists>d'. lease s d' = Some p"
    and give_back_good: "good s \<Longrightarrow> good (give_back d s)"
    and give_back_pool: "pool (give_back d s) = pool s"
    and give_back_lease: "good s \<Longrightarrow> lease (give_back d s) = (lease s)(d := None)"
begin

fun lease_step :: "'d lease_event \<Rightarrow> 's \<Rightarrow> 's" where
  "lease_step (Request d) s = fst (request d s)"
| "lease_step (GiveBack d) s = give_back d s"

fun lease_run :: "'d lease_event list \<Rightarrow> 's \<Rightarrow> 's" where
  "lease_run [] s = s"
| "lease_run (ev # evs) s = lease_run evs (lease_step ev s)"

lemma lease_step_good: "good s \<Longrightarrow> good (lease_step ev s)"
  by (cases ev) (simp_all add: request_good give_back_good)

lemma lease_step_pool: "pool (lease_step ev s) = pool s"
  by (cases ev) (simp_all add: request_pool give_back_pool)

lemma lease_run_good: "good s \<Longrightarrow> good (lease_run evs s)"
  by (induction evs arbitrary: s) (simp_all add: lease_step_good)

lemma lease_run_pool: "pool (lease_run evs s) = pool s"
  by (induction evs arbitrary: s) (simp_all add: lease_step_pool)

text \<open>A lease lasts until its holder gives it back.\<close>

lemma lease_step_stable:
  assumes "good s" "lease s d = Some p" "ev \<noteq> GiveBack d"
  shows "lease (lease_step ev s) d = Some p"
proof (cases ev)
  case (Request d')
  then show ?thesis
    using assms(2) request_kept [OF assms(1,2)] request_lease [OF assms(1), of d'] by auto
next
  case (GiveBack d')
  then show ?thesis using assms(2,3) give_back_lease [OF assms(1), of d'] by simp
qed

lemma lease_run_stable:
  assumes "good s" "lease s d = Some p" "GiveBack d \<notin> set evs"
  shows "lease (lease_run evs s) d = Some p"
  using assms
proof (induction evs arbitrary: s)
  case (Cons ev evs)
  have "lease (lease_step ev s) d = Some p"
    using Cons.prems by (intro lease_step_stable) auto
  then show ?case using Cons.IH [OF lease_step_good [OF Cons.prems(1)]] Cons.prems(3) by simp
qed simp

lemma request_stable:
  assumes "good s" "snd (request d s) = Some p" "GiveBack d \<notin> set evs"
  shows "snd (request d (lease_run evs (fst (request d s)))) = Some p"
proof (rule request_kept)
  show "good (lease_run evs (fst (request d s)))"
    using assms(1) by (intro lease_run_good request_good)
  show "lease (lease_run evs (fst (request d s))) d = Some p"
    using assms by (intro lease_run_stable) (simp_all add: request_good request_lease)
qed

text \<open>A request is refused only by a registry that has as many clients as names.\<close>

lemma refused_exhausted:
  assumes "good s" "snd (request d s) = None" "finite {d'. lease s d' \<noteq> None}"
  shows "card (pool s) \<le> card {d'. lease s d' \<noteq> None}"
proof -
  have "pool s \<subseteq> (\<lambda>d'. the (lease s d')) ` {d'. lease s d' \<noteq> None}"
  proof
    fix p assume "p \<in> pool s"
    then obtain d' where "lease s d' = Some p" using request_refused [OF assms(1,2)] by blast
    then show "p \<in> (\<lambda>d'. the (lease s d')) ` {d'. lease s d' \<noteq> None}" by force
  qed
  with assms(3) show ?thesis by (rule surj_card_le)
qed

end

end
