(* ===== verification/Port_Manager.thy ===== *)
theory Port_Manager
  imports Lease
begin

text \<open>
  The allocation of public ports to devices, \<open>internal/relay/port_manager.go\<close>: a pair of maps that
  are inverse to each other, preloaded from the device table of the database. The manager keeps the
  lease contract; the preload does so only if the table assigns no port twice.
\<close>

datatype port_error = InvalidPortRange u16 u16 | ErrNoAvailablePort

record PortManager =
  startPort :: u16
  endPort :: u16
  deviceToPort :: "(string, u16) fmap"
  portToDevice :: "(u16, string) fmap"

text \<open>The device table is a list of device and port, in the order of the query.\<close>

fun preload :: "(string \<times> u16) list \<Rightarrow> PortManager \<Rightarrow> PortManager" where
  "preload [] pm = pm"
| "preload ((d, p) # rows) pm = preload rows
     (if p \<ge> startPort pm \<and> p \<le> endPort pm
      then pm\<lparr>deviceToPort := fmupd d p (deviceToPort pm), portToDevice := fmupd p d (portToDevice pm)\<rparr>
      else pm)"

definition NewPortManager :: "u16 \<Rightarrow> u16 \<Rightarrow> (string \<times> u16) list \<Rightarrow> port_error + PortManager" where
  "NewPortManager start stop rows =
     (if start > stop \<or> start = 0 then Inl (InvalidPortRange start stop)
      else Inr (preload rows \<lparr>startPort = start, endPort = stop,
                  deviceToPort = fmempty, portToDevice = fmempty\<rparr>))"

text \<open>The loop counts on 32 bits, so it ends after port 65535 as well.\<close>

definition port_list :: "PortManager \<Rightarrow> u16 list" where
  "port_list pm = map of_nat [unat (startPort pm)..<Suc (unat (endPort pm))]"

definition free_port :: "PortManager \<Rightarrow> u16 option" where
  "free_port pm = find (\<lambda>port. fmlookup (portToDevice pm) port = None) (port_list pm)"

definition GetOrAllocatePort :: "string \<Rightarrow> PortManager \<Rightarrow> PortManager \<times> (port_error + u16)" where
  "GetOrAllocatePort deviceID pm = (case fmlookup (deviceToPort pm) deviceID of
     Some port \<Rightarrow> (pm, Inr port)
   | None \<Rightarrow> (case free_port pm of
       Some port \<Rightarrow> (pm\<lparr>deviceToPort := fmupd deviceID port (deviceToPort pm),
                      portToDevice := fmupd port deviceID (portToDevice pm)\<rparr>, Inr port)
     | None \<Rightarrow> (pm, Inl ErrNoAvailablePort)))"

definition GetPort :: "string \<Rightarrow> PortManager \<Rightarrow> u16 option" where
  "GetPort deviceID pm = fmlookup (deviceToPort pm) deviceID"

definition ReleasePort :: "string \<Rightarrow> PortManager \<Rightarrow> PortManager" where
  "ReleasePort deviceID pm = (case fmlookup (deviceToPort pm) deviceID of
     Some port \<Rightarrow> pm\<lparr>deviceToPort := fmdrop deviceID (deviceToPort pm),
                    portToDevice := fmdrop port (portToDevice pm)\<rparr>
   | None \<Rightarrow> pm)"

section \<open>The maps are inverse to each other\<close>

definition inverse_maps :: "('a, 'b) fmap \<Rightarrow> ('b, 'a) fmap \<Rightarrow> bool" where
  "inverse_maps m n \<longleftrightarrow> (\<forall>a b. fmlookup m a = Some b \<longleftrightarrow> fmlookup n b = Some a)"

definition port_range :: "PortManager \<Rightarrow> u16 set" where
  "port_range pm = {startPort pm..endPort pm}"

definition ports_ok :: "PortManager \<Rightarrow> bool" where
  "ports_ok pm \<longleftrightarrow> inverse_maps (deviceToPort pm) (portToDevice pm)
     \<and> (\<forall>p. fmlookup (portToDevice pm) p \<noteq> None \<longrightarrow> p \<in> port_range pm)"

lemma inverse_maps_upd:
  "inverse_maps m n \<Longrightarrow> fmlookup m a = None \<Longrightarrow> fmlookup n b = None \<Longrightarrow>
     inverse_maps (fmupd a b m) (fmupd b a n)"
  unfolding inverse_maps_def by (auto split: if_splits) (metis option.distinct(1))+

lemma inverse_maps_drop:
  "inverse_maps m n \<Longrightarrow> fmlookup m a = Some b \<Longrightarrow> inverse_maps (fmdrop a m) (fmdrop b n)"
  unfolding inverse_maps_def by (auto split: if_splits) (metis option.inject)+

lemma port_list_set:
  assumes "start \<le> (stop :: u16)"
  shows "set (map of_nat [unat start..<Suc (unat stop)]) = {start..stop}"
proof (intro equalityI subsetI)
  fix p :: u16 assume "p \<in> set (map of_nat [unat start..<Suc (unat stop)])"
  then obtain n where n: "p = of_nat n" "unat start \<le> n" "n \<le> unat stop" by auto
  moreover have "unat stop < 2 ^ LENGTH(16)" by (rule unsigned_less)
  ultimately have "n < 2 ^ 16" by simp
  then have "unat p = n" by (simp add: n(1) unat_of_nat)
  then show "p \<in> {start..stop}" using n(2,3) by (simp add: word_le_nat_alt)
next
  fix p :: u16 assume p: "p \<in> {start..stop}"
  then have "unat p \<in> set [unat start..<Suc (unat stop)]" by (auto simp: word_le_nat_alt)
  then have "of_nat (unat p) \<in> (of_nat :: nat \<Rightarrow> u16) ` set [unat start..<Suc (unat stop)]" by blast
  then show "p \<in> set (map of_nat [unat start..<Suc (unat stop)])"
    by (metis of_nat_unat ucast_id set_map)
qed

lemma set_port_list: "startPort pm \<le> endPort pm \<Longrightarrow> set (port_list pm) = port_range pm"
  using port_list_set [of "startPort pm" "endPort pm"] by (simp only: port_list_def port_range_def)

lemma find_cases: "find P xs = Some x \<Longrightarrow> P x \<and> x \<in> set xs"
  by (induction xs) (auto split: if_splits)

lemma free_port_Some:
  assumes "free_port pm = Some p" "startPort pm \<le> endPort pm"
  shows "fmlookup (portToDevice pm) p = None" "p \<in> port_range pm"
  using assms find_cases [of _ "port_list pm" p] by (auto simp: free_port_def set_port_list)

lemma free_port_None:
  assumes "free_port pm = None" "startPort pm \<le> endPort pm" "p \<in> port_range pm"
  shows "fmlookup (portToDevice pm) p \<noteq> None"
  using assms by (auto simp: free_port_def find_None_iff simp flip: set_port_list)

lemma GetOrAllocate_ok [invs]:
  assumes "ports_ok pm" "startPort pm \<le> endPort pm"
  shows "ports_ok (fst (GetOrAllocatePort d pm))"
proof (cases "fmlookup (deviceToPort pm) d")
  case (Some p)
  then show ?thesis using assms(1) by (simp add: GetOrAllocatePort_def)
next
  case None
  show ?thesis
  proof (cases "free_port pm")
    case free: (Some p)
    note f = free_port_Some [OF free assms(2)]
    then show ?thesis
      using assms(1) None free inverse_maps_upd [of "deviceToPort pm" "portToDevice pm" d p]
      by (auto simp: GetOrAllocatePort_def ports_ok_def port_range_def)
  next
    case full: None
    then show ?thesis using assms(1) None by (simp add: GetOrAllocatePort_def)
  qed
qed

lemma ReleasePort_ok [invs]:
  assumes "ports_ok pm"
  shows "ports_ok (ReleasePort d pm)"
proof (cases "fmlookup (deviceToPort pm) d")
  case (Some p)
  then show ?thesis
    using assms inverse_maps_drop [of "deviceToPort pm" "portToDevice pm" d p]
    by (auto simp: ReleasePort_def ports_ok_def port_range_def split: if_splits)
qed (use assms in \<open>simp add: ReleasePort_def\<close>)

lemma ports_inverse:
  "ports_ok pm \<Longrightarrow> fmlookup (deviceToPort pm) d = Some p \<longleftrightarrow> fmlookup (portToDevice pm) p = Some d"
  by (simp add: ports_ok_def inverse_maps_def)

definition request_port :: "string \<Rightarrow> PortManager \<Rightarrow> PortManager \<times> u16 option" where
  "request_port d pm = (case GetOrAllocatePort d pm of (pm', Inr p) \<Rightarrow> (pm', Some p) | (pm', Inl _) \<Rightarrow> (pm', None))"

lemma request_port_fst [simp]: "fst (request_port d pm) = fst (GetOrAllocatePort d pm)"
  by (simp add: request_port_def split: prod.splits sum.splits)

lemma request_port_snd: "snd (request_port d pm) = Some p \<longleftrightarrow> snd (GetOrAllocatePort d pm) = Inr p"
  by (auto simp: request_port_def split: prod.splits sum.splits)

lemma GetOrAllocate_range [simp]:
  "startPort (fst (GetOrAllocatePort d pm)) = startPort pm" "endPort (fst (GetOrAllocatePort d pm)) = endPort pm"
  by (simp_all add: GetOrAllocatePort_def split: option.splits)

lemma ReleasePort_range [simp]:
  "startPort (ReleasePort d pm) = startPort pm" "endPort (ReleasePort d pm) = endPort pm"
  by (simp_all add: ReleasePort_def split: option.splits)

definition manager_ok :: "PortManager \<Rightarrow> bool" where
  "manager_ok pm \<longleftrightarrow> ports_ok pm \<and> startPort pm \<le> endPort pm"

interpretation ports: lease_registry "\<lambda>pm d. GetPort d pm" request_port ReleasePort port_range manager_ok
proof unfold_locales
  fix pm d d' and p :: u16
  assume ok: "manager_ok pm"
  then have pok: "ports_ok pm" and le: "startPort pm \<le> endPort pm" by (simp_all add: manager_ok_def)
  note inv = ports_inverse [OF pok]
  show "manager_ok (fst (request_port d pm))" "manager_ok (ReleasePort d pm)"
    using ok by (simp_all add: manager_ok_def invs)
  show "GetPort d pm = Some p \<Longrightarrow> GetPort d' pm = Some p \<Longrightarrow> d = d'"
    using inv by (simp add: GetPort_def)
  show "GetPort d pm = Some p \<Longrightarrow> p \<in> port_range pm"
    using pok inv [of d p] by (simp add: GetPort_def ports_ok_def)
  show "GetPort d pm = Some p \<Longrightarrow> snd (request_port d pm) = Some p"
    by (simp add: GetPort_def request_port_snd GetOrAllocatePort_def)
  show "(\<lambda>d. GetPort d (fst (request_port d' pm))) = (\<lambda>d. GetPort d pm)(d' := snd (request_port d' pm))" for d'
    by (auto simp: fun_eq_iff GetPort_def request_port_def GetOrAllocatePort_def split: option.splits)
  show "(\<lambda>d. GetPort d (ReleasePort d' pm)) = (\<lambda>d. GetPort d pm)(d' := None)" for d'
    by (auto simp: fun_eq_iff GetPort_def ReleasePort_def split: option.splits)
  show "\<forall>p\<in>port_range pm. \<exists>d'. GetPort d' pm = Some p" if "snd (request_port d pm) = None"
  proof
    fix p assume p: "p \<in> port_range pm"
    have "free_port pm = None"
      using that by (auto simp: request_port_def GetOrAllocatePort_def split: option.splits)
    then obtain d' where "fmlookup (portToDevice pm) p = Some d'"
      using free_port_None [OF _ le p] by blast
    then show "\<exists>d'. GetPort d' pm = Some p" using inv by (auto simp: GetPort_def)
  qed
qed (simp_all add: port_range_def)

section \<open>Preloading\<close>

definition in_range :: "PortManager \<Rightarrow> u16 \<Rightarrow> bool" where
  "in_range pm p \<longleftrightarrow> startPort pm \<le> p \<and> p \<le> endPort pm"

lemma preload_range [simp]:
  "startPort (preload rows pm) = startPort pm" "endPort (preload rows pm) = endPort pm"
  by (induction rows pm rule: preload.induct) auto

lemma preload_filter:
  "preload (filter (\<lambda>r. in_range pm (snd r)) rows) pm = preload rows pm"
proof (induction rows arbitrary: pm)
  case (Cons row rows)
  obtain d p where row: "row = (d, p)" by fastforce
  let ?pm = "pm\<lparr>deviceToPort := fmupd d p (deviceToPort pm), portToDevice := fmupd p d (portToDevice pm)\<rparr>"
  have "in_range ?pm = in_range pm" by (simp add: fun_eq_iff in_range_def)
  then show ?case
    using Cons.IH [of pm] Cons.IH [of ?pm] by (auto simp: row in_range_def [of pm p])
qed simp

lemma preload_ok:
  assumes "ports_ok pm" "distinct (map fst rows)" "distinct (map snd rows)"
    "\<forall>(d, p)\<in>set rows. in_range pm p \<and> fmlookup (deviceToPort pm) d = None \<and> fmlookup (portToDevice pm) p = None"
  shows "ports_ok (preload rows pm)
    \<and> (\<forall>(d, p)\<in>set rows. fmlookup (deviceToPort (preload rows pm)) d = Some p)
    \<and> (\<forall>d p. fmlookup (deviceToPort pm) d = Some p \<longrightarrow> fmlookup (deviceToPort (preload rows pm)) d = Some p)"
  using assms
proof (induction rows arbitrary: pm)
  case Nil
  then show ?case by simp
next
  case (Cons row rows)
  obtain d p where row: "row = (d, p)" by fastforce
  have new: "fmlookup (deviceToPort pm) d = None" "fmlookup (portToDevice pm) p = None" "in_range pm p"
    using Cons.prems(4) by (simp_all add: row)
  let ?pm = "pm\<lparr>deviceToPort := fmupd d p (deviceToPort pm), portToDevice := fmupd p d (portToDevice pm)\<rparr>"
  have step: "preload (row # rows) pm = preload rows ?pm"
    using new(3) by (simp add: row in_range_def)
  have "ports_ok ?pm"
    using Cons.prems(1) new inverse_maps_upd [of "deviceToPort pm" "portToDevice pm" d p]
    by (auto simp: ports_ok_def port_range_def in_range_def)
  moreover have "\<forall>(d', p')\<in>set rows. in_range ?pm p' \<and> fmlookup (deviceToPort ?pm) d' = None
      \<and> fmlookup (portToDevice ?pm) p' = None"
    using Cons.prems(2-4) by (force simp: row in_range_def)
  ultimately have IH: "ports_ok (preload rows ?pm)"
    "\<forall>(d, p)\<in>set rows. fmlookup (deviceToPort (preload rows ?pm)) d = Some p"
    "\<forall>d p. fmlookup (deviceToPort ?pm) d = Some p \<longrightarrow> fmlookup (deviceToPort (preload rows ?pm)) d = Some p"
    using Cons.IH [of ?pm] Cons.prems(2,3) by (simp_all add: row)
  have "fmlookup (deviceToPort (preload rows ?pm)) d = Some p" using IH(3) by simp
  moreover have "fmlookup (deviceToPort (preload rows ?pm)) d' = Some p'"
    if "fmlookup (deviceToPort pm) d' = Some p'" for d' p'
  proof -
    have "d' \<noteq> d" using that new(1) by auto
    then show ?thesis using that IH(3) by simp
  qed
  ultimately show ?case using IH(1,2) unfolding step by (simp add: row)
qed

text \<open>The rows a manager loads: those whose port is in its range.\<close>

definition rows_in :: "u16 \<Rightarrow> u16 \<Rightarrow> (string \<times> u16) list \<Rightarrow> (string \<times> u16) list" where
  "rows_in start stop rows = filter (\<lambda>(d, p). start \<le> p \<and> p \<le> stop) rows"

lemma NewPortManager_ok:
  assumes "NewPortManager start stop rows = Inr pm"
    "distinct (map fst rows)" "distinct (map snd (rows_in start stop rows))"
  shows "manager_ok pm \<and> (\<forall>(d, p)\<in>set (rows_in start stop rows). GetPort d pm = Some p)
    \<and> startPort pm = start \<and> endPort pm = stop"
proof -
  let ?pm0 = "\<lparr>startPort = start, endPort = stop, deviceToPort = fmempty, portToDevice = fmempty\<rparr>"
  have le: "start \<le> stop" and pm: "pm = preload rows ?pm0"
    using assms(1) by (auto simp: NewPortManager_def split: if_splits)
  have "filter (\<lambda>r. in_range ?pm0 (snd r)) rows = rows_in start stop rows"
    unfolding rows_in_def by (rule filter_cong) (auto simp: in_range_def)
  then have pm': "pm = preload (rows_in start stop rows) ?pm0"
    using preload_filter [of ?pm0 rows] pm by simp
  have "distinct (map fst (rows_in start stop rows))"
    using assms(2) unfolding rows_in_def by (rule distinct_map_filter)
  then have "ports_ok pm \<and> (\<forall>(d, p)\<in>set (rows_in start stop rows). fmlookup (deviceToPort pm) d = Some p)"
    using preload_ok [of ?pm0 "rows_in start stop rows"] assms(3)
    by (simp add: pm' ports_ok_def inverse_maps_def) (auto simp: rows_in_def in_range_def)
  then show ?thesis using le by (simp add: manager_ok_def GetPort_def pm)
qed

section \<open>Properties\<close>

text \<open>
  Public ports are leased properly. Let the manager start from a device table without repeated
  device and without a port of the range assigned twice. Then every device of the table with a port
  in the range has it from the start; and after any requests and releases no two devices have the
  same port, every port assigned is in the range, a device that was given a port is given the same
  one again until it is released, and a request fails only when every port of the range is taken.
\<close>

theorem ports_leased:
  assumes "NewPortManager start stop rows = Inr pm0" "distinct (map fst rows)"
    "distinct (map snd (rows_in start stop rows))" "pm = ports.lease_run evs pm0"
  shows "(\<forall>(d, p)\<in>set (rows_in start stop rows). GetPort d pm0 = Some p)
    \<and> (\<forall>d d' p. GetPort d pm = Some p \<longrightarrow> GetPort d' pm = Some p \<longrightarrow> d = d')
    \<and> (\<forall>d p. GetPort d pm = Some p \<longrightarrow> start \<le> p \<and> p \<le> stop)
    \<and> (\<forall>d p evs'. snd (GetOrAllocatePort d pm) = Inr p \<longrightarrow> GiveBack d \<notin> set evs' \<longrightarrow>
        snd (GetOrAllocatePort d (ports.lease_run evs' (fst (GetOrAllocatePort d pm)))) = Inr p)
    \<and> (\<forall>d e. snd (GetOrAllocatePort d pm) = Inl e \<longrightarrow>
        (\<forall>p. start \<le> p \<and> p \<le> stop \<longrightarrow> (\<exists>d'. GetPort d' pm = Some p)))"
proof -
  have ok0: "manager_ok pm0" and rows: "\<forall>(d, p)\<in>set (rows_in start stop rows). GetPort d pm0 = Some p"
    and range0: "port_range pm0 = {start..stop}"
    using NewPortManager_ok [OF assms(1-3)] by (simp_all add: port_range_def)
  have ok: "manager_ok pm" and range: "port_range pm = {start..stop}"
    using ports.lease_run_good [OF ok0, of evs] ports.lease_run_pool [of evs pm0] range0
    by (simp_all add: assms(4))
  have again: "snd (GetOrAllocatePort d (ports.lease_run evs' (fst (GetOrAllocatePort d pm)))) = Inr p"
    if "snd (GetOrAllocatePort d pm) = Inr p" "GiveBack d \<notin> set evs'" for d p evs'
    using ports.request_stable [OF ok _ that(2), of p] that(1) by (simp flip: request_port_snd)
  have full: "\<exists>d'. GetPort d' pm = Some p"
    if "snd (GetOrAllocatePort d pm) = Inl e" "start \<le> p" "p \<le> stop" for d e p
  proof -
    have "snd (request_port d pm) = None"
      using that(1) by (auto simp: request_port_def split: prod.splits sum.splits)
    then show ?thesis using ports.request_refused [OF ok] range that by auto
  qed
  show ?thesis
    using rows again full ports.distinct_leases [OF ok] ports.leases_in_pool [OF ok] range
    by (intro conjI) auto
qed

definition sample_rows :: "(string \<times> u16) list" where
  "sample_rows = [(''pc-a'', 50001), (''pc-b'', 0), (''pc-c'', 50000)]"

lemma ports_leased_witness:
  "\<exists>pm0. NewPortManager 50000 50002 sample_rows = Inr pm0 \<and> GetPort ''pc-c'' pm0 = Some 50000"
proof -
  obtain pm0 where pm0: "NewPortManager 50000 50002 sample_rows = Inr pm0"
    by (simp add: NewPortManager_def)
  have "distinct (map fst sample_rows)" "rows_in 50000 50002 sample_rows = [(''pc-a'', 50001), (''pc-c'', 50000)]"
    by (simp_all add: sample_rows_def rows_in_def)
  then show ?thesis using ports_leased [OF pm0 _ _ refl, of "[]"] pm0 by auto
qed

text \<open>
  Without that assumption the manager does start with two devices on one port, and releasing one
  of them frees the port the other still has.
\<close>

lemma preload_shares_port:
  "\<exists>pm0. NewPortManager 50000 50001 [(''pc-a'', 50000), (''pc-b'', 50000)] = Inr pm0
     \<and> GetPort ''pc-a'' pm0 = GetPort ''pc-b'' pm0
     \<and> snd (GetOrAllocatePort ''pc-c'' (ReleasePort ''pc-a'' pm0)) = Inr 50000
     \<and> GetPort ''pc-b'' (ReleasePort ''pc-a'' pm0) = Some 50000"
  by (simp add: NewPortManager_def GetPort_def ReleasePort_def GetOrAllocatePort_def free_port_def
      port_list_def)

end
