(* ===== verification/Acl.thy ===== *)
theory Acl
  imports Netip
begin

text \<open>
  The access control of public ports, \<open>internal/acl/acl.go\<close>: a default policy, a list of prefixes
  from the configuration and temporary grants for single addresses. Strings are ASCII: the letters
  and white space outside it that \<open>strings\<close> also knows play no role in a policy or an address.
\<close>

record acl_manager =
  defaultAllow :: bool
  staticPrefixes :: "Prefix list"
  tempIPs :: "(Addr, time) fmap"

definition lower_char :: "char \<Rightarrow> char" where
  "lower_char c = (let n = of_char c :: int in if 65 \<le> n \<and> n \<le> 90 then char_of (n + 32) else c)"

definition to_lower :: "string \<Rightarrow> string" where
  "to_lower s = map lower_char s"

definition is_space :: "char \<Rightarrow> bool" where
  "is_space c \<longleftrightarrow> (let n = of_char c :: int in n = 32 \<or> (9 \<le> n \<and> n \<le> 13))"

definition trim_space :: "string \<Rightarrow> string" where
  "trim_space s = rev (dropWhile is_space (rev (dropWhile is_space s)))"

text \<open>An address alone stands for itself.\<close>

definition with_length :: "string \<Rightarrow> string" where
  "with_length entry =
     (if CHR ''/'' \<notin> set entry then
        (if CHR '':'' \<in> set entry then entry @ ''/128'' else entry @ ''/32'')
      else entry)"

fun parse_entries :: "string list \<Rightarrow> Prefix list option" where
  "parse_entries [] = Some []"
| "parse_entries (raw # raws) =
     (let entry = trim_space raw in
      if entry = [] then parse_entries raws
      else case ParsePrefix (with_length entry) of
        None \<Rightarrow> None
      | Some prefix \<Rightarrow> map_option ((#) prefix) (parse_entries raws))"

definition NewAclManager :: "string \<Rightarrow> string list \<Rightarrow> acl_manager option" where
  "NewAclManager defaultPolicy allowList =
     map_option (\<lambda>prefixes. \<lparr>defaultAllow = (to_lower defaultPolicy = ''allow''),
                             staticPrefixes = prefixes, tempIPs = fmempty\<rparr>)
       (parse_entries allowList)"

definition AllowTemporary :: "time \<Rightarrow> Addr \<Rightarrow> time \<Rightarrow> acl_manager \<Rightarrow> acl_manager" where
  "AllowTemporary now ip ttl m = m\<lparr>tempIPs := fmupd ip (now + ttl) (tempIPs m)\<rparr>"

definition IsAllowedAddr :: "time \<Rightarrow> Addr \<Rightarrow> acl_manager \<Rightarrow> bool" where
  "IsAllowedAddr now a m =
     (let a = Unmap a in
      if \<not> IsValid a then defaultAllow m
      else if (case fmlookup (tempIPs m) a of Some expiresAt \<Rightarrow> now < expiresAt | None \<Rightarrow> False) then True
      else if (\<exists>prefix\<in>set (staticPrefixes m). Contains prefix a) then True
      else defaultAllow m)"

text \<open>The remote address of a connection: the bytes of a TCP or UDP address, or some text.\<close>

datatype net_addr = TCPAddr bytes | UDPAddr bytes | OtherAddr string

definition addr_of :: "net_addr \<Rightarrow> Addr" where
  "addr_of remote = (case remote of
     TCPAddr ip \<Rightarrow> (case AddrFromSlice ip of Some a \<Rightarrow> Unmap a | None \<Rightarrow> NoAddr)
   | UDPAddr ip \<Rightarrow> (case AddrFromSlice ip of Some a \<Rightarrow> Unmap a | None \<Rightarrow> NoAddr)
   | OtherAddr s \<Rightarrow> (case SplitHostPort s of
       Some (host, port) \<Rightarrow> (case ParseAddr host of Some a \<Rightarrow> Unmap a | None \<Rightarrow> NoAddr)
     | None \<Rightarrow> NoAddr))"

definition IsAllowed :: "time \<Rightarrow> net_addr \<Rightarrow> acl_manager \<Rightarrow> bool" where
  "IsAllowed now remote m = IsAllowedAddr now (addr_of remote) m"

section \<open>What is let in\<close>

text \<open>The prefix that a line of the allow list stands for; blank lines stand for none.\<close>

definition entry_prefix :: "string \<Rightarrow> Prefix option" where
  "entry_prefix raw = (if trim_space raw = [] then None else ParsePrefix (with_length (trim_space raw)))"

lemma parse_entries_iff:
  "parse_entries raws \<noteq> None \<longleftrightarrow> (\<forall>raw\<in>set raws. trim_space raw \<noteq> [] \<longrightarrow> entry_prefix raw \<noteq> None)"
  by (induction raws) (auto simp: Let_def entry_prefix_def split: option.splits)

lemma parse_entries_set:
  "parse_entries raws = Some prefixes \<Longrightarrow> p \<in> set prefixes \<longleftrightarrow> (\<exists>raw\<in>set raws. entry_prefix raw = Some p)"
  by (induction raws arbitrary: prefixes)
    (auto simp: Let_def entry_prefix_def split: option.splits if_splits)

lemma xor_zero_iff: "(x :: 'a::len word) XOR y = 0 \<longleftrightarrow> x = y"
  by (auto simp: bit_eq_iff bit_simps)

text \<open>Membership in an IPv4 prefix is equality of the leading bits.\<close>

lemma uint_drop_bit: "uint (drop_bit k x) = uint x div 2 ^ k"
proof -
  have "uint (drop_bit k x) = drop_bit k (uint x)"
    by (rule bit_eqI) (auto simp: bit_simps dest: bit_imp_le_length)
  then show ?thesis by (simp only: drop_bit_eq_div)
qed

lemma prefix_bits:
  fixes x n :: "'a::len word"
  shows "drop_bit k (x XOR n) = 0 \<longleftrightarrow> uint x div 2 ^ k = uint n div 2 ^ k"
proof -
  have "drop_bit k (x XOR n) = 0 \<longleftrightarrow> drop_bit k x = drop_bit k n"
    by (simp add: xor_zero_iff)
  also have "\<dots> \<longleftrightarrow> uint (drop_bit k x) = uint (drop_bit k n)"
    by (simp only: word_uint_eq_iff)
  finally show ?thesis
    by (simp only: uint_drop_bit)
qed

lemma Contains_v4:
  "Contains \<lparr>p_addr = V4 n, p_bits = b\<rparr> (V4 x) \<longleftrightarrow>
     b \<le> 32 \<and> uint x div 2 ^ (32 - b) = uint n div 2 ^ (32 - b)"
  by (simp only: Contains.simps Prefix.simps prod.case Addr.case prefix_bits)

lemma Contains_v6:
  "Contains \<lparr>p_addr = V6 n nz, p_bits = b\<rparr> (V6 x z) \<longleftrightarrow>
     b \<le> 128 \<and> z = [] \<and> uint x div 2 ^ (128 - b) = uint n div 2 ^ (128 - b)"
  by (simp only: Contains.simps Prefix.simps prod.case Addr.case prefix_bits)

lemma Contains_other [simp]:
  "\<not> Contains \<lparr>p_addr = V4 n, p_bits = b\<rparr> (V6 y z)" "\<not> Contains \<lparr>p_addr = V6 m nz, p_bits = b\<rparr> (V4 x)"
  by (simp_all add: Contains.simps)

lemma IsAllowedAddr_iff:
  "IsAllowedAddr now a m \<longleftrightarrow> defaultAllow m \<or> IsValid a \<and>
     ((\<exists>t. fmlookup (tempIPs m) (Unmap a) = Some t \<and> now < t)
      \<or> (\<exists>p\<in>set (staticPrefixes m). Contains p (Unmap a)))"
  by (auto simp: IsAllowedAddr_def Let_def split: option.splits)

text \<open>
  The allow list means what it says. The manager is built exactly when every line that is not
  blank parses as a prefix or an address. Then an address is let in if and only if the default
  policy is "allow" (in any case), or it is valid and, with an IPv4 address mapped into IPv6 taken as
  the IPv4 address, lies in the prefix of some line; the order of the lines does not matter.
\<close>

theorem acl_static:
  "(NewAclManager policy lines = None \<longleftrightarrow>
      (\<exists>raw\<in>set lines. trim_space raw \<noteq> [] \<and> entry_prefix raw = None))
   \<and> (\<forall>m. NewAclManager policy lines = Some m \<longrightarrow> (\<forall>now a. IsAllowedAddr now a m \<longleftrightarrow>
        to_lower policy = ''allow'' \<or>
        IsValid a \<and> (\<exists>raw\<in>set lines. \<exists>p. entry_prefix raw = Some p \<and> Contains p (Unmap a))))"
proof (intro conjI allI impI)
  have "parse_entries lines = None \<longleftrightarrow> (\<exists>raw\<in>set lines. trim_space raw \<noteq> [] \<and> entry_prefix raw = None)"
    using parse_entries_iff [of lines] by (auto simp del: not_None_eq)
  then show "NewAclManager policy lines = None \<longleftrightarrow>
      (\<exists>raw\<in>set lines. trim_space raw \<noteq> [] \<and> entry_prefix raw = None)"
    by (simp add: NewAclManager_def)
  fix m now a
  assume "NewAclManager policy lines = Some m"
  then obtain ps where ps: "parse_entries lines = Some ps"
    and m: "m = \<lparr>defaultAllow = (to_lower policy = ''allow''), staticPrefixes = ps, tempIPs = fmempty\<rparr>"
    by (auto simp: NewAclManager_def)
  show "IsAllowedAddr now a m \<longleftrightarrow> to_lower policy = ''allow'' \<or>
        IsValid a \<and> (\<exists>raw\<in>set lines. \<exists>p. entry_prefix raw = Some p \<and> Contains p (Unmap a))"
    unfolding IsAllowedAddr_iff m using parse_entries_set [OF ps] by auto blast+
qed

definition sample_acl :: "string list" where
  "sample_acl = ['' 10.1.0.0/16 '', '''', ''2001:db8::7'']"

lemma sample_acl_prefixes:
  "map entry_prefix sample_acl = [Some \<lparr>p_addr = V4 0x0a010000, p_bits = 16\<rparr>, None,
     Some \<lparr>p_addr = V6 0x20010db8000000000000000000000007 [], p_bits = 128\<rparr>]"
  by code_simp

lemma acl_static_witness:
  "\<exists>m. NewAclManager ''Deny'' sample_acl = Some m
     \<and> IsAllowedAddr 0 (V6 0xffff0a010203 []) m \<and> \<not> IsAllowedAddr 0 (V4 0x0a020000) m"
proof -
  have e: "entry_prefix '' 10.1.0.0/16 '' = Some \<lparr>p_addr = V4 0x0a010000, p_bits = 16\<rparr>"
    "entry_prefix '''' = None"
    "entry_prefix ''2001:db8::7'' = Some \<lparr>p_addr = V6 0x20010db8000000000000000000000007 [], p_bits = 128\<rparr>"
    using sample_acl_prefixes by (simp_all add: sample_acl_def)
  have "trim_space [] = []" by (simp add: trim_space_def)
  then have "NewAclManager ''Deny'' sample_acl \<noteq> None"
    using acl_static [of "''Deny''" sample_acl] e by (simp add: sample_acl_def)
  then obtain m where m: "NewAclManager ''Deny'' sample_acl = Some m" by blast
  have d: "to_lower ''Deny'' \<noteq> ''allow''" by code_simp
  have "IsAllowedAddr now a m \<longleftrightarrow> IsValid a \<and> (\<exists>raw\<in>set sample_acl. \<exists>p. entry_prefix raw = Some p \<and> Contains p (Unmap a))"
    for now a
    using acl_static [of "''Deny''" sample_acl] m d by blast
  then have "IsAllowedAddr 0 (V6 0xffff0a010203 []) m \<and> \<not> IsAllowedAddr 0 (V4 0x0a020000) m"
    using e by (simp add: sample_acl_def IsValid_def Contains_v4)
  then show ?thesis using m by blast
qed

text \<open>
  A temporary grant. After a grant for an address, until its time is over or it is replaced, an
  address is let in if and only if it is the granted one (an IPv4 address mapped into IPv6 taken as
  the IPv4 address) and the time is not over, or it would be let in without any grant for it; other
  addresses are not affected. A grant for a mapped address is never used.
\<close>

theorem acl_temporary:
  "IsAllowedAddr now' a (AllowTemporary now ip ttl m) \<longleftrightarrow>
     (if IsValid a \<and> Unmap a = ip
      then now' < now + ttl \<or> IsAllowedAddr now' a (m\<lparr>tempIPs := fmdrop ip (tempIPs m)\<rparr>)
      else IsAllowedAddr now' a m)"
  by (auto simp: IsAllowedAddr_iff AllowTemporary_def)

end
