(* ===== verification/Control_Message.thy ===== *)
theory Control_Message
  imports Prelude
begin

text \<open>
  The messages of the control stream, \<open>internal/protocol/control.go\<close>, as values. The message types
  are a datatype with one constructor per constant of the code and one for any other text.
\<close>

datatype msg_type =
    MsgTypeHello | MsgTypeAuth | MsgTypeAuthOK | MsgTypeRegister | MsgTypeRegisterAck
  | MsgTypePing | MsgTypePong | MsgTypePortAssign | MsgTypePortRevoke | MsgTypeAgentStatus
  | MsgTypeConfigUpdate | MsgTypeUDPClose | MsgTypeError | MsgTypeDrain
  | MsgTypeConnectRequest | MsgTypeConnectNotify | MsgTypeConnectResponse
  | MsgTypeCandidateExchange | MsgTypePunchStart | MsgTypePunchResult | MsgTypeRelayAllocate
  | MsgTypePathChange | MsgTypeSessionClose | MsgTypeOther string

record CandidateInfo =
  c_Protocol :: string
  c_Type :: string
  c_Address :: string
  c_Priority :: u32

record ControlMessage =
  m_Type :: msg_type
  m_DeviceID :: string
  m_TargetDeviceID :: string
  m_Secret :: string
  m_SecretHash :: string
  m_EnrollmentToken :: string
  m_Hostname :: string
  m_AgentVersion :: string
  m_MinProtocolVersion :: u8
  m_MaxProtocolVersion :: u8
  m_PublicHost :: string
  m_PublicPort :: u16
  m_TargetPort :: u16
  m_SessionID :: u32
  m_SessionToken :: string
  m_Timestamp :: int
  m_RDPOnline :: bool
  m_Code :: int
  m_Message :: string
  m_Candidates :: "CandidateInfo list"
  m_PathType :: string
  m_PunchRole :: string

text \<open>The message in which only the type is set.\<close>

definition message :: "msg_type \<Rightarrow> ControlMessage" where
  "message t = \<lparr>m_Type = t, m_DeviceID = [], m_TargetDeviceID = [], m_Secret = [], m_SecretHash = [],
     m_EnrollmentToken = [], m_Hostname = [], m_AgentVersion = [], m_MinProtocolVersion = 0,
     m_MaxProtocolVersion = 0, m_PublicHost = [], m_PublicPort = 0, m_TargetPort = 0, m_SessionID = 0,
     m_SessionToken = [], m_Timestamp = 0, m_RDPOnline = False, m_Code = 0, m_Message = [],
     m_Candidates = [], m_PathType = [], m_PunchRole = []\<rparr>"

definition error_message :: "int \<Rightarrow> string \<Rightarrow> ControlMessage" where
  "error_message code text = (message MsgTypeError)\<lparr>m_Code := code, m_Message := text\<rparr>"

lemma error_message_simps [simp]:
  "m_Type (error_message code text) = MsgTypeError" "m_Code (error_message code text) = code"
  "m_Message (error_message code text) = text" "m_SessionID (error_message code text) = 0"
  "m_SessionToken (error_message code text) = []" "m_Candidates (error_message code text) = []"
  by (simp_all add: error_message_def message_def)

lemma message_simps [simp]: "m_Type (message t) = t" "m_SessionID (message t) = 0"
  "m_Secret (message t) = []" "m_SessionToken (message t) = []" "m_DeviceID (message t) = []"
  by (simp_all add: message_def)

text \<open>\<open>FormatCandidates\<close>; the text for no candidates is a Chinese character, given by its UTF-8 bytes.\<close>

fun join_with :: "string \<Rightarrow> string list \<Rightarrow> string" where
  "join_with sep [] = []"
| "join_with sep [s] = s"
| "join_with sep (s # ss) = s @ sep @ join_with sep ss"

definition or_unknown :: "string \<Rightarrow> string" where
  "or_unknown s = (if s = [] then ''?'' else s)"

definition FormatCandidates :: "CandidateInfo list \<Rightarrow> string" where
  "FormatCandidates cands =
     (if cands = [] then map char_of [0xE6 :: nat, 0x97, 0xA0]
      else join_with '', '' (map (\<lambda>c. or_unknown (c_Type c) @ ''/'' @ or_unknown (c_Protocol c)
             @ '' '' @ c_Address c) cands))"

end
