(* ===== verification/Path_Manager.thy ===== *)
theory Path_Manager
  imports Netip Control_Message P2p_Data Punch_Packet Reassembly_Correct Replay_Window
begin

text \<open>
  The path manager of a controller, \<open>internal/path/manager.go\<close>: it selects the path of each
  transport protocol, sends UDP packets over the selected one with a fall-back to the relay, and
  receives them. Sockets and transports are the environment: a write is a function on its state
  that may fail, and what arrives is an argument.
\<close>

datatype PathType = PathUnknown | PathDirectLAN | PathDirectUDP | PathDirectTCP | PathRelay | PathDisabled

fun path_string :: "PathType \<Rightarrow> string" where
  "path_string PathDirectLAN = ''LAN Direct''"
| "path_string PathDirectUDP = ''UDP P2P''"
| "path_string PathDirectTCP = ''TCP P2P''"
| "path_string PathRelay = ''Relay (QUIC/TLS)''"
| "path_string PathDisabled = ''Disabled''"
| "path_string PathUnknown = ''Unknown''"

text \<open>A punched path: its number, whether it has a socket, and the peer. \<open>closedPunch\<close> lists those closed.\<close>

record punch_result =
  pr_id :: nat
  pr_conn :: bool
  pr_remote :: AddrPort

text \<open>
  The relay transport is \<open>None\<close> or known by whether it supports datagrams. A wait channel is a
  number; \<open>pathChanged\<close> is the one that the next change closes, \<open>woken\<close> holds the closed ones.
\<close>

record Manager =
  tcpPath :: PathType
  udpPath :: PathType
  directUDPPunch :: "punch_result option"
  closedPunch :: "nat list"
  tcpCandidates :: "CandidateInfo list"
  candidateUpdates :: "CandidateInfo list list"
  relayTransport :: "bool option"
  relayPublicTCP :: string
  relayPublicUDP :: string
  fragmenter :: Fragmenter
  reassembler :: Reassembler
  replayWindow :: ReplayWindow
  nextPacketID :: u32
  pm_sessionID :: u32
  sessionToken :: bytes
  p2pCodec :: "P2PCodec option"
  pathChanged :: "nat option"
  nextWaiter :: nat
  woken :: "nat set"
  pm_closed :: bool

definition SupportsDatagrams :: "bool option \<Rightarrow> bool" where
  "SupportsDatagrams tr = (case tr of None \<Rightarrow> False | Some capable \<Rightarrow> capable)"

definition NewPathManager :: "u32 \<Rightarrow> bytes \<Rightarrow> bool option \<Rightarrow> Manager" where
  "NewPathManager sid token relayTr = \<lparr>tcpPath = PathUnknown, udpPath = PathUnknown, directUDPPunch = None,
     closedPunch = [], tcpCandidates = [], candidateUpdates = [], relayTransport = relayTr,
     relayPublicTCP = [], relayPublicUDP = [], fragmenter = NewFragmenter (int DefaultMaxUDPPayload),
     reassembler = NewReassembler (100 * millisecond), replayWindow = empty_window, nextPacketID = 0,
     pm_sessionID = sid, sessionToken = token,
     p2pCodec = (case NewP2PCodec sid token of Inr codec \<Rightarrow> Some codec | Inl _ \<Rightarrow> None),
     pathChanged = None, nextWaiter = 0, woken = {}, pm_closed = False\<rparr>"

section \<open>Waiting for a path\<close>

definition pathWaiter :: "Manager \<Rightarrow> Manager \<times> nat" where
  "pathWaiter m = (case pathChanged m of
     Some w \<Rightarrow> (m, w)
   | None \<Rightarrow> (m\<lparr>pathChanged := Some (nextWaiter m), nextWaiter := nextWaiter m + 1\<rparr>, nextWaiter m))"

definition notifyPathChanged :: "Manager \<Rightarrow> Manager" where
  "notifyPathChanged m = (case pathChanged m of
     Some w \<Rightarrow> m\<lparr>woken := insert w (woken m), pathChanged := None\<rparr> | None \<Rightarrow> m)"

section \<open>Selecting paths\<close>

definition SetRelayEndpoints :: "string \<Rightarrow> string \<Rightarrow> Manager \<Rightarrow> Manager" where
  "SetRelayEndpoints t u m = m\<lparr>relayPublicTCP := t, relayPublicUDP := u\<rparr>"

definition RelayEndpoints :: "Manager \<Rightarrow> string \<times> string" where
  "RelayEndpoints m = (relayPublicTCP m, relayPublicUDP m)"

definition close_punch :: "punch_result \<Rightarrow> Manager \<Rightarrow> Manager" where
  "close_punch r m = m\<lparr>closedPunch := pr_id r # closedPunch m\<rparr>"

definition SetDirectUDP :: "punch_result option \<Rightarrow> bool \<Rightarrow> Manager \<Rightarrow> Manager" where
  "SetDirectUDP res isLAN m =
     (if pm_closed m \<or> res = None then
        (case res of Some r \<Rightarrow> close_punch r m | None \<Rightarrow> m)
      else notifyPathChanged (m\<lparr>directUDPPunch := res,
             udpPath := (if isLAN then PathDirectLAN else PathDirectUDP)\<rparr>))"

definition SetDirectTCP :: "bool \<Rightarrow> Manager \<Rightarrow> Manager" where
  "SetDirectTCP isLAN m =
     (if pm_closed m then m
      else notifyPathChanged (m\<lparr>tcpPath := (if isLAN then PathDirectLAN else PathDirectTCP)\<rparr>))"

definition direct_udp :: "PathType \<Rightarrow> bool" where
  "direct_udp p \<longleftrightarrow> p = PathDirectLAN \<or> p = PathDirectUDP"

definition relay_udp_path :: "Manager \<Rightarrow> PathType" where
  "relay_udp_path m = (if SupportsDatagrams (relayTransport m) then PathRelay else PathDisabled)"

definition FallbackUDPFromDirect :: "Manager \<Rightarrow> Manager" where
  "FallbackUDPFromDirect m =
     (if \<not> direct_udp (udpPath m) then m
      else let m = (case directUDPPunch m of
                      Some r \<Rightarrow> (close_punch r m)\<lparr>directUDPPunch := None\<rparr> | None \<Rightarrow> m)
           in notifyPathChanged (m\<lparr>udpPath := relay_udp_path m\<rparr>))"

definition candidate_key :: "CandidateInfo \<Rightarrow> string" where
  "candidate_key c = c_Protocol c @ ''|'' @ c_Address c"

fun add_new :: "CandidateInfo list \<Rightarrow> string set \<Rightarrow> CandidateInfo list \<Rightarrow> CandidateInfo list" where
  "add_new [] seen acc = acc"
| "add_new (c # cs) seen acc =
     (if c_Protocol c \<noteq> ''tcp'' then add_new cs seen acc
      else if candidate_key c \<in> seen then add_new cs seen acc
      else add_new cs (insert (candidate_key c) seen) (acc @ [c]))"

text \<open>The channel of updates holds eight; a send to a full one is skipped.\<close>

definition AddCandidates :: "CandidateInfo list \<Rightarrow> Manager \<Rightarrow> Manager" where
  "AddCandidates cs m =
     (let m = m\<lparr>tcpCandidates := add_new cs (candidate_key ` set (tcpCandidates m)) (tcpCandidates m)\<rparr>
      in if length (candidateUpdates m) < 8 then m\<lparr>candidateUpdates := candidateUpdates m @ [cs]\<rparr> else m)"

definition SetQUICRelay :: "Manager \<Rightarrow> Manager" where
  "SetQUICRelay m =
     (let m = (if tcpPath m = PathUnknown then m\<lparr>tcpPath := PathRelay\<rparr> else m);
          m = (if udpPath m = PathUnknown then m\<lparr>udpPath := relay_udp_path m\<rparr> else m)
      in notifyPathChanged m)"

definition path_Close :: "Manager \<Rightarrow> Manager" where
  "path_Close m =
     (if pm_closed m then m
      else let m = m\<lparr>pm_closed := True\<rparr> in
        case directUDPPunch m of Some r \<Rightarrow> close_punch r m | None \<Rightarrow> m)"

definition sameAddrPort :: "AddrPort \<Rightarrow> AddrPort \<Rightarrow> bool" where
  "sameAddrPort a b \<longleftrightarrow> ap_port a = ap_port b \<and> Unmap (ap_addr a) = Unmap (ap_addr b)"

definition isCandidateLAN :: "AddrPort \<Rightarrow> CandidateInfo list \<Rightarrow> bool" where
  "isCandidateLAN addr cs \<longleftrightarrow> (\<exists>c\<in>set cs. c_Type c = ''lan'' \<and>
     (case ParseAddrPort (c_Address c) of Some parsed \<Rightarrow> sameAddrPort addr parsed | None \<Rightarrow> False))"

definition tcpCandidatesAreLAN :: "CandidateInfo list \<Rightarrow> bool" where
  "tcpCandidatesAreLAN cs \<longleftrightarrow> (\<exists>c\<in>set cs. c_Protocol c = ''tcp'' \<and> c_Type c = ''lan'')"

section \<open>Sending\<close>

text \<open>
  The environment's state \<open>'s\<close>; \<open>write_direct\<close> and \<open>send_relay\<close> say whether they failed. The pooled
  buffers have arbitrary contents.
\<close>

record 's network =
  write_direct :: "punch_result \<Rightarrow> 's \<Rightarrow> bytes \<Rightarrow> 's \<times> unit option"
  send_relay :: "'s \<Rightarrow> bytes \<Rightarrow> 's \<times> unit option"
  frag_buf :: bytes
  send_buf :: bytes

datatype send_error =
    UDPPathDisabled | CodecUnavailable | RelayUnavailable | NoValidPath PathType
  | RelayError "unit fragment_error"

lemma fallback_not_direct: "\<not> direct_udp (udpPath (FallbackUDPFromDirect m))"
  by (auto simp: FallbackUDPFromDirect_def notifyPathChanged_def relay_udp_path_def direct_udp_def
      close_punch_def Let_def split: option.splits)

function SendUDP :: "'s network \<Rightarrow> bytes \<Rightarrow> Manager \<Rightarrow> 's \<Rightarrow> Manager \<times> 's \<times> send_error option" where
  "SendUDP net payload m s =
     (if udpPath m = PathDisabled then (m, s, Some UDPPathDisabled)
      else let path = udpPath m; packetID = nextPacketID m + 1; m = m\<lparr>nextPacketID := packetID\<rparr> in
      if direct_udp path then
        (case directUDPPunch m of
           None \<Rightarrow> SendUDP net payload (FallbackUDPFromDirect m) s
         | Some r \<Rightarrow>
             if \<not> pr_conn r then SendUDP net payload (FallbackUDPFromDirect m) s
             else (case p2pCodec m of
               None \<Rightarrow> (m, s, Some CodecUnavailable)
             | Some codec \<Rightarrow>
                 (case Fragment (fragmenter m) (frag_buf net) (pm_sessionID m) packetID payload
                         (\<lambda>s datagram. write_direct net r s (p2p_encode codec (send_buf net) datagram)) s of
                    (s, None) \<Rightarrow> (m, s, None)
                  | (s, Some _) \<Rightarrow> SendUDP net payload (FallbackUDPFromDirect m) s)))
      else if path = PathRelay then
        (if relayTransport m \<noteq> None then
           (case Fragment (fragmenter m) (frag_buf net) (pm_sessionID m) packetID payload (send_relay net) s of
              (s, e) \<Rightarrow> (m, s, map_option RelayError e))
         else (m, s, Some RelayUnavailable))
      else (m, s, Some (NoValidPath path)))"
  by pat_completeness auto
termination
  by (relation "measure (\<lambda>(net, payload, m, s). if direct_udp (udpPath m) then 1 else 0)")
    (use fallback_not_direct in auto)

declare SendUDP.simps [simp del]

section \<open>Receiving\<close>

text \<open>
  What \<open>ReceiveUDP\<close> makes of one packet read from the punched socket, and of one datagram from the
  relay. The reassembler appends to a buffer that is never nil.
\<close>

definition recv_direct ::
  "time \<Rightarrow> punch_result \<Rightarrow> P2PCodec \<Rightarrow> AddrPort \<Rightarrow> bytes \<Rightarrow> Manager \<Rightarrow> Manager \<times> bytes option" where
  "recv_direct now r codec remote packet m =
     (if \<not> sameAddrPort remote (pr_remote r) then (m, None)
      else if length packet \<ge> PunchPacketSize \<and> take 4 packet = put_be32 PunchMagic then (m, None)
      else case p2p_decode codec packet of
        Inl _ \<Rightarrow> (m, None)
      | Inr datagram \<Rightarrow>
          (case DecodeUDP datagram of
             Inl _ \<Rightarrow> (m, None)
           | Inr (hdr, fragPayload) \<Rightarrow>
               if seenLocked (replayWindow m) (PacketID hdr) then (m, None)
               else (case FeedAppend now False hdr fragPayload (reassembler m) of
                 (ra, Inr (Some assembled)) \<Rightarrow>
                   (case MarkCompleted (replayWindow m) (PacketID hdr) of (w, fresh) \<Rightarrow>
                      (m\<lparr>reassembler := ra, replayWindow := w\<rparr>, if fresh then Some assembled else None))
               | (ra, _) \<Rightarrow> (m\<lparr>reassembler := ra\<rparr>, None))))"

definition recv_relay :: "time \<Rightarrow> bytes \<Rightarrow> Manager \<Rightarrow> Manager \<times> bytes option" where
  "recv_relay now datagram m =
     (case DecodeUDP datagram of
        Inl _ \<Rightarrow> (m, None)
      | Inr (hdr, fragPayload) \<Rightarrow>
          (case FeedAppend now False hdr fragPayload (reassembler m) of
             (ra, Inr res) \<Rightarrow> (m\<lparr>reassembler := ra\<rparr>, res)
           | (ra, Inl _) \<Rightarrow> (m\<lparr>reassembler := ra\<rparr>, None)))"

text \<open>
  The control flow of \<open>ReceiveUDP\<close> and \<open>awaitPathChange\<close>: where the call is between two steps that
  other goroutines can observe, and what it waits for there.
\<close>

datatype recv_result = Got bytes | CtxErr | ManagerErr | RelayRecvErr

datatype recv_pc =
    AtTop | ReadDirect punch_result | ReadRelay | Register | Recheck nat | Await nat
  | ParkedDisabled | Finished recv_result

datatype recv_input =
    Proceed | ReadFailed | Arrived time AddrPort bytes | RelayArrived time bytes | RelayFailed
  | CtxDone | ManagerDone

definition recv_choose :: "Manager \<Rightarrow> Manager \<times> recv_pc" where
  "recv_choose m =
     (if direct_udp (udpPath m) then
        (case directUDPPunch m of
           None \<Rightarrow> (FallbackUDPFromDirect m, AtTop)
         | Some r \<Rightarrow> if \<not> pr_conn r \<or> p2pCodec m = None then (FallbackUDPFromDirect m, AtTop)
                     else (m, ReadDirect r))
      else if udpPath m = PathRelay then (m, if relayTransport m = None then Register else ReadRelay)
      else if udpPath m = PathDisabled then (m, ParkedDisabled)
      else (m, Register))"

definition returned :: "bytes option \<Rightarrow> recv_pc" where
  "returned res = (case res of Some payload \<Rightarrow> Finished (Got payload) | None \<Rightarrow> AtTop)"

fun recv_step :: "recv_input \<Rightarrow> Manager \<Rightarrow> recv_pc \<Rightarrow> Manager \<times> recv_pc" where
  "recv_step CtxDone m pc = (m, case pc of
     AtTop \<Rightarrow> Finished CtxErr | ReadRelay \<Rightarrow> Finished RelayRecvErr | Await w \<Rightarrow> Finished CtxErr
   | ParkedDisabled \<Rightarrow> Finished CtxErr | _ \<Rightarrow> pc)"
| "recv_step ManagerDone m pc = (m, case pc of
     AtTop \<Rightarrow> Finished ManagerErr | Await w \<Rightarrow> Finished ManagerErr | _ \<Rightarrow> pc)"
| "recv_step Proceed m AtTop = recv_choose m"
| "recv_step Proceed m Register = (case pathWaiter m of (m, w) \<Rightarrow> (m, Recheck w))"
| "recv_step Proceed m (Recheck w) =
     (m, if udpPath m \<noteq> PathUnknown \<and> relayTransport m \<noteq> None then AtTop else Await w)"
| "recv_step Proceed m (Await w) = (m, if w \<in> woken m then AtTop else Await w)"
| "recv_step ReadFailed m (ReadDirect r) = (m, AtTop)"
| "recv_step (Arrived now remote packet) m (ReadDirect r) =
     (case p2pCodec m of
        Some codec \<Rightarrow> (case recv_direct now r codec remote packet m of (m, res) \<Rightarrow> (m, returned res))
      | None \<Rightarrow> (m, AtTop))"
| "recv_step (RelayArrived now datagram) m ReadRelay =
     (case recv_relay now datagram m of (m, res) \<Rightarrow> (m, returned res))"
| "recv_step RelayFailed m ReadRelay = (m, Finished RelayRecvErr)"
| "recv_step _ m pc = (m, pc)"

section \<open>Other goroutines\<close>

datatype path_op =
    OpDirectUDP "punch_result option" bool | OpDirectTCP bool | OpFallback | OpRelay
  | OpCandidates "CandidateInfo list" | OpEndpoints string string | OpClose

fun do_path_op :: "path_op \<Rightarrow> Manager \<Rightarrow> Manager" where
  "do_path_op (OpDirectUDP res lan) m = SetDirectUDP res lan m"
| "do_path_op (OpDirectTCP lan) m = SetDirectTCP lan m"
| "do_path_op OpFallback m = FallbackUDPFromDirect m"
| "do_path_op OpRelay m = SetQUICRelay m"
| "do_path_op (OpCandidates cs) m = AddCandidates cs m"
| "do_path_op (OpEndpoints t u) m = SetRelayEndpoints t u m"
| "do_path_op OpClose m = path_Close m"

text \<open>A call of \<open>ReceiveUDP\<close> interleaved with the operations of other goroutines.\<close>

inductive receiving :: "recv_input set \<Rightarrow> Manager \<Rightarrow> recv_pc \<Rightarrow> Manager \<Rightarrow> recv_pc \<Rightarrow> bool"
  for allowed :: "recv_input set" and m :: Manager and pc :: recv_pc where
  start: "receiving allowed m pc m pc"
| own: "receiving allowed m pc m1 pc1 \<Longrightarrow> i \<in> allowed \<Longrightarrow> recv_step i m1 pc1 = (m2, pc2) \<Longrightarrow>
    receiving allowed m pc m2 pc2"
| other: "receiving allowed m pc m1 pc1 \<Longrightarrow> receiving allowed m pc (do_path_op a m1) pc1"

section \<open>What operations leave alone\<close>

lemma notify_simps [simp]:
  "udpPath (notifyPathChanged m) = udpPath m" "tcpPath (notifyPathChanged m) = tcpPath m"
  "relayTransport (notifyPathChanged m) = relayTransport m" "pm_closed (notifyPathChanged m) = pm_closed m"
  "directUDPPunch (notifyPathChanged m) = directUDPPunch m" "closedPunch (notifyPathChanged m) = closedPunch m"
  "reassembler (notifyPathChanged m) = reassembler m" "replayWindow (notifyPathChanged m) = replayWindow m"
  "p2pCodec (notifyPathChanged m) = p2pCodec m" "fragmenter (notifyPathChanged m) = fragmenter m"
  "nextPacketID (notifyPathChanged m) = nextPacketID m" "pm_sessionID (notifyPathChanged m) = pm_sessionID m"
  by (simp_all add: notifyPathChanged_def split: option.splits)

lemma close_punch_simps [simp]:
  "udpPath (close_punch r m) = udpPath m" "tcpPath (close_punch r m) = tcpPath m"
  "relayTransport (close_punch r m) = relayTransport m" "pm_closed (close_punch r m) = pm_closed m"
  "directUDPPunch (close_punch r m) = directUDPPunch m" "closedPunch (close_punch r m) = pr_id r # closedPunch m"
  "reassembler (close_punch r m) = reassembler m" "replayWindow (close_punch r m) = replayWindow m"
  "p2pCodec (close_punch r m) = p2pCodec m" "fragmenter (close_punch r m) = fragmenter m"
  "nextPacketID (close_punch r m) = nextPacketID m" "pm_sessionID (close_punch r m) = pm_sessionID m"
  "pathChanged (close_punch r m) = pathChanged m" "woken (close_punch r m) = woken m"
  by (simp_all add: close_punch_def)

lemma fallback_simps [simp]:
  "tcpPath (FallbackUDPFromDirect m) = tcpPath m" "relayTransport (FallbackUDPFromDirect m) = relayTransport m"
  "pm_closed (FallbackUDPFromDirect m) = pm_closed m" "reassembler (FallbackUDPFromDirect m) = reassembler m"
  "replayWindow (FallbackUDPFromDirect m) = replayWindow m" "p2pCodec (FallbackUDPFromDirect m) = p2pCodec m"
  "fragmenter (FallbackUDPFromDirect m) = fragmenter m"
  "nextPacketID (FallbackUDPFromDirect m) = nextPacketID m"
  "pm_sessionID (FallbackUDPFromDirect m) = pm_sessionID m"
  by (simp_all add: FallbackUDPFromDirect_def Let_def split: option.splits)

lemma fallback_path:
  "udpPath (FallbackUDPFromDirect m) = (if direct_udp (udpPath m) then relay_udp_path m else udpPath m)"
  by (simp add: FallbackUDPFromDirect_def Let_def relay_udp_path_def split: option.splits)

lemma recv_direct_simps:
  assumes "recv_direct now r codec remote packet m = (m', res)"
  shows "\<exists>ra w. m' = m\<lparr>reassembler := ra, replayWindow := w\<rparr>"
proof -
  have "m' = m\<lparr>reassembler := reassembler m', replayWindow := replayWindow m'\<rparr>"
    using assms by (auto simp: recv_direct_def split: if_splits sum.splits prod.splits option.splits)
  then show ?thesis by blast
qed

lemma recv_relay_simps:
  assumes "recv_relay now datagram m = (m', res)"
  shows "\<exists>ra w. m' = m\<lparr>reassembler := ra, replayWindow := w\<rparr>"
proof -
  have "m' = m\<lparr>reassembler := reassembler m', replayWindow := replayWindow m'\<rparr>"
    using assms by (auto simp: recv_relay_def split: sum.splits prod.splits)
  then show ?thesis by blast
qed

text \<open>One step of the receiver leaves the paths alone unless it falls back.\<close>

lemma recv_step_cases:
  assumes "recv_step i m pc = (m', pc')"
  obtains (choose) "i = Proceed" "pc = AtTop" "(m', pc') = recv_choose m"
  | (register) w where "i = Proceed" "pc = Register" "pathWaiter m = (m', w)" "pc' = Recheck w"
  | (same) "m' = m" "\<And>w. pc' = Await w \<Longrightarrow> pc = Await w \<or>
        pc = Recheck w \<and> (udpPath m = PathUnknown \<or> relayTransport m = None)"
      "\<And>w. pc' = Recheck w \<Longrightarrow> pc = Recheck w"
      "pc = ParkedDisabled \<Longrightarrow> i \<noteq> CtxDone \<Longrightarrow> pc' = ParkedDisabled"
  | (data) ra w where "m' = m\<lparr>reassembler := ra, replayWindow := w\<rparr>"
      "pc' = AtTop \<or> (\<exists>x. pc' = Finished (Got x))" "pc \<noteq> ParkedDisabled"
proof -
  have ret: "returned res = AtTop \<or> (\<exists>x. returned res = Finished (Got x))" for res
    by (simp add: returned_def split: option.splits)
  show ?thesis
  proof (cases "(i, m, pc)" rule: recv_step.cases)
    case (8 now remote packet m0 r)
    show ?thesis
    proof (cases "p2pCodec m")
      case None
      then show ?thesis using assms 8 by (intro same) auto
    next
      case (Some codec)
      obtain m1 res where step: "recv_direct now r codec remote packet m = (m1, res)" by fastforce
      then obtain ra w where "m1 = m\<lparr>reassembler := ra, replayWindow := w\<rparr>"
        using recv_direct_simps by blast
      then show ?thesis
        using assms 8 Some step ret [of res] by (intro data [where ra = ra and w = w]) auto
    qed
  next
    case (9 now datagram m0)
    obtain m1 res where step: "recv_relay now datagram m = (m1, res)" by fastforce
    then obtain ra w where "m1 = m\<lparr>reassembler := ra, replayWindow := w\<rparr>"
      using recv_relay_simps by blast
    then show ?thesis
      using assms 9 step ret [of res] by (intro data [where ra = ra and w = w]) auto
  next
    case (3 m0)
    then show ?thesis using assms choose by simp
  next
    case (4 m0)
    then show ?thesis using assms register by (auto split: prod.splits)
  qed (rule same; use assms in \<open>force split: recv_pc.splits if_splits\<close>)+
qed

lemma op_relay [simp]: "relayTransport (do_path_op a m) = relayTransport m"
  by (cases a) (simp_all add: SetDirectUDP_def SetDirectTCP_def SetQUICRelay_def AddCandidates_def
      SetRelayEndpoints_def path_Close_def Let_def split: option.splits)

lemma waiter_relay [simp]: "relayTransport (fst (pathWaiter m)) = relayTransport m"
  "udpPath (fst (pathWaiter m)) = udpPath m"
  by (simp_all add: pathWaiter_def split: option.splits)

lemma choose_relay [simp]: "relayTransport (fst (recv_choose m)) = relayTransport m"
  by (simp add: recv_choose_def split: option.splits)

lemma recv_step_relay: "recv_step i m pc = (m', pc') \<Longrightarrow> relayTransport m' = relayTransport m"
  by (erule recv_step_cases) (metis choose_relay fst_conv, metis waiter_relay(1) fst_conv, simp_all)

section \<open>No wake-up is lost\<close>

definition wait_ok :: "Manager \<Rightarrow> recv_pc \<Rightarrow> bool" where
  "wait_ok m pc \<longleftrightarrow>
     (\<forall>w. pc = Await w \<longrightarrow> w \<in> woken m \<or> pathChanged m = Some w \<and> udpPath m = PathUnknown)
     \<and> (\<forall>w. pc = Recheck w \<longrightarrow> w \<in> woken m \<or> pathChanged m = Some w)"

lemma notify_wakes: "pathChanged m = Some w \<or> w \<in> woken m \<Longrightarrow> w \<in> woken (notifyPathChanged m)"
  by (auto simp: notifyPathChanged_def split: option.splits)

text \<open>An operation either notifies at its end or leaves the paths and the wait channel alone.\<close>

lemma op_notifies:
  obtains (notify) m' where "do_path_op a m = notifyPathChanged m'" "pathChanged m' = pathChanged m"
      "woken m' = woken m"
  | (idle) "udpPath (do_path_op a m) = udpPath m" "pathChanged (do_path_op a m) = pathChanged m"
      "woken (do_path_op a m) = woken m"
proof (cases a)
  case (OpDirectUDP res lan)
  show ?thesis
  proof (cases "pm_closed m \<or> res = None")
    case True
    then show ?thesis
      using OpDirectUDP by (intro idle) (simp_all add: SetDirectUDP_def split: option.splits)
  next
    case False
    then show ?thesis
      using OpDirectUDP by (intro notify [of "m\<lparr>directUDPPunch := res,
        udpPath := if lan then PathDirectLAN else PathDirectUDP\<rparr>"]) (auto simp: SetDirectUDP_def)
  qed
next
  case (OpDirectTCP lan)
  show ?thesis
  proof (cases "pm_closed m")
    case True
    then show ?thesis using OpDirectTCP by (intro idle) (simp_all add: SetDirectTCP_def)
  next
    case False
    then show ?thesis
      using OpDirectTCP
      by (intro notify [of "m\<lparr>tcpPath := if lan then PathDirectLAN else PathDirectTCP\<rparr>"])
        (auto simp: SetDirectTCP_def)
  qed
next
  case OpFallback
  show ?thesis
  proof (cases "direct_udp (udpPath m)")
    case True
    let ?m = "case directUDPPunch m of Some r \<Rightarrow> (close_punch r m)\<lparr>directUDPPunch := None\<rparr> | None \<Rightarrow> m"
    show ?thesis
      using OpFallback True
      by (intro notify [of "?m\<lparr>udpPath := relay_udp_path ?m\<rparr>"])
        (simp_all add: FallbackUDPFromDirect_def Let_def split: option.splits)
  next
    case False
    then show ?thesis using OpFallback by (intro idle) (simp_all add: FallbackUDPFromDirect_def)
  qed
next
  case OpRelay
  let ?m1 = "if tcpPath m = PathUnknown then m\<lparr>tcpPath := PathRelay\<rparr> else m"
  let ?m2 = "if udpPath ?m1 = PathUnknown then ?m1\<lparr>udpPath := relay_udp_path ?m1\<rparr> else ?m1"
  show ?thesis
    using OpRelay by (intro notify [of ?m2]) (simp_all add: SetQUICRelay_def Let_def)
next
  case (OpCandidates cs)
  then show ?thesis by (intro idle) (simp_all add: AddCandidates_def Let_def)
next
  case (OpEndpoints t u)
  then show ?thesis by (intro idle) (simp_all add: SetRelayEndpoints_def)
next
  case OpClose
  then show ?thesis by (intro idle) (simp_all add: path_Close_def Let_def split: option.splits)
qed

lemma wait_ok_op: "wait_ok m pc \<Longrightarrow> wait_ok (do_path_op a m) pc"
  by (rule op_notifies [of a m]) (auto simp: wait_ok_def intro: notify_wakes)

lemma wait_ok_step:
  assumes "wait_ok m pc" "relayTransport m \<noteq> None" "recv_step i m pc = (m', pc')"
  shows "wait_ok m' pc'"
  using assms(3)
proof (cases rule: recv_step_cases)
  case choose
  then have "pc' \<noteq> Await w" "pc' \<noteq> Recheck w" for w
    by (auto simp: recv_choose_def split: if_splits option.splits)
  then show ?thesis by (simp add: wait_ok_def)
next
  case (register w)
  then show ?thesis by (auto simp: wait_ok_def pathWaiter_def split: option.splits)
next
  case same
  then show ?thesis using assms(1,2) unfolding wait_ok_def by metis
next
  case (data ra w)
  then show ?thesis by (auto simp: wait_ok_def)
qed

lemma receiving_wait_ok:
  "receiving allowed m AtTop m' pc' \<Longrightarrow> relayTransport m \<noteq> None \<Longrightarrow>
     wait_ok m' pc' \<and> relayTransport m' = relayTransport m"
proof (induction rule: receiving.induct)
  case start
  then show ?case by (simp add: wait_ok_def)
next
  case (own m1 pc1 i m2 pc2)
  then show ?case using wait_ok_step recv_step_relay by metis
next
  case (other m1 pc1 a)
  then show ?case by (simp add: wait_ok_op)
qed

lemma receiving_parked:
  "receiving allowed m ParkedDisabled m' pc' \<Longrightarrow> CtxDone \<notin> allowed \<Longrightarrow> pc' = ParkedDisabled"
proof (induction rule: receiving.induct)
  case (own m1 pc1 i m2 pc2)
  then show ?case by (cases i) auto
qed simp_all

section \<open>The race\<close>

text \<open>
  \<open>ParallelRace\<close> starts three goroutines, whose endings come in any order: the punch attempt with its
  result, the TCP probe, and the timer that activates the relay for what is still unknown.
\<close>

datatype race_event = RaceUDP | RaceTCP | RaceTimer

fun race_step :: "CandidateInfo list \<Rightarrow> punch_result option \<Rightarrow> bool \<Rightarrow> race_event \<Rightarrow> Manager \<Rightarrow> Manager" where
  "race_step cs res probed RaceUDP m = (case res of
     Some r \<Rightarrow> SetDirectUDP (Some r) (isCandidateLAN (pr_remote r) cs) m | None \<Rightarrow> m)"
| "race_step cs res probed RaceTCP m = (if probed then SetDirectTCP (tcpCandidatesAreLAN cs) m else m)"
| "race_step cs res probed RaceTimer m =
     (if tcpPath m = PathUnknown \<or> udpPath m = PathUnknown then SetQUICRelay m else m)"

definition ParallelRace ::
  "CandidateInfo list \<Rightarrow> punch_result option \<Rightarrow> bool \<Rightarrow> race_event list \<Rightarrow> Manager \<Rightarrow> Manager" where
  "ParallelRace cs res probed order m = fold (race_step cs res probed) order (AddCandidates cs m)"

lemma AddCandidates_simps [simp]:
  "tcpPath (AddCandidates cs m) = tcpPath m" "udpPath (AddCandidates cs m) = udpPath m"
  "pm_closed (AddCandidates cs m) = pm_closed m" "relayTransport (AddCandidates cs m) = relayTransport m"
  by (simp_all add: AddCandidates_def Let_def)

lemma SetQUICRelay_simps [simp]:
  "tcpPath (SetQUICRelay m) = (if tcpPath m = PathUnknown then PathRelay else tcpPath m)"
  "udpPath (SetQUICRelay m) = (if udpPath m = PathUnknown then relay_udp_path m else udpPath m)"
  "pm_closed (SetQUICRelay m) = pm_closed m" "relayTransport (SetQUICRelay m) = relayTransport m"
  by (simp_all add: SetQUICRelay_def Let_def relay_udp_path_def)

lemma race_step_keeps [simp]:
  "pm_closed (race_step cs res probed ev m) = pm_closed m"
  "relayTransport (race_step cs res probed ev m) = relayTransport m"
  by (cases ev; simp add: SetDirectUDP_def SetDirectTCP_def split: option.splits)+

text \<open>Each of the two paths by itself: won by its own goroutine, or given to the relay by the timer.\<close>

definition race_path :: "race_event \<Rightarrow> PathType option \<Rightarrow> PathType \<Rightarrow> race_event \<Rightarrow> PathType \<Rightarrow> PathType" where
  "race_path goal win relay ev p =
     (if ev = goal then (case win of Some w \<Rightarrow> w | None \<Rightarrow> p)
      else if ev = RaceTimer \<and> p = PathUnknown then relay else p)"

lemma fold_race_path:
  assumes "goal \<noteq> RaceTimer" "win \<noteq> Some PathUnknown" "relay \<noteq> PathUnknown"
  shows "fold (race_path goal win relay) order p =
    (if goal \<in> set order \<and> win \<noteq> None then the win
     else if RaceTimer \<in> set order \<and> p = PathUnknown then relay else p)"
  using assms
  by (induction order arbitrary: p) (auto simp: race_path_def split: option.splits)

definition udp_win :: "CandidateInfo list \<Rightarrow> punch_result option \<Rightarrow> PathType option" where
  "udp_win cs res = map_option (\<lambda>r. if isCandidateLAN (pr_remote r) cs then PathDirectLAN else PathDirectUDP) res"

definition tcp_win :: "CandidateInfo list \<Rightarrow> bool \<Rightarrow> PathType option" where
  "tcp_win cs probed = (if probed then Some (if tcpCandidatesAreLAN cs then PathDirectLAN else PathDirectTCP) else None)"

lemma race_step_paths:
  assumes "\<not> pm_closed m"
  shows "udpPath (race_step cs res probed ev m) = race_path RaceUDP (udp_win cs res) (relay_udp_path m) ev (udpPath m)"
    and "tcpPath (race_step cs res probed ev m) = race_path RaceTCP (tcp_win cs probed) PathRelay ev (tcpPath m)"
  using assms
  by (cases ev; simp add: race_path_def udp_win_def tcp_win_def SetDirectUDP_def SetDirectTCP_def
      split: option.splits)+

lemma fold_race_step:
  assumes "\<not> pm_closed m"
  shows "udpPath (fold (race_step cs res probed) order m)
      = fold (race_path RaceUDP (udp_win cs res) (relay_udp_path m)) order (udpPath m)
    \<and> tcpPath (fold (race_step cs res probed) order m)
      = fold (race_path RaceTCP (tcp_win cs probed) PathRelay) order (tcpPath m)"
  using assms
proof (induction order arbitrary: m)
  case (Cons ev order)
  have "relay_udp_path (race_step cs res probed ev m) = relay_udp_path m" by (simp add: relay_udp_path_def)
  then show ?case
    using Cons.IH [of "race_step cs res probed ev m"] Cons.prems race_step_paths [OF Cons.prems] by simp
qed simp

text \<open>\<open>SetQUICRelay\<close> reads the TCP path and stores it in two steps; \<open>SetDirectTCP\<close> takes no lock.\<close>

definition relay_store_tcp :: "bool \<Rightarrow> Manager \<Rightarrow> Manager" where
  "relay_store_tcp was_unknown m = (if was_unknown then m\<lparr>tcpPath := PathRelay\<rparr> else m)"

lemma SetQUICRelay_two_steps:
  "tcpPath (SetQUICRelay m) = tcpPath (relay_store_tcp (tcpPath m = PathUnknown) m)"
  by (simp add: relay_store_tcp_def)

lemma relay_overwrites_direct_tcp:
  "\<not> pm_closed m \<Longrightarrow> tcpPath (relay_store_tcp True (SetDirectTCP lan m)) = PathRelay"
  by (simp add: relay_store_tcp_def SetDirectTCP_def)

section \<open>What is sent\<close>

lemma datagrams_pid: "datagrams f sid pid packet \<noteq> None \<longleftrightarrow> datagrams f sid' pid' packet \<noteq> None"
  by (auto simp: datagrams_def)

lemma SendUDP_relay:
  assumes "udpPath m = PathRelay" "relayTransport m \<noteq> None"
    "datagrams (fragmenter m) (pm_sessionID m) (nextPacketID m + 1) payload = Some ds"
  shows "SendUDP net payload m s = (case feed_handler (send_relay net) s ds of
    (s', e) \<Rightarrow> (m\<lparr>nextPacketID := nextPacketID m + 1\<rparr>, s', map_option RelayError e))"
  using assms by (subst SendUDP.simps) (simp add: Fragment_datagrams direct_udp_def split: prod.splits)

lemma SendUDP_direct_step:
  assumes "direct_udp (udpPath m)" "directUDPPunch m = Some r" "pr_conn r" "p2pCodec m = Some codec"
  shows "SendUDP net payload m s =
    (case Fragment (fragmenter m) (frag_buf net) (pm_sessionID m) (nextPacketID m + 1) payload
            (\<lambda>s datagram. write_direct net r s (p2p_encode codec (send_buf net) datagram)) s of
       (s', None) \<Rightarrow> (m\<lparr>nextPacketID := nextPacketID m + 1\<rparr>, s', None)
     | (s', Some _) \<Rightarrow> SendUDP net payload (FallbackUDPFromDirect (m\<lparr>nextPacketID := nextPacketID m + 1\<rparr>)) s')"
proof -
  have "udpPath m \<noteq> PathDisabled" using assms(1) by (auto simp: direct_udp_def)
  then show ?thesis
    using assms by (simp add: Let_def SendUDP.simps [of net payload m s])
qed

section \<open>Properties\<close>

text \<open>
  The race ends with a usable choice. In whatever order the punch attempt, the TCP probe and the
  timer come to their end on an open manager, afterwards no path is unknown; a punch that succeeded
  makes UDP direct and a probe that succeeded makes TCP direct, each as LAN or not according to the
  candidates, so the relay never replaces a direct path; and what stayed without a direct path uses
  the relay, or for UDP nothing when the relay has no datagrams.
\<close>

theorem race_selects:
  assumes "\<not> pm_closed m" "set order = {RaceUDP, RaceTCP, RaceTimer}" "tcpPath m = PathUnknown" "udpPath m = PathUnknown"
    "m' = ParallelRace cs res probed order m"
  shows "udpPath m' = (case res of
       Some r \<Rightarrow> if isCandidateLAN (pr_remote r) cs then PathDirectLAN else PathDirectUDP
     | None \<Rightarrow> if SupportsDatagrams (relayTransport m) then PathRelay else PathDisabled)
    \<and> tcpPath m' = (if probed then (if tcpCandidatesAreLAN cs then PathDirectLAN else PathDirectTCP)
        else PathRelay)"
proof -
  have "udp_win cs res \<noteq> Some PathUnknown" "tcp_win cs probed \<noteq> Some PathUnknown"
    "relay_udp_path m \<noteq> PathUnknown"
    by (auto simp: udp_win_def tcp_win_def relay_udp_path_def)
  then have "udpPath m' = (if udp_win cs res \<noteq> None then the (udp_win cs res) else relay_udp_path m)
      \<and> tcpPath m' = (if tcp_win cs probed \<noteq> None then the (tcp_win cs probed) else PathRelay)"
    using fold_race_step [of "AddCandidates cs m" cs res probed order] assms
      fold_race_path [of RaceUDP "udp_win cs res" "relay_udp_path m" order PathUnknown]
      fold_race_path [of RaceTCP "tcp_win cs probed" PathRelay order PathUnknown]
    by (simp add: ParallelRace_def relay_udp_path_def)
  then show ?thesis
    by (simp add: udp_win_def tcp_win_def relay_udp_path_def split: option.splits)
qed

lemma race_selects_witness:
  "udpPath (ParallelRace [] (Some \<lparr>pr_id = 1, pr_conn = True, pr_remote = no_addr_port\<rparr>) False
     [RaceTimer, RaceUDP, RaceTCP] (NewPathManager 1 [7] (Some True))) = PathDirectUDP"
proof -
  have "set [RaceTimer, RaceUDP, RaceTCP] = {RaceUDP, RaceTCP, RaceTimer}" by auto
  moreover have "\<not> pm_closed (NewPathManager 1 [7] (Some True))"
    "tcpPath (NewPathManager 1 [7] (Some True)) = PathUnknown" "udpPath (NewPathManager 1 [7] (Some True)) = PathUnknown"
    by (simp_all add: NewPathManager_def)
  ultimately show ?thesis
    using race_selects [OF _ _ _ _ refl, of "NewPathManager 1 [7] (Some True)" "[RaceTimer, RaceUDP, RaceTCP]" "[]"
        "Some \<lparr>pr_id = 1, pr_conn = True, pr_remote = no_addr_port\<rparr>" False]
    by (simp add: isCandidateLAN_def)
qed

text \<open>
  Sending over a direct path. With a punched socket and a codec, a packet that fits is sent as the
  authenticated datagrams of its fragments; if a write fails, then the punched path is closed, UDP
  falls back to the relay for good, and the whole packet is sent again over it under a new number,
  or, when the relay has no datagrams, the packet is given up with an error and nothing more is sent.
\<close>

theorem SendUDP_direct:
  assumes "direct_udp (udpPath m)" "directUDPPunch m = Some r" "pr_conn r" "p2pCodec m = Some codec"
    "datagrams (fragmenter m) (pm_sessionID m) (nextPacketID m + 1) payload = Some ds"
    "datagrams (fragmenter m) (pm_sessionID m) (nextPacketID m + 2) payload = Some ds'"
    "m1 = m\<lparr>nextPacketID := nextPacketID m + 1\<rparr>"
  shows "SendUDP net payload m s =
    (case feed_handler (\<lambda>s d. write_direct net r s (p2p_encode codec [] d)) s ds of
       (s', None) \<Rightarrow> (m1, s', None)
     | (s', Some _) \<Rightarrow>
         if SupportsDatagrams (relayTransport m) then
           (case feed_handler (send_relay net) s' ds' of
              (s'', e) \<Rightarrow> ((FallbackUDPFromDirect m1)\<lparr>nextPacketID := nextPacketID m + 2\<rparr>, s'', map_option RelayError e))
         else (FallbackUDPFromDirect m1, s', Some UDPPathDisabled))
    \<and> udpPath (FallbackUDPFromDirect m1) = relay_udp_path m
    \<and> directUDPPunch (FallbackUDPFromDirect m1) = None
    \<and> closedPunch (FallbackUDPFromDirect m1) = pr_id r # closedPunch m"
proof -
  have enc: "p2p_encode codec buf = p2p_encode codec []" for buf
    by (simp add: fun_eq_iff p2p_encode_layout)
  have path: "udpPath (FallbackUDPFromDirect m1) = relay_udp_path m"
    using assms(1,7) by (simp add: fallback_path relay_udp_path_def)
  have nd: "udpPath m \<noteq> PathDisabled" using assms(1) by (auto simp: direct_udp_def)
  have relay: "SendUDP net payload (FallbackUDPFromDirect m1) s' =
      (if SupportsDatagrams (relayTransport m) then
         (case feed_handler (send_relay net) s' ds' of
            (s'', e) \<Rightarrow> ((FallbackUDPFromDirect m1)\<lparr>nextPacketID := nextPacketID m + 2\<rparr>, s'', map_option RelayError e))
       else (FallbackUDPFromDirect m1, s', Some UDPPathDisabled))" for s'
  proof (cases "SupportsDatagrams (relayTransport m)")
    case True
    have n: "nextPacketID (FallbackUDPFromDirect m1) + 1 = nextPacketID m + 2" by (simp add: assms(7))
    have "SendUDP net payload (FallbackUDPFromDirect m1) s' = (case feed_handler (send_relay net) s' ds' of
      (s', e) \<Rightarrow> ((FallbackUDPFromDirect m1)\<lparr>nextPacketID := nextPacketID (FallbackUDPFromDirect m1) + 1\<rparr>, s',
        map_option RelayError e))"
      using path True assms(6,7) by (intro SendUDP_relay, unfold n) (auto simp: relay_udp_path_def SupportsDatagrams_def split: option.splits)
    then show ?thesis using True unfolding n by simp
  next
    case False
    then show ?thesis using path by (subst SendUDP.simps) (simp add: relay_udp_path_def)
  qed
  have "SendUDP net payload m s =
    (case feed_handler (\<lambda>s d. write_direct net r s (p2p_encode codec [] d)) s ds of
       (s', None) \<Rightarrow> (m1, s', None) | (s', Some _) \<Rightarrow> SendUDP net payload (FallbackUDPFromDirect m1) s')"
    unfolding assms(7) using SendUDP_direct_step [OF assms(1-4), of net payload s] assms(5)
    by (simp add: Fragment_datagrams enc [of "send_buf net"])
  moreover have "directUDPPunch (FallbackUDPFromDirect m1) = None
      \<and> closedPunch (FallbackUDPFromDirect m1) = pr_id r # closedPunch m"
    using assms(1,2,7) by (simp add: FallbackUDPFromDirect_def Let_def)
  ultimately show ?thesis
    using path relay by (auto split: prod.splits option.splits)
qed

text \<open>The witness has a socket that refuses every write and a relay that takes what it is given.\<close>

definition broken_socket :: "(bytes list) network" where
  "broken_socket = \<lparr>write_direct = \<lambda>_ s _. (s, Some ()), send_relay = \<lambda>s d. (s @ [d], None),
     frag_buf = [], send_buf = []\<rparr>"

definition punched_manager :: Manager where
  "punched_manager = SetDirectUDP (Some \<lparr>pr_id = 1, pr_conn = True, pr_remote = no_addr_port\<rparr>) False
     (NewPathManager 1 [7] (Some True))"

lemma SendUDP_direct_witness:
  "case SendUDP broken_socket [] punched_manager [] of (m', sent, e) \<Rightarrow>
     length sent = 1 \<and> e = None \<and> nextPacketID m' = 2 \<and> closedPunch m' = [1]"
proof -
  let ?r = "\<lparr>pr_id = 1, pr_conn = True, pr_remote = no_addr_port\<rparr>"
  let ?c = "\<lparr>codec_session = 1, codec_key = [7]\<rparr>"
  have m: "direct_udp (udpPath punched_manager)" "directUDPPunch punched_manager = Some ?r" "pr_conn ?r"
    "p2pCodec punched_manager = Some ?c" "relayTransport punched_manager = Some True"
    "nextPacketID punched_manager = 0" "closedPunch punched_manager = []"
    by (simp_all add: punched_manager_def SetDirectUDP_def NewPathManager_def NewP2PCodec_def direct_udp_def)
  have ds: "datagrams f sid pid [] = Some [EncodeUDP [] sid pid 0 1 []]" for f sid pid
    by (simp add: datagrams_def)
  from SendUDP_direct [OF m(1-4) ds ds refl, of broken_socket "[]"] show ?thesis
    by (simp add: m broken_socket_def SupportsDatagrams_def)
qed

text \<open>
  No change of path is lost to a waiting receiver. Let \<open>ReceiveUDP\<close> run on a manager with a relay,
  interleaved in any way with the operations of the race, of senders and of the control loop; when it
  waits for a change and the UDP path is known, then its wait channel is closed, so its next step
  takes it back to choosing a path, however the change and the registration were ordered.
\<close>

theorem wakeup_not_lost:
  assumes "receiving allowed m AtTop m' (Await w)" "relayTransport m \<noteq> None" "udpPath m' \<noteq> PathUnknown"
  shows "recv_step Proceed m' (Await w) = (m', AtTop)"
  using receiving_wait_ok [OF assms(1,2)] assms(3) by (auto simp: wait_ok_def)

text \<open>In the witness the path is set between the receiver's choice and its registration.\<close>

lemma wakeup_not_lost_witness:
  "recv_step Proceed ((SetQUICRelay (NewPathManager 1 [7] (Some True)))\<lparr>pathChanged := Some 0, nextWaiter := 1\<rparr>)
     (Recheck 0) = ((SetQUICRelay (NewPathManager 1 [7] (Some True)))\<lparr>pathChanged := Some 0, nextWaiter := 1\<rparr>, AtTop)
   \<and> (\<exists>m'. receiving UNIV (NewPathManager 1 [7] (Some True)) AtTop m' (Await 0)
        \<and> recv_step Proceed m' (Await 0) = (m', AtTop))"
proof -
  let ?m = "NewPathManager 1 [7] (Some True)"
  let ?m1 = "?m\<lparr>pathChanged := Some 0, nextWaiter := 1\<rparr>"
  have r0: "receiving UNIV ?m AtTop ?m AtTop" by (rule receiving.start)
  have r1: "receiving UNIV ?m AtTop ?m Register"
    by (rule receiving.own [OF r0, of Proceed]) (simp_all add: recv_choose_def NewPathManager_def direct_udp_def)
  have r2: "receiving UNIV ?m AtTop ?m1 (Recheck 0)"
    by (rule receiving.own [OF r1, of Proceed]) (simp_all add: pathWaiter_def NewPathManager_def)
  have r3: "receiving UNIV ?m AtTop ?m1 (Await 0)"
    by (rule receiving.own [OF r2, of Proceed]) (simp_all add: NewPathManager_def)
  have r4: "receiving UNIV ?m AtTop (SetQUICRelay ?m1) (Await 0)"
    using receiving.other [OF r3, of OpRelay] by simp
  have "recv_step Proceed (SetQUICRelay ?m1) (Await 0) = (SetQUICRelay ?m1, AtTop)"
    by (rule wakeup_not_lost [OF r4])
      (simp_all add: NewPathManager_def relay_udp_path_def SupportsDatagrams_def)
  then have "\<exists>m'. receiving UNIV ?m AtTop m' (Await 0) \<and> recv_step Proceed m' (Await 0) = (m', AtTop)"
    using r4 by blast
  then show ?thesis
    by (simp add: NewPathManager_def SetQUICRelay_def relay_udp_path_def SupportsDatagrams_def
        notifyPathChanged_def Let_def)
qed

text \<open>
  A receiver that found UDP disabled never notices that it came back. Once \<open>ReceiveUDP\<close> has chosen
  the disabled path it stays there until its context ends: no upgrade to a punched path wakes it, even
  though \<open>SendUDP\<close> then uses that path, and closing the manager does not end it either.
\<close>

theorem disabled_receiver_deaf:
  assumes "udpPath m = PathDisabled" "receiving allowed (fst (recv_step Proceed m AtTop))
      (snd (recv_step Proceed m AtTop)) m' pc'" "CtxDone \<notin> allowed"
  shows "pc' = ParkedDisabled"
proof -
  have "recv_step Proceed m AtTop = (m, ParkedDisabled)"
    using assms(1) by (simp add: recv_choose_def direct_udp_def)
  then show ?thesis using receiving_parked assms(2,3) by simp
qed

text \<open>In the witness the punch succeeds after the relay without datagrams was chosen.\<close>

lemma disabled_receiver_deaf_witness:
  "\<exists>m'. receiving (- {CtxDone}) (SetQUICRelay (NewPathManager 1 [7] (Some False))) ParkedDisabled m' ParkedDisabled
     \<and> udpPath m' = PathDirectUDP
     \<and> \<not> receiving (- {CtxDone}) (SetQUICRelay (NewPathManager 1 [7] (Some False))) ParkedDisabled m' AtTop"
proof -
  let ?m = "SetQUICRelay (NewPathManager 1 [7] (Some False))"
  let ?r = "\<lparr>pr_id = 1, pr_conn = True, pr_remote = no_addr_port\<rparr>"
  let ?m' = "SetDirectUDP (Some ?r) False ?m"
  have dis: "udpPath ?m = PathDisabled"
    by (simp add: NewPathManager_def relay_udp_path_def SupportsDatagrams_def)
  then have step: "recv_step Proceed ?m AtTop = (?m, ParkedDisabled)"
    by (simp add: recv_choose_def direct_udp_def)
  have run: "receiving (- {CtxDone}) ?m ParkedDisabled ?m' ParkedDisabled"
    using receiving.other [OF receiving.start, of "- {CtxDone}" ?m ParkedDisabled "OpDirectUDP (Some ?r) False"]
    by simp
  have "\<not> receiving (- {CtxDone}) ?m ParkedDisabled ?m' AtTop"
    using disabled_receiver_deaf [OF dis, of "- {CtxDone}" ?m' AtTop] unfolding step by auto
  moreover have "udpPath ?m' = PathDirectUDP"
    by (simp add: SetDirectUDP_def NewPathManager_def)
  ultimately show ?thesis using run by blast
qed

end
