(* ===== verification/Reassembly_Source.thy ===== *)
theory Reassembly_Source
  imports Reassembly_Correct
begin

text \<open>
  Where the bytes of a reassembled packet come from: whatever is fed in, a packet that comes out is
  put together from fragments that arrived under its key, one for each index, all naming the same
  number of fragments.
\<close>

section \<open>Parts\<close>

text \<open>A fragment as it arrived: packet number, number of fragments, index and payload.\<close>

type_synonym part = "u32 \<times> nat \<times> nat \<times> bytes"

definition part_of :: "UDPHeader \<Rightarrow> bytes \<Rightarrow> part" where
  "part_of h payload = (PacketID h, unat (FragmentCount h), unat (FragmentID h), payload)"

definition made_of :: "part set \<Rightarrow> u32 \<Rightarrow> bytes \<Rightarrow> bool" where
  "made_of A pid d \<longleftrightarrow> (\<exists>n xs. 0 < n \<and> length xs = n \<and> d = concat xs \<and> (\<forall>i<n. (pid, n, i, xs ! i) \<in> A))"

lemma made_of_mono: "made_of A pid d \<Longrightarrow> (\<And>n i x. (pid, n, i, x) \<in> A \<Longrightarrow> (pid, n, i, x) \<in> B) \<Longrightarrow> made_of B pid d"
  unfolding made_of_def by blast

lemma made_of_single: "(pid, Suc 0, 0, x) \<in> A \<Longrightarrow> made_of A pid x"
  unfolding made_of_def by (intro exI [of _ "Suc 0"] exI [of _ "[x]"]) simp

section \<open>What the entries hold\<close>

definition entry_from :: "part set \<Rightarrow> u32 \<Rightarrow> packetReassembly \<Rightarrow> bool" where
  "entry_from A pid e \<longleftrightarrow> (\<forall>i x. i < length (fragments e) \<longrightarrow> fragments e ! i = Some x \<longrightarrow>
     (pid, unat (fragmentCount e), i, x) \<in> A)"

definition held_from :: "part set \<Rightarrow> u32 \<Rightarrow> Reassembler \<Rightarrow> bool" where
  "held_from A sid r \<longleftrightarrow> (\<forall>pid e. fmlookup (pending r) (sid, pid) = Some e \<longrightarrow> entry_from A pid e)"

lemma held_fromD: "held_from A sid r \<Longrightarrow> fmlookup (pending r) (sid, pid) = Some e \<Longrightarrow> entry_from A pid e"
  unfolding held_from_def by blast

lemma entry_from_fresh: "fresh_entry now h e \<Longrightarrow> entry_from A pid e"
  by (simp add: entry_from_def fresh_entry_def clean_def)

lemma entry_from_stored:
  assumes "entry_from A pid e" "(pid, unat (fragmentCount e), i, payload) \<in> A"
  shows "entry_from A pid (stored i payload e)"
  using assms by (cases "i < length (fragments e)")
    (auto simp: entry_from_def nth_list_update split: if_splits)

lemma entry_from_assemble:
  assumes "entry_from A pid e" "entry_wf (sid, pid) e" "receivedCount e = fragmentCount e"
  shows "made_of A pid (assemble e)"
proof -
  let ?n = "unat (fragmentCount e)"
  let ?xs = "map (\<lambda>i. case fragments e ! i of None \<Rightarrow> [] | Some x \<Rightarrow> x) [0..<?n]"
  have full: "\<forall>i<?n. fragments e ! i \<noteq> None" using received_full_iff [OF assms(2)] assms(3) by simp
  have len: "0 < ?n" "?n \<le> length (fragments e)" using assms(2) by (simp_all add: entry_wf_def)
  have "(pid, ?n, i, ?xs ! i) \<in> A" if "i < ?n" for i
  proof -
    from full that have "fragments e ! i \<noteq> None" by blast
    then obtain x where "fragments e ! i = Some x" by blast
    then show ?thesis using assms(1) that len by (simp add: entry_from_def)
  qed
  then show ?thesis
    unfolding made_of_def assemble_def using len
    by (intro exI [of _ ?n] exI [of _ ?xs] conjI allI impI) simp_all
qed

section \<open>Every event keeps it\<close>

lemma feed_entry_from:
  assumes fe: "feed_entry dst_nil h payload e r = (r', res)"
    and e: "entry_ok (SessionID h, PacketID h) e" and frag: "FragmentID h < FragmentCount h"
    and gen: "entry_from A (PacketID h) e" and part: "part_of h payload \<in> A"
    and held: "held_from A (SessionID h) r"
  shows "held_from A (SessionID h) r'"
    and "res = Inr (Some d) \<Longrightarrow> made_of A (PacketID h) d"
proof -
  let ?i = "unat (FragmentID h)"
  have st: "entry_from A (PacketID h) (stored ?i payload e)" if "fragmentCount e = FragmentCount h"
    using entry_from_stored [OF gen] part that by (simp add: part_of_def)
  show "held_from A (SessionID h) r'"
    using fe gen st held by (auto simp: feed_entry_def Let_def held_from_def split: if_splits)
  assume res: "res = Inr (Some d)"
  have ne: "receivedCount e \<noteq> fragmentCount e" using e by (simp add: entry_ok_def)
  from fe res ne have cnt: "fragmentCount e = FragmentCount h" and none: "fragments e ! ?i = None"
    and full: "receivedCount (stored ?i payload e) = fragmentCount e"
    and d: "append_to dst_nil (assemble (stored ?i payload e)) = Some d"
    by (auto simp: feed_entry_def Let_def split: if_splits)
  have "?i < unat (fragmentCount e)" using frag cnt by (simp add: word_less_nat_alt)
  then have "entry_wf (SessionID h, PacketID h) (stored ?i payload e)"
    using e none by (intro stored_wf(1))
  then have "made_of A (PacketID h) (assemble (stored ?i payload e))"
    using full by (intro entry_from_assemble [OF st [OF cnt]]) simp_all
  then show "made_of A (PacketID h) d" using d by (simp add: append_to_def split: if_splits)
qed

lemma FeedAppend_from:
  assumes ok: "reassembler_ok r" and held: "held_from A sid r"
    and part: "SessionID h = sid \<longrightarrow> part_of h payload \<in> A"
    and fed: "FeedAppend now dst_nil h payload r = (r', res)"
  shows "held_from A sid r' \<and> (SessionID h = sid \<longrightarrow> res = Inr (Some d) \<longrightarrow> made_of A (PacketID h) d)"
proof (cases "FragmentCount h = 0 \<or> FragmentID h \<ge> FragmentCount h
    \<or> unat (FragmentCount h) > MaxUDPFragments \<or> closed r")
  case stopped: True
  show ?thesis
  proof (cases "FragmentCount h = 1 \<and> FragmentID h = 0")
    case True
    then have "r' = r" "res = Inr (append_to dst_nil payload)" using fed by (auto simp: FeedAppend_def)
    moreover have "made_of A (PacketID h) payload" if "SessionID h = sid"
      using part that True by (intro made_of_single) (simp add: part_of_def)
    ultimately show ?thesis using held by (auto simp: append_to_def)
  next
    case False
    then have "r' = r" "\<forall>d. res \<noteq> Inr (Some d)" using fed stopped by (auto simp: FeedAppend_def split: if_splits)
    then show ?thesis using held by simp
  qed
next
  case False
  then have cond: "unat (FragmentCount h) \<le> MaxUDPFragments" "FragmentID h < FragmentCount h"
    "\<not> closed r" "0 < unat (FragmentCount h)"
    by (auto simp: word_gt_0 unat_gt_0)
  show ?thesis
  proof (cases "FragmentCount h = 1 \<and> FragmentID h = 0")
    case True
    then have "r' = r" "res = Inr (append_to dst_nil payload)" using fed by (auto simp: FeedAppend_def)
    moreover have "made_of A (PacketID h) payload" if "SessionID h = sid"
      using part that True by (intro made_of_single) (simp add: part_of_def)
    ultimately show ?thesis using held by (auto simp: append_to_def)
  next
    case many: False
    have acc: "accounts_ok r" using ok by (simp add: reassembler_ok_def)
    show ?thesis
    proof (cases "get_entry now h r")
      case (Inl err)
      then show ?thesis using fed held FeedAppend_feed_entry [OF cond(1,2) many cond(3)] by auto
    next
      case (Inr er)
      then obtain e r1 where ge: "get_entry now h r = Inr (e, r1)" by (cases er) auto
      have fe: "feed_entry dst_nil h payload e r1 = (r', res)"
        using fed FeedAppend_feed_entry [OF cond(1,2) many cond(3)] ge by simp
      have lk: "fmlookup (pending r1) (SessionID h, PacketID h) = Some e"
        using get_entry_lookup [OF ge acc] .
      have "reassembler_ok r1" using get_entry_ok [OF ge ok cond(4,1)] .
      then have e: "entry_ok (SessionID h, PacketID h) e"
        using lk by (auto simp: reassembler_ok_def dest: entries_ok_lookup)
      show ?thesis
      proof (cases "SessionID h = sid")
        case True
        have "held_from A sid r1 \<and> entry_from A (PacketID h) e"
          using ge acc
        proof (cases rule: get_entry_cases)
          case old
          then show ?thesis using held True by (auto simp: held_from_def)
        next
          case new
          then show ?thesis using held entry_from_fresh by (auto simp: held_from_def)
        qed
        then show ?thesis
          using feed_entry_from [OF fe e cond(2), of A] part True by blast
      next
        case False
        have "fmlookup (pending r') (sid, pid) = fmlookup (pending r) (sid, pid)" for pid
        proof -
          have k: "(SessionID h, PacketID h) \<noteq> (sid, pid)" using False by simp
          show ?thesis
            using feed_entry_frame [OF k, of dst_nil payload e r1] get_entry_frame [OF ge k acc] fe by simp
        qed
        then show ?thesis using held False by (simp add: held_from_def)
      qed
    qed
  qed
qed

text \<open>A closed reassembler keeps nothing and passes single fragments only.\<close>

definition sourced :: "part set \<Rightarrow> u32 \<Rightarrow> Reassembler \<Rightarrow> bool" where
  "sourced A sid r \<longleftrightarrow> closed r \<or> reassembler_ok r \<and> held_from A sid r"

lemma sourced_start: "reassembler_ok r \<Longrightarrow> \<forall>pid. fmlookup (pending r) (sid, pid) = None \<Longrightarrow> sourced A sid r"
  by (simp add: sourced_def held_from_def)

lemma FeedAppend_sourced:
  assumes src: "sourced A sid r" and part: "SessionID h = sid \<longrightarrow> part_of h payload \<in> A"
    and fed: "FeedAppend now dst_nil h payload r = (r', res)"
  shows "sourced A sid r' \<and> (SessionID h = sid \<longrightarrow> res = Inr (Some d) \<longrightarrow> made_of A (PacketID h) d)"
proof (cases "closed r")
  case True
  have "r' = r" using FeedAppend_closed(1) [OF True, of now dst_nil h payload] fed by simp
  moreover have "made_of A (PacketID h) d" if "SessionID h = sid" "res = Inr (Some d)"
  proof -
    have "FragmentCount h = 1 \<and> FragmentID h = 0" "payload = d"
      using fed True that by (auto simp: FeedAppend_def append_to_def split: if_splits)
    then show ?thesis using part that by (intro made_of_single) (simp add: part_of_def)
  qed
  ultimately show ?thesis using src by simp
next
  case False
  then have "reassembler_ok r" "held_from A sid r" using src by (simp_all add: sourced_def)
  moreover from this(1) have "reassembler_ok r'" using FeedAppend_ok [of r now dst_nil h payload] fed by simp
  ultimately show ?thesis using FeedAppend_from [OF _ _ part fed] by (simp add: sourced_def)
qed

lemma reassembly_step_sourced:
  assumes "sourced A sid r"
    "\<forall>now dst_nil h x. ev = Arrive now dst_nil h x \<longrightarrow> SessionID h = sid \<longrightarrow> part_of h x \<in> A"
  shows "sourced A sid (fst (reassembly_step ev r))"
proof (cases ev)
  case (Arrive now dst_nil h x)
  then show ?thesis
    using assms FeedAppend_sourced [OF assms(1), of h x now dst_nil] by (metis prod.collapse reassembly_step.simps(1))
next
  case (Tick now order)
  then show ?thesis
    using assms(1) cleaner_tick_ok [of r now order]
    by (auto simp: sourced_def held_from_def cleaner_tick_def sweep_expired_pending
        split: option.splits if_splits)
next
  case (Stop order)
  then show ?thesis by (simp add: sourced_def cleaner_stop_def)
qed

end
