(* ===== verification/P2p_Delivery.thy ===== *)
theory P2p_Delivery
  imports Path_Manager Reassembly_Source
begin

text \<open>
  The agent's side of a punched UDP path, \<open>handleIncomingP2PPunch\<close> of \<open>internal/agent/client.go\<close> with
  \<open>internal/agent/p2p_udp.go\<close>, and what the two ends of such a path achieve together: nothing but what
  was sent is delivered, and nothing twice.
\<close>

section \<open>The agent's receiving loop\<close>

definition p2pUDPIdleLimit :: int where
  "p2pUDPIdleLimit = (45 * second) div (500 * millisecond)"

definition p2pUDPResetsIdle :: "nat \<Rightarrow> bytes \<Rightarrow> bool" where
  "p2pUDPResetsIdle n buf =
     (if n = 0 \<or> length buf < 4 then False else n \<ge> PunchPacketSize \<and> take 4 buf = put_be32 PunchMagic)"

text \<open>
  The state of the loop: the count of read deadlines that passed in a row, whether the session was
  cancelled, the session's replay window and the reassembler, which all sessions share.
\<close>

record agent_link =
  timeoutCount :: int
  cancelled :: bool
  link_replay :: ReplayWindow
  link_reassembler :: Reassembler

definition new_link :: "Reassembler \<Rightarrow> agent_link" where
  "new_link ra = \<lparr>timeoutCount = 0, cancelled = False, link_replay = empty_window, link_reassembler = ra\<rparr>"

datatype link_input =
    ReadDeadline | ReadOther | ReadPacket time AddrPort bytes
  | OtherSession time bool UDPHeader bytes | CleanLink time "reassemblyKey list"

fun agent_receive ::
  "AddrPort \<Rightarrow> P2PCodec \<Rightarrow> link_input \<Rightarrow> agent_link \<Rightarrow> agent_link \<times> bytes option" where
  "agent_receive peer codec ReadDeadline l =
     (let n = timeoutCount l + 1
      in (l\<lparr>timeoutCount := n, cancelled := cancelled l \<or> n \<ge> p2pUDPIdleLimit\<rparr>, None))"
| "agent_receive peer codec ReadOther l = (l, None)"
| "agent_receive peer codec (ReadPacket now remote packet) l =
     (if ap_port remote \<noteq> ap_port peer \<or> Unmap (ap_addr remote) \<noteq> Unmap (ap_addr peer) then (l, None)
      else let l = l\<lparr>timeoutCount := 0\<rparr> in
      if p2pUDPResetsIdle (length packet) packet then (l, None)
      else case p2p_decode codec packet of
        Inl _ \<Rightarrow> (l, None)
      | Inr datagram \<Rightarrow>
          (case DecodeUDP datagram of
             Inl _ \<Rightarrow> (l, None)
           | Inr (hdr, payload) \<Rightarrow>
               if seenLocked (link_replay l) (PacketID hdr) then (l, None)
               else (case FeedAppend now False hdr payload (link_reassembler l) of
                 (ra, Inr (Some assembled)) \<Rightarrow>
                   (case MarkCompleted (link_replay l) (PacketID hdr) of (w, fresh) \<Rightarrow>
                      (l\<lparr>link_reassembler := ra, link_replay := w\<rparr>, if fresh then Some assembled else None))
               | (ra, _) \<Rightarrow> (l\<lparr>link_reassembler := ra\<rparr>, None))))"
| "agent_receive peer codec (OtherSession now dst_nil hdr payload) l =
     (l\<lparr>link_reassembler := fst (FeedAppend now dst_nil hdr payload (link_reassembler l))\<rparr>, None)"
| "agent_receive peer codec (CleanLink now order) l =
     (l\<lparr>link_reassembler := cleaner_tick now order (link_reassembler l)\<rparr>, None)"

declare agent_receive.simps [simp del]

text \<open>A cancelled session reads nothing more.\<close>

fun agent_receive_all ::
  "AddrPort \<Rightarrow> P2PCodec \<Rightarrow> link_input list \<Rightarrow> agent_link \<Rightarrow> agent_link \<times> bytes option list" where
  "agent_receive_all peer codec [] l = (l, [])"
| "agent_receive_all peer codec (i # is) l =
     (if cancelled l then (l, [])
      else case agent_receive peer codec i l of (l', res) \<Rightarrow>
        (case agent_receive_all peer codec is l' of (l'', ress) \<Rightarrow> (l'', res # ress)))"

section \<open>The agent's sending loop\<close>

text \<open>
  One packet read from the local RDP service. The packet counter is shared by all the agent's loops;
  a failed write ends the packet and is ignored.
\<close>

definition agent_p2p_send ::
  "('s \<Rightarrow> bytes \<Rightarrow> 's \<times> unit option) \<Rightarrow> Fragmenter \<Rightarrow> bytes \<Rightarrow> bytes \<Rightarrow> u32 \<Rightarrow> P2PCodec \<Rightarrow> bytes \<Rightarrow> u32 \<Rightarrow> 's \<Rightarrow> u32 \<times> 's" where
  "agent_p2p_send write f buf sendBuf sid codec packet nextID s =
     (let packetID = nextID + 1
      in (packetID, fst (Fragment f buf sid packetID packet
            (\<lambda>s datagram. write s (p2p_encode codec sendBuf datagram)) s)))"

text \<open>The loop interleaved with the other loops' use of the counter, which is \<open>None\<close> here.\<close>

fun agent_p2p_send_all ::
  "('s \<Rightarrow> bytes \<Rightarrow> 's \<times> unit option) \<Rightarrow> Fragmenter \<Rightarrow> bytes \<Rightarrow> bytes \<Rightarrow> u32 \<Rightarrow> P2PCodec
     \<Rightarrow> bytes option list \<Rightarrow> u32 \<Rightarrow> 's \<Rightarrow> u32 \<times> 's" where
  "agent_p2p_send_all write f buf sendBuf sid codec [] n s = (n, s)"
| "agent_p2p_send_all write f buf sendBuf sid codec (None # ps) n s =
     agent_p2p_send_all write f buf sendBuf sid codec ps (n + 1) s"
| "agent_p2p_send_all write f buf sendBuf sid codec (Some packet # ps) n s =
     (case agent_p2p_send write f buf sendBuf sid codec packet n s of (n', s') \<Rightarrow>
        agent_p2p_send_all write f buf sendBuf sid codec ps n' s')"

section \<open>What both receivers do with a packet\<close>

type_synonym link_state = "Reassembler \<times> ReplayWindow"

definition accept_packet ::
  "time \<Rightarrow> P2PCodec \<Rightarrow> bytes \<Rightarrow> link_state \<Rightarrow> link_state \<times> bytes option" where
  "accept_packet now codec packet = (\<lambda>(ra, w). case p2p_decode codec packet of
     Inl _ \<Rightarrow> ((ra, w), None)
   | Inr datagram \<Rightarrow> (case DecodeUDP datagram of
       Inl _ \<Rightarrow> ((ra, w), None)
     | Inr (h, payload) \<Rightarrow>
         if seenLocked w (PacketID h) then ((ra, w), None)
         else (case FeedAppend now False h payload ra of
           (ra, Inr (Some x)) \<Rightarrow> (case MarkCompleted w (PacketID h) of (w, fresh) \<Rightarrow>
              ((ra, w), if fresh then Some x else None))
         | (ra, _) \<Rightarrow> ((ra, w), None))))"

text \<open>The events as the shared part sees them.\<close>

datatype link_event = OnWire time bytes | Elsewhere reassembly_event | Idle

fun link_step :: "P2PCodec \<Rightarrow> link_event \<Rightarrow> link_state \<Rightarrow> link_state \<times> bytes option" where
  "link_step codec (OnWire now packet) st = accept_packet now codec packet st"
| "link_step codec (Elsewhere ev) (ra, w) = ((fst (reassembly_step ev ra), w), None)"
| "link_step codec Idle st = (st, None)"

fun link_run :: "P2PCodec \<Rightarrow> link_event list \<Rightarrow> link_state \<Rightarrow> link_state \<times> bytes option list" where
  "link_run codec [] st = (st, [])"
| "link_run codec (ev # evs) st = (case link_step codec ev st of (st', res) \<Rightarrow>
     (case link_run codec evs st' of (st'', ress) \<Rightarrow> (st'', res # ress)))"

definition delivered :: "bytes option list \<Rightarrow> bytes list" where
  "delivered rs = List.map_filter id rs"

lemma delivered_simps [simp]:
  "delivered [] = []" "delivered (None # rs) = delivered rs" "delivered (Some x # rs) = x # delivered rs"
  by (simp_all add: delivered_def map_filter_def)

section \<open>Packets under way\<close>

text \<open>
  The packets sent, each with its number counted without wrap-around: the numbers are distinct and
  span less than 2^31, and every packet is one that can be reassembled.
\<close>

definition numbered :: "Fragmenter \<Rightarrow> (int \<times> bytes) list \<Rightarrow> bool" where
  "numbered f sent \<longleftrightarrow> valid_fragmenter f \<and> distinct (map fst sent)
     \<and> (\<forall>(t, p)\<in>set sent. length p \<le> MaxUDPPacketSize \<and> numFrags f p \<le> MaxUDPFragments)
     \<and> (\<forall>x\<in>set sent. \<forall>y\<in>set sent. \<bar>fst x - fst y\<bar> < 2 ^ 31)"

definition sent_wire :: "P2PCodec \<Rightarrow> Fragmenter \<Rightarrow> (int \<times> bytes) list \<Rightarrow> bytes set" where
  "sent_wire codec f sent = (\<Union>(t, p)\<in>set sent. p2p_encode codec [] `
     set (the (datagrams f (codec_session codec) (of_int t) p)))"

text \<open>
  The fragments of the packets sent, as they look to the receiver: with the number of the packet cut
  to 32 bits.
\<close>

definition sent_parts :: "Fragmenter \<Rightarrow> (int \<times> bytes) list \<Rightarrow> part set" where
  "sent_parts f sent = (\<Union>(t, p)\<in>set sent.
     (\<lambda>i. (of_int t, max 1 (numFrags f p), i, chunk f p i)) ` {..<max 1 (numFrags f p)})"

lemma sent_partsE:
  assumes "(pid, n, i, x) \<in> sent_parts f sent"
  obtains t p where "(t, p) \<in> set sent" "pid = of_int t" "n = max 1 (numFrags f p)" "i < n" "x = chunk f p i"
  using assms by (auto simp: sent_parts_def)

text \<open>A packet on the wire is one fragment of one packet sent.\<close>

lemma sent_wire_cases:
  assumes "numbered f sent" "packet \<in> sent_wire codec f sent"
  obtains t p i n where "(t, p) \<in> set sent" "i < n" "n = max 1 (numFrags f p)" "n \<le> MaxUDPFragments"
    "packet = p2p_encode codec [] (EncodeUDP [] (codec_session codec) (of_int t) (of_nat i) (of_nat n) (chunk f p i))"
proof -
  obtain t p d where tp: "(t, p) \<in> set sent" and packet: "packet = p2p_encode codec [] d"
    and d: "d \<in> set (the (datagrams f (codec_session codec) (of_int t) p))"
    using assms(2) by (auto simp: sent_wire_def)
  have f: "valid_fragmenter f" and n: "numFrags f p \<le> MaxUDPFragments"
    using assms(1) tp by (auto simp: numbered_def)
  show ?thesis
  proof (cases "p = []")
    case True
    then have "numFrags f p = 0" using numFrags_le_iff [OF f, of p 0] by simp
    moreover have "d = EncodeUDP [] (codec_session codec) (of_int t) (of_nat 0) (of_nat 1) (chunk f p 0)"
      using True d by (simp add: datagrams_def)
    ultimately show ?thesis
      by (intro that [OF tp, of 0 1]) (simp_all only: packet, simp_all add: udp_consts)
  next
    case False
    then have "max 1 (numFrags f p) = numFrags f p" using numFrags_pos [OF f] by (simp add: Suc_le_eq)
    moreover obtain i where "i < numFrags f p" "d = EncodeUDP [] (codec_session codec) (of_int t)
        (of_nat i) (of_nat (numFrags f p)) (chunk f p i)"
      using False d n by (auto simp: datagrams_def)
    ultimately show ?thesis
      using packet n by (intro that [OF tp, of i "numFrags f p"]) simp_all
  qed
qed

lemma sent_wire_part:
  assumes "numbered f sent" "packet \<in> sent_wire codec f sent"
    "p2p_decode codec packet = Inr d" "DecodeUDP d = Inr (h, x)"
  shows "SessionID h = codec_session codec \<and> part_of h x \<in> sent_parts f sent"
proof -
  obtain t p i n where tp: "(t, p) \<in> set sent" and n: "i < n" "n = max 1 (numFrags f p)"
    "n \<le> MaxUDPFragments" and packet: "packet = p2p_encode codec []
      (EncodeUDP [] (codec_session codec) (of_int t) (of_nat i) (of_nat n) (chunk f p i))"
    using sent_wire_cases [OF assms(1,2)] by metis
  have "h = data_header (codec_session codec) (of_int t) (of_nat i) (of_nat n)" "x = chunk f p i"
    using assms(3,4) datagram_decodes [OF n(1,3)] unfolding packet p2p_decode_encode by auto
  moreover have "n < 2 ^ 8" "i < 2 ^ 8" using n(1,3) by (simp_all add: udp_consts)
  ultimately have "SessionID h = codec_session codec \<and> part_of h x = (of_int t, n, i, chunk f p i)"
    by (simp add: part_of_def unat_of_nat)
  moreover have "(of_int t, n, i, chunk f p i) \<in> sent_parts f sent"
    using tp n(1,2) unfolding sent_parts_def by fastforce
  ultimately show ?thesis by simp
qed

text \<open>What is made of the fragments of one end's packets only is one of these packets.\<close>

lemma made_of_sent:
  assumes num: "numbered f sent" and near: "\<forall>y\<in>set sent. \<bar>t - fst y\<bar> < 2 ^ 31"
    and made: "made_of (sent_parts f sent) (of_int t) d"
  shows "(t, d) \<in> set sent"
proof -
  obtain n xs where n: "0 < n" "length xs = n" "d = concat xs"
    and xs: "\<forall>i<n. ((of_int t :: u32), n, i, xs ! i) \<in> sent_parts f sent"
    using made by (auto simp: made_of_def)
  have same: "t' = t" if "(t', p) \<in> set sent" "(of_int t :: u32) = of_int t'" for t' p
  proof -
    have "\<bar>t - t'\<bar> < 2 ^ 31" using near that(1) by fastforce
    moreover have "sint ((of_int t :: u32) - of_int t') = 0" using that(2) by simp
    ultimately show ?thesis using serial_delta by force
  qed
  obtain p where p: "(t, p) \<in> set sent" "n = max 1 (numFrags f p)"
    using xs n(1) same by (blast elim: sent_partsE)
  have "xs ! i = chunk f p i" if i: "i < n" for i
  proof -
    obtain t' p' where "(t', p') \<in> set sent" "(of_int t :: u32) = of_int t'" "xs ! i = chunk f p' i"
      using xs i by (blast elim: sent_partsE)
    moreover from this have "p' = p"
      using same p(1) num by (auto simp: numbered_def dest: eq_key_imp_eq_value)
    ultimately show ?thesis by simp
  qed
  then have "xs = map (chunk f p) [0..<n]" using n(2) by (auto intro: nth_equalityI)
  moreover have "length p \<le> n * maxPayload f"
    using numFrags_le_iff [of f p n] p num by (auto simp: numbered_def)
  ultimately have "d = p" using n(3) by (simp add: concat_chunks_take)
  then show ?thesis using p(1) by simp
qed

section \<open>One event of a link\<close>

text \<open>
  The events of a link whose packets all carry fragments from \<open>A\<close>; the reassembler's other traffic
  belongs to other sessions.
\<close>

fun brings :: "P2PCodec \<Rightarrow> part set \<Rightarrow> link_event \<Rightarrow> bool" where
  "brings codec A (OnWire now packet) = (\<forall>d h x. p2p_decode codec packet = Inr d \<longrightarrow>
     DecodeUDP d = Inr (h, x) \<longrightarrow> SessionID h = codec_session codec \<and> part_of h x \<in> A)"
| "brings codec A (Elsewhere ev) =
     (\<forall>now dst_nil h x. ev = Arrive now dst_nil h x \<longrightarrow> SessionID h \<noteq> codec_session codec)"
| "brings codec A Idle = True"

text \<open>
  The reassembler holds such fragments only, and the replay window knows which numbers, taken from
  \<open>N\<close>, were completed.
\<close>

definition link_inv :: "part set \<Rightarrow> int set \<Rightarrow> u32 \<Rightarrow> int list \<Rightarrow> link_state \<Rightarrow> bool" where
  "link_inv A N sid past st \<longleftrightarrow> (case st of (ra, w) \<Rightarrow>
     sourced A sid ra \<and> set past \<subseteq> N \<and> (\<exists>a. window_rel w a \<and> abs_inv past a))"

definition narrow :: "int set \<Rightarrow> bool" where
  "narrow N \<longleftrightarrow> (\<forall>x\<in>N. \<forall>y\<in>N. \<bar>x - y\<bar> < 2 ^ 31)"

lemma link_inv_start:
  assumes "reassembler_ok ra" "\<forall>pid. fmlookup (pending ra) (sid, pid) = None"
  shows "link_inv A N sid [] (ra, empty_window)"
proof -
  have "abs_inv [] None" by (simp add: abs_inv_def)
  with window_rel_empty have "\<exists>a. window_rel empty_window a \<and> abs_inv [] a" by blast
  then show ?thesis using assms by (simp add: link_inv_def sourced_start)
qed

lemma mark_delivers:
  assumes "narrow N" "t \<in> N" "set past \<subseteq> N" "window_rel w a" "abs_inv past a"
    "MarkCompleted w (of_int t) = (w', b)"
  obtains a' where "window_rel w' a'" "abs_inv (past @ [t]) a'" "b \<longrightarrow> t \<notin> set past"
proof -
  obtain a' b' where am: "abs_mark a t = (a', b')" by fastforce
  have near: "\<bar>t - hi\<bar> < 2 ^ 31" if "a = Some (hi, S)" for hi S
  proof -
    have "hi \<in> set past" using assms(5) that by (auto simp: abs_inv_def intro: Max_in)
    then show ?thesis using assms(1,2,3) by (auto simp: narrow_def)
  qed
  have "b = b' \<and> window_rel w' a'" using assms(4) near assms(6) am by (rule window_step)
  moreover note abs_mark_inv [OF assms(5) am]
  ultimately show ?thesis by (intro that [of a']) simp_all
qed

text \<open>
  An event either delivers a packet made of such fragments whose number was not completed before, or
  delivers nothing; at most one number is completed by it.
\<close>

lemma link_step_inv:
  assumes num: "narrow N" "\<forall>(pid, n, i, x)\<in>A. \<exists>t\<in>N. pid = of_int t"
    and inv: "link_inv A N (codec_session codec) past (ra, w)"
    and brings: "brings codec A ev" and step: "link_step codec ev (ra, w) = (st', res)"
  shows "\<exists>ts. link_inv A N (codec_session codec) (past @ ts) st' \<and> (res = None \<or>
    (\<exists>t d. ts = [t] \<and> t \<in> N \<and> t \<notin> set past \<and> made_of A (of_int t) d \<and> res = Some d))"
proof -
  let ?sid = "codec_session codec"
  have src: "sourced A ?sid ra" and past: "set past \<subseteq> N" using inv by (auto simp: link_inv_def)
  obtain a where a: "window_rel w a" "abs_inv past a" using inv by (auto simp: link_inv_def)
  have stay: ?thesis if "st' = (ra, w)" "res = None"
    using inv that by (intro exI [of _ "[]"]) simp
  have fed_only: ?thesis if "st' = (ra', w)" "res = None" "sourced A ?sid ra'" for ra'
    using inv that by (intro exI [of _ "[]"]) (simp add: link_inv_def)
  show ?thesis
  proof (cases ev)
    case (OnWire now packet)
    consider "\<forall>d. p2p_decode codec packet = Inr d \<longrightarrow> (\<forall>y. DecodeUDP d \<noteq> Inr y)"
      | d h x where "p2p_decode codec packet = Inr d" "DecodeUDP d = Inr (h, x)" by auto
    then show ?thesis
    proof cases
      case 1
      then show ?thesis using step OnWire
        by (intro stay) (auto simp: accept_packet_def split: sum.splits)
    next
      case (2 d h x)
      then have part: "SessionID h = ?sid" "part_of h x \<in> A" using brings OnWire by auto
      then obtain t where t: "t \<in> N" "PacketID h = of_int t" using num(2) by (auto simp: part_of_def)
      obtain ra' r where fed: "FeedAppend now False h x ra = (ra', r)" by fastforce
      obtain w' b where mark: "MarkCompleted w (of_int t) = (w', b)" by fastforce
      have acc: "accept_packet now codec packet (ra, w) = (if seenLocked w (of_int t) then ((ra, w), None)
          else case r of Inr (Some d) \<Rightarrow> ((ra', w'), if b then Some d else None) | _ \<Rightarrow> ((ra', w), None))"
        unfolding accept_packet_def prod.case 2 sum.case fed t(2) mark by (rule refl)
      note src' = FeedAppend_sourced [OF src _ fed]
      consider "seenLocked w (of_int t)" | "\<not> seenLocked w (of_int t)" "\<nexists>d. r = Inr (Some d)"
        | d where "\<not> seenLocked w (of_int t)" "r = Inr (Some d)" by blast
      then show ?thesis
      proof cases
        case 1
        then show ?thesis using acc step OnWire by (intro stay) simp_all
      next
        case 2
        then have "st' = (ra', w)" "res = None"
          using acc step OnWire by (auto split: sum.splits option.splits)
        then show ?thesis using conjunct1 [OF src'] part(2) by (intro fed_only) simp_all
      next
        case (3 d)
        from mark_delivers [OF num(1) t(1) past a mark] obtain a' where
          "window_rel w' a'" "abs_inv (past @ [t]) a'" "b \<longrightarrow> t \<notin> set past" .
        moreover have "st' = (ra', w')" "res = (if b then Some d else None)"
          using 3 acc step OnWire by simp_all
        moreover have "sourced A ?sid ra' \<and> made_of A (of_int t) d"
          using src' [of d] part 3(2) t(2) by simp
        ultimately show ?thesis
          using past t(1) by (intro exI [of _ "[t]"]) (auto simp: link_inv_def)
      qed
    qed
  next
    case (Elsewhere e)
    then have "st' = (fst (reassembly_step e ra), w)" "res = None" using step by auto
    moreover have "sourced A ?sid (fst (reassembly_step e ra))"
      using reassembly_step_sourced [OF src] brings Elsewhere by auto
    ultimately show ?thesis by (rule fed_only)
  next
    case Idle
    then show ?thesis using step by (intro stay) auto
  qed
qed

lemma link_run_inv:
  assumes "narrow N" "\<forall>(pid, n, i, x)\<in>A. \<exists>t\<in>N. pid = of_int t"
    "link_inv A N (codec_session codec) past st"
    "\<forall>ev\<in>set evs. brings codec A ev" "link_run codec evs st = (st', ress)"
  shows "\<exists>tds. distinct (map fst tds) \<and> fst ` set tds \<inter> set past = {} \<and> delivered ress = map snd tds
    \<and> (\<forall>(t, d)\<in>set tds. t \<in> N \<and> made_of A (of_int t) d)"
  using assms(3-)
proof (induction evs arbitrary: past st st' ress)
  case Nil
  then show ?case by simp
next
  case (Cons ev evs)
  obtain ra w where st: "st = (ra, w)" by fastforce
  obtain st1 res where step: "link_step codec ev (ra, w) = (st1, res)" by fastforce
  obtain st2 rs where run: "link_run codec evs st1 = (st2, rs)" by fastforce
  have ress: "ress = res # rs" using Cons.prems(3) step run by (simp add: st)
  have "link_inv A N (codec_session codec) past (ra, w)" "brings codec A ev"
    using Cons.prems(1,2) by (simp_all add: st)
  from link_step_inv [OF assms(1,2) this step] obtain ts where
    ts: "link_inv A N (codec_session codec) (past @ ts) st1" "res = None \<or>
      (\<exists>t d. ts = [t] \<and> t \<in> N \<and> t \<notin> set past \<and> made_of A (of_int t) d \<and> res = Some d)"
    by blast
  from Cons.IH [OF ts(1) _ run] Cons.prems(2) obtain tds where
    tds: "distinct (map fst tds)" "fst ` set tds \<inter> set (past @ ts) = {}" "delivered rs = map snd tds"
      "\<forall>(t, d)\<in>set tds. t \<in> N \<and> made_of A (of_int t) d" by auto
  from ts(2) show ?case
  proof
    assume "res = None"
    then show ?thesis using tds ress by (intro exI [of _ tds]) auto
  next
    assume "\<exists>t d. ts = [t] \<and> t \<in> N \<and> t \<notin> set past \<and> made_of A (of_int t) d \<and> res = Some d"
    then obtain t d where "ts = [t]" "t \<in> N" "t \<notin> set past" "made_of A (of_int t) d" "res = Some d" by blast
    then show ?thesis using tds ress by (intro exI [of _ "(t, d) # tds"]) auto
  qed
qed

section \<open>The senders\<close>

text \<open>The numbers that consecutive uses of a counter get; \<open>None\<close> is a use for something else.\<close>

fun number_from :: "int \<Rightarrow> bytes option list \<Rightarrow> (int \<times> bytes) list" where
  "number_from t [] = []"
| "number_from t (None # ps) = number_from (t + 1) ps"
| "number_from t (Some p # ps) = (t, p) # number_from (t + 1) ps"

lemma number_from_mem:
  "(t', p) \<in> set (number_from t ps) \<longleftrightarrow>
     t \<le> t' \<and> t' < t + int (length ps) \<and> ps ! nat (t' - t) = Some p"
proof (induction t ps rule: number_from.induct)
  case (2 t ps)
  have "nat (t' - t) = Suc (nat (t' - (t + 1)))" if "t < t'" using that by linarith
  then show ?case using 2 by (cases "t' = t") auto
next
  case (3 t p' ps)
  have "nat (t' - t) = Suc (nat (t' - (t + 1)))" if "t < t'" using that by linarith
  then show ?case using 3 by (cases "t' = t") auto
qed simp

lemma distinct_number_from: "distinct (map fst (number_from t ps))"
proof (induction t ps rule: number_from.induct)
  case (3 t p ps)
  have "t \<notin> fst ` set (number_from (t + 1) ps)" using number_from_mem by force
  with 3 show ?case by simp
qed simp_all

lemma numbered_number_from:
  assumes "valid_fragmenter f" "length ps < 2 ^ 31"
    "\<forall>p. Some p \<in> set ps \<longrightarrow> length p \<le> MaxUDPPacketSize \<and> numFrags f p \<le> MaxUDPFragments"
  shows "numbered f (number_from t ps)"
proof -
  have "Some p \<in> set ps" if "(t', p) \<in> set (number_from t ps)" for t' p
    using that unfolding number_from_mem by (metis nat_less_iff diff_ge_0_iff_ge nth_mem add.commute diff_less_eq)
  moreover have "\<bar>t1 - t2\<bar> < 2 ^ 31" if "(t1, p1) \<in> set (number_from t ps)" "(t2, p2) \<in> set (number_from t ps)" for t1 t2 p1 p2
  proof -
    have "int (length ps) < 2 ^ 31" using assms(2) by simp
    then show ?thesis using that unfolding number_from_mem by linarith
  qed
  ultimately show ?thesis
    using assms distinct_number_from by (fastforce simp: numbered_def)
qed

text \<open>Deliveries of numbered packets, by position in the list of uses of the counter.\<close>

lemma numbered_positions:
  assumes "distinct (map fst tps)" "set tps \<subseteq> set (number_from t ps)"
  shows "\<exists>ks. distinct ks \<and> set ks \<subseteq> {..<length ps} \<and> map Some (map snd tps) = map ((!) ps) ks"
proof (intro exI conjI)
  let ?k = "\<lambda>x. nat (fst x - t)"
  have mem: "t \<le> fst x" "fst x < t + int (length ps)" "ps ! ?k x = Some (snd x)" if "x \<in> set tps" for x
    using that assms(2) number_from_mem [of "fst x" "snd x" t ps] by auto
  have "inj_on ?k (set tps)"
  proof (rule inj_onI)
    fix x y assume xy: "x \<in> set tps" "y \<in> set tps" "?k x = ?k y"
    then have "fst x = fst y" using mem(1) by (simp add: nat_eq_iff2)
    then show "x = y" using assms(1) xy by (auto simp: distinct_map inj_on_def)
  qed
  then show "distinct (map ?k tps)"
    using assms(1) by (simp add: distinct_map)
  show "set (map ?k tps) \<subseteq> {..<length ps}" using mem(1,2) by fastforce
  show "map Some (map snd tps) = map ((!) ps) (map ?k tps)" using mem(3) by simp
qed

text \<open>A write that is recorded whether it fails or not.\<close>

definition record_write :: "(bytes list \<Rightarrow> bytes \<Rightarrow> bool) \<Rightarrow> bytes list \<Rightarrow> bytes \<Rightarrow> bytes list \<times> unit option" where
  "record_write fails s packet = (s @ [packet], if fails s packet then Some () else None)"

lemma feed_record_write:
  "set (fst (feed_handler (\<lambda>s d. record_write fails s (enc d)) s ds)) \<subseteq> set s \<union> enc ` set ds"
proof (induction ds arbitrary: s)
  case (Cons d ds)
  then show ?case using Cons [of "s @ [enc d]"] by (auto simp: record_write_def)
qed simp

lemma p2p_encode_any: "p2p_encode codec buf = p2p_encode codec []"
  by (simp add: fun_eq_iff p2p_encode_layout)

lemma agent_p2p_send_all_wire:
  assumes "\<forall>p. Some p \<in> set ps \<longrightarrow> datagrams f (codec_session codec) 0 p \<noteq> None"
  shows "set (snd (agent_p2p_send_all (record_write fails) f buf sendBuf (codec_session codec) codec ps (of_int t) s))
    \<subseteq> set s \<union> sent_wire codec f (number_from (t + 1) ps)"
  using assms
proof (induction ps arbitrary: t s)
  case (Cons a ps)
  have next_id: "(of_int t :: u32) + 1 = of_int (t + 1)" by simp
  show ?case
  proof (cases a)
    case None
    then show ?thesis using Cons.IH [of "t + 1" s] Cons.prems by simp
  next
    case (Some p)
    have "datagrams f (codec_session codec) (of_int (t + 1)) p \<noteq> None"
      using Cons.prems Some datagrams_pid [of f "codec_session codec" 0 p "codec_session codec" "of_int (t + 1)"]
      by simp
    then obtain ds where ds: "datagrams f (codec_session codec) (of_int (t + 1)) p = Some ds" by blast
    define s' where "s' = fst (feed_handler (\<lambda>s d. record_write fails s (p2p_encode codec [] d)) s ds)"
    have "agent_p2p_send (record_write fails) f buf sendBuf (codec_session codec) codec p (of_int t) s
        = (of_int (t + 1), s')"
      unfolding agent_p2p_send_def Let_def next_id Fragment_datagrams ds option.case s'_def
        p2p_encode_any [of codec sendBuf] by (rule refl)
    moreover have "set s' \<subseteq> set s \<union> p2p_encode codec [] ` set ds"
      unfolding s'_def by (rule feed_record_write)
    ultimately show ?thesis
      using Cons.IH [of "t + 1" s'] Cons.prems Some ds by (auto simp: sent_wire_def)
  qed
qed simp

text \<open>The controller's manager sending packets one after the other, with errors ignored.\<close>

fun send_all :: "'s network \<Rightarrow> bytes list \<Rightarrow> Manager \<Rightarrow> 's \<Rightarrow> Manager \<times> 's" where
  "send_all net [] m s = (m, s)"
| "send_all net (p # ps) m s = (case SendUDP net p m s of (m', s', e) \<Rightarrow> send_all net ps m' s')"

definition recording :: "(bytes list \<Rightarrow> bytes \<Rightarrow> bool) \<Rightarrow> bytes \<Rightarrow> bytes \<Rightarrow> (bytes list) network" where
  "recording fails fbuf sbuf = \<lparr>write_direct = \<lambda>_. record_write fails, send_relay = \<lambda>s _. (s, None),
     frag_buf = fbuf, send_buf = sbuf\<rparr>"

lemma feed_relay_idle: "fst (feed_handler (\<lambda>s _. (s, None)) s ds) = s"
  by (induction ds) auto

definition keeps_sender :: "Manager \<Rightarrow> Manager \<Rightarrow> bool" where
  "keeps_sender m m' \<longleftrightarrow> p2pCodec m' = p2pCodec m \<and> fragmenter m' = fragmenter m \<and> pm_sessionID m' = pm_sessionID m"

lemma SendUDP_not_direct:
  assumes "\<not> direct_udp (udpPath m)" "SendUDP (recording fails b1 b2) p m s = (m', s', e)"
  shows "s' = s \<and> \<not> direct_udp (udpPath m') \<and> keeps_sender m m'"
proof -
  have idle: "fst (Fragment f buf sid pid p (\<lambda>s _. (s, None)) s) = s" for f buf sid pid
    by (auto simp: Fragment_datagrams feed_relay_idle split: option.splits)
  obtain s1 e1 where frag: "Fragment (fragmenter m) b1 (pm_sessionID m) (nextPacketID m + 1) p (\<lambda>s _. (s, None)) s
      = (s1, e1 :: unit fragment_error option)" by fastforce
  then have "s1 = s" using idle by (metis fst_conv)
  then show ?thesis
    using assms frag
    by (auto simp: SendUDP.simps [of _ p m s] recording_def keeps_sender_def Let_def
        split: if_splits)
qed

lemma SendUDP_records:
  assumes "p2pCodec m = Some codec" "pm_sessionID m = codec_session codec"
    "datagrams (fragmenter m) (codec_session codec) (nextPacketID m + 1) p = Some ds"
    "SendUDP (recording fails b1 b2) p m s = (m', s', e)"
  shows "set s' \<subseteq> set s \<union> p2p_encode codec [] ` set ds \<and> keeps_sender m m'
    \<and> (direct_udp (udpPath m') \<longrightarrow> nextPacketID m' = nextPacketID m + 1)"
proof -
  let ?m1 = "m\<lparr>nextPacketID := nextPacketID m + 1\<rparr>"
  have fall: "set s' \<subseteq> set s0 \<and> keeps_sender m m' \<and> \<not> direct_udp (udpPath m')"
    if "SendUDP (recording fails b1 b2) p (FallbackUDPFromDirect ?m1) s0 = (m', s', e)" for s0
    using SendUDP_not_direct [OF fallback_not_direct that] by (auto simp: keeps_sender_def)
  consider "\<not> direct_udp (udpPath m)"
    | "direct_udp (udpPath m)" "\<nexists>r. directUDPPunch m = Some r \<and> pr_conn r"
    | r where "direct_udp (udpPath m)" "directUDPPunch m = Some r" "pr_conn r" by blast
  then show ?thesis
  proof cases
    case 1
    then show ?thesis using SendUDP_not_direct assms(4) by blast
  next
    case 2
    then have "udpPath m \<noteq> PathDisabled" by (auto simp: direct_udp_def)
    then have "SendUDP (recording fails b1 b2) p m s
        = SendUDP (recording fails b1 b2) p (FallbackUDPFromDirect ?m1) s"
      using 2 by (auto simp: SendUDP.simps [of _ p m s] Let_def split: option.splits)
    then show ?thesis using fall assms(4) by auto
  next
    case (3 r)
    let ?h = "\<lambda>s d. record_write fails s (p2p_encode codec [] d)"
    obtain s1 e1 where fh: "feed_handler ?h s ds = (s1, e1)" by fastforce
    have "set s1 \<subseteq> set s \<union> p2p_encode codec [] ` set ds"
      using feed_record_write [of fails "p2p_encode codec []" s ds] fh by simp
    moreover have "SendUDP (recording fails b1 b2) p m s = (case (s1, e1) of (s', None) \<Rightarrow> (?m1, s', None)
        | (s', Some _) \<Rightarrow> SendUDP (recording fails b1 b2) p (FallbackUDPFromDirect ?m1) s')"
      using SendUDP_direct_step [OF 3 assms(1), of "recording fails b1 b2" p s]
      unfolding assms(2) Fragment_datagrams assms(3) option.case
      by (simp add: recording_def p2p_encode_any [of codec b2] fh)
    ultimately show ?thesis
      using assms(4) fall by (cases e1) (auto simp: keeps_sender_def)
  qed
qed

lemma send_all_not_direct:
  "\<not> direct_udp (udpPath m) \<Longrightarrow> snd (send_all (recording fails b1 b2) ps m s) = s"
proof (induction ps arbitrary: m s)
  case (Cons p ps)
  obtain m' s' e where step: "SendUDP (recording fails b1 b2) p m s = (m', s', e)"
    by (metis prod.exhaust)
  then show ?case using SendUDP_not_direct [OF Cons.prems step] Cons.IH by simp
qed simp

lemma send_all_wire:
  assumes "p2pCodec m = Some codec" "pm_sessionID m = codec_session codec" "fragmenter m = f"
    "nextPacketID m = of_int t" "\<forall>p\<in>set ps. datagrams f (codec_session codec) 0 p \<noteq> None"
  shows "set (snd (send_all (recording fails b1 b2) ps m s))
    \<subseteq> set s \<union> sent_wire codec f (number_from (t + 1) (map Some ps))"
  using assms
proof (induction ps arbitrary: m s t)
  case (Cons p ps)
  obtain m' s' e where step: "SendUDP (recording fails b1 b2) p m s = (m', s', e)"
    by (metis prod.exhaust)
  have id: "nextPacketID m + 1 = of_int (t + 1)" using Cons.prems(4) by simp
  have "datagrams f (codec_session codec) (of_int (t + 1)) p \<noteq> None"
    using Cons.prems(5) datagrams_pid [of f "codec_session codec" 0 p "codec_session codec" "of_int (t + 1)"]
    by simp
  then obtain ds where ds: "datagrams f (codec_session codec) (of_int (t + 1)) p = Some ds" by blast
  have d: "datagrams (fragmenter m) (codec_session codec) (nextPacketID m + 1) p = Some ds"
    using ds unfolding id Cons.prems(3) .
  note r = SendUDP_records [OF Cons.prems(1,2) d step]
  have first: "set s' \<subseteq> set s \<union> sent_wire codec f (number_from (t + 1) (map Some (p # ps)))"
    using r ds by (auto simp: sent_wire_def)
  have "set (snd (send_all (recording fails b1 b2) ps m' s'))
      \<subseteq> set s' \<union> sent_wire codec f (number_from (t + 1) (map Some (p # ps)))"
  proof (cases "direct_udp (udpPath m')")
    case True
    then have "nextPacketID m' = of_int (t + 1)" using r id by simp
    then show ?thesis
      using Cons.IH [of m' "t + 1" s'] r Cons.prems by (auto simp: keeps_sender_def sent_wire_def)
  next
    case False
    then show ?thesis using send_all_not_direct by (metis Un_upper1)
  qed
  then show ?case using first step by auto
qed simp

section \<open>The receivers\<close>

text \<open>The receiving goroutine of a manager on a direct path, with the cleaner of its reassembler.\<close>

datatype inbox = Packet time AddrPort bytes | Cleaning time "reassemblyKey list"

fun recv_inbox :: "punch_result \<Rightarrow> P2PCodec \<Rightarrow> inbox \<Rightarrow> Manager \<Rightarrow> Manager \<times> bytes option" where
  "recv_inbox r codec (Packet now remote packet) m = recv_direct now r codec remote packet m"
| "recv_inbox r codec (Cleaning now order) m =
     (m\<lparr>reassembler := cleaner_tick now order (reassembler m)\<rparr>, None)"

fun recv_all :: "punch_result \<Rightarrow> P2PCodec \<Rightarrow> inbox list \<Rightarrow> Manager \<Rightarrow> Manager \<times> bytes option list" where
  "recv_all r codec [] m = (m, [])"
| "recv_all r codec (i # is) m = (case recv_inbox r codec i m of (m', res) \<Rightarrow>
     (case recv_all r codec is m' of (m'', ress) \<Rightarrow> (m'', res # ress)))"

fun inbox_event :: "punch_result \<Rightarrow> inbox \<Rightarrow> link_event" where
  "inbox_event r (Packet now remote packet) =
     (if \<not> sameAddrPort remote (pr_remote r) \<or> length packet \<ge> PunchPacketSize \<and> take 4 packet = put_be32 PunchMagic
      then Idle else OnWire now packet)"
| "inbox_event r (Cleaning now order) = Elsewhere (Tick now order)"

definition link_of :: "Manager \<Rightarrow> link_state" where
  "link_of m = (reassembler m, replayWindow m)"

lemma recv_inbox_link:
  "recv_inbox r codec i m = (m', res) \<Longrightarrow> link_step codec (inbox_event r i) (link_of m) = (link_of m', res)"
  by (cases i) (auto simp: recv_direct_def accept_packet_def link_of_def
      split: if_splits sum.splits option.splits prod.splits)

lemma recv_all_link:
  "recv_all r codec is m = (m', ress) \<Longrightarrow>
     link_run codec (map (inbox_event r) is) (link_of m) = (link_of m', ress)"
proof (induction "is" arbitrary: m m' ress)
  case (Cons i "is")
  obtain m1 res where 1: "recv_inbox r codec i m = (m1, res)" by fastforce
  obtain m2 rs where 2: "recv_all r codec is m1 = (m2, rs)" by fastforce
  then show ?case using Cons recv_inbox_link [OF 1] 1 by simp
qed simp

fun link_input_event :: "AddrPort \<Rightarrow> link_input \<Rightarrow> link_event" where
  "link_input_event peer (ReadPacket now remote packet) =
     (if ap_port remote \<noteq> ap_port peer \<or> Unmap (ap_addr remote) \<noteq> Unmap (ap_addr peer)
        \<or> p2pUDPResetsIdle (length packet) packet then Idle else OnWire now packet)"
| "link_input_event peer (OtherSession now dst_nil h payload) = Elsewhere (Arrive now dst_nil h payload)"
| "link_input_event peer (CleanLink now order) = Elsewhere (Tick now order)"
| "link_input_event peer _ = Idle"

definition agent_state :: "agent_link \<Rightarrow> link_state" where
  "agent_state l = (link_reassembler l, link_replay l)"

lemma agent_receive_link:
  "agent_receive peer codec i l = (l', res) \<Longrightarrow>
     link_step codec (link_input_event peer i) (agent_state l) = (agent_state l', res)"
  by (cases i) (auto simp: agent_receive.simps accept_packet_def agent_state_def Let_def
      split: if_splits sum.splits option.splits prod.splits)

lemma agent_receive_all_link:
  "agent_receive_all peer codec is l = (l', ress) \<Longrightarrow>
     \<exists>n. link_run codec (map (link_input_event peer) (take n is)) (agent_state l) = (agent_state l', ress)"
proof (induction "is" arbitrary: l l' ress)
  case (Cons i "is")
  show ?case
  proof (cases "cancelled l")
    case True
    then show ?thesis using Cons.prems by (intro exI [of _ 0]) simp
  next
    case False
    obtain l1 res where 1: "agent_receive peer codec i l = (l1, res)" by fastforce
    obtain l2 rs where 2: "agent_receive_all peer codec is l1 = (l2, rs)" by fastforce
    from Cons.IH [OF 2] obtain n where
      "link_run codec (map (link_input_event peer) (take n is)) (agent_state l1) = (agent_state l2, rs)" ..
    then show ?thesis
      using Cons.prems False 1 2 agent_receive_link [OF 1] by (intro exI [of _ "Suc n"]) simp
  qed
qed simp

text \<open>
  The packets sent by an end that are sent back to it: those of which a datagram is among the packets
  that arrive.
\<close>

definition echoed :: "P2PCodec \<Rightarrow> Fragmenter \<Rightarrow> bytes list \<Rightarrow> (int \<times> bytes) list \<Rightarrow> (int \<times> bytes) list" where
  "echoed codec f packets own = filter (\<lambda>x. \<exists>packet\<in>set packets. packet \<in> sent_wire codec f [x]) own"

lemma echoed_wire:
  assumes "packet \<in> set packets" "packet \<in> sent_wire codec f own"
  shows "packet \<in> sent_wire codec f (echoed codec f packets own)"
  using assms by (fastforce simp: echoed_def sent_wire_def)

lemma numbered_echoed: "numbered f own \<Longrightarrow> numbered f (echoed codec f packets own)"
  by (auto simp: numbered_def echoed_def distinct_map_filter)

text \<open>Packets that pass the codec are packets that one of the two ends has written.\<close>

fun unforged :: "P2PCodec \<Rightarrow> bytes list \<Rightarrow> bytes set \<Rightarrow> link_event \<Rightarrow> bool" where
  "unforged codec packets sealed (OnWire now packet) =
     (packet \<in> set packets \<and> ((\<exists>d. p2p_decode codec packet = Inr d) \<longrightarrow> packet \<in> sealed))"
| "unforged codec packets sealed (Elsewhere ev) =
     (\<forall>now dst_nil h x. ev = Arrive now dst_nil h x \<longrightarrow> SessionID h \<noteq> codec_session codec)"
| "unforged codec packets sealed Idle = True"

text \<open>What a receiver that starts clean makes of packets that nobody forged.\<close>

lemma link_delivers:
  assumes num: "numbered f sent" "numbered f' own"
    and returned: "back = echoed codec f' (filter (\<lambda>packet. packet \<notin> set wire) packets) own"
    and near: "\<forall>x\<in>set back. \<forall>y\<in>set sent. \<bar>fst x - fst y\<bar> < 2 ^ 31"
    and wires: "set wire \<subseteq> sent_wire codec f sent" "set wire' \<subseteq> sent_wire codec f' own"
    and start: "reassembler_ok ra" "\<forall>pid. fmlookup (pending ra) (codec_session codec, pid) = None"
    and evs: "\<forall>ev\<in>set evs. unforged codec packets (set wire \<union> set wire') ev"
    and run: "link_run codec evs (ra, empty_window) = (st, ress)"
  shows "\<exists>kds. delivered ress = map snd kds \<and> distinct (map fst kds) \<and> (\<forall>(k, d)\<in>set kds.
    (k, d) \<in> set sent
    \<or> k \<in> fst ` set back \<and> made_of (sent_parts f sent \<union> sent_parts f' back) (of_int k) d)"
proof -
  define A where "A = sent_parts f sent \<union> sent_parts f' back"
  define N where "N = fst ` (set sent \<union> set back)"
  have nback: "numbered f' back" unfolding returned by (rule numbered_echoed [OF num(2)])
  have "\<bar>fst x - fst y\<bar> < 2 ^ 31" if "x \<in> set sent \<union> set back" "y \<in> set sent \<union> set back" for x y
    using that num(1) nback near by (fastforce simp: numbered_def abs_minus_commute)
  then have narrow: "narrow N" by (auto simp: narrow_def N_def)
  have pids: "\<forall>(pid, n, i, x)\<in>A. \<exists>t\<in>N. pid = of_int t"
    unfolding A_def N_def by (force elim: sent_partsE)
  have "brings codec A ev" if ev: "ev \<in> set evs" for ev
  proof (cases ev)
    case (OnWire now packet)
    have "SessionID h = codec_session codec \<and> part_of h x \<in> A"
      if dec: "p2p_decode codec packet = Inr d" "DecodeUDP d = Inr (h, x)" for d h x
    proof (cases "packet \<in> set wire")
      case True
      then show ?thesis using sent_wire_part [OF num(1) _ dec] wires(1) by (auto simp: A_def)
    next
      case False
      moreover have "packet \<in> set packets" "packet \<in> set wire \<union> set wire'"
        using evs ev OnWire dec(1) by auto
      ultimately have "packet \<in> sent_wire codec f' back"
        using wires(2) by (auto simp: returned intro: echoed_wire)
      then show ?thesis using sent_wire_part [OF nback _ dec] by (simp add: A_def)
    qed
    then show ?thesis using OnWire by simp
  next
    case (Elsewhere e)
    have "unforged codec packets (set wire \<union> set wire') ev" using evs ev by blast
    then show ?thesis using Elsewhere by simp
  qed simp
  then have "\<forall>ev\<in>set evs. brings codec A ev" by blast
  from link_run_inv [OF narrow pids link_inv_start [OF start] this run] obtain kds where
    kds: "distinct (map fst kds)" "delivered ress = map snd kds"
      "\<forall>(k, d)\<in>set kds. k \<in> N \<and> made_of A (of_int k) d" by blast
  have "(k, d) \<in> set sent \<or> k \<in> fst ` set back \<and> made_of A (of_int k) d" if kd: "(k, d) \<in> set kds" for k d
  proof (cases "k \<in> fst ` set back")
    case False
    have k: "k \<in> N" "made_of A (of_int k) d" using kds(3) kd by auto
    have "(of_int k, n, i, x) \<in> sent_parts f sent" if part: "(of_int k, n, i, x) \<in> A" for n i x
    proof (rule ccontr)
      assume "(of_int k, n, i, x) \<notin> sent_parts f sent"
      then obtain t p where tp: "(t, p) \<in> set back" "(of_int k :: u32) = of_int t"
        using part by (auto simp: A_def elim: sent_partsE)
      then have "t \<in> N" by (force simp: N_def)
      then have "\<bar>k - t\<bar> < 2 ^ 31" using narrow k(1) by (simp add: narrow_def)
      moreover have "sint ((of_int k :: u32) - of_int t) = 0" using tp(2) by simp
      ultimately have "t = k" using serial_delta by force
      then show False using False tp(1) by force
    qed
    then have "made_of (sent_parts f sent) (of_int k) d" using made_of_mono [OF k(2)] by blast
    moreover have "\<forall>y\<in>set sent. \<bar>k - fst y\<bar> < 2 ^ 31" using narrow k(1) by (auto simp: narrow_def N_def)
    ultimately show ?thesis using made_of_sent [OF num(1)] by blast
  qed (use kds(3) kd in auto)
  then show ?thesis using kds(1,2) unfolding A_def by (intro exI [of _ kds]) auto
qed

section \<open>From one end to the other\<close>

text \<open>What the manager of a punched session sends and writes.\<close>

lemma manager_sends:
  assumes "NewP2PCodec sid token = Inr codec"
    "m = SetDirectUDP (Some r) lan (NewPathManager sid token relay)"
    "\<forall>p\<in>set ps. length p \<le> MaxUDPPacketSize" "length ps < 2 ^ 31"
  shows "codec_session codec = sid"
    "set (snd (send_all (recording fails b1 b2) ps m []))
       \<subseteq> sent_wire codec (NewFragmenter (int DefaultMaxUDPPayload)) (number_from 1 (map Some ps))"
    "numbered (NewFragmenter (int DefaultMaxUDPPayload)) (number_from 1 (map Some ps))"
proof -
  let ?f = "NewFragmenter (int DefaultMaxUDPPayload)"
  show sid: "codec_session codec = sid" using assms(1) by (auto simp: NewP2PCodec_def split: if_splits)
  have m: "p2pCodec m = Some codec" "pm_sessionID m = codec_session codec" "fragmenter m = ?f"
    "nextPacketID m = of_int 0"
    using assms(1,2) sid by (simp_all add: SetDirectUDP_def NewPathManager_def)
  have frags: "numFrags ?f p \<le> MaxUDPFragments" if "length p \<le> MaxUDPPacketSize" for p
    using that numFrags_le_iff [OF valid_NewFragmenter, of "int DefaultMaxUDPPayload" p MaxUDPFragments]
    by (simp add: NewFragmenter_def udp_consts)
  have "datagrams ?f (codec_session codec) 0 p \<noteq> None" if "p \<in> set ps" for p
    using frags [of p] assms(3) that by (simp add: datagrams_def)
  then have "\<forall>p\<in>set ps. datagrams ?f (codec_session codec) 0 p \<noteq> None" by blast
  from send_all_wire [OF m this, of fails b1 b2 "[]"]
  show "set (snd (send_all (recording fails b1 b2) ps m []))
      \<subseteq> sent_wire codec ?f (number_from 1 (map Some ps))" by simp
  show "numbered ?f (number_from 1 (map Some ps))"
    using assms(3,4) frags by (intro numbered_number_from) auto
qed

text \<open>What the agent's loop sends and writes.\<close>

definition sendable :: "Fragmenter \<Rightarrow> bytes option list \<Rightarrow> bool" where
  "sendable f ps \<longleftrightarrow> valid_fragmenter f \<and> length ps < 2 ^ 31 \<and> (\<forall>p. Some p \<in> set ps \<longrightarrow>
     length p \<le> MaxUDPPacketSize \<and> length p \<le> MaxUDPFragments * maxPayload f)"

lemma agent_sends:
  assumes "sendable f ps"
  shows "set (snd (agent_p2p_send_all (record_write fails) f buf sendBuf (codec_session codec) codec ps (of_int t) []))
      \<subseteq> sent_wire codec f (number_from (t + 1) ps)"
    "numbered f (number_from (t + 1) ps)"
proof -
  have frags: "numFrags f p \<le> MaxUDPFragments" "datagrams f (codec_session codec) 0 p \<noteq> None"
    if "Some p \<in> set ps" for p
    using that assms datagrams_Some_iff numFrags_le_iff unfolding sendable_def by blast+
  then have "\<forall>p. Some p \<in> set ps \<longrightarrow> datagrams f (codec_session codec) 0 p \<noteq> None" by blast
  from agent_p2p_send_all_wire [OF this, of fails buf sendBuf t "[]"]
  show "set (snd (agent_p2p_send_all (record_write fails) f buf sendBuf (codec_session codec) codec ps (of_int t) []))
      \<subseteq> sent_wire codec f (number_from (t + 1) ps)" by simp
  show "numbered f (number_from (t + 1) ps)"
    using assms frags(1) unfolding sendable_def by (intro numbered_number_from) auto
qed

text \<open>The packets that are read, in order.\<close>

definition read_packets :: "link_input list \<Rightarrow> bytes list" where
  "read_packets inputs = concat (map (\<lambda>i. case i of ReadPacket now remote packet \<Rightarrow> [packet] | _ \<Rightarrow> []) inputs)"

definition inbox_packets :: "inbox list \<Rightarrow> bytes list" where
  "inbox_packets inputs = concat (map (\<lambda>i. case i of Packet now remote packet \<Rightarrow> [packet] | _ \<Rightarrow> []) inputs)"

lemma read_packets_mem: "packet \<in> set (read_packets inputs) \<longleftrightarrow> (\<exists>now remote. ReadPacket now remote packet \<in> set inputs)"
  unfolding read_packets_def by (induction inputs) (auto split: link_input.splits)

lemma inbox_packets_mem: "packet \<in> set (inbox_packets inputs) \<longleftrightarrow> (\<exists>now remote. Packet now remote packet \<in> set inputs)"
  unfolding inbox_packets_def by (induction inputs) (auto split: inbox.splits)

text \<open>
  C1: From the controller to the agent nothing is made up and nothing is delivered twice. Let the
  manager of a punched session send packets of up to 64 KiB, fewer than 2^31, over a socket whose
  writes may fail at any time, while the agent sends its own. The network may lose, repeat, reorder
  and delay what was written and send it back where it came from, and add whatever it likes; the only
  packets it cannot make are those that pass the session's codec and that neither end has written.
  Other sessions use the agent's reassembler meanwhile. Then the packets handed to the local RDP
  service carry distinct numbers, and each is the packet that the controller sent under its number,
  unless a datagram of the agent's own packet of that number was sent back to it: then it is put
  together from fragments of these two packets. If none of the agent's own datagrams comes back, what
  is delivered are packets that the controller sent, each at most once. The numbers of the agent's
  packets that come back are assumed to lie within 2^31 of the controller's.
\<close>

theorem controller_to_agent:
  assumes "NewP2PCodec sid token = Inr codec"
    "m = SetDirectUDP (Some r) lan (NewPathManager sid token relay)"
    "wire = snd (send_all (recording fails b1 b2) ps m [])"
    "\<forall>p\<in>set ps. length p \<le> MaxUDPPacketSize" "length ps < 2 ^ 31"
    "own = snd (agent_p2p_send_all (record_write fails') f buf sendBuf sid codec qs (of_int t) [])"
    "sendable f qs"
    "reassembler_ok ra" "\<forall>pid. fmlookup (pending ra) (sid, pid) = None"
    "\<forall>packet\<in>set (read_packets inputs).
       (\<exists>d. p2p_decode codec packet = Inr d) \<longrightarrow> packet \<in> set wire \<union> set own"
    "\<forall>now dst_nil h x. OtherSession now dst_nil h x \<in> set inputs \<longrightarrow> SessionID h \<noteq> sid"
    "back = echoed codec f (filter (\<lambda>packet. packet \<notin> set wire) (read_packets inputs)) (number_from (t + 1) qs)"
    "\<forall>x\<in>set back. \<forall>k\<in>{1..int (length ps)}. \<bar>fst x - k\<bar> < 2 ^ 31"
  shows "\<exists>kds. delivered (snd (agent_receive_all peer codec inputs (new_link ra))) = map snd kds
    \<and> distinct (map fst kds)
    \<and> (\<forall>(k, d)\<in>set kds. (k, d) \<in> set (number_from 1 (map Some ps))
        \<or> k \<in> fst ` set back \<and> made_of (sent_parts (NewFragmenter (int DefaultMaxUDPPayload))
            (number_from 1 (map Some ps)) \<union> sent_parts f back) (of_int k) d)
    \<and> (back = [] \<longrightarrow> (\<exists>ks. distinct ks \<and> set ks \<subseteq> {..<length ps} \<and> map snd kds = map ((!) ps) ks))"
proof -
  let ?f = "NewFragmenter (int DefaultMaxUDPPayload)" and ?sent = "number_from 1 (map Some ps)"
  note man = manager_sends [OF assms(1,2,4,5)]
  have own: "set own \<subseteq> sent_wire codec f (number_from (t + 1) qs)"
    using agent_sends(1) [OF assms(7), of fails' buf sendBuf codec t] assms(6) man(1) by simp
  obtain l ress where run: "agent_receive_all peer codec inputs (new_link ra) = (l, ress)" by fastforce
  obtain n where link: "link_run codec (map (link_input_event peer) (take n inputs)) (ra, empty_window)
      = (agent_state l, ress)"
    using agent_receive_all_link [OF run] by (auto simp: agent_state_def new_link_def)
  have "unforged codec (read_packets inputs) (set wire \<union> set own) (link_input_event peer i)"
    if "i \<in> set (take n inputs)" for i
  proof -
    have i: "i \<in> set inputs" using that by (rule in_set_takeD)
    show ?thesis
    proof (cases i)
      case (ReadPacket now remote packet)
      then have "packet \<in> set (read_packets inputs)" using i by (auto simp: read_packets_mem)
      then show ?thesis using assms(10) ReadPacket by auto
    next
      case (OtherSession now dst_nil h x)
      then show ?thesis using assms(11) man(1) i by auto
    qed simp_all
  qed
  then have evs: "\<forall>ev\<in>set (map (link_input_event peer) (take n inputs)).
      unforged codec (read_packets inputs) (set wire \<union> set own) ev" by simp
  have near: "\<forall>x\<in>set back. \<forall>y\<in>set ?sent. \<bar>fst x - fst y\<bar> < 2 ^ 31"
    using assms(13) by (auto simp: number_from_mem)
  from link_delivers [OF man(3) agent_sends(2) [OF assms(7)] assms(12) near _ own assms(8) _ evs link]
  obtain kds where kds: "delivered ress = map snd kds" "distinct (map fst kds)" "\<forall>(k, d)\<in>set kds.
      (k, d) \<in> set ?sent \<or> k \<in> fst ` set back \<and> made_of (sent_parts ?f ?sent \<union> sent_parts f back) (of_int k) d"
    using man(1,2) assms(3,9) by auto
  have "\<exists>ks. distinct ks \<and> set ks \<subseteq> {..<length ps} \<and> map snd kds = map ((!) ps) ks" if "back = []"
  proof -
    have "set kds \<subseteq> set ?sent" using kds(3) that by auto
    from numbered_positions [OF kds(2) this] obtain ks where
      ks: "distinct ks" "set ks \<subseteq> {..<length ps}" "map Some (map snd kds) = map ((!) (map Some ps)) ks" by auto
    then have "map Some (map snd kds) = map Some (map ((!) ps) ks)" by (auto simp: subset_iff)
    then have "map snd kds = map ((!) ps) ks" by (metis inj_map_eq_map inj_Some)
    then show ?thesis using ks by blast
  qed
  then show ?thesis using kds run by (intro exI [of _ kds]) simp
qed

text \<open>
  In the witness the controller sends one packet, whose datagram arrives twice, and the agent none.
\<close>

lemma controller_to_agent_witness:
  "\<exists>ks. distinct ks \<and> set ks \<subseteq> {..<1} \<and> delivered (snd (agent_receive_all no_addr_port
     \<lparr>codec_session = 1, codec_key = [7]\<rparr>
     (replicate 2 (ReadPacket 0 no_addr_port (p2p_encode \<lparr>codec_session = 1, codec_key = [7]\<rparr> []
        (EncodeUDP [] 1 1 0 1 [])))) (new_link (NewReassembler 0)))) = map ((!) [[]]) ks"
proof -
  let ?c = "\<lparr>codec_session = 1, codec_key = [7]\<rparr>"
  let ?p = "p2p_encode ?c [] (EncodeUDP [] 1 1 0 1 [])"
  let ?r = "\<lparr>pr_id = 1, pr_conn = True, pr_remote = no_addr_port\<rparr>"
  let ?m = "SetDirectUDP (Some ?r) False (NewPathManager 1 [7] None)"
  have codec: "NewP2PCodec 1 [7] = Inr ?c" by (simp add: NewP2PCodec_def)
  have m: "direct_udp (udpPath ?m)" "directUDPPunch ?m = Some ?r" "pr_conn ?r" "p2pCodec ?m = Some ?c"
    "pm_sessionID ?m = 1" "nextPacketID ?m = 0"
    by (simp_all add: SetDirectUDP_def NewPathManager_def codec direct_udp_def)
  have "SendUDP (recording (\<lambda>_ _. False) [] []) [] ?m [] = (?m\<lparr>nextPacketID := 1\<rparr>, [?p], None)"
    unfolding SendUDP_direct_step [OF m(1-4)] m(5,6) Fragment_datagrams
    by (simp add: datagrams_def recording_def record_write_def)
  then have wire: "[?p] = snd (send_all (recording (\<lambda>_ _. False) [] []) [[]] ?m [])" by simp
  have own: "[] = snd (agent_p2p_send_all (record_write (\<lambda>_ _. False)) (NewFragmenter 2) [] [] 1 ?c [] (of_int 0) [])"
    by simp
  have ok: "sendable (NewFragmenter 2) []" by (simp add: sendable_def valid_NewFragmenter)
  have pend: "\<forall>pid. fmlookup (pending (NewReassembler 0)) (1, pid) = None" by (simp add: NewReassembler_def)
  have returned: "[] = echoed ?c (NewFragmenter 2) (filter (\<lambda>packet. packet \<notin> set [?p])
      (read_packets (replicate 2 (ReadPacket 0 no_addr_port ?p)))) (number_from (0 + 1) [])"
    by (simp add: echoed_def)
  have reads: "\<forall>packet\<in>set (read_packets (replicate 2 (ReadPacket 0 no_addr_port ?p))).
      (\<exists>d. p2p_decode ?c packet = Inr d) \<longrightarrow> packet \<in> set [?p] \<union> set []"
    by (simp add: read_packets_mem)
  from controller_to_agent [OF codec refl wire _ _ own ok NewReassembler_ok pend reads _ returned, of no_addr_port]
  show ?thesis by auto
qed

text \<open>
  Nothing in a datagram tells the two directions apart, so the case left out above does happen: the
  agent's own packet, sent back from the controller's address, is handed to the RDP service as if the
  controller had sent it.
\<close>

lemma reflected_packet_delivered:
  assumes "valid_fragmenter f" "length q \<le> maxPayload f"
    "own = snd (agent_p2p_send_all (record_write (\<lambda>_ _. False)) f buf sendBuf (codec_session codec) codec
      [Some q] t [])"
  shows "delivered (snd (agent_receive_all peer codec (map (ReadPacket now peer) own) (new_link ra))) = [q]"
proof -
  let ?n = "max 1 (numFrags f q)"
  have n: "numFrags f q \<le> 1" using assms(1,2) numFrags_le_iff [of f q 1] by simp
  have nq: "numFrags f q = 1" "chunk f q 0 = q" if "q \<noteq> []"
    using n numFrags_pos [OF assms(1) that] assms(2) by (simp_all add: chunk_eq)
  let ?d = "EncodeUDP [] (codec_session codec) (t + 1) 0 1 q"
  have "datagrams f (codec_session codec) (t + 1) q = Some [?d]"
    using nq by (cases "q = []") (simp_all add: datagrams_def udp_consts)
  then have own: "own = [p2p_encode codec [] ?d]"
    unfolding assms(3) by (simp add: agent_p2p_send_def Fragment_datagrams record_write_def Let_def
        p2p_encode_any [of codec sendBuf])
  have dec: "DecodeUDP ?d = Inr (data_header (codec_session codec) (t + 1) 0 1, q)"
    using datagram_decodes [of 0 1 "[]" "codec_session codec" "t + 1" f q] nq assms(2)
    by (simp add: udp_consts chunk_eq)
  have "P2PDataMagic \<noteq> PunchMagic" by (simp add: P2PDataMagic_def PunchMagic_def)
  then have magic: "put_be32 P2PDataMagic \<noteq> put_be32 PunchMagic" by (metis be32_put_be32)
  have idle: "\<not> p2pUDPResetsIdle (length (p2p_encode codec [] ?d)) (p2p_encode codec [] ?d)"
    by (simp add: p2pUDPResetsIdle_def p2p_encode_layout p2p_prefix_def magic)
  show ?thesis
    unfolding own
    by (simp add: agent_receive.simps idle [simplified] dec new_link_def FeedAppend_def append_to_def
        MarkCompleted_def seenLocked_def empty_window_def Let_def)
qed

text \<open>
  From the agent to the controller the same holds. Let the agent send the packets it reads from
  the RDP service, numbered by the counter it shares with its other loops, over a socket whose writes
  may fail, while the manager sends its own. Whatever the network then does short of making a packet
  that passes the codec and that neither end has written, the packets that \<open>ReceiveUDP\<close> returns on the
  direct path carry distinct numbers, and each is the packet the agent sent under its number, unless a
  datagram of the manager's own packet of that number was sent back to it: then it is put together
  from fragments of these two packets. If none of the manager's own datagrams comes back, what is
  returned are packets that the agent sent, each at most once. The numbers of the manager's packets
  that come back are assumed to lie within 2^31 of the agent's.
\<close>

theorem agent_to_controller:
  assumes "NewP2PCodec sid token = Inr codec"
    "m = SetDirectUDP (Some r) lan (NewPathManager sid token relay)"
    "wire = snd (agent_p2p_send_all (record_write fails) f buf sendBuf sid codec ps (of_int t) [])"
    "sendable f ps"
    "own = snd (send_all (recording fails' b1 b2) qs m [])"
    "\<forall>q\<in>set qs. length q \<le> MaxUDPPacketSize" "length qs < 2 ^ 31"
    "\<forall>packet\<in>set (inbox_packets inputs).
       (\<exists>d. p2p_decode codec packet = Inr d) \<longrightarrow> packet \<in> set wire \<union> set own"
    "back = echoed codec (NewFragmenter (int DefaultMaxUDPPayload))
       (filter (\<lambda>packet. packet \<notin> set wire) (inbox_packets inputs)) (number_from 1 (map Some qs))"
    "\<forall>x\<in>set back. \<forall>k\<in>{t + 1..t + int (length ps)}. \<bar>fst x - k\<bar> < 2 ^ 31"
  shows "\<exists>kds. delivered (snd (recv_all r codec inputs m)) = map snd kds
    \<and> distinct (map fst kds)
    \<and> (\<forall>(k, d)\<in>set kds. (k, d) \<in> set (number_from (t + 1) ps)
        \<or> k \<in> fst ` set back \<and> made_of (sent_parts f (number_from (t + 1) ps)
            \<union> sent_parts (NewFragmenter (int DefaultMaxUDPPayload)) back) (of_int k) d)
    \<and> (back = [] \<longrightarrow>
        (\<exists>ks. distinct ks \<and> set ks \<subseteq> {..<length ps} \<and> map Some (map snd kds) = map ((!) ps) ks))"
proof -
  let ?f = "NewFragmenter (int DefaultMaxUDPPayload)" and ?sent = "number_from (t + 1) ps"
  note man = manager_sends [OF assms(1,2,6,7)]
  have wire: "set wire \<subseteq> sent_wire codec f ?sent"
    using agent_sends(1) [OF assms(4), of fails buf sendBuf codec t] assms(3) man(1) by simp
  have own: "set own \<subseteq> sent_wire codec ?f (number_from 1 (map Some qs))"
    using man(2) assms(5) by simp
  obtain m' ress where run: "recv_all r codec inputs m = (m', ress)" by fastforce
  have "link_of m = (NewReassembler (100 * millisecond), empty_window)"
    using assms(2) by (simp add: link_of_def SetDirectUDP_def NewPathManager_def split: option.splits)
  then have link: "link_run codec (map (inbox_event r) inputs) (NewReassembler (100 * millisecond), empty_window)
      = (link_of m', ress)"
    using recv_all_link [OF run] by simp
  have "unforged codec (inbox_packets inputs) (set wire \<union> set own) (inbox_event r i)" if "i \<in> set inputs" for i
    using assms(8) that by (cases i) (auto simp: inbox_packets_mem)
  then have evs: "\<forall>ev\<in>set (map (inbox_event r) inputs).
      unforged codec (inbox_packets inputs) (set wire \<union> set own) ev" by simp
  have near: "\<forall>x\<in>set back. \<forall>y\<in>set ?sent. \<bar>fst x - fst y\<bar> < 2 ^ 31"
    using assms(10) by (auto simp: number_from_mem)
  have pend: "\<forall>pid. fmlookup (pending (NewReassembler (100 * millisecond))) (codec_session codec, pid) = None"
    by (simp add: NewReassembler_def)
  from link_delivers [OF agent_sends(2) [OF assms(4)] man(3) assms(9) near wire own NewReassembler_ok pend evs link]
  obtain kds where kds: "delivered ress = map snd kds" "distinct (map fst kds)" "\<forall>(k, d)\<in>set kds.
      (k, d) \<in> set ?sent \<or> k \<in> fst ` set back \<and> made_of (sent_parts f ?sent \<union> sent_parts ?f back) (of_int k) d"
    by blast
  have "\<exists>ks. distinct ks \<and> set ks \<subseteq> {..<length ps} \<and> map Some (map snd kds) = map ((!) ps) ks" if "back = []"
  proof -
    have "set kds \<subseteq> set ?sent" using kds(3) that by auto
    then show ?thesis using numbered_positions [OF kds(2)] by blast
  qed
  then show ?thesis using kds run by (intro exI [of _ kds]) simp
qed

lemma agent_to_controller_witness:
  "\<exists>ks. distinct ks \<and> set ks \<subseteq> {..<1} \<and> map Some (delivered (snd (recv_all
     \<lparr>pr_id = 1, pr_conn = True, pr_remote = no_addr_port\<rparr> \<lparr>codec_session = 1, codec_key = [7]\<rparr>
     (replicate 2 (Packet 0 no_addr_port (p2p_encode \<lparr>codec_session = 1, codec_key = [7]\<rparr> []
        (EncodeUDP [] 1 1 0 1 []))))
     (SetDirectUDP (Some \<lparr>pr_id = 1, pr_conn = True, pr_remote = no_addr_port\<rparr>) False
        (NewPathManager 1 [7] None))))) = map ((!) [Some []]) ks"
proof -
  let ?c = "\<lparr>codec_session = 1, codec_key = [7]\<rparr>"
  let ?p = "p2p_encode ?c [] (EncodeUDP [] 1 1 0 1 [])"
  let ?r = "\<lparr>pr_id = 1, pr_conn = True, pr_remote = no_addr_port\<rparr>"
  have codec: "NewP2PCodec 1 [7] = Inr ?c" by (simp add: NewP2PCodec_def)
  have wire: "[?p] = snd (agent_p2p_send_all (record_write (\<lambda>_ _. False)) (NewFragmenter 2) [] []
      1 ?c [Some []] (of_int 0) [])"
    by (simp add: agent_p2p_send_def Fragment_datagrams datagrams_def record_write_def)
  have ok: "sendable (NewFragmenter 2) [Some []]" by (simp add: sendable_def valid_NewFragmenter)
  have own: "[] = snd (send_all (recording (\<lambda>_ _. False) [] []) []
      (SetDirectUDP (Some ?r) False (NewPathManager 1 [7] None)) [])" by simp
  have reads: "\<forall>packet\<in>set (inbox_packets (replicate 2 (Packet 0 no_addr_port ?p))).
      (\<exists>d. p2p_decode ?c packet = Inr d) \<longrightarrow> packet \<in> set [?p] \<union> set []"
    by (simp add: inbox_packets_mem)
  have returned: "[] = echoed ?c (NewFragmenter (int DefaultMaxUDPPayload)) (filter (\<lambda>packet. packet \<notin> set [?p])
      (inbox_packets (replicate 2 (Packet 0 no_addr_port ?p)))) (number_from 1 (map Some []))"
    by (simp add: echoed_def)
  from agent_to_controller [OF codec refl wire ok own _ _ reads returned] show ?thesis by auto
qed

end
