(* ===== verification/Signaling.thy ===== *)
theory Signaling
  imports Control_Message Udp_Sessions Crypto
begin

text \<open>
  The signaling server, \<open>internal/signaling/server.go\<close>: the table of agents that are online, the sessions
  between controllers and agents, and the messages it routes between them. Writers of control streams
  are numbers; writing through a nil writer does nothing. The authorization policy is a function, as in
  the code, and the random token and the order in which Go iterates a map are arguments.
\<close>

type_synonym writer = nat

definition MaxCandidateCount :: nat where "MaxCandidateCount = 16"
definition MaxActiveSessions :: nat where "MaxActiveSessions = 2048"
definition MaxActiveSessionsPerPeer :: nat where "MaxActiveSessionsPerPeer = 64"

record ActivePeer =
  p_DeviceID :: string
  p_Hostname :: string
  p_Writer :: "writer option"
  p_Candidates :: "CandidateInfo list"
  p_PublicPort :: u16

record activeSession =
  controllerID :: string
  targetID :: string
  controllerWriter :: "writer option"
  targetWriter :: "writer option"

record SessionCoordinator =
  peers :: "(string, ActivePeer) fmap"
  signals :: "(u32, activeSession) fmap"
  nextSessionID :: u32
  authorize :: "(string \<Rightarrow> string \<Rightarrow> bool) option"

definition NewSessionCoordinator :: "u32 \<Rightarrow> SessionCoordinator" where
  "NewSessionCoordinator now =
     \<lparr>peers = fmempty, signals = fmempty, nextSessionID = now AND 0x7FFFFFFF, authorize = None\<rparr>"

definition SetAuthorizer :: "(string \<Rightarrow> string \<Rightarrow> bool) \<Rightarrow> SessionCoordinator \<Rightarrow> SessionCoordinator" where
  "SetAuthorizer f c = c\<lparr>authorize := Some f\<rparr>"

section \<open>Candidates\<close>

definition unicast :: "AddrPort \<Rightarrow> bool" where
  "unicast ap \<longleftrightarrow> IsValid (ap_addr ap) \<and> \<not> IsUnspecified (ap_addr ap) \<and> \<not> IsMulticast (ap_addr ap) \<and> ap_port ap \<noteq> 0"

text \<open>The first candidate with an address stays, later ones with the same protocol and address are dropped.\<close>

definition announced_key :: "CandidateInfo \<Rightarrow> AddrPort \<Rightarrow> string" where
  "announced_key c ap = c_Protocol c @ ''|'' @ addr_port_string ap"

fun validate_each :: "string list \<Rightarrow> CandidateInfo list \<Rightarrow> string + CandidateInfo list" where
  "validate_each seen [] = Inr []"
| "validate_each seen (c # cs) =
     (if c_Protocol c \<noteq> ''udp'' \<and> c_Protocol c \<noteq> ''tcp'' then Inl ''candidate protocol must be udp or tcp''
      else if c_Type c \<noteq> ''lan'' \<and> c_Type c \<noteq> ''reflexive'' then Inl ''candidate type must be lan or reflexive''
      else case ParseAddrPort (c_Address c) of
        None \<Rightarrow> Inl ''candidate address must be a unicast IP and non-zero port''
      | Some ap \<Rightarrow>
          if \<not> unicast ap then Inl ''candidate address must be a unicast IP and non-zero port''
          else if announced_key c ap \<in> set seen then validate_each seen cs
          else (case validate_each (announced_key c ap # seen) cs of
            Inl e \<Rightarrow> Inl e
          | Inr vs \<Rightarrow> Inr (c\<lparr>c_Address := addr_port_string ap\<rparr> # vs)))"

definition validateCandidates :: "CandidateInfo list \<Rightarrow> string + CandidateInfo list" where
  "validateCandidates cs =
     (if length cs > MaxCandidateCount then Inl ''candidate count exceeds limit 16'' else validate_each [] cs)"

section \<open>Peers\<close>

definition RegisterPeer ::
  "string \<Rightarrow> string \<Rightarrow> writer option \<Rightarrow> CandidateInfo list \<Rightarrow> u16 \<Rightarrow> SessionCoordinator \<Rightarrow> SessionCoordinator" where
  "RegisterPeer dev host w cands port c =
     (let valid = (case validateCandidates cands of Inr vs \<Rightarrow> vs | Inl _ \<Rightarrow> []) in
      c\<lparr>peers := fmupd dev \<lparr>p_DeviceID = dev, p_Hostname = host, p_Writer = w, p_Candidates = valid,
          p_PublicPort = port\<rparr> (peers c)\<rparr>)"

definition UpdateCandidates :: "string \<Rightarrow> CandidateInfo list \<Rightarrow> SessionCoordinator \<Rightarrow> SessionCoordinator" where
  "UpdateCandidates dev cands c = (case validateCandidates cands of
     Inl _ \<Rightarrow> c
   | Inr valid \<Rightarrow> (case fmlookup (peers c) dev of
       Some p \<Rightarrow> c\<lparr>peers := fmupd dev (p\<lparr>p_Candidates := valid\<rparr>) (peers c)\<rparr> | None \<Rightarrow> c))"

text \<open>\<open>ids\<close> lists the keys of the session table in the order of the iteration.\<close>

definition session_of_target :: "string \<Rightarrow> writer option \<Rightarrow> activeSession \<Rightarrow> bool" where
  "session_of_target dev w s \<longleftrightarrow> targetID s = dev \<and> targetWriter s = w"

definition close_notice :: "u32 \<Rightarrow> activeSession \<Rightarrow> (writer \<times> ControlMessage) list" where
  "close_notice sid s = (case controllerWriter s of
     Some w \<Rightarrow> [(w, (message MsgTypeSessionClose)\<lparr>m_SessionID := sid\<rparr>)] | None \<Rightarrow> [])"

definition UnregisterPeer ::
  "string \<Rightarrow> writer option \<Rightarrow> u32 list \<Rightarrow> SessionCoordinator
    \<Rightarrow> SessionCoordinator \<times> (writer \<times> ControlMessage) list" where
  "UnregisterPeer dev w ids c =
     (let ps = (case fmlookup (peers c) dev of
                  Some p \<Rightarrow> if p_Writer p = w then fmdrop dev (peers c) else peers c | None \<Rightarrow> peers c);
          mine = filter (\<lambda>sid. case fmlookup (signals c) sid of
                   Some s \<Rightarrow> session_of_target dev w s | None \<Rightarrow> False) ids
      in (c\<lparr>peers := ps, signals := fold fmdrop mine (signals c)\<rparr>,
          concat (map (\<lambda>sid. case fmlookup (signals c) sid of Some s \<Rightarrow> close_notice sid s | None \<Rightarrow> []) mine)))"

section \<open>Sessions\<close>

definition involves :: "string \<Rightarrow> u32 \<Rightarrow> activeSession \<Rightarrow> nat" where
  "involves dev sid s = (if controllerID s = dev \<or> targetID s = dev then 1 else 0)"

definition sessionCountLocked :: "SessionCoordinator \<Rightarrow> string \<Rightarrow> nat" where
  "sessionCountLocked c dev = fmsum (involves dev) (signals c)"

text \<open>\<open>CloseSession\<close>; an empty controller means any.\<close>

definition CloseSession ::
  "u32 \<Rightarrow> string \<Rightarrow> SessionCoordinator \<Rightarrow> SessionCoordinator \<times> (writer \<times> ControlMessage) list" where
  "CloseSession sid cid c = (case fmlookup (signals c) sid of
     None \<Rightarrow> (c, [])
   | Some s \<Rightarrow>
       if cid \<noteq> [] \<and> controllerID s \<noteq> cid then (c, [])
       else (c\<lparr>signals := fmdrop sid (signals c)\<rparr>,
             case targetWriter s of None \<Rightarrow> []
             | Some w \<Rightarrow> [(w, (message MsgTypeSessionClose)\<lparr>m_DeviceID := controllerID s,
                              m_TargetDeviceID := targetID s, m_SessionID := sid\<rparr>)]))"

text \<open>
  \<open>HandleConnectRequest\<close> reads the table of peers under the lock, asks the policy, draws an id and a
  token, records the session under the lock, and notifies the target. Other operations may run between
  these parts, so each is a function: \<open>connect_prepare\<close> is everything up to the second critical section,
  \<open>connect_commit\<close> that section, \<open>connect_notify\<close> the rest.
\<close>

record connect =
  q_controllerID :: string
  q_controllerWriter :: "writer option"
  q_targetID :: string
  q_targetWriter :: writer
  q_session :: u32
  q_token :: string
  q_candidates :: "CandidateInfo list"
  q_targetCandidates :: "CandidateInfo list"
  q_targetPort :: u16

datatype connect_step = Reply ControlMessage | Fails string | Prepared connect

definition generate_id :: "SessionCoordinator \<Rightarrow> SessionCoordinator \<times> u32" where
  "generate_id c = (let n = nextSessionID c + 1 in (c\<lparr>nextSessionID := n\<rparr>, n OR 0x80000000))"

definition authorized :: "SessionCoordinator \<Rightarrow> string \<Rightarrow> string \<Rightarrow> bool" where
  "authorized c cid tid \<longleftrightarrow> (case authorize c of Some f \<Rightarrow> f cid tid | None \<Rightarrow> False)"

definition connect_prepare ::
  "ActivePeer \<Rightarrow> ControlMessage \<Rightarrow> bytes option \<Rightarrow> SessionCoordinator \<Rightarrow> SessionCoordinator \<times> connect_step" where
  "connect_prepare controller req rnd c =
     (let tid = m_TargetDeviceID req in
      if tid = [] then (c, Fails ''missing target_device_id'')
      else case validateCandidates (m_Candidates req) of
        Inl e \<Rightarrow> (c, Reply (error_message 400 e))
      | Inr cands \<Rightarrow>
          if \<not> authorized c (p_DeviceID controller) tid
          then (c, Reply (error_message 403 ''controller is not authorized for target''))
          else (case fmlookup (peers c) tid of
            None \<Rightarrow> (c, Reply (error_message 404 ''target peer is currently offline''))
          | Some p \<Rightarrow> (case p_Writer p of
              None \<Rightarrow> (c, Reply (error_message 404 ''target peer is currently offline''))
            | Some w \<Rightarrow> (case generate_id c of (c', sid) \<Rightarrow> (case rnd of
                None \<Rightarrow> (c', Fails ''generate session token'')
              | Some tok \<Rightarrow> (c', Prepared \<lparr>q_controllerID = p_DeviceID controller,
                  q_controllerWriter = p_Writer controller, q_targetID = tid, q_targetWriter = w,
                  q_session = sid, q_token = hex_encode tok, q_candidates = cands,
                  q_targetCandidates = p_Candidates p, q_targetPort = p_PublicPort p\<rparr>))))))"

definition connect_commit :: "connect \<Rightarrow> SessionCoordinator \<Rightarrow> SessionCoordinator \<times> ControlMessage option" where
  "connect_commit q c =
     (if fsize (signals c) \<ge> MaxActiveSessions
         \<or> sessionCountLocked c (q_controllerID q) \<ge> MaxActiveSessionsPerPeer
         \<or> sessionCountLocked c (q_targetID q) \<ge> MaxActiveSessionsPerPeer
      then (c, Some (error_message 429 ''active signaling session limit exceeded''))
      else (c\<lparr>signals := fmupd (q_session q) \<lparr>controllerID = q_controllerID q, targetID = q_targetID q,
                controllerWriter = q_controllerWriter q, targetWriter = Some (q_targetWriter q)\<rparr> (signals c)\<rparr>, None))"

definition connect_notice :: "connect \<Rightarrow> ControlMessage" where
  "connect_notice q = (message MsgTypeConnectNotify)\<lparr>m_DeviceID := q_controllerID q, m_TargetDeviceID := q_targetID q,
     m_SessionID := q_session q, m_SessionToken := q_token q, m_Candidates := q_candidates q,
     m_PunchRole := ''controlled''\<rparr>"

definition connect_response :: "string \<Rightarrow> connect \<Rightarrow> ControlMessage" where
  "connect_response host q = (message MsgTypeConnectResponse)\<lparr>m_DeviceID := q_controllerID q,
     m_TargetDeviceID := q_targetID q, m_SessionID := q_session q, m_SessionToken := q_token q,
     m_Candidates := q_targetCandidates q, m_PublicHost := host, m_PublicPort := q_targetPort q,
     m_PunchRole := ''controller''\<rparr>"

text \<open>\<open>ok\<close>: the write to the target succeeds. On a failure the session is closed again.\<close>

definition connect_notify ::
  "string \<Rightarrow> bool \<Rightarrow> connect \<Rightarrow> SessionCoordinator
    \<Rightarrow> SessionCoordinator \<times> (writer \<times> ControlMessage) list \<times> (string + ControlMessage)" where
  "connect_notify host ok q c =
     (if ok then (c, [(q_targetWriter q, connect_notice q)], Inr (connect_response host q))
      else (case CloseSession (q_session q) (q_controllerID q) c of
        (c, out) \<Rightarrow> (c, out, Inl ''notify target failed'')))"

definition HandleConnectRequest ::
  "ActivePeer option \<Rightarrow> ControlMessage \<Rightarrow> string \<Rightarrow> bytes option \<Rightarrow> bool \<Rightarrow> SessionCoordinator
    \<Rightarrow> SessionCoordinator \<times> (writer \<times> ControlMessage) list \<times> (string + ControlMessage)" where
  "HandleConnectRequest controller req host rnd ok c = (case controller of
     None \<Rightarrow> (c, [], Inl ''controller and request are required'')
   | Some p \<Rightarrow> (case connect_prepare p req rnd c of
       (c, Fails e) \<Rightarrow> (c, [], Inl e)
     | (c, Reply r) \<Rightarrow> (c, [], Inr r)
     | (c, Prepared q) \<Rightarrow> (case connect_commit q c of
         (c, Some r) \<Rightarrow> (c, [], Inr r)
       | (c, None) \<Rightarrow> connect_notify host ok q c)))"

text \<open>The message a candidate exchange sends, and to whom.\<close>

definition ForwardCandidateExchange ::
  "u32 \<Rightarrow> string \<Rightarrow> string \<Rightarrow> CandidateInfo list \<Rightarrow> SessionCoordinator \<Rightarrow> string + writer \<times> ControlMessage" where
  "ForwardCandidateExchange sid from to' cands c = (case validateCandidates cands of
     Inl e \<Rightarrow> Inl e
   | Inr valid \<Rightarrow> (case fmlookup (signals c) sid of
       None \<Rightarrow> Inl ''session not found''
     | Some s \<Rightarrow>
         (let (expected, target) =
            (if from = controllerID s then (targetID s, targetWriter s)
             else if from = targetID s then (controllerID s, controllerWriter s) else ([], None))
          in case target of
            None \<Rightarrow> Inl ''session not found''
          | Some w \<Rightarrow>
              if expected = [] then Inl ''session not found''
              else if to' \<noteq> [] \<and> to' \<noteq> expected then Inl ''candidate exchange target does not match session''
              else if \<not> authorized c (controllerID s) (targetID s) then Inl ''candidate exchange is not authorized''
              else Inr (w, (message MsgTypeCandidateExchange)\<lparr>m_DeviceID := from, m_TargetDeviceID := expected,
                             m_SessionID := sid, m_Candidates := valid\<rparr>))))"

section \<open>Runs\<close>

text \<open>
  Operations of any number of connections in any order. The connect requests that are between their two
  critical sections are kept in a list, and a commit names one by its position.
\<close>

datatype signal_event =
    SigRegister string string "writer option" "CandidateInfo list" u16
  | SigUpdate string "CandidateInfo list"
  | SigUnregister string "writer option" "u32 list"
  | SigPrepare ActivePeer ControlMessage "bytes option"
  | SigCommit nat
  | SigClose u32 string
  | SigGenerate

type_synonym signal_state = "SessionCoordinator \<times> connect list"

fun signal_step :: "signal_event \<Rightarrow> signal_state \<Rightarrow> signal_state" where
  "signal_step (SigRegister dev host w cands port) (c, qs) = (RegisterPeer dev host w cands port c, qs)"
| "signal_step (SigUpdate dev cands) (c, qs) = (UpdateCandidates dev cands c, qs)"
| "signal_step (SigUnregister dev w ids) (c, qs) = (fst (UnregisterPeer dev w ids c), qs)"
| "signal_step (SigPrepare p req rnd) (c, qs) = (case connect_prepare p req rnd c of
     (c, Prepared q) \<Rightarrow> (c, qs @ [q]) | (c, _) \<Rightarrow> (c, qs))"
| "signal_step (SigCommit i) (c, qs) =
     (if i < length qs then (fst (connect_commit (qs ! i) c), take i qs @ drop (Suc i) qs) else (c, qs))"
| "signal_step (SigClose sid cid) (c, qs) = (fst (CloseSession sid cid c), qs)"
| "signal_step SigGenerate (c, qs) = (fst (generate_id c), qs)"

definition signal_run :: "signal_event list \<Rightarrow> signal_state \<Rightarrow> signal_state" where
  "signal_run es st = fold signal_step es st"

text \<open>What every state of a run satisfies, under the policy \<open>f\<close>.\<close>

definition within_limits :: "(u32, activeSession) fmap \<Rightarrow> bool" where
  "within_limits ss \<longleftrightarrow> fsize ss \<le> MaxActiveSessions \<and> (\<forall>dev. fmsum (involves dev) ss \<le> MaxActiveSessionsPerPeer)"

definition all_authorized :: "(string \<Rightarrow> string \<Rightarrow> bool) \<Rightarrow> (u32, activeSession) fmap \<Rightarrow> bool" where
  "all_authorized f ss \<longleftrightarrow>
     (\<forall>sid s. fmlookup ss sid = Some s \<longrightarrow> \<not> public_id sid \<and> f (controllerID s) (targetID s))"

definition signal_ok :: "(string \<Rightarrow> string \<Rightarrow> bool) \<Rightarrow> signal_state \<Rightarrow> bool" where
  "signal_ok f st \<longleftrightarrow> authorize (fst st) = Some f \<and> within_limits (signals (fst st))
     \<and> all_authorized f (signals (fst st))
     \<and> (\<forall>q\<in>set (snd st). \<not> public_id (q_session q) \<and> f (q_controllerID q) (q_targetID q))"

section \<open>Proofs\<close>

lemma fmsum_drop_le: "fmsum f (fmdrop k m) \<le> fmsum f m"
  by (cases "fmlookup m k") (auto simp: fmdrop_idle dest: fmsum_drop [where f = f])

lemma within_limits_drop: "within_limits ss \<Longrightarrow> within_limits (fmdrop k ss)"
  using fsize_drop_le [of k ss] fmsum_drop_le [of _ k ss]
  by (auto simp: within_limits_def intro: order_trans)

lemma all_authorized_drop: "all_authorized f ss \<Longrightarrow> all_authorized f (fmdrop k ss)"
  by (auto simp: all_authorized_def)

lemma fold_fmdrop_keeps:
  "within_limits ss \<and> all_authorized f ss \<Longrightarrow> within_limits (fold fmdrop ks ss) \<and> all_authorized f (fold fmdrop ks ss)"
  by (induction ks arbitrary: ss) (simp_all add: within_limits_drop all_authorized_drop)

lemma generate_id_private: "generate_id c = (c', sid) \<Longrightarrow> \<not> public_id sid \<and> signals c' = signals c
    \<and> authorize c' = authorize c \<and> peers c' = peers c"
  by (auto simp: generate_id_def public_id_def bit_simps Let_def)

lemma connect_prepare_frame:
  "signals (fst (connect_prepare p req rnd c)) = signals c \<and> authorize (fst (connect_prepare p req rnd c)) = authorize c"
  by (cases "generate_id c")
    (auto simp: connect_prepare_def Let_def dest: generate_id_private split: sum.split option.split)

lemma connect_prepare_Prepared:
  "connect_prepare p req rnd c = (c', Prepared q) \<Longrightarrow>
     \<not> public_id (q_session q) \<and> authorized c (q_controllerID q) (q_targetID q)
     \<and> q_controllerID q = p_DeviceID p \<and> q_controllerWriter q = p_Writer p \<and> q_targetID q = m_TargetDeviceID req"
  by (cases "generate_id c")
    (auto simp: connect_prepare_def Let_def dest: generate_id_private split: sum.splits option.splits if_splits)

lemma within_limits_upd:
  assumes "within_limits ss" "fsize ss < MaxActiveSessions"
    "\<And>dev. involves dev sid s \<noteq> 0 \<Longrightarrow> fmsum (involves dev) ss < MaxActiveSessionsPerPeer"
  shows "within_limits (fmupd sid s ss)"
proof -
  have "involves dev sid s + fmsum (involves dev) (fmdrop sid ss) \<le> MaxActiveSessionsPerPeer" for dev
  proof (cases "involves dev sid s = 0")
    case True
    then show ?thesis
      using assms(1) fmsum_drop_le [of "involves dev" sid ss] by (simp add: within_limits_def le_trans)
  next
    case False
    then have "involves dev sid s = 1" by (simp add: involves_def split: if_splits)
    then show ?thesis
      using assms(3) [OF False] fmsum_drop_le [of "involves dev" sid ss] by linarith
  qed
  then show ?thesis
    using assms(2) fsize_drop_le [of sid ss] by (simp add: within_limits_def)
qed

lemma commit_ok:
  assumes "signal_ok f (c, qs)" "\<not> public_id (q_session q)" "f (q_controllerID q) (q_targetID q)"
  shows "signal_ok f (fst (connect_commit q c), qs)"
  using assms by (auto simp: signal_ok_def connect_commit_def all_authorized_def sessionCountLocked_def
      involves_def intro!: within_limits_upd split: if_splits)

lemma signal_step_ok:
  assumes "signal_ok f (c, qs)"
  shows "signal_ok f (signal_step e (c, qs))"
proof (cases e)
  case (SigPrepare p req rnd)
  then show ?thesis
    using assms connect_prepare_frame [of p req rnd c] connect_prepare_Prepared [of p req rnd c]
    by (auto simp: signal_ok_def authorized_def split: prod.split connect_step.split)
next
  case (SigCommit i)
  then show ?thesis
    using assms commit_ok [OF assms, of "qs ! i"] nth_mem [of i qs]
    by (auto simp: signal_ok_def dest: in_set_takeD in_set_dropD)
next
  case SigGenerate
  then show ?thesis
    using assms by (cases "generate_id c") (auto simp: signal_ok_def dest: generate_id_private)
qed (use assms in \<open>auto simp: signal_ok_def RegisterPeer_def UpdateCandidates_def UnregisterPeer_def CloseSession_def
    Let_def fold_fmdrop_keeps within_limits_drop all_authorized_drop split: sum.split option.split\<close>)

lemma signal_run_ok: "signal_ok f st \<Longrightarrow> signal_ok f (signal_run es st)"
proof (induction es arbitrary: st)
  case (Cons e es)
  then show ?case
    using signal_step_ok [of f "fst st" "snd st" e] by (simp add: signal_run_def)
qed (simp add: signal_run_def)

lemma validate_each_sound:
  "validate_each seen cs = Inr vs \<Longrightarrow> length vs \<le> length cs
     \<and> (\<forall>v\<in>set vs. c_Protocol v \<in> {''udp'', ''tcp''} \<and> c_Type v \<in> {''lan'', ''reflexive''}
          \<and> (\<exists>ap. unicast ap \<and> c_Address v = addr_port_string ap))"
proof (induction seen cs arbitrary: vs rule: validate_each.induct)
  case (2 seen c cs)
  obtain ap where ap: "ParseAddrPort (c_Address c) = Some ap" "unicast ap"
    using 2(3) by (auto split: if_splits option.splits)
  have kinds: "c_Protocol c = ''udp'' \<or> c_Protocol c = ''tcp''" "c_Type c = ''lan'' \<or> c_Type c = ''reflexive''"
    using 2(3) by (auto split: if_splits)
  show ?case
  proof (cases "announced_key c ap \<in> set seen")
    case True
    then have "validate_each seen cs = Inr vs" using 2(3) ap kinds by (auto split: if_splits)
    then show ?thesis using 2(1) [OF _ _ ap(1) _ True] ap kinds by (auto intro: le_SucI)
  next
    case False
    then obtain vs' where vs: "validate_each (announced_key c ap # seen) cs = Inr vs'"
      "vs = c\<lparr>c_Address := addr_port_string ap\<rparr> # vs'"
      using 2(3) ap kinds by (auto split: sum.splits)
    have "length vs' \<le> length cs \<and> (\<forall>v\<in>set vs'. c_Protocol v \<in> {''udp'', ''tcp''} \<and> c_Type v \<in> {''lan'', ''reflexive''}
        \<and> (\<exists>ap. unicast ap \<and> c_Address v = addr_port_string ap))"
      using 2(2) [OF _ _ ap(1) _ False vs(1)] ap kinds by blast
    then show ?thesis using vs(2) ap(2) kinds by auto
  qed
qed simp

lemma validateCandidates_sound:
  "validateCandidates cs = Inr vs \<Longrightarrow> length vs \<le> MaxCandidateCount
     \<and> (\<forall>v\<in>set vs. c_Protocol v \<in> {''udp'', ''tcp''} \<and> c_Type v \<in> {''lan'', ''reflexive''}
          \<and> (\<exists>ap. unicast ap \<and> c_Address v = addr_port_string ap))"
  using validate_each_sound [of "[]" cs vs] by (auto simp: validateCandidates_def split: if_splits)

lemma fmlookup_fold_fmdrop:
  "fmlookup (fold fmdrop ks m) k = (if k \<in> set ks then None else fmlookup m k)"
  by (induction ks arbitrary: m) auto

text \<open>A connect response comes with one notice, to the writer of the target.\<close>

lemma connect_granted:
  assumes "HandleConnectRequest (Some p) req host (Some rnd) ok c = (c', out, Inr resp)" "m_Type resp = MsgTypeConnectResponse"
  shows "\<exists>q. resp = connect_response host q \<and> out = [(q_targetWriter q, connect_notice q)] \<and> q_token q = hex_encode rnd
    \<and> q_controllerID q = p_DeviceID p
    \<and> (\<exists>t. fmlookup (peers c) (m_TargetDeviceID req) = Some t \<and> q_targetCandidates q = p_Candidates t
        \<and> p_Writer t = Some (q_targetWriter q))"
proof -
  have prep: "connect_prepare p req (Some rnd) c = (c1, Prepared q) \<Longrightarrow> q_token q = hex_encode rnd \<and> q_controllerID q = p_DeviceID p
    \<and> (\<exists>t. fmlookup (peers c) (m_TargetDeviceID req) = Some t \<and> q_targetCandidates q = p_Candidates t
        \<and> p_Writer t = Some (q_targetWriter q))" for c1 q
    by (auto simp: connect_prepare_def Let_def split: if_splits sum.splits option.splits prod.splits)
  have reply: "connect_prepare p req (Some rnd) c = (c1, Reply m) \<Longrightarrow> m_Type m = MsgTypeError" for c1 m
    by (auto simp: connect_prepare_def Let_def split: if_splits sum.splits option.splits prod.splits)
  have refused: "connect_commit q c1 = (c2, Some m) \<Longrightarrow> m_Type m = MsgTypeError" for q c1 c2 m
    by (auto simp: connect_commit_def split: if_splits)
  show ?thesis using assms prep reply refused
    by (fastforce simp: HandleConnectRequest_def connect_notify_def split: prod.splits connect_step.splits option.splits if_splits)
qed

definition sample_peer :: ActivePeer where
  "sample_peer = \<lparr>p_DeviceID = ''pc'', p_Hostname = ''pc'', p_Writer = Some 7, p_Candidates = [], p_PublicPort = 20000\<rparr>"

definition sample_controller :: ActivePeer where
  "sample_controller = \<lparr>p_DeviceID = ''me'', p_Hostname = ''me'', p_Writer = Some 3, p_Candidates = [], p_PublicPort = 0\<rparr>"

definition sample_request :: ControlMessage where
  "sample_request = (message MsgTypeConnectRequest)\<lparr>m_TargetDeviceID := ''pc''\<rparr>"

definition sample_signals :: "(u32, activeSession) fmap" where
  "sample_signals = fmupd 5 \<lparr>controllerID = ''me'', targetID = ''pc'', controllerWriter = Some 3, targetWriter = Some 7\<rparr> fmempty"

definition sample_coordinator :: SessionCoordinator where
  "sample_coordinator = \<lparr>peers = fmupd ''pc'' sample_peer fmempty, signals = fmempty, nextSessionID = 0,
     authorize = Some (\<lambda>c t. True)\<rparr>"

section \<open>Properties\<close>

text \<open>
  The session table stays within its limits. Whatever the operations of all connections and their
  order, also with other operations between the two critical sections of a connect request, there are at
  most 2048 sessions, at most 64 with any device, every one of them was authorized by the policy, and
  no session has an identifier that the public UDP sessions use.
\<close>

theorem signaling_bounded:
  assumes "st = signal_run es (SetAuthorizer f (NewSessionCoordinator now), [])"
  shows "fsize (signals (fst st)) \<le> MaxActiveSessions
    \<and> (\<forall>dev. sessionCountLocked (fst st) dev \<le> MaxActiveSessionsPerPeer)
    \<and> (\<forall>sid s. fmlookup (signals (fst st)) sid = Some s \<longrightarrow> f (controllerID s) (targetID s) \<and> \<not> public_id sid)"
proof -
  have "signal_ok f (SetAuthorizer f (NewSessionCoordinator now), [])"
    by (simp add: signal_ok_def SetAuthorizer_def NewSessionCoordinator_def within_limits_def all_authorized_def)
  then have "signal_ok f st" unfolding assms by (rule signal_run_ok)
  then show ?thesis
    by (simp add: signal_ok_def within_limits_def all_authorized_def sessionCountLocked_def)
qed

lemma signaling_bounded_witness:
  "fsize (signals (fst (signal_run [SigRegister ''pc'' ''pc'' (Some 7) [] 20000,
     SigPrepare sample_controller sample_request (Some [0]), SigCommit 0]
     (SetAuthorizer (\<lambda>c t. True) (NewSessionCoordinator 0), [])))) \<le> MaxActiveSessions"
  using signaling_bounded [OF refl] by blast

text \<open>
  When a connect request is granted, and the first reason for which it is not. \<open>full\<close>: a limit of sessions is reached.
\<close>

definition full_for :: "string \<Rightarrow> string \<Rightarrow> SessionCoordinator \<Rightarrow> bool" where
  "full_for cid tid c \<longleftrightarrow> MaxActiveSessions \<le> fsize (signals c)
     \<or> MaxActiveSessionsPerPeer \<le> sessionCountLocked c cid \<or> MaxActiveSessionsPerPeer \<le> sessionCountLocked c tid"

lemma HandleConnectRequest_refused:
  assumes "HandleConnectRequest (Some p) req host rnd ok c = (c', out, r)"
    "fmlookup (signals c) (snd (generate_id c)) = None"
  shows "m_TargetDeviceID req = [] \<Longrightarrow> r = Inl ''missing target_device_id'' \<and> out = [] \<and> signals c' = signals c"
    and "m_TargetDeviceID req \<noteq> [] \<Longrightarrow> validateCandidates (m_Candidates req) = Inl e \<Longrightarrow>
      r = Inr (error_message 400 e) \<and> out = [] \<and> signals c' = signals c"
    and "m_TargetDeviceID req \<noteq> [] \<Longrightarrow> validateCandidates (m_Candidates req) = Inr cands \<Longrightarrow>
      \<not> authorized c (p_DeviceID p) (m_TargetDeviceID req) \<Longrightarrow>
      r = Inr (error_message 403 ''controller is not authorized for target'') \<and> out = [] \<and> signals c' = signals c"
    and "m_TargetDeviceID req \<noteq> [] \<Longrightarrow> validateCandidates (m_Candidates req) = Inr cands \<Longrightarrow>
      authorized c (p_DeviceID p) (m_TargetDeviceID req) \<Longrightarrow>
      (\<And>t. fmlookup (peers c) (m_TargetDeviceID req) = Some t \<Longrightarrow> p_Writer t = None) \<Longrightarrow>
      r = Inr (error_message 404 ''target peer is currently offline'') \<and> out = [] \<and> signals c' = signals c"
  using assms(1)
  by (auto simp: HandleConnectRequest_def connect_prepare_def Let_def split: option.splits prod.splits)

lemma HandleConnectRequest_prepared:
  assumes "HandleConnectRequest (Some p) req host rnd ok c = (c', out, r)"
    "fmlookup (signals c) (snd (generate_id c)) = None"
    "m_TargetDeviceID req \<noteq> []" "validateCandidates (m_Candidates req) = Inr cands"
    "authorized c (p_DeviceID p) (m_TargetDeviceID req)"
    "fmlookup (peers c) (m_TargetDeviceID req) = Some t" "p_Writer t = Some w"
    "sid = snd (generate_id c)"
  shows "rnd = None \<Longrightarrow> r = Inl ''generate session token'' \<and> out = [] \<and> signals c' = signals c"
    and "rnd = Some tok \<Longrightarrow> full_for (p_DeviceID p) (m_TargetDeviceID req) c \<Longrightarrow>
      r = Inr (error_message 429 ''active signaling session limit exceeded'') \<and> out = [] \<and> signals c' = signals c"
    and "rnd = Some tok \<Longrightarrow> \<not> full_for (p_DeviceID p) (m_TargetDeviceID req) c \<Longrightarrow> \<not> ok \<Longrightarrow>
      r = Inl ''notify target failed'' \<and> signals c' = signals c
      \<and> out = [(w, (message MsgTypeSessionClose)\<lparr>m_DeviceID := p_DeviceID p,
          m_TargetDeviceID := m_TargetDeviceID req, m_SessionID := sid\<rparr>)]"
    and "rnd = Some tok \<Longrightarrow> \<not> full_for (p_DeviceID p) (m_TargetDeviceID req) c \<Longrightarrow> ok \<Longrightarrow>
      r = Inr ((message MsgTypeConnectResponse)\<lparr>m_DeviceID := p_DeviceID p, m_TargetDeviceID := m_TargetDeviceID req,
          m_SessionID := sid, m_SessionToken := hex_encode tok, m_Candidates := p_Candidates t,
          m_PublicHost := host, m_PublicPort := p_PublicPort t, m_PunchRole := ''controller''\<rparr>)
      \<and> out = [(w, (message MsgTypeConnectNotify)\<lparr>m_DeviceID := p_DeviceID p, m_TargetDeviceID := m_TargetDeviceID req,
          m_SessionID := sid, m_SessionToken := hex_encode tok, m_Candidates := cands, m_PunchRole := ''controlled''\<rparr>)]
      \<and> signals c' = fmupd sid \<lparr>controllerID = p_DeviceID p, targetID = m_TargetDeviceID req,
          controllerWriter = p_Writer p, targetWriter = Some w\<rparr> (signals c)"
proof -
  obtain c1 where id: "generate_id c = (c1, sid)" using assms(8) by (cases "generate_id c") simp
  then have same: "signals c1 = signals c" "fmlookup (signals c1) sid = None"
    "sessionCountLocked c1 = sessionCountLocked c"
    using generate_id_private [OF id] assms(2) by (auto simp: sessionCountLocked_def fun_eq_iff)
  note eqs = HandleConnectRequest_def connect_prepare_def connect_commit_def connect_notify_def
    CloseSession_def full_for_def fmdrop_idle connect_response_def connect_notice_def
  show "rnd = None \<Longrightarrow> r = Inl ''generate session token'' \<and> out = [] \<and> signals c' = signals c"
    using assms(1,3-7) id same by (auto simp: eqs)
  show "rnd = Some tok \<Longrightarrow> full_for (p_DeviceID p) (m_TargetDeviceID req) c \<Longrightarrow>
      r = Inr (error_message 429 ''active signaling session limit exceeded'') \<and> out = [] \<and> signals c' = signals c"
    using assms(1,3-7) id same by (auto simp: eqs split: if_splits)
  show "rnd = Some tok \<Longrightarrow> \<not> full_for (p_DeviceID p) (m_TargetDeviceID req) c \<Longrightarrow> \<not> ok \<Longrightarrow>
      r = Inl ''notify target failed'' \<and> signals c' = signals c
      \<and> out = [(w, (message MsgTypeSessionClose)\<lparr>m_DeviceID := p_DeviceID p,
          m_TargetDeviceID := m_TargetDeviceID req, m_SessionID := sid\<rparr>)]"
    using assms(1,3-7) id same by (auto simp: eqs split: if_splits)
  show "rnd = Some tok \<Longrightarrow> \<not> full_for (p_DeviceID p) (m_TargetDeviceID req) c \<Longrightarrow> ok \<Longrightarrow>
      r = Inr ((message MsgTypeConnectResponse)\<lparr>m_DeviceID := p_DeviceID p, m_TargetDeviceID := m_TargetDeviceID req,
          m_SessionID := sid, m_SessionToken := hex_encode tok, m_Candidates := p_Candidates t,
          m_PublicHost := host, m_PublicPort := p_PublicPort t, m_PunchRole := ''controller''\<rparr>)
      \<and> out = [(w, (message MsgTypeConnectNotify)\<lparr>m_DeviceID := p_DeviceID p, m_TargetDeviceID := m_TargetDeviceID req,
          m_SessionID := sid, m_SessionToken := hex_encode tok, m_Candidates := cands, m_PunchRole := ''controlled''\<rparr>)]
      \<and> signals c' = fmupd sid \<lparr>controllerID = p_DeviceID p, targetID = m_TargetDeviceID req,
          controllerWriter = p_Writer p, targetWriter = Some w\<rparr> (signals c)"
    using assms(1,3-7) id same by (auto simp: eqs split: if_splits)
qed

text \<open>
  C29: Which answer a connect request gets. In any state that the operations of all connections lead to, with an
  identifier that is not in use, the answer is a connect response if and only if the request names a target, its
  candidates are valid, the policy allows the controller that target, the target is registered with a
  writer, a token can be drawn, no limit of sessions is reached, and the target can be notified. The response then
  carries the candidates and port the target registered; the one message sent goes to the target's writer, with the
  same identifier and token and the valid candidates of the request; a session with these parties and writers is
  recorded, and the table is still within its limits. Otherwise the table of sessions is as it was, the answer is the
  error of the first condition that fails, and nothing is sent, except that a target that could not be notified is
  told that the session is closed.
\<close>

theorem connect_outcome:
  assumes "c = fst (signal_run es (SetAuthorizer f (NewSessionCoordinator now), []))"
    "HandleConnectRequest (Some p) req host rnd ok c = (c', out, r)"
    "sid = snd (generate_id c)" "fmlookup (signals c) sid = None"
    "cid = p_DeviceID p" "tid = m_TargetDeviceID req"
    "writer = (case fmlookup (peers c) tid of None \<Rightarrow> None | Some t \<Rightarrow> p_Writer t)"
  shows "((\<exists>m. r = Inr m \<and> m_Type m = MsgTypeConnectResponse) \<longleftrightarrow>
      tid \<noteq> [] \<and> (\<exists>cands. validateCandidates (m_Candidates req) = Inr cands) \<and> f cid tid
        \<and> writer \<noteq> None \<and> rnd \<noteq> None \<and> \<not> full_for cid tid c \<and> ok)
    \<and> (\<forall>m. r = Inr m \<and> m_Type m = MsgTypeConnectResponse \<longrightarrow>
      (\<exists>t w tok cands. fmlookup (peers c) tid = Some t \<and> p_Writer t = Some w \<and> rnd = Some tok
        \<and> validateCandidates (m_Candidates req) = Inr cands
        \<and> m = (message MsgTypeConnectResponse)\<lparr>m_DeviceID := cid, m_TargetDeviceID := tid, m_SessionID := sid,
            m_SessionToken := hex_encode tok, m_Candidates := p_Candidates t, m_PublicHost := host,
            m_PublicPort := p_PublicPort t, m_PunchRole := ''controller''\<rparr>
        \<and> out = [(w, (message MsgTypeConnectNotify)\<lparr>m_DeviceID := cid, m_TargetDeviceID := tid, m_SessionID := sid,
            m_SessionToken := hex_encode tok, m_Candidates := cands, m_PunchRole := ''controlled''\<rparr>)]
        \<and> signals c' = fmupd sid \<lparr>controllerID = cid, targetID = tid, controllerWriter = p_Writer p,
            targetWriter = Some w\<rparr> (signals c))
      \<and> fsize (signals c') \<le> MaxActiveSessions \<and> (\<forall>dev. sessionCountLocked c' dev \<le> MaxActiveSessionsPerPeer))
    \<and> (\<not> (\<exists>m. r = Inr m \<and> m_Type m = MsgTypeConnectResponse) \<longrightarrow> signals c' = signals c
      \<and> r = (if tid = [] then Inl ''missing target_device_id''
          else case validateCandidates (m_Candidates req) of Inl e \<Rightarrow> Inr (error_message 400 e)
          | Inr _ \<Rightarrow>
            if \<not> f cid tid then Inr (error_message 403 ''controller is not authorized for target'')
            else if writer = None then Inr (error_message 404 ''target peer is currently offline'')
            else if rnd = None then Inl ''generate session token''
            else if full_for cid tid c then Inr (error_message 429 ''active signaling session limit exceeded'')
            else Inl ''notify target failed'')
      \<and> out = (if r = Inl ''notify target failed'' then [(the writer, (message MsgTypeSessionClose)\<lparr>
          m_DeviceID := cid, m_TargetDeviceID := tid, m_SessionID := sid\<rparr>)] else []))"
proof -
  have "signal_ok f (SetAuthorizer f (NewSessionCoordinator now), [])"
    by (simp add: signal_ok_def SetAuthorizer_def NewSessionCoordinator_def within_limits_def all_authorized_def)
  then have inv: "signal_ok f (signal_run es (SetAuthorizer f (NewSessionCoordinator now), []))" by (rule signal_run_ok)
  then have auth: "authorized c x y \<longleftrightarrow> f x y" for x y by (simp add: assms(1) signal_ok_def authorized_def)
  have lim: "within_limits (signals c)" using inv by (simp add: assms(1) signal_ok_def)
  note refused = HandleConnectRequest_refused [OF assms(2) assms(4) [unfolded assms(3)]]
  consider "tid = []" | e where "tid \<noteq> []" "validateCandidates (m_Candidates req) = Inl e"
    | cands where "tid \<noteq> []" "validateCandidates (m_Candidates req) = Inr cands" "\<not> f cid tid"
    | cands where "tid \<noteq> []" "validateCandidates (m_Candidates req) = Inr cands" "f cid tid" "writer = None"
    | cands t w where "tid \<noteq> []" "validateCandidates (m_Candidates req) = Inr cands" "f cid tid"
        "fmlookup (peers c) tid = Some t" "p_Writer t = Some w" "writer = Some w"
    unfolding assms(7) by (cases "validateCandidates (m_Candidates req)"; cases "fmlookup (peers c) tid";
      cases "p_Writer (the (fmlookup (peers c) tid))") auto
  then show ?thesis
  proof cases
    case 1
    then show ?thesis using refused(1) assms(6) by simp
  next
    case 2
    then show ?thesis using refused(2) assms(6) by simp
  next
    case 3
    then show ?thesis using refused(3) assms(5,6) by (simp add: auth)
  next
    case 4
    then show ?thesis using refused(4) assms(5-7) by (simp add: auth split: option.splits)
  next
    case (5 cands t w)
    have "authorized c (p_DeviceID p) (m_TargetDeviceID req)" using 5(3) assms(5,6) by (simp add: auth)
    note prepared = HandleConnectRequest_prepared [OF assms(2) assms(4) [unfolded assms(3)]
        5(1,2) [unfolded assms(6)] this 5(4) [unfolded assms(6)] 5(5) assms(3), folded assms(5,6)]
    consider "rnd = None" | tok where "rnd = Some tok" "full_for cid tid c"
      | tok where "rnd = Some tok" "\<not> full_for cid tid c" "\<not> ok"
      | tok where "rnd = Some tok" "\<not> full_for cid tid c" "ok" by blast
    then show ?thesis
    proof cases
      case 1
      then show ?thesis using prepared(1) 5 by simp
    next
      case 2
      then show ?thesis using prepared(2) 5 by simp
    next
      case 3
      then show ?thesis using prepared(3) 5 by simp
    next
      case (4 tok)
      note granted = prepared(4) [OF 4]
      let ?s = "\<lparr>controllerID = cid, targetID = tid, controllerWriter = p_Writer p, targetWriter = Some w\<rparr>"
      have "within_limits (fmupd sid ?s (signals c))"
        using 4(2) by (intro within_limits_upd [OF lim])
          (auto simp: full_for_def sessionCountLocked_def involves_def not_le split: if_splits)
      then have "fsize (signals c') \<le> MaxActiveSessions \<and> (\<forall>dev. sessionCountLocked c' dev \<le> MaxActiveSessionsPerPeer)"
        using granted by (simp add: within_limits_def sessionCountLocked_def)
      then show ?thesis using granted 5 4 by (simp add: message_def)
    qed
  qed
qed

lemma connect_outcome_witness:
  "\<exists>m. fst (snd (HandleConnectRequest (Some sample_controller) sample_request ''relay'' (Some [0]) True
     (fst (signal_run [SigRegister ''pc'' ''pc'' (Some 7) [] 20000] (SetAuthorizer (\<lambda>c t. True) (NewSessionCoordinator 0), [])))))
     = [(7, m)] \<and> m_Type m = MsgTypeConnectNotify"
proof -
  let ?c = "fst (signal_run [SigRegister ''pc'' ''pc'' (Some 7) [] 20000]
    (SetAuthorizer (\<lambda>c t. True) (NewSessionCoordinator 0), []))"
  obtain c' out r where h: "HandleConnectRequest (Some sample_controller) sample_request ''relay'' (Some [0]) True ?c
      = (c', out, r)" by (rule prod_cases3)
  have c: "signals ?c = fmempty" "\<not> full_for x y ?c"
    "fmlookup (peers ?c) ''pc'' = Some \<lparr>p_DeviceID = ''pc'', p_Hostname = ''pc'', p_Writer = Some 7, p_Candidates = [],
      p_PublicPort = 20000\<rparr>" for x y
    by (simp_all add: signal_run_def SetAuthorizer_def NewSessionCoordinator_def RegisterPeer_def
        validateCandidates_def full_for_def sessionCountLocked_def MaxActiveSessions_def
        MaxActiveSessionsPerPeer_def MaxCandidateCount_def)
  have req: "m_TargetDeviceID sample_request = ''pc''" "validateCandidates (m_Candidates sample_request) = Inr []"
    by (simp_all add: sample_request_def message_def validateCandidates_def MaxCandidateCount_def)
  have fresh: "fmlookup (signals ?c) (snd (generate_id ?c)) = None" by (simp add: c)
  note o = connect_outcome [OF refl h refl fresh refl refl refl, unfolded req c(3) option.case]
  from o c(2) have "\<exists>m. r = Inr m \<and> m_Type m = MsgTypeConnectResponse" by simp
  then show ?thesis using o h by (auto simp: message_def)
qed

text \<open>
  Candidates stay within their session. A candidate exchange that is forwarded goes to the other party of
  the session named, through the stream that party had when the session was made, only while the policy
  allows the two to talk, and carries at most 16 candidates, all unicast addresses with a port.
\<close>

theorem exchange_in_session:
  assumes "ForwardCandidateExchange sid from to' cands c = Inr (w, msg)"
  shows "\<exists>s. fmlookup (signals c) sid = Some s \<and> authorized c (controllerID s) (targetID s)
    \<and> (from = controllerID s \<and> targetWriter s = Some w \<and> m_TargetDeviceID msg = targetID s
       \<or> from = targetID s \<and> controllerWriter s = Some w \<and> m_TargetDeviceID msg = controllerID s)
    \<and> m_SessionID msg = sid \<and> length (m_Candidates msg) \<le> MaxCandidateCount
    \<and> (\<forall>v\<in>set (m_Candidates msg). \<exists>ap. unicast ap \<and> c_Address v = addr_port_string ap)"
proof -
  obtain valid s where v: "validateCandidates cands = Inr valid" "fmlookup (signals c) sid = Some s"
    using assms by (auto simp: ForwardCandidateExchange_def split: sum.splits option.splits)
  then have "m_Candidates msg = valid" "m_SessionID msg = sid" "authorized c (controllerID s) (targetID s)"
    "from = controllerID s \<and> targetWriter s = Some w \<and> m_TargetDeviceID msg = targetID s
     \<or> from = targetID s \<and> controllerWriter s = Some w \<and> m_TargetDeviceID msg = controllerID s"
    using assms by (auto simp: ForwardCandidateExchange_def Let_def split: option.splits if_splits)
  then show ?thesis using v validateCandidates_sound [OF v(1)] by blast
qed

lemma exchange_in_session_witness:
  "\<exists>s. fmlookup (signals (sample_coordinator\<lparr>signals := sample_signals\<rparr>)) 5 = Some s \<and> targetWriter s = Some 7"
proof -
  have "ForwardCandidateExchange 5 ''me'' [] [] (sample_coordinator\<lparr>signals := sample_signals\<rparr>)
      = Inr (7, (message MsgTypeCandidateExchange)\<lparr>m_DeviceID := ''me'', m_TargetDeviceID := ''pc'', m_SessionID := 5\<rparr>)"
    by (simp add: ForwardCandidateExchange_def validateCandidates_def sample_coordinator_def sample_signals_def
        authorized_def message_def)
  from exchange_in_session [OF this] show ?thesis by (auto simp: sample_signals_def)
qed

text \<open>
  A connection takes with it what it owns, and nothing else. When a connection of an agent ends, the
  agent goes offline only if it has not come back on another connection; exactly the sessions whose target
  was reached over the ended connection are removed, and each of their controllers is told.
\<close>

theorem unregister_exact:
  assumes "set ids = fset (fmdom (signals c))"
  shows "fmlookup (peers (fst (UnregisterPeer dev w ids c))) d
      = (if d = dev \<and> map_option p_Writer (fmlookup (peers c) dev) = Some w then None else fmlookup (peers c) d)
    \<and> fmlookup (signals (fst (UnregisterPeer dev w ids c))) sid
      = (case fmlookup (signals c) sid of None \<Rightarrow> None
         | Some s \<Rightarrow> if targetID s = dev \<and> targetWriter s = w then None else Some s)
    \<and> set (snd (UnregisterPeer dev w ids c))
      = {(cw, (message MsgTypeSessionClose)\<lparr>m_SessionID := i\<rparr>) |i s cw. fmlookup (signals c) i = Some s
           \<and> targetID s = dev \<and> targetWriter s = w \<and> controllerWriter s = Some cw}"
proof (intro conjI)
  show "fmlookup (signals (fst (UnregisterPeer dev w ids c))) sid
      = (case fmlookup (signals c) sid of None \<Rightarrow> None
         | Some s \<Rightarrow> if targetID s = dev \<and> targetWriter s = w then None else Some s)"
    using assms by (auto simp: UnregisterPeer_def Let_def fmlookup_fold_fmdrop session_of_target_def fmdomI
        split: option.splits)
  show "set (snd (UnregisterPeer dev w ids c))
      = {(cw, (message MsgTypeSessionClose)\<lparr>m_SessionID := i\<rparr>) |i s cw. fmlookup (signals c) i = Some s
           \<and> targetID s = dev \<and> targetWriter s = w \<and> controllerWriter s = Some cw}"
    using assms by (auto simp: UnregisterPeer_def Let_def close_notice_def session_of_target_def fmdomI
        split: option.splits) blast
qed (auto simp: UnregisterPeer_def Let_def split: option.split)

lemma unregister_exact_witness:
  "fmlookup (signals (fst (UnregisterPeer ''pc'' (Some 8) [5] (sample_coordinator\<lparr>signals := sample_signals\<rparr>)))) 5
     = fmlookup sample_signals 5"
  by (subst unregister_exact [THEN conjunct2, THEN conjunct1]) (simp_all add: sample_signals_def)

end
