(* ===== verification/Tls_Mux.thy ===== *)
theory Tls_Mux
  imports Wire_Format "HOL-Library.Sublist"
begin

text \<open>
  The multiplexer over one TLS connection, \<open>internal/transport/tlsmux/tlsmux.go\<close>: its frames, the table
  of streams and the queues a session keeps, the loop that reads frames, and reading and writing a stream.

  A stream is an object that readers may still hold when it has left the table; objects are numbered by
  their position in a list that only grows. Operations of other goroutines may run between any two steps
  of the read loop, and between the two parts of \<open>Read\<close>: the look at the queue that does not block, and
  the select that does. Deadlines and contexts appear as the choice of the select they decide.
\<close>

section \<open>Frames\<close>

definition frameHeaderSize :: nat where "frameHeaderSize = 9"
definition maxFramePayload :: nat where "maxFramePayload = 65536"
definition maxWriteChunk :: nat where "maxWriteChunk = 16384"
definition maxStreams :: nat where "maxStreams = 256"
definition streamQueueSize :: nat where "streamQueueSize = 64"
definition datagramQueueSize :: nat where "datagramQueueSize = 256"
definition acceptQueueSize :: nat where "acceptQueueSize = 128"

datatype frame = FrameOpen u32 | FrameData u32 bytes | FrameClose u32 | FrameDatagram bytes

fun frame_type :: "frame \<Rightarrow> byte" where
  "frame_type (FrameOpen i) = 1"
| "frame_type (FrameData i p) = 2"
| "frame_type (FrameClose i) = 3"
| "frame_type (FrameDatagram p) = 4"

fun frame_id :: "frame \<Rightarrow> u32" where
  "frame_id (FrameOpen i) = i"
| "frame_id (FrameData i p) = i"
| "frame_id (FrameClose i) = i"
| "frame_id (FrameDatagram p) = 0"

fun frame_payload :: "frame \<Rightarrow> bytes" where
  "frame_payload (FrameData i p) = p"
| "frame_payload (FrameDatagram p) = p"
| "frame_payload _ = []"

text \<open>\<open>writeFrame\<close> puts header and payload into one buffer; a payload that is too long is an error.\<close>

definition frame_bytes :: "frame \<Rightarrow> bytes" where
  "frame_bytes f = [frame_type f] @ put_be32 (frame_id f) @ put_be32 (of_nat (length (frame_payload f))) @ frame_payload f"

definition writeFrame :: "frame \<Rightarrow> unit + bytes" where
  "writeFrame f = (if length (frame_payload f) > maxFramePayload then Inl () else Inr (frame_bytes f))"

text \<open>The part of \<open>readLoop\<close> that reads one frame; \<open>Inl\<close> ends the session.\<close>

definition read_frame :: "bytes \<Rightarrow> unit + frame \<times> bytes" where
  "read_frame bs = (case read_full frameHeaderSize bs of
     Inl _ \<Rightarrow> Inl ()
   | Inr (h, rest) \<Rightarrow>
       (let t = h ! 0; i = be32 (slice 1 5 h); n = unat (be32 (slice 5 9 h)) in
        if n > maxFramePayload then Inl ()
        else if t = 1 then (if n \<noteq> 0 then Inl () else Inr (FrameOpen i, rest))
        else if t = 2 then (case read_full n rest of Inl _ \<Rightarrow> Inl () | Inr (p, rest) \<Rightarrow> Inr (FrameData i p, rest))
        else if t = 3 then (if n \<noteq> 0 then Inl () else Inr (FrameClose i, rest))
        else if t = 4 then
          (if i \<noteq> 0 then Inl ()
           else case read_full n rest of Inl _ \<Rightarrow> Inl () | Inr (p, rest) \<Rightarrow> Inr (FrameDatagram p, rest))
        else Inl ()))"

definition sendable :: "frame \<Rightarrow> bool" where
  "sendable f \<longleftrightarrow> length (frame_payload f) \<le> maxFramePayload"

text \<open>\<open>Write\<close> cuts the data into frames of at most 16 KiB.\<close>

function write_chunks :: "bytes \<Rightarrow> bytes list" where
  "write_chunks data = (if data = [] then [] else take maxWriteChunk data # write_chunks (drop maxWriteChunk data))"
  by auto
termination by (relation "measure length") (auto simp: maxWriteChunk_def)

declare write_chunks.simps [simp del]

definition mux_write :: "u32 \<Rightarrow> bytes \<Rightarrow> frame list" where
  "mux_write i data = map (FrameData i) (write_chunks data)"

section \<open>Sessions\<close>

text \<open>\<open>reading\<close>: a reader has found the queue empty and is about to enter the select.\<close>

record mux_stream =
  stream_id :: u32
  incoming :: "bytes list"
  current :: bytes
  localDone :: bool
  remoteDone :: bool
  reading :: bool

text \<open>\<open>accepting\<close> is the stream that the read loop is about to put into the queue of new streams.\<close>

record mux =
  client :: bool
  nextID :: u32
  table :: "(u32, nat) fmap"
  objects :: "mux_stream list"
  accepting :: "nat option"
  acceptCh :: "nat list"
  datagramCh :: "bytes list"
  session_done :: bool

definition newMuxStream :: "u32 \<Rightarrow> mux_stream" where
  "newMuxStream i = \<lparr>stream_id = i, incoming = [], current = [], localDone = False, remoteDone = False, reading = False\<rparr>"

definition newSession :: "bool \<Rightarrow> mux" where
  "newSession cl = \<lparr>client = cl, nextID = (if cl then 1 else 2), table = fmempty, objects = [], accepting = None,
     acceptCh = [], datagramCh = [], session_done = False\<rparr>"

definition remoteOwnsID :: "mux \<Rightarrow> u32 \<Rightarrow> bool" where
  "remoteOwnsID m i = (if client m then i mod 2 = 0 else i mod 2 = 1)"

definition closed_session :: "mux \<Rightarrow> mux" where
  "closed_session m = m\<lparr>session_done := True\<rparr>"

definition upd_stream :: "nat \<Rightarrow> (mux_stream \<Rightarrow> mux_stream) \<Rightarrow> mux \<Rightarrow> mux" where
  "upd_stream k g m = m\<lparr>objects := (objects m)[k := g (objects m ! k)]\<rparr>"

text \<open>One frame in the read loop; \<open>None\<close> while the queue it goes to is full.\<close>

fun handle_frame :: "frame \<Rightarrow> mux \<Rightarrow> mux option" where
  "handle_frame (FrameOpen i) m =
     (if i = 0 \<or> \<not> remoteOwnsID m i then Some (closed_session m)
      else if fmlookup (table m) i \<noteq> None \<or> fsize (table m) \<ge> maxStreams then Some (closed_session m)
      else (let k = length (objects m) in
        Some (m\<lparr>objects := objects m @ [newMuxStream i], table := fmupd i k (table m), accepting := Some k\<rparr>)))"
| "handle_frame (FrameData i p) m = (case fmlookup (table m) i of
     None \<Rightarrow> Some m
   | Some k \<Rightarrow>
       if localDone (objects m ! k) then Some m
       else if length (incoming (objects m ! k)) < streamQueueSize
       then Some (upd_stream k (\<lambda>s. s\<lparr>incoming := incoming s @ [p]\<rparr>) m)
       else None)"
| "handle_frame (FrameClose i) m = (case fmlookup (table m) i of
     None \<Rightarrow> Some m
   | Some k \<Rightarrow> Some (upd_stream k (\<lambda>s. s\<lparr>remoteDone := True\<rparr>) m))"
| "handle_frame (FrameDatagram p) m =
     Some (if length (datagramCh m) < datagramQueueSize then m\<lparr>datagramCh := datagramCh m @ [p]\<rparr> else m)"

text \<open>\<open>OpenStream\<close>; \<open>ok\<close>: the frame could be written.\<close>

definition OpenStream :: "bool \<Rightarrow> mux \<Rightarrow> mux \<times> nat option" where
  "OpenStream ok m =
     (let i = nextID m; k = length (objects m); m = m\<lparr>nextID := i + 2, objects := objects m @ [newMuxStream i]\<rparr> in
      if fsize (table m) \<ge> maxStreams then (m, None)
      else if ok then (m\<lparr>table := fmupd i k (table m)\<rparr>, Some k)
      else (upd_stream k (\<lambda>s. s\<lparr>localDone := True\<rparr>) (m\<lparr>table := fmdrop i (table m)\<rparr>), None))"

text \<open>\<open>Close\<close> of a stream: it leaves the table if it is still the one there.\<close>

definition CloseStream :: "nat \<Rightarrow> mux \<Rightarrow> mux" where
  "CloseStream k m =
     (if localDone (objects m ! k) then m
      else let i = stream_id (objects m ! k); m = upd_stream k (\<lambda>s. s\<lparr>localDone := True\<rparr>) m in
        if fmlookup (table m) i = Some k then m\<lparr>table := fmdrop i (table m)\<rparr> else m)"

section \<open>Reading\<close>

datatype read_result = Read_Bytes bytes | Read_EOF | Read_Closed | Read_Timeout | Read_Waits

text \<open>\<open>Read\<close> up to the select: what is left of the last frame, or the next frame that is not empty.\<close>

fun take_frame :: "nat \<Rightarrow> mux_stream \<Rightarrow> bytes list \<Rightarrow> mux_stream \<times> read_result" where
  "take_frame n s [] = (s\<lparr>incoming := [], current := [], reading := True\<rparr>, Read_Waits)"
| "take_frame n s (f # fs) =
     (if f = [] then take_frame n s fs
      else (s\<lparr>incoming := fs, current := drop n f, reading := False\<rparr>, Read_Bytes (take n f)))"

definition read_start :: "nat \<Rightarrow> mux_stream \<Rightarrow> mux_stream \<times> read_result" where
  "read_start n s =
     (if n = 0 then (s, Read_Bytes [])
      else if current s \<noteq> [] then (s\<lparr>current := drop n (current s)\<rparr>, Read_Bytes (take n (current s)))
      else take_frame n s (incoming s))"

text \<open>The select; the choice is free among the cases that are ready.\<close>

datatype select_case = SelIncoming | SelRemote | SelLocal | SelSession | SelDeadline

fun read_select :: "select_case \<Rightarrow> nat \<Rightarrow> bool \<Rightarrow> mux_stream \<Rightarrow> (mux_stream \<times> read_result) option" where
  "read_select SelIncoming n fin s =
     (if incoming s \<noteq> [] then Some (take_frame n (s\<lparr>reading := False\<rparr>) (incoming s)) else None)"
| "read_select SelRemote n fin s = (if remoteDone s then Some (s\<lparr>reading := False\<rparr>, Read_EOF) else None)"
| "read_select SelLocal n fin s = (if localDone s then Some (s\<lparr>reading := False\<rparr>, Read_Closed) else None)"
| "read_select SelSession n fin s = (if fin then Some (s\<lparr>reading := False\<rparr>, Read_Closed) else None)"
| "read_select SelDeadline n fin s = Some (s\<lparr>reading := False\<rparr>, Read_Timeout)"

section \<open>Runs\<close>

datatype mux_event =
    EvFrame frame | EvBadFrame | EvPush | EvAccept | EvOpen bool | EvClose nat | EvReceive
  | EvRead nat nat | EvSelect nat nat select_case | EvShut

text \<open>A step that is not possible in a state is \<open>None\<close>; a read gives the stream and its result.\<close>

fun mux_step :: "mux_event \<Rightarrow> mux \<Rightarrow> (mux \<times> (nat \<times> read_result) option) option" where
  "mux_step (EvFrame f) m =
     (if session_done m \<or> accepting m \<noteq> None then None else map_option (\<lambda>m. (m, None)) (handle_frame f m))"
| "mux_step EvBadFrame m = (if session_done m \<or> accepting m \<noteq> None then None else Some (closed_session m, None))"
| "mux_step EvPush m = (case accepting m of
     Some k \<Rightarrow> if length (acceptCh m) < acceptQueueSize
               then Some (m\<lparr>accepting := None, acceptCh := acceptCh m @ [k]\<rparr>, None) else None
   | None \<Rightarrow> None)"
| "mux_step EvAccept m = (case acceptCh m of k # ks \<Rightarrow> Some (m\<lparr>acceptCh := ks\<rparr>, None) | [] \<Rightarrow> None)"
| "mux_step (EvOpen ok) m = Some (fst (OpenStream ok m), None)"
| "mux_step (EvClose k) m = (if k < length (objects m) then Some (CloseStream k m, None) else None)"
| "mux_step EvReceive m = (case datagramCh m of p # ps \<Rightarrow> Some (m\<lparr>datagramCh := ps\<rparr>, None) | [] \<Rightarrow> None)"
| "mux_step (EvRead k n) m =
     (if k < length (objects m) \<and> \<not> reading (objects m ! k)
      then (case read_start n (objects m ! k) of (s, r) \<Rightarrow> Some (upd_stream k (\<lambda>_. s) m, Some (k, r))) else None)"
| "mux_step (EvSelect k n c) m =
     (if k < length (objects m) \<and> reading (objects m ! k)
      then map_option (\<lambda>(s, r). (upd_stream k (\<lambda>_. s) m, Some (k, r))) (read_select c n (session_done m) (objects m ! k))
      else None)"
| "mux_step EvShut m = Some (closed_session m, None)"

fun mux_run :: "mux_event list \<Rightarrow> mux \<Rightarrow> (mux \<times> (nat \<times> read_result) option list) option" where
  "mux_run [] m = Some (m, [])"
| "mux_run (e # es) m = (case mux_step e m of
     None \<Rightarrow> None
   | Some (m, r) \<Rightarrow> map_option (\<lambda>(m, rs). (m, r # rs)) (mux_run es m))"

section \<open>The frame format\<close>

lemma frame_consts: "frameHeaderSize = 9" "maxFramePayload = 65536"
  by (simp_all add: frameHeaderSize_def maxFramePayload_def)

lemma frame_header:
  "read_full 9 ([t] @ put_be32 i @ put_be32 n @ rest) = Inr ([t] @ put_be32 i @ put_be32 n, rest)"
  using read_full_append [of "[t] @ put_be32 i @ put_be32 n" 9 rest] by simp

lemma header_fields:
  "([t] @ put_be32 i @ put_be32 n) ! 0 = t" "be32 (slice 1 5 ([t] @ put_be32 i @ put_be32 n)) = i"
  "be32 (slice 5 9 ([t] @ put_be32 i @ put_be32 n)) = n"
  by (simp_all add: slice_def)

lemma payload_length: "sendable f \<Longrightarrow> unat (of_nat (length (frame_payload f)) :: u32) = length (frame_payload f)"
  by (simp add: sendable_def frame_consts unsigned_of_nat take_bit_nat_eq_self)

lemma read_frame_bytes: "sendable f \<Longrightarrow> read_frame (frame_bytes f @ rest) = Inr (f, rest)"
proof -
  assume f: "sendable f"
  have "read_full 9 (frame_bytes f @ rest)
      = Inr ([frame_type f] @ put_be32 (frame_id f) @ put_be32 (of_nat (length (frame_payload f))), frame_payload f @ rest)"
    using frame_header [of "frame_type f" "frame_id f" _ "frame_payload f @ rest"] by (simp add: frame_bytes_def)
  then show ?thesis
    unfolding read_frame_def frame_consts(1)
    using f payload_length [OF f] header_fields [of "frame_type f" "frame_id f" "of_nat (length (frame_payload f))"]
    by (cases f) (simp_all add: Let_def sendable_def)
qed

interpretation mux_frames: stream_format frame_bytes read_frame sendable
proof unfold_locales
  show "\<exists>e. read_frame [] = Inl e" by (simp add: read_frame_def read_full_def frame_consts)
qed (rule read_frame_bytes)

lemma read_full_0: "read_full 0 bs = Inr ([], bs)"
  by (simp add: read_full_def)

lemma read_frame_iff: "read_frame bs = Inr (f, rest) \<longleftrightarrow> sendable f \<and> bs = frame_bytes f @ rest"
proof
  assume L: "read_frame bs = Inr (f, rest)"
  then obtain h r where "read_full 9 bs = Inr (h, r)"
    by (auto simp: read_frame_def frame_consts split: sum.splits)
  then have bs: "bs = h @ r" "length h = 9" by (simp_all add: read_full_Inr)
  let ?i = "be32 (slice 1 5 h)" and ?n = "be32 (slice 5 9 h)"
  have "h = take 1 h @ take 4 (drop 1 h) @ take 4 (drop 5 h)"
    using split_3 [of h 1 4 4] bs(2) by simp
  moreover have "put_be32 ?i = take 4 (drop 1 h)" "put_be32 ?n = take 4 (drop 5 h)"
    using bs(2) by (simp_all add: slice_def put_be32_be32)
  moreover have "take 1 h = [h ! 0]" using bs(2) by (cases h) simp_all
  ultimately have h: "h = [h ! 0] @ put_be32 ?i @ put_be32 ?n" by metis
  have n: "unat ?n \<le> maxFramePayload"
    using L bs by (auto simp: read_frame_def frame_consts Let_def split: if_splits)
  have L': "read_frame bs = Inr (f, rest) \<longleftrightarrow>
      (h ! 0 = 1 \<and> ?n = 0 \<and> f = FrameOpen ?i \<and> rest = r
       \<or> h ! 0 = 2 \<and> (\<exists>p. r = p @ rest \<and> length p = unat ?n \<and> f = FrameData ?i p)
       \<or> h ! 0 = 3 \<and> ?n = 0 \<and> f = FrameClose ?i \<and> rest = r
       \<or> h ! 0 = 4 \<and> ?i = 0 \<and> (\<exists>p. r = p @ rest \<and> length p = unat ?n \<and> f = FrameDatagram p))"
    using n unfolding bs(1) read_frame_def frame_consts(1) read_full_append [OF bs(2)]
    by (auto simp: Let_def read_full_Inr read_full_0 unat_eq_0 split: sum.splits)
  have "frame_bytes f @ rest = bs \<and> sendable f"
    using L [unfolded L'] n h by (auto simp: bs(1) frame_bytes_def sendable_def)
  then show "sendable f \<and> bs = frame_bytes f @ rest" by simp
qed (simp add: read_frame_bytes)

lemma concat_write_chunks: "concat (write_chunks data) = data"
  by (induction data rule: write_chunks.induct) (subst write_chunks.simps, auto)

lemma write_chunks_length: "c \<in> set (write_chunks data) \<Longrightarrow> c \<noteq> [] \<and> length c \<le> maxWriteChunk"
  by (induction data rule: write_chunks.induct) (subst (asm) (2) write_chunks.simps, auto split: if_splits simp: maxWriteChunk_def)

section \<open>The invariant\<close>

definition stream_ok :: "mux_stream \<Rightarrow> bool" where
  "stream_ok s \<longleftrightarrow> length (incoming s) \<le> streamQueueSize \<and> (reading s \<longrightarrow> current s = [])"

definition mux_ok :: "mux \<Rightarrow> bool" where
  "mux_ok m \<longleftrightarrow>
     (\<forall>i k. fmlookup (table m) i = Some k \<longrightarrow>
        k < length (objects m) \<and> stream_id (objects m ! k) = i \<and> \<not> localDone (objects m ! k))
     \<and> fsize (table m) \<le> maxStreams
     \<and> (\<forall>s\<in>set (objects m). stream_ok s)
     \<and> length (acceptCh m) \<le> acceptQueueSize \<and> length (datagramCh m) \<le> datagramQueueSize
     \<and> odd (nextID m) = client m"

lemma mux_okD:
  "mux_ok m \<Longrightarrow> fmlookup (table m) i = Some k \<Longrightarrow>
     k < length (objects m) \<and> stream_id (objects m ! k) = i \<and> \<not> localDone (objects m ! k)"
  by (simp add: mux_ok_def)

lemma upd_stream_simps [simp]:
  "table (upd_stream k g m) = table m" "length (objects (upd_stream k g m)) = length (objects m)"
  "acceptCh (upd_stream k g m) = acceptCh m" "datagramCh (upd_stream k g m) = datagramCh m"
  "nextID (upd_stream k g m) = nextID m" "client (upd_stream k g m) = client m"
  "accepting (upd_stream k g m) = accepting m" "session_done (upd_stream k g m) = session_done m"
  by (simp_all add: upd_stream_def)

lemma objects_upd [simp]:
  "k < length (objects m) \<Longrightarrow> objects (upd_stream k g m) ! j = (if j = k then g (objects m ! k) else objects m ! j)"
  by (simp add: upd_stream_def nth_list_update)

lemma closed_session_simps [simp]: "mux_ok (closed_session m) = mux_ok m"
  by (simp add: mux_ok_def closed_session_def)

text \<open>Changing a stream in place keeps the invariant when the queue stays short and the stream open.\<close>

lemma mux_ok_upd:
  assumes "mux_ok m" "k < length (objects m)" "stream_ok (g (objects m ! k))"
    "stream_id (g (objects m ! k)) = stream_id (objects m ! k)"
    "localDone (g (objects m ! k)) \<longrightarrow> localDone (objects m ! k) \<or> (\<forall>i. fmlookup (table m) i \<noteq> Some k)"
  shows "mux_ok (upd_stream k g m)"
proof -
  have "\<forall>s\<in>set (objects (upd_stream k g m)). stream_ok s"
    using assms(1,3) set_update_subset_insert [of "objects m" k "g (objects m ! k)"]
    by (auto simp: mux_ok_def upd_stream_def)
  then show ?thesis using assms by (auto simp: mux_ok_def)
qed

lemma mux_ok_new:
  "mux_ok m \<Longrightarrow> mux_ok (m\<lparr>objects := objects m @ [newMuxStream i]\<rparr>)"
  by (auto simp: mux_ok_def stream_ok_def newMuxStream_def nth_append dest: less_SucI)

lemma mux_ok_insert:
  assumes "mux_ok m" "fsize (table m) < maxStreams" "k < length (objects m)"
    "stream_id (objects m ! k) = i" "\<not> localDone (objects m ! k)"
  shows "mux_ok (m\<lparr>table := fmupd i k (table m)\<rparr>)"
  using assms fsize_drop_le [of i "table m"] by (auto simp: mux_ok_def)

lemma mux_ok_drop: "mux_ok m \<Longrightarrow> mux_ok (m\<lparr>table := fmdrop i (table m)\<rparr>)"
  using fsize_drop_le [of i "table m"] by (auto simp: mux_ok_def)

text \<open>What a reader has not read yet, and what a read gave it.\<close>

definition unread :: "mux_stream \<Rightarrow> bytes" where
  "unread s = current s @ concat (incoming s)"

fun bytes_of :: "read_result \<Rightarrow> bytes" where
  "bytes_of (Read_Bytes b) = b"
| "bytes_of _ = []"

lemma take_frame_keeps:
  "stream_id (fst (take_frame n s fs)) = stream_id s \<and> localDone (fst (take_frame n s fs)) = localDone s
   \<and> length (incoming (fst (take_frame n s fs))) \<le> length fs
   \<and> (reading (fst (take_frame n s fs)) \<longrightarrow> current (fst (take_frame n s fs)) = [])
   \<and> bytes_of (snd (take_frame n s fs)) @ unread (fst (take_frame n s fs)) = concat fs"
  by (induction fs) (auto simp: unread_def)

lemma read_start_keeps:
  assumes "stream_ok s" "\<not> reading s"
  shows "stream_id (fst (read_start n s)) = stream_id s \<and> localDone (fst (read_start n s)) = localDone s
   \<and> stream_ok (fst (read_start n s)) \<and> bytes_of (snd (read_start n s)) @ unread (fst (read_start n s)) = unread s"
  using take_frame_keeps [of n s "incoming s"] assms by (simp add: read_start_def unread_def stream_ok_def)

lemma read_select_keeps:
  assumes "read_select c n fin s = Some (s', r)" "stream_ok s" "reading s"
  shows "stream_id s' = stream_id s \<and> localDone s' = localDone s \<and> stream_ok s'
    \<and> bytes_of r @ unread s' = unread s"
  using assms take_frame_keeps [of n "s\<lparr>reading := False\<rparr>" "incoming s"]
  by (cases c) (auto simp: unread_def stream_ok_def split: if_splits)

lemma stream_okD: "mux_ok m \<Longrightarrow> k < length (objects m) \<Longrightarrow> stream_ok (objects m ! k)"
  by (simp add: mux_ok_def)

lemma handle_frame_ok:
  assumes "mux_ok m" "handle_frame f m = Some m'"
  shows "mux_ok m'"
proof (cases f)
  case (FrameOpen i)
  let ?m = "m\<lparr>objects := objects m @ [newMuxStream i], accepting := Some (length (objects m))\<rparr>"
  have m: "mux_ok ?m" using mux_ok_new [OF assms(1), of i] by (simp add: mux_ok_def)
  have "mux_ok (?m\<lparr>table := fmupd i (length (objects m)) (table ?m)\<rparr>)" if "fsize (table m) < maxStreams"
    using that m by (intro mux_ok_insert) (simp_all add: newMuxStream_def)
  moreover have "m' = closed_session m \<or> fsize (table m) < maxStreams
      \<and> m' = ?m\<lparr>table := fmupd i (length (objects m)) (table ?m)\<rparr>"
    using assms(2) FrameOpen by (auto simp: Let_def split: if_splits)
  ultimately show ?thesis using assms(1) by auto
next
  case (FrameData i p)
  then show ?thesis
    using assms stream_okD [OF assms(1)] mux_okD [OF assms(1), of i]
    by (auto simp: stream_ok_def intro!: mux_ok_upd split: option.splits if_splits)
next
  case (FrameClose i)
  then show ?thesis
    using assms stream_okD [OF assms(1)] mux_okD [OF assms(1), of i]
    by (auto simp: stream_ok_def intro!: mux_ok_upd split: option.splits if_splits)
next
  case (FrameDatagram p)
  then show ?thesis using assms by (cases "length (datagramCh m) < datagramQueueSize") (auto simp: mux_ok_def)
qed

lemma CloseStream_ok:
  assumes "mux_ok m" "k < length (objects m)"
  shows "mux_ok (CloseStream k m)"
proof -
  let ?i = "stream_id (objects m ! k)" and ?g = "\<lambda>s. s\<lparr>localDone := True\<rparr>"
  have only: "fmlookup (table m) j = Some k \<Longrightarrow> j = ?i" for j
    using mux_okD [OF assms(1)] by blast
  have ok: "stream_ok (?g (objects m ! k))"
    using stream_okD [OF assms] by (simp add: stream_ok_def)
  have "mux_ok (upd_stream k ?g (m\<lparr>table := fmdrop ?i (table m)\<rparr>))"
    using only ok assms(2) by (intro mux_ok_upd mux_ok_drop assms(1)) auto
  then have "mux_ok ((upd_stream k ?g m)\<lparr>table := fmdrop ?i (table m)\<rparr>)"
    by (simp add: mux_ok_def upd_stream_def)
  moreover have "mux_ok (upd_stream k ?g m)" if "fmlookup (table m) ?i \<noteq> Some k"
    using only that ok assms by (intro mux_ok_upd) auto
  ultimately show ?thesis
    using assms(1) by (auto simp: CloseStream_def Let_def)
qed

lemma OpenStream_ok:
  assumes "mux_ok m"
  shows "mux_ok (fst (OpenStream ok m))"
proof -
  let ?i = "nextID m" and ?k = "length (objects m)" and ?g = "\<lambda>s. s\<lparr>localDone := True\<rparr>"
  let ?m = "m\<lparr>nextID := ?i + 2, objects := objects m @ [newMuxStream ?i]\<rparr>"
  have m: "mux_ok ?m" using mux_ok_new [OF assms, of ?i] by (simp add: mux_ok_def)
  have "fmlookup (table m) j \<noteq> Some ?k" for j using mux_okD [OF assms, of j ?k] by auto
  then have "mux_ok (upd_stream ?k ?g (?m\<lparr>table := fmdrop ?i (table ?m)\<rparr>))"
    by (intro mux_ok_upd mux_ok_drop m) (auto simp: stream_ok_def newMuxStream_def)
  moreover have "fsize (table m) < maxStreams \<Longrightarrow> mux_ok (?m\<lparr>table := fmupd ?i ?k (table ?m)\<rparr>)"
    using m by (intro mux_ok_insert) (simp_all add: newMuxStream_def)
  ultimately show ?thesis
    using m by (auto simp: OpenStream_def Let_def)
qed

lemma mux_step_ok:
  assumes "mux_ok m" "mux_step e m = Some (m', r)"
  shows "mux_ok m'"
proof (cases e)
  case (EvFrame f)
  then show ?thesis using assms handle_frame_ok [OF assms(1)] by (auto split: if_splits)
next
  case (EvOpen ok)
  then show ?thesis using assms OpenStream_ok [OF assms(1), of ok] by auto
next
  case (EvClose k)
  then show ?thesis using assms CloseStream_ok [OF assms(1)] by (auto split: if_splits)
next
  case (EvRead k n)
  then show ?thesis
    using assms read_start_keeps [OF stream_okD [OF assms(1)], of k n]
    by (auto intro!: mux_ok_upd split: if_splits prod.splits)
next
  case (EvSelect k n c)
  then show ?thesis
    using assms read_select_keeps [OF _ stream_okD [OF assms(1)], of c n "session_done m" k]
    by (auto intro!: mux_ok_upd split: if_splits)
qed (use assms in \<open>auto simp: mux_ok_def closed_session_def split: if_splits option.splits list.splits\<close>)

lemma mux_run_ok: "mux_ok m \<Longrightarrow> mux_run es m = Some (m', rs) \<Longrightarrow> mux_ok m'"
  by (induction es arbitrary: m rs) (auto dest: mux_step_ok split: option.splits)

section \<open>The bytes of a stream\<close>

fun event_data :: "u32 \<Rightarrow> mux_event \<Rightarrow> bytes" where
  "event_data i (EvFrame (FrameData j p)) = (if j = i then p else [])"
| "event_data i _ = []"

definition data_of :: "u32 \<Rightarrow> mux_event list \<Rightarrow> bytes" where
  "data_of i es = concat (map (event_data i) es)"

fun got :: "nat \<Rightarrow> (nat \<times> read_result) option \<Rightarrow> bytes" where
  "got k None = []"
| "got k (Some (j, r)) = (if j = k then bytes_of r else [])"

definition received :: "nat \<Rightarrow> (nat \<times> read_result) option list \<Rightarrow> bytes" where
  "received k rs = concat (map (got k) rs)"

definition same_stream :: "u32 \<Rightarrow> nat \<Rightarrow> mux \<Rightarrow> mux \<Rightarrow> bool" where
  "same_stream i k m m' \<longleftrightarrow> k < length (objects m') \<and> stream_id (objects m' ! k) = i
     \<and> (fmlookup (table m') i = Some k \<longrightarrow> fmlookup (table m) i = Some k)"

lemma handle_frame_data:
  assumes "mux_ok m" "k < length (objects m)" "stream_id (objects m ! k) = i" "handle_frame f m = Some m'"
  shows "same_stream i k m m' \<and> unread (objects m' ! k)
    = unread (objects m ! k) @ (if fmlookup (table m) i = Some k then event_data i (EvFrame f) else [])"
proof (cases f)
  case (FrameOpen j)
  then show ?thesis
    using assms by (auto simp: same_stream_def closed_session_def Let_def nth_append split: if_splits)
next
  case (FrameData j p)
  show ?thesis
  proof (cases "fmlookup (table m) j")
    case None
    then show ?thesis using assms FrameData by (auto simp: same_stream_def)
  next
    case (Some k')
    then have k': "k' < length (objects m)" "stream_id (objects m ! k') = j" "\<not> localDone (objects m ! k')"
      using mux_okD [OF assms(1)] by auto
    then have "m' = upd_stream k' (\<lambda>s. s\<lparr>incoming := incoming s @ [p]\<rparr>) m"
      using assms(4) FrameData Some by (auto split: if_splits)
    then show ?thesis using assms(2,3) FrameData Some k' by (auto simp: same_stream_def unread_def)
  qed
next
  case (FrameClose j)
  then show ?thesis
    using assms mux_okD [OF assms(1), of j] by (auto simp: same_stream_def unread_def split: option.splits)
next
  case (FrameDatagram p)
  then show ?thesis
    using assms by (cases "length (datagramCh m) < datagramQueueSize") (auto simp: same_stream_def)
qed

lemma OpenStream_data:
  assumes "mux_ok m" "k < length (objects m)" "stream_id (objects m ! k) = i"
  shows "same_stream i k m (fst (OpenStream ok m))
    \<and> unread (objects (fst (OpenStream ok m)) ! k) = unread (objects m ! k)"
  using assms by (auto simp: OpenStream_def Let_def same_stream_def upd_stream_def nth_append)

lemma CloseStream_data:
  assumes "k < length (objects m)" "stream_id (objects m ! k) = i" "j < length (objects m)"
  shows "same_stream i k m (CloseStream j m) \<and> unread (objects (CloseStream j m) ! k) = unread (objects m ! k)"
  using assms by (auto simp: CloseStream_def Let_def same_stream_def unread_def upd_stream_def nth_list_update)

lemma mux_step_data:
  assumes "mux_ok m" "k < length (objects m)" "stream_id (objects m ! k) = i" "mux_step e m = Some (m', r)"
  shows "same_stream i k m m' \<and> got k r @ unread (objects m' ! k)
    = unread (objects m ! k) @ (if fmlookup (table m) i = Some k then event_data i e else [])"
proof (cases e)
  case (EvFrame f)
  then show ?thesis using assms handle_frame_data [OF assms(1-3), of f m'] by (auto split: if_splits)
next
  case (EvOpen ok)
  then show ?thesis using assms OpenStream_data [OF assms(1-3), of ok] by auto
next
  case (EvClose j)
  then show ?thesis using assms CloseStream_data [OF assms(2,3), of j] by (auto split: if_splits)
next
  case (EvRead j n)
  then show ?thesis
    using assms read_start_keeps [OF stream_okD [OF assms(1)], of j n]
    by (auto simp: same_stream_def split: if_splits prod.splits)
next
  case (EvSelect j n c)
  then show ?thesis
    using assms read_select_keeps [OF _ stream_okD [OF assms(1)], of c n "session_done m" j]
    by (auto simp: same_stream_def split: if_splits)
qed (use assms in \<open>auto simp: same_stream_def closed_session_def split: if_splits option.splits list.splits\<close>)

lemma mux_run_data:
  assumes "mux_ok m" "k < length (objects m)" "stream_id (objects m ! k) = i" "mux_run es m = Some (m', rs)"
  shows "if fmlookup (table m) i = Some k
     then \<exists>d. received k rs @ unread (objects m' ! k) @ d = unread (objects m ! k) @ data_of i es
       \<and> (fmlookup (table m') i = Some k \<longrightarrow> d = [])
     else received k rs @ unread (objects m' ! k) = unread (objects m ! k) \<and> fmlookup (table m') i \<noteq> Some k"
  using assms
proof (induction es arbitrary: m rs)
  case (Cons e es)
  obtain m1 r rs' where s: "mux_step e m = Some (m1, r)" "mux_run es m1 = Some (m', rs')" "rs = r # rs'"
    using Cons.prems(4) by (auto split: option.splits)
  let ?in = "\<lambda>m. fmlookup (table m) i = Some k" and ?u = "\<lambda>m. unread (objects m ! k)"
  have step: "same_stream i k m m1" "got k r @ ?u m1 = ?u m @ (if ?in m then event_data i e else [])"
    using mux_step_data [OF Cons.prems(1-3) s(1)] by auto
  then have ih: "if ?in m1 then \<exists>d. received k rs' @ ?u m' @ d = ?u m1 @ data_of i es \<and> (?in m' \<longrightarrow> d = [])
      else received k rs' @ ?u m' = ?u m1 \<and> \<not> ?in m'"
    by (intro Cons.IH mux_step_ok [OF Cons.prems(1) s(1)] s(2)) (auto simp: same_stream_def)
  have out: "received k rs = got k r @ received k rs'" by (simp add: received_def s(3))
  show ?case
  proof (cases "?in m")
    case False
    then have "\<not> ?in m1" using step(1) by (auto simp: same_stream_def)
    then show ?thesis using False ih step(2) out by simp
  next
    case True
    show ?thesis
    proof (cases "?in m1")
      case in1: True
      then obtain d where "received k rs' @ ?u m' @ d = ?u m1 @ data_of i es" "?in m' \<longrightarrow> d = []" using ih by auto
      then show ?thesis
        using True step(2) out by (intro if_P [THEN iffD2] exI [of _ d]) (simp_all add: data_of_def)
    next
      case False
      then have "received k rs @ ?u m' @ data_of i es = ?u m @ data_of i (e # es)"
        using ih True step(2) out by (simp add: data_of_def)
      then show ?thesis using ih False True by auto
    qed
  qed
qed (auto simp: received_def data_of_def)

definition data_frames :: "u32 \<Rightarrow> mux_event list \<Rightarrow> frame list" where
  "data_frames i es = concat (map (\<lambda>e. case e of EvFrame (FrameData j p) \<Rightarrow> if j = i then [FrameData j p] else [] | _ \<Rightarrow> []) es)"

lemma data_of_frames: "data_of i es = concat (map frame_payload (data_frames i es))"
proof (induction es)
  case (Cons e es)
  have "event_data i e = concat (map frame_payload
      (case e of EvFrame (FrameData j p) \<Rightarrow> if j = i then [FrameData j p] else [] | _ \<Rightarrow> []))"
    by (cases "(i, e)" rule: event_data.cases) auto
  then show ?case using Cons by (simp add: data_of_def data_frames_def)
qed (simp add: data_of_def data_frames_def)

lemma payloads_mux_write: "concat (map frame_payload (concat (map (mux_write i) ds))) = concat ds"
  by (induction ds) (simp_all add: mux_write_def comp_def concat_write_chunks)

lemma newSession_ok: "mux_ok (newSession cl)"
  by (simp add: mux_ok_def newSession_def)

section \<open>Properties\<close>

text \<open>
  C28: A stream loses, repeats and reorders nothing. Let the other side write some byte strings to a stream,
  and let its frames be handled in between those of other streams, reads of any size, opened and closed
  streams, in any order. What the reader of the stream gets is a beginning of what was written, and while the
  stream is not closed here, the rest is waiting in its queue.
\<close>

theorem mux_stream_integrity:
  assumes "mux_run es0 (newSession cl) = Some (m, rs0)" "fmlookup (table m) i = Some k" "unread (objects m ! k) = []"
    "mux_run es m = Some (m', rs)" "data_frames i es = concat (map (mux_write i) ds)"
  shows "prefix (received k rs) (concat ds)
    \<and> (fmlookup (table m') i = Some k \<longrightarrow> received k rs @ unread (objects m' ! k) = concat ds)"
proof -
  have m: "mux_ok m" using mux_run_ok [OF newSession_ok assms(1)] .
  have "data_of i es = concat ds"
    unfolding data_of_frames assms(5) by (rule payloads_mux_write)
  then obtain d where "received k rs @ unread (objects m' ! k) @ d = concat ds"
    "fmlookup (table m') i = Some k \<longrightarrow> d = []"
    using mux_run_data [OF m _ _ assms(4), of k i] mux_okD [OF m assms(2)] assms(2,3) by auto
  then show ?thesis by (metis append_Nil2 prefixI)
qed

lemma mux_stream_integrity_witness:
  "\<exists>m' rs. mux_run [EvFrame (FrameData 1 [7, 8]), EvRead 0 1]
      (fst (the (mux_run [EvFrame (FrameOpen 1), EvPush] (newSession False)))) = Some (m', rs)
    \<and> prefix (received 0 rs) [7, 8]"
proof -
  let ?r = "mux_run [EvFrame (FrameOpen 1), EvPush] (newSession False)"
  have 1: "?r = Some (fst (the ?r), snd (the ?r))" "fmlookup (table (fst (the ?r))) 1 = Some 0"
    "unread (objects (fst (the ?r)) ! 0) = []"
    by (simp_all add: newSession_def remoteOwnsID_def Let_def newMuxStream_def acceptQueueSize_def maxStreams_def unread_def)
  obtain m' rs where 2: "mux_run [EvFrame (FrameData 1 [7, 8]), EvRead 0 1] (fst (the ?r)) = Some (m', rs)"
    by (simp add: newSession_def remoteOwnsID_def Let_def newMuxStream_def acceptQueueSize_def maxStreams_def
        streamQueueSize_def upd_stream_def read_start_def)
  have "data_frames 1 [EvFrame (FrameData 1 [7, 8]), EvRead 0 1] = concat (map (mux_write 1) [[7, 8]])"
    by (simp add: data_frames_def mux_write_def write_chunks.simps maxWriteChunk_def)
  from mux_stream_integrity [OF 1 2 this] 2 show ?thesis by simp
qed

text \<open>
  What a peer can make a session hold is bounded. In every state, whatever frames came, there are at
  most 256 streams in the table, 64 frames in the queue of a stream, 128 streams waiting to be accepted, and
  256 datagrams; and the identifier of the next stream opened here is one the peer may not open.
\<close>

theorem mux_bounded:
  assumes "mux_run es (newSession cl) = Some (m, rs)"
  shows "fsize (table m) \<le> maxStreams \<and> (\<forall>s\<in>set (objects m). length (incoming s) \<le> streamQueueSize)
    \<and> length (acceptCh m) \<le> acceptQueueSize \<and> length (datagramCh m) \<le> datagramQueueSize
    \<and> \<not> remoteOwnsID m (nextID m)"
proof -
  have "mux_ok m" by (rule mux_run_ok [OF newSession_ok assms])
  then show ?thesis
    by (auto simp: mux_ok_def stream_ok_def remoteOwnsID_def even_iff_mod_2_eq_zero odd_iff_mod_2_eq_one)
qed

lemma mux_bounded_witness:
  "\<exists>m rs. mux_run [EvFrame (FrameOpen 1), EvOpen True] (newSession False) = Some (m, rs) \<and> \<not> remoteOwnsID m (nextID m)"
proof -
  obtain m rs where "mux_run [EvFrame (FrameOpen 1), EvOpen True] (newSession False) = Some (m, rs)"
    by (simp add: newSession_def remoteOwnsID_def Let_def newMuxStream_def maxStreams_def)
  then show ?thesis using mux_bounded by blast
qed

text \<open>
  The end of a stream can overtake its last bytes. A reader that has found the queue empty waits in the
  select; if the last data and the close of the other side arrive before it runs, both cases are ready,
  and it may report the end of the stream with the data still in the queue.
\<close>

theorem eof_overtakes_data:
  assumes "mux_ok m" "\<not> session_done m" "accepting m = None" "fmlookup (table m) i = Some k"
    "reading (objects m ! k)" "incoming (objects m ! k) = []"
  shows "\<exists>m'. mux_run [EvFrame (FrameData i p), EvFrame (FrameClose i), EvSelect k n SelRemote] m
      = Some (m', [None, None, Some (k, Read_EOF)]) \<and> unread (objects m' ! k) = p"
proof -
  have "k < length (objects m)" "\<not> localDone (objects m ! k)" "current (objects m ! k) = []"
    using mux_okD [OF assms(1,4)] stream_okD [OF assms(1), of k] assms(5) by (auto simp: stream_ok_def)
  then show ?thesis using assms by (simp add: streamQueueSize_def unread_def)
qed

lemma eof_overtakes_data_witness:
  "\<exists>m m'. mux_run [EvFrame (FrameData 1 [7]), EvFrame (FrameClose 1), EvSelect 0 4 SelRemote] m
      = Some (m', [None, None, Some (0, Read_EOF)]) \<and> unread (objects m' ! 0) = [7]"
proof -
  let ?r = "mux_run [EvFrame (FrameOpen 1), EvPush, EvRead 0 4] (newSession False)"
  let ?m = "fst (the ?r)"
  have r: "?r = Some (?m, snd (the ?r))" "\<not> session_done ?m" "accepting ?m = None" "fmlookup (table ?m) 1 = Some 0"
    "reading (objects ?m ! 0)" "incoming (objects ?m ! 0) = []"
    by (simp_all add: newSession_def remoteOwnsID_def Let_def newMuxStream_def acceptQueueSize_def maxStreams_def
        read_start_def upd_stream_def)
  show ?thesis
    using eof_overtakes_data [OF mux_run_ok [OF newSession_ok r(1)] r(2-6), of "[7]" 4] by blast
qed

end
