(* ===== verification/Runs.thy ===== *)
theory Runs
  imports Prelude
begin

text \<open>
  Runs of a component whose operations interleave: a step takes an event and a state to a state and an
  output, a run takes a list of events. The contract gives invariants and the history of a state; the
  components interpret it on their own steps and runs.
\<close>

lemma list_all_True [simp]: "list_all (\<lambda>_. True) xs"
  by (simp add: list_all_iff)

locale event_system =
  fixes step :: "'e \<Rightarrow> 's \<Rightarrow> 's \<times> 'o"
    and run :: "'e list \<Rightarrow> 's \<Rightarrow> 's \<times> 'o list"
    and legal :: "'e \<Rightarrow> bool"
    and good :: "'s \<Rightarrow> bool"
  assumes run_Nil: "run [] s = (s, [])"
    and run_Cons: "run (e # es) s = (fst (run es (fst (step e s))), snd (step e s) # snd (run es (fst (step e s))))"
    and step_good: "good s \<Longrightarrow> legal e \<Longrightarrow> good (fst (step e s))"
begin

lemma run_append: "fst (run (es @ es') s) = fst (run es' (fst (run es s)))"
  by (induction es arbitrary: s) (simp_all add: run_Nil run_Cons)

lemma run_snoc: "fst (run (es @ [e]) s) = fst (step e (fst (run es s)))"
  by (simp add: run_append run_Cons run_Nil)

lemma run_good: "good s \<Longrightarrow> list_all legal es \<Longrightarrow> good (fst (run es s))"
  by (induction es arbitrary: s) (simp_all add: run_Nil run_Cons step_good)

text \<open>What holds at the end and not at the start became true in a step of the run.\<close>

lemma origin:
  assumes "P (fst (run es s))" "\<not> P s"
  obtains es1 e es2 where "es = es1 @ e # es2" "\<not> P (fst (run es1 s))" "P (fst (step e (fst (run es1 s))))"
proof -
  have "\<exists>es1 e es2. es = es1 @ e # es2 \<and> \<not> P (fst (run es1 s)) \<and> P (fst (step e (fst (run es1 s))))"
    using assms
  proof (induction es arbitrary: s)
    case (Cons e es)
    show ?case
    proof (cases "P (fst (step e s))")
      case True
      then show ?thesis using Cons.prems by (intro exI [of _ "[]"] exI [of _ e] exI [of _ es]) (simp add: run_Nil)
    next
      case False
      then obtain es1 e' es2 where "es = es1 @ e' # es2" "\<not> P (fst (run es1 (fst (step e s))))"
        "P (fst (step e' (fst (run es1 (fst (step e s))))))"
        using Cons.IH [of "fst (step e s)"] Cons.prems(1) by (auto simp: run_Cons)
      then show ?thesis by (intro exI [of _ "e # es1"] exI [of _ e'] exI [of _ es2]) (simp add: run_Cons)
    qed
  qed (simp add: run_Nil)
  then show thesis using that by blast
qed

text \<open>The same, with the invariant before the step.\<close>

lemma good_origin:
  assumes "good s" "list_all legal es" "P (fst (run es s))" "\<not> P s"
  obtains es1 e es2 where "es = es1 @ e # es2" "good (fst (run es1 s))" "legal e" "\<not> P (fst (run es1 s))"
    "P (fst (step e (fst (run es1 s))))"
proof -
  obtain es1 e es2 where "es = es1 @ e # es2" "\<not> P (fst (run es1 s))" "P (fst (step e (fst (run es1 s))))"
    using assms(3,4) by (rule origin)
  then show thesis using that run_good [OF assms(1), of es1] assms(2) by auto
qed

end

end
