(* ===== verification/Udp_Dispatcher.thy ===== *)
theory Udp_Dispatcher
  imports P2p_Data Punch_Packet Udp_Datagram Netip Runs
begin

text \<open>
  The dispatcher of a punch socket, \<open>internal/punch/udp_dispatcher.go\<close>: one loop reads the socket, checks each
  datagram against the session it names and puts a copy into the queue of that session. The copies are in
  buffers of the pool of \<open>internal/udp/pool.go\<close>, which pass from the loop to a queue, from the queue to the
  receiver, and back to the pool. Buffers are numbers and their bytes a store, so that sharing one would
  show; operations on channels that panic in Go set a flag.
\<close>

definition dispatcherQueueSize :: nat where "dispatcherQueueSize = 256"
definition LargeBufferSize :: nat where "LargeBufferSize = 65535 + 64"

datatype register_error = ErrMissingKey | ErrClosed | ErrPunchSessionRegistered

text \<open>\<open>Data\<close> is the beginning of the buffer.\<close>

record UDPPacket =
  pk_buf :: nat
  pk_len :: nat
  pk_Addr :: AddrPort

record dispatchSession =
  ds_packets :: nat
  ds_key :: bytes
  ds_codec :: "P2PCodec option"

text \<open>A channel with what the release function of its session holds.\<close>

record channel =
  ch_queue :: "UDPPacket list"
  ch_open :: bool
  ch_session :: u64
  ch_entry :: dispatchSession
  ch_once :: bool

record UDPDispatcher =
  d_sessions :: "(u64, dispatchSession) fmap"
  d_done :: bool
  d_chans :: "(nat, channel) fmap"
  d_next :: nat
  d_pool :: "nat fset"
  d_bufs :: "(nat, bytes) fmap"
  d_fresh :: nat
  d_held :: "UDPPacket list"
  d_panic :: bool

definition NewUDPDispatcher :: UDPDispatcher where
  "NewUDPDispatcher = \<lparr>d_sessions = fmempty, d_done = False, d_chans = fmempty, d_next = 0, d_pool = {||},
     d_bufs = fmempty, d_fresh = 0, d_held = [], d_panic = False\<rparr>"

section \<open>Buffers\<close>

text \<open>The pool gives any of its buffers, or a new one.\<close>

definition GetLargeBuffer :: "nat \<Rightarrow> UDPDispatcher \<Rightarrow> UDPDispatcher \<times> nat" where
  "GetLargeBuffer pick d =
     (if pick |\<in>| d_pool d then (d\<lparr>d_pool := d_pool d |-| {|pick|}\<rparr>, pick)
      else (d\<lparr>d_fresh := d_fresh d + 1, d_bufs := fmupd (d_fresh d) (replicate LargeBufferSize 0) (d_bufs d)\<rparr>, d_fresh d))"

definition PutLargeBuffer :: "nat \<Rightarrow> UDPDispatcher \<Rightarrow> UDPDispatcher" where
  "PutLargeBuffer b d = d\<lparr>d_pool := finsert b (d_pool d)\<rparr>"

definition release_packet :: "UDPPacket \<Rightarrow> UDPDispatcher \<Rightarrow> UDPDispatcher" where
  "release_packet p d = PutLargeBuffer (pk_buf p) d"

text \<open>A copy of the datagram at the start of a buffer.\<close>

definition copy_packet :: "nat \<Rightarrow> bytes \<Rightarrow> AddrPort \<Rightarrow> UDPDispatcher \<Rightarrow> UDPDispatcher \<times> UDPPacket" where
  "copy_packet b datagram addr d =
     (let old = (case fmlookup (d_bufs d) b of Some bs \<Rightarrow> bs | None \<Rightarrow> []) in
      (d\<lparr>d_bufs := fmupd b (datagram @ drop (length datagram) old) (d_bufs d)\<rparr>,
       \<lparr>pk_buf = b, pk_len = length datagram, pk_Addr = addr\<rparr>))"

definition pk_Data :: "UDPDispatcher \<Rightarrow> UDPPacket \<Rightarrow> bytes" where
  "pk_Data d p = take (pk_len p) (case fmlookup (d_bufs d) (pk_buf p) of Some bs \<Rightarrow> bs | None \<Rightarrow> [])"

section \<open>Channels\<close>

definition set_chan :: "nat \<Rightarrow> channel \<Rightarrow> UDPDispatcher \<Rightarrow> UDPDispatcher" where
  "set_chan ch c d = d\<lparr>d_chans := fmupd ch c (d_chans d)\<rparr>"

definition panic :: "UDPDispatcher \<Rightarrow> UDPDispatcher" where
  "panic d = d\<lparr>d_panic := True\<rparr>"

definition close_chan :: "nat \<Rightarrow> UDPDispatcher \<Rightarrow> UDPDispatcher" where
  "close_chan ch d = (case fmlookup (d_chans d) ch of
     None \<Rightarrow> panic d
   | Some c \<Rightarrow> if ch_open c then set_chan ch (c\<lparr>ch_open := False\<rparr>) d else panic d)"

definition drainPackets :: "nat \<Rightarrow> UDPDispatcher \<Rightarrow> UDPDispatcher" where
  "drainPackets ch d = (case fmlookup (d_chans d) ch of
     None \<Rightarrow> d
   | Some c \<Rightarrow> fold release_packet (ch_queue c) (set_chan ch (c\<lparr>ch_queue := []\<rparr>) d))"

text \<open>The \<open>select\<close> with a default: a packet for which there is no room goes back to the pool.\<close>

definition offer :: "nat \<Rightarrow> UDPPacket \<Rightarrow> UDPDispatcher \<Rightarrow> UDPDispatcher" where
  "offer ch p d = (case fmlookup (d_chans d) ch of
     None \<Rightarrow> panic d
   | Some c \<Rightarrow>
       if \<not> ch_open c then panic d
       else if length (ch_queue c) < dispatcherQueueSize then set_chan ch (c\<lparr>ch_queue := ch_queue c @ [p]\<rparr>) d
       else release_packet p d)"

section \<open>Sessions\<close>

definition new_entry :: "u64 \<Rightarrow> bytes \<Rightarrow> nat \<Rightarrow> dispatchSession" where
  "new_entry sid key ch = \<lparr>ds_packets = ch, ds_key = key, ds_codec =
     (if sid \<le> 0xffffffff then (case NewP2PCodec (ucast sid) key of Inr c \<Rightarrow> Some c | Inl _ \<Rightarrow> None) else None)\<rparr>"

definition Register :: "u64 \<Rightarrow> bytes \<Rightarrow> UDPDispatcher \<Rightarrow> UDPDispatcher \<times> (register_error + nat)" where
  "Register sid key d =
     (if key = [] then (d, Inl ErrMissingKey)
      else if d_done d then (d, Inl ErrClosed)
      else if fmlookup (d_sessions d) sid \<noteq> None then (d, Inl ErrPunchSessionRegistered)
      else (let entry = new_entry sid key (d_next d);
                c = \<lparr>ch_queue = [], ch_open = True, ch_session = sid, ch_entry = entry, ch_once = False\<rparr>
        in (set_chan (d_next d) c (d\<lparr>d_sessions := fmupd sid entry (d_sessions d), d_next := d_next d + 1\<rparr>), Inr (d_next d))))"

text \<open>The release function of the session with channel \<open>ch\<close>; only its first call has an effect.\<close>

definition release_session :: "nat \<Rightarrow> UDPDispatcher \<Rightarrow> UDPDispatcher" where
  "release_session ch d = (case fmlookup (d_chans d) ch of
     None \<Rightarrow> d
   | Some c \<Rightarrow>
       if ch_once c then d
       else (let d = set_chan ch (c\<lparr>ch_once := True\<rparr>) d;
                 d = (if fmlookup (d_sessions d) (ch_session c) = Some (ch_entry c)
                      then close_chan ch (d\<lparr>d_sessions := fmdrop (ch_session c) (d_sessions d)\<rparr>) else d)
             in drainPackets ch d))"

definition drop_session :: "u64 \<Rightarrow> UDPDispatcher \<Rightarrow> UDPDispatcher" where
  "drop_session sid d = (case fmlookup (d_sessions d) sid of
     None \<Rightarrow> d
   | Some entry \<Rightarrow> drainPackets (ds_packets entry) (close_chan (ds_packets entry) (d\<lparr>d_sessions := fmdrop sid (d_sessions d)\<rparr>)))"

text \<open>\<open>Close\<close>; \<open>ids\<close> is the iteration order of the session table.\<close>

definition dispatcher_Close :: "u64 list \<Rightarrow> UDPDispatcher \<Rightarrow> UDPDispatcher" where
  "dispatcher_Close ids d = (if d_done d then d else fold drop_session ids (d\<lparr>d_done := True\<rparr>))"

section \<open>The read loop\<close>

definition packetSessionID :: "bytes \<Rightarrow> u64 option" where
  "packetSessionID packet =
     (if length packet < 8 then None
      else let magic = be32 (slice 0 4 packet) in
        if magic = PunchMagic then (if length packet < PunchPacketSize then None else Some (be64 (slice 8 16 packet)))
        else if magic = P2PDataMagic then Some (ucast (be32 (slice 4 8 packet)))
        else None)"

definition validPacket :: "dispatchSession \<Rightarrow> bytes \<Rightarrow> u64 \<Rightarrow> bool" where
  "validPacket entry packet sid =
     (if length packet < 4 then False
      else let magic = be32 (slice 0 4 packet) in
        if magic = PunchMagic
        then (case DecodePunchPacket packet (ds_key entry) of Inr p \<Rightarrow> pSessionID p = sid | Inl _ \<Rightarrow> False)
        else if magic = P2PDataMagic
        then (case ds_codec entry of
            None \<Rightarrow> False
          | Some c \<Rightarrow> (case p2p_decode c packet of Inr _ \<Rightarrow> True | Inl _ \<Rightarrow> False))
        else False)"

text \<open>One turn of the loop; a datagram that is longer than the buffer of the loop is cut.\<close>

definition read_turn :: "bytes \<Rightarrow> AddrPort \<Rightarrow> nat \<Rightarrow> UDPDispatcher \<Rightarrow> UDPDispatcher" where
  "read_turn received addr pick d =
     (let datagram = take (MaxUDPPacketSize + P2PDataHeaderSize) received in
      case packetSessionID datagram of
        None \<Rightarrow> d
      | Some sid \<Rightarrow> (case fmlookup (d_sessions d) sid of
          None \<Rightarrow> d
        | Some entry \<Rightarrow>
            if \<not> validPacket entry datagram sid then d
            else (case GetLargeBuffer pick d of (d, b) \<Rightarrow>
              (case copy_packet b datagram addr d of (d, p) \<Rightarrow> offer (ds_packets entry) p d))))"

section \<open>Receivers\<close>

definition take_packet :: "nat \<Rightarrow> UDPDispatcher \<Rightarrow> UDPDispatcher \<times> UDPPacket option" where
  "take_packet ch d = (case fmlookup (d_chans d) ch of
     None \<Rightarrow> (d, None)
   | Some c \<Rightarrow> (case ch_queue c of
       [] \<Rightarrow> (d, None)
     | p # ps \<Rightarrow> (set_chan ch (c\<lparr>ch_queue := ps\<rparr>) (d\<lparr>d_held := d_held d @ [p]\<rparr>), Some p)))"

text \<open>A receiver is done with the packet at this place among those held.\<close>

definition free_packet :: "nat \<Rightarrow> UDPDispatcher \<Rightarrow> UDPDispatcher" where
  "free_packet i d = (if i < length (d_held d)
     then release_packet (d_held d ! i) (d\<lparr>d_held := take i (d_held d) @ drop (Suc i) (d_held d)\<rparr>) else d)"

section \<open>Runs\<close>

datatype dispatch_event =
    DRegister u64 bytes | DRelease nat | DClose "u64 list" | DRead bytes AddrPort nat | DTake nat | DFree nat

fun dispatch_step :: "dispatch_event \<Rightarrow> UDPDispatcher \<Rightarrow> UDPDispatcher \<times> UDPPacket option" where
  "dispatch_step (DRegister sid key) d = (fst (Register sid key d), None)"
| "dispatch_step (DRelease ch) d = (release_session ch d, None)"
| "dispatch_step (DClose ids) d = (dispatcher_Close ids d, None)"
| "dispatch_step (DRead received addr pick) d = (read_turn received addr pick d, None)"
| "dispatch_step (DTake ch) d = take_packet ch d"
| "dispatch_step (DFree i) d = (free_packet i d, None)"

fun dispatch_run :: "dispatch_event list \<Rightarrow> UDPDispatcher \<Rightarrow> UDPDispatcher \<times> UDPPacket option list" where
  "dispatch_run [] d = (d, [])"
| "dispatch_run (ev # evs) d = (case dispatch_step ev d of
     (d, out) \<Rightarrow> (case dispatch_run evs d of (d, outs) \<Rightarrow> (d, out # outs)))"


section \<open>Every buffer is in one place\<close>

definition uses :: "UDPDispatcher \<Rightarrow> nat \<Rightarrow> nat" where
  "uses d b = fmsum (\<lambda>_ c. count_list (map pk_buf (ch_queue c)) b) (d_chans d) + count_list (map pk_buf (d_held d)) b"

text \<open>The buffers that were made are in the pool, in a queue, with a receiver, or in hand.\<close>

definition buffers_ok :: "UDPPacket list \<Rightarrow> UDPDispatcher \<Rightarrow> bool" where
  "buffers_ok hand d \<longleftrightarrow> (\<forall>b. uses d b + (if b |\<in>| d_pool d then 1 else 0) + count_list (map pk_buf hand) b
     = (if b < d_fresh d then 1 else 0))"

lemma buffers_okD:
  "buffers_ok hand d \<Longrightarrow> uses d b + (if b |\<in>| d_pool d then 1 else 0) + count_list (map pk_buf hand) b = (if b < d_fresh d then 1 else 0)"
  unfolding buffers_ok_def by blast

lemma uses_set_chan:
  assumes "fmlookup (d_chans d) ch = Some c"
  shows "uses (set_chan ch c' d) b + count_list (map pk_buf (ch_queue c)) b = uses d b + count_list (map pk_buf (ch_queue c')) b"
  using fmsum_drop [OF assms, of "\<lambda>_ c. count_list (map pk_buf (ch_queue c)) b"] by (simp add: uses_def set_chan_def)

lemma uses_cong: "d_chans d' = d_chans d \<Longrightarrow> d_held d' = d_held d \<Longrightarrow> uses d' b = uses d b"
  by (simp add: uses_def)

lemma release_packet_simps [simp]:
  "d_chans (release_packet p d) = d_chans d" "d_sessions (release_packet p d) = d_sessions d" "d_held (release_packet p d) = d_held d"
  "d_bufs (release_packet p d) = d_bufs d" "d_panic (release_packet p d) = d_panic d" "d_next (release_packet p d) = d_next d"
  "d_fresh (release_packet p d) = d_fresh d" "d_done (release_packet p d) = d_done d"
  "d_pool (release_packet p d) = finsert (pk_buf p) (d_pool d)"
  by (simp_all add: release_packet_def PutLargeBuffer_def)

lemma fold_release_simps [simp]:
  "d_chans (fold release_packet ps d) = d_chans d" "d_sessions (fold release_packet ps d) = d_sessions d"
  "d_held (fold release_packet ps d) = d_held d" "d_bufs (fold release_packet ps d) = d_bufs d"
  "d_panic (fold release_packet ps d) = d_panic d" "d_next (fold release_packet ps d) = d_next d"
  "d_fresh (fold release_packet ps d) = d_fresh d" "d_done (fold release_packet ps d) = d_done d"
  by (induction ps arbitrary: d) simp_all

lemma buffers_release_packet:
  assumes "buffers_ok (p # hand) d"
  shows "buffers_ok hand (release_packet p d)"
  unfolding buffers_ok_def
proof
  fix b
  have "uses (release_packet p d) b = uses d b" by (simp add: uses_def)
  then show "uses (release_packet p d) b + (if b |\<in>| d_pool (release_packet p d) then 1 else 0) + count_list (map pk_buf hand) b
      = (if b < d_fresh (release_packet p d) then 1 else 0)"
    using buffers_okD [OF assms, of b] by (auto split: if_splits)
qed

lemma buffers_release_all: "buffers_ok (ps @ hand) d \<Longrightarrow> buffers_ok hand (fold release_packet ps d)"
  by (induction ps arbitrary: d) (simp_all add: buffers_release_packet)

lemma buffers_drain:
  assumes "buffers_ok [] d"
  shows "buffers_ok [] (drainPackets ch d)"
proof (cases "fmlookup (d_chans d) ch")
  case (Some c)
  have "buffers_ok (ch_queue c @ []) (set_chan ch (c\<lparr>ch_queue := []\<rparr>) d)"
    unfolding buffers_ok_def
  proof
    fix b
    show "uses (set_chan ch (c\<lparr>ch_queue := []\<rparr>) d) b + (if b |\<in>| d_pool (set_chan ch (c\<lparr>ch_queue := []\<rparr>) d) then 1 else 0)
        + count_list (map pk_buf (ch_queue c @ [])) b = (if b < d_fresh (set_chan ch (c\<lparr>ch_queue := []\<rparr>) d) then 1 else 0)"
      using uses_set_chan [OF Some, of "c\<lparr>ch_queue := []\<rparr>" b] buffers_okD [OF assms, of b] by (simp add: set_chan_def)
  qed
  then show ?thesis using Some buffers_release_all by (simp add: drainPackets_def)
qed (use assms in \<open>simp add: drainPackets_def\<close>)

lemma buffers_keep:
  assumes "buffers_ok hand d" "\<And>b. uses d' b = uses d b" "d_pool d' = d_pool d" "d_fresh d' = d_fresh d"
  shows "buffers_ok hand d'"
  using assms by (simp add: buffers_ok_def)

lemma buffers_cong:
  assumes "buffers_ok hand d" "d_chans d' = d_chans d" "d_held d' = d_held d" "d_pool d' = d_pool d" "d_fresh d' = d_fresh d"
  shows "buffers_ok hand d'"
  by (rule buffers_keep [OF assms(1)]) (simp_all add: assms uses_def)

lemma buffers_set_chan:
  assumes "buffers_ok hand d" "fmlookup (d_chans d) ch = Some c" "ch_queue c' = ch_queue c"
  shows "buffers_ok hand (set_chan ch c' d)"
  by (rule buffers_keep [OF assms(1)]) (use uses_set_chan [OF assms(2), of c'] assms(3) in \<open>auto simp: set_chan_def\<close>)

lemma buffers_close_chan: "buffers_ok hand d \<Longrightarrow> buffers_ok hand (close_chan ch d)"
proof -
  assume b: "buffers_ok hand d"
  then have "buffers_ok hand (panic d)" by (elim buffers_cong) (simp_all add: panic_def)
  then show "buffers_ok hand (close_chan ch d)" using buffers_set_chan [OF b] by (simp add: close_chan_def split: option.split)
qed

section \<open>The invariant of the sessions\<close>

definition chan_ok :: "UDPDispatcher \<Rightarrow> nat \<Rightarrow> channel \<Rightarrow> bool" where
  "chan_ok d ch c \<longleftrightarrow> ch < d_next d \<and> ch_entry c = new_entry (ch_session c) (ds_key (ch_entry c)) ch \<and> ds_key (ch_entry c) \<noteq> []
     \<and> length (ch_queue c) \<le> dispatcherQueueSize
     \<and> (ch_open c \<longleftrightarrow> fmlookup (d_sessions d) (ch_session c) = Some (ch_entry c)) \<and> (\<not> ch_open c \<longrightarrow> ch_queue c = [])
     \<and> (ch_once c \<longrightarrow> \<not> ch_open c)"

definition sessions_good :: "UDPDispatcher \<Rightarrow> bool" where
  "sessions_good d \<longleftrightarrow> (\<forall>ch c. fmlookup (d_chans d) ch = Some c \<longrightarrow> chan_ok d ch c)
     \<and> (\<forall>sid e. fmlookup (d_sessions d) sid = Some e \<longrightarrow>
          (\<exists>c. fmlookup (d_chans d) (ds_packets e) = Some c \<and> ch_session c = sid \<and> ch_entry c = e))
     \<and> \<not> d_panic d"

definition dispatcher_ok :: "UDPDispatcher \<Rightarrow> bool" where
  "dispatcher_ok d \<longleftrightarrow> sessions_good d \<and> buffers_ok [] d"

lemma new_entry_simps [simp]: "ds_packets (new_entry sid key ch) = ch" "ds_key (new_entry sid key ch) = key"
  by (simp_all add: new_entry_def)

text \<open>One session goes: out of the table, its channel closed and drained.\<close>

definition retire :: "u64 \<Rightarrow> nat \<Rightarrow> UDPDispatcher \<Rightarrow> UDPDispatcher" where
  "retire sid ch d = drainPackets ch (close_chan ch (d\<lparr>d_sessions := fmdrop sid (d_sessions d)\<rparr>))"

lemma chans_drain:
  "fmlookup (d_chans (drainPackets ch d)) ch' = (if ch' = ch
     then map_option (\<lambda>c. c\<lparr>ch_queue := []\<rparr>) (fmlookup (d_chans d) ch) else fmlookup (d_chans d) ch')"
  by (auto simp: drainPackets_def set_chan_def split: option.split)

lemma drain_simps [simp]:
  "d_sessions (drainPackets ch d) = d_sessions d" "d_next (drainPackets ch d) = d_next d" "d_panic (drainPackets ch d) = d_panic d"
  "d_held (drainPackets ch d) = d_held d" "d_bufs (drainPackets ch d) = d_bufs d" "d_done (drainPackets ch d) = d_done d"
  by (simp_all add: drainPackets_def set_chan_def split: option.split)

lemma retire_effect:
  assumes "fmlookup (d_chans d) ch = Some c" "ch_open c"
  shows "fmlookup (d_chans (retire sid ch d)) ch' = (if ch' = ch then Some (c\<lparr>ch_open := False, ch_queue := []\<rparr>) else fmlookup (d_chans d) ch')"
    "d_sessions (retire sid ch d) = fmdrop sid (d_sessions d)" "d_next (retire sid ch d) = d_next d"
    "d_panic (retire sid ch d) = d_panic d" "d_held (retire sid ch d) = d_held d" "d_bufs (retire sid ch d) = d_bufs d"
  using assms by (simp_all add: retire_def chans_drain close_chan_def set_chan_def)

lemma sessions_channel:
  assumes "sessions_good d" "fmlookup (d_sessions d) sid = Some e"
  obtains c where "fmlookup (d_chans d) (ds_packets e) = Some c" "ch_session c = sid" "ch_entry c = e" "ch_open c" "\<not> ch_once c"
proof -
  obtain c where c: "fmlookup (d_chans d) (ds_packets e) = Some c" "ch_session c = sid" "ch_entry c = e"
    using assms unfolding sessions_good_def by blast
  then have "chan_ok d (ds_packets e) c" using assms(1) unfolding sessions_good_def by blast
  then show thesis using that c assms(2) by (auto simp: chan_ok_def)
qed

lemma sessions_distinct:
  assumes "sessions_good d" "fmlookup (d_sessions d) sid = Some e" "fmlookup (d_sessions d) sid' = Some e'" "ds_packets e' = ds_packets e"
  shows "sid' = sid"
  using assms sessions_channel [OF assms(1,2)] sessions_channel [OF assms(1,3)] by (metis option.inject)

lemma retire_good:
  assumes "sessions_good d" "fmlookup (d_sessions d) sid = Some e"
  shows "sessions_good (retire sid (ds_packets e) d)"
proof -
  let ?d = "retire sid (ds_packets e) d"
  obtain c where c: "fmlookup (d_chans d) (ds_packets e) = Some c" "ch_session c = sid" "ch_entry c = e" "ch_open c" "\<not> ch_once c"
    using assms by (rule sessions_channel)
  note eff = retire_effect [OF c(1,4), of sid]
  have "chan_ok ?d ch c'" if l: "fmlookup (d_chans ?d) ch = Some c'" for ch c'
  proof (cases "ch = ds_packets e")
    case True
    then have "c' = c\<lparr>ch_open := False, ch_queue := []\<rparr>" using l by (simp add: eff)
    moreover have "chan_ok d ch c" using assms(1) c(1) True unfolding sessions_good_def by blast
    ultimately show ?thesis using c by (simp add: chan_ok_def eff dispatcherQueueSize_def)
  next
    case False
    then have ok: "chan_ok d ch c'" using assms(1) l unfolding sessions_good_def by (simp add: eff)
    then have "ds_packets (ch_entry c') = ch" by (metis chan_ok_def new_entry_simps(1))
    then have "fmlookup (d_sessions d) (ch_session c') = Some (ch_entry c') \<Longrightarrow> ch_session c' \<noteq> sid"
      using False assms(2) by auto
    then show ?thesis using ok by (auto simp: chan_ok_def eff)
  qed
  moreover have "\<exists>c. fmlookup (d_chans ?d) (ds_packets e') = Some c \<and> ch_session c = sid' \<and> ch_entry c = e'"
    if l: "fmlookup (d_sessions ?d) sid' = Some e'" for sid' e'
  proof -
    have l': "fmlookup (d_sessions d) sid' = Some e'" "sid' \<noteq> sid" using l by (auto simp: eff split: if_splits)
    then have "ds_packets e' \<noteq> ds_packets e" using sessions_distinct [OF assms] by blast
    then show ?thesis using sessions_channel [OF assms(1) l'(1)] by (simp add: eff) metis
  qed
  moreover have "\<not> d_panic ?d" using assms(1) by (simp add: eff sessions_good_def)
  ultimately show ?thesis unfolding sessions_good_def by blast
qed

lemma retire_buffers: "buffers_ok [] d \<Longrightarrow> buffers_ok [] (retire sid ch d)"
  unfolding retire_def by (intro buffers_drain buffers_close_chan) (erule buffers_cong, simp_all)


section \<open>Every step keeps it\<close>

lemma Register_ok:
  assumes "dispatcher_ok d"
  shows "dispatcher_ok (fst (Register sid key d))"
proof (cases "key = [] \<or> d_done d \<or> fmlookup (d_sessions d) sid \<noteq> None")
  case True
  then show ?thesis using assms by (auto simp: Register_def)
next
  case False
  let ?d = "fst (Register sid key d)" and ?e = "new_entry sid key (d_next d)"
  define c where "c = \<lparr>ch_queue = [], ch_open = True, ch_session = sid, ch_entry = ?e, ch_once = False\<rparr>"
  have d': "?d = set_chan (d_next d) c (d\<lparr>d_sessions := fmupd sid ?e (d_sessions d), d_next := d_next d + 1\<rparr>)"
    using False by (simp add: Register_def c_def Let_def)
  have good: "sessions_good d" and bufs: "buffers_ok [] d" using assms by (simp_all add: dispatcher_ok_def)
  have free: "fmlookup (d_chans d) (d_next d) = None"
    using good unfolding sessions_good_def chan_ok_def by (metis less_irrefl option.exhaust)
  have old: "chan_ok ?d ch c'" if l: "fmlookup (d_chans d) ch = Some c'" for ch c'
  proof -
    have ok: "chan_ok d ch c'" using good l unfolding sessions_good_def by blast
    have "ch_session c' = sid \<Longrightarrow> \<not> ch_open c'" using ok False by (auto simp: chan_ok_def)
    moreover have "ch_entry c' \<noteq> ?e" using ok by (metis chan_ok_def less_irrefl new_entry_simps(1))
    ultimately show ?thesis using ok by (auto simp: chan_ok_def d' set_chan_def)
  qed
  have new: "chan_ok ?d (d_next d) c" using False by (simp add: chan_ok_def d' set_chan_def c_def)
  have "\<exists>c'. fmlookup (d_chans ?d) (ds_packets e) = Some c' \<and> ch_session c' = sid' \<and> ch_entry c' = e"
    if l: "fmlookup (d_sessions ?d) sid' = Some e" for sid' e
  proof (cases "sid' = sid")
    case True
    then show ?thesis using l by (auto simp: d' set_chan_def c_def)
  next
    case False
    then have "fmlookup (d_sessions d) sid' = Some e" using l by (simp add: d' set_chan_def)
    with good obtain c' where "fmlookup (d_chans d) (ds_packets e) = Some c'" "ch_session c' = sid'" "ch_entry c' = e"
      by (rule sessions_channel)
    then show ?thesis using free by (auto simp: d' set_chan_def)
  qed
  moreover have "\<forall>ch c'. fmlookup (d_chans ?d) ch = Some c' \<longrightarrow> chan_ok ?d ch c'"
    using old new by (auto simp: d' set_chan_def)
  moreover have "\<not> d_panic ?d" using good by (simp add: d' set_chan_def sessions_good_def)
  ultimately have "sessions_good ?d" unfolding sessions_good_def by blast
  moreover have "buffers_ok [] ?d"
  proof (rule buffers_keep [OF bufs])
    fix b
    have "fmdrop (d_next d) (d_chans d) = d_chans d" using free by (rule fmdrop_idle)
    then show "uses ?d b = uses d b" by (simp add: d' uses_def set_chan_def c_def)
  qed (simp_all add: d' set_chan_def)
  ultimately show ?thesis by (simp add: dispatcher_ok_def)
qed

text \<open>A session's own channel changes: its queue, or the mark that its release was called.\<close>

lemma good_set_chan:
  assumes "sessions_good d" "fmlookup (d_chans d) ch = Some c" "chan_ok d ch c'" "ch_session c' = ch_session c" "ch_entry c' = ch_entry c"
  shows "sessions_good (set_chan ch c' d)"
proof -
  have "chan_ok (set_chan ch c' d) k x \<longleftrightarrow> chan_ok d k x" for k x by (simp add: chan_ok_def set_chan_def)
  moreover have "\<exists>x. fmlookup (d_chans (set_chan ch c' d)) (ds_packets e) = Some x \<and> ch_session x = sid \<and> ch_entry x = e"
    if l: "fmlookup (d_sessions (set_chan ch c' d)) sid = Some e" for sid e
  proof -
    have "fmlookup (d_sessions d) sid = Some e" using l by (simp add: set_chan_def)
    with assms(1) obtain x where "fmlookup (d_chans d) (ds_packets e) = Some x" "ch_session x = sid" "ch_entry x = e"
      by (rule sessions_channel)
    then show ?thesis using assms(2,4,5) by (cases "ds_packets e = ch") (auto simp: set_chan_def)
  qed
  ultimately show ?thesis using assms(1,3) unfolding sessions_good_def by (auto simp: set_chan_def)
qed

lemma good_cong:
  assumes "sessions_good d" "d_chans d' = d_chans d" "d_sessions d' = d_sessions d" "d_next d' = d_next d" "d_panic d' = d_panic d"
  shows "sessions_good d'"
proof -
  have "chan_ok d' ch c \<longleftrightarrow> chan_ok d ch c" for ch c using assms(2-5) by (simp add: chan_ok_def)
  then show ?thesis using assms by (simp add: sessions_good_def)
qed

lemma release_session_cases:
  assumes "dispatcher_ok d"
  shows "release_session ch d = d
    \<or> (\<exists>c. fmlookup (d_chans d) ch = Some c \<and> \<not> ch_once c
        \<and> (if ch_open c then release_session ch d = retire (ch_session c) ch (set_chan ch (c\<lparr>ch_once := True\<rparr>) d)
           else release_session ch d = drainPackets ch (set_chan ch (c\<lparr>ch_once := True\<rparr>) d)))"
proof (cases "fmlookup (d_chans d) ch")
  case (Some c)
  have "chan_ok d ch c" using assms Some unfolding dispatcher_ok_def sessions_good_def by blast
  then show ?thesis using Some
    by (auto simp: release_session_def Let_def retire_def chan_ok_def set_chan_def)
qed (simp add: release_session_def)

lemma release_session_ok:
  assumes "dispatcher_ok d"
  shows "dispatcher_ok (release_session ch d)"
proof -
  have good: "sessions_good d" and bufs: "buffers_ok [] d" using assms by (simp_all add: dispatcher_ok_def)
  from release_session_cases [OF assms, of ch] show ?thesis
  proof (elim disjE exE conjE)
    fix c assume c: "fmlookup (d_chans d) ch = Some c" "\<not> ch_once c"
      "if ch_open c then release_session ch d = retire (ch_session c) ch (set_chan ch (c\<lparr>ch_once := True\<rparr>) d)
           else release_session ch d = drainPackets ch (set_chan ch (c\<lparr>ch_once := True\<rparr>) d)"
    let ?c = "c\<lparr>ch_once := True\<rparr>"
    have ok: "chan_ok d ch c" using good c(1) unfolding sessions_good_def by blast
    have b: "buffers_ok [] (set_chan ch ?c d)" by (rule buffers_set_chan [OF bufs c(1)]) simp
    show ?thesis
    proof (cases "ch_open c")
      case True
      have e: "fmlookup (d_sessions d) (ch_session c) = Some (ch_entry c)" "ds_packets (ch_entry c) = ch"
        using ok True by (simp_all add: chan_ok_def) (metis new_entry_simps(1))
      have g: "sessions_good (retire (ch_session c) ch d)" using retire_good [OF good e(1)] e(2) by simp
      note eff = retire_effect [OF c(1) True, of "ch_session c"]
      have "chan_ok (retire (ch_session c) ch d) ch (c\<lparr>ch_open := False, ch_queue := []\<rparr>)"
        using g eff(1) [of ch] unfolding sessions_good_def by simp
      then have g2: "sessions_good (set_chan ch (c\<lparr>ch_open := False, ch_queue := [], ch_once := True\<rparr>) (retire (ch_session c) ch d))"
        by (intro good_set_chan [OF g eff(1) [of ch, simplified]]) (simp_all add: chan_ok_def)
      have "fmlookup (d_chans (set_chan ch ?c d)) ch = Some ?c" "ch_open ?c" using True by (simp_all add: set_chan_def)
      note eff' = retire_effect [OF this, of "ch_session c"]
      have "d_chans (release_session ch d) = d_chans (set_chan ch (c\<lparr>ch_open := False, ch_queue := [], ch_once := True\<rparr>) (retire (ch_session c) ch d))"
        using c(3) True by (intro fmap_ext) (simp add: eff eff', simp add: set_chan_def eff)
      then have "sessions_good (release_session ch d)"
        using c(3) True by (intro good_cong [OF g2]) (simp_all add: eff eff', simp_all add: set_chan_def eff)
      then show ?thesis using c(3) True retire_buffers [OF b] by (simp add: dispatcher_ok_def)
    next
      case False
      have q: "ch_queue c = []" using ok False by (simp add: chan_ok_def)
      have "chan_ok d ch ?c" using ok False by (simp add: chan_ok_def)
      then have "sessions_good (set_chan ch ?c d)" by (rule good_set_chan [OF good c(1)]) simp_all
      moreover have "d_chans (drainPackets ch (set_chan ch ?c d)) = d_chans (set_chan ch ?c d)"
        by (rule fmap_ext) (simp add: chans_drain set_chan_def q)
      ultimately have "sessions_good (drainPackets ch (set_chan ch ?c d))" by (elim good_cong) (simp_all add: set_chan_def)
      then show ?thesis using c(3) False buffers_drain [OF b] by (simp add: dispatcher_ok_def)
    qed
  qed (use assms in simp)
qed

lemma drop_session_ok:
  assumes "dispatcher_ok d"
  shows "dispatcher_ok (drop_session sid d)"
proof (cases "fmlookup (d_sessions d) sid")
  case (Some e)
  then have "drop_session sid d = retire sid (ds_packets e) d" by (simp add: drop_session_def retire_def)
  then show ?thesis using assms retire_good [OF _ Some] retire_buffers by (simp add: dispatcher_ok_def)
qed (use assms in \<open>simp add: drop_session_def\<close>)

lemma dispatcher_Close_ok:
  assumes "dispatcher_ok d"
  shows "dispatcher_ok (dispatcher_Close ids d)"
proof -
  have "dispatcher_ok (d\<lparr>d_done := True\<rparr>)"
    using assms by (auto simp: dispatcher_ok_def elim!: good_cong buffers_cong)
  moreover have "dispatcher_ok d \<Longrightarrow> dispatcher_ok (fold drop_session ids d)" for d
    by (induction ids arbitrary: d) (simp_all add: drop_session_ok)
  ultimately show ?thesis using assms by (simp add: dispatcher_Close_def)
qed

section \<open>The read loop\<close>

text \<open>A buffer that the pool gives is nowhere else.\<close>

lemma GetLargeBuffer_effect:
  assumes "buffers_ok [] d" "GetLargeBuffer pick d = (d1, b)" "pk_buf p = b"
  shows "uses d b = 0 \<and> buffers_ok [p] d1 \<and> d_chans d1 = d_chans d \<and> d_held d1 = d_held d \<and> d_sessions d1 = d_sessions d
    \<and> d_next d1 = d_next d \<and> d_panic d1 = d_panic d \<and> d_done d1 = d_done d
    \<and> (\<forall>b'. b' \<noteq> b \<longrightarrow> fmlookup (d_bufs d1) b' = fmlookup (d_bufs d) b')"
proof (cases "pick |\<in>| d_pool d")
  case True
  then have d1: "d1 = d\<lparr>d_pool := d_pool d |-| {|pick|}\<rparr>" "b = pick" using assms(2) by (auto simp: GetLargeBuffer_def)
  have u: "uses d b = 0" using buffers_okD [OF assms(1), of b] True d1(2) by (auto split: if_splits)
  have "buffers_ok [p] d1"
    unfolding buffers_ok_def
  proof
    fix x
    have "uses d1 x = uses d x" by (simp add: d1(1) uses_def)
    then show "uses d1 x + (if x |\<in>| d_pool d1 then 1 else 0) + count_list (map pk_buf [p]) x = (if x < d_fresh d1 then 1 else 0)"
      using buffers_okD [OF assms(1), of x] True d1 assms(3) by (cases "x = pick") (auto split: if_splits)
  qed
  then show ?thesis using u d1 by simp
next
  case False
  then have d1: "d1 = d\<lparr>d_fresh := d_fresh d + 1, d_bufs := fmupd (d_fresh d) (replicate LargeBufferSize 0) (d_bufs d)\<rparr>" "b = d_fresh d"
    using assms(2) by (auto simp: GetLargeBuffer_def)
  have u: "uses d b = 0" "b |\<notin>| d_pool d" using buffers_okD [OF assms(1), of b] d1(2) by (auto split: if_splits)
  have "buffers_ok [p] d1"
    unfolding buffers_ok_def
  proof
    fix x
    have "uses d1 x = uses d x" by (simp add: d1(1) uses_def)
    then show "uses d1 x + (if x |\<in>| d_pool d1 then 1 else 0) + count_list (map pk_buf [p]) x = (if x < d_fresh d1 then 1 else 0)"
      using buffers_okD [OF assms(1), of x] u d1 assms(3) by (cases "x = b") (auto split: if_splits)
  qed
  then show ?thesis using u d1 by simp
qed

definition loop_cut :: "bytes \<Rightarrow> bytes" where
  "loop_cut received = take (MaxUDPPacketSize + P2PDataHeaderSize) received"

text \<open>What a turn does to the queues with a datagram that its session accepts.\<close>

definition accepted :: "UDPDispatcher \<Rightarrow> bytes \<Rightarrow> u64 \<Rightarrow> dispatchSession \<Rightarrow> bool" where
  "accepted d x sid e \<longleftrightarrow> packetSessionID x = Some sid \<and> fmlookup (d_sessions d) sid = Some e \<and> validPacket e x sid"

lemma read_turn_rejected:
  "\<nexists>sid e. accepted d (loop_cut received) sid e \<Longrightarrow> read_turn received addr pick d = d"
  by (auto simp: read_turn_def accepted_def loop_cut_def Let_def split: option.split)

lemma read_turn_accepted:
  assumes "dispatcher_ok d" "accepted d (loop_cut received) sid e" "fmlookup (d_chans d) (ds_packets e) = Some c"
    "d' = read_turn received addr pick d"
  obtains p where "pk_Addr p = addr" "pk_Data d' p = loop_cut received" "uses d (pk_buf p) = 0"
    "\<And>b. b \<noteq> pk_buf p \<Longrightarrow> fmlookup (d_bufs d') b = fmlookup (d_bufs d) b"
    "d_chans d' = (if length (ch_queue c) < dispatcherQueueSize
       then fmupd (ds_packets e) (c\<lparr>ch_queue := ch_queue c @ [p]\<rparr>) (d_chans d) else d_chans d)"
    "d_held d' = d_held d" "d_sessions d' = d_sessions d" "d_next d' = d_next d" "d_panic d' = d_panic d" "d_done d' = d_done d"
    "buffers_ok [] d'"
proof -
  have good: "sessions_good d" and bufs: "buffers_ok [] d" using assms(1) by (simp_all add: dispatcher_ok_def)
  have op: "ch_open c" using sessions_channel [OF good, of sid e] assms(2,3) by (auto simp: accepted_def)
  obtain d1 b where g: "GetLargeBuffer pick d = (d1, b)" by force
  obtain d2 p where p: "copy_packet b (loop_cut received) addr d1 = (d2, p)" by force
  have p': "pk_buf p = b" "pk_len p = length (loop_cut received)" "pk_Addr p = addr"
    and d2: "d2 = d1\<lparr>d_bufs := fmupd b (loop_cut received @ drop (length (loop_cut received))
      (case fmlookup (d_bufs d1) b of Some bs \<Rightarrow> bs | None \<Rightarrow> [])) (d_bufs d1)\<rparr>"
    using p by (auto simp: copy_packet_def Let_def)
  note eff = GetLargeBuffer_effect [OF bufs g p'(1)]
  have d': "d' = offer (ds_packets e) p d2"
    using assms(2,4) g p by (simp add: read_turn_def accepted_def loop_cut_def Let_def)
  have c2: "fmlookup (d_chans d2) (ds_packets e) = Some c" using eff assms(3) by (simp add: d2)
  have b2: "buffers_ok [p] d2" using eff by (elim conjE buffers_cong) (simp_all add: d2)
  have o: "d' = (if length (ch_queue c) < dispatcherQueueSize
      then set_chan (ds_packets e) (c\<lparr>ch_queue := ch_queue c @ [p]\<rparr>) d2 else release_packet p d2)"
    using d' c2 op by (simp add: offer_def)
  have data: "pk_Data d' p = loop_cut received" by (simp add: o pk_Data_def p' set_chan_def d2)
  have "buffers_ok [] d'"
  proof (cases "length (ch_queue c) < dispatcherQueueSize")
    case True
    then have d': "d' = set_chan (ds_packets e) (c\<lparr>ch_queue := ch_queue c @ [p]\<rparr>) d2" using o by simp
    show ?thesis
      unfolding buffers_ok_def
    proof
      fix x
      show "uses d' x + (if x |\<in>| d_pool d' then 1 else 0) + count_list (map pk_buf []) x = (if x < d_fresh d' then 1 else 0)"
        using uses_set_chan [OF c2, of "c\<lparr>ch_queue := ch_queue c @ [p]\<rparr>" x] buffers_okD [OF b2, of x]
        unfolding d' by (simp add: set_chan_def split: if_splits)
    qed
  next
    case False
    then show ?thesis using o buffers_release_packet [OF b2] by simp
  qed
  moreover have "fmlookup (d_bufs d') x = fmlookup (d_bufs d) x" if "x \<noteq> pk_buf p" for x
    using that eff by (simp add: o set_chan_def d2 p')
  moreover have "d_chans d' = (if length (ch_queue c) < dispatcherQueueSize
       then fmupd (ds_packets e) (c\<lparr>ch_queue := ch_queue c @ [p]\<rparr>) (d_chans d) else d_chans d)"
    "d_held d' = d_held d" "d_sessions d' = d_sessions d" "d_next d' = d_next d" "d_panic d' = d_panic d" "d_done d' = d_done d"
    using eff by (simp_all add: o set_chan_def d2)
  moreover have "uses d (pk_buf p) = 0" using eff p'(1) by simp
  ultimately show thesis using that [of p] p'(3) data by blast
qed

lemma read_turn_ok:
  assumes "dispatcher_ok d"
  shows "dispatcher_ok (read_turn received addr pick d)"
proof (cases "\<exists>sid e. accepted d (loop_cut received) sid e")
  case True
  then obtain sid e where a: "accepted d (loop_cut received) sid e" by blast
  have good: "sessions_good d" using assms by (simp add: dispatcher_ok_def)
  have "fmlookup (d_sessions d) sid = Some e" using a by (simp add: accepted_def)
  with good obtain c where c: "fmlookup (d_chans d) (ds_packets e) = Some c" by (rule sessions_channel)
  have ok: "chan_ok d (ds_packets e) c" using good c unfolding sessions_good_def by blast
  let ?d = "read_turn received addr pick d"
  obtain p where p: "d_chans ?d = (if length (ch_queue c) < dispatcherQueueSize
       then fmupd (ds_packets e) (c\<lparr>ch_queue := ch_queue c @ [p]\<rparr>) (d_chans d) else d_chans d)"
    "d_sessions ?d = d_sessions d" "d_next ?d = d_next d" "d_panic ?d = d_panic d" "buffers_ok [] ?d"
    using read_turn_accepted [OF assms a c refl] by metis
  have "sessions_good ?d"
  proof (cases "length (ch_queue c) < dispatcherQueueSize")
    case True
    have "ch_open c" using sessions_channel [OF good, of sid e] a c by (auto simp: accepted_def)
    then have "chan_ok d (ds_packets e) (c\<lparr>ch_queue := ch_queue c @ [p]\<rparr>)" using ok True by (simp add: chan_ok_def)
    then have "sessions_good (set_chan (ds_packets e) (c\<lparr>ch_queue := ch_queue c @ [p]\<rparr>) d)"
      by (rule good_set_chan [OF good c]) simp_all
    then show ?thesis by (rule good_cong) (use p True in \<open>simp_all add: set_chan_def\<close>)
  next
    case False
    then show ?thesis using p by (intro good_cong [OF good]) simp_all
  qed
  then show ?thesis using p(5) by (simp add: dispatcher_ok_def)
qed (use assms read_turn_rejected in simp)

section \<open>Receivers\<close>

lemma take_packet_cases:
  assumes "dispatcher_ok d"
  shows "take_packet ch d = (d, None)
    \<or> (\<exists>c p ps. fmlookup (d_chans d) ch = Some c \<and> ch_queue c = p # ps
        \<and> take_packet ch d = (set_chan ch (c\<lparr>ch_queue := ps\<rparr>) (d\<lparr>d_held := d_held d @ [p]\<rparr>), Some p))"
  by (auto simp: take_packet_def split: option.split list.split)

lemma take_packet_ok:
  assumes "dispatcher_ok d"
  shows "dispatcher_ok (fst (take_packet ch d))"
  using take_packet_cases [OF assms, of ch]
proof (elim disjE exE conjE)
  fix c p ps
  assume c: "fmlookup (d_chans d) ch = Some c" "ch_queue c = p # ps"
    and t: "take_packet ch d = (set_chan ch (c\<lparr>ch_queue := ps\<rparr>) (d\<lparr>d_held := d_held d @ [p]\<rparr>), Some p)"
  have good: "sessions_good d" and bufs: "buffers_ok [] d" using assms by (simp_all add: dispatcher_ok_def)
  let ?d = "d\<lparr>d_held := d_held d @ [p]\<rparr>" and ?c = "c\<lparr>ch_queue := ps\<rparr>"
  have "chan_ok d ch c" using good c(1) unfolding sessions_good_def by blast
  then have "chan_ok ?d ch ?c" using c(2) by (auto simp: chan_ok_def)
  moreover have "sessions_good ?d" by (rule good_cong [OF good]) simp_all
  ultimately have "sessions_good (set_chan ch ?c ?d)" using c(1) by (intro good_set_chan [of ?d ch c]) simp_all
  moreover have "buffers_ok [] (set_chan ch ?c ?d)"
  proof (rule buffers_keep [OF bufs])
    fix x
    show "uses (set_chan ch ?c ?d) x = uses d x"
      using uses_set_chan [of ?d ch c ?c x] c by (simp add: uses_def split: if_splits)
  qed (simp_all add: set_chan_def)
  ultimately show ?thesis by (simp add: t dispatcher_ok_def)
qed (use assms in simp)

lemma free_packet_ok:
  assumes "dispatcher_ok d"
  shows "dispatcher_ok (free_packet i d)"
proof (cases "i < length (d_held d)")
  case True
  have good: "sessions_good d" and bufs: "buffers_ok [] d" using assms by (simp_all add: dispatcher_ok_def)
  let ?p = "d_held d ! i" and ?d = "d\<lparr>d_held := take i (d_held d) @ drop (Suc i) (d_held d)\<rparr>"
  have "buffers_ok [?p] ?d"
    unfolding buffers_ok_def
  proof
    fix x
    have "count_list (map pk_buf (d_held d)) x = count_list (map pk_buf (take i (d_held d) @ ?p # drop (Suc i) (d_held d))) x"
      using id_take_nth_drop [OF True] by simp
    then show "uses ?d x + (if x |\<in>| d_pool ?d then 1 else 0) + count_list (map pk_buf [?p]) x = (if x < d_fresh ?d then 1 else 0)"
      using buffers_okD [OF bufs, of x] by (simp add: uses_def split: if_splits)
  qed
  then have "buffers_ok [] (free_packet i d)" using True buffers_release_packet by (simp add: free_packet_def)
  moreover have "sessions_good (free_packet i d)" using True by (intro good_cong [OF good]) (simp_all add: free_packet_def)
  ultimately show ?thesis by (simp add: dispatcher_ok_def)
qed (use assms in \<open>simp add: free_packet_def\<close>)

lemma dispatch_step_ok: "dispatcher_ok d \<Longrightarrow> dispatcher_ok (fst (dispatch_step ev d))"
  by (cases ev) (simp_all add: Register_ok release_session_ok dispatcher_Close_ok read_turn_ok take_packet_ok free_packet_ok)

interpretation dispatcher: event_system dispatch_step dispatch_run "\<lambda>_. True" dispatcher_ok
  by unfold_locales (simp_all add: case_prod_unfold dispatch_step_ok)

lemma NewUDPDispatcher_ok: "dispatcher_ok NewUDPDispatcher"
  by (simp add: dispatcher_ok_def NewUDPDispatcher_def sessions_good_def buffers_ok_def uses_def)

lemma dispatch_run_ok: "dispatcher_ok (fst (dispatch_run evs NewUDPDispatcher))"
  by (rule dispatcher.run_good [OF NewUDPDispatcher_ok]) (simp add: list_all_iff)

section \<open>Contents\<close>

text \<open>A packet that is in a queue or with a receiver.\<close>

definition alive :: "UDPDispatcher \<Rightarrow> UDPPacket \<Rightarrow> bool" where
  "alive d p \<longleftrightarrow> p \<in> set (d_held d) \<or> (\<exists>ch c. fmlookup (d_chans d) ch = Some c \<and> p \<in> set (ch_queue c))"

lemma alive_uses: "alive d p \<Longrightarrow> uses d (pk_buf p) \<noteq> 0"
  unfolding alive_def
proof (elim disjE exE conjE)
  fix ch c assume c: "fmlookup (d_chans d) ch = Some c" "p \<in> set (ch_queue c)"
  then have "count_list (map pk_buf (ch_queue c)) (pk_buf p) \<noteq> 0" by (auto simp: count_list_0_iff)
  then show ?thesis using fmsum_drop [OF c(1), of "\<lambda>_ c. count_list (map pk_buf (ch_queue c)) (pk_buf p)"] by (simp add: uses_def)
next
  assume "p \<in> set (d_held d)"
  then show ?thesis by (auto simp: uses_def count_list_0_iff)
qed

text \<open>
  What a step can bring into a queue: what was in it, or the datagram just read, if the session of
  the queue accepts it. Contents of packets do not change.
\<close>

definition from_read :: "dispatch_event \<Rightarrow> UDPDispatcher \<Rightarrow> UDPPacket \<Rightarrow> channel \<Rightarrow> bool" where
  "from_read ev d p c \<longleftrightarrow> (\<exists>received pick. ev = DRead received (pk_Addr p) pick \<and> pk_Data d p = loop_cut received
     \<and> packetSessionID (pk_Data d p) = Some (ch_session c) \<and> validPacket (ch_entry c) (pk_Data d p) (ch_session c))"

definition carried :: "dispatch_event \<Rightarrow> UDPDispatcher \<Rightarrow> UDPDispatcher \<Rightarrow> bool" where
  "carried ev d d' \<longleftrightarrow>
     (\<forall>ch c' p. fmlookup (d_chans d') ch = Some c' \<and> p \<in> set (ch_queue c') \<longrightarrow>
        (\<exists>c. fmlookup (d_chans d) ch = Some c \<and> ch_session c' = ch_session c \<and> ch_entry c' = ch_entry c \<and> p \<in> set (ch_queue c))
        \<or> from_read ev d' p c')
     \<and> (\<forall>p. alive d p \<longrightarrow> pk_Data d' p = pk_Data d p)"

definition quiet_chans :: "UDPDispatcher \<Rightarrow> UDPDispatcher \<Rightarrow> bool" where
  "quiet_chans d d' \<longleftrightarrow> d_bufs d' = d_bufs d \<and> (\<forall>ch c'. fmlookup (d_chans d') ch = Some c' \<longrightarrow> ch_queue c' = []
     \<or> (\<exists>c. fmlookup (d_chans d) ch = Some c \<and> ch_session c' = ch_session c \<and> ch_entry c' = ch_entry c
          \<and> set (ch_queue c') \<subseteq> set (ch_queue c)))"

lemma quiet_carried: "quiet_chans d d' \<Longrightarrow> carried ev d d'"
  unfolding carried_def
proof (intro conjI allI impI)
  assume q: "quiet_chans d d'"
  then show "pk_Data d' p = pk_Data d p" for p by (simp add: quiet_chans_def pk_Data_def)
  fix ch c' p assume l: "fmlookup (d_chans d') ch = Some c' \<and> p \<in> set (ch_queue c')"
  then have "ch_queue c' \<noteq> []" by auto
  then obtain c where "fmlookup (d_chans d) ch = Some c" "ch_session c' = ch_session c" "ch_entry c' = ch_entry c"
    "set (ch_queue c') \<subseteq> set (ch_queue c)" using q l unfolding quiet_chans_def by blast
  then show "(\<exists>c. fmlookup (d_chans d) ch = Some c \<and> ch_session c' = ch_session c \<and> ch_entry c' = ch_entry c
      \<and> p \<in> set (ch_queue c)) \<or> from_read ev d' p c'" using l by auto
qed

lemma quiet_chans_refl [simp]: "quiet_chans d d"
  by (simp add: quiet_chans_def)

lemma quiet_chans_trans:
  assumes "quiet_chans d d1" "quiet_chans d1 d2"
  shows "quiet_chans d d2"
  unfolding quiet_chans_def
proof (intro conjI allI impI)
  show "d_bufs d2 = d_bufs d" using assms by (simp add: quiet_chans_def)
  fix ch c' assume l: "fmlookup (d_chans d2) ch = Some c'"
  show "ch_queue c' = [] \<or> (\<exists>c. fmlookup (d_chans d) ch = Some c \<and> ch_session c' = ch_session c \<and> ch_entry c' = ch_entry c
          \<and> set (ch_queue c') \<subseteq> set (ch_queue c))"
  proof (rule ccontr)
    assume n: "\<not> ?thesis"
    then obtain c1 where c1: "fmlookup (d_chans d1) ch = Some c1" "ch_session c' = ch_session c1" "ch_entry c' = ch_entry c1"
      "set (ch_queue c') \<subseteq> set (ch_queue c1)" using assms(2) l unfolding quiet_chans_def by blast
    then have "ch_queue c1 \<noteq> []" using n by auto
    then obtain c where "fmlookup (d_chans d) ch = Some c" "ch_session c1 = ch_session c" "ch_entry c1 = ch_entry c"
      "set (ch_queue c1) \<subseteq> set (ch_queue c)" using assms(1) c1(1) unfolding quiet_chans_def by blast
    then show False using n c1 by auto
  qed
qed

lemma quiet_drain: "quiet_chans d (drainPackets ch d)"
  by (auto simp: quiet_chans_def chans_drain)

lemma quiet_close: "quiet_chans d (close_chan ch d)"
  by (auto simp: quiet_chans_def close_chan_def set_chan_def panic_def split: option.split)

lemma quiet_sessions: "d_chans d' = d_chans d \<Longrightarrow> d_bufs d' = d_bufs d \<Longrightarrow> quiet_chans d d'"
  by (simp add: quiet_chans_def)

lemma quiet_drop: "quiet_chans d (drop_session sid d)"
proof -
  have "quiet_chans d (drainPackets ch (close_chan ch (d\<lparr>d_sessions := ss\<rparr>)))" for ch ss
    by (rule quiet_chans_trans [OF quiet_chans_trans [OF quiet_sessions quiet_close] quiet_drain]) simp_all
  then show ?thesis by (simp add: drop_session_def split: option.split)
qed

lemma quiet_fold_drop: "quiet_chans d (fold drop_session ids d)"
proof (induction ids arbitrary: d)
  case (Cons sid ids)
  then show ?case using quiet_chans_trans [OF quiet_drop [of d sid]] by simp
qed simp

lemma quiet_Close: "quiet_chans d (dispatcher_Close ids d)"
  using quiet_chans_trans [OF quiet_sessions quiet_fold_drop, of "d\<lparr>d_done := True\<rparr>" d ids]
  by (simp add: dispatcher_Close_def)

lemma quiet_release: "quiet_chans d (release_session ch d)"
proof (cases "fmlookup (d_chans d) ch")
  case (Some c)
  have s: "quiet_chans d (set_chan ch (c\<lparr>ch_once := True\<rparr>) d)" using Some by (auto simp: quiet_chans_def set_chan_def)
  have "quiet_chans d (close_chan ch ((set_chan ch (c\<lparr>ch_once := True\<rparr>) d)\<lparr>d_sessions := ss\<rparr>))" for ss
    by (rule quiet_chans_trans [OF quiet_chans_trans [OF s quiet_sessions] quiet_close]) simp_all
  then show ?thesis
    using s quiet_chans_trans [OF _ quiet_drain] Some by (simp add: release_session_def Let_def)
qed (simp add: release_session_def)

lemma quiet_Register: "quiet_chans d (fst (Register sid key d))"
  by (auto simp: Register_def Let_def quiet_chans_def set_chan_def)

lemma quiet_take: "quiet_chans d (fst (take_packet ch d))"
  by (auto simp: take_packet_def quiet_chans_def set_chan_def split: option.split list.split)

lemma quiet_free: "quiet_chans d (free_packet i d)"
  by (simp add: free_packet_def quiet_chans_def)

lemma read_turn_carried:
  assumes "dispatcher_ok d"
  shows "carried (DRead received addr pick) d (read_turn received addr pick d)"
proof (cases "\<exists>sid e. accepted d (loop_cut received) sid e")
  case True
  then obtain sid e where a: "accepted d (loop_cut received) sid e" by blast
  have good: "sessions_good d" using assms by (simp add: dispatcher_ok_def)
  have "fmlookup (d_sessions d) sid = Some e" using a by (simp add: accepted_def)
  with good obtain c where c: "fmlookup (d_chans d) (ds_packets e) = Some c" "ch_session c = sid" "ch_entry c = e"
    by (rule sessions_channel)
  let ?d = "read_turn received addr pick d"
  obtain p where p: "pk_Addr p = addr" "pk_Data ?d p = loop_cut received" "uses d (pk_buf p) = 0"
    "\<And>b. b \<noteq> pk_buf p \<Longrightarrow> fmlookup (d_bufs ?d) b = fmlookup (d_bufs d) b"
    "d_chans ?d = (if length (ch_queue c) < dispatcherQueueSize
       then fmupd (ds_packets e) (c\<lparr>ch_queue := ch_queue c @ [p]\<rparr>) (d_chans d) else d_chans d)"
    using read_turn_accepted [OF assms a c(1) refl] by metis
  have "pk_Data ?d q = pk_Data d q" if "alive d q" for q
  proof -
    have "pk_buf q \<noteq> pk_buf p" using alive_uses [OF that] p(3) by metis
    then show ?thesis using p(4) by (simp add: pk_Data_def)
  qed
  moreover have "(\<exists>c0. fmlookup (d_chans d) ch = Some c0 \<and> ch_session c' = ch_session c0 \<and> ch_entry c' = ch_entry c0 \<and> q \<in> set (ch_queue c0))
      \<or> from_read (DRead received addr pick) ?d q c'"
    if l: "fmlookup (d_chans ?d) ch = Some c'" "q \<in> set (ch_queue c')" for ch c' q
  proof (cases "ch = ds_packets e \<and> q = p \<and> length (ch_queue c) < dispatcherQueueSize")
    case True
    then have "ch_session c' = sid" "ch_entry c' = e" using l(1) p(5) c by auto
    then show ?thesis using True p(1,2) a by (auto simp: from_read_def accepted_def)
  next
    case False
    then show ?thesis using l p(5) c by (auto split: if_splits)
  qed
  ultimately show ?thesis unfolding carried_def by blast
next
  case False
  then show ?thesis using read_turn_rejected quiet_carried quiet_chans_refl by simp
qed

lemma dispatch_step_carried: "dispatcher_ok d \<Longrightarrow> carried ev d (fst (dispatch_step ev d))"
  by (cases ev) (simp_all add: read_turn_carried quiet_carried quiet_Register quiet_release quiet_Close quiet_take quiet_free)

text \<open>Every packet in a queue was read and accepted earlier in the run.\<close>

lemma queued_read:
  "fmlookup (d_chans (fst (dispatch_run evs NewUDPDispatcher))) ch = Some c \<Longrightarrow> p \<in> set (ch_queue c) \<Longrightarrow>
     \<exists>ev\<in>set evs. from_read ev (fst (dispatch_run evs NewUDPDispatcher)) p c"
proof (induction evs arbitrary: c rule: rev_induct)
  case Nil
  then show ?case by (simp add: NewUDPDispatcher_def)
next
  case (snoc ev evs)
  let ?d = "fst (dispatch_run evs NewUDPDispatcher)" and ?d' = "fst (dispatch_run (evs @ [ev]) NewUDPDispatcher)"
  have d': "?d' = fst (dispatch_step ev ?d)" by (rule dispatcher.run_snoc)
  have ca: "carried ev ?d ?d'" unfolding d' by (rule dispatch_step_carried [OF dispatch_run_ok])
  then consider (old) c0 where "fmlookup (d_chans ?d) ch = Some c0" "ch_session c = ch_session c0" "ch_entry c = ch_entry c0"
      "p \<in> set (ch_queue c0)"
    | (new) "from_read ev ?d' p c" using snoc.prems unfolding carried_def by blast
  then show ?case
  proof cases
    case old
    then obtain ev' where ev': "ev' \<in> set evs" "from_read ev' ?d p c0" using snoc.IH by blast
    have "alive ?d p" using old(1,4) by (auto simp: alive_def)
    then have "pk_Data ?d' p = pk_Data ?d p" using ca by (simp add: carried_def)
    then have "from_read ev' ?d' p c" using ev'(2) old by (simp add: from_read_def)
    then show ?thesis using ev'(1) by auto
  next
    case new
    then show ?thesis by auto
  qed
qed

text \<open>What a session accepts, in terms of its number and key.\<close>

definition genuine :: "u64 \<Rightarrow> bytes \<Rightarrow> bytes \<Rightarrow> bool" where
  "genuine sid key x \<longleftrightarrow> (\<exists>p. DecodePunchPacket x key = Inr p \<and> pSessionID p = sid)
     \<or> sid \<le> 0xffffffff \<and> (\<exists>datagram. EncodeP2PData (ucast sid) key datagram = Inr x)"

lemma validPacket_genuine:
  assumes "validPacket (new_entry sid key ch) x sid" "key \<noteq> []"
  shows "genuine sid key x"
proof (cases "be32 (slice 0 4 x) = PunchMagic")
  case True
  then show ?thesis using assms by (auto simp: validPacket_def genuine_def Let_def split: if_splits sum.splits)
next
  case False
  then obtain c datagram where c: "ds_codec (new_entry sid key ch) = Some c" "p2p_decode c x = Inr datagram"
    using assms(1) by (auto simp: validPacket_def Let_def split: if_splits option.splits sum.splits)
  then have "sid \<le> 0xffffffff" "NewP2PCodec (ucast sid) key = Inr c"
    by (auto simp: new_entry_def split: if_splits sum.splits)
  then show ?thesis using p2p_decode_Inr [OF c(2)] by (auto simp: genuine_def EncodeP2PData_def)
qed

section \<open>Properties\<close>

text \<open>
  C20: What a session of the dispatcher receives. After any run, the packet that a receiver takes from its
  channel is, byte for byte, a datagram that the loop read earlier from the address it gives, and it
  is genuine for just this session: a hole-punching packet with its number that is authentic under its key,
  or what sealing some datagram under its number and key gives. Whatever happens next, the bytes of a packet
  that a receiver holds, or that waits in a queue, do not change until it is released.
\<close>

theorem dispatch_sound:
  assumes "d = fst (dispatch_run evs NewUDPDispatcher)" "dispatch_step (DTake ch) d = (d', Some p)"
  shows "\<exists>c received pick. fmlookup (d_chans d) ch = Some c \<and> DRead received (pk_Addr p) pick \<in> set evs
    \<and> pk_Data d' p = loop_cut received \<and> genuine (ch_session c) (ds_key (ch_entry c)) (pk_Data d' p)
    \<and> (\<forall>ev q. q \<in> set (d_held d') \<longrightarrow> pk_Data (fst (dispatch_step ev d')) q = pk_Data d' q)"
proof -
  have ok: "dispatcher_ok d" "dispatcher_ok d'"
    using dispatch_run_ok [of evs] dispatch_step_ok [of d "DTake ch"] assms by simp_all
  obtain c ps where c: "fmlookup (d_chans d) ch = Some c" "ch_queue c = p # ps"
    using assms(2) by (auto simp: take_packet_def split: option.splits list.splits)
  then obtain ev where ev: "ev \<in> set evs" "from_read ev d p c" using queued_read [of evs ch c p] assms(1) by auto
  have "d_bufs d' = d_bufs d" using quiet_take [of d ch] assms(2) by (simp add: quiet_chans_def)
  then have data: "pk_Data d' p = pk_Data d p" by (simp add: pk_Data_def)
  have "chan_ok d ch c" using ok(1) c(1) unfolding dispatcher_ok_def sessions_good_def by blast
  then have e: "ch_entry c = new_entry (ch_session c) (ds_key (ch_entry c)) ch" "ds_key (ch_entry c) \<noteq> []"
    by (auto simp: chan_ok_def)
  obtain received pick where r: "ev = DRead received (pk_Addr p) pick" "pk_Data d p = loop_cut received"
    "validPacket (ch_entry c) (pk_Data d p) (ch_session c)" using ev(2) by (auto simp: from_read_def)
  have "genuine (ch_session c) (ds_key (ch_entry c)) (pk_Data d p)"
    using validPacket_genuine [of "ch_session c" "ds_key (ch_entry c)" ch] r(3) e by metis
  moreover have "\<forall>ev q. q \<in> set (d_held d') \<longrightarrow> pk_Data (fst (dispatch_step ev d')) q = pk_Data d' q"
    using dispatch_step_carried [OF ok(2)] unfolding carried_def alive_def by blast
  ultimately show ?thesis using c(1) ev(1) r data by auto
qed

text \<open>
  The resources of the dispatcher. After any run no channel was closed twice or written to when closed,
  which would panic; no queue is longer than 256; and each pooled buffer that was ever made is in exactly
  one place, the pool, one queue, or with one receiver, so that none is lost and none is shared.
\<close>

theorem dispatcher_resources:
  assumes "d = fst (dispatch_run evs NewUDPDispatcher)"
  shows "\<not> d_panic d \<and> (\<forall>ch c. fmlookup (d_chans d) ch = Some c \<longrightarrow> length (ch_queue c) \<le> dispatcherQueueSize)
    \<and> (\<forall>b. uses d b + (if b |\<in>| d_pool d then 1 else 0) = (if b < d_fresh d then 1 else 0))"
proof -
  have ok: "dispatcher_ok d" using dispatch_run_ok assms by simp
  then have "buffers_ok [] d" by (simp add: dispatcher_ok_def)
  from buffers_okD [OF this] have "uses d b + (if b |\<in>| d_pool d then 1 else 0) = (if b < d_fresh d then 1 else 0)" for b
    by simp
  moreover have "\<not> d_panic d" "\<forall>ch c. fmlookup (d_chans d) ch = Some c \<longrightarrow> chan_ok d ch c"
    using ok by (simp_all add: dispatcher_ok_def sessions_good_def)
  ultimately show ?thesis by (auto simp: chan_ok_def)
qed

text \<open>
  The loop serves its sessions apart. A datagram that the session it names accepts is put, with its address, at the
  end of the queue of that session if there is room, and is dropped if not; no other queue changes, however full;
  and a datagram that no session accepts changes nothing.
\<close>

theorem dispatch_exact:
  assumes "d = fst (dispatch_run evs NewUDPDispatcher)" "d' = fst (dispatch_step (DRead received addr pick) d)"
  shows "case packetSessionID (loop_cut received) of None \<Rightarrow> d' = d
    | Some sid \<Rightarrow> (case fmlookup (d_sessions d) sid of None \<Rightarrow> d' = d
      | Some e \<Rightarrow> (if \<not> validPacket e (loop_cut received) sid then d' = d
          else \<exists>c p. fmlookup (d_chans d) (ds_packets e) = Some c \<and> pk_Addr p = addr \<and> pk_Data d' p = loop_cut received
            \<and> d_chans d' = (if length (ch_queue c) < dispatcherQueueSize
                then fmupd (ds_packets e) (c\<lparr>ch_queue := ch_queue c @ [p]\<rparr>) (d_chans d) else d_chans d)))"
proof -
  have ok: "dispatcher_ok d" using dispatch_run_ok assms(1) by simp
  then have good: "sessions_good d" by (simp add: dispatcher_ok_def)
  have d': "d' = read_turn received addr pick d" using assms(2) by simp
  show ?thesis
  proof (cases "\<exists>sid e. accepted d (loop_cut received) sid e")
    case True
    then obtain sid e where a: "accepted d (loop_cut received) sid e" by blast
    then have e: "packetSessionID (loop_cut received) = Some sid" "fmlookup (d_sessions d) sid = Some e"
      "validPacket e (loop_cut received) sid" by (simp_all add: accepted_def)
    with good obtain c where c: "fmlookup (d_chans d) (ds_packets e) = Some c" using sessions_channel by metis
    obtain p where p: "pk_Addr p = addr" "pk_Data d' p = loop_cut received"
      "d_chans d' = (if length (ch_queue c) < dispatcherQueueSize
         then fmupd (ds_packets e) (c\<lparr>ch_queue := ch_queue c @ [p]\<rparr>) (d_chans d) else d_chans d)"
      using read_turn_accepted [OF ok a c d'] by metis
    show ?thesis using p c by (simp only: e option.case not_not if_True if_False simp_thms) blast
  next
    case False
    then have "d' = d" using d' read_turn_rejected by simp
    then show ?thesis using False by (auto simp: accepted_def split: option.split)
  qed
qed

section \<open>A session that receives a datagram\<close>

definition sample_codec :: P2PCodec where
  "sample_codec = \<lparr>codec_session = 5, codec_key = [1]\<rparr>"

definition sample_sealed :: bytes where
  "sample_sealed = p2p_encode sample_codec [] [9]"

definition sample_dispatch :: "dispatch_event list" where
  "sample_dispatch = [DRegister 5 [1], DRead sample_sealed no_addr_port 0]"

lemma sample_magic: "be32 (slice 0 4 sample_sealed) = P2PDataMagic" "be32 (slice 4 8 sample_sealed) = 5" "length sample_sealed = 25"
  by (simp_all add: sample_sealed_def p2p_encode_layout p2p_prefix_def slice_def sample_codec_def)

lemma sample_accepted: "packetSessionID sample_sealed = Some 5" "validPacket (new_entry 5 [1] 0) sample_sealed 5"
  "loop_cut sample_sealed = sample_sealed"
proof -
  show "packetSessionID sample_sealed = Some 5"
    by (simp add: packetSessionID_def sample_magic Let_def) (simp add: P2PDataMagic_def PunchMagic_def)
  have "ds_codec (new_entry 5 [1] 0) = Some sample_codec"
    by (simp add: new_entry_def NewP2PCodec_def sample_codec_def)
  moreover have "P2PDataMagic \<noteq> PunchMagic" by (simp add: P2PDataMagic_def PunchMagic_def)
  ultimately show "validPacket (new_entry 5 [1] 0) sample_sealed 5"
    by (simp add: validPacket_def sample_magic Let_def) (simp add: sample_sealed_def)
  show "loop_cut sample_sealed = sample_sealed" by (simp add: loop_cut_def sample_magic udp_consts)
qed

lemma sample_queued:
  "\<exists>p. snd (dispatch_step (DTake 0) (fst (dispatch_run sample_dispatch NewUDPDispatcher))) = Some p"
proof -
  let ?d = "fst (dispatch_step (DRegister 5 [1]) NewUDPDispatcher)"
  have d: "fst (dispatch_run sample_dispatch NewUDPDispatcher) = read_turn sample_sealed no_addr_port 0 ?d"
    by (simp add: sample_dispatch_def case_prod_unfold)
  have ok: "dispatcher_ok ?d" by (rule dispatch_step_ok [OF NewUDPDispatcher_ok])
  let ?c = "\<lparr>ch_queue = [], ch_open = True, ch_session = 5, ch_entry = new_entry 5 [1] 0, ch_once = False\<rparr>"
  have s: "fmlookup (d_sessions ?d) 5 = Some (new_entry 5 [1] 0)" "fmlookup (d_chans ?d) (ds_packets (new_entry 5 [1] 0)) = Some ?c"
    by (simp_all add: Register_def NewUDPDispatcher_def set_chan_def Let_def)
  have a: "accepted ?d (loop_cut sample_sealed) 5 (new_entry 5 [1] 0)"
    using s(1) sample_accepted by (simp only: accepted_def simp_thms)
  obtain p where "d_chans (read_turn sample_sealed no_addr_port 0 ?d) = (if length (ch_queue ?c) < dispatcherQueueSize
      then fmupd (ds_packets (new_entry 5 [1] 0)) (?c\<lparr>ch_queue := ch_queue ?c @ [p]\<rparr>) (d_chans ?d) else d_chans ?d)"
    using read_turn_accepted [OF ok a s(2) refl] by metis
  then have "fmlookup (d_chans (read_turn sample_sealed no_addr_port 0 ?d)) 0 = Some (?c\<lparr>ch_queue := [p]\<rparr>)"
    by (simp add: dispatcherQueueSize_def)
  then show ?thesis unfolding d by (simp add: take_packet_def)
qed

theorem dispatch_sound_witness:
  "\<exists>p d'. pk_Data d' p = sample_sealed \<and> pk_Addr p = no_addr_port
    \<and> dispatch_step (DTake 0) (fst (dispatch_run sample_dispatch NewUDPDispatcher)) = (d', Some p)"
proof -
  obtain p d' where t: "dispatch_step (DTake 0) (fst (dispatch_run sample_dispatch NewUDPDispatcher)) = (d', Some p)"
    using sample_queued by (metis prod.collapse)
  from dispatch_sound [OF refl t] obtain received pick where "DRead received (pk_Addr p) pick \<in> set sample_dispatch"
    "pk_Data d' p = loop_cut received" by blast
  then have "received = sample_sealed" "pk_Addr p = no_addr_port" by (simp_all add: sample_dispatch_def)
  then show ?thesis using t \<open>pk_Data d' p = loop_cut received\<close> sample_accepted(3) by auto
qed

theorem dispatcher_resources_witness: "\<not> d_panic (fst (dispatch_run sample_dispatch NewUDPDispatcher))"
  using dispatcher_resources [OF refl] by blast

theorem dispatch_exact_witness:
  "fst (dispatch_step (DRead [] no_addr_port 0) (fst (dispatch_run sample_dispatch NewUDPDispatcher)))
    = fst (dispatch_run sample_dispatch NewUDPDispatcher)"
  using dispatch_exact [where evs = sample_dispatch and received = "[]" and addr = no_addr_port and pick = 0, OF refl refl]
  by (simp add: packetSessionID_def loop_cut_def del: dispatch_step.simps dispatch_run.simps)

end
