(* ===== verification/Udp_Punch.thy ===== *)
theory Udp_Punch
  imports Udp_Dispatcher Control_Message
begin

text \<open>
  One attempt to punch a hole, \<open>PunchUDPDispatched\<close> of \<open>internal/punch/udp_punch.go\<close>. Two goroutines share it:
  the main loop probes the targets at every tick, takes in new candidates and ends the attempt; the receiver
  reads the queue of the dispatcher, answers probes and notes the first peer it hears from. An attempt is a
  state with the two loops' events in any order; what is sent is the output. The nonces of packets are draws,
  \<open>None\<close> if the system has no randomness.
\<close>

section \<open>Targets\<close>

text \<open>\<open>resolve\<close> is \<open>net.ResolveUDPAddr\<close>, which gives IPv4 addresses in their short form.\<close>

definition resolveUDPCandidates :: "(string \<Rightarrow> AddrPort option) \<Rightarrow> CandidateInfo list \<Rightarrow> AddrPort list" where
  "resolveUDPCandidates resolve cands =
     List.map_filter (\<lambda>c. if c_Protocol c \<noteq> ''udp'' then None else resolve (c_Address c)) cands"

text \<open>\<open>key\<close> is the text of an address.\<close>

fun merge_seen :: "(AddrPort \<Rightarrow> string) \<Rightarrow> string set \<Rightarrow> AddrPort list \<Rightarrow> AddrPort list" where
  "merge_seen key seen [] = []"
| "merge_seen key seen (a # as) =
     (if key a \<in> seen then merge_seen key seen as else a # merge_seen key (insert (key a) seen) as)"

definition mergeUDPAddrs :: "(AddrPort \<Rightarrow> string) \<Rightarrow> AddrPort list \<Rightarrow> AddrPort list \<Rightarrow> AddrPort list" where
  "mergeUDPAddrs key current additions = merge_seen key {} (current @ additions)"

section \<open>The attempt\<close>

text \<open>Without randomness the last answer is a nil pointer, which the code encodes all the same.\<close>

datatype punch_outcome = Punched AddrPort | PunchTimeout | PunchPanic

record PunchAttempt =
  pa_session :: u64
  pa_token :: bytes
  pa_targets :: "AddrPort list"
  pa_updates :: bool
  pa_success :: "AddrPort option"
  pa_confirmed :: "AddrPort option"
  pa_receiving :: bool
  pa_outcome :: "punch_outcome option"

datatype punch_start_error = NotRegistered register_error | NoCandidates

text \<open>The attempt begins with a session at the dispatcher; \<open>updates\<close>: there is a channel of more candidates.\<close>

definition punch_start ::
  "(string \<Rightarrow> AddrPort option) \<Rightarrow> CandidateInfo list \<Rightarrow> bool \<Rightarrow> u64 \<Rightarrow> bytes \<Rightarrow> UDPDispatcher
    \<Rightarrow> UDPDispatcher \<times> (punch_start_error + PunchAttempt)" where
  "punch_start resolve cands updates sid token d = (case Register sid token d of
     (d, Inl e) \<Rightarrow> (d, Inl (NotRegistered e))
   | (d, Inr ch) \<Rightarrow>
       (let targets = resolveUDPCandidates resolve cands in
        if targets = [] \<and> \<not> updates then (release_session ch d, Inl NoCandidates)
        else (d, Inr \<lparr>pa_session = sid, pa_token = token, pa_targets = targets, pa_updates = updates, pa_success = None,
                      pa_confirmed = None, pa_receiving = True, pa_outcome = None\<rparr>)))"

type_synonym sent = "(AddrPort \<times> bytes) list"

text \<open>A fresh packet, to each of these addresses.\<close>

definition send_packet :: "u8 \<Rightarrow> bytes option \<Rightarrow> AddrPort list \<Rightarrow> PunchAttempt \<Rightarrow> sent" where
  "send_packet t rnd tos a = (case NewPunchPacket t (pa_session a) (pa_token a) rnd of
     Inr p \<Rightarrow> map (\<lambda>to'. (to', encode_punch p [])) tos | Inl _ \<Rightarrow> [])"

text \<open>\<open>once.Do\<close>: the first peer is noted and handed to the main loop.\<close>

definition confirm :: "AddrPort \<Rightarrow> PunchAttempt \<Rightarrow> PunchAttempt" where
  "confirm peer a = (if pa_confirmed a \<noteq> None then a else a\<lparr>pa_confirmed := Some peer, pa_success := Some peer\<rparr>)"

definition punch_receive :: "bytes \<Rightarrow> AddrPort \<Rightarrow> bytes option \<Rightarrow> PunchAttempt \<Rightarrow> PunchAttempt \<times> sent" where
  "punch_receive packet remote rnd a = (case DecodePunchPacket packet (pa_token a) of
     Inl _ \<Rightarrow> (a, [])
   | Inr p \<Rightarrow>
       if pSessionID p \<noteq> pa_session a \<or> \<not> IsValid (ap_addr remote) then (a, [])
       else (if pType p = PunchTypePunch \<or> pType p = PunchTypePunchAck then confirm remote a else a,
             if pType p = PunchTypePunch then send_packet PunchTypePunchAck rnd [remote] a else []))"

definition punch_tick :: "bytes option \<Rightarrow> PunchAttempt \<Rightarrow> sent" where
  "punch_tick rnd a = (if pa_confirmed a \<noteq> None then [] else send_packet PunchTypePunch rnd (pa_targets a) a)"

definition punch_finish :: "bytes option \<Rightarrow> PunchAttempt \<Rightarrow> PunchAttempt \<times> sent" where
  "punch_finish rnd a = (case pa_success a of
     None \<Rightarrow> (a, [])
   | Some peer \<Rightarrow> (case NewPunchPacket PunchTypePunchAck (pa_session a) (pa_token a) rnd of
       Inl _ \<Rightarrow> (a\<lparr>pa_success := None, pa_outcome := Some PunchPanic\<rparr>, [])
     | Inr ack \<Rightarrow> (a\<lparr>pa_success := None, pa_outcome := Some (Punched peer)\<rparr>,
         replicate 3 (peer, encode_punch ack []))))"

datatype punch_event =
    PReceive bytes AddrPort "bytes option" | PStopReceiver
  | PTick "bytes option" | PUpdate "CandidateInfo list" | PNoUpdates | PFinish "bytes option" | PTimeout

text \<open>
  The main loop runs until there is an outcome. The receiver stops when it finds its channel closed or the
  context done, which may be before the main loop ends and may be after; until then it takes packets.
\<close>

fun punch_step ::
  "(string \<Rightarrow> AddrPort option) \<Rightarrow> (AddrPort \<Rightarrow> string) \<Rightarrow> punch_event \<Rightarrow> PunchAttempt \<Rightarrow> PunchAttempt \<times> sent" where
  "punch_step resolve key (PReceive packet remote rnd) a =
     (if pa_receiving a then punch_receive packet remote rnd a else (a, []))"
| "punch_step resolve key PStopReceiver a = (a\<lparr>pa_receiving := False\<rparr>, [])"
| "punch_step resolve key (PTick rnd) a = (a, if pa_outcome a = None then punch_tick rnd a else [])"
| "punch_step resolve key (PUpdate cands) a = (if pa_outcome a = None \<and> pa_updates a
     then a\<lparr>pa_targets := mergeUDPAddrs key (pa_targets a) (resolveUDPCandidates resolve cands)\<rparr> else a, [])"
| "punch_step resolve key PNoUpdates a = (if pa_outcome a = None then a\<lparr>pa_updates := False\<rparr> else a, [])"
| "punch_step resolve key (PFinish rnd) a = (if pa_outcome a = None then punch_finish rnd a else (a, []))"
| "punch_step resolve key PTimeout a = (if pa_outcome a = None then a\<lparr>pa_outcome := Some PunchTimeout\<rparr> else a, [])"

fun punch_run ::
  "(string \<Rightarrow> AddrPort option) \<Rightarrow> (AddrPort \<Rightarrow> string) \<Rightarrow> punch_event list \<Rightarrow> PunchAttempt \<Rightarrow> PunchAttempt \<times> sent list" where
  "punch_run resolve key [] a = (a, [])"
| "punch_run resolve key (ev # evs) a = (case punch_step resolve key ev a of
     (a, out) \<Rightarrow> (case punch_run resolve key evs a of (a, outs) \<Rightarrow> (a, out # outs)))"

section \<open>Targets are distinct\<close>

lemma merge_seen_keys:
  "distinct (map key (merge_seen key seen as)) \<and> key ` set (merge_seen key seen as) = key ` set as - seen
     \<and> set (merge_seen key seen as) \<subseteq> set as"
  by (induction as arbitrary: seen) auto

lemma merge_keeps: "distinct (map key as) \<Longrightarrow> key ` set as \<inter> seen = {} \<Longrightarrow>
    merge_seen key seen (as @ bs) = as @ merge_seen key (seen \<union> key ` set as) bs"
  by (induction as arbitrary: seen) (auto simp: insert_commute)

section \<open>The invariant\<close>

definition attempt_ok :: "PunchAttempt \<Rightarrow> bool" where
  "attempt_ok a \<longleftrightarrow> (\<forall>peer. pa_success a = Some peer \<longrightarrow> pa_confirmed a = Some peer)
     \<and> (\<forall>peer. pa_outcome a = Some (Punched peer) \<longrightarrow> pa_confirmed a = Some peer)"

lemma punch_step_ok: "attempt_ok a \<Longrightarrow> attempt_ok (fst (punch_step resolve key ev a))"
  by (cases ev) (auto simp: attempt_ok_def punch_receive_def confirm_def punch_finish_def split: sum.split option.split)

interpretation punching: event_system "punch_step resolve key" "punch_run resolve key" "\<lambda>_. True" attempt_ok for resolve key
  by unfold_locales (simp_all add: case_prod_unfold punch_step_ok)

lemma punch_step_fixed:
  "pa_session (fst (punch_step resolve key ev a)) = pa_session a \<and> pa_token (fst (punch_step resolve key ev a)) = pa_token a"
  by (cases ev) (auto simp: punch_receive_def confirm_def punch_finish_def split: sum.split option.split)

lemma punch_run_fixed:
  "pa_session (fst (punch_run resolve key evs a)) = pa_session a \<and> pa_token (fst (punch_run resolve key evs a)) = pa_token a"
  by (induction evs arbitrary: a) (simp_all add: case_prod_unfold punch_step_fixed)

text \<open>A peer is noted when an authentic probe or answer comes from it.\<close>

definition heard :: "u64 \<Rightarrow> bytes \<Rightarrow> AddrPort \<Rightarrow> punch_event \<Rightarrow> bool" where
  "heard sid token peer ev \<longleftrightarrow> (\<exists>packet rnd p. ev = PReceive packet peer rnd \<and> DecodePunchPacket packet token = Inr p
     \<and> pSessionID p = sid \<and> (pType p = PunchTypePunch \<or> pType p = PunchTypePunchAck) \<and> IsValid (ap_addr peer))"

lemma punch_step_confirms:
  "pa_confirmed (fst (punch_step resolve key ev a)) = Some peer \<Longrightarrow> pa_confirmed a \<noteq> Some peer \<Longrightarrow>
     heard (pa_session a) (pa_token a) peer ev \<and> pa_confirmed a = None"
  by (cases ev) (auto simp: heard_def punch_receive_def confirm_def punch_finish_def split: sum.splits option.splits if_splits)

section \<open>Properties\<close>

lemma NewPunchPacket_decodes:
  assumes "NewPunchPacket t sid key rnd = Inr p" "valid_punch_type t"
  shows "DecodePunchPacket (encode_punch p []) key = Inr p \<and> pSessionID p = sid \<and> pType p = t"
proof -
  obtain nonceBuf where "key \<noteq> []" "p = punch_packet t sid (be64 nonceBuf) key"
    using assms(1) NewPunchPacket_Inr by (cases rnd) (auto simp: NewPunchPacket_def split: if_splits)
  then show ?thesis using DecodePunchPacket_encode [of key t sid _ "[]" "[]"] assms(2) by (simp add: punch_packet_def)
qed

lemma punch_types [simp]: "valid_punch_type PunchTypePunch" "valid_punch_type PunchTypePunchAck" "PunchTypePunch \<noteq> PunchTypePunchAck"
  by (simp_all add: valid_punch_type_def) (simp add: punch_consts)

text \<open>
  A hole leads to someone who has the key. If an attempt ends with a peer, then in its run an authentic
  probe or answer with the number of the session came from just this address, the first such packet, and
  nothing that happens later changes the outcome.
\<close>

theorem punch_outcome_heard:
  assumes "punch_start resolve cands updates sid token d = (d', Inr a0)"
    "pa_outcome (fst (punch_run resolve key evs a0)) = Some (Punched peer)"
  shows "\<exists>es1 ev es2. evs = es1 @ ev # es2 \<and> heard sid token peer ev
    \<and> pa_confirmed (fst (punch_run resolve key es1 a0)) = None
    \<and> (\<forall>more. pa_outcome (fst (punch_run resolve key (evs @ more) a0)) = Some (Punched peer))"
proof -
  have a0: "attempt_ok a0" "pa_session a0 = sid" "pa_token a0 = token" "pa_confirmed a0 = None"
    using assms(1) by (auto simp: punch_start_def Let_def attempt_ok_def split: prod.splits sum.splits if_splits)
  let ?run = "\<lambda>es. fst (punch_run resolve key es a0)"
  have "attempt_ok (?run evs)" using punching.run_good [OF a0(1)] by (simp add: list_all_iff)
  then have "pa_confirmed (?run evs) = Some peer" using assms(2) by (simp add: attempt_ok_def)
  then obtain es1 ev es2 where es: "evs = es1 @ ev # es2" "pa_confirmed (?run es1) \<noteq> Some peer"
    "pa_confirmed (fst (punch_step resolve key ev (?run es1))) = Some peer"
    using punching.origin [where P = "\<lambda>a. pa_confirmed a = Some peer"] a0(4) by (metis option.distinct(1))
  have "heard sid token peer ev" "pa_confirmed (?run es1) = None"
    using punch_step_confirms [OF es(3,2)] punch_run_fixed [of resolve key es1 a0] a0 by simp_all
  moreover have "pa_outcome (?run (evs @ more)) = Some (Punched peer)" for more
  proof -
    have "pa_outcome a = Some (Punched peer) \<Longrightarrow> pa_outcome (fst (punch_step resolve key ev a)) = Some (Punched peer)" for ev a
      by (cases ev) (auto simp: punch_receive_def confirm_def split: sum.split)
    then have "pa_outcome a = Some (Punched peer) \<Longrightarrow> pa_outcome (fst (punch_run resolve key more a)) = Some (Punched peer)" for a
      by (induction more arbitrary: a) (simp_all add: case_prod_unfold)
    then show ?thesis using assms(2) by (simp add: punching.run_append)
  qed
  ultimately show ?thesis using es(1) by blast
qed

lemma probe_sent:
  assumes "(target, probe) \<in> set (snd (punch_step resolve key (PTick rnd) a))"
  shows "\<exists>p. NewPunchPacket PunchTypePunch (pa_session a) (pa_token a) rnd = Inr p \<and> probe = encode_punch p []"
  using assms by (cases "NewPunchPacket PunchTypePunch (pa_session a) (pa_token a) rnd")
    (auto simp: punch_tick_def send_packet_def split: if_splits)

lemma NewPunchPacket_total: "key \<noteq> [] \<Longrightarrow> \<exists>p. NewPunchPacket t sid key (Some r) = Inr p"
  by (simp add: NewPunchPacket_Inr)

lemma finishes:
  assumes "pa_success a = Some peer" "pa_outcome a = None" "pa_token a \<noteq> []"
  shows "pa_outcome (fst (punch_step resolve key (PFinish (Some r)) a)) = Some (Punched peer)"
  using assms NewPunchPacket_Inr [OF assms(3), of PunchTypePunchAck "pa_session a" r] by (simp add: punch_finish_def)

text \<open>
  C21: One delivered probe is enough for both sides. If a probe that one side sends reaches the other, which has
  noted no peer yet, and the answer to it reaches the first side, which has noted none either, then both end with the address
  that they saw the other's packet come from.
\<close>

theorem punch_meets:
  assumes "pa_session b = pa_session a" "pa_token b = pa_token a"
    "pa_confirmed a = None" "pa_receiving a" "pa_outcome a = None"
    "pa_confirmed b = None" "pa_receiving b" "pa_outcome b = None"
    "(target, probe) \<in> set (snd (punch_step resolve key (PTick r1) a))"
    "IsValid (ap_addr from_a)" "IsValid (ap_addr from_b)"
    "punch_step resolve key (PReceive probe from_a (Some r2)) b = (b', answers)"
  shows "\<exists>answer. answers = [(from_a, answer)]
    \<and> pa_outcome (fst (punch_run resolve key [PFinish (Some r3)] b')) = Some (Punched from_a)
    \<and> pa_outcome (fst (punch_run resolve key [PReceive answer from_b r4, PFinish (Some r5)] a)) = Some (Punched from_b)"
proof -
  obtain p where p: "NewPunchPacket PunchTypePunch (pa_session a) (pa_token a) r1 = Inr p" "probe = encode_punch p []"
    using probe_sent [OF assms(9)] by blast
  have tok: "pa_token a \<noteq> []" using p(1) by (auto simp: NewPunchPacket_def)
  obtain q where q: "NewPunchPacket PunchTypePunchAck (pa_session a) (pa_token a) (Some r2) = Inr q"
    using NewPunchPacket_total [OF tok] by blast
  note dp = NewPunchPacket_decodes [OF p(1)] and dq = NewPunchPacket_decodes [OF q]
  have b': "b' = confirm from_a b" "answers = [(from_a, encode_punch q [])]"
    using assms(1,2,7,10,12) dp q by (simp_all add: punch_receive_def p(2) send_packet_def confirm_def split: if_splits)
  have "pa_outcome (fst (punch_step resolve key (PFinish (Some r3)) b')) = Some (Punched from_a)"
    using assms(2,6,8) tok by (intro finishes) (simp_all add: b' confirm_def)
  moreover have "punch_step resolve key (PReceive (encode_punch q []) from_b r4) a = (confirm from_b a, [])"
    using assms(4,11) dq punch_types(3) [symmetric] by (simp add: punch_receive_def)
  moreover have "pa_outcome (fst (punch_step resolve key (PFinish (Some r5)) (confirm from_b a))) = Some (Punched from_b)"
    using assms(3,5) tok by (intro finishes) (simp_all add: confirm_def)
  ultimately show ?thesis using b'(2) by (simp add: case_prod_unfold del: punch_step.simps)
qed

text \<open>
  A reflected probe passes for the peer. The packets of the two sides of a session do not differ, so a
  probe that is sent back from any address makes the sender take this address for its peer, whoever is there.
\<close>

theorem reflected_probe_confirms:
  assumes "pa_confirmed a = None" "pa_receiving a" "pa_outcome a = None"
    "(target, probe) \<in> set (snd (punch_step resolve key (PTick r1) a))" "IsValid (ap_addr anyone)"
  shows "pa_outcome (fst (punch_run resolve key [PReceive probe anyone r2, PFinish (Some r3)] a)) = Some (Punched anyone)"
proof -
  obtain p where p: "NewPunchPacket PunchTypePunch (pa_session a) (pa_token a) r1 = Inr p" "probe = encode_punch p []"
    using probe_sent [OF assms(4)] by blast
  note dp = NewPunchPacket_decodes [OF p(1)]
  have "fst (punch_step resolve key (PReceive probe anyone r2) a) = confirm anyone a"
    using assms(2,5) dp by (simp add: punch_receive_def p(2))
  moreover have "pa_outcome (fst (punch_step resolve key (PFinish (Some r3)) (confirm anyone a))) = Some (Punched anyone)"
    using assms(1,3) p(1) by (intro finishes) (auto simp: confirm_def NewPunchPacket_def)
  ultimately show ?thesis by (simp add: case_prod_unfold del: punch_step.simps)
qed

text \<open>
  A data packet that the receiver takes before it notices that the attempt is over is neither answered nor
  handed on.
\<close>

lemma data_during_punch_lost:
  assumes "be32 (slice 0 4 packet) \<noteq> PunchMagic" "pa_token a \<noteq> []"
  shows "punch_step resolve key (PReceive packet remote rnd) a = (a, [])"
  using assms by (auto simp: punch_receive_def DecodePunchPacket_def Let_def)

section \<open>Reading through the result\<close>

text \<open>
  The result of an attempt reads the queue of its session. \<open>remaining\<close> is the time to the deadline, \<open>None\<close>
  for none; the timer has run out if \<open>expired\<close>, and of what is ready the code takes any one, here the
  packet unless \<open>timer_first\<close>. No result means that the reader waits.
\<close>

datatype read_error = ReadClosed | ReadTimeout

definition copyPacket :: "nat \<Rightarrow> UDPPacket \<Rightarrow> UDPDispatcher \<Rightarrow> UDPDispatcher \<times> bytes \<times> AddrPort" where
  "copyPacket room p d = (release_packet p d, take room (pk_Data d p), pk_Addr p)"

definition receive_packet :: "nat \<Rightarrow> nat \<Rightarrow> UDPDispatcher \<Rightarrow> UDPDispatcher \<times> (read_error + bytes \<times> AddrPort) option" where
  "receive_packet room ch d = (case fmlookup (d_chans d) ch of
     None \<Rightarrow> (d, None)
   | Some c \<Rightarrow> (case ch_queue c of
       p # ps \<Rightarrow> (case copyPacket room p (set_chan ch (c\<lparr>ch_queue := ps\<rparr>) d) of (d, got) \<Rightarrow> (d, Some (Inr got)))
     | [] \<Rightarrow> (d, if ch_open c then None else Some (Inl ReadClosed))))"

definition ReadFromUDPAddrPort ::
  "int option \<Rightarrow> bool \<Rightarrow> bool \<Rightarrow> nat \<Rightarrow> nat \<Rightarrow> UDPDispatcher \<Rightarrow> UDPDispatcher \<times> (read_error + bytes \<times> AddrPort) option" where
  "ReadFromUDPAddrPort remaining expired timer_first room ch d = (case remaining of
     None \<Rightarrow> receive_packet room ch d
   | Some wait \<Rightarrow>
       if wait \<le> 0 \<or> expired \<and> timer_first then (d, Some (Inl ReadTimeout))
       else (case receive_packet room ch d of
           (d, Some r) \<Rightarrow> (d, Some r)
         | (d, None) \<Rightarrow> (d, if expired then Some (Inl ReadTimeout) else None)))"

text \<open>A read is what a receiver does that takes a packet and frees it at once.\<close>

lemma reads_as_receiver:
  assumes "ReadFromUDPAddrPort remaining expired timer_first room ch d = (d', Some (Inr (data, addr)))" "d_held d = []"
  shows "\<exists>p. dispatch_run [DTake ch, DFree 0] d = (d', [Some p, None]) \<and> data = take room (pk_Data d p) \<and> addr = pk_Addr p"
proof -
  from assms(1) have "receive_packet room ch d = (d', Some (Inr (data, addr)))"
    by (auto simp: ReadFromUDPAddrPort_def split: option.splits if_splits prod.splits)
  then obtain c p ps where c: "fmlookup (d_chans d) ch = Some c" "ch_queue c = p # ps"
    and r: "copyPacket room p (set_chan ch (c\<lparr>ch_queue := ps\<rparr>) d) = (d', data, addr)"
    by (auto simp: receive_packet_def split: option.splits list.splits if_splits prod.splits)
  from r have "d' = release_packet p (set_chan ch (c\<lparr>ch_queue := ps\<rparr>) d)" "data = take room (pk_Data d p)" "addr = pk_Addr p"
    by (simp_all add: copyPacket_def pk_Data_def set_chan_def)
  then show ?thesis using c assms(2)
    by (simp add: take_packet_def free_packet_def release_packet_def PutLargeBuffer_def set_chan_def)
qed

section \<open>Two sides that meet\<close>

definition sample_attempt :: PunchAttempt where
  "sample_attempt = \<lparr>pa_session = 5, pa_token = [1], pa_targets = [\<lparr>ap_addr = V4 2, ap_port = 3\<rparr>], pa_updates = False,
     pa_success = None, pa_confirmed = None, pa_receiving = True, pa_outcome = None\<rparr>"

definition sample_peer :: AddrPort where
  "sample_peer = \<lparr>ap_addr = V4 1, ap_port = 4\<rparr>"

lemma sample_probe:
  "\<exists>p. NewPunchPacket PunchTypePunch 5 [1] (Some [0]) = Inr p
     \<and> snd (punch_step resolve key (PTick (Some [0])) sample_attempt) = [(\<lparr>ap_addr = V4 2, ap_port = 3\<rparr>, encode_punch p [])]"
  by (simp add: sample_attempt_def punch_tick_def send_packet_def NewPunchPacket_def Let_def)

lemma sample_attempt_facts:
  "pa_confirmed sample_attempt = None" "pa_receiving sample_attempt" "pa_outcome sample_attempt = None"
  "IsValid (ap_addr sample_peer)"
  by (simp_all add: sample_attempt_def sample_peer_def IsValid_def)

lemma sample_probe_sent:
  "\<exists>probe. (\<lparr>ap_addr = V4 2, ap_port = 3\<rparr>, probe) \<in> set (snd (punch_step resolve key (PTick (Some [0])) sample_attempt))"
  using sample_probe [of resolve key] by force

theorem punch_meets_witness:
  "\<exists>b' answer. pa_outcome (fst (punch_run (\<lambda>_. None) (\<lambda>_. []) [PFinish (Some [])] b')) = Some (Punched sample_peer)
    \<and> pa_outcome (fst (punch_run (\<lambda>_. None) (\<lambda>_. []) [PReceive answer sample_peer None, PFinish (Some [])] sample_attempt))
      = Some (Punched sample_peer)"
proof -
  obtain probe where probe: "(\<lparr>ap_addr = V4 2, ap_port = 3\<rparr>, probe) \<in> set (snd (punch_step (\<lambda>_. None) (\<lambda>_. []) (PTick (Some [0])) sample_attempt))"
    using sample_probe_sent by blast
  obtain b' answers where "punch_step (\<lambda>_. None) (\<lambda>_. []) (PReceive probe sample_peer (Some [0])) sample_attempt = (b', answers)"
    by (rule prod.exhaust)
  from punch_meets [OF refl refl sample_attempt_facts(1-3) sample_attempt_facts(1-3) probe sample_attempt_facts(4,4) this,
      where ?r3.0 = "[]" and ?r4.0 = None and ?r5.0 = "[]"]
  show ?thesis by (elim exE conjE) (intro exI conjI)
qed

theorem reflected_probe_confirms_witness:
  "\<exists>probe. pa_outcome (fst (punch_run (\<lambda>_. None) (\<lambda>_. []) [PReceive probe sample_peer None, PFinish (Some [])] sample_attempt))
    = Some (Punched sample_peer)"
proof -
  obtain probe where probe: "(\<lparr>ap_addr = V4 2, ap_port = 3\<rparr>, probe) \<in> set (snd (punch_step (\<lambda>_. None) (\<lambda>_. []) (PTick (Some [0])) sample_attempt))"
    using sample_probe_sent by blast
  from reflected_probe_confirms [OF sample_attempt_facts(1-3) probe sample_attempt_facts(4)] show ?thesis by blast
qed

theorem punch_outcome_heard_witness:
  "\<exists>probe d a0. snd (punch_start (\<lambda>_. Some sample_peer) [\<lparr>c_Protocol = ''udp'', c_Type = [], c_Address = [], c_Priority = 0\<rparr>] False 5 [1] d) = Inr a0
    \<and> (\<exists>ev\<in>{PReceive probe sample_peer None, PFinish (Some [])}. heard 5 [1] sample_peer ev)"
proof -
  let ?cands = "[\<lparr>c_Protocol = ''udp'', c_Type = [], c_Address = [], c_Priority = 0\<rparr>]" and ?r = "\<lambda>_ :: string. Some sample_peer"
  obtain d' a0 where s: "punch_start ?r ?cands False 5 [1] NewUDPDispatcher = (d', Inr a0)"
    by (simp add: punch_start_def Register_def NewUDPDispatcher_def resolveUDPCandidates_def Let_def map_filter_simps)
  then have a0: "pa_confirmed a0 = None" "pa_receiving a0" "pa_outcome a0 = None" "pa_session a0 = 5" "pa_token a0 = [1]"
    by (auto simp: punch_start_def Let_def split: prod.splits sum.splits if_splits)
  obtain p where p: "NewPunchPacket PunchTypePunch 5 [1] (Some [0]) = Inr p" using sample_probe by blast
  note dp = NewPunchPacket_decodes [OF p]
  have "pa_outcome (fst (punch_run ?r (\<lambda>_. []) [PReceive (encode_punch p []) sample_peer None, PFinish (Some [])] a0)) = Some (Punched sample_peer)"
    using a0 dp NewPunchPacket_Inr [of "[1]" PunchTypePunchAck 5 "[]"]
    by (simp add: punch_receive_def confirm_def punch_finish_def case_prod_unfold sample_peer_def IsValid_def)
  from punch_outcome_heard [OF s this] obtain es1 ev es2 where
    "[PReceive (encode_punch p []) sample_peer None, PFinish (Some [])] = es1 @ ev # es2" "heard 5 [1] sample_peer ev" by blast
  moreover from this(1) have "ev \<in> set [PReceive (encode_punch p []) sample_peer None, PFinish (Some [])]" by (metis in_set_conv_decomp)
  ultimately show ?thesis using s by (metis list.simps(15) set_empty2 snd_conv list.set(1))
qed

end
