(* ===== verification/P2p_Registry.thy ===== *)
theory P2p_Registry
  imports Control_Message Crypto Runs
begin

text \<open>
  The table of the controllers that an agent was told of, \<open>internal/agent/p2p_sessions.go\<close>. A session is an
  object: the goroutine that punches for it keeps it after it has left the table, so objects are numbers and
  the table maps session numbers to them. Contexts are numbers too, \<open>pr_done\<close> the parents that are done.
  Closing a closed channel and sending on one panic in Go and set a flag here. The replay window of a session is
  in \<open>P2p_Delivery\<close>.
\<close>

definition updatesCapacity :: nat where "updatesCapacity = 8"

record p2pSession =
  ps_id :: u32
  ps_controller :: string
  ps_token :: bytes
  ps_updates :: "CandidateInfo list list"
  ps_open :: bool
  ps_parent :: nat
  ps_cancelled :: bool

record p2pSessionRegistry =
  pr_sessions :: "(u32, nat) fmap"
  pr_objs :: "nat \<Rightarrow> p2pSession option"
  pr_next :: nat
  pr_done :: "nat fset"
  pr_panic :: bool

definition newP2PSessionRegistry :: p2pSessionRegistry where
  "newP2PSessionRegistry = \<lparr>pr_sessions = fmempty, pr_objs = (\<lambda>_. None), pr_next = 0, pr_done = {||}, pr_panic = False\<rparr>"

section \<open>Operations\<close>

definition set_session :: "nat \<Rightarrow> p2pSession \<Rightarrow> p2pSessionRegistry \<Rightarrow> p2pSessionRegistry" where
  "set_session n s r = r\<lparr>pr_objs := (pr_objs r)(n := Some s)\<rparr>"

text \<open>\<open>cancel\<close>, then \<open>close(updates)\<close>.\<close>

definition end_session :: "nat \<Rightarrow> p2pSessionRegistry \<Rightarrow> p2pSessionRegistry" where
  "end_session n r = (case pr_objs r n of
     None \<Rightarrow> r\<lparr>pr_panic := True\<rparr>
   | Some s \<Rightarrow> if ps_open s then set_session n (s\<lparr>ps_cancelled := True, ps_open := False\<rparr>) r
       else set_session n (s\<lparr>ps_cancelled := True\<rparr>) (r\<lparr>pr_panic := True\<rparr>))"

definition new_p2p_session :: "nat \<Rightarrow> ControlMessage \<Rightarrow> p2pSession" where
  "new_p2p_session parent msg = \<lparr>ps_id = m_SessionID msg, ps_controller = m_DeviceID msg,
     ps_token = string_bytes (m_SessionToken msg), ps_updates = [], ps_open = True, ps_parent = parent, ps_cancelled = False\<rparr>"

definition registry_register :: "nat \<Rightarrow> ControlMessage \<Rightarrow> p2pSessionRegistry \<Rightarrow> p2pSessionRegistry \<times> nat" where
  "registry_register parent msg r =
     (let n = pr_next r;
          r = (case fmlookup (pr_sessions r) (m_SessionID msg) of Some old \<Rightarrow> end_session old r | None \<Rightarrow> r);
          r = set_session n (new_p2p_session parent msg) r
      in (r\<lparr>pr_sessions := fmupd (m_SessionID msg) n (pr_sessions r), pr_next := n + 1\<rparr>, n))"

definition registry_remove :: "u32 \<Rightarrow> p2pSessionRegistry \<Rightarrow> p2pSessionRegistry" where
  "registry_remove sid r = (case fmlookup (pr_sessions r) sid of
     None \<Rightarrow> r
   | Some n \<Rightarrow> end_session n (r\<lparr>pr_sessions := fmdrop sid (pr_sessions r)\<rparr>))"

text \<open>\<open>close\<close>; \<open>ids\<close> is the iteration order of the table.\<close>

definition registry_close :: "u32 list \<Rightarrow> p2pSessionRegistry \<Rightarrow> p2pSessionRegistry" where
  "registry_close ids r = fold registry_remove ids r"

definition ctx_done :: "p2pSessionRegistry \<Rightarrow> p2pSession \<Rightarrow> bool" where
  "ctx_done r s \<longleftrightarrow> ps_cancelled s \<or> ps_parent s |\<in>| pr_done r"

definition registry_lookup :: "u64 \<Rightarrow> p2pSessionRegistry \<Rightarrow> bytes option" where
  "registry_lookup sid r = (case Option.bind (fmlookup (pr_sessions r) (ucast sid)) (pr_objs r) of
     None \<Rightarrow> None
   | Some s \<Rightarrow> if ucast (ps_id s) \<noteq> sid \<or> ctx_done r s then None else Some (ps_token s))"

text \<open>New candidates are handed to the attempt of the session, or dropped if eight lists wait already.\<close>

definition registry_update :: "u32 \<Rightarrow> CandidateInfo list \<Rightarrow> p2pSessionRegistry \<Rightarrow> p2pSessionRegistry \<times> bool" where
  "registry_update sid cands r = (case fmlookup (pr_sessions r) sid of
     None \<Rightarrow> (r, False)
   | Some n \<Rightarrow> (case pr_objs r n of
       None \<Rightarrow> (r, False)
     | Some s \<Rightarrow> (if \<not> ps_open s then r\<lparr>pr_panic := True\<rparr>
         else if length (ps_updates s) < updatesCapacity then set_session n (s\<lparr>ps_updates := ps_updates s @ [cands]\<rparr>) r
         else r, True)))"

definition registry_routes :: "u32 list \<Rightarrow> p2pSessionRegistry \<Rightarrow> (u32 \<times> string) list" where
  "registry_routes ids r = List.map_filter (\<lambda>sid. map_option (\<lambda>s. (ps_id s, ps_controller s))
     (Option.bind (fmlookup (pr_sessions r) sid) (pr_objs r))) ids"

text \<open>The attempt of a session takes a list.\<close>

definition take_update :: "nat \<Rightarrow> p2pSessionRegistry \<Rightarrow> p2pSessionRegistry" where
  "take_update n r = (case pr_objs r n of
     None \<Rightarrow> r
   | Some s \<Rightarrow> set_session n (s\<lparr>ps_updates := tl (ps_updates s)\<rparr>) r)"

text \<open>
  The control messages of the relay, \<open>controlMessageReader\<close> of \<open>internal/agent/client.go\<close>; \<open>parent\<close> is the context of
  the connection. A notice starts an attempt to punch for the session it registers, whose object is the result.
\<close>

definition controlMessageReader :: "nat \<Rightarrow> ControlMessage \<Rightarrow> p2pSessionRegistry \<Rightarrow> p2pSessionRegistry \<times> nat option" where
  "controlMessageReader parent msg r = (case m_Type msg of
     MsgTypeConnectNotify \<Rightarrow> (case registry_register parent msg r of (r, n) \<Rightarrow> (r, Some n))
   | MsgTypeCandidateExchange \<Rightarrow> (fst (registry_update (m_SessionID msg) (m_Candidates msg) r), None)
   | MsgTypeSessionClose \<Rightarrow> (registry_remove (m_SessionID msg) r, None)
   | _ \<Rightarrow> (r, None))"

section \<open>Runs\<close>

datatype registry_event =
    RRegister nat ControlMessage | RUpdate u32 "CandidateInfo list" | RRemove u32 | RClose "u32 list" | RTake nat | RDone nat

fun registry_step :: "registry_event \<Rightarrow> p2pSessionRegistry \<Rightarrow> p2pSessionRegistry \<times> unit" where
  "registry_step (RRegister parent msg) r = (fst (registry_register parent msg r), ())"
| "registry_step (RUpdate sid cands) r = (fst (registry_update sid cands r), ())"
| "registry_step (RRemove sid) r = (registry_remove sid r, ())"
| "registry_step (RClose ids) r = (registry_close ids r, ())"
| "registry_step (RTake n) r = (take_update n r, ())"
| "registry_step (RDone parent) r = (r\<lparr>pr_done := finsert parent (pr_done r)\<rparr>, ())"

fun registry_run :: "registry_event list \<Rightarrow> p2pSessionRegistry \<Rightarrow> p2pSessionRegistry \<times> unit list" where
  "registry_run [] r = (r, [])"
| "registry_run (ev # evs) r = (case registry_step ev r of
     (r, out) \<Rightarrow> (case registry_run evs r of (r, outs) \<Rightarrow> (r, out # outs)))"

section \<open>The promise\<close>

text \<open>What the agent was told, without objects and channels: who may connect, and which contexts are done.\<close>

record granted =
  gr_session :: "u32 \<Rightarrow> (nat \<times> string \<times> bytes) option"
  gr_done :: "nat set"

fun grant_step :: "registry_event \<Rightarrow> granted \<Rightarrow> granted" where
  "grant_step (RRegister parent msg) g = g\<lparr>gr_session := (gr_session g)(m_SessionID msg :=
     Some (parent, m_DeviceID msg, string_bytes (m_SessionToken msg)))\<rparr>"
| "grant_step (RRemove sid) g = g\<lparr>gr_session := (gr_session g)(sid := None)\<rparr>"
| "grant_step (RClose ids) g = g\<lparr>gr_session := (\<lambda>sid. if sid \<in> set ids then None else gr_session g sid)\<rparr>"
| "grant_step (RDone parent) g = g\<lparr>gr_done := insert parent (gr_done g)\<rparr>"
| "grant_step _ g = g"

definition no_grants :: granted where
  "no_grants = \<lparr>gr_session = (\<lambda>_. None), gr_done = {}\<rparr>"

definition grants :: "registry_event list \<Rightarrow> granted" where
  "grants evs = fold grant_step evs no_grants"

definition grants_of :: "p2pSessionRegistry \<Rightarrow> granted" where
  "grants_of r = \<lparr>gr_session = (\<lambda>sid. map_option (\<lambda>s. (ps_parent s, ps_controller s, ps_token s))
     (Option.bind (fmlookup (pr_sessions r) sid) (pr_objs r))), gr_done = fset (pr_done r)\<rparr>"

section \<open>The invariant\<close>

definition listed_ok :: "p2pSessionRegistry \<Rightarrow> u32 \<Rightarrow> nat \<Rightarrow> bool" where
  "listed_ok r sid n \<longleftrightarrow> (\<exists>s. pr_objs r n = Some s \<and> ps_id s = sid \<and> ps_open s \<and> \<not> ps_cancelled s)"

definition registry_ok :: "p2pSessionRegistry \<Rightarrow> bool" where
  "registry_ok r \<longleftrightarrow> \<not> pr_panic r \<and> (\<forall>sid n. fmlookup (pr_sessions r) sid = Some n \<longrightarrow> listed_ok r sid n)
     \<and> (\<forall>n s. pr_objs r n = Some s \<longrightarrow> n < pr_next r \<and> length (ps_updates s) \<le> updatesCapacity)"

lemma registry_ok_new: "registry_ok newP2PSessionRegistry"
  by (simp add: registry_ok_def newP2PSessionRegistry_def)

lemma listed:
  assumes "registry_ok r" "fmlookup (pr_sessions r) sid = Some n"
  obtains s where "pr_objs r n = Some s" "ps_id s = sid" "ps_open s" "\<not> ps_cancelled s"
  using assms by (auto simp: registry_ok_def listed_ok_def)

lemma listedD: "registry_ok r \<Longrightarrow> fmlookup (pr_sessions r) sid = Some n \<Longrightarrow> listed_ok r sid n"
  by (simp add: registry_ok_def)

lemma listed_one: "registry_ok r \<Longrightarrow> fmlookup (pr_sessions r) sid = Some n \<Longrightarrow> pr_objs r n = Some s \<Longrightarrow> ps_id s = sid"
  by (auto dest!: listedD simp: listed_ok_def)

lemma registry_ok_end:
  assumes "registry_ok r" "fmlookup (pr_sessions r) sid = Some n"
  shows "registry_ok (end_session n (r\<lparr>pr_sessions := fmdrop sid (pr_sessions r)\<rparr>))"
proof -
  obtain s where s: "pr_objs r n = Some s" "ps_id s = sid" "ps_open s" "\<not> ps_cancelled s"
    using assms by (rule listed)
  have "fmlookup (pr_sessions r) sid' = Some n \<Longrightarrow> sid' = sid" for sid'
    using listed_one [OF assms(1) _ s(1)] s(2) by blast
  then have "listed_ok (set_session n (s\<lparr>ps_cancelled := True, ps_open := False\<rparr>) r) sid' n'"
    if "fmlookup (pr_sessions r) sid' = Some n'" "sid' \<noteq> sid" for sid' n'
    using listedD [OF assms(1) that(1)] that by (auto simp: listed_ok_def set_session_def)
  then show ?thesis using assms(1) s
    by (simp add: registry_ok_def listed_ok_def end_session_def set_session_def)
qed

lemma registry_ok_remove: "registry_ok r \<Longrightarrow> registry_ok (registry_remove sid r)"
  using registry_ok_end by (simp add: registry_remove_def split: option.split)

lemma registry_ok_close: "registry_ok r \<Longrightarrow> registry_ok (registry_close ids r)"
  unfolding registry_close_def by (induction ids arbitrary: r) (simp_all add: registry_ok_remove)

text \<open>A registration ends the session of the number and lists a new one.\<close>

lemma end_session_fields [simp]: "pr_next (end_session n r) = pr_next r" "pr_done (end_session n r) = pr_done r"
    "pr_sessions (end_session n r) = pr_sessions r"
  by (simp_all add: end_session_def set_session_def split: option.split)

lemma end_session_sessions: "(end_session n r)\<lparr>pr_sessions := m\<rparr> = end_session n (r\<lparr>pr_sessions := m\<rparr>)"
  by (simp add: end_session_def set_session_def split: option.split)

lemma register_as_remove:
  "fst (registry_register parent msg r) = (let r' = registry_remove (m_SessionID msg) r in
     (set_session (pr_next r) (new_p2p_session parent msg) r')
       \<lparr>pr_sessions := fmupd (m_SessionID msg) (pr_next r) (pr_sessions r'), pr_next := pr_next r + 1\<rparr>)"
proof -
  have "fmupd k v (fmdrop k m) = fmupd k v m" for k :: u32 and v :: nat and m by (rule fmap_ext) simp
  then show ?thesis
    by (simp add: registry_register_def registry_remove_def Let_def end_session_def set_session_def split: option.split)
qed

lemma pr_next_remove [simp]: "pr_next (registry_remove sid r) = pr_next r" "pr_done (registry_remove sid r) = pr_done r"
  by (simp_all add: registry_remove_def split: option.split)

lemma registry_ok_register:
  assumes "registry_ok r"
  shows "registry_ok (fst (registry_register parent msg r))"
proof -
  have ok: "registry_ok (registry_remove (m_SessionID msg) r)" using assms by (rule registry_ok_remove)
  have "fmlookup (pr_sessions (registry_remove (m_SessionID msg) r)) sid = Some n \<Longrightarrow> n \<noteq> pr_next r" for sid n
    using ok listed [OF ok, of sid n] by (metis less_irrefl pr_next_remove(1) registry_ok_def)
  then have "listed_ok (set_session (pr_next r) (new_p2p_session parent msg) (registry_remove (m_SessionID msg) r)) sid n"
    if "fmlookup (pr_sessions (registry_remove (m_SessionID msg) r)) sid = Some n" for sid n
    using listedD [OF ok that] that by (auto simp: listed_ok_def set_session_def)
  then show ?thesis using ok
    by (simp add: register_as_remove Let_def registry_ok_def listed_ok_def set_session_def new_p2p_session_def less_Suc_eq)
qed

text \<open>Lists of candidates come and go.\<close>

lemma registry_ok_updates:
  assumes "registry_ok r" "pr_objs r n = Some s" "length us \<le> updatesCapacity"
  shows "registry_ok (set_session n (s\<lparr>ps_updates := us\<rparr>) r)"
proof -
  have "listed_ok (set_session n (s\<lparr>ps_updates := us\<rparr>) r) sid' n'" if "fmlookup (pr_sessions r) sid' = Some n'" for sid' n'
    using listedD [OF assms(1) that] assms(2) by (auto simp: listed_ok_def set_session_def)
  then show ?thesis using assms by (simp add: registry_ok_def set_session_def)
qed

lemma registry_ok_update:
  assumes "registry_ok r"
  shows "registry_ok (fst (registry_update sid cands r))"
proof (cases "fmlookup (pr_sessions r) sid")
  case (Some n)
  obtain s where "pr_objs r n = Some s" "ps_open s" using listed [OF assms Some] by metis
  then show ?thesis using assms registry_ok_updates [OF assms] by (simp add: registry_update_def Some)
qed (simp add: registry_update_def assms)

lemma registry_ok_take:
  assumes "registry_ok r"
  shows "registry_ok (take_update n r)"
proof (cases "pr_objs r n")
  case (Some s)
  then have "length (ps_updates s) \<le> updatesCapacity" using assms by (simp add: registry_ok_def)
  then have "length (tl (ps_updates s)) \<le> updatesCapacity" by simp
  from registry_ok_updates [OF assms Some this] show ?thesis by (simp add: take_update_def Some)
qed (simp add: take_update_def assms)

lemma registry_step_ok: "registry_ok r \<Longrightarrow> registry_ok (fst (registry_step ev r))"
proof (cases ev)
  case (RDone parent)
  then show "registry_ok r \<Longrightarrow> ?thesis" by (auto simp: registry_ok_def listed_ok_def)
qed (simp_all add: registry_ok_register registry_ok_update registry_ok_remove registry_ok_close registry_ok_take)

interpretation registry: event_system registry_step registry_run "\<lambda>_. True" registry_ok
  by unfold_locales (simp_all add: case_prod_unfold registry_step_ok)

section \<open>The table keeps the promise\<close>

lemma grants_of_remove:
  assumes "registry_ok r"
  shows "grants_of (registry_remove sid r) = grant_step (RRemove sid) (grants_of r)"
proof (cases "fmlookup (pr_sessions r) sid")
  case None
  then show ?thesis by (auto simp: registry_remove_def grants_of_def fun_eq_iff)
next
  case (Some n)
  obtain s where s: "pr_objs r n = Some s" "ps_id s = sid" "ps_open s" using listed [OF assms Some] by metis
  have one: "fmlookup (pr_sessions r) sid' = Some n \<Longrightarrow> sid' = sid" for sid'
    using listed_one [OF assms _ s(1)] s(2) by blast
  have "Option.bind (fmlookup (fmdrop sid (pr_sessions r)) sid') ((pr_objs r)(n \<mapsto> x))
      = (if sid' = sid then None else Option.bind (fmlookup (pr_sessions r) sid') (pr_objs r))" for sid' x
    by (cases "fmlookup (pr_sessions r) sid'") (auto dest: one)
  then show ?thesis using Some s
    by (simp add: registry_remove_def grants_of_def end_session_def set_session_def fun_eq_iff)
qed

lemma grants_of_close:
  assumes "registry_ok r"
  shows "grants_of (registry_close ids r) = grant_step (RClose ids) (grants_of r)"
  using assms
proof (induction ids arbitrary: r)
  case Nil
  then show ?case by (simp add: registry_close_def)
next
  case (Cons sid ids)
  then have "grants_of (registry_close ids (registry_remove sid r)) = grant_step (RClose ids) (grants_of (registry_remove sid r))"
    by (simp add: registry_ok_remove)
  then show ?case using grants_of_remove [OF Cons.prems, of sid] by (auto simp: registry_close_def fun_eq_iff)
qed

lemma grants_of_register:
  assumes "registry_ok r"
  shows "grants_of (fst (registry_register parent msg r)) = grant_step (RRegister parent msg) (grants_of r)"
proof -
  let ?r = "registry_remove (m_SessionID msg) r"
  have ok: "registry_ok ?r" using assms by (rule registry_ok_remove)
  have fresh: "fmlookup (pr_sessions ?r) sid = Some n \<Longrightarrow> n \<noteq> pr_next r" for sid n
    using ok listed [OF ok, of sid n] by (metis less_irrefl pr_next_remove(1) registry_ok_def)
  have "Option.bind (fmlookup (fmupd (m_SessionID msg) (pr_next r) (pr_sessions ?r)) sid) ((pr_objs ?r)(pr_next r \<mapsto> x))
      = (if sid = m_SessionID msg then Some x else Option.bind (fmlookup (pr_sessions ?r) sid) (pr_objs ?r))" for sid x
    using fresh [of sid] by (cases "fmlookup (pr_sessions ?r) sid") auto
  then have "grants_of (fst (registry_register parent msg r))
      = (grants_of ?r)\<lparr>gr_session := (gr_session (grants_of ?r))(m_SessionID msg :=
          Some (parent, m_DeviceID msg, string_bytes (m_SessionToken msg)))\<rparr>"
    by (simp add: register_as_remove Let_def grants_of_def set_session_def new_p2p_session_def fun_eq_iff)
  then show ?thesis using grants_of_remove [OF assms, of "m_SessionID msg"] by simp
qed

lemma grants_of_keep:
  assumes "pr_sessions r' = pr_sessions r" "pr_done r' = pr_done r"
    "\<And>n. map_option (\<lambda>s. (ps_parent s, ps_controller s, ps_token s)) (pr_objs r' n)
      = map_option (\<lambda>s. (ps_parent s, ps_controller s, ps_token s)) (pr_objs r n)"
  shows "grants_of r' = grants_of r"
proof -
  have "map_option (\<lambda>s. (ps_parent s, ps_controller s, ps_token s)) (Option.bind x (pr_objs r'))
      = map_option (\<lambda>s. (ps_parent s, ps_controller s, ps_token s)) (Option.bind x (pr_objs r))" for x
    using assms(3) by (cases x) simp_all
  then show ?thesis by (simp add: grants_of_def assms(1,2))
qed

lemma grants_step:
  assumes "registry_ok r"
  shows "grants_of (fst (registry_step ev r)) = grant_step ev (grants_of r)"
proof (cases ev)
  case (RUpdate sid cands)
  have "grants_of (fst (registry_update sid cands r)) = grants_of r"
    by (rule grants_of_keep) (auto simp: registry_update_def set_session_def split: option.split)
  then show ?thesis by (simp add: RUpdate)
next
  case (RTake n)
  have "grants_of (take_update n r) = grants_of r"
    by (rule grants_of_keep) (auto simp: take_update_def set_session_def split: option.split)
  then show ?thesis by (simp add: RTake)
next
  case (RDone parent)
  then show ?thesis by (simp add: grants_of_def)
next
  case (RRegister parent msg)
  then show ?thesis using grants_of_register [OF assms] by (simp only: registry_step.simps fst_conv)
next
  case (RRemove sid)
  then show ?thesis using grants_of_remove [OF assms] by (simp only: registry_step.simps fst_conv)
next
  case (RClose ids)
  then show ?thesis using grants_of_close [OF assms] by (simp only: registry_step.simps fst_conv)
qed

lemma grants_run:
  assumes "registry_ok r"
  shows "grants_of (fst (registry_run evs r)) = fold grant_step evs (grants_of r)"
  using assms
proof (induction evs arbitrary: r)
  case (Cons ev evs)
  then have "grants_of (fst (registry_run evs (fst (registry_step ev r)))) = fold grant_step evs (grants_of (fst (registry_step ev r)))"
    using registry_step_ok by blast
  then show ?case by (simp add: case_prod_unfold grants_step [OF Cons.prems] del: registry_step.simps)
qed simp

section \<open>Properties\<close>

lemma ucast_fits: "ucast (ucast (sid :: u64) :: u32) = sid \<longleftrightarrow> sid \<le> 0xffffffff"
proof -
  have "unat (ucast (ucast sid :: u32) :: u64) = unat sid mod 2 ^ 32"
    by (simp add: unsigned_ucast_eq unsigned_take_bit_eq) (simp add: take_bit_eq_mod)
  then have "ucast (ucast sid :: u32) = sid \<longleftrightarrow> unat sid mod 2 ^ 32 = unat sid" by (metis word_unat_eq_iff)
  also have "\<dots> \<longleftrightarrow> unat sid < 2 ^ 32" by (metis mod_less mod_less_divisor zero_less_numeral zero_less_power)
  also have "\<dots> \<longleftrightarrow> sid \<le> 0xffffffff" by (auto simp: word_le_nat_alt)
  finally show ?thesis .
qed

lemma registry_lookup_grants:
  "registry_lookup sid (fst (registry_run evs newP2PSessionRegistry)) = Some token \<longleftrightarrow>
     sid \<le> 0xffffffff \<and> (\<exists>parent controller. gr_session (grants evs) (ucast sid) = Some (parent, controller, token)
       \<and> parent \<notin> gr_done (grants evs))"
proof -
  let ?r = "fst (registry_run evs newP2PSessionRegistry)"
  have ok: "registry_ok ?r" using registry.run_good [OF registry_ok_new list_all_True] by simp
  have "grants_of newP2PSessionRegistry = no_grants" by (simp add: grants_of_def newP2PSessionRegistry_def no_grants_def)
  then have g: "grants_of ?r = grants evs" using grants_run [OF registry_ok_new] by (simp add: grants_def)
  have fit: "ucast (ucast sid :: u32) = sid \<longleftrightarrow> sid \<le> 0xffffffff" by (rule ucast_fits)
  show ?thesis
  proof (cases "fmlookup (pr_sessions ?r) (ucast sid)")
    case None
    then have "gr_session (grants evs) (ucast sid) = None" by (simp add: g [symmetric] grants_of_def)
    then show ?thesis using None by (simp add: registry_lookup_def)
  next
    case (Some n)
    obtain s where s: "pr_objs ?r n = Some s" "ps_id s = ucast sid" "\<not> ps_cancelled s" using listed [OF ok Some] by metis
    have "gr_session (grants evs) (ucast sid) = Some (ps_parent s, ps_controller s, ps_token s)"
      "gr_done (grants evs) = fset (pr_done ?r)"
      using Some s(1) by (simp_all add: g [symmetric] grants_of_def)
    then show ?thesis using Some s fit by (auto simp: registry_lookup_def ctx_done_def)
  qed
qed

text \<open>
  C25: The table implements its promise. After any run, a session number is answered with a token exactly when
  the number fits in 32 bits, the last registration of it was not removed or closed since, and neither its own
  context nor that of its connection is done; the token is that of this registration.
\<close>

theorem registry_refines:
  "registry_lookup sid (fst (registry_run evs newP2PSessionRegistry)) = Some token \<longleftrightarrow>
     sid \<le> 0xffffffff \<and> (\<exists>parent controller. gr_session (grants evs) (ucast sid) = Some (parent, controller, token)
       \<and> parent \<notin> gr_done (grants evs))"
  by (rule registry_lookup_grants)

text \<open>
  C26: The table is well typed. After any run every number in the table leads to an object that exists, is of this
  number, has an open channel and was not cancelled, so that no channel is closed twice or written to when
  closed, which would panic; and no channel holds more than its eight lists of candidates.
\<close>

theorem registry_well_typed:
  "let r = fst (registry_run evs newP2PSessionRegistry) in
     (case fmlookup (pr_sessions r) sid of None \<Rightarrow> True
       | Some n \<Rightarrow> (\<exists>s. pr_objs r n = Some s \<and> ps_id s = sid \<and> ps_open s \<and> \<not> ps_cancelled s))
     \<and> (case pr_objs r n' of None \<Rightarrow> True | Some s \<Rightarrow> n' < pr_next r \<and> length (ps_updates s) \<le> updatesCapacity)
     \<and> \<not> pr_panic r"
proof -
  have ok: "registry_ok (fst (registry_run evs newP2PSessionRegistry))"
    using registry.run_good [OF registry_ok_new list_all_True] .
  then show ?thesis using listedD [OF ok, of sid]
    by (auto simp: Let_def registry_ok_def listed_ok_def split: option.split)
qed

end
