(* ===== verification/Guard_Slots.thy ===== *)
theory Guard_Slots
  imports Ip_Guard
begin

text \<open>
  Who holds the slots of a guard. A component that takes a slot per connection keeps, for each connection, the
  ticket and the key it got; \<open>slots_ok\<close> says that these are exactly the tickets the guard has given out.
  The relay's connections and the agent's direct connections are accounted for in this way.
\<close>

definition slots_ok :: "IPGuard \<Rightarrow> (nat \<Rightarrow> (nat \<times> string) option) \<Rightarrow> bool" where
  "slots_ok g sl \<longleftrightarrow> guard_ok g \<and> (\<forall>t key. fmlookup (tickets g) t = Some key \<longleftrightarrow> (\<exists>c. sl c = Some (t, key)))
     \<and> (\<forall>c c' t key key'. sl c = Some (t, key) \<and> sl c' = Some (t, key') \<longrightarrow> c = c')"

lemma tickets_release: "tickets (release now t g) = fmdrop t (tickets g)"
  by (auto simp: release_def Let_def fmdrop_idle split: option.split)

lemma slots_release:
  assumes "slots_ok g sl" "sl c = Some (t, key)"
  shows "slots_ok (release now t g) (sl(c := None))"
  unfolding slots_ok_def
proof (intro conjI allI impI)
  show "guard_ok (release now t g)" using assms(1) by (simp add: slots_ok_def invs)
next
  fix t' key'
  have held: "fmlookup (tickets g) t' = Some key' \<longleftrightarrow> (\<exists>c. sl c = Some (t', key'))"
    and inj: "sl c' = Some (t, k') \<Longrightarrow> c' = c" for c' k'
    using assms unfolding slots_ok_def by blast+
  show "fmlookup (tickets (release now t g)) t' = Some key' \<longleftrightarrow> (\<exists>c'. (sl(c := None)) c' = Some (t', key'))"
  proof (cases "t' = t")
    case True
    then show ?thesis using inj by (auto simp: tickets_release split: if_splits)
  next
    case False
    have "(\<exists>c'. (sl(c := None)) c' = Some (t', key')) \<longleftrightarrow> (\<exists>c'. sl c' = Some (t', key'))"
      using assms(2) False by (metis fun_upd_apply option.distinct(1) option.inject prod.inject)
    then show ?thesis using held False by (simp add: tickets_release)
  qed
next
  fix c1 c2 t' k1 k2
  assume "(sl(c := None)) c1 = Some (t', k1) \<and> (sl(c := None)) c2 = Some (t', k2)"
  then show "c1 = c2" using assms(1) unfolding slots_ok_def by (metis fun_upd_apply option.distinct(1))
qed

lemma Acquire_tickets:
  assumes "Acquire now addr g = (g', r)"
  shows "case r of None \<Rightarrow> tickets g' = tickets g
    | Some t \<Rightarrow> t = nextTicket g \<and> tickets g' = fmupd t (addressKey addr) (tickets g)"
  using assms by (auto simp: Acquire_prepared Let_def split: if_splits)

lemma slots_acquire:
  assumes "slots_ok g sl" "Acquire now addr g = (g', Some t)" "sl c = None"
  shows "slots_ok g' (sl(c := Some (t, addressKey addr)))"
proof -
  have g: "guard_ok g" and held: "fmlookup (tickets g) t' = Some key' \<longleftrightarrow> (\<exists>c. sl c = Some (t', key'))" for t' key'
    using assms(1) unfolding slots_ok_def by blast+
  have t: "t = nextTicket g" "tickets g' = fmupd t (addressKey addr) (tickets g)"
    using Acquire_tickets [OF assms(2)] by simp_all
  have fresh: "fmlookup (tickets g) t = None" using g t(1) by (force simp: guard_ok_def)
  then have new: "sl c' \<noteq> Some (t, k)" for c' k using held by (metis option.distinct(1))
  show ?thesis
    unfolding slots_ok_def
  proof (intro conjI allI impI)
    show "guard_ok g'" using Acquire_ok [OF g, of now addr] assms(2) by simp
  next
    fix t' key'
    show "fmlookup (tickets g') t' = Some key' \<longleftrightarrow> (\<exists>c'. (sl(c := Some (t, addressKey addr))) c' = Some (t', key'))"
    proof (cases "t' = t")
      case True
      then show ?thesis using new by (auto simp: t(2))
    next
      case False
      have "(\<exists>c'. (sl(c := Some (t, addressKey addr))) c' = Some (t', key')) \<longleftrightarrow> (\<exists>c'. sl c' = Some (t', key'))"
        using assms(3) False by (metis fun_upd_apply option.distinct(1) option.inject prod.inject)
      then show ?thesis using held [of t' key'] False by (simp add: t(2))
    qed
  next
    fix c1 c2 t' k1 k2
    assume h: "(sl(c := Some (t, addressKey addr))) c1 = Some (t', k1) \<and> (sl(c := Some (t, addressKey addr))) c2 = Some (t', k2)"
    show "c1 = c2"
    proof (cases "c1 = c \<or> c2 = c")
      case True
      then show ?thesis using h new by (auto split: if_splits)
    next
      case False
      then show ?thesis using h assms(1) unfolding slots_ok_def by (metis fun_upd_apply)
    qed
  qed
qed

lemma slots_refused:
  assumes "slots_ok g sl" "Acquire now addr g = (g', None)"
  shows "slots_ok g' sl"
proof -
  have "guard_ok g'" using Acquire_ok [of g now addr] assms by (simp add: slots_ok_def)
  moreover have "tickets g' = tickets g" using Acquire_tickets [OF assms(2)] by simp
  ultimately show ?thesis using assms(1) by (simp add: slots_ok_def)
qed

lemma holders_card: "holders key g = card {t. fmlookup (tickets g) t = Some key}"
proof -
  let ?D = "fset (fmdom (tickets g))"
  have "holders key g = (\<Sum>t\<in>?D. if the (fmlookup (tickets g) t) = key then 1 else 0)"
    by (simp add: holders_def fmsum_def)
  also have "\<dots> = card {t\<in>?D. the (fmlookup (tickets g) t) = key}" by (simp add: sum.If_cases Int_def)
  also have "{t\<in>?D. the (fmlookup (tickets g) t) = key} = {t. fmlookup (tickets g) t = Some key}"
    by (auto simp: fmlookup_dom'_iff fmlookup_dom_iff)
  finally show ?thesis .
qed

lemma slots_card:
  assumes "slots_ok g sl"
  shows "card {c. \<exists>t. sl c = Some (t, key)} = holders key g"
proof -
  let ?f = "\<lambda>c. fst (the (sl c))"
  have held: "fmlookup (tickets g) t = Some key' \<longleftrightarrow> (\<exists>c. sl c = Some (t, key'))"
    and inj: "sl c = Some (t, k) \<Longrightarrow> sl c' = Some (t, k') \<Longrightarrow> c = c'" for t key' c c' k k'
    using assms unfolding slots_ok_def by blast+
  have "bij_betw ?f {c. \<exists>t. sl c = Some (t, key)} {t. fmlookup (tickets g) t = Some key}"
  proof (rule bij_betw_imageI)
    show "inj_on ?f {c. \<exists>t. sl c = Some (t, key)}" using inj by (auto simp: inj_on_def)
    show "?f ` {c. \<exists>t. sl c = Some (t, key)} = {t. fmlookup (tickets g) t = Some key}"
    proof (intro set_eqI iffI)
      fix t assume "t \<in> ?f ` {c. \<exists>t. sl c = Some (t, key)}"
      then obtain c t' where "sl c = Some (t', key)" "t = ?f c" by auto
      then show "t \<in> {t. fmlookup (tickets g) t = Some key}" using held by auto
    next
      fix t assume "t \<in> {t. fmlookup (tickets g) t = Some key}"
      then obtain c where "sl c = Some (t, key)" using held by blast
      then show "t \<in> ?f ` {c. \<exists>t. sl c = Some (t, key)}" by (intro image_eqI [of _ _ c]) auto
    qed
  qed
  then show ?thesis using bij_betw_same_card holders_card by metis
qed

lemma Acquire_bound: "maxConcurrent (fst (Acquire t addr g)) = maxConcurrent g"
  by (simp add: Acquire_prepared Let_def)

lemma release_bound: "maxConcurrent (release now t g) = maxConcurrent g"
  by (simp add: release_def Let_def split: option.split)

text \<open>The connections of a key are what the guard counts, within its bound.\<close>

lemma slots_count:
  assumes "slots_ok g sl"
  shows "card {c. \<exists>t. sl c = Some (t, key)} = active_of key g \<and> active_of key g \<le> maxConcurrent g"
  using assms slots_card [OF assms, of key] by (simp add: slots_ok_def guard_ok_def)

end
