(* ===== verification/Direct_Tcp.thy ===== *)
theory Direct_Tcp
  imports P2p_Registry Guard_Slots
begin

text \<open>
  Direct TCP connections: the handshake by which the two sides show each other that they know the token of their
  session, \<open>internal/punch/tcp_punch.go\<close>; the race of the connecting side, \<open>dialTCPAuth\<close>; and the
  accepting side of the agent, \<open>internal/agent/direct_tcp.go\<close>. What a connection will deliver is a list of
  bytes, the result says what is left of it; that a deadline passes or the peer goes shows as an end
  of this list. A write that fails ends the handshake.
\<close>

definition tcpChallengeSize :: nat where "tcpChallengeSize = 16"
definition tcpRoleClient :: u8 where "tcpRoleClient = 1"
definition tcpRoleServer :: u8 where "tcpRoleServer = 2"
definition tcpRoleProbe :: u8 where "tcpRoleProbe = 3"
definition tcpRoleProbeAck :: u8 where "tcpRoleProbeAck = 4"

lemmas tcp_roles = tcpRoleClient_def tcpRoleServer_def tcpRoleProbe_def tcpRoleProbeAck_def

datatype tcp_auth_error = ErrTCPAuthFailed | ErrTCPUnknownSession | ErrTCPProbe u64 | TcpIO io_error | NoRandomness | TcpDone

section \<open>The handshake\<close>

definition tag_message :: "u64 \<Rightarrow> u8 \<Rightarrow> bytes \<Rightarrow> bytes" where
  "tag_message sid role challenge = [role] @ put_be64 sid @ challenge"

definition tcpAuthTag :: "u64 \<Rightarrow> bytes \<Rightarrow> u8 \<Rightarrow> bytes \<Rightarrow> bytes" where
  "tcpAuthTag sid token role challenge = put_be64 sid @ take 16 (hmac_sha256 token (tag_message sid role challenge))"

definition answer_role :: "u8 \<Rightarrow> u8" where
  "answer_role role = (if role = tcpRoleProbe then tcpRoleProbeAck else tcpRoleServer)"

text \<open>The connecting side: what it writes, and what it makes of the bytes that come. \<open>live\<close>: its context is not done.\<close>

definition authenticateTCPPeer ::
  "u64 \<Rightarrow> bytes \<Rightarrow> u8 \<Rightarrow> bool \<Rightarrow> bool \<Rightarrow> bytes \<Rightarrow> bytes \<times> (tcp_auth_error + bytes)" where
  "authenticateTCPPeer sid token role live written incoming =
     (if \<not> live then ([], Inl TcpDone)
      else if token = [] then ([], Inl ErrTCPAuthFailed)
      else (case read_full tcpChallengeSize incoming of
          Inl e \<Rightarrow> ([], Inl (TcpIO e))
        | Inr (challenge, rest) \<Rightarrow>
            if \<not> written then ([], Inl (TcpIO ErrClosed))
            else (tcpAuthTag sid token role challenge, (case read_full 24 rest of
                Inl e \<Rightarrow> Inl (TcpIO e)
              | Inr (peerAuth, rest) \<Rightarrow>
                  if be64 (slice 0 8 peerAuth) \<noteq> sid then Inl ErrTCPAuthFailed
                  else if \<not> hmac_equal peerAuth (tcpAuthTag sid token (answer_role role) challenge) then Inl ErrTCPAuthFailed
                  else Inr rest))))"

text \<open>The accepting side; \<open>lookup\<close> gives the token of a session.\<close>

definition AcceptTCPPeer ::
  "bytes option \<Rightarrow> (u64 \<Rightarrow> bytes option) \<Rightarrow> bool \<Rightarrow> bool \<Rightarrow> bytes \<Rightarrow> bytes \<times> (tcp_auth_error + u64 \<times> bytes)" where
  "AcceptTCPPeer rnd lookup written1 written2 incoming = (case rnd of
     None \<Rightarrow> ([], Inl NoRandomness)
   | Some challenge \<Rightarrow>
       if \<not> written1 then ([], Inl (TcpIO ErrClosed))
       else (case read_full 24 incoming of
           Inl e \<Rightarrow> (challenge, Inl (TcpIO e))
         | Inr (peerAuth, rest) \<Rightarrow>
             let sid = be64 (slice 0 8 peerAuth) in
             (case lookup sid of
               None \<Rightarrow> (challenge, Inl ErrTCPUnknownSession)
             | Some token \<Rightarrow>
                 if token = [] then (challenge, Inl ErrTCPUnknownSession)
                 else if hmac_equal peerAuth (tcpAuthTag sid token tcpRoleClient challenge)
                 then (if written2 then (challenge @ tcpAuthTag sid token tcpRoleServer challenge, Inr (sid, rest))
                       else (challenge, Inl (TcpIO ErrClosed)))
                 else if hmac_equal peerAuth (tcpAuthTag sid token tcpRoleProbe challenge)
                 then (if written2 then (challenge @ tcpAuthTag sid token tcpRoleProbeAck challenge, Inl (ErrTCPProbe sid))
                       else (challenge, Inl (TcpIO ErrClosed)))
                 else (challenge, Inl ErrTCPAuthFailed))))"

lemma length_tcpAuthTag [simp]: "length (tcpAuthTag sid token role challenge) = 24"
  by (simp add: tcpAuthTag_def)

lemma tag_session [simp]: "be64 (slice 0 8 (tcpAuthTag sid token role challenge)) = sid"
  by (simp add: tcpAuthTag_def slice_def)

lemma tag_message_inject:
  "tag_message sid role challenge = tag_message sid' role' challenge' \<longleftrightarrow> sid = sid' \<and> role = role' \<and> challenge = challenge'"
proof -
  have "put_be64 sid @ challenge = put_be64 sid' @ challenge' \<longleftrightarrow> put_be64 sid = put_be64 sid' \<and> challenge = challenge'"
    by (rule append_eq_append_conv) simp
  moreover have "put_be64 sid = put_be64 sid' \<longleftrightarrow> sid = sid'" by (metis be64_put_be64)
  ultimately show ?thesis by (auto simp: tag_message_def)
qed

text \<open>What each side reads and writes when all goes well.\<close>

lemma client_writes:
  assumes "token \<noteq> []" "length challenge = tcpChallengeSize"
  shows "fst (authenticateTCPPeer sid token role True True (challenge @ later)) = tcpAuthTag sid token role challenge"
  using assms by (simp add: authenticateTCPPeer_def)


lemma accept_outcome:
  assumes "AcceptTCPPeer (Some challenge) lookup w1 w2 incoming = (out, r)"
  shows "r = Inr (sid, rest) \<longleftrightarrow> w1 \<and> w2 \<and> (\<exists>token. lookup sid = Some token \<and> token \<noteq> []
      \<and> incoming = tcpAuthTag sid token tcpRoleClient challenge @ rest)"
    and "r = Inr (sid, rest) \<Longrightarrow> lookup sid = Some token \<Longrightarrow> out = challenge @ tcpAuthTag sid token tcpRoleServer challenge"
proof -
  show "r = Inr (sid, rest) \<longleftrightarrow> w1 \<and> w2 \<and> (\<exists>token. lookup sid = Some token \<and> token \<noteq> []
      \<and> incoming = tcpAuthTag sid token tcpRoleClient challenge @ rest)" (is "?l \<longleftrightarrow> ?r")
  proof
    assume ?l
    then show ?r using assms
      by (auto simp: AcceptTCPPeer_def hmac_equal_def read_full_Inr Let_def split: sum.splits if_splits prod.splits option.splits)
  next
    assume ?r
    then show ?l using assms by (auto simp: AcceptTCPPeer_def)
  qed
  show "r = Inr (sid, rest) \<Longrightarrow> lookup sid = Some token \<Longrightarrow> out = challenge @ tcpAuthTag sid token tcpRoleServer challenge"
    using assms
    by (auto simp: AcceptTCPPeer_def Let_def split: sum.splits if_splits prod.splits option.splits)
qed

text \<open>
  The two sides agree. When the accepting side knows the token of the session, a client that writes its tag for
  the challenge it reads gets the answer it expects, both sides are left at the first byte of data of the other, and
  the accepting side has the session of the client; a probe gets its answer too and is reported as a probe, unless
  the hash of its message collides with that of a client.
\<close>

theorem tcp_handshake:
  assumes "lookup sid = Some token" "token \<noteq> []" "length challenge = tcpChallengeSize"
    "role = tcpRoleClient \<or> role = tcpRoleProbe \<and> tcpAuthTag sid token role challenge \<noteq> tcpAuthTag sid token tcpRoleClient challenge"
    "sent = fst (authenticateTCPPeer sid token role True True challenge)"
    "AcceptTCPPeer (Some challenge) lookup True True (sent @ data) = (answer, r)"
  shows "authenticateTCPPeer sid token role True True (answer @ data') = (sent, Inr data')
    \<and> r = (if role = tcpRoleClient then Inr (sid, data) else Inl (ErrTCPProbe sid))"
proof -
  have sent: "sent = tcpAuthTag sid token role challenge"
    using client_writes [OF assms(2,3), of sid role "[]"] assms(5) by simp
  have "answer = challenge @ tcpAuthTag sid token (answer_role role) challenge
    \<and> r = (if role = tcpRoleClient then Inr (sid, data) else Inl (ErrTCPProbe sid))"
    using assms(1,2,4,6) by (auto simp: AcceptTCPPeer_def sent hmac_equal_def answer_role_def tcp_roles)
  then show ?thesis using assms(2,3) by (simp add: authenticateTCPPeer_def sent)
qed


text \<open>
  Whoever has seen what an accepting side wrote to a client of a session can write it again, and every later
  client of the session takes him for the agent, without the token.
\<close>

lemma tcp_transcript_replays:
  assumes "AcceptTCPPeer (Some challenge) lookup w1 w2 incoming = (answer, Inr (sid, data))" "length challenge = tcpChallengeSize"
    "lookup sid = Some token"
  shows "\<exists>sent. authenticateTCPPeer sid token tcpRoleClient True True (answer @ forged) = (sent, Inr forged)"
proof -
  have "token \<noteq> []" using accept_outcome(1) [OF assms(1), of sid data] assms(3) by auto
  moreover have "answer = challenge @ tcpAuthTag sid token tcpRoleServer challenge"
    using accept_outcome(2) [OF assms(1) refl assms(3)] .
  ultimately show ?thesis using assms(2) by (simp add: authenticateTCPPeer_def answer_role_def tcp_roles)
qed

section \<open>The accepting side of the agent\<close>

definition maxConcurrentDirectTCPHandshakes :: nat where "maxConcurrentDirectTCPHandshakes = 64"

datatype direct_end = Bridged u64 bytes | NoService u64 | Refused tcp_auth_error

text \<open>What becomes of one connection; \<open>dialled\<close>: the local service answers.\<close>

definition handleDirectTCP ::
  "bytes option \<Rightarrow> p2pSessionRegistry \<Rightarrow> bool \<Rightarrow> bool \<Rightarrow> bool \<Rightarrow> bytes \<Rightarrow> bytes \<times> direct_end" where
  "handleDirectTCP rnd r written1 written2 dialled incoming =
     (case AcceptTCPPeer rnd (\<lambda>sid. registry_lookup sid r) written1 written2 incoming of
        (out, Inl e) \<Rightarrow> (out, Refused e)
      | (out, Inr (sid, rest)) \<Rightarrow> (out, if dialled then Bridged sid rest else NoService sid))"

text \<open>The connections that are handled hold a slot of their address; those that leave still hold one of the semaphore.\<close>

datatype direct_conn = Handling nat string | Leaving

record DirectListener =
  dl_guard :: IPGuard
  dl_conns :: "(nat, direct_conn) fmap"
  dl_sem :: nat
  dl_next :: nat

definition new_listener :: DirectListener where
  "new_listener = \<lparr>dl_guard = NewIPGuard 8 30 (60 * second), dl_conns = fmempty, dl_sem = 0, dl_next = 0\<rparr>"

definition accept_direct :: "time \<Rightarrow> string option \<Rightarrow> DirectListener \<Rightarrow> DirectListener" where
  "accept_direct now addr l = (case Acquire now addr (dl_guard l) of
     (g, None) \<Rightarrow> l\<lparr>dl_guard := g\<rparr>
   | (g, Some t) \<Rightarrow>
       if dl_sem l < maxConcurrentDirectTCPHandshakes
       then l\<lparr>dl_guard := g, dl_sem := dl_sem l + 1, dl_next := dl_next l + 1,
           dl_conns := fmupd (dl_next l) (Handling t (addressKey addr)) (dl_conns l)\<rparr>
       else l\<lparr>dl_guard := release now t g\<rparr>)"

text \<open>The deferred calls, in their order: the slot of the address, then the semaphore.\<close>

definition release_address :: "time \<Rightarrow> nat \<Rightarrow> DirectListener \<Rightarrow> DirectListener" where
  "release_address now c l = (case fmlookup (dl_conns l) c of
     Some (Handling t key) \<Rightarrow> l\<lparr>dl_guard := release now t (dl_guard l), dl_conns := fmupd c Leaving (dl_conns l)\<rparr>
   | _ \<Rightarrow> l)"

definition release_semaphore :: "nat \<Rightarrow> DirectListener \<Rightarrow> DirectListener" where
  "release_semaphore c l = (case fmlookup (dl_conns l) c of
     Some Leaving \<Rightarrow> l\<lparr>dl_sem := dl_sem l - 1, dl_conns := fmdrop c (dl_conns l)\<rparr>
   | _ \<Rightarrow> l)"

datatype listener_event = LAccept time "string option" | LReleaseAddress time nat | LReleaseSemaphore nat

fun listener_step :: "listener_event \<Rightarrow> DirectListener \<Rightarrow> DirectListener \<times> unit" where
  "listener_step (LAccept now addr) l = (accept_direct now addr l, ())"
| "listener_step (LReleaseAddress now c) l = (release_address now c l, ())"
| "listener_step (LReleaseSemaphore c) l = (release_semaphore c l, ())"

fun listener_run :: "listener_event list \<Rightarrow> DirectListener \<Rightarrow> DirectListener \<times> unit list" where
  "listener_run [] l = (l, [])"
| "listener_run (ev # evs) l = (case listener_step ev l of
     (l, out) \<Rightarrow> (case listener_run evs l of (l, outs) \<Rightarrow> (l, out # outs)))"

definition conn_slots :: "DirectListener \<Rightarrow> nat \<Rightarrow> (nat \<times> string) option" where
  "conn_slots l c = (case fmlookup (dl_conns l) c of Some (Handling t key) \<Rightarrow> Some (t, key) | _ \<Rightarrow> None)"

definition listener_ok :: "DirectListener \<Rightarrow> bool" where
  "listener_ok l \<longleftrightarrow> slots_ok (dl_guard l) (conn_slots l) \<and> maxConcurrent (dl_guard l) = 8
     \<and> fsize (dl_conns l) = dl_sem l \<and> dl_sem l \<le> maxConcurrentDirectTCPHandshakes
     \<and> (\<forall>c. dl_next l \<le> c \<longrightarrow> fmlookup (dl_conns l) c = None)"

lemma conn_slots_upd:
  "conn_slots (l\<lparr>dl_conns := fmupd c (Handling t key) (dl_conns l)\<rparr>) = (conn_slots l)(c := Some (t, key))"
  "conn_slots (l\<lparr>dl_conns := fmupd c Leaving (dl_conns l)\<rparr>) = (conn_slots l)(c := None)"
  "fmlookup (dl_conns l) c = Some Leaving \<Longrightarrow> conn_slots (l\<lparr>dl_conns := fmdrop c (dl_conns l)\<rparr>) = conn_slots l"
  by (auto simp: conn_slots_def fun_eq_iff)

lemma conn_slots_cong: "dl_conns l' = dl_conns l \<Longrightarrow> conn_slots l' = conn_slots l"
  by (simp add: conn_slots_def fun_eq_iff)

lemma listener_ok_accept:
  assumes "listener_ok l"
  shows "listener_ok (accept_direct now addr l)"
proof -
  have sl: "slots_ok (dl_guard l) (conn_slots l)" and fresh: "fmlookup (dl_conns l) (dl_next l) = None"
    using assms by (simp_all add: listener_ok_def)
  then have free: "conn_slots l (dl_next l) = None" by (simp add: conn_slots_def)
  obtain g r where g: "Acquire now addr (dl_guard l) = (g, r)" by (rule prod.exhaust)
  have b: "maxConcurrent g = maxConcurrent (dl_guard l)" using Acquire_bound [of now addr "dl_guard l"] g by simp
  show ?thesis
  proof (cases r)
    case None
    have "conn_slots (l\<lparr>dl_guard := g\<rparr>) = conn_slots l" by (rule conn_slots_cong) simp
    then show ?thesis using assms g None b slots_refused [OF sl] by (simp add: listener_ok_def accept_direct_def)
  next
    case (Some t)
    have up: "slots_ok g ((conn_slots l)(dl_next l := Some (t, addressKey addr)))"
      using slots_acquire [OF sl _ free] g Some by blast
    show ?thesis
    proof (cases "dl_sem l < maxConcurrentDirectTCPHandshakes")
      case True
      let ?l = "l\<lparr>dl_guard := g, dl_sem := dl_sem l + 1, dl_next := dl_next l + 1,
        dl_conns := fmupd (dl_next l) (Handling t (addressKey addr)) (dl_conns l)\<rparr>"
      have "conn_slots ?l = (conn_slots l)(dl_next l := Some (t, addressKey addr))"
        by (simp add: conn_slots_def fun_eq_iff)
      moreover have "fsize (dl_conns ?l) = dl_sem ?l" using assms fresh by (simp add: listener_ok_def fmdrop_idle)
      ultimately have "listener_ok ?l" using assms up b True by (simp add: listener_ok_def)
      then show ?thesis using g Some True by (simp add: accept_direct_def)
    next
      case False
      have "slots_ok (release now t g) (((conn_slots l)(dl_next l := Some (t, addressKey addr)))(dl_next l := None))"
        by (rule slots_release [OF up]) simp
      then have "slots_ok (release now t g) (conn_slots l)" using free by (simp add: fun_upd_idem)
      moreover have "conn_slots (l\<lparr>dl_guard := release now t g\<rparr>) = conn_slots l" by (rule conn_slots_cong) simp
      ultimately show ?thesis using assms g Some False b release_bound
        by (simp add: listener_ok_def accept_direct_def)
    qed
  qed
qed

lemma listener_ok_address:
  assumes "listener_ok l"
  shows "listener_ok (release_address now c l)"
proof (cases "\<exists>t key. fmlookup (dl_conns l) c = Some (Handling t key)")
  case True
  then obtain t key where c: "fmlookup (dl_conns l) c = Some (Handling t key)" by blast
  let ?l = "l\<lparr>dl_guard := release now t (dl_guard l), dl_conns := fmupd c Leaving (dl_conns l)\<rparr>"
  have "slots_ok (release now t (dl_guard l)) ((conn_slots l)(c := None))"
    using assms c by (intro slots_release [of _ _ _ _ key]) (simp_all add: listener_ok_def conn_slots_def)
  moreover have "conn_slots ?l = (conn_slots l)(c := None)" by (simp add: conn_slots_def fun_eq_iff)
  moreover have "fsize (dl_conns ?l) = fsize (dl_conns l)" using fsize_drop [OF c] by simp
  moreover have "dl_next l \<le> c' \<Longrightarrow> fmlookup (dl_conns ?l) c' = None" for c' using assms c by (auto simp: listener_ok_def)
  ultimately have "listener_ok ?l" using assms release_bound by (simp add: listener_ok_def)
  then show ?thesis using c by (simp add: release_address_def)
next
  case False
  then show ?thesis using assms by (auto simp: release_address_def split: option.split direct_conn.split)
qed

lemma listener_ok_semaphore:
  assumes "listener_ok l"
  shows "listener_ok (release_semaphore c l)"
proof (cases "fmlookup (dl_conns l) c = Some Leaving")
  case True
  let ?l = "l\<lparr>dl_sem := dl_sem l - 1, dl_conns := fmdrop c (dl_conns l)\<rparr>"
  have "conn_slots ?l = conn_slots l" using True by (auto simp: conn_slots_def fun_eq_iff)
  moreover have "fsize (fmdrop c (dl_conns l)) = fsize (dl_conns l) - 1" using fsize_drop [OF True] by simp
  ultimately have "listener_ok ?l" using assms by (auto simp: listener_ok_def)
  then show ?thesis using True by (simp add: release_semaphore_def)
next
  case False
  then show ?thesis using assms by (auto simp: release_semaphore_def split: option.split direct_conn.split)
qed

lemma listener_step_ok: "listener_ok l \<Longrightarrow> listener_ok (fst (listener_step ev l))"
  by (cases ev) (simp_all add: listener_ok_accept listener_ok_address listener_ok_semaphore)

interpretation listening: event_system listener_step listener_run "\<lambda>_. True" listener_ok
  by unfold_locales (simp_all add: case_prod_unfold listener_step_ok)

lemma new_listener_ok: "listener_ok new_listener"
  using NewIPGuard_ok [of 8 30 "60 * second"]
  by (auto simp: listener_ok_def new_listener_def slots_ok_def conn_slots_def NewIPGuard_def maxConcurrentDirectTCPHandshakes_def)

text \<open>
  C22: Direct connections are those of granted sessions. A direct connection is joined to the local service exactly
  when the messages of the relay have granted a session with a token that is in force, and the peer's
  first bytes are the tag of a client of this session under this token for the challenge just drawn.
\<close>

theorem direct_tcp_granted:
  assumes "r = fst (registry_run evs newP2PSessionRegistry)"
  shows "(\<exists>out. handleDirectTCP (Some challenge) r w1 w2 dialled incoming = (out, Bridged sid rest)) \<longleftrightarrow>
    w1 \<and> w2 \<and> dialled \<and> (\<exists>parent controller token. sid \<le> 0xffffffff
      \<and> gr_session (grants evs) (ucast sid) = Some (parent, controller, token) \<and> parent \<notin> gr_done (grants evs)
      \<and> token \<noteq> [] \<and> incoming = tcpAuthTag sid token tcpRoleClient challenge @ rest)"
proof -
  obtain out res where a: "AcceptTCPPeer (Some challenge) (\<lambda>sid. registry_lookup sid r) w1 w2 incoming = (out, res)"
    by (rule prod.exhaust)
  have "(\<exists>out. handleDirectTCP (Some challenge) r w1 w2 dialled incoming = (out, Bridged sid rest)) \<longleftrightarrow> dialled \<and> res = Inr (sid, rest)"
    using a by (auto simp: handleDirectTCP_def split: sum.split prod.split)
  then show ?thesis
    using accept_outcome(1) [OF a, of sid rest] registry_lookup_grants [of sid evs] assms by auto
qed

text \<open>
  The listener is bounded. After any run at most 64 direct connections are served at a time, at most eight from one
  address, and what the guard counts for an address is exactly the connections being handled.
\<close>

theorem direct_tcp_bounded:
  assumes "l = fst (listener_run evs new_listener)"
  shows "fsize (dl_conns l) \<le> 64 \<and> card {c. \<exists>t. fmlookup (dl_conns l) c = Some (Handling t key)} = active_of key (dl_guard l)
    \<and> active_of key (dl_guard l) \<le> 8"
proof -
  have ok: "listener_ok l" using listening.run_good [OF new_listener_ok list_all_True] assms by simp
  then have "slots_ok (dl_guard l) (conn_slots l)" by (simp add: listener_ok_def)
  from slots_count [OF this, of key] have "card {c. \<exists>t. conn_slots l c = Some (t, key)} = active_of key (dl_guard l)
    \<and> active_of key (dl_guard l) \<le> maxConcurrent (dl_guard l)" .
  moreover have "(\<exists>t. conn_slots l c = Some (t, key)) \<longleftrightarrow> (\<exists>t. fmlookup (dl_conns l) c = Some (Handling t key))" for c
    by (cases "fmlookup (dl_conns l) c") (auto simp: conn_slots_def split: direct_conn.split)
  ultimately show ?thesis using ok by (simp add: listener_ok_def maxConcurrentDirectTCPHandshakes_def)
qed

section \<open>A connection\<close>

definition sample_challenge :: bytes where "sample_challenge = replicate 16 7"

definition sample_notify :: ControlMessage where
  "sample_notify = (message MsgTypeConnectNotify)\<lparr>m_DeviceID := ''c'', m_SessionID := 5, m_SessionToken := ''k''\<rparr>"

lemma sample_challenge_length: "length sample_challenge = tcpChallengeSize"
  by (simp add: sample_challenge_def tcpChallengeSize_def)

theorem tcp_handshake_witness:
  "\<exists>sent answer. AcceptTCPPeer (Some sample_challenge) (\<lambda>_. Some [1]) True True (sent @ [2]) = (answer, Inr (5, [2]))
    \<and> authenticateTCPPeer 5 [1] tcpRoleClient True True (answer @ [3]) = (sent, Inr [3])"
proof -
  let ?sent = "fst (authenticateTCPPeer 5 [1] tcpRoleClient True True sample_challenge)"
  obtain answer r where a: "AcceptTCPPeer (Some sample_challenge) (\<lambda>_. Some [1]) True True (?sent @ [2]) = (answer, r)"
    by (rule prod.exhaust)
  have "authenticateTCPPeer 5 [1] tcpRoleClient True True (answer @ [3]) = (?sent, Inr [3]) \<and> r = Inr (5, [2])"
    using tcp_handshake [OF _ _ sample_challenge_length _ refl a, of "[3]"] by simp
  then show ?thesis using a by blast
qed


theorem direct_tcp_granted_witness:
  "\<exists>incoming out. handleDirectTCP (Some sample_challenge) (fst (registry_run [RRegister 0 sample_notify] newP2PSessionRegistry))
    True True True incoming = (out, Bridged 5 [9])"
proof -
  have "gr_session (grants [RRegister 0 sample_notify]) (ucast (5 :: u64)) = Some (0, ''c'', string_bytes ''k'')"
    "gr_done (grants [RRegister 0 sample_notify]) = {}"
    by (simp_all add: grants_def no_grants_def sample_notify_def message_def)
  moreover have "string_bytes ''k'' \<noteq> []" by (simp add: string_bytes_def)
  ultimately show ?thesis
    using direct_tcp_granted [OF refl, where evs = "[RRegister 0 sample_notify]" and sid = 5 and challenge = sample_challenge
        and rest = "[9]" and incoming = "tcpAuthTag 5 (string_bytes ''k'') tcpRoleClient sample_challenge @ [9]"
        and ?w1.0 = True and ?w2.0 = True and dialled = True] by auto
qed

theorem direct_tcp_bounded_witness:
  "active_of ''a'' (dl_guard (fst (listener_run [LAccept 0 (Some ''a'')] new_listener))) \<le> 8"
  using direct_tcp_bounded [OF refl, where evs = "[LAccept 0 (Some ''a'')]" and key = "''a''"] by blast

end
