(* ===== verification/Tcp_Dial.thy ===== *)
theory Tcp_Dial
  imports Direct_Tcp
begin

text \<open>
  The race of \<open>dialTCPAuth\<close>, \<open>internal/punch/tcp_punch.go\<close>: one goroutine per candidate dials, authenticates
  and tries to be the first; the main goroutine takes the first connection or the end of the context and closes
  the others. Goroutines are numbers below the number of targets and have a program counter; a run is any
  interleaving of their steps.
\<close>

datatype dial_phase = GDial | GDialed | GAuth | GAuthed | GReady | GEnd

datatype dial_main = MWait | MGot nat | MTimeout

record TCPDial =
  td_phase :: "nat \<Rightarrow> dial_phase"
  td_open :: "nat set"
  td_pending :: "nat set"
  td_once :: bool
  td_result :: "nat option"
  td_done :: bool
  td_main :: dial_main

datatype dial_start_error = NoToken | NoTCPCandidates

text \<open>The candidates for TCP; the order in which they are started does not matter for the race.\<close>

definition tcp_targets :: "CandidateInfo list \<Rightarrow> CandidateInfo list" where
  "tcp_targets cands = filter (\<lambda>c. c_Protocol c = ''tcp'') cands"

definition dial_start :: "CandidateInfo list \<Rightarrow> bytes \<Rightarrow> dial_start_error + TCPDial" where
  "dial_start cands token =
     (if token = [] then Inl NoToken
      else if tcp_targets cands = [] then Inl NoTCPCandidates
      else Inr \<lparr>td_phase = (\<lambda>i. if i < length (tcp_targets cands) then GDial else GEnd), td_open = {}, td_pending = {},
        td_once = False, td_result = None, td_done = False, td_main = MWait\<rparr>)"

definition goto :: "nat \<Rightarrow> dial_phase \<Rightarrow> TCPDial \<Rightarrow> TCPDial" where
  "goto i p d = d\<lparr>td_phase := (td_phase d)(i := p)\<rparr>"

definition close_conn :: "nat \<Rightarrow> TCPDial \<Rightarrow> TCPDial" where
  "close_conn i d = d\<lparr>td_open := td_open d - {i}\<rparr>"

definition closePending :: "nat set \<Rightarrow> TCPDial \<Rightarrow> TCPDial" where
  "closePending except d = d\<lparr>td_open := td_open d - (td_pending d - except)\<rparr>"

datatype dial_event =
    GDialResult nat bool | GAppend nat | GAuthResult nat bool | GCheck nat | GOnce nat
  | DExpire | DTakeResult | DTakeDone | DReturn

text \<open>The last step of a goroutine is \<open>once.Do\<close>; that of the main one cancels the context as it returns.\<close>

fun dial_step :: "dial_event \<Rightarrow> TCPDial \<Rightarrow> TCPDial \<times> unit" where
  "dial_step (GDialResult i ok) d = ((if td_phase d i \<noteq> GDial then d
     else if ok then goto i GDialed (d\<lparr>td_open := insert i (td_open d)\<rparr>) else goto i GEnd d), ())"
| "dial_step (GAppend i) d = ((if td_phase d i \<noteq> GDialed then d
     else goto i GAuth (d\<lparr>td_pending := insert i (td_pending d)\<rparr>)), ())"
| "dial_step (GAuthResult i ok) d = ((if td_phase d i \<noteq> GAuth then d
     else if ok then goto i GAuthed d else goto i GEnd (close_conn i d)), ())"
| "dial_step (GCheck i) d = ((if td_phase d i \<noteq> GAuthed then d
     else if td_done d then goto i GEnd (close_conn i d) else goto i GReady d), ())"
| "dial_step (GOnce i) d = ((if td_phase d i \<noteq> GReady then d
     else if td_once d then goto i GEnd (close_conn i d)
     else goto i GEnd (d\<lparr>td_once := True, td_result := Some i\<rparr>)), ())"
| "dial_step DExpire d = (d\<lparr>td_done := True\<rparr>, ())"
| "dial_step DTakeResult d = ((case td_result d of
     Some i \<Rightarrow> if td_main d = MWait then (closePending {i} d)\<lparr>td_result := None, td_main := MGot i\<rparr> else d
   | None \<Rightarrow> d), ())"
| "dial_step DTakeDone d = ((if td_main d = MWait \<and> td_done d then (closePending {} d)\<lparr>td_main := MTimeout\<rparr> else d), ())"
| "dial_step DReturn d = ((if td_main d \<noteq> MWait then d\<lparr>td_done := True\<rparr> else d), ())"

fun dial_run :: "dial_event list \<Rightarrow> TCPDial \<Rightarrow> TCPDial \<times> unit list" where
  "dial_run [] d = (d, [])"
| "dial_run (ev # evs) d = (case dial_step ev d of
     (d, out) \<Rightarrow> (case dial_run evs d of (d, outs) \<Rightarrow> (d, out # outs)))"

section \<open>The invariant\<close>

text \<open>The winner is in the channel, or was returned, or was closed with the rest.\<close>

definition winner :: "TCPDial \<Rightarrow> nat \<Rightarrow> bool" where
  "winner d i \<longleftrightarrow> td_result d = Some i \<or> td_main d = MGot i"

text \<open>The invariant of one goroutine, by where it is.\<close>

definition conn_ok :: "TCPDial \<Rightarrow> nat \<Rightarrow> bool" where
  "conn_ok d i \<longleftrightarrow> (case td_phase d i of
       GDial \<Rightarrow> \<not> winner d i \<and> i \<notin> td_open d
     | GDialed \<Rightarrow> \<not> winner d i \<and> (td_main d = MWait \<longrightarrow> i \<in> td_open d)
     | GEnd \<Rightarrow> (if winner d i then td_once d \<and> i \<in> td_pending d \<and> (td_main d = MGot i \<longrightarrow> td_result d = None)
           \<and> (i \<in> td_open d \<longleftrightarrow> td_main d \<noteq> MTimeout)
         else i \<notin> td_open d)
     | ph \<Rightarrow> \<not> winner d i \<and> i \<in> td_pending d \<and> (td_main d = MWait \<longrightarrow> i \<in> td_open d)
         \<and> (ph = GReady \<and> td_main d = MTimeout \<longrightarrow> i \<notin> td_open d))"

definition main_ok :: "TCPDial \<Rightarrow> bool" where
  "main_ok d \<longleftrightarrow> (td_main d = MTimeout \<longrightarrow> td_done d)
     \<and> (\<not> td_once d \<longrightarrow> td_result d = None \<and> td_main d \<in> {MWait, MTimeout})"

definition dial_ok :: "TCPDial \<Rightarrow> bool" where
  "dial_ok d \<longleftrightarrow> main_ok d \<and> (\<forall>i. conn_ok d i)"

lemmas dial_ops = goto_def close_conn_def closePending_def

text \<open>A step of one goroutine does not disturb another, and keeps its own invariant.\<close>

lemma conn_ok_cong:
  assumes "conn_ok d i" "td_phase d' i = td_phase d i" "i \<in> td_open d' \<longleftrightarrow> i \<in> td_open d" "i \<in> td_pending d' \<longleftrightarrow> i \<in> td_pending d"
    "td_result d' = td_result d" "td_main d' = td_main d" "td_once d' = td_once d"
  shows "conn_ok d' i"
  using assms unfolding conn_ok_def winner_def by (cases "td_phase d i") simp_all

lemma main_ok_step: "main_ok d \<Longrightarrow> main_ok (fst (dial_step ev d))"
  by (cases ev) (auto simp: main_ok_def dial_ops split: option.split)

lemma conn_ok_step:
  assumes "main_ok d" "conn_ok d i"
  shows "conn_ok (fst (dial_step ev d)) i"
proof (cases ev)
  case (GDialResult j ok)
  show ?thesis
  proof (cases "i = j")
    case True
    then show ?thesis using GDialResult assms by (cases "td_phase d i") (simp_all add: conn_ok_def winner_def dial_ops)
  qed (rule conn_ok_cong [OF assms(2)]; simp add: GDialResult dial_ops)
next
  case (GAppend j)
  show ?thesis
  proof (cases "i = j")
    case True
    then show ?thesis using GAppend assms by (cases "td_phase d i") (simp_all add: conn_ok_def winner_def dial_ops)
  qed (rule conn_ok_cong [OF assms(2)]; simp add: GAppend dial_ops)
next
  case (GAuthResult j ok)
  show ?thesis
  proof (cases "i = j")
    case True
    then show ?thesis using GAuthResult assms by (cases "td_phase d i") (simp_all add: conn_ok_def winner_def dial_ops)
  qed (rule conn_ok_cong [OF assms(2)]; simp add: GAuthResult dial_ops)
next
  case (GCheck j)
  show ?thesis
  proof (cases "i = j")
    case True
    then show ?thesis using GCheck assms by (cases "td_phase d i"; cases "td_main d") (simp_all add: conn_ok_def winner_def dial_ops main_ok_def)
  qed (rule conn_ok_cong [OF assms(2)]; simp add: GCheck dial_ops)
next
  case (GOnce j)
  show ?thesis
    using GOnce assms by (cases "i = j"; cases "td_phase d i"; cases "td_main d"; cases "td_once d")
      (auto simp: conn_ok_def winner_def dial_ops main_ok_def split: if_splits)
next
  case DTakeResult
  show ?thesis
  proof (cases "td_result d")
    case None
    then show ?thesis using DTakeResult assms(2) by simp
  next
    case (Some j)
    then show ?thesis using DTakeResult assms
      by (cases "i = j"; cases "td_phase d i"; cases "td_main d") (auto simp: conn_ok_def winner_def dial_ops main_ok_def split: if_splits)
  qed
next
  case DTakeDone
  then show ?thesis using assms by (cases "td_phase d i") (auto simp: conn_ok_def winner_def dial_ops split: if_splits)
qed (rule conn_ok_cong [OF assms(2)]; simp)+

lemma dial_step_ok: "dial_ok d \<Longrightarrow> dial_ok (fst (dial_step ev d))"
  using conn_ok_step main_ok_step by (auto simp: dial_ok_def)

interpretation dialing: event_system dial_step dial_run "\<lambda>_. True" dial_ok
  by unfold_locales (simp_all add: case_prod_unfold dial_step_ok)

lemma dial_start_ok: "dial_start cands token = Inr d \<Longrightarrow> dial_ok d"
  by (auto simp: dial_start_def dial_ok_def main_ok_def conn_ok_def winner_def split: if_splits)

text \<open>Only an authenticated connection gets as far as \<open>once.Do\<close>.\<close>

definition authed :: "nat \<Rightarrow> TCPDial \<Rightarrow> bool" where
  "authed i d \<longleftrightarrow> td_phase d i \<in> {GAuthed, GReady} \<or> winner d i"

lemma authed_step: "authed i (fst (dial_step ev d)) \<Longrightarrow> \<not> authed i d \<Longrightarrow> ev = GAuthResult i True"
  by (cases ev) (auto simp: authed_def winner_def dial_ops split: if_splits option.splits)

section \<open>Property\<close>

text \<open>
  C24: The race leaks no connection. Whatever the interleaving, once the main goroutine has returned and all the
  others have ended, the one connection that is still open is the one that was returned, and none is after a
  timeout; and a connection is returned only if its handshake succeeded.
\<close>

theorem dial_leaks_nothing:
  assumes "dial_start cands token = Inr d0" "d = fst (dial_run evs d0)"
    "td_main d \<noteq> MWait" "\<forall>i. td_phase d i = GEnd"
  shows "case td_main d of MGot i \<Rightarrow> td_open d = {i} \<and> GAuthResult i True \<in> set evs | _ \<Rightarrow> td_open d = {}"
proof -
  have ok: "dial_ok d" using dialing.run_good [OF dial_start_ok [OF assms(1)] list_all_True] assms(2) by simp
  then have c: "if winner d i then (td_main d = MGot i \<longrightarrow> td_result d = None) \<and> (i \<in> td_open d \<longleftrightarrow> td_main d \<noteq> MTimeout)
      else i \<notin> td_open d" for i
    using assms(4) by (auto simp: dial_ok_def conn_ok_def)
  show ?thesis
  proof (cases "td_main d")
    case (MGot i)
    then have "td_result d = None" using c [of i] by (simp add: winner_def)
    then have "j \<in> td_open d \<longleftrightarrow> j = i" for j using c [of j] MGot by (simp add: winner_def split: if_splits)
    then have "td_open d = {i}" by blast
    moreover have "authed i d" "\<not> authed i d0"
      using MGot assms(1) by (auto simp: authed_def winner_def dial_start_def split: if_splits)
    then obtain es1 ev es2 where "evs = es1 @ ev # es2" "\<not> authed i (fst (dial_run es1 d0))"
      "authed i (fst (dial_step ev (fst (dial_run es1 d0))))"
      using dialing.origin [where P = "authed i"] assms(2) by metis
    then have "GAuthResult i True \<in> set evs" using authed_step by auto
    ultimately show ?thesis using MGot by simp
  next
    case MTimeout
    then have "i \<notin> td_open d" for i using c [of i] by (simp split: if_splits)
    then show ?thesis using MTimeout by auto
  qed (use assms(3) in simp)
qed

text \<open>Two candidates, of which the second does not answer.\<close>

definition sample_dial :: "dial_event list" where
  "sample_dial = [GDialResult 0 True, GAppend 0, GAuthResult 0 True, GCheck 0, GOnce 0, GDialResult 1 False, DTakeResult, DReturn]"

definition sample_tcp_candidate :: CandidateInfo where
  "sample_tcp_candidate = \<lparr>c_Protocol = ''tcp'', c_Type = [], c_Address = [], c_Priority = 0\<rparr>"

theorem dial_leaks_nothing_witness:
  "\<exists>d0. dial_start [sample_tcp_candidate, sample_tcp_candidate] [1] = Inr d0 \<and> td_open (fst (dial_run sample_dial d0)) = {0}"
proof -
  obtain d0 where d0: "dial_start [sample_tcp_candidate, sample_tcp_candidate] [1] = Inr d0"
    by (simp add: dial_start_def tcp_targets_def sample_tcp_candidate_def)
  then have d: "d0 = \<lparr>td_phase = (\<lambda>i. if i < 2 then GDial else GEnd), td_open = {}, td_pending = {}, td_once = False,
      td_result = None, td_done = False, td_main = MWait\<rparr>"
    by (simp add: dial_start_def tcp_targets_def sample_tcp_candidate_def numeral_2_eq_2)
  have m: "td_main (fst (dial_run sample_dial d0)) = MGot 0" by (simp add: sample_dial_def d dial_ops)
  have "td_phase (fst (dial_run sample_dial d0)) 0 = GEnd" "td_phase (fst (dial_run sample_dial d0)) (Suc 0) = GEnd"
    "2 \<le> i \<Longrightarrow> td_phase (fst (dial_run sample_dial d0)) i = GEnd" for i
    by (simp_all add: sample_dial_def d dial_ops)
  then have "td_phase (fst (dial_run sample_dial d0)) i = GEnd" for i
    by (metis One_nat_def less_2_cases not_less)
  then have "case td_main (fst (dial_run sample_dial d0)) of MGot i \<Rightarrow> td_open (fst (dial_run sample_dial d0)) = {i} \<and> GAuthResult i True \<in> set sample_dial
      | _ \<Rightarrow> td_open (fst (dial_run sample_dial d0)) = {}"
    using m by (intro dial_leaks_nothing [OF d0 refl]) simp_all
  then show ?thesis using d0 m by (simp only: dial_main.case) blast
qed

end
