(* ===== verification/Direct_Session.thy ===== *)
theory Direct_Session
  imports Signaling Direct_Tcp
begin

text \<open>
  From the grant of the relay to the direct connection: \<open>HandleConnectRequest\<close> of the relay, the control message reader
  and the listener of the agent, and the handshake of the controller, put together.
\<close>

lemma reader_registers:
  assumes "m_Type msg = MsgTypeConnectNotify" "parent \<notin> gr_done (grants evs)"
  shows "registry_lookup (ucast (m_SessionID msg))
      (fst (controlMessageReader parent msg (fst (registry_run evs newP2PSessionRegistry)))) = Some (string_bytes (m_SessionToken msg))"
proof -
  let ?evs = "evs @ [RRegister parent msg]"
  have r: "fst (controlMessageReader parent msg (fst (registry_run evs newP2PSessionRegistry))) = fst (registry_run ?evs newP2PSessionRegistry)"
    using assms(1) by (simp add: controlMessageReader_def registry.run_snoc case_prod_unfold)
  have g: "grants ?evs = grant_step (RRegister parent msg) (grants evs)" by (simp add: grants_def)
  have cast: "ucast (ucast (m_SessionID msg) :: u64) = m_SessionID msg" by (simp add: ucast_up_ucast_id is_up.rep_eq)
  have "(ucast (m_SessionID msg) :: u64) \<le> 0xffffffff" by (simp add: ucast_fits [symmetric] cast)
  then show ?thesis unfolding r registry_lookup_grants using assms(2) by (simp add: g cast)
qed

lemma hex_token_nonempty: "rnd \<noteq> [] \<Longrightarrow> string_bytes (hex_encode rnd) \<noteq> []"
  by (cases rnd) (simp_all add: string_bytes_def hex_encode_def)

lemma granted_messages [simp]:
  "m_Type (connect_notice q) = MsgTypeConnectNotify" "m_SessionID (connect_notice q) = q_session q"
  "m_SessionToken (connect_notice q) = q_token q" "m_DeviceID (connect_notice q) = q_controllerID q"
  "m_SessionID (connect_response host q) = q_session q" "m_SessionToken (connect_response host q) = q_token q"
  by (simp_all add: connect_notice_def connect_response_def message_def)

text \<open>The handshake of a client, from the lookup of its token.\<close>

lemma handshake_bridges:
  assumes "registry_lookup sid r = Some token" "token \<noteq> []" "length challenge = tcpChallengeSize"
  shows "\<exists>answer. handleDirectTCP (Some challenge) r True True True (tcpAuthTag sid token tcpRoleClient challenge @ data) = (answer, Bridged sid data)
    \<and> authenticateTCPPeer sid token tcpRoleClient True True (answer @ data') = (tcpAuthTag sid token tcpRoleClient challenge, Inr data')"
  using assms by (simp add: handleDirectTCP_def AcceptTCPPeer_def authenticateTCPPeer_def answer_role_def tcp_roles)

text \<open>
  C23: A granted session connects. When the relay answers a controller's request with a session, it has sent one notice,
  to the writer that the target registered; once the agent there has read it, whatever it had read before, a direct connection on which the
  controller authenticates with the number and the token of its answer is joined to the local service of the agent, and both
  sides see the other's first byte of data next.
\<close>

theorem granted_session_connects:
  assumes "HandleConnectRequest (Some p) req host (Some rnd) ok c = (c', out, Inr resp)" "m_Type resp = MsgTypeConnectResponse"
    "rnd \<noteq> []" "parent \<notin> gr_done (grants evs)" "length challenge = tcpChallengeSize"
    "sid = ucast (m_SessionID resp)" "token = string_bytes (m_SessionToken resp)"
    "sent = fst (authenticateTCPPeer sid token tcpRoleClient True True challenge)"
  shows "\<exists>t w notice answer. fmlookup (peers c) (m_TargetDeviceID req) = Some t \<and> p_Writer t = Some w
    \<and> out = [(w, notice)] \<and> m_DeviceID notice = p_DeviceID p
    \<and> handleDirectTCP (Some challenge) (fst (controlMessageReader parent notice (fst (registry_run evs newP2PSessionRegistry))))
        True True True (sent @ data) = (answer, Bridged sid data)
    \<and> authenticateTCPPeer sid token tcpRoleClient True True (answer @ data') = (sent, Inr data')"
proof -
  obtain q t where q: "resp = connect_response host q" "out = [(q_targetWriter q, connect_notice q)]" "q_token q = hex_encode rnd"
    "q_controllerID q = p_DeviceID p" "fmlookup (peers c) (m_TargetDeviceID req) = Some t" "p_Writer t = Some (q_targetWriter q)"
    using connect_granted [OF assms(1,2)] by blast
  let ?r = "fst (controlMessageReader parent (connect_notice q) (fst (registry_run evs newP2PSessionRegistry)))"
  have l: "registry_lookup sid ?r = Some token"
    using reader_registers [OF _ assms(4), of "connect_notice q"] assms(6,7) q(1) by simp
  have token: "token \<noteq> []" using hex_token_nonempty [OF assms(3)] assms(7) q(1,3) by simp
  have "sent = tcpAuthTag sid token tcpRoleClient challenge"
    using client_writes [OF token assms(5), of sid tcpRoleClient "[]"] assms(8) by simp
  then show ?thesis using handshake_bridges [OF l token assms(5)] q(2,4-6) by auto
qed

lemma sample_granted:
  "\<exists>c' out resp. HandleConnectRequest (Some sample_controller) sample_request ''relay'' (Some [0]) True sample_coordinator = (c', out, Inr resp)
    \<and> m_Type resp = MsgTypeConnectResponse"
  by (simp add: HandleConnectRequest_def connect_prepare_def sample_controller_def sample_request_def sample_coordinator_def message_def Let_def
      validateCandidates_def authorized_def sample_peer_def generate_id_def connect_commit_def sessionCountLocked_def MaxActiveSessions_def
      MaxActiveSessionsPerPeer_def connect_notify_def connect_response_def)

theorem granted_session_connects_witness:
  "\<exists>notice sid token answer sent. handleDirectTCP (Some sample_challenge) (fst (controlMessageReader 0 notice newP2PSessionRegistry))
      True True True (sent @ [1]) = (answer, Bridged sid [1])
    \<and> authenticateTCPPeer sid token tcpRoleClient True True (answer @ [2]) = (sent, Inr [2])"
proof -
  obtain c' out resp where h: "HandleConnectRequest (Some sample_controller) sample_request ''relay'' (Some [0]) True sample_coordinator = (c', out, Inr resp)"
    "m_Type resp = MsgTypeConnectResponse" using sample_granted by blast
  have "0 \<notin> gr_done (grants [])" by (simp add: grants_def no_grants_def)
  from granted_session_connects [OF h _ this sample_challenge_length refl refl refl, of "[1]" "[2]"]
  obtain notice answer where "handleDirectTCP (Some sample_challenge) (fst (controlMessageReader 0 notice newP2PSessionRegistry)) True True True
      (fst (authenticateTCPPeer (ucast (m_SessionID resp)) (string_bytes (m_SessionToken resp)) tcpRoleClient True True sample_challenge) @ [1])
      = (answer, Bridged (ucast (m_SessionID resp)) [1])"
    "authenticateTCPPeer (ucast (m_SessionID resp)) (string_bytes (m_SessionToken resp)) tcpRoleClient True True (answer @ [2])
      = (fst (authenticateTCPPeer (ucast (m_SessionID resp)) (string_bytes (m_SessionToken resp)) tcpRoleClient True True sample_challenge), Inr [2])"
    by auto
  then show ?thesis by blast
qed

end
