(* ===== verification/Candidate_Refresh.thy ===== *)
theory Candidate_Refresh
  imports Direct_Session "HOL-Library.Multiset"
begin

text \<open>
  Telling the peers that the addresses of a machine have changed, \<open>internal/agent/candidate_refresh.go\<close>. A tick of
  the timer is a step; what the interfaces give is its argument, \<open>None\<close> for an error, and the messages are its result.
  A Go map that counts gives 0 for what it does not hold, so it is a function.
\<close>

definition CandidateTypeLAN :: string where "CandidateTypeLAN = ''lan''"

definition filterLANCandidates :: "CandidateInfo list \<Rightarrow> CandidateInfo list" where
  "filterLANCandidates cands = filter (\<lambda>c. c_Type c = CandidateTypeLAN) cands"

fun count_left :: "CandidateInfo list \<Rightarrow> (CandidateInfo \<Rightarrow> nat) \<Rightarrow> CandidateInfo \<Rightarrow> nat" where
  "count_left [] counts = counts"
| "count_left (c # cs) counts = count_left cs (counts(c := counts c + 1))"

fun match_right :: "CandidateInfo list \<Rightarrow> (CandidateInfo \<Rightarrow> nat) \<Rightarrow> bool" where
  "match_right [] counts = True"
| "match_right (c # cs) counts = (if counts c = 0 then False else match_right cs (counts(c := counts c - 1)))"

definition candidateSetsEqual :: "CandidateInfo list \<Rightarrow> CandidateInfo list \<Rightarrow> bool" where
  "candidateSetsEqual left right =
     (if length left \<noteq> length right then False else match_right right (count_left left (\<lambda>_. 0)))"

definition candidate_message :: "string \<Rightarrow> CandidateInfo list \<Rightarrow> u32 \<times> string \<Rightarrow> ControlMessage" where
  "candidate_message dev cands route = (message MsgTypeCandidateExchange)\<lparr>m_DeviceID := dev, m_TargetDeviceID := snd route,
     m_SessionID := fst route, m_Candidates := cands\<rparr>"

definition refresh_tick ::
  "string \<Rightarrow> (u32 \<times> string) list \<Rightarrow> CandidateInfo list option \<Rightarrow> CandidateInfo list \<Rightarrow> CandidateInfo list \<times> ControlMessage list" where
  "refresh_tick dev routes discovered previous = (case discovered of
     None \<Rightarrow> (previous, [])
   | Some cands \<Rightarrow> if candidateSetsEqual previous cands then (previous, [])
       else (cands, map (candidate_message dev cands) routes))"

text \<open>The agent tells all its controllers, a controller its one target.\<close>

definition refreshControlledCandidates ::
  "string \<Rightarrow> u32 list \<Rightarrow> p2pSessionRegistry \<Rightarrow> CandidateInfo list option \<Rightarrow> CandidateInfo list \<Rightarrow> CandidateInfo list \<times> ControlMessage list" where
  "refreshControlledCandidates dev ids r = refresh_tick dev (registry_routes ids r)"

definition refreshControllerCandidates ::
  "string \<Rightarrow> string \<Rightarrow> u32 \<Rightarrow> CandidateInfo list option \<Rightarrow> CandidateInfo list \<Rightarrow> CandidateInfo list \<times> ControlMessage list" where
  "refreshControllerCandidates dev target sid = refresh_tick dev [(sid, target)]"

lemma count_left_count: "count_left cs counts c = counts c + count (mset cs) c"
  by (induction cs arbitrary: counts) auto

lemma match_right_iff: "match_right cs counts \<longleftrightarrow> (\<forall>c. count (mset cs) c \<le> counts c)"
proof (induction cs arbitrary: counts)
  case (Cons x cs)
  have "(\<forall>c. count (mset (x # cs)) c \<le> counts c)
    \<longleftrightarrow> counts x \<noteq> 0 \<and> (\<forall>c. count (mset cs) c \<le> (counts(x := counts x - 1)) c)"
    by (auto simp: le_diff_conv2 split: if_splits)
  then show ?case using Cons.IH by simp
qed simp

lemma candidateSetsEqual_mset: "candidateSetsEqual left right \<longleftrightarrow> mset left = mset right"
proof
  assume eq: "candidateSetsEqual left right"
  then have "mset right \<subseteq># mset left" "size (mset left) = size (mset right)"
    by (auto simp: candidateSetsEqual_def match_right_iff count_left_count subseteq_mset_def split: if_splits)
  then show "mset left = mset right" by (metis mset_subset_size less_irrefl subset_mset.le_imp_less_or_eq)
next
  assume "mset left = mset right"
  then show "candidateSetsEqual left right"
    using mset_eq_length by (auto simp: candidateSetsEqual_def match_right_iff count_left_count)
qed

lemma candidate_message_type [simp]: "m_Type (candidate_message dev cands route) = MsgTypeCandidateExchange"
  by (simp add: candidate_message_def message_def)

section \<open>What the target of a controller knows\<close>

text \<open>The ticks of one controller.\<close>

fun refresh_run :: "string \<Rightarrow> string \<Rightarrow> u32 \<Rightarrow> CandidateInfo list option list \<Rightarrow> CandidateInfo list \<Rightarrow> CandidateInfo list \<times> ControlMessage list" where
  "refresh_run dev target sid [] previous = (previous, [])"
| "refresh_run dev target sid (d # ds) previous =
     (case refreshControllerCandidates dev target sid d previous of
       (p, out) \<Rightarrow> (case refresh_run dev target sid ds p of (p', out') \<Rightarrow> (p', out @ out')))"

definition told :: "CandidateInfo list \<Rightarrow> ControlMessage list \<Rightarrow> CandidateInfo list" where
  "told initial out = last (initial # map m_Candidates out)"

definition discovered :: "CandidateInfo list option list \<Rightarrow> CandidateInfo list list" where
  "discovered ds = concat (map (case_option [] (\<lambda>cands. [cands])) ds)"

definition nothing_new :: "CandidateInfo list \<Rightarrow> CandidateInfo list option \<Rightarrow> bool" where
  "nothing_new known d = (case d of None \<Rightarrow> True | Some cands \<Rightarrow> mset cands = mset known)"

lemma refresh_tick_cases:
  "refreshControllerCandidates dev target sid d previous =
     (case d of None \<Rightarrow> (previous, [])
      | Some cands \<Rightarrow> if mset previous = mset cands then (previous, [])
          else (cands, [candidate_message dev cands (sid, target)]))"
  by (simp add: refreshControllerCandidates_def refresh_tick_def candidateSetsEqual_mset split: option.split)

lemma told_append: "told initial (out @ out') = told (told initial out) out'"
  by (simp add: told_def)

lemma told_one [simp]: "told initial [] = initial" "told initial [candidate_message dev cands route] = cands"
  by (simp_all add: told_def candidate_message_def message_def)

text \<open>
  A refresh keeps the other side informed. After any number of ticks, the candidates last told to the target
  are those discovered last, up to their order, or the initial ones of the local network while nothing was
  discovered; every message names the session and its target, and a tick that finds nothing new sends nothing.
\<close>

theorem refresh_keeps_informed:
  assumes "refresh_run dev target sid ds initial = (previous, out)"
  shows "told initial out = previous \<and> mset previous = mset (last (initial # discovered ds))
    \<and> list_all (\<lambda>m. m_Type m = MsgTypeCandidateExchange \<and> m_SessionID m = sid \<and> m_TargetDeviceID m = target \<and> m_DeviceID m = dev) out
    \<and> (list_all (nothing_new initial) ds \<longrightarrow> out = [])"
  using assms
proof (induction ds arbitrary: initial out)
  case (Cons d ds)
  obtain p o1 where tick: "refreshControllerCandidates dev target sid d initial = (p, o1)" by (metis prod.collapse)
  obtain o2 where rest: "refresh_run dev target sid ds p = (previous, o2)" "out = o1 @ o2"
    using Cons.prems tick by (auto split: prod.splits)
  have 1: "told initial o1 = p" "list_all (\<lambda>m. m_Type m = MsgTypeCandidateExchange \<and> m_SessionID m = sid \<and> m_TargetDeviceID m = target \<and> m_DeviceID m = dev) o1"
    "mset p = mset (last (initial # discovered [d]))" "nothing_new initial d \<longrightarrow> o1 = [] \<and> p = initial"
    using tick by (auto simp: refresh_tick_cases told_def candidate_message_def message_def discovered_def nothing_new_def split: option.splits if_splits)
  have 2: "mset (last (p # discovered ds)) = mset (last (initial # discovered (d # ds)))"
    using 1(3) by (simp add: discovered_def)
  from Cons.IH [OF rest(1)] show ?case unfolding rest(2) told_append 1(1) list_all_append using 1(2,4) 2 by simp
qed (simp add: told_def discovered_def)

definition sample_lan :: CandidateInfo where
  "sample_lan = \<lparr>c_Protocol = ''udp'', c_Type = CandidateTypeLAN, c_Address = [], c_Priority = 1\<rparr>"

theorem refresh_keeps_informed_witness:
  "\<exists>out. snd (refresh_run ''me'' ''pc'' 5 [None, Some [sample_lan], Some [sample_lan]] []) = out \<and> told [] out = [sample_lan]"
proof -
  have run: "refresh_run ''me'' ''pc'' 5 [None, Some [sample_lan], Some [sample_lan]] []
    = ([sample_lan], [candidate_message ''me'' [sample_lan] (5, ''pc'')])"
    by (simp add: refresh_tick_cases)
  from refresh_keeps_informed [OF run] show ?thesis using run by simp
qed

end
