(* ===== verification/Local_Proxy.thy ===== *)
theory Local_Proxy
  imports Candidate_Refresh Path_Manager
begin

text \<open>
  The controller's end of a session: the proxy that the local remote desktop client talks to, \<open>internal/controller/proxy.go\<close>, and the
  loop that reads the messages of the relay, \<open>controllerControlLoop\<close> of \<open>internal/agent/controller.go\<close>. The loops over sockets
  are runs of single turns; \<open>Path_Manager\<close> decides on the way.
\<close>

section \<open>Model\<close>

text \<open>How a local TCP connection is served: \<open>dialled\<close> is whether a direct connection came about, \<open>opened\<close> whether a stream of the relay did.\<close>

datatype tcp_route = ServedDirectly | ServedByRelay | NotServed

definition proxyViaRelay :: "bool \<Rightarrow> Manager \<Rightarrow> tcp_route" where
  "proxyViaRelay opened m = (if relayTransport m = None then NotServed else if \<not> opened then NotServed else ServedByRelay)"

definition DialDirectTCP :: "(CandidateInfo list \<Rightarrow> bool) \<Rightarrow> Manager \<Rightarrow> bool" where
  "DialDirectTCP dialled m = (if tcpCandidates m = [] then False else dialled (tcpCandidates m))"

definition proxyViaDirectTCP :: "(CandidateInfo list \<Rightarrow> bool) \<Rightarrow> bool \<Rightarrow> Manager \<Rightarrow> tcp_route" where
  "proxyViaDirectTCP dialled opened m = (if DialDirectTCP dialled m then ServedDirectly else proxyViaRelay opened m)"

definition local_handleTCPClient :: "(CandidateInfo list \<Rightarrow> bool) \<Rightarrow> bool \<Rightarrow> Manager \<Rightarrow> tcp_route" where
  "local_handleTCPClient dialled opened m =
     (if tcpPath m = PathDirectLAN \<or> tcpPath m = PathDirectTCP then proxyViaDirectTCP dialled opened m else proxyViaRelay opened m)"

text \<open>
  The UDP loops: a packet of the local client, whose address is remembered, and a payload that \<open>ReceiveUDP\<close> returned, which is
  written to that address.
\<close>

definition client_packet ::
  "'s network \<Rightarrow> AddrPort \<Rightarrow> bytes \<Rightarrow> AddrPort option \<times> Manager \<times> 's \<Rightarrow> AddrPort option \<times> Manager \<times> 's" where
  "client_packet net addr packet st = (case st of (client, m, s) \<Rightarrow>
     (case SendUDP net packet m s of (m, s, _) \<Rightarrow> (if client = None \<or> client \<noteq> Some addr then Some addr else client, m, s)))"

definition path_payload :: "bytes \<Rightarrow> AddrPort option \<Rightarrow> (AddrPort \<times> bytes) option" where
  "path_payload payload client = (case client of None \<Rightarrow> None | Some addr \<Rightarrow> if length payload > 0 then Some (addr, payload) else None)"

text \<open>One message of the relay; the flag says whether the loop goes on.\<close>

definition session_message :: "u32 \<Rightarrow> ControlMessage \<Rightarrow> Manager \<Rightarrow> Manager \<times> bool" where
  "session_message sid msg m =
     (if m_SessionID msg \<noteq> 0 \<and> m_SessionID msg \<noteq> sid then (m, True)
      else if m_Type msg = MsgTypeCandidateExchange then (AddCandidates (m_Candidates msg) m, True)
      else if m_Type msg = MsgTypeSessionClose then (path_Close m, False)
      else (m, True))"

section \<open>New addresses of a target\<close>

lemma add_new_keeps: "set acc \<subseteq> set (add_new cs seen acc)"
  by (induction cs seen acc rule: add_new.induct) auto

lemma add_new_has:
  assumes "candidate_key ` set acc = seen" "x \<in> set cs" "c_Protocol x = ''tcp''"
  shows "\<exists>y \<in> set (add_new cs seen acc). candidate_key y = candidate_key x"
  using assms
proof (induction cs seen acc rule: add_new.induct)
  case (2 c cs seen acc)
  show ?case
  proof (cases "x = c \<and> candidate_key c \<in> seen")
    case True
    then obtain y where "y \<in> set acc" "candidate_key y = candidate_key x" using 2(4) by (metis imageE)
    then show ?thesis using add_new_keeps [of acc] True 2(6) by auto
  next
    case False
    then show ?thesis using 2 add_new_keeps [of "acc @ [c]" cs "insert (candidate_key c) seen"] by (cases "x = c") auto
  qed
qed simp

lemma AddCandidates_has:
  assumes "x \<in> set cs" "c_Protocol x = ''tcp''"
  shows "candidate_key x \<in> candidate_key ` set (tcpCandidates (AddCandidates cs m))"
  using add_new_has [OF refl assms, of "tcpCandidates m"] by (auto simp: AddCandidates_def Let_def intro: image_eqI [OF sym])

lemma route_listed:
  assumes "sid \<in> set ids" "fmlookup (pr_sessions r) sid = Some n" "pr_objs r n = Some s" "ps_id s = sid"
  shows "(sid, ps_controller s) \<in> set (registry_routes ids r)"
  using assms by (force simp: registry_routes_def List.map_filter_def image_iff)

text \<open>
  C30: New addresses of a target reach its controllers. When the agent finds that its addresses have changed, it
  tells the controller of each of its sessions; while the relay holds the session and its policy allows it, the message is forwarded
  to this controller, whose path manager then has every new TCP candidate, so its next local connection tries them.
\<close>

theorem new_addresses_arrive:
  assumes "sid \<in> set ids" "fmlookup (pr_sessions r) sid = Some n" "pr_objs r n = Some s" "ps_id s = sid"
    "mset previous \<noteq> mset cands" "validateCandidates cands = Inr valid"
    "fmlookup (signals c) sid = Some sess" "targetID sess = dev" "controllerID sess = ps_controller s" "controllerWriter sess = Some w"
    "ps_controller s \<noteq> []" "ps_controller s \<noteq> dev" "authorized c (ps_controller s) dev"
  shows "\<exists>sent msg. sent \<in> set (snd (refreshControlledCandidates dev ids r (Some cands) previous))
    \<and> ForwardCandidateExchange (m_SessionID sent) (m_DeviceID sent) (m_TargetDeviceID sent) (m_Candidates sent) c = Inr (w, msg)
    \<and> snd (session_message sid msg m)
    \<and> list_all (\<lambda>x. c_Protocol x = ''tcp'' \<longrightarrow> candidate_key x \<in> candidate_key ` set (tcpCandidates (fst (session_message sid msg m)))) valid
    \<and> (length (candidateUpdates m) < 8 \<longrightarrow> last (candidateUpdates (fst (session_message sid msg m))) = valid)"
proof -
  let ?sent = "candidate_message dev cands (sid, ps_controller s)"
  let ?msg = "(message MsgTypeCandidateExchange)\<lparr>m_DeviceID := dev, m_TargetDeviceID := ps_controller s, m_SessionID := sid, m_Candidates := valid\<rparr>"
  have "?sent \<in> set (snd (refreshControlledCandidates dev ids r (Some cands) previous))"
    using route_listed [OF assms(1-4)] assms(5) by (auto simp: refreshControlledCandidates_def refresh_tick_def candidateSetsEqual_mset)
  moreover have "ForwardCandidateExchange (m_SessionID ?sent) (m_DeviceID ?sent) (m_TargetDeviceID ?sent) (m_Candidates ?sent) c = Inr (w, ?msg)"
    using assms(6-13) by (simp add: ForwardCandidateExchange_def candidate_message_def message_def Let_def)
  moreover have "session_message sid ?msg m = (AddCandidates valid m, True)" by (simp add: session_message_def message_def)
  moreover have "length (candidateUpdates m) < 8 \<longrightarrow> last (candidateUpdates (AddCandidates valid m)) = valid"
    by (simp add: AddCandidates_def Let_def)
  ultimately show ?thesis using AddCandidates_has [of _ valid m] by (intro exI [of _ ?sent] exI [of _ ?msg]) (simp add: list_all_iff)
qed

definition sample_tcp :: CandidateInfo where
  "sample_tcp = \<lparr>c_Protocol = ''tcp'', c_Type = CandidateTypeLAN, c_Address = ''10.0.0.7:9'', c_Priority = 1\<rparr>"

lemma sample_tcp_valid: "validateCandidates [sample_tcp] = Inr [sample_tcp]"
  by code_simp

theorem new_addresses_arrive_witness:
  "\<exists>sent msg. sent \<in> set (snd (refreshControlledCandidates ''pc'' [5] (fst (registry_register 0
        ((message MsgTypeConnectNotify)\<lparr>m_SessionID := 5, m_DeviceID := ''me''\<rparr>) newP2PSessionRegistry)) (Some [sample_tcp]) []))
    \<and> candidate_key sample_tcp \<in> candidate_key ` set (tcpCandidates (fst (session_message 5 msg (NewPathManager 5 [] None))))"
proof -
  let ?r = "fst (registry_register 0 ((message MsgTypeConnectNotify)\<lparr>m_SessionID := 5, m_DeviceID := ''me''\<rparr>) newP2PSessionRegistry)"
  let ?s = "new_p2p_session 0 ((message MsgTypeConnectNotify)\<lparr>m_SessionID := 5, m_DeviceID := ''me''\<rparr>)"
  let ?c = "sample_coordinator\<lparr>signals := sample_signals\<rparr>"
  let ?sess = "\<lparr>controllerID = ''me'', targetID = ''pc'', controllerWriter = Some 3, targetWriter = Some 7\<rparr>"
  have r: "fmlookup (pr_sessions ?r) 5 = Some 0" "pr_objs ?r 0 = Some ?s" "ps_id ?s = 5" "ps_controller ?s = ''me''" "(5 :: u32) \<in> set [5]"
    by (simp_all add: registry_register_def newP2PSessionRegistry_def set_session_def new_p2p_session_def message_def)
  have c: "fmlookup (signals ?c) 5 = Some ?sess" "authorized ?c (ps_controller ?s) ''pc''"
    by (simp_all add: sample_signals_def sample_coordinator_def authorized_def)
  have "mset [] \<noteq> mset [sample_tcp]" by simp
  from new_addresses_arrive [OF r(5,1,2,3) this sample_tcp_valid c(1) _ _ _ _ _ c(2), of 3 "NewPathManager 5 [] None"] r(4)
  show ?thesis by (auto simp: sample_tcp_def)
qed

end
