(* ===== verification/Rendezvous.thy ===== *)
theory Rendezvous
  imports Netip Control_Message
begin

text \<open>
  How a machine learns the address that its router gives it: the rendezvous server, \<open>internal/rendezvous/server.go\<close>,
  which tells the sender of a probe where the probe came from, and the probe, \<open>ProbeReflexiveCandidate\<close> of
  \<open>internal/nat/candidate.go\<close>. What arrives at a socket is an argument, \<open>None\<close> for a timeout.
\<close>

definition RendezvousMagic :: u32 where "RendezvousMagic = 0x52445A56"
definition CandidateTypeReflexive :: string where "CandidateTypeReflexive = ''reflexive''"
definition PriorityUDPP2P :: u32 where "PriorityUDPP2P = 900"

text \<open>\<open>To4\<close> of an address as Go keeps it, which also reads an IPv4-mapped address as IPv4.\<close>

definition To4 :: "Addr \<Rightarrow> u32 option" where
  "To4 a = (case Unmap a of V4 w \<Rightarrow> Some w | _ \<Rightarrow> None)"

definition probe_packet :: bytes where
  "probe_packet = put_be32 RendezvousMagic @ [1]"

text \<open>One turn of the server: the answer to what came from this address, if any.\<close>

definition serve_probe :: "bytes \<Rightarrow> AddrPort \<Rightarrow> bytes option" where
  "serve_probe received remote =
     (let buf = take 1024 received in
      if length buf < 5 then None
      else if be32 (slice 0 4 buf) \<noteq> RendezvousMagic \<or> buf ! 4 \<noteq> 1 then None
      else (case To4 (ap_addr remote) of
          None \<Rightarrow> None
        | Some ip4 \<Rightarrow> Some (put_be32 RendezvousMagic @ [2] @ put_be32 ip4 @ put_be16 (ap_port remote))))"

datatype probe_error = NoAnswer | UnexpectedSource | TooShort | InvalidHeader

text \<open>
  What the probe makes of the first packet that arrives. \<open>IP.Equal\<close> compares addresses in their IPv4 form, and an \<open>IP\<close>
  has no zone.
\<close>

definition IP_of :: "Addr \<Rightarrow> Addr" where
  "IP_of a = (case Unmap a of V6 x z \<Rightarrow> V6 x [] | b \<Rightarrow> b)"

definition same_endpoint :: "AddrPort \<Rightarrow> AddrPort \<Rightarrow> bool" where
  "same_endpoint a b \<longleftrightarrow> ap_port a = ap_port b \<and> IP_of (ap_addr a) = IP_of (ap_addr b)"

definition probe_answer :: "AddrPort \<Rightarrow> (bytes \<times> AddrPort) option \<Rightarrow> probe_error + CandidateInfo" where
  "probe_answer server arrival = (case arrival of
     None \<Rightarrow> Inl NoAnswer
   | Some (received, responder) \<Rightarrow>
       let resp = take 64 received in
       if \<not> same_endpoint responder server then Inl UnexpectedSource
       else if length resp < 11 then Inl TooShort
       else if be32 (slice 0 4 resp) \<noteq> RendezvousMagic \<or> resp ! 4 \<noteq> 2 then Inl InvalidHeader
       else Inr \<lparr>c_Protocol = ''udp'', c_Type = CandidateTypeReflexive,
         c_Address = addr_port_string \<lparr>ap_addr = V4 (be32 (slice 5 9 resp)), ap_port = be16 (slice 9 11 resp)\<rparr>,
         c_Priority = PriorityUDPP2P\<rparr>)"

lemma probe_packet_served:
  "serve_probe probe_packet remote = map_option (\<lambda>ip4. put_be32 RendezvousMagic @ [2] @ put_be32 ip4 @ put_be16 (ap_port remote)) (To4 (ap_addr remote))"
  by (simp add: serve_probe_def probe_packet_def slice_def nth_append split: option.split)

text \<open>
  The address a machine learns is the one its probe came from. The server answers a probe of an IPv4 host, and the answer, if
  nothing else arrives first, gives the candidate with just the address and port the server saw; anything from
  another host is refused.
\<close>

theorem reflexive_roundtrip:
  assumes "To4 (ap_addr seen) = Some ip4"
  shows "\<exists>answer. serve_probe probe_packet seen = Some answer
    \<and> probe_answer server (Some (answer, from)) = (if same_endpoint from server
        then Inr \<lparr>c_Protocol = ''udp'', c_Type = CandidateTypeReflexive,
          c_Address = addr_port_string \<lparr>ap_addr = V4 ip4, ap_port = ap_port seen\<rparr>, c_Priority = PriorityUDPP2P\<rparr>
        else Inl UnexpectedSource)"
proof -
  let ?answer = "put_be32 RendezvousMagic @ [2] @ put_be32 ip4 @ put_be16 (ap_port seen)"
  have "slice 0 4 ?answer = put_be32 RendezvousMagic" "slice 5 9 ?answer = put_be32 ip4" "slice 9 11 ?answer = put_be16 (ap_port seen)"
    "?answer ! 4 = 2" "length ?answer = 11"
    by (simp_all add: slice_def nth_append)
  then show ?thesis using probe_packet_served [of seen] assms by (simp add: probe_answer_def Let_def del: append.simps append_Cons)
qed

theorem reflexive_roundtrip_witness:
  "\<exists>answer cand. serve_probe probe_packet \<lparr>ap_addr = V4 0x05060708, ap_port = 9\<rparr> = Some answer
    \<and> probe_answer no_addr_port (Some (answer, no_addr_port)) = Inr cand
    \<and> c_Address cand = addr_port_string \<lparr>ap_addr = V4 0x05060708, ap_port = 9\<rparr>"
proof -
  have "To4 (ap_addr \<lparr>ap_addr = V4 0x05060708, ap_port = 9\<rparr>) = Some 0x05060708" by (simp add: To4_def)
  from reflexive_roundtrip [OF this, of no_addr_port no_addr_port] show ?thesis by (auto simp: same_endpoint_def)
qed

end
