(* ===== verification/Lan_Candidates.thy ===== *)
theory Lan_Candidates
  imports Candidate_Refresh Rendezvous
begin

text \<open>
  The candidates of a machine: its addresses in the local network, \<open>DiscoverLANCandidates\<close> of \<open>internal/nat/candidate.go\<close>, and the
  reflexive one, \<open>discoverP2PCandidates\<close> of \<open>internal/agent/client.go\<close>. The interfaces of the host are an argument.
\<close>

section \<open>Model\<close>

text \<open>The addresses of an interface are \<open>None\<close> if they cannot be listed, and one of them is \<open>None\<close> if it is not an IP address.\<close>

record Interface =
  if_Up :: bool
  if_Loopback :: bool
  if_Addrs :: "Addr option list option"

definition PriorityLANDirect :: u32 where "PriorityLANDirect = 1000"

text \<open>
  Only IPv4 addresses lead to candidates. Of those, \<open>127.0.0.0/8\<close>, \<open>169.254.0.0/16\<close> and \<open>224.0.0.0/24\<close> are skipped.
\<close>

definition lan_address :: "Addr option \<Rightarrow> u32 option" where
  "lan_address a = (case a of
     None \<Rightarrow> None
   | Some ip \<Rightarrow> (case To4 ip of
       None \<Rightarrow> None
     | Some ip4 \<Rightarrow>
         if drop_bit 24 ip4 = 127 \<or> drop_bit 16 ip4 = 0xA9FE \<or> drop_bit 8 ip4 = 0xE00000 then None else Some ip4))"

definition lan_candidate :: "string \<Rightarrow> u16 \<Rightarrow> u32 \<Rightarrow> CandidateInfo" where
  "lan_candidate proto port ip4 = \<lparr>c_Protocol = proto, c_Type = CandidateTypeLAN,
     c_Address = addr_port_string \<lparr>ap_addr = V4 ip4, ap_port = port\<rparr>, c_Priority = PriorityLANDirect\<rparr>"

definition address_candidates :: "u16 \<Rightarrow> u16 \<Rightarrow> u32 \<Rightarrow> CandidateInfo list" where
  "address_candidates udpPort tcpPort ip4 =
     (if udpPort > 0 then [lan_candidate ''udp'' udpPort ip4] else []) @ (if tcpPort > 0 then [lan_candidate ''tcp'' tcpPort ip4] else [])"

definition interface_addresses :: "Interface \<Rightarrow> u32 list" where
  "interface_addresses i =
     (if \<not> if_Up i \<or> if_Loopback i then []
      else case if_Addrs i of None \<Rightarrow> [] | Some addrs \<Rightarrow> List.map_filter lan_address addrs)"

definition DiscoverLANCandidates :: "u16 \<Rightarrow> u16 \<Rightarrow> Interface list option \<Rightarrow> CandidateInfo list option" where
  "DiscoverLANCandidates udpPort tcpPort interfaces =
     map_option (\<lambda>is. concat (map (\<lambda>i. concat (map (address_candidates udpPort tcpPort) (interface_addresses i))) is)) interfaces"

text \<open>\<open>rendezvous\<close> is the address of the rendezvous server, if configured, and what answered the probe.\<close>

definition discoverP2PCandidates ::
  "bool \<Rightarrow> u16 \<Rightarrow> u16 \<Rightarrow> Interface list option \<Rightarrow> (AddrPort \<times> (bytes \<times> AddrPort) option) option \<Rightarrow> CandidateInfo list" where
  "discoverP2PCandidates disabled udpPort tcpPort interfaces rendezvous =
     (if disabled then []
      else (case DiscoverLANCandidates udpPort tcpPort interfaces of Some cs \<Rightarrow> cs | None \<Rightarrow> [])
        @ (case rendezvous of
             None \<Rightarrow> []
           | Some (server, arrival) \<Rightarrow> (case probe_answer server arrival of Inr c \<Rightarrow> [c] | Inl _ \<Rightarrow> [])))"

section \<open>Machines with many addresses\<close>

definition lan_addresses :: "Interface list \<Rightarrow> u32 list" where
  "lan_addresses is = concat (map interface_addresses is)"

lemma length_candidates:
  assumes "udpPort > 0" "tcpPort > 0"
  shows "length (discoverP2PCandidates False udpPort tcpPort (Some is) rendezvous) \<ge> 2 * length (lan_addresses is)"
proof -
  have one: "length (concat (map (address_candidates udpPort tcpPort) as)) = 2 * length as" for as
    using assms by (induction as) (simp_all add: address_candidates_def)
  have "length (concat (map (\<lambda>i. concat (map (address_candidates udpPort tcpPort) (interface_addresses i))) is)) = 2 * length (lan_addresses is)"
    by (induction "is") (simp_all only: list.map concat.simps length_append one lan_addresses_def list.size distrib_left mult_0_right)
  then show ?thesis by (simp add: discoverP2PCandidates_def DiscoverLANCandidates_def)
qed

lemma too_many: "length cands > MaxCandidateCount \<Longrightarrow> \<exists>e. validateCandidates cands = Inl e"
  by (simp add: validateCandidates_def)

text \<open>
  A machine with many addresses loses all candidates. An agent announces two candidates for each of its IPv4 addresses, and the relay takes
  a list of more than 16 as an error: with nine addresses, as a host of containers has them, no candidate is kept, so every
  controller is given none, and a later exchange is refused as well.
\<close>

theorem many_addresses_lost:
  assumes "udpPort > 0" "tcpPort > 0" "length (lan_addresses is) \<ge> 9"
    "cands = discoverP2PCandidates False udpPort tcpPort (Some is) rendezvous"
    "HandleConnectRequest (Some p) req host (Some rnd) ok (RegisterPeer dev name w cands port c) = (c', out, Inr resp)"
    "m_Type resp = MsgTypeConnectResponse" "m_TargetDeviceID req = dev"
  shows "m_Candidates resp = [] \<and> (\<exists>e. ForwardCandidateExchange sid dev to' cands c' = Inl e)"
proof -
  have "length cands > MaxCandidateCount"
    using length_candidates [OF assms(1,2), of "is" rendezvous] assms(3,4) by (simp add: MaxCandidateCount_def)
  then obtain e where e: "validateCandidates cands = Inl e" using too_many by blast
  obtain q t where "resp = connect_response host q" "fmlookup (peers (RegisterPeer dev name w cands port c)) dev = Some t"
    "q_targetCandidates q = p_Candidates t"
    using connect_granted [OF assms(5,6)] assms(7) by blast
  then have "m_Candidates resp = []" using e by (auto simp: RegisterPeer_def connect_response_def message_def)
  then show ?thesis using e by (simp add: ForwardCandidateExchange_def)
qed

definition sample_interfaces :: "Interface list" where
  "sample_interfaces = [\<lparr>if_Up = True, if_Loopback = False, if_Addrs = Some (map (\<lambda>i. Some (V4 (0x0A000000 + i))) [1, 2, 3, 4, 5, 6, 7, 8, 9])\<rparr>]"

theorem many_addresses_lost_witness:
  "\<exists>c'' out resp. HandleConnectRequest (Some sample_controller) sample_request ''relay'' (Some [0]) True
      (RegisterPeer ''pc'' ''pc'' (Some 7) (discoverP2PCandidates False 1000 1001 (Some sample_interfaces) None) 20000 sample_coordinator)
      = (c'', out, Inr resp) \<and> m_Candidates resp = []"
proof -
  let ?cands = "discoverP2PCandidates False 1000 1001 (Some sample_interfaces) None"
  have nine: "length (lan_addresses sample_interfaces) \<ge> 9"
    by (simp add: lan_addresses_def sample_interfaces_def interface_addresses_def List.map_filter_def lan_address_def To4_def)
  have ports: "(1000 :: u16) > 0" "(1001 :: u16) > 0" by simp_all
  have "length ?cands > MaxCandidateCount"
    using length_candidates [OF ports, of sample_interfaces None] nine by (simp add: MaxCandidateCount_def)
  then have "RegisterPeer ''pc'' ''pc'' (Some 7) ?cands 20000 sample_coordinator = sample_coordinator"
    using too_many [of ?cands] by (auto simp: RegisterPeer_def sample_coordinator_def sample_peer_def)
  moreover obtain c'' out resp where h: "HandleConnectRequest (Some sample_controller) sample_request ''relay'' (Some [0]) True sample_coordinator = (c'', out, Inr resp)"
    "m_Type resp = MsgTypeConnectResponse" using sample_granted by blast
  moreover have "m_TargetDeviceID sample_request = ''pc''" by (simp add: sample_request_def message_def)
  ultimately show ?thesis
    using many_addresses_lost [OF ports nine refl, of sample_controller sample_request "''relay''" "[0]" True "''pc''" "''pc''" "Some 7" None 20000
        sample_coordinator c'' out resp] by simp
qed

end
