(* ===== verification/Storage.thy ===== *)
theory Storage
  imports Crypto
begin

text \<open>
  The database of the relay, \<open>internal/storage/sqlite.go\<close>: the table of devices, the table of enrolment
  invitations, and the log of connections, each statement of the code as a function on the tables.
  SQLite runs a statement or a transaction as a whole, so the operations of several connections are a
  sequence. The clock of \<open>CURRENT_TIMESTAMP\<close> and the order of rows in a query without \<open>ORDER BY\<close> are
  arguments; the row numbers are left out. A statement that fails leaves the tables as they are.
\<close>

record AgentRecord =
  a_DeviceID :: string
  a_Hostname :: string
  a_SecretHash :: string
  a_PublicPort :: u16
  a_Enabled :: bool
  a_CreatedAt :: time
  a_LastSeen :: time

record ConnectionLog =
  l_DeviceID :: string
  l_Protocol :: string
  l_SourceIP :: string
  l_SourcePort :: int
  l_StartTime :: time
  l_EndTime :: time
  l_RxBytes :: int
  l_TxBytes :: int

record EnrollmentInvitationRecord =
  i_DeviceID :: string
  i_TokenHash :: string
  i_ExpiresAt :: time
  i_ConsumedAt :: "time option"

record DB =
  agents :: "(string, AgentRecord) fmap"
  enrollment_invitations :: "(string, EnrollmentInvitationRecord) fmap"
  connection_log :: "ConnectionLog list"

datatype storage_error = ErrEnrollmentInvalid | ErrInvitationNotFound | ErrConstraint

definition empty_db :: DB where
  "empty_db = \<lparr>agents = fmempty, enrollment_invitations = fmempty, connection_log = []\<rparr>"

section \<open>Invitations\<close>

definition enrollmentTokenHash :: "string \<Rightarrow> string" where
  "enrollmentTokenHash tok = hex_encode (sha256 (string_bytes tok))"

definition UpsertEnrollmentInvitation :: "string \<Rightarrow> string \<Rightarrow> time \<Rightarrow> DB \<Rightarrow> DB" where
  "UpsertEnrollmentInvitation dev tok expires db =
     (let h = enrollmentTokenHash tok;
          consumed = (case fmlookup (enrollment_invitations db) dev of
            Some i \<Rightarrow> if i_TokenHash i = h then i_ConsumedAt i else None | None \<Rightarrow> None)
      in db\<lparr>enrollment_invitations := fmupd dev
           \<lparr>i_DeviceID = dev, i_TokenHash = h, i_ExpiresAt = expires, i_ConsumedAt = consumed\<rparr>
           (enrollment_invitations db)\<rparr>)"

definition UpdateEnrollmentInvitationExpiry :: "string \<Rightarrow> time \<Rightarrow> DB \<Rightarrow> storage_error + DB" where
  "UpdateEnrollmentInvitationExpiry dev expires db = (case fmlookup (enrollment_invitations db) dev of
     None \<Rightarrow> Inl ErrInvitationNotFound
   | Some i \<Rightarrow> Inr (db\<lparr>enrollment_invitations := fmupd dev (i\<lparr>i_ExpiresAt := expires\<rparr>) (enrollment_invitations db)\<rparr>))"

text \<open>The condition of the two statements that look for a usable invitation.\<close>

definition usable :: "string \<Rightarrow> time \<Rightarrow> EnrollmentInvitationRecord \<Rightarrow> bool" where
  "usable tok now i \<longleftrightarrow> i_TokenHash i = enrollmentTokenHash tok \<and> i_ConsumedAt i = None \<and> i_ExpiresAt i > now"

definition ValidateEnrollmentInvitation :: "string \<Rightarrow> string \<Rightarrow> time \<Rightarrow> DB \<Rightarrow> bool" where
  "ValidateEnrollmentInvitation dev tok now db =
     (if dev = [] \<or> tok = [] then False
      else case fmlookup (enrollment_invitations db) dev of Some i \<Rightarrow> usable tok now i | None \<Rightarrow> False)"

text \<open>The new row, or the old one with what the conflict clause updates.\<close>

definition enrolled_row :: "AgentRecord option \<Rightarrow> AgentRecord \<Rightarrow> time \<Rightarrow> AgentRecord" where
  "enrolled_row old a clock = (case old of
     None \<Rightarrow> a\<lparr>a_CreatedAt := clock, a_LastSeen := clock\<rparr>
   | Some r \<Rightarrow> r\<lparr>a_Hostname := a_Hostname a, a_SecretHash := a_SecretHash a,
       a_PublicPort := (if a_PublicPort r > 0 then a_PublicPort r else a_PublicPort a),
       a_Enabled := True, a_LastSeen := clock\<rparr>)"

definition CreateAgentWithEnrollment :: "time \<Rightarrow> AgentRecord \<Rightarrow> string \<Rightarrow> time \<Rightarrow> DB \<Rightarrow> storage_error + DB" where
  "CreateAgentWithEnrollment clock a tok now db = (case fmlookup (enrollment_invitations db) (a_DeviceID a) of
     None \<Rightarrow> Inl ErrEnrollmentInvalid
   | Some i \<Rightarrow>
       if \<not> usable tok now i then Inl ErrEnrollmentInvalid
       else Inr (db\<lparr>
         enrollment_invitations := fmupd (a_DeviceID a) (i\<lparr>i_ConsumedAt := Some now\<rparr>) (enrollment_invitations db),
         agents := fmupd (a_DeviceID a) (enrolled_row (fmlookup (agents db) (a_DeviceID a)) a clock) (agents db)\<rparr>))"

definition ListEnrollmentInvitations :: "string list \<Rightarrow> DB \<Rightarrow> EnrollmentInvitationRecord list" where
  "ListEnrollmentInvitations rows db =
     sort_key (\<lambda>i. - i_ExpiresAt i) (List.map_filter (fmlookup (enrollment_invitations db)) rows)"

definition DeleteEnrollmentInvitation :: "string \<Rightarrow> DB \<Rightarrow> DB" where
  "DeleteEnrollmentInvitation dev db = db\<lparr>enrollment_invitations := fmdrop dev (enrollment_invitations db)\<rparr>"

section \<open>Devices\<close>

definition CreateAgent :: "time \<Rightarrow> AgentRecord \<Rightarrow> DB \<Rightarrow> storage_error + DB" where
  "CreateAgent clock a db = (case fmlookup (agents db) (a_DeviceID a) of
     Some _ \<Rightarrow> Inl ErrConstraint
   | None \<Rightarrow> Inr (db\<lparr>agents := fmupd (a_DeviceID a) (a\<lparr>a_CreatedAt := clock, a_LastSeen := clock\<rparr>) (agents db)\<rparr>))"

definition GetAgentByDeviceID :: "string \<Rightarrow> DB \<Rightarrow> AgentRecord option" where
  "GetAgentByDeviceID dev db = fmlookup (agents db) dev"

definition GetAllAgents :: "string list \<Rightarrow> DB \<Rightarrow> AgentRecord list" where
  "GetAllAgents rows db = List.map_filter (fmlookup (agents db)) rows"

definition UpsertAgent :: "time \<Rightarrow> AgentRecord \<Rightarrow> DB \<Rightarrow> DB" where
  "UpsertAgent clock a db = db\<lparr>agents := fmupd (a_DeviceID a)
     (case fmlookup (agents db) (a_DeviceID a) of
        None \<Rightarrow> a\<lparr>a_CreatedAt := clock, a_LastSeen := clock\<rparr>
      | Some r \<Rightarrow> r\<lparr>a_Hostname := a_Hostname a, a_SecretHash := a_SecretHash a, a_PublicPort := a_PublicPort a,
          a_Enabled := a_Enabled a, a_LastSeen := clock\<rparr>) (agents db)\<rparr>"

text \<open>An update of the row of a device; there may be none.\<close>

definition update_agent :: "string \<Rightarrow> (AgentRecord \<Rightarrow> AgentRecord) \<Rightarrow> DB \<Rightarrow> DB" where
  "update_agent dev g db = (case fmlookup (agents db) dev of
     Some r \<Rightarrow> db\<lparr>agents := fmupd dev (g r) (agents db)\<rparr> | None \<Rightarrow> db)"

definition UpdateAgentRegistration :: "time \<Rightarrow> string \<Rightarrow> string \<Rightarrow> u16 \<Rightarrow> DB \<Rightarrow> DB" where
  "UpdateAgentRegistration clock dev host port =
     update_agent dev (\<lambda>r. r\<lparr>a_Hostname := host, a_PublicPort := port, a_LastSeen := clock\<rparr>)"

definition UpdateAgentLastSeen :: "string \<Rightarrow> time \<Rightarrow> DB \<Rightarrow> DB" where
  "UpdateAgentLastSeen dev t = update_agent dev (\<lambda>r. r\<lparr>a_LastSeen := t\<rparr>)"

definition SetAgentEnabled :: "string \<Rightarrow> bool \<Rightarrow> DB \<Rightarrow> DB" where
  "SetAgentEnabled dev on = update_agent dev (\<lambda>r. r\<lparr>a_Enabled := on\<rparr>)"

definition DeleteAgent :: "string \<Rightarrow> DB \<Rightarrow> DB" where
  "DeleteAgent dev db = db\<lparr>agents := fmdrop dev (agents db)\<rparr>"

section \<open>The log of connections\<close>

definition LogConnection :: "ConnectionLog \<Rightarrow> DB \<Rightarrow> DB" where
  "LogConnection l db = db\<lparr>connection_log := connection_log db @ [l]\<rparr>"

text \<open>Days are of 24 hours here, as in a zone without daylight saving.\<close>

definition CleanupOldLogs :: "time \<Rightarrow> int \<Rightarrow> DB \<Rightarrow> DB \<times> nat" where
  "CleanupOldLogs now days db =
     (let cutoff = now - (if days \<le> 0 then 30 else days) * 86400 * second;
          old = filter (\<lambda>l. l_StartTime l < cutoff) (connection_log db)
      in (db\<lparr>connection_log := filter (\<lambda>l. \<not> l_StartTime l < cutoff) (connection_log db)\<rparr>, length old))"

section \<open>Runs\<close>

text \<open>
  The statements the relay and its console run, in any order. The result says whether an enrolment
  succeeded.
\<close>

datatype db_event =
    DbUpsertInvitation string string time | DbExpiry string time | DbDeleteInvitation string
  | DbEnroll time AgentRecord string time | DbRegistration time string string u16 | DbLastSeen string time
  | DbEnabled string bool | DbDeleteAgent string

fun db_step :: "db_event \<Rightarrow> DB \<Rightarrow> DB \<times> bool" where
  "db_step (DbUpsertInvitation dev tok expires) db = (UpsertEnrollmentInvitation dev tok expires db, False)"
| "db_step (DbExpiry dev expires) db =
     ((case UpdateEnrollmentInvitationExpiry dev expires db of Inr db' \<Rightarrow> db' | Inl _ \<Rightarrow> db), False)"
| "db_step (DbDeleteInvitation dev) db = (DeleteEnrollmentInvitation dev db, False)"
| "db_step (DbEnroll clock a tok now) db =
     (case CreateAgentWithEnrollment clock a tok now db of Inr db' \<Rightarrow> (db', True) | Inl _ \<Rightarrow> (db, False))"
| "db_step (DbRegistration clock dev host port) db = (UpdateAgentRegistration clock dev host port db, False)"
| "db_step (DbLastSeen dev t) db = (UpdateAgentLastSeen dev t db, False)"
| "db_step (DbEnabled dev on) db = (SetAgentEnabled dev on db, False)"
| "db_step (DbDeleteAgent dev) db = (DeleteAgent dev db, False)"

text \<open>The enrolments of a run that succeeded: the row asked for and the token.\<close>

fun enrolled_by :: "db_event \<Rightarrow> bool \<Rightarrow> (AgentRecord \<times> string) list" where
  "enrolled_by (DbEnroll clock a tok now) True = [(a, tok)]"
| "enrolled_by _ _ = []"

fun db_run :: "db_event list \<Rightarrow> DB \<Rightarrow> DB \<times> (AgentRecord \<times> string) list" where
  "db_run [] db = (db, [])"
| "db_run (e # es) db = (case db_step e db of
     (db', ok) \<Rightarrow> (case db_run es db' of (db'', xs) \<Rightarrow> (db'', enrolled_by e ok @ xs)))"

definition enrolments :: "string \<Rightarrow> (AgentRecord \<times> string) list \<Rightarrow> nat" where
  "enrolments dev xs = length (filter (\<lambda>(a, tok). a_DeviceID a = dev) xs)"

text \<open>Whether a device has an invitation that was not consumed, and the events that give it a new one.\<close>

definition open_invitation :: "string \<Rightarrow> DB \<Rightarrow> bool" where
  "open_invitation dev db \<longleftrightarrow> (case fmlookup (enrollment_invitations db) dev of
     Some i \<Rightarrow> i_ConsumedAt i = None | None \<Rightarrow> False)"

definition issues :: "string \<Rightarrow> db_event \<Rightarrow> bool" where
  "issues dev e \<longleftrightarrow> (case e of DbUpsertInvitation d tok expires \<Rightarrow> d = dev | _ \<Rightarrow> False)"

text \<open>The events after which the invitation of the device is still the one for the token.\<close>

definition keeps_token :: "string \<Rightarrow> string \<Rightarrow> db_event \<Rightarrow> bool" where
  "keeps_token dev tok e \<longleftrightarrow> (case e of
     DbUpsertInvitation d t expires \<Rightarrow> d = dev \<longrightarrow> t = tok | DbDeleteInvitation d \<Rightarrow> d \<noteq> dev | _ \<Rightarrow> True)"

lemmas storage_defs = UpsertEnrollmentInvitation_def UpdateEnrollmentInvitationExpiry_def DeleteEnrollmentInvitation_def
  UpdateAgentRegistration_def UpdateAgentLastSeen_def SetAgentEnabled_def DeleteAgent_def update_agent_def

lemma enrol_step:
  assumes "db_step (DbEnroll clock a tok now) db = (db', ok)"
  shows "\<not> ok \<and> db' = db \<or> ok \<and> (\<exists>i. fmlookup (enrollment_invitations db) (a_DeviceID a) = Some i \<and> usable tok now i
    \<and> enrollment_invitations db' = fmupd (a_DeviceID a) (i\<lparr>i_ConsumedAt := Some now\<rparr>) (enrollment_invitations db)
    \<and> agents db' = fmupd (a_DeviceID a) (enrolled_row (fmlookup (agents db) (a_DeviceID a)) a clock) (agents db))"
  using assms by (auto simp: CreateAgentWithEnrollment_def split: option.splits if_splits)

text \<open>How one step changes whether the invitation is open.\<close>

lemma open_invitation_step:
  assumes "db_step e db = (db', ok)"
  shows "enrolments dev (enrolled_by e ok)
      + (if open_invitation dev db' then 1 else 0)
    \<le> (if open_invitation dev db then 1 else 0) + (if issues dev e then 1 else 0)"
proof (cases e)
  case (DbEnroll clock a tok now)
  from enrol_step [OF assms [unfolded DbEnroll]] show ?thesis
    using assms DbEnroll by (cases ok; cases "a_DeviceID a = dev") (auto simp: enrolments_def open_invitation_def usable_def)
qed (use assms in \<open>auto simp: enrolments_def open_invitation_def issues_def storage_defs Let_def
       split: option.splits sum.splits if_splits\<close>)

lemma enrolments_append: "enrolments dev (xs @ ys) = enrolments dev xs + enrolments dev ys"
  by (simp add: enrolments_def)

lemma enrolments_bounded:
  "db_run es db = (db', xs) \<Longrightarrow>
     enrolments dev xs + (if open_invitation dev db' then 1 else 0)
       \<le> (if open_invitation dev db then 1 else 0) + length (filter (issues dev) es)"
proof (induction es arbitrary: db xs)
  case Nil
  then show ?case by (simp add: enrolments_def)
next
  case (Cons e es)
  obtain db1 ok where 1: "db_step e db = (db1, ok)" by force
  obtain ys where 2: "db_run es db1 = (db', ys)" using Cons.prems 1 by (auto split: prod.splits)
  have xs: "xs = (enrolled_by e ok) @ ys"
    using Cons.prems 1 2 by simp
  have "enrolments dev xs = enrolments dev (enrolled_by e ok)
      + enrolments dev ys"
    unfolding xs by (rule enrolments_append)
  then show ?case using open_invitation_step [OF 1, of dev] Cons.IH [OF 2] by (auto split: if_splits)
qed

text \<open>A consumed invitation stays consumed while its token does not change.\<close>

definition consumed_for :: "string \<Rightarrow> string \<Rightarrow> DB \<Rightarrow> bool" where
  "consumed_for dev tok db \<longleftrightarrow> (case fmlookup (enrollment_invitations db) dev of
     Some i \<Rightarrow> i_TokenHash i = enrollmentTokenHash tok \<and> i_ConsumedAt i \<noteq> None | None \<Rightarrow> False)"

lemma consumed_for_step:
  assumes "consumed_for dev tok db" "keeps_token dev tok e" "db_step e db = (db', ok)"
  shows "consumed_for dev tok db' \<and>
    enrolments dev (enrolled_by e ok) = 0"
proof (cases e)
  case (DbEnroll clock a t now)
  from enrol_step [OF assms(3) [unfolded DbEnroll]] show ?thesis
    using assms DbEnroll by (cases ok; cases "a_DeviceID a = dev") (auto simp: enrolments_def consumed_for_def usable_def)
qed (use assms in \<open>auto simp: enrolments_def consumed_for_def keeps_token_def storage_defs Let_def
       split: option.splits sum.splits if_splits\<close>)

lemma consumed_for_run:
  "consumed_for dev tok db \<Longrightarrow> \<forall>e\<in>set es. keeps_token dev tok e \<Longrightarrow> db_run es db = (db', xs) \<Longrightarrow>
     consumed_for dev tok db' \<and> enrolments dev xs = 0"
proof (induction es arbitrary: db xs)
  case Nil
  then show ?case by (simp add: enrolments_def)
next
  case (Cons e es)
  obtain db1 ok where 1: "db_step e db = (db1, ok)" by force
  obtain ys where 2: "db_run es db1 = (db', ys)" "xs = enrolled_by e ok @ ys"
    using Cons.prems 1 by (auto split: prod.splits)
  have 3: "consumed_for dev tok db1" "enrolments dev (enrolled_by e ok) = 0"
    using consumed_for_step [OF Cons.prems(1) _ 1] Cons.prems(2) by simp_all
  then show ?case using Cons.IH [OF 3(1) _ 2(1)] Cons.prems(2) by (simp add: 2(2) enrolments_append)
qed

text \<open>The credential of a device: its secret hash comes from an enrolment or was there before.\<close>

definition credential :: "string \<Rightarrow> DB \<Rightarrow> string option" where
  "credential dev db = map_option a_SecretHash (fmlookup (agents db) dev)"

lemma credential_step:
  assumes "db_step e db = (db', ok)" "credential dev db' = Some h"
  shows "credential dev db = Some h
    \<or> (\<exists>a\<in>fst ` set (enrolled_by e ok).
         a_DeviceID a = dev \<and> a_SecretHash a = h)"
proof (cases e)
  case (DbEnroll clock a t now)
  from enrol_step [OF assms(1) [unfolded DbEnroll]] show ?thesis
    using assms DbEnroll by (cases ok; cases "a_DeviceID a = dev") (auto simp: credential_def enrolled_row_def split: option.splits)
qed (use assms in \<open>auto simp: credential_def storage_defs Let_def
       split: option.splits sum.splits if_splits\<close>)

lemma credential_run:
  "db_run es db = (db', xs) \<Longrightarrow> credential dev db' = Some h \<Longrightarrow>
     credential dev db = Some h \<or> (\<exists>a\<in>fst ` set xs. a_DeviceID a = dev \<and> a_SecretHash a = h)"
proof (induction es arbitrary: db xs)
  case (Cons e es)
  obtain db1 ok where 1: "db_step e db = (db1, ok)" by force
  obtain ys where 2: "db_run es db1 = (db', ys)" using Cons.prems 1 by (auto split: prod.splits)
  from Cons.IH [OF 2 Cons.prems(2)] show ?case
  proof
    assume "credential dev db1 = Some h"
    from credential_step [OF 1 this] show ?thesis using Cons.prems(1) 1 2 by auto
  next
    assume "\<exists>a\<in>fst ` set ys. a_DeviceID a = dev \<and> a_SecretHash a = h"
    then show ?thesis using Cons.prems(1) 1 2 by auto
  qed
qed simp

section \<open>Properties\<close>

text \<open>
  C8: An invitation enrols once. Whatever statements run in whatever order, a device is enrolled at most
  once more often than invitations were issued for it, counting one that is open at the start; an
  invitation that was consumed enrols nobody as long as only its own token is installed again; and the
  stored credential of a device is the one it had or that of an enrolment that consumed an invitation.
\<close>

theorem invitation_once:
  assumes "db_run es db = (db', xs)"
  shows "enrolments dev xs \<le> (if open_invitation dev db then 1 else 0) + length (filter (issues dev) es)
    \<and> (consumed_for dev tok db \<and> list_all (keeps_token dev tok) es \<longrightarrow> enrolments dev xs = 0)
    \<and> (credential dev db' = Some h \<longrightarrow>
         credential dev db = Some h \<or> (\<exists>a\<in>fst ` set xs. a_DeviceID a = dev \<and> a_SecretHash a = h))"
  using enrolments_bounded [OF assms, of dev] consumed_for_run [OF _ _ assms, of dev tok] credential_run [OF assms, of dev h]
  by (auto simp: list_all_iff)

definition sample_device :: AgentRecord where
  "sample_device = \<lparr>a_DeviceID = ''pc'', a_Hostname = ''host'', a_SecretHash = ''h'', a_PublicPort = 20000,
     a_Enabled = True, a_CreatedAt = 0, a_LastSeen = 0\<rparr>"

lemma invitation_once_witness:
  "enrolments ''pc'' (snd (db_run [DbUpsertInvitation ''pc'' ''t'' 9, DbEnroll 1 sample_device ''t'' 1,
     DbEnroll 2 sample_device ''t'' 2] empty_db)) \<le> 1"
  using invitation_once [of "[DbUpsertInvitation ''pc'' ''t'' 9, DbEnroll 1 sample_device ''t'' 1,
     DbEnroll 2 sample_device ''t'' 2]" empty_db _ _ "''pc''" "''t''" "''h''"]
  by (simp add: open_invitation_def empty_db_def issues_def split: prod.splits)

text \<open>
  What installing a token does. A token that is installed can be used until it expires, unless the
  row of the device records just this token as consumed. So a consumed token comes back as soon as the row
  was deleted, or another token was installed for the device in between.
\<close>

theorem reinstalled_token:
  "ValidateEnrollmentInvitation dev tok now (UpsertEnrollmentInvitation dev tok expires db)
      = (dev \<noteq> [] \<and> tok \<noteq> [] \<and> now < expires \<and> \<not> consumed_for dev tok db)
    \<and> \<not> consumed_for dev tok (DeleteEnrollmentInvitation dev db)
    \<and> consumed_for dev tok (UpsertEnrollmentInvitation dev other expires' db)
      = (enrollmentTokenHash other = enrollmentTokenHash tok \<and> consumed_for dev tok db)"
  by (auto simp: consumed_for_def UpsertEnrollmentInvitation_def DeleteEnrollmentInvitation_def
      ValidateEnrollmentInvitation_def usable_def Let_def split: option.splits)

end
