(* ===== verification/Agent_Session.thy ===== *)
theory Agent_Session
  imports Udp_Sessions Fragmentation Reassembly_Correct Acl Tcp_Header Ip_Guard
begin

text \<open>
  The relay's side of one connected agent, \<open>internal/relay/agent.go\<close>: packets from the clients of its
  public port go to the agent as datagrams of the client's session, datagrams from the agent go back to
  the client or, for the session of a controller, to the controller unchanged; and TCP connections of
  clients are opened at the agent. Connections are numbers; the transport, the control stream and the
  writer of a session are those of its connection.
\<close>

record AgentSession =
  as_DeviceID :: string
  as_Hostname :: string
  as_PublicPort :: u16
  as_conn :: nat
  as_Sessions :: SessionManager
  as_Reassembler :: Reassembler
  as_Fragmenter :: Fragmenter
  as_RDPOnline :: bool
  as_LastSeen :: time
  as_nextConnID :: u32
  as_nextPacketID :: u32
  as_closed :: bool
  controllerRoutes :: "(u32, nat) fmap"

definition NextPacketID :: "AgentSession \<Rightarrow> AgentSession \<times> u32" where
  "NextPacketID s = (let n = as_nextPacketID s + 1 in (s\<lparr>as_nextPacketID := n\<rparr>, n))"

definition NextConnID :: "AgentSession \<Rightarrow> AgentSession \<times> u32" where
  "NextConnID s = (let n = as_nextConnID s + 1 in (s\<lparr>as_nextConnID := n\<rparr>, n))"

text \<open>\<open>Close\<close>; \<open>order\<close> is the iteration order of the session table. Closing twice has no effect.\<close>

definition as_Close :: "u32 list \<Rightarrow> AgentSession \<Rightarrow> AgentSession" where
  "as_Close order s = (if as_closed s then s
     else s\<lparr>as_closed := True, as_Sessions := sm_Close order (as_Sessions s)\<rparr>)"

section \<open>Routes to controllers\<close>

definition registerControllerRoute :: "u32 \<Rightarrow> nat \<Rightarrow> AgentSession \<Rightarrow> AgentSession" where
  "registerControllerRoute sid tr s = s\<lparr>controllerRoutes := fmupd sid tr (controllerRoutes s)\<rparr>"

definition unregisterControllerRoute :: "u32 \<Rightarrow> nat \<Rightarrow> AgentSession \<Rightarrow> AgentSession" where
  "unregisterControllerRoute sid tr s =
     (if fmlookup (controllerRoutes s) sid = Some tr
      then s\<lparr>controllerRoutes := fmdrop sid (controllerRoutes s)\<rparr> else s)"

definition controllerRoute :: "u32 \<Rightarrow> AgentSession \<Rightarrow> nat option" where
  "controllerRoute sid s = fmlookup (controllerRoutes s) sid"

section \<open>Datagrams\<close>

datatype relay_out = ToAgent "bytes list" | ToController nat bytes | ToClient bytes AddrPort

text \<open>One turn of \<open>StartUDPReceiveFromAgent\<close>.\<close>

definition receive_from_agent :: "time \<Rightarrow> bytes \<Rightarrow> AgentSession \<Rightarrow> AgentSession \<times> relay_out option" where
  "receive_from_agent now datagram s = (case DecodeUDP datagram of
     Inl _ \<Rightarrow> (s, None)
   | Inr (hdr, payload) \<Rightarrow> (case controllerRoute (SessionID hdr) s of
       Some tr \<Rightarrow> (s, Some (ToController tr datagram))
     | None \<Rightarrow> (case FeedAppend now False hdr payload (as_Reassembler s) of
         (r, Inr (Some assembled)) \<Rightarrow>
           (case GetByID now (SessionID hdr) (as_Sessions s) of
              (m, sess) \<Rightarrow> (s\<lparr>as_Reassembler := r, as_Sessions := m\<rparr>,
                map_option (\<lambda>sess. ToClient assembled (k_ClientAddr (s_key sess))) sess))
       | (r, _) \<Rightarrow> (s\<lparr>as_Reassembler := r\<rparr>, None))))"

text \<open>One turn of \<open>StartUDPClientListener\<close>; the sends to the agent are a callback with a state.\<close>

definition client_key :: "AgentSession \<Rightarrow> AddrPort \<Rightarrow> SessionKey" where
  "client_key s addr = \<lparr>k_DeviceID = as_DeviceID s, k_PublicPort = as_PublicPort s, k_ClientAddr = addr\<rparr>"

definition session_for :: "created \<Rightarrow> UDPSession option" where
  "session_for c = (case c of Existing s \<Rightarrow> Some s | Created s \<Rightarrow> Some s | _ \<Rightarrow> None)"

definition receive_from_client ::
  "time \<Rightarrow> acl_manager \<Rightarrow> bytes option list \<Rightarrow> bytes \<Rightarrow> AddrPort \<Rightarrow> bytes \<Rightarrow> ('t, 'e) handler
    \<Rightarrow> AgentSession \<Rightarrow> 't \<Rightarrow> AgentSession \<times> 't" where
  "receive_from_client now acl draws buf addr packet send s t =
     (if \<not> IsAllowedAddr now (ap_addr addr) acl then (s, t)
      else (case GetOrCreateByKey now draws (client_key s addr) (as_Sessions s) of
        (m, c) \<Rightarrow> (let s = s\<lparr>as_Sessions := m\<rparr> in
          case session_for c of
            None \<Rightarrow> (s, t)
          | Some sess \<Rightarrow> (case NextPacketID s of
              (s, pid) \<Rightarrow> (s, fst (Fragment (as_Fragmenter s) buf (s_ID sess) pid packet send t))))))"

text \<open>One turn of \<open>runControllerDatagramLoop\<close>: only datagrams of the controller's own session pass.\<close>

definition controller_datagram :: "u32 \<Rightarrow> bytes \<Rightarrow> bytes option" where
  "controller_datagram sid datagram = (case DecodeUDP datagram of
     Inl _ \<Rightarrow> None
   | Inr (hdr, _) \<Rightarrow> if SessionID hdr \<noteq> sid then None else Some datagram)"

section \<open>TCP connections of clients\<close>

text \<open>
  What becomes of an accepted connection. \<open>opened\<close>: a stream to the agent could be opened; \<open>written\<close>: the
  header could be sent; \<open>answer\<close>: what the agent sends. A proxied connection carries the rest of it on.
\<close>

datatype tcp_client = Refused_Guard | Refused_Acl | No_Stream | No_Answer | Proxied bytes

definition open_desktop :: "bool \<Rightarrow> bool \<Rightarrow> bytes \<Rightarrow> AgentSession \<Rightarrow> AgentSession \<times> bytes \<times> tcp_client" where
  "open_desktop opened written answer s =
     (if \<not> opened then (s, [], No_Stream)
      else (case NextConnID s of (s, cid) \<Rightarrow>
        (case WriteTCPHeader [] \<lparr>Version_t = TCPProtocolVersion, Type_t = TCPTypeOpen, ConnectionID = cid, TargetPort = 3389\<rparr> of
           Inl _ \<Rightarrow> (s, [], No_Answer)
         | Inr sent \<Rightarrow>
             if \<not> written then (s, [], No_Answer)
             else (case ReadTCPHeader answer of
               Inl _ \<Rightarrow> (s, sent, No_Answer)
             | Inr (h, rest) \<Rightarrow> if Type_t h \<noteq> TCPTypeOpenOK then (s, sent, No_Answer) else (s, sent, Proxied rest)))))"

definition handleTCPClient ::
  "time \<Rightarrow> acl_manager \<Rightarrow> net_addr \<Rightarrow> bool \<Rightarrow> bool \<Rightarrow> bytes \<Rightarrow> AgentSession \<Rightarrow> AgentSession \<times> bytes \<times> tcp_client" where
  "handleTCPClient now acl remote opened written answer s =
     (if \<not> IsAllowed now remote acl then (s, [], Refused_Acl) else open_desktop opened written answer s)"

text \<open>
  One turn of \<open>StartTCPClientListener\<close> with the connection it accepts. The slot of the guard is held
  while the connection is handled, and is the ticket of the result.
\<close>

definition accept_tcp ::
  "time \<Rightarrow> acl_manager \<Rightarrow> string option \<Rightarrow> net_addr \<Rightarrow> bool \<Rightarrow> bool \<Rightarrow> bytes \<Rightarrow> AgentSession \<Rightarrow> IPGuard
    \<Rightarrow> AgentSession \<times> IPGuard \<times> nat option \<times> bytes \<times> tcp_client" where
  "accept_tcp now acl text remote opened written answer s g = (case Acquire now text g of
     (g, None) \<Rightarrow> (s, g, None, [], Refused_Guard)
   | (g, Some t) \<Rightarrow> (case handleTCPClient now acl remote opened written answer s of
       (s, sent, r) \<Rightarrow> (s, g, Some t, sent, r)))"

section \<open>Runs\<close>

text \<open>
  The datagram loops and the operations of the agent manager on one session, in any order. A packet of a
  client carries the number of sends to the agent that succeed.
\<close>

datatype relay_event =
    FromClient "bytes option list" AddrPort bytes nat
  | FromAgent bytes
  | AddRoute u32 nat | DropRoute u32 nat
  | RemoveClient u32 | SweepClients "u32 list" | CleanFragments "reassemblyKey list"
  | StopCleaner "reassemblyKey list"
  | EndSession "u32 list"

definition collect :: "nat \<Rightarrow> (bytes list, unit) handler" where
  "collect n sent d = (if length sent < n then (sent @ [d], None) else (sent, Some ()))"

fun relay_step :: "acl_manager \<Rightarrow> relay_event \<Rightarrow> time \<Rightarrow> AgentSession \<Rightarrow> AgentSession \<times> relay_out option" where
  "relay_step acl (FromClient draws addr packet n) now s =
     (if as_closed s then (s, None)
      else case receive_from_client now acl draws [] addr packet (collect n) s [] of (s, ds) \<Rightarrow> (s, Some (ToAgent ds)))"
| "relay_step acl (FromAgent d) now s = (if as_closed s then (s, None) else receive_from_agent now d s)"
| "relay_step acl (AddRoute sid tr) now s = (registerControllerRoute sid tr s, None)"
| "relay_step acl (DropRoute sid tr) now s = (unregisterControllerRoute sid tr s, None)"
| "relay_step acl (RemoveClient sid) now s = (s\<lparr>as_Sessions := Remove sid (as_Sessions s)\<rparr>, None)"
| "relay_step acl (SweepClients order) now s = (s\<lparr>as_Sessions := sweep now order (as_Sessions s)\<rparr>, None)"
| "relay_step acl (CleanFragments order) now s =
     (s\<lparr>as_Reassembler := cleaner_tick now order (as_Reassembler s)\<rparr>, None)"
| "relay_step acl (StopCleaner order) now s =
     (s\<lparr>as_Reassembler := cleaner_stop order (as_Reassembler s)\<rparr>, None)"
| "relay_step acl (EndSession order) now s = (as_Close order s, None)"

fun relay_run :: "acl_manager \<Rightarrow> (relay_event \<times> time) list \<Rightarrow> AgentSession \<Rightarrow> AgentSession \<times> relay_out option list" where
  "relay_run acl [] s = (s, [])"
| "relay_run acl ((ev, now) # evs) s = (case relay_step acl ev now s of
     (s, r) \<Rightarrow> (case relay_run acl evs s of (s, rs) \<Rightarrow> (s, r # rs)))"

section \<open>The invariant\<close>

definition keyed :: "SessionManager \<Rightarrow> bool" where
  "keyed m \<longleftrightarrow> (\<forall>sid s. fmlookup (byID m) sid = Some s \<longrightarrow> s_key s \<noteq> no_key)"

definition private_routes :: "AgentSession \<Rightarrow> bool" where
  "private_routes s \<longleftrightarrow> (\<forall>sid tr. fmlookup (controllerRoutes s) sid = Some tr \<longrightarrow> \<not> public_id sid)"

definition agent_session_ok :: "AgentSession \<Rightarrow> bool" where
  "agent_session_ok s \<longleftrightarrow> as_DeviceID s \<noteq> [] \<and> sessions_ok (as_Sessions s) \<and> keyed (as_Sessions s) \<and> private_routes s"

text \<open>Routes are only made for numbers that no public client gets; the signaling server gives out no others.\<close>

definition orderly_route :: "relay_event \<Rightarrow> bool" where
  "orderly_route ev \<longleftrightarrow> (case ev of AddRoute sid tr \<Rightarrow> \<not> public_id sid | _ \<Rightarrow> True)"

lemma keyed_touch [simp]: "keyed m \<Longrightarrow> keyed (touch_id now sid m)"
  by (auto simp: keyed_def touch_id_def touch_def split: option.splits)

lemma keyed_Remove [simp]: "keyed m \<Longrightarrow> keyed (Remove sid m)"
  by (auto simp: keyed_def Remove_def split: option.splits)

lemma keyed_fold [simp]: "keyed m \<Longrightarrow> keyed (fold Remove sids m)"
  by (induction sids arbitrary: m) simp_all

lemma keyed_sweep [simp]: "keyed m \<Longrightarrow> keyed (sweep now order m)"
  by (simp add: sweep_def)

lemma keyed_Close [simp]: "keyed m \<Longrightarrow> keyed (sm_Close order m)"
  by (simp add: keyed_def sm_Close_def)

lemma keyed_create:
  assumes "keyed m" "key \<noteq> no_key"
  shows "keyed (fst (GetOrCreateByKey now draws key m))"
proof (cases rule: GetOrCreate_cases [of m key now draws])
  case (counted r)
  then show ?thesis using assms by (simp add: keyed_def)
next
  case (created sid s)
  then show ?thesis using assms by (simp add: keyed_def)
qed (use assms in simp_all)

lemma client_key_ok: "as_DeviceID s \<noteq> [] \<Longrightarrow> client_key s addr \<noteq> no_key"
  by (simp add: client_key_def no_key_def)

text \<open>What a packet of a client leaves behind.\<close>

lemma receive_from_client_frame:
  assumes "receive_from_client now acl draws buf addr packet send s t = (s', t')"
  shows "as_DeviceID s' = as_DeviceID s" "as_PublicPort s' = as_PublicPort s" "controllerRoutes s' = controllerRoutes s"
    "as_Reassembler s' = as_Reassembler s" "as_closed s' = as_closed s"
    "as_Sessions s' = (if IsAllowedAddr now (ap_addr addr) acl
       then fst (GetOrCreateByKey now draws (client_key s addr) (as_Sessions s)) else as_Sessions s)"
  using assms by (auto simp: receive_from_client_def NextPacketID_def Let_def split: prod.splits option.splits if_splits)

lemma receive_from_agent_frame:
  assumes "receive_from_agent now d s = (s', r)"
  shows "as_DeviceID s' = as_DeviceID s" "as_PublicPort s' = as_PublicPort s" "controllerRoutes s' = controllerRoutes s"
    "as_closed s' = as_closed s"
    "as_Sessions s' = as_Sessions s \<or> (\<exists>sid. as_Sessions s' = touch_id now sid (as_Sessions s))"
  using assms by (auto simp: receive_from_agent_def GetByID_def split: sum.splits option.splits prod.splits)

lemma relay_step_ok [invs]:
  assumes "agent_session_ok s" "orderly_route ev" "relay_step acl ev now s = (s', r)"
  shows "agent_session_ok s'"
proof (cases ev)
  case (FromClient draws addr packet n)
  show ?thesis
  proof (cases "as_closed s")
    case False
    obtain t' where "receive_from_client now acl draws [] addr packet (collect n) s [] = (s', t')"
      using assms(3) False FromClient by (auto split: prod.splits)
    from receive_from_client_frame [OF this] show ?thesis
      using assms(1) by (auto simp: agent_session_ok_def private_routes_def invs intro!: keyed_create client_key_ok)
  qed (use assms FromClient in simp)
next
  case (FromAgent d)
  show ?thesis
  proof (cases "as_closed s")
    case False
    then have "receive_from_agent now d s = (s', r)" using assms(3) FromAgent by simp
    from receive_from_agent_frame [OF this] show ?thesis
      using assms(1) by (auto simp: agent_session_ok_def private_routes_def invs)
  qed (use assms FromAgent in simp)
qed (use assms in \<open>auto simp: agent_session_ok_def private_routes_def orderly_route_def registerControllerRoute_def
       unregisterControllerRoute_def as_Close_def invs split: if_splits\<close>)

lemma relay_run_ok [invs]:
  "agent_session_ok s \<Longrightarrow> \<forall>(ev, now)\<in>set evs. orderly_route ev \<Longrightarrow> agent_session_ok (fst (relay_run acl evs s))"
proof (induction evs arbitrary: s)
  case (Cons e evs)
  obtain ev now where e: "e = (ev, now)" by fastforce
  obtain s1 r where 1: "relay_step acl ev now s = (s1, r)" by force
  have "agent_session_ok s1" using Cons.prems relay_step_ok [OF Cons.prems(1) _ 1] by (auto simp: e)
  then have "agent_session_ok (fst (relay_run acl evs s1))" using Cons.IH Cons.prems(2) by simp
  moreover have "fst (relay_run acl (e # evs) s) = fst (relay_run acl evs s1)"
    using 1 by (simp add: e case_prod_unfold)
  ultimately show ?case by simp
qed simp

text \<open>What a session number in the tables of an agent stands for.\<close>

lemma tables_byID:
  "tables_ok ids keys \<Longrightarrow> fmlookup ids sid = Some sess \<Longrightarrow> s_key sess \<noteq> no_key \<Longrightarrow>
     fmlookup keys (s_key sess) = Some sid"
  by (auto simp: tables_ok_def)

lemma tables_byKey:
  assumes "tables_ok ids keys" "fmlookup keys key = Some sid"
  obtains sess where "public_id sid" "fmlookup ids sid = Some sess" "s_ID sess = sid" "s_key sess = key"
proof -
  have "public_id sid \<and> (\<exists>s. fmlookup ids sid = Some s \<and> s_key s = key)"
    using assms unfolding tables_ok_def by blast
  then obtain sess where "public_id sid" "fmlookup ids sid = Some sess" "s_key sess = key" by blast
  moreover have "s_ID sess = sid" using assms(1) calculation(2) unfolding tables_ok_def by blast
  ultimately show thesis by (rule_tac that)
qed

lemma session_of_id:
  assumes "agent_session_ok s" "fmlookup (byID (as_Sessions s)) sid = Some sess"
  shows "fmlookup (byKey (as_Sessions s)) (s_key sess) = Some sid \<and> public_id sid"
proof -
  have t: "tables_ok (byID (as_Sessions s)) (byKey (as_Sessions s))" "s_key sess \<noteq> no_key"
    using assms by (auto simp: agent_session_ok_def keyed_def sessions_ok_def)
  have 1: "fmlookup (byKey (as_Sessions s)) (s_key sess) = Some sid"
    by (rule tables_byID [OF t(1) assms(2) t(2)])
  have "public_id sid" by (rule tables_byKey [OF t(1) 1])
  with 1 show ?thesis by simp
qed

lemma GetOrCreate_bound:
  assumes "sessions_ok m" "GetOrCreateByKey now draws key m = (m', c)" "session_for c = Some sess"
  shows "bound_to key (s_ID sess) m'"
proof (cases rule: GetOrCreate_cases [of m key now draws])
  case (existing sid)
  have "tables_ok (byID m) (byKey m)" using assms(1) by (simp add: sessions_ok_def)
  then obtain x where x: "fmlookup (byID m) sid = Some x" "s_ID x = sid" "s_key x = key"
    using existing(1) by (rule tables_byKey)
  have "m' = touch_id now sid m" "c = Existing (touch now x)"
    using assms(2) existing(2) x(1) by simp_all
  moreover from this(2) have "sess = touch now x" using assms(3) by (simp add: session_for_def)
  ultimately have "m' = touch_id now sid m" "sess = touch now x" by simp_all
  then show ?thesis using existing(1) x by (simp add: bound_to_def touch_id_def touch_def)
qed (use assms(2,3) in \<open>auto simp: session_for_def bound_to_def\<close>)

lemma bound_public: "sessions_ok m \<Longrightarrow> bound_to key sid m \<Longrightarrow> public_id sid"
  unfolding sessions_ok_def bound_to_def by (elim conjE, erule (1) tables_byKey)

lemma collect_prefix:
  "fst (feed_handler (collect n) sent ds) = sent @ take (n - length sent) ds"
proof (induction ds arbitrary: sent)
  case (Cons d ds)
  show ?case
  proof (cases "length sent < n")
    case True
    then have "n - length sent = Suc (n - length (sent @ [d]))" by simp
    then show ?thesis using True Cons [of "sent @ [d]"] by (simp add: collect_def)
  qed (simp add: collect_def)
qed simp

lemma Fragment_collect:
  "set (fst (Fragment f buf sid pid packet (collect n) [])) \<subseteq> set (case datagrams f sid pid packet of None \<Rightarrow> [] | Some ds \<Rightarrow> ds)"
  by (auto simp: Fragment_datagrams collect_prefix split: option.splits dest: in_set_takeD)

lemma datagrams_session:
  assumes "datagrams f sid pid packet = Some ds" "d \<in> set ds"
  shows "\<exists>hdr payload. DecodeUDP d = Inr (hdr, payload) \<and> SessionID hdr = sid"
proof (cases "packet = []")
  case True
  then have "d = EncodeUDP [] sid pid (of_nat 0) (of_nat 1) (chunk f [] 0)" using assms by (auto simp: datagrams_def)
  then show ?thesis using datagram_decodes [of 0 1 "[]" sid pid f "[]"] by (simp add: udp_consts data_header_def)
next
  case False
  then obtain i where "i < numFrags f packet" "numFrags f packet \<le> MaxUDPFragments"
    "d = EncodeUDP [] sid pid (of_nat i) (of_nat (numFrags f packet)) (chunk f packet i)"
    using assms by (auto simp: datagrams_def split: if_splits)
  then show ?thesis using datagram_decodes [of i "numFrags f packet" "[]" sid pid f packet] by (simp add: data_header_def)
qed

lemma Fragment_session:
  "\<forall>d\<in>set (fst (Fragment f buf sid pid packet (collect n) [])). \<exists>hdr payload. DecodeUDP d = Inr (hdr, payload) \<and> SessionID hdr = sid"
proof
  fix d assume "d \<in> set (fst (Fragment f buf sid pid packet (collect n) []))"
  then have "d \<in> set (case datagrams f sid pid packet of None \<Rightarrow> [] | Some ds \<Rightarrow> ds)"
    using Fragment_collect [of f buf sid pid packet n] by blast
  then obtain ds where "datagrams f sid pid packet = Some ds" "d \<in> set ds"
    by (cases "datagrams f sid pid packet") simp_all
  then show "\<exists>hdr payload. DecodeUDP d = Inr (hdr, payload) \<and> SessionID hdr = sid" by (rule datagrams_session)
qed

section \<open>Properties\<close>

text \<open>
  C14: No crossing between clients and controllers. In every state of an agent's session on the relay: a
  datagram handed to a controller came from the agent for the route of that controller, whose number no
  public client has, and is unchanged; a packet handed to a client came for the session of just that
  address, whose number no controller has; and what is sent to the agent for a client comes from an address
  that the access rules allow, as datagrams of the session of that address.
\<close>

theorem relay_isolation:
  assumes "as_DeviceID s0 \<noteq> []" "sessions_ok (as_Sessions s0)" "byID (as_Sessions s0) = fmempty" "controllerRoutes s0 = fmempty"
    "\<forall>(ev, now)\<in>set evs. orderly_route ev" "s = fst (relay_run acl evs s0)"
    "relay_step acl ev now s = (s', Some out)"
  shows "case out of
      ToController tr d \<Rightarrow> ev = FromAgent d \<and> (\<exists>hdr payload. DecodeUDP d = Inr (hdr, payload)
        \<and> \<not> public_id (SessionID hdr) \<and> controllerRoute (SessionID hdr) s = Some tr)
    | ToClient packet addr \<Rightarrow> (\<exists>d hdr payload sess. ev = FromAgent d \<and> DecodeUDP d = Inr (hdr, payload)
        \<and> public_id (SessionID hdr) \<and> fmlookup (byID (as_Sessions s)) (SessionID hdr) = Some sess
        \<and> k_ClientAddr (s_key sess) = addr \<and> fmlookup (byKey (as_Sessions s)) (s_key sess) = Some (SessionID hdr))
    | ToAgent ds \<Rightarrow> (\<exists>draws addr packet n. ev = FromClient draws addr packet n
        \<and> (ds \<noteq> [] \<longrightarrow> IsAllowedAddr now (ap_addr addr) acl \<and> (\<exists>sid. public_id sid
             \<and> fmlookup (byKey (as_Sessions s')) (client_key s addr) = Some sid
             \<and> (\<forall>d\<in>set ds. \<exists>hdr payload. DecodeUDP d = Inr (hdr, payload) \<and> SessionID hdr = sid))))"
proof -
  have ok: "agent_session_ok s"
    unfolding assms(6) using assms(1-5)
    by (intro relay_run_ok) (simp_all add: agent_session_ok_def keyed_def private_routes_def)
  show ?thesis
  proof (cases ev)
    case (FromAgent d)
    then have "receive_from_agent now d s = (s', Some out)" using assms(7) by (simp split: if_splits)
    then show ?thesis
      using FromAgent ok session_of_id [OF ok]
      by (auto simp: receive_from_agent_def GetByID_def controllerRoute_def agent_session_ok_def private_routes_def touch_def
          split: sum.splits option.splits prod.splits)
  next
    case (FromClient draws addr packet n)
    then obtain ds where r: "receive_from_client now acl draws [] addr packet (collect n) s [] = (s', ds)" "out = ToAgent ds"
      using assms(7) by (auto split: if_splits prod.splits)
    show ?thesis
    proof (cases "ds = []")
      case False
      obtain m c where m: "GetOrCreateByKey now draws (client_key s addr) (as_Sessions s) = (m, c)" by force
      then obtain sess pid where *: "IsAllowedAddr now (ap_addr addr) acl" "session_for c = Some sess" "as_Sessions s' = m"
        "ds = fst (Fragment (as_Fragmenter s) [] (s_ID sess) pid packet (collect n) [])"
        using r(1) False by (auto simp: receive_from_client_def NextPacketID_def Let_def split: if_splits option.splits)
      have s: "sessions_ok (as_Sessions s)" using ok by (simp add: agent_session_ok_def)
      have b: "bound_to (client_key s addr) (s_ID sess) m" by (rule GetOrCreate_bound [OF s m *(2)])
      have "sessions_ok m" using GetOrCreate_ok [OF s, of now draws "client_key s addr"] m by simp
      then have "public_id (s_ID sess)" by (rule bound_public [OF _ b])
      moreover have "\<forall>d\<in>set ds. \<exists>hdr payload. DecodeUDP d = Inr (hdr, payload) \<and> SessionID hdr = s_ID sess"
        unfolding *(4) by (rule Fragment_session)
      ultimately show ?thesis using * b r(2) FromClient by (auto simp: bound_to_def)
    qed (use r FromClient in simp)
  qed (use assms(7) in auto)
qed

definition sample_session :: AgentSession where
  "sample_session = \<lparr>as_DeviceID = ''pc'', as_Hostname = ''host'', as_PublicPort = 50000, as_conn = 1,
     as_Sessions = NewSessionManager 0, as_Reassembler = NewReassembler 0, as_Fragmenter = NewFragmenter 0,
     as_RDPOnline = False, as_LastSeen = 0, as_nextConnID = 0, as_nextPacketID = 0, as_closed = False,
     controllerRoutes = fmempty\<rparr>"

definition sample_acl_open :: acl_manager where
  "sample_acl_open = \<lparr>defaultAllow = True, staticPrefixes = [], tempIPs = fmempty\<rparr>"

lemma relay_isolation_witness:
  "\<exists>hdr payload. DecodeUDP (EncodeUDP [] 0x80000001 7 0 1 [9]) = Inr (hdr, payload) \<and> \<not> public_id (SessionID hdr)"
proof -
  let ?d = "EncodeUDP [] 0x80000001 7 0 1 [9]" and ?evs = "[(AddRoute 0x80000001 5, 0)]"
  have d: "DecodeUDP ?d = Inr (data_header 0x80000001 7 0 1, [9])"
    using datagram_decodes [of 0 1 "[]" "0x80000001" 7 "NewFragmenter 0" "[9]"]
    by (simp add: udp_consts chunk_eq NewFragmenter_def DefaultMaxUDPPayload_def)
  have *: "as_DeviceID sample_session \<noteq> []" "sessions_ok (as_Sessions sample_session)"
    "byID (as_Sessions sample_session) = fmempty" "controllerRoutes sample_session = fmempty"
    by (simp_all add: sample_session_def NewSessionManager_def New_sessions_ok)
      (simp add: NewSessionManagerWithLimits_def)
  have "\<forall>(ev, now)\<in>set ?evs. orderly_route ev"
    by (simp add: orderly_route_def public_id_def)
  from relay_isolation [OF * this refl, of sample_acl_open "FromAgent ?d" 1 _ "ToController 5 ?d"]
  show ?thesis
    by (simp add: sample_session_def receive_from_agent_def d registerControllerRoute_def controllerRoute_def data_header_def)
qed

section \<open>A reply finds its client\<close>

text \<open>The datagrams of a packet of the agent, as they arrive at given times.\<close>

definition reply_events :: "Fragmenter \<Rightarrow> u32 \<Rightarrow> u32 \<Rightarrow> bytes \<Rightarrow> (time \<times> nat) list \<Rightarrow> (relay_event \<times> time) list" where
  "reply_events f sid pid packet arrivals = map (\<lambda>(now, i).
     (FromAgent (EncodeUDP [] sid pid (of_nat i) (of_nat (numFrags f packet)) (chunk f packet i)), now)) arrivals"

definition deliver :: "AddrPort \<Rightarrow> reassembly_error + bytes option \<Rightarrow> relay_out option" where
  "deliver addr res = (case res of Inr (Some p) \<Rightarrow> Some (ToClient p addr) | _ \<Rightarrow> None)"

lemma GetByID_bound:
  "bound_to key sid m \<Longrightarrow> GetByID now sid m = (m', r) \<Longrightarrow> bound_to key sid m' \<and> map_option s_key r = Some key"
  by (auto simp: GetByID_def bound_to_def touch_id_def touch_def)

lemma receive_reply:
  assumes "bound_to key sid (as_Sessions s)" "controllerRoute sid s = None"
    "DecodeUDP d = Inr (hdr, payload)" "SessionID hdr = sid"
    "FeedAppend now False hdr payload (as_Reassembler s) = (r, res)" "receive_from_agent now d s = (s', out)"
  shows "out = deliver (k_ClientAddr key) res" "as_Reassembler s' = r" "bound_to key sid (as_Sessions s')"
    "controllerRoute sid s' = None" "as_closed s' = as_closed s"
proof -
  obtain m sess where m: "GetByID now sid (as_Sessions s) = (m, sess)" by force
  from GetByID_bound [OF assms(1) m] have "bound_to key sid m" "map_option s_key sess = Some key" by simp_all
  then show "out = deliver (k_ClientAddr key) res" "as_Reassembler s' = r" "bound_to key sid (as_Sessions s')"
    "controllerRoute sid s' = None" "as_closed s' = as_closed s"
    using assms m by (auto simp: receive_from_agent_def deliver_def controllerRoute_def split: sum.splits option.splits)
qed

lemma relay_run_reply:
  assumes "numFrags f packet \<le> MaxUDPFragments" "\<forall>(now, i)\<in>set arrivals. i < numFrags f packet"
    "bound_to key sid (as_Sessions s)" "controllerRoute sid s = None" "\<not> as_closed s"
  shows "snd (relay_run acl (reply_events f sid pid packet arrivals) s)
    = map (deliver (k_ClientAddr key)) (snd (feed_indices False f sid pid packet arrivals (as_Reassembler s)))"
  using assms(2-5)
proof (induction arrivals arbitrary: s)
  case (Cons a arrivals)
  obtain now i where a: "a = (now, i)" by force
  let ?d = "EncodeUDP [] sid pid (of_nat i) (of_nat (numFrags f packet)) (chunk f packet i)"
  have i: "i < numFrags f packet" using Cons.prems(1) by (simp add: a)
  obtain r res where f: "FeedAppend now False (fragment_header f sid pid packet i) (chunk f packet i) (as_Reassembler s) = (r, res)"
    by force
  obtain s1 out where s1: "receive_from_agent now ?d s = (s1, out)" by force
  have "DecodeUDP ?d = Inr (fragment_header f sid pid packet i, chunk f packet i)"
    "SessionID (fragment_header f sid pid packet i) = sid"
    using datagram_decodes [OF i assms(1)] by (simp_all add: fragment_header_def data_header_def)
  note s1' = receive_reply [OF Cons.prems(2,3) this f s1]
  have "snd (relay_run acl (reply_events f sid pid packet arrivals) s1)
      = map (deliver (k_ClientAddr key)) (snd (feed_indices False f sid pid packet arrivals r))"
    using Cons.IH [OF _ s1'(3,4)] s1'(2,5) Cons.prems(1,4) by simp
  then show ?case
    using s1 s1'(1) f Cons.prems(4) by (simp add: a reply_events_def case_prod_unfold)
qed (simp add: reply_events_def)

text \<open>
  C19: A reply finds its client. Let a packet of a client be taken, and the agent answer in the client's
  session with a packet of 2 to 64 fragments whose datagrams reach the relay in any order and repeated at
  will. Then every datagram but the one that completes the set is answered with nothing, and that one with
  the whole packet, sent to the address the client's packet came from.
\<close>

theorem reply_returns_to_client:
  assumes "agent_session_ok s" "\<not> as_closed s" "IsAllowedAddr now (ap_addr addr) acl"
    "session_for (snd (GetOrCreateByKey now draws (client_key s addr) (as_Sessions s))) = Some sess"
    "receive_from_client now acl draws buf addr packet send s t = (s', t')"
    "multi_fragment f reply" "reassembler_ok (as_Reassembler s)" "\<not> closed (as_Reassembler s)"
    "fmlookup (pending (as_Reassembler s)) (s_ID sess, pid) = None"
    "fsize (pending (as_Reassembler s)) < MaxGlobalReassemblyCount"
    "count_of (sessionCount (as_Reassembler s)) (s_ID sess) < MaxReassemblyPerSession"
    "snd ` set arrivals = {..<numFrags f reply} - {i}" "i < numFrags f reply"
  shows "snd (relay_run acl (reply_events f (s_ID sess) pid reply (arrivals @ [(later, i)])) s')
    = replicate (length arrivals) None @ [Some (ToClient reply addr)]"
proof -
  note fr = receive_from_client_frame [OF assms(5)]
  have ok: "sessions_ok (as_Sessions s)" "private_routes s" using assms(1) by (simp_all add: agent_session_ok_def)
  obtain m c where m: "GetOrCreateByKey now draws (client_key s addr) (as_Sessions s) = (m, c)" by force
  have s': "as_Sessions s' = m" using fr(6) assms(3) m by simp
  have b: "bound_to (client_key s addr) (s_ID sess) m"
    using GetOrCreate_bound [OF ok(1) m] assms(4) m by simp
  have "sessions_ok m" using GetOrCreate_ok [OF ok(1), of now draws "client_key s addr"] m by simp
  then have "public_id (s_ID sess)" by (rule bound_public [OF _ b])
  then have "controllerRoute (s_ID sess) s' = None"
    using ok(2) fr(3) by (auto simp: private_routes_def controllerRoute_def)
  moreover have "\<forall>(now, j)\<in>set (arrivals @ [(later, i)]). j < numFrags f reply"
    using assms(12,13) by force
  ultimately have "snd (relay_run acl (reply_events f (s_ID sess) pid reply (arrivals @ [(later, i)])) s')
      = map (deliver addr) (snd (feed_indices False f (s_ID sess) pid reply (arrivals @ [(later, i)]) (as_Reassembler s')))"
    using relay_run_reply [of f reply _ "client_key s addr" "s_ID sess" s' acl pid] assms(2,6) b s' fr(5)
    by (simp add: multi_fragment_def client_key_def)
  also have "\<dots> = replicate (length arrivals) None @ [Some (ToClient reply addr)]"
    using feed_all [OF assms(6-13)] fr(4) by (simp add: deliver_def)
  finally show ?thesis .
qed

lemma sample_session_sessions: "as_Sessions sample_session = NewSessionManager 0"
  by (simp add: sample_session_def)

lemma reply_returns_to_client_witness:
  "snd (relay_run sample_acl_open (reply_events (NewFragmenter 2) 5 9 sample_packet ([(201, 2), (202, 0)] @ [(203, 1)]))
     (fst (receive_from_client 100 sample_acl_open [Some [0, 0, 0, 0], Some [0x80, 0, 0, 5]] []
        (k_ClientAddr sample_client) [1] (collect 1) sample_session [])))
    = [None, None, Some (ToClient sample_packet (k_ClientAddr sample_client))]"
proof -
  let ?r = "receive_from_client 100 sample_acl_open [Some [0, 0, 0, 0], Some [0x80, 0, 0, 5]] []
        (k_ClientAddr sample_client) [1] (collect 1) sample_session []"
  have key: "client_key sample_session (k_ClientAddr sample_client) = sample_client"
    by (simp add: client_key_def sample_session_def sample_client_def)
  have ok: "agent_session_ok sample_session" "\<not> as_closed sample_session"
    by (simp_all add: agent_session_ok_def keyed_def private_routes_def sample_session_def NewSessionManager_def New_sessions_ok)
      (simp add: NewSessionManagerWithLimits_def)
  have allowed: "IsAllowedAddr 100 (ap_addr (k_ClientAddr sample_client)) sample_acl_open"
    by (simp add: IsAllowedAddr_def sample_acl_open_def Let_def)
  have sess: "session_for (snd (GetOrCreateByKey 100 [Some [0, 0, 0, 0], Some [0x80, 0, 0, 5]]
      (client_key sample_session (k_ClientAddr sample_client)) (as_Sessions sample_session)))
    = Some \<lparr>s_ID = 5, s_key = sample_client, s_Conn = None, s_LastSeen = 100\<rparr>"
    unfolding key by (subst sample_created [folded sample_session_sessions]) (simp add: session_for_def)
  have ra: "reassembler_ok (as_Reassembler sample_session)" "\<not> closed (as_Reassembler sample_session)"
    "fmlookup (pending (as_Reassembler sample_session)) (5, 9) = None"
    "fsize (pending (as_Reassembler sample_session)) < MaxGlobalReassemblyCount"
    "count_of (sessionCount (as_Reassembler sample_session)) 5 < MaxReassemblyPerSession"
    by (simp_all add: sample_session_def NewReassembler_ok)
      (simp_all add: NewReassembler_def MaxGlobalReassemblyCount_def MaxReassemblyPerSession_def)
  have arr: "snd ` set [(201 :: time, 2), (202, 0)] = {..<numFrags (NewFragmenter 2) sample_packet} - {1}"
    "1 < numFrags (NewFragmenter 2) sample_packet"
    by (auto simp: numFrags_sample)
  have "snd (relay_run sample_acl_open (reply_events (NewFragmenter 2) 5 9 sample_packet ([(201, 2), (202, 0)] @ [(203, 1)]))
      (fst ?r)) = replicate (length [(201 :: time, 2 :: nat), (202, 0)]) None
        @ [Some (ToClient sample_packet (k_ClientAddr sample_client))]"
    by (rule reply_returns_to_client [OF ok allowed sess prod.collapse [symmetric, of ?r] multi_fragment_sample ra(1,2),
          simplified UDPSession.simps, OF ra(3-5) arr])
  then show ?thesis by (simp add: eval_nat_numeral)
qed

end
