(* ===== verification/Agent_Manager.thy ===== *)
theory Agent_Manager
  imports Storage Agent_Session Signaling Port_Manager Runs
begin

text \<open>
  The manager of agents on the relay, \<open>internal/relay/agent_manager.go\<close>: the handshake that authenticates
  a connection or enrols its device, the registration of an agent, the session of a controller, the tables
  of agents that are online, and the policy that says which controller may reach which device. It composes
  the components that the code composes: storage, the guards, the port manager, the signaling server, and
  a session per agent.

  Each connection is handled by a goroutine of its own. A connection is a number, which also stands for its
  transport, its control stream and its writer, and its phase says where its goroutine is. The steps of one
  goroutine between two points where another can make a difference are one event.
\<close>

definition minDeviceSecretBytes :: nat where "minDeviceSecretBytes = 32"
definition maxDeviceSecretBytes :: nat where "maxDeviceSecretBytes = 4096"
definition maxEnrollmentTokenBytes :: nat where "maxEnrollmentTokenBytes = 4096"
definition maxDeviceIDBytes :: nat where "maxDeviceIDBytes = 128"
definition maxConcurrentStreams :: nat where "maxConcurrentStreams = 128"

definition device_char :: "char \<Rightarrow> bool" where
  "device_char c \<longleftrightarrow> (let n = of_char c :: nat in
     97 \<le> n \<and> n \<le> 122 \<or> 65 \<le> n \<and> n \<le> 90 \<or> 48 \<le> n \<and> n \<le> 57 \<or> n = 45 \<or> n = 95 \<or> n = 46)"

definition validDeviceID :: "string \<Rightarrow> bool" where
  "validDeviceID dev \<longleftrightarrow> dev \<noteq> [] \<and> length dev \<le> maxDeviceIDBytes \<and> list_all device_char dev"

definition hashSecret :: "string \<Rightarrow> string" where
  "hashSecret secret = hex_encode (sha256 (string_bytes secret))"

section \<open>State\<close>

text \<open>What the handshake has established about a connection.\<close>

record auth =
  au_DeviceID :: string
  au_Secret :: string
  au_SecretHash :: string
  au_Token :: string
  au_New :: bool

datatype phase =
    AwaitAuth | AwaitRetry auth | AwaitInit auth
  | Allocated auth ControlMessage u16 | Persisted auth ControlMessage u16
  | Bound auth ControlMessage | Listed auth ControlMessage | Serving auth | Leaving auth
  | Controlling auth string u32 nat
  | Ended

record connection =
  c_addr :: "string option"
  c_ticket :: nat
  c_phase :: phase
  c_streams :: nat

record relay_config =
  PublicHost :: string
  MaxConnectionsPerIP :: int
  MaxConnectionRatePerMinute :: int
  MaxEnrollmentRatePerMinute :: int
  MaxPublicTCPPerIP :: int
  MaxPublicTCPRatePerSecond :: int
  EnrollmentInvitations :: "(string \<times> string \<times> time) list"
  SessionIdleTimeout :: time
  MaxSessionsPerAgent :: int
  MaxUDPSessionsPerIP :: int
  MaxSessionCreateRate :: int
  ReassemblyTimeout :: time
  DatagramPayload :: int

record AgentManager =
  am_config :: relay_config
  allowAll :: bool
  access :: "(string, string list) fmap"
  am_db :: "DB option"
  am_acl :: acl_manager
  portManager :: PortManager
  coordinator :: SessionCoordinator
  connectionGuard :: IPGuard
  enrollmentGuard :: IPGuard
  publicTCPGuard :: IPGuard
  agentsByDevice :: "(string, nat) fmap"
  agentsByPort :: "(u16, nat) fmap"
  am_sessions :: "(nat, AgentSession) fmap"
  am_conns :: "(nat, connection) fmap"
  am_next :: nat

text \<open>
  What the environment decides in one event: the clock, which database queries of the handler fail, whether
  the writes of the handler succeed, the random token, iteration orders, and whether the ports
  can be bound as far as other programs are concerned, with the text of the error.
\<close>

record env =
  e_now :: time
  e_fails :: "nat \<Rightarrow> bool"
  e_sent :: bool
  e_notify :: bool
  e_rnd :: "bytes option"
  e_order :: "u32 list"
  e_ids :: "u32 list"
  e_rows :: "string list"
  e_tcp :: bool
  e_udp :: bool
  e_error :: string

type_synonym outbox = "(nat \<times> ControlMessage) list"

section \<open>Access policy\<close>

definition isAllowed :: "string \<Rightarrow> string list \<Rightarrow> bool" where
  "isAllowed cid controllers \<longleftrightarrow> list_ex (\<lambda>c. c = ''*'' \<or> c = cid) controllers"

definition access_list :: "AgentManager \<Rightarrow> string \<Rightarrow> string list" where
  "access_list m tid = (case fmlookup (access m) tid of Some cs \<Rightarrow> cs | None \<Rightarrow> [])"

definition controllerCanAccess :: "AgentManager \<Rightarrow> string \<Rightarrow> string \<Rightarrow> bool" where
  "controllerCanAccess m cid tid \<longleftrightarrow>
     (if cid = [] \<or> tid = [] then False
      else if allowAll m then True
      else isAllowed cid (access_list m tid) \<or> isAllowed cid (access_list m ''*''))"

definition UpdateAccessPolicy :: "bool \<Rightarrow> (string, string list) fmap option \<Rightarrow> AgentManager \<Rightarrow> AgentManager" where
  "UpdateAccessPolicy every acc m =
     m\<lparr>allowAll := every, access := (case acc of Some a \<Rightarrow> a | None \<Rightarrow> access m)\<rparr>"

text \<open>The signaling server with the policy as it is now.\<close>

definition coord :: "AgentManager \<Rightarrow> SessionCoordinator" where
  "coord m = SetAuthorizer (controllerCanAccess m) (coordinator m)"

section \<open>Connections\<close>

definition set_phase :: "nat \<Rightarrow> phase \<Rightarrow> AgentManager \<Rightarrow> AgentManager" where
  "set_phase c p m = m\<lparr>am_conns := (case fmlookup (am_conns m) c of
     Some k \<Rightarrow> fmupd c (k\<lparr>c_phase := p\<rparr>) (am_conns m) | None \<Rightarrow> am_conns m)\<rparr>"

definition phase_of :: "AgentManager \<Rightarrow> nat \<Rightarrow> phase" where
  "phase_of m c = (case fmlookup (am_conns m) c of Some k \<Rightarrow> c_phase k | None \<Rightarrow> Ended)"

text \<open>The deferred calls that every connection ends with: the slot of the guard is given back.\<close>

definition finish :: "env \<Rightarrow> nat \<Rightarrow> AgentManager \<Rightarrow> AgentManager" where
  "finish e c m = (case fmlookup (am_conns m) c of
     None \<Rightarrow> m
   | Some k \<Rightarrow> set_phase c Ended (m\<lparr>connectionGuard := release (e_now e) (c_ticket k) (connectionGuard m)\<rparr>))"

definition refuse :: "env \<Rightarrow> nat \<Rightarrow> ControlMessage \<Rightarrow> AgentManager \<Rightarrow> AgentManager \<times> outbox" where
  "refuse e c msg m = (finish e c m, [(c, msg)])"

definition accept_connection :: "env \<Rightarrow> string option \<Rightarrow> AgentManager \<Rightarrow> AgentManager" where
  "accept_connection e addr m = (case Acquire (e_now e) addr (connectionGuard m) of
     (g, None) \<Rightarrow> m\<lparr>connectionGuard := g\<rparr>
   | (g, Some t) \<Rightarrow> m\<lparr>connectionGuard := g, am_next := am_next m + 1,
       am_conns := fmupd (am_next m) \<lparr>c_addr = addr, c_ticket = t, c_phase = AwaitAuth, c_streams = 0\<rparr> (am_conns m)\<rparr>)"

section \<open>Authentication\<close>

datatype auth_step = Refuse ControlMessage | NeedInvitation auth | Checked auth

text \<open>
  A device that is known but gave another secret may enrol anew: the token to go on with, or \<open>None\<close>. The
  queries of the handler are numbered.
\<close>

definition re_enroll :: "env \<Rightarrow> ControlMessage \<Rightarrow> DB \<Rightarrow> string option" where
  "re_enroll e msg db =
     (let dev = m_DeviceID msg; now = e_now e in
      if m_EnrollmentToken msg \<noteq> [] then
        (if \<not> e_fails e 1 \<and> ValidateEnrollmentInvitation dev (m_EnrollmentToken msg) now db
         then Some (m_EnrollmentToken msg) else None)
      else if \<not> e_fails e 1 \<and> ValidateEnrollmentInvitation dev (m_Secret msg) now db then Some (m_Secret msg)
      else if \<not> e_fails e 2 \<and> list_ex (\<lambda>i. i_DeviceID i = dev \<and> i_ConsumedAt i = None \<and> i_ExpiresAt i > now)
                (ListEnrollmentInvitations (e_rows e) db)
      then Some [] else None)"

definition enroll_check :: "env \<Rightarrow> auth \<Rightarrow> DB \<Rightarrow> auth_step" where
  "enroll_check e a db =
     (if length (au_Token a) > maxEnrollmentTokenBytes
      then Refuse (error_message 400 ''enrollment invitation exceeds maximum size'')
      else if e_fails e 4 then Refuse (error_message 503 ''enrollment service unavailable'')
      else if \<not> ValidateEnrollmentInvitation (au_DeviceID a) (au_Token a) (e_now e) db
      then Refuse (error_message 401 ''enrollment invitation is invalid, expired, or already consumed'')
      else if length (au_Secret a) < minDeviceSecretBytes
      then Refuse (error_message 400 ''new device secret must be at least 32 bytes'')
      else Checked a)"

definition enroll_begin :: "env \<Rightarrow> string option \<Rightarrow> auth \<Rightarrow> DB \<Rightarrow> IPGuard \<Rightarrow> IPGuard \<times> auth_step" where
  "enroll_begin e addr a db g = (case Allow (e_now e) addr g of
     (g, False) \<Rightarrow> (g, Refuse (error_message 429 ''enrollment attempt rate exceeded''))
   | (g, True) \<Rightarrow>
       (g, if au_Token a \<noteq> [] then enroll_check e a db
           else if \<not> e_fails e 3 \<and> ValidateEnrollmentInvitation (au_DeviceID a) (au_Secret a) (e_now e) db
           then enroll_check e (a\<lparr>au_Token := au_Secret a\<rparr>) db
           else NeedInvitation a))"

definition auth_of :: "ControlMessage \<Rightarrow> auth" where
  "auth_of msg = \<lparr>au_DeviceID = m_DeviceID msg, au_Secret = m_Secret msg, au_SecretHash = hashSecret (m_Secret msg),
     au_Token = m_EnrollmentToken msg, au_New = False\<rparr>"

definition auth_begin ::
  "env \<Rightarrow> string option \<Rightarrow> ControlMessage \<Rightarrow> DB option \<Rightarrow> IPGuard \<Rightarrow> IPGuard \<times> auth_step" where
  "auth_begin e addr msg dbo g =
     (if m_Type msg \<noteq> MsgTypeAuth then (g, Refuse (error_message 400 ''expected AUTH message''))
      else if \<not> validDeviceID (m_DeviceID msg) \<or> m_Secret msg = []
      then (g, Refuse (error_message 400 ''invalid device_id or missing secret''))
      else if length (m_Secret msg) > maxDeviceSecretBytes
      then (g, Refuse (error_message 400 ''secret exceeds maximum size''))
      else if m_SecretHash msg \<noteq> []
      then (g, Refuse (error_message 400 ''secret_hash authentication is not supported''))
      else case dbo of
        None \<Rightarrow> (g, Refuse (error_message 503 ''authentication service unavailable''))
      | Some db \<Rightarrow>
          if e_fails e 0 then (g, Refuse (error_message 503 ''authentication service unavailable''))
          else (case GetAgentByDeviceID (m_DeviceID msg) db of
            None \<Rightarrow> enroll_begin e addr ((auth_of msg)\<lparr>au_New := True\<rparr>) db g
          | Some r \<Rightarrow>
              if \<not> a_Enabled r then (g, Refuse (error_message 403 ''device is disabled''))
              else if a_SecretHash r = au_SecretHash (auth_of msg) then (g, Checked (auth_of msg))
              else (case re_enroll e msg db of
                None \<Rightarrow> (g, Refuse (error_message 401 ''invalid secret''))
              | Some tok \<Rightarrow> enroll_begin e addr ((auth_of msg)\<lparr>au_New := True, au_Token := tok\<rparr>) db g)))"

definition auth_retry :: "env \<Rightarrow> auth \<Rightarrow> ControlMessage \<Rightarrow> DB option \<Rightarrow> auth_step" where
  "auth_retry e a msg dbo =
     (if m_Type msg \<noteq> MsgTypeAuth \<or> m_DeviceID msg \<noteq> au_DeviceID a \<or> m_SecretHash msg \<noteq> [] \<or> m_Secret msg \<noteq> au_Secret a
      then Refuse (error_message 400 ''invalid enrollment retry'')
      else case dbo of
        None \<Rightarrow> Refuse (error_message 503 ''enrollment service unavailable'')
      | Some db \<Rightarrow> enroll_check e (a\<lparr>au_Token := m_EnrollmentToken msg\<rparr>) db)"

text \<open>What the connection does with the outcome; after \<open>AUTH_OK\<close> it waits for the next message.\<close>

definition auth_done :: "env \<Rightarrow> nat \<Rightarrow> auth_step \<Rightarrow> AgentManager \<Rightarrow> AgentManager \<times> outbox" where
  "auth_done e c st m = (case st of
     Refuse msg \<Rightarrow> refuse e c msg m
   | NeedInvitation a \<Rightarrow>
       (set_phase c (AwaitRetry a) m, [(c, error_message 428 ''device enrollment invitation required'')])
   | Checked a \<Rightarrow> if e_sent e then (set_phase c (AwaitInit a) m, [(c, message MsgTypeAuthOK)]) else (finish e c m, []))"

section \<open>Live sessions\<close>

definition online_session :: "string \<Rightarrow> AgentManager \<Rightarrow> (nat \<times> AgentSession) option" where
  "online_session dev m = (case fmlookup (agentsByDevice m) dev of
     None \<Rightarrow> None
   | Some c \<Rightarrow> map_option (Pair c) (fmlookup (am_sessions m) c))"

definition agent_by_port :: "u16 \<Rightarrow> AgentManager \<Rightarrow> nat option" where
  "agent_by_port p m = fmlookup (agentsByPort m) p"

definition update_session :: "nat \<Rightarrow> (AgentSession \<Rightarrow> AgentSession) \<Rightarrow> AgentManager \<Rightarrow> AgentManager" where
  "update_session c f m = (case fmlookup (am_sessions m) c of
     Some s \<Rightarrow> m\<lparr>am_sessions := fmupd c (f s) (am_sessions m)\<rparr> | None \<Rightarrow> m)"

definition close_live :: "env \<Rightarrow> string \<Rightarrow> AgentManager \<Rightarrow> AgentManager" where
  "close_live e dev m = (case fmlookup (agentsByDevice m) dev of
     Some c \<Rightarrow> update_session c (as_Close (e_order e)) m | None \<Rightarrow> m)"

section \<open>Controllers\<close>

definition new_row :: "auth \<Rightarrow> string \<Rightarrow> u16 \<Rightarrow> AgentRecord" where
  "new_row a host port = \<lparr>a_DeviceID = au_DeviceID a, a_Hostname = host, a_SecretHash = au_SecretHash a,
     a_PublicPort = port, a_Enabled = True, a_CreatedAt = 0, a_LastSeen = 0\<rparr>"

text \<open>A new device is written to the database, which consumes the invitation.\<close>

definition enroll_row :: "env \<Rightarrow> auth \<Rightarrow> string \<Rightarrow> u16 \<Rightarrow> DB \<Rightarrow> DB option" where
  "enroll_row e a host port db =
     (if e_fails e 5 then None
      else case CreateAgentWithEnrollment (e_now e) (new_row a host port) (au_Token a) (e_now e) db of
        Inr db' \<Rightarrow> Some db' | Inl _ \<Rightarrow> None)"

definition enroll_controller :: "env \<Rightarrow> auth \<Rightarrow> string \<Rightarrow> DB option \<Rightarrow> DB option option" where
  "enroll_controller e a host dbo =
     (if au_New a then (case dbo of None \<Rightarrow> None | Some db \<Rightarrow> map_option Some (enroll_row e a host 0 db)) else Some dbo)"

definition controller_peer :: "nat \<Rightarrow> auth \<Rightarrow> ControlMessage \<Rightarrow> ActivePeer" where
  "controller_peer c a msg = \<lparr>p_DeviceID = au_DeviceID a, p_Hostname = m_Hostname msg, p_Writer = Some c,
     p_Candidates = m_Candidates msg, p_PublicPort = 0\<rparr>"

text \<open>What a session that is set up ends with: the signaling session and the route to the controller go.\<close>

definition end_controller :: "env \<Rightarrow> nat \<Rightarrow> auth \<Rightarrow> u32 \<Rightarrow> nat \<Rightarrow> AgentManager \<Rightarrow> AgentManager \<times> outbox" where
  "end_controller e c a sid tc m = (case CloseSession sid (au_DeviceID a) (coordinator m) of
     (co, out) \<Rightarrow> (finish e c (update_session tc (unregisterControllerRoute sid c) (m\<lparr>coordinator := co\<rparr>)), out))"

text \<open>
  The part that coordinates with the target, whose session is that of connection \<open>tc\<close>. \<open>e_sent\<close> is the
  write of the answer, \<open>e_notify\<close> that of the notice to the target.
\<close>

definition controller_connect ::
  "env \<Rightarrow> nat \<Rightarrow> auth \<Rightarrow> ControlMessage \<Rightarrow> nat \<Rightarrow> AgentManager \<Rightarrow> AgentManager \<times> outbox" where
  "controller_connect e c a msg tc m =
     (case HandleConnectRequest (Some (controller_peer c a msg)) msg (PublicHost (am_config m)) (e_rnd e) (e_notify e) (coord m) of
        (co, out, Inl _) \<Rightarrow> (finish e c (m\<lparr>coordinator := co\<rparr>), out @ [(c, error_message 500 ''coordination failed'')])
      | (co, out, Inr resp) \<Rightarrow>
          if m_Type resp = MsgTypeError then (finish e c (m\<lparr>coordinator := co\<rparr>), out @ [(c, resp)])
          else (let m = update_session tc (registerControllerRoute (m_SessionID resp) c) (m\<lparr>coordinator := co\<rparr>) in
            if e_sent e then (set_phase c (Controlling a (m_TargetDeviceID msg) (m_SessionID resp) tc) m, out @ [(c, resp)])
            else (case end_controller e c a (m_SessionID resp) tc m of (m, out') \<Rightarrow> (m, out @ out'))))"

definition controller_start ::
  "env \<Rightarrow> nat \<Rightarrow> auth \<Rightarrow> ControlMessage \<Rightarrow> AgentManager \<Rightarrow> AgentManager \<times> outbox" where
  "controller_start e c a msg m =
     (if m_DeviceID msg \<noteq> [] \<and> m_DeviceID msg \<noteq> au_DeviceID a
      then refuse e c (error_message 400 ''device_id does not match authenticated device'') m
      else if \<not> validDeviceID (m_TargetDeviceID msg) then refuse e c (error_message 400 ''invalid target_device_id'') m
      else if \<not> controllerCanAccess m (au_DeviceID a) (m_TargetDeviceID msg)
      then refuse e c (error_message 403 ''controller is not authorized for target'') m
      else case enroll_controller e a (m_Hostname msg) (am_db m) of
        None \<Rightarrow> refuse e c (error_message 503 ''failed to enroll controller'') m
      | Some dbo \<Rightarrow> (case online_session (m_TargetDeviceID msg) m of
          None \<Rightarrow> refuse e c (error_message 404 ''target agent is offline'') (m\<lparr>am_db := dbo\<rparr>)
        | Some (tc, s) \<Rightarrow> controller_connect e c a msg tc (m\<lparr>am_db := dbo\<rparr>)))"

definition pong :: "env \<Rightarrow> ControlMessage" where
  "pong e = (message MsgTypePong)\<lparr>m_Timestamp := e_now e div second\<rparr>"

definition forwarded :: "string + nat \<times> ControlMessage \<Rightarrow> outbox" where
  "forwarded r = (case r of Inr wm \<Rightarrow> [wm] | Inl _ \<Rightarrow> [])"

definition controller_message :: "env \<Rightarrow> nat \<Rightarrow> auth \<Rightarrow> string \<Rightarrow> ControlMessage \<Rightarrow> AgentManager \<Rightarrow> outbox" where
  "controller_message e c a tid msg m =
     (if m_Type msg = MsgTypePing then [(c, pong e)]
      else if m_Type msg = MsgTypeCandidateExchange \<and> m_TargetDeviceID msg = tid
        \<and> controllerCanAccess m (au_DeviceID a) (m_TargetDeviceID msg)
      then forwarded (ForwardCandidateExchange (m_SessionID msg) (au_DeviceID a) (m_TargetDeviceID msg) (m_Candidates msg) (coord m))
      else [])"

section \<open>Registration of agents\<close>

definition port_error_text :: "port_error \<Rightarrow> string" where
  "port_error_text err = (case err of ErrNoAvailablePort \<Rightarrow> ''no available public ports in configured range''
     | InvalidPortRange a b \<Rightarrow> ''invalid port range: '' @ show_dec (uint a) @ ''-'' @ show_dec (uint b))"

definition register_start ::
  "env \<Rightarrow> nat \<Rightarrow> auth \<Rightarrow> ControlMessage \<Rightarrow> AgentManager \<Rightarrow> AgentManager \<times> outbox" where
  "register_start e c a msg m =
     (if m_DeviceID msg \<noteq> [] \<and> m_DeviceID msg \<noteq> au_DeviceID a
      then refuse e c (error_message 400 ''device_id does not match authenticated device'') m
      else case GetOrAllocatePort (au_DeviceID a) (portManager m) of
        (pm, Inl err) \<Rightarrow> refuse e c (error_message 503 (port_error_text err)) (m\<lparr>portManager := pm\<rparr>)
      | (pm, Inr port) \<Rightarrow>
          (set_phase c (Allocated a msg port) (close_live e (au_DeviceID a) (m\<lparr>portManager := pm\<rparr>)), []))"

definition persist_row :: "env \<Rightarrow> auth \<Rightarrow> ControlMessage \<Rightarrow> u16 \<Rightarrow> DB \<Rightarrow> DB option" where
  "persist_row e a msg port db =
     (if au_New a then enroll_row e a (m_Hostname msg) port db
      else if e_fails e 5 then None
      else Some (UpdateAgentRegistration (e_now e) (au_DeviceID a) (m_Hostname msg) port db))"

definition register_persist ::
  "env \<Rightarrow> nat \<Rightarrow> auth \<Rightarrow> ControlMessage \<Rightarrow> u16 \<Rightarrow> AgentManager \<Rightarrow> AgentManager \<times> outbox" where
  "register_persist e c a msg port m =
     (case (case am_db m of None \<Rightarrow> None | Some db \<Rightarrow> persist_row e a msg port db) of
        None \<Rightarrow> refuse e c (error_message 503 ''failed to persist registration'') m
      | Some db \<Rightarrow> (set_phase c (Persisted a msg port) (m\<lparr>am_db := Some db\<rparr>), []))"

text \<open>A port can be bound unless another program has it or an open session of the relay.\<close>

definition port_in_use :: "u16 \<Rightarrow> AgentManager \<Rightarrow> bool" where
  "port_in_use p m \<longleftrightarrow> (\<exists>s |\<in>| fmran (am_sessions m). \<not> as_closed s \<and> as_PublicPort s = p)"

definition new_session :: "env \<Rightarrow> nat \<Rightarrow> auth \<Rightarrow> string \<Rightarrow> u16 \<Rightarrow> relay_config \<Rightarrow> AgentSession" where
  "new_session e c a host port cfg = \<lparr>as_DeviceID = au_DeviceID a, as_Hostname = host, as_PublicPort = port, as_conn = c,
     as_Sessions = NewSessionManagerWithLimits (SessionIdleTimeout cfg) (MaxSessionsPerAgent cfg)
       (MaxUDPSessionsPerIP cfg) (MaxSessionCreateRate cfg),
     as_Reassembler = NewReassembler (ReassemblyTimeout cfg), as_Fragmenter = NewFragmenter (DatagramPayload cfg),
     as_RDPOnline = False, as_LastSeen = e_now e, as_nextConnID = 0, as_nextPacketID = 0, as_closed = False,
     controllerRoutes = fmempty\<rparr>"

definition register_listen ::
  "env \<Rightarrow> nat \<Rightarrow> auth \<Rightarrow> ControlMessage \<Rightarrow> u16 \<Rightarrow> AgentManager \<Rightarrow> AgentManager \<times> outbox" where
  "register_listen e c a msg port m =
     (if \<not> e_tcp e \<or> port_in_use port m
      then refuse e c (error_message 500 (''failed to bind tcp port: '' @ e_error e)) m
      else if \<not> e_udp e then refuse e c (error_message 500 (''failed to bind udp port: '' @ e_error e)) m
      else (set_phase c (Bound a msg) (m\<lparr>am_sessions :=
              fmupd c (new_session e c a (m_Hostname msg) port (am_config m)) (am_sessions m)\<rparr>), []))"

definition registerOnlineAgent :: "env \<Rightarrow> nat \<Rightarrow> AgentSession \<Rightarrow> AgentManager \<Rightarrow> AgentManager" where
  "registerOnlineAgent e c s m =
     (let m = close_live e (as_DeviceID s) m in
      m\<lparr>agentsByDevice := fmupd (as_DeviceID s) c (agentsByDevice m),
        agentsByPort := fmupd (as_PublicPort s) c (agentsByPort m)\<rparr>)"

definition port_assign :: "AgentManager \<Rightarrow> AgentSession \<Rightarrow> ControlMessage" where
  "port_assign m s = (message MsgTypePortAssign)
     \<lparr>m_PublicHost := (if PublicHost (am_config m) = [] then ''127.0.0.1'' else PublicHost (am_config m)),
      m_PublicPort := as_PublicPort s\<rparr>"

definition register_peer :: "nat \<Rightarrow> auth \<Rightarrow> ControlMessage \<Rightarrow> AgentSession \<Rightarrow> AgentManager \<Rightarrow> AgentManager \<times> outbox" where
  "register_peer c a msg s m =
     (set_phase c (Serving a) (m\<lparr>coordinator := RegisterPeer (au_DeviceID a) (m_Hostname msg) (Some c) (m_Candidates msg)
        (as_PublicPort s) (coordinator m)\<rparr>), [(c, port_assign m s)])"

text \<open>\<open>unregisterOnlineAgent\<close>: first the signaling server, then the tables, the session and the database.\<close>

definition unregister_peer :: "env \<Rightarrow> nat \<Rightarrow> auth \<Rightarrow> AgentManager \<Rightarrow> AgentManager \<times> outbox" where
  "unregister_peer e c a m = (case UnregisterPeer (au_DeviceID a) (Some c) (e_ids e) (coordinator m) of
     (co, out) \<Rightarrow> (set_phase c (Leaving a) (m\<lparr>coordinator := co\<rparr>), out))"

definition drop_online :: "nat \<Rightarrow> AgentSession \<Rightarrow> AgentManager \<Rightarrow> AgentManager" where
  "drop_online c s m =
     (if fmlookup (agentsByDevice m) (as_DeviceID s) = Some c
      then m\<lparr>agentsByDevice := fmdrop (as_DeviceID s) (agentsByDevice m),
             agentsByPort := fmdrop (as_PublicPort s) (agentsByPort m)\<rparr>
      else m)"

definition unregisterOnlineAgent :: "env \<Rightarrow> nat \<Rightarrow> AgentSession \<Rightarrow> AgentManager \<Rightarrow> AgentManager" where
  "unregisterOnlineAgent e c s m =
     (let m = update_session c (as_Close (e_order e)) (drop_online c s m) in
      finish e c (m\<lparr>am_db := map_option (UpdateAgentLastSeen (as_DeviceID s) (e_now e)) (am_db m)\<rparr>))"

text \<open>One message in \<open>runControlLoop\<close>.\<close>

definition control_message :: "env \<Rightarrow> nat \<Rightarrow> ControlMessage \<Rightarrow> AgentSession \<Rightarrow> AgentManager \<Rightarrow> AgentSession \<times> outbox" where
  "control_message e c msg s m =
     (let s = s\<lparr>as_LastSeen := e_now e\<rparr> in
      if m_Type msg = MsgTypePing then (s, [(c, pong e)])
      else if m_Type msg = MsgTypeAgentStatus then (s\<lparr>as_RDPOnline := m_RDPOnline msg\<rparr>, [])
      else if m_Type msg = MsgTypeUDPClose then (s\<lparr>as_Sessions := Remove (m_SessionID msg) (as_Sessions s)\<rparr>, [])
      else if m_Type msg = MsgTypeConnectRequest
      then (s, [(c, error_message 409 ''open a dedicated controller connection for CONNECT_REQUEST'')])
      else if m_Type msg = MsgTypeCandidateExchange \<and> controllerCanAccess m (m_TargetDeviceID msg) (as_DeviceID s)
      then (s, forwarded (ForwardCandidateExchange (m_SessionID msg) (as_DeviceID s) (m_TargetDeviceID msg)
                 (m_Candidates msg) (coord m)))
      else (s, []))"

section \<open>Administration\<close>

definition DisconnectDevice :: "env \<Rightarrow> string \<Rightarrow> AgentManager \<Rightarrow> AgentManager \<times> bool" where
  "DisconnectDevice e dev m = (case online_session dev m of
     None \<Rightarrow> (m, False)
   | Some (c, s) \<Rightarrow> (update_session c (as_Close (e_order e))
       (m\<lparr>agentsByDevice := fmdrop dev (agentsByDevice m), agentsByPort := fmdrop (as_PublicPort s) (agentsByPort m)\<rparr>), True))"

definition ReleaseDevicePort :: "string \<Rightarrow> AgentManager \<Rightarrow> AgentManager" where
  "ReleaseDevicePort dev m = m\<lparr>portManager := ReleasePort dev (portManager m)\<rparr>"

definition OnlineCount :: "AgentManager \<Rightarrow> nat" where
  "OnlineCount m = fsize (agentsByDevice m)"

text \<open>\<open>Close\<close>; every session in the table is closed.\<close>

definition listed :: "nat \<Rightarrow> AgentManager \<Rightarrow> bool" where
  "listed c m \<longleftrightarrow> c |\<in>| fmran (agentsByDevice m)"

definition manager_Close :: "env \<Rightarrow> AgentManager \<Rightarrow> AgentManager" where
  "manager_Close e m = m\<lparr>am_sessions := fmmap_keys (\<lambda>c s. if listed c m then as_Close (e_order e) s else s) (am_sessions m),
     agentsByDevice := fmempty, agentsByPort := fmempty\<rparr>"

section \<open>Runs\<close>

definition or_limit :: "int \<Rightarrow> int \<Rightarrow> int" where
  "or_limit n d = (if n \<le> 0 then d else n)"

definition install_invitations :: "(string \<times> string \<times> time) list \<Rightarrow> DB \<Rightarrow> DB" where
  "install_invitations invs db = fold (\<lambda>(dev, tok, expires). UpsertEnrollmentInvitation dev tok expires) invs db"

definition NewAgentManager ::
  "u32 \<Rightarrow> relay_config \<Rightarrow> bool \<Rightarrow> (string, string list) fmap \<Rightarrow> DB option \<Rightarrow> PortManager \<Rightarrow> acl_manager \<Rightarrow> AgentManager" where
  "NewAgentManager now cfg every acc dbo pm acl =
     \<lparr>am_config = cfg, allowAll = every, access = acc,
      am_db = map_option (install_invitations (EnrollmentInvitations cfg)) dbo, am_acl = acl, portManager = pm,
      coordinator = NewSessionCoordinator now,
      connectionGuard = NewIPGuard (MaxConnectionsPerIP cfg) (MaxConnectionRatePerMinute cfg) (60 * second),
      enrollmentGuard = NewIPGuard 1 (or_limit (MaxEnrollmentRatePerMinute cfg) 5) (60 * second),
      publicTCPGuard = NewIPGuard (or_limit (MaxPublicTCPPerIP cfg) 32) (or_limit (MaxPublicTCPRatePerSecond cfg) 20) second,
      agentsByDevice = fmempty, agentsByPort = fmempty, am_sessions = fmempty, am_conns = fmempty, am_next = 0\<rparr>"

datatype manager_event =
    MConnect "string option" | MMessage nat ControlMessage | MContinue nat | MHangup nat
  | MRelay nat relay_event | MTcp nat "string option" net_addr bool bool bytes | MTcpDone nat
  | MStream nat bool bool bytes | MStreamDone nat | MDatagram nat bytes
  | MPolicy bool "(string, string list) fmap option" | MDisconnect string | MRelease string
  | MConsole db_event | MClose

text \<open>The goroutine of a connection has read a message.\<close>

definition on_message :: "env \<Rightarrow> nat \<Rightarrow> ControlMessage \<Rightarrow> AgentManager \<Rightarrow> AgentManager \<times> outbox" where
  "on_message e c msg m = (case phase_of m c of
     AwaitAuth \<Rightarrow>
       (case auth_begin e (case fmlookup (am_conns m) c of Some k \<Rightarrow> c_addr k | None \<Rightarrow> None) msg (am_db m) (enrollmentGuard m) of
          (g, st) \<Rightarrow> auth_done e c st (m\<lparr>enrollmentGuard := g\<rparr>))
   | AwaitRetry a \<Rightarrow> auth_done e c (auth_retry e a msg (am_db m)) m
   | AwaitInit a \<Rightarrow>
       if m_Type msg = MsgTypeConnectRequest then controller_start e c a msg m
       else if m_Type msg = MsgTypeRegister then register_start e c a msg m
       else (finish e c m, [])
   | Serving a \<Rightarrow> (case fmlookup (am_sessions m) c of
       Some s \<Rightarrow> (case control_message e c msg s m of (s', out) \<Rightarrow> (update_session c (\<lambda>_. s') m, out))
     | None \<Rightarrow> (m, []))
   | Controlling a tid sid tc \<Rightarrow> (m, controller_message e c a tid msg m)
   | _ \<Rightarrow> (m, []))"

text \<open>The goroutine goes on without reading.\<close>

definition on_continue :: "env \<Rightarrow> nat \<Rightarrow> AgentManager \<Rightarrow> AgentManager \<times> outbox" where
  "on_continue e c m = (case (phase_of m c, fmlookup (am_sessions m) c) of
     (Allocated a msg port, _) \<Rightarrow> register_persist e c a msg port m
   | (Persisted a msg port, _) \<Rightarrow> register_listen e c a msg port m
   | (Bound a msg, Some s) \<Rightarrow> (set_phase c (Listed a msg) (registerOnlineAgent e c s m), [])
   | (Listed a msg, Some s) \<Rightarrow> register_peer c a msg s m
   | (Leaving a, Some s) \<Rightarrow> (unregisterOnlineAgent e c s m, [])
   | _ \<Rightarrow> (m, []))"

text \<open>A read of the goroutine fails.\<close>

definition on_hangup :: "env \<Rightarrow> nat \<Rightarrow> AgentManager \<Rightarrow> AgentManager \<times> outbox" where
  "on_hangup e c m = (case phase_of m c of
     AwaitAuth \<Rightarrow> (finish e c m, [])
   | AwaitRetry a \<Rightarrow> (finish e c m, [])
   | AwaitInit a \<Rightarrow> (finish e c m, [])
   | Serving a \<Rightarrow> unregister_peer e c a m
   | Controlling a tid sid tc \<Rightarrow> end_controller e c a sid tc m
   | _ \<Rightarrow> (m, []))"

text \<open>The loops of a session; its routes and its end are the manager's.\<close>

definition loop_event :: "relay_event \<Rightarrow> bool" where
  "loop_event ev \<longleftrightarrow> (case ev of AddRoute _ _ \<Rightarrow> False | DropRoute _ _ \<Rightarrow> False | RemoveClient _ \<Rightarrow> False
     | EndSession _ \<Rightarrow> False | _ \<Rightarrow> True)"

definition on_relay :: "env \<Rightarrow> nat \<Rightarrow> relay_event \<Rightarrow> AgentManager \<Rightarrow> AgentManager \<times> relay_out option" where
  "on_relay e c ev m = (case fmlookup (am_sessions m) c of
     None \<Rightarrow> (m, None)
   | Some s \<Rightarrow> if loop_event ev
       then (case relay_step (am_acl m) ev (e_now e) s of (s', r) \<Rightarrow> (update_session c (\<lambda>_. s') m, r))
       else (m, None))"

text \<open>
  Streams that a controller opens, each of which \<open>handleControllerRelayStream\<close> joins to a stream to the
  agent, and the datagrams of the controller; both loops hold the session they started with.
\<close>

definition set_streams :: "nat \<Rightarrow> (nat \<Rightarrow> nat) \<Rightarrow> AgentManager \<Rightarrow> AgentManager" where
  "set_streams c f m = (case fmlookup (am_conns m) c of
     Some k \<Rightarrow> m\<lparr>am_conns := fmupd c (k\<lparr>c_streams := f (c_streams k)\<rparr>) (am_conns m)\<rparr> | None \<Rightarrow> m)"

definition streams_of :: "nat \<Rightarrow> AgentManager \<Rightarrow> nat" where
  "streams_of c m = (case fmlookup (am_conns m) c of Some k \<Rightarrow> c_streams k | None \<Rightarrow> 0)"

definition on_stream :: "nat \<Rightarrow> bool \<Rightarrow> bool \<Rightarrow> bytes \<Rightarrow> AgentManager \<Rightarrow> AgentManager" where
  "on_stream c opened written answer m = (case phase_of m c of
     Controlling a tid sid tc \<Rightarrow>
       if streams_of c m < maxConcurrentStreams
       then set_streams c Suc (update_session tc (\<lambda>s. fst (open_desktop (opened \<and> \<not> as_closed s) written answer s)) m)
       else m
   | _ \<Rightarrow> m)"

definition on_datagram :: "nat \<Rightarrow> bytes \<Rightarrow> AgentManager \<Rightarrow> (nat \<times> relay_out) option" where
  "on_datagram c datagram m = (case phase_of m c of
     Controlling a tid sid tc \<Rightarrow> (case fmlookup (am_sessions m) tc of
         Some s \<Rightarrow> if as_closed s then None
           else map_option (\<lambda>d. (tc, ToAgent [d])) (controller_datagram sid datagram)
       | None \<Rightarrow> None)
   | _ \<Rightarrow> None)"

definition on_tcp ::
  "env \<Rightarrow> nat \<Rightarrow> string option \<Rightarrow> net_addr \<Rightarrow> bool \<Rightarrow> bool \<Rightarrow> bytes \<Rightarrow> AgentManager \<Rightarrow> AgentManager" where
  "on_tcp e c addr remote opened written answer m = (case fmlookup (am_sessions m) c of
     None \<Rightarrow> m
   | Some s \<Rightarrow> if as_closed s then m
       else (case accept_tcp (e_now e) (am_acl m) addr remote opened written answer s (publicTCPGuard m) of
         (s', g, _) \<Rightarrow> update_session c (\<lambda>_. s') (m\<lparr>publicTCPGuard := g\<rparr>)))"

fun manager_step :: "env \<times> manager_event \<Rightarrow> AgentManager \<Rightarrow> AgentManager \<times> outbox \<times> (nat \<times> relay_out) option" where
  "manager_step (e, MConnect addr) m = (accept_connection e addr m, [], None)"
| "manager_step (e, MMessage c msg) m = (case on_message e c msg m of (m, out) \<Rightarrow> (m, out, None))"
| "manager_step (e, MContinue c) m = (case on_continue e c m of (m, out) \<Rightarrow> (m, out, None))"
| "manager_step (e, MHangup c) m = (case on_hangup e c m of (m, out) \<Rightarrow> (m, out, None))"
| "manager_step (e, MRelay c ev) m = (case on_relay e c ev m of (m, r) \<Rightarrow> (m, [], map_option (Pair c) r))"
| "manager_step (e, MTcp c addr remote opened written answer) m = (on_tcp e c addr remote opened written answer m, [], None)"
| "manager_step (e, MTcpDone t) m = (m\<lparr>publicTCPGuard := release (e_now e) t (publicTCPGuard m)\<rparr>, [], None)"
| "manager_step (e, MStream c opened written answer) m = (on_stream c opened written answer m, [], None)"
| "manager_step (e, MStreamDone c) m = (set_streams c (\<lambda>n. n - 1) m, [], None)"
| "manager_step (e, MDatagram c datagram) m = (m, [], on_datagram c datagram m)"
| "manager_step (e, MPolicy every acc) m = (UpdateAccessPolicy every acc m, [], None)"
| "manager_step (e, MDisconnect dev) m = (fst (DisconnectDevice e dev m), [], None)"
| "manager_step (e, MRelease dev) m = (ReleaseDevicePort dev m, [], None)"
| "manager_step (e, MConsole ev) m = (m\<lparr>am_db := map_option (fst \<circ> db_step ev) (am_db m)\<rparr>, [], None)"
| "manager_step (e, MClose) m = (manager_Close e m, [], None)"

fun manager_run ::
  "(env \<times> manager_event) list \<Rightarrow> AgentManager \<Rightarrow> AgentManager \<times> (outbox \<times> (nat \<times> relay_out) option) list" where
  "manager_run [] m = (m, [])"
| "manager_run (ev # evs) m = (case manager_step ev m of
     (m, out) \<Rightarrow> (case manager_run evs m of (m, outs) \<Rightarrow> (m, out # outs)))"

end
