(* ===== verification/Agent_Client.thy ===== *)
theory Agent_Client
  imports Agent_Manager
begin

text \<open>
  The other end of the authentication: \<open>authenticateControl\<close> of \<open>internal/agent/auth.go\<close>, by which an agent or a
  controller signs in at the relay, put together with the relay's side in \<open>Agent_Manager\<close>. The answers of the
  relay are arguments; what is sent is a result.
\<close>

record DeviceConfig =
  dc_ID :: string
  dc_Secret :: string
  dc_EnrollmentToken :: string

datatype client_auth_error = SendAuthFailed | ReadAuthFailed io_error | SendEnrollmentFailed | ReadEnrollmentFailed io_error
  | AuthRejected ControlMessage

definition auth_hello :: "DeviceConfig \<Rightarrow> ControlMessage" where
  "auth_hello cfg = (message MsgTypeAuth)\<lparr>m_DeviceID := dc_ID cfg, m_Secret := dc_Secret cfg\<rparr>"

text \<open>The token that is disclosed; the secret if none is configured.\<close>

definition enrollment_token :: "DeviceConfig \<Rightarrow> string" where
  "enrollment_token cfg = (if dc_EnrollmentToken cfg = [] then dc_Secret cfg else dc_EnrollmentToken cfg)"

definition auth_invited :: "DeviceConfig \<Rightarrow> ControlMessage" where
  "auth_invited cfg = (auth_hello cfg)\<lparr>m_EnrollmentToken := enrollment_token cfg\<rparr>"

definition auth_verdict :: "ControlMessage \<Rightarrow> client_auth_error + unit" where
  "auth_verdict response = (if m_Type response \<noteq> MsgTypeAuthOK then Inl (AuthRejected response) else Inr ())"

definition authenticateControl ::
  "DeviceConfig \<Rightarrow> bool \<Rightarrow> bool \<Rightarrow> io_error + ControlMessage \<Rightarrow> io_error + ControlMessage
    \<Rightarrow> ControlMessage list \<times> (client_auth_error + unit)" where
  "authenticateControl cfg written1 written2 resp1 resp2 =
     (if \<not> written1 then ([], Inl SendAuthFailed)
      else case resp1 of
        Inl err \<Rightarrow> ([auth_hello cfg], Inl (ReadAuthFailed err))
      | Inr response \<Rightarrow>
          if m_Type response = MsgTypeError \<and> m_Code response = 428
          then (if enrollment_token cfg = [] then ([auth_hello cfg], Inl (AuthRejected response))
            else if \<not> written2 then ([auth_hello cfg], Inl SendEnrollmentFailed)
            else ([auth_hello cfg, auth_invited cfg],
              (case resp2 of Inl err \<Rightarrow> Inl (ReadEnrollmentFailed err) | Inr response \<Rightarrow> auth_verdict response)))
          else ([auth_hello cfg], auth_verdict response))"

section \<open>Both sides\<close>

text \<open>The message with which the relay answers.\<close>

definition relay_answer :: "auth_step \<Rightarrow> ControlMessage" where
  "relay_answer st = (case st of
     Refuse msg \<Rightarrow> msg
   | NeedInvitation _ \<Rightarrow> error_message 428 ''device enrollment invitation required''
   | Checked _ \<Rightarrow> message MsgTypeAuthOK)"

lemma relay_answer_sent:
  assumes "e_sent e"
  shows "snd (auth_done e c st m) = [(c, relay_answer st)]"
  using assms by (simp add: auth_done_def relay_answer_def refuse_def split: auth_step.split)

text \<open>One sign-in: the relay's steps at the two messages, the second of which matters only after a 428.\<close>

definition relay_first :: "DeviceConfig \<Rightarrow> env \<Rightarrow> string option \<Rightarrow> DB option \<Rightarrow> IPGuard \<Rightarrow> auth_step" where
  "relay_first cfg e addr dbo g = snd (auth_begin e addr (auth_hello cfg) dbo g)"

definition relay_second :: "DeviceConfig \<Rightarrow> auth_step \<Rightarrow> env \<Rightarrow> DB option \<Rightarrow> auth_step" where
  "relay_second cfg st e dbo = (case st of NeedInvitation a \<Rightarrow> auth_retry e a (auth_invited cfg) dbo | _ \<Rightarrow> st)"

definition sign_in ::
  "DeviceConfig \<Rightarrow> string option \<Rightarrow> IPGuard \<Rightarrow> env \<Rightarrow> DB option \<Rightarrow> env \<Rightarrow> DB option
    \<Rightarrow> auth_step \<times> ControlMessage list \<times> (client_auth_error + unit)" where
  "sign_in cfg addr g e1 db1 e2 db2 =
     (let st1 = relay_first cfg e1 addr db1 g; st2 = relay_second cfg st1 e2 db2
      in (st2, authenticateControl cfg True True (Inr (relay_answer st1)) (Inr (relay_answer st2))))"

lemma refuse_codes:
  "enroll_check e a db = Refuse msg \<Longrightarrow> m_Type msg = MsgTypeError \<and> m_Code msg \<noteq> 428"
  "snd (enroll_begin e addr a db g) = Refuse msg \<Longrightarrow> m_Type msg = MsgTypeError \<and> m_Code msg \<noteq> 428"
  "snd (auth_begin e addr hello dbo g) = Refuse msg \<Longrightarrow> m_Type msg = MsgTypeError \<and> m_Code msg \<noteq> 428"
  "auth_retry e a hello dbo = Refuse msg \<Longrightarrow> m_Type msg = MsgTypeError \<and> m_Code msg \<noteq> 428"
proof -
  show check: "enroll_check e a db = Refuse msg \<Longrightarrow> m_Type msg = MsgTypeError \<and> m_Code msg \<noteq> 428" for e a db msg
    by (auto simp: enroll_check_def split: if_splits)
  show enrol: "snd (enroll_begin e addr a db g) = Refuse msg \<Longrightarrow> m_Type msg = MsgTypeError \<and> m_Code msg \<noteq> 428" for e addr a db g msg
    using check by (auto simp: enroll_begin_def split: prod.splits bool.splits if_splits)
  show "snd (auth_begin e addr hello dbo g) = Refuse msg \<Longrightarrow> m_Type msg = MsgTypeError \<and> m_Code msg \<noteq> 428"
    using enrol by (auto simp: auth_begin_def split: if_splits option.splits)
  show "auth_retry e a hello dbo = Refuse msg \<Longrightarrow> m_Type msg = MsgTypeError \<and> m_Code msg \<noteq> 428"
    using check by (auto simp: auth_retry_def split: if_splits option.splits)
qed

text \<open>Whom the relay has in mind at each step.\<close>

definition auth_for :: "DeviceConfig \<Rightarrow> auth \<Rightarrow> bool" where
  "auth_for cfg a \<longleftrightarrow> au_DeviceID a = dc_ID cfg \<and> au_Secret a = dc_Secret cfg \<and> au_SecretHash a = hashSecret (dc_Secret cfg)"

lemma auth_of_hello: "auth_for cfg (auth_of (auth_hello cfg))"
  by (simp add: auth_for_def auth_of_def auth_hello_def)

lemma enroll_check_for: "enroll_check e a db = Checked a' \<Longrightarrow> a' = a"
  by (auto simp: enroll_check_def split: if_splits)

lemma enroll_begin_for:
  assumes "auth_for cfg a" "snd (enroll_begin e addr a db g) \<in> {Checked a', NeedInvitation a'}"
  shows "auth_for cfg a'"
  using assms enroll_check_for
  by (fastforce simp: enroll_begin_def auth_for_def enroll_check_def split: prod.splits bool.splits if_splits)

lemma relay_first_for:
  assumes "relay_first cfg e addr dbo g \<in> {Checked a, NeedInvitation a}"
  shows "auth_for cfg a"
proof -
  have f: "auth_for cfg ((auth_of (auth_hello cfg))\<lparr>au_New := x\<rparr>)"
    "auth_for cfg ((auth_of (auth_hello cfg))\<lparr>au_New := x, au_Token := y\<rparr>)" for x y
    using auth_of_hello [of cfg] by (simp_all add: auth_for_def)
  show ?thesis using assms enroll_begin_for [OF f(1)] enroll_begin_for [OF f(2)] auth_of_hello [of cfg]
    by (auto simp: relay_first_def auth_begin_def split: if_splits option.splits)
qed

lemma relay_first_Need:
  assumes "relay_first cfg e addr dbo g = NeedInvitation a"
  shows "dc_Secret cfg \<noteq> [] \<and> (\<exists>db. dbo = Some db \<and> (case GetAgentByDeviceID (dc_ID cfg) db of None \<Rightarrow> True
    | Some r \<Rightarrow> a_Enabled r \<and> a_SecretHash r \<noteq> hashSecret (dc_Secret cfg) \<and> re_enroll e (auth_hello cfg) db = Some []))"
proof -
  have "snd (enroll_begin e addr a' db g) = NeedInvitation a'' \<Longrightarrow> au_Token a' = []" for a' a'' db
    by (auto simp: enroll_begin_def enroll_check_def split: prod.splits bool.splits if_splits)
  then show ?thesis using assms
    by (fastforce simp: relay_first_def auth_begin_def auth_of_def auth_hello_def split: if_splits option.splits)
qed

lemma relay_second_not_Need:
  assumes "relay_first cfg e1 addr db1 g = st1"
  shows "relay_second cfg st1 e2 db2 \<noteq> NeedInvitation a"
proof (cases st1)
  case (NeedInvitation b)
  then show ?thesis by (auto simp: relay_second_def auth_retry_def enroll_check_def split: option.split)
qed (simp_all add: relay_second_def)

lemma relay_second_for:
  assumes "relay_first cfg e1 addr db1 g = st1" "relay_second cfg st1 e2 db2 = Checked a"
  shows "auth_for cfg a"
proof (cases st1)
  case (NeedInvitation b)
  then have "auth_for cfg b" using relay_first_for [of cfg e1 addr db1 g b] assms(1) by simp
  moreover have "a = b\<lparr>au_Token := m_EnrollmentToken (auth_invited cfg)\<rparr>"
    using assms(2) NeedInvitation enroll_check_for
    by (fastforce simp: relay_second_def auth_retry_def split: if_splits option.splits)
  ultimately show ?thesis by (simp add: auth_for_def)
qed (use assms relay_first_for [of cfg e1 addr db1 g a] in \<open>simp_all add: relay_second_def\<close>)

lemma relay_second_refuses:
  assumes "relay_first cfg e1 addr db1 g = st1" "relay_second cfg st1 e2 db2 = Refuse msg"
  shows "m_Type msg = MsgTypeError"
  using assms refuse_codes(3) [of e1 addr "auth_hello cfg" db1 g msg] refuse_codes(4) [of e2 _ "auth_invited cfg" db2 msg]
  by (cases st1) (auto simp: relay_second_def relay_first_def)

section \<open>Properties\<close>

text \<open>
  C10: Both sides of a sign-in agree. The device takes itself for signed in exactly when the relay has accepted it,
  and then under its own identity and secret. It says at most two things, and the invitation only after the relay asked
  for one; a device that the relay knows with this secret never discloses it.
\<close>

theorem sign_in_agrees:
  assumes "sign_in cfg addr g e1 db1 e2 db2 = (st, sent, res)"
  shows "(case st of Checked a \<Rightarrow> auth_for cfg a \<and> res = Inr () | _ \<Rightarrow> res \<noteq> Inr ())
    \<and> sent = (case relay_first cfg e1 addr db1 g of NeedInvitation _ \<Rightarrow> [auth_hello cfg, auth_invited cfg] | _ \<Rightarrow> [auth_hello cfg])
    \<and> (case Option.bind db1 (GetAgentByDeviceID (dc_ID cfg)) of
         Some r \<Rightarrow> a_SecretHash r = hashSecret (dc_Secret cfg) \<longrightarrow> sent = [auth_hello cfg] | None \<Rightarrow> True)"
proof -
  let ?st1 = "relay_first cfg e1 addr db1 g"
  have st: "st = relay_second cfg ?st1 e2 db2"
    and res: "(sent, res) = authenticateControl cfg True True (Inr (relay_answer ?st1)) (Inr (relay_answer st))"
    using assms by (auto simp: sign_in_def Let_def)
  note no_need = relay_second_not_Need [OF refl, of cfg e1 addr db1 g e2 db2, folded st]
  have verdict: "auth_verdict (relay_answer st) = Inr () \<longleftrightarrow> (\<exists>a. st = Checked a)"
    using no_need relay_second_refuses [OF refl, of cfg e1 addr db1 g e2 db2, folded st] by (cases st) (auto simp: auth_verdict_def relay_answer_def)
  have sent: "sent = (case ?st1 of NeedInvitation _ \<Rightarrow> [auth_hello cfg, auth_invited cfg] | _ \<Rightarrow> [auth_hello cfg])
      \<and> (res = Inr () \<longleftrightarrow> (\<exists>a. st = Checked a))"
  proof (cases ?st1)
    case (NeedInvitation a)
    then have "enrollment_token cfg \<noteq> []" using relay_first_Need [OF NeedInvitation] by (simp add: enrollment_token_def)
    then show ?thesis using res verdict NeedInvitation by (simp add: authenticateControl_def relay_answer_def)
  next
    case (Refuse msg)
    then have "m_Type msg = MsgTypeError" "m_Code msg \<noteq> 428"
      using refuse_codes(3) [of e1 addr "auth_hello cfg" db1 g msg] by (simp_all add: relay_first_def)
    moreover have "st = Refuse msg" using st Refuse by (simp add: relay_second_def)
    ultimately show ?thesis using res verdict Refuse by (simp add: authenticateControl_def relay_answer_def)
  next
    case (Checked a)
    then have "st = Checked a" using st by (simp add: relay_second_def)
    then show ?thesis using res Checked by (simp add: authenticateControl_def relay_answer_def auth_verdict_def)
  qed
  moreover have "case st of Checked a \<Rightarrow> auth_for cfg a | _ \<Rightarrow> True"
    using relay_second_for [OF refl, of cfg e1 addr db1 g e2 db2, folded st] by (cases st) auto
  moreover have "case Option.bind db1 (GetAgentByDeviceID (dc_ID cfg)) of
      Some r \<Rightarrow> a_SecretHash r = hashSecret (dc_Secret cfg) \<longrightarrow> sent = [auth_hello cfg] | None \<Rightarrow> True"
  proof (cases ?st1)
    case (NeedInvitation a)
    then show ?thesis using relay_first_Need [OF NeedInvitation] by (auto split: option.splits)
  qed (use sent in \<open>simp_all split: option.split\<close>)
  ultimately show ?thesis by (cases st) auto
qed

text \<open>
  A new device gets in. If the relay does not know the device, the configured invitation, or the secret in its place, is
  usable when the second message arrives, the secret is of a legal length and not itself an invitation, the
  attempt is within the rate, and no query fails, then the sign-in succeeds and the relay will enrol the device with this
  invitation.
\<close>

theorem enrolment_succeeds:
  assumes "validDeviceID (dc_ID cfg)" "minDeviceSecretBytes \<le> length (dc_Secret cfg)" "length (dc_Secret cfg) \<le> maxDeviceSecretBytes"
    "GetAgentByDeviceID (dc_ID cfg) db1 = None" "\<not> ValidateEnrollmentInvitation (dc_ID cfg) (dc_Secret cfg) (e_now e1) db1"
    "snd (Allow (e_now e1) addr g)" "ValidateEnrollmentInvitation (dc_ID cfg) (enrollment_token cfg) (e_now e2) db2"
    "length (enrollment_token cfg) \<le> maxEnrollmentTokenBytes" "\<not> e_fails e1 0" "\<not> e_fails e2 4"
  shows "\<exists>a. sign_in cfg addr g e1 (Some db1) e2 (Some db2) = (Checked a, [auth_hello cfg, auth_invited cfg], Inr ())
    \<and> au_New a \<and> au_Token a = enrollment_token cfg \<and> auth_for cfg a"
proof -
  let ?a = "(auth_of (auth_hello cfg))\<lparr>au_New := True\<rparr>"
  have hello: "m_Type (auth_hello cfg) = MsgTypeAuth" "m_DeviceID (auth_hello cfg) = dc_ID cfg" "m_Secret (auth_hello cfg) = dc_Secret cfg"
    "m_SecretHash (auth_hello cfg) = []" "m_EnrollmentToken (auth_hello cfg) = []"
    by (simp_all add: auth_hello_def message_def)
  then have a: "au_Token ?a = []" "au_DeviceID ?a = dc_ID cfg" "au_Secret ?a = dc_Secret cfg" by (simp_all add: auth_of_def)
  have ne: "dc_Secret cfg \<noteq> []" using assms(2) by (auto simp: minDeviceSecretBytes_def)
  obtain g' where g': "Allow (e_now e1) addr g = (g', True)" using assms(6) by (metis prod.collapse)
  have "enroll_begin e1 addr ?a db1 g = (g', NeedInvitation ?a)"
    using g' a assms(5) by (simp add: enroll_begin_def)
  then have first: "relay_first cfg e1 addr (Some db1) g = NeedInvitation ?a"
    using hello ne assms(1,3,4,9) by (simp add: relay_first_def auth_begin_def)
  let ?b = "?a\<lparr>au_Token := enrollment_token cfg\<rparr>"
  have "enroll_check e2 ?b db2 = Checked ?b"
    using a assms(2,7,8,10) by (simp add: enroll_check_def)
  then have "relay_second cfg (NeedInvitation ?a) e2 (Some db2) = Checked ?b"
    using hello a by (simp add: relay_second_def auth_retry_def auth_invited_def)
  then have st: "fst (sign_in cfg addr g e1 (Some db1) e2 (Some db2)) = Checked ?b"
    by (simp add: sign_in_def Let_def first)
  have "enrollment_token cfg \<noteq> []" using ne by (simp add: enrollment_token_def)
  then have "snd (sign_in cfg addr g e1 (Some db1) e2 (Some db2)) = ([auth_hello cfg, auth_invited cfg], Inr ())"
    using \<open>relay_second cfg (NeedInvitation ?a) e2 (Some db2) = Checked ?b\<close>
    by (simp add: sign_in_def Let_def first authenticateControl_def relay_answer_def auth_verdict_def)
  moreover have "auth_for cfg ?b" using auth_of_hello [of cfg] by (simp add: auth_for_def)
  ultimately show ?thesis using st by (intro exI [of _ ?b]) (simp add: prod_eq_iff)
qed

text \<open>
  The relay also asks a device that it knows, with another secret, when an invitation for it is open; so the
  invitation may be disclosed although the device is not unknown.
\<close>

lemma known_device_asked:
  assumes "validDeviceID (dc_ID cfg)" "dc_Secret cfg \<noteq> []" "length (dc_Secret cfg) \<le> maxDeviceSecretBytes" "\<not> e_fails e 0"
    "GetAgentByDeviceID (dc_ID cfg) db = Some r" "a_Enabled r" "a_SecretHash r \<noteq> hashSecret (dc_Secret cfg)"
    "re_enroll e (auth_hello cfg) db = Some []" "\<not> ValidateEnrollmentInvitation (dc_ID cfg) (dc_Secret cfg) (e_now e) db"
    "snd (Allow (e_now e) addr g)"
  shows "\<exists>a. relay_first cfg e addr (Some db) g = NeedInvitation a"
proof -
  obtain g' where "Allow (e_now e) addr g = (g', True)" using assms(10) by (metis prod.collapse)
  then show ?thesis using assms
    by (simp add: relay_first_def auth_begin_def auth_hello_def message_def auth_of_def enroll_begin_def)
qed

section \<open>A device that is new to the relay\<close>

definition client_env :: env where
  "client_env = \<lparr>e_now = 0, e_fails = (\<lambda>_. False), e_sent = True, e_notify = True, e_rnd = None, e_order = [],
     e_ids = [], e_rows = [], e_tcp = True, e_udp = True, e_error = []\<rparr>"

definition new_device :: DeviceConfig where
  "new_device = \<lparr>dc_ID = ''pc'', dc_Secret = replicate 32 CHR ''s'', dc_EnrollmentToken = ''token''\<rparr>"

text \<open>The invitation is installed while the device is being asked for it.\<close>

definition invited_db :: DB where
  "invited_db = UpsertEnrollmentInvitation ''pc'' ''token'' 1 empty_db"

lemma new_device_allowed: "snd (Allow 0 None (NewIPGuard 1 1 second))"
  by (simp add: Allow_def Acquire_def NewIPGuard_def current_entry_def sweepLocked_def addressKey_def Let_def)

lemma new_device_invited: "ValidateEnrollmentInvitation ''pc'' ''token'' 0 invited_db"
  by (simp add: ValidateEnrollmentInvitation_def invited_db_def UpsertEnrollmentInvitation_def empty_db_def usable_def Let_def)

theorem enrolment_succeeds_witness:
  "\<exists>a. sign_in new_device None (NewIPGuard 1 1 second) client_env (Some empty_db) client_env (Some invited_db)
    = (Checked a, [auth_hello new_device, auth_invited new_device], Inr ()) \<and> au_New a"
proof -
  have "validDeviceID (dc_ID new_device)" "GetAgentByDeviceID (dc_ID new_device) empty_db = None"
    "\<not> ValidateEnrollmentInvitation (dc_ID new_device) (dc_Secret new_device) (e_now client_env) empty_db"
    "minDeviceSecretBytes \<le> length (dc_Secret new_device)" "length (dc_Secret new_device) \<le> maxDeviceSecretBytes"
    "length (enrollment_token new_device) \<le> maxEnrollmentTokenBytes" "\<not> e_fails client_env 0" "\<not> e_fails client_env 4"
    by (simp_all add: new_device_def client_env_def empty_db_def validDeviceID_def device_char_def maxDeviceIDBytes_def GetAgentByDeviceID_def
        ValidateEnrollmentInvitation_def minDeviceSecretBytes_def maxDeviceSecretBytes_def enrollment_token_def maxEnrollmentTokenBytes_def)
  moreover have "snd (Allow (e_now client_env) None (NewIPGuard 1 1 second))" using new_device_allowed by (simp add: client_env_def)
  moreover have "ValidateEnrollmentInvitation (dc_ID new_device) (enrollment_token new_device) (e_now client_env) invited_db"
    using new_device_invited by (simp add: new_device_def enrollment_token_def client_env_def)
  ultimately show ?thesis using enrolment_succeeds by blast
qed

theorem sign_in_agrees_witness:
  "fst (snd (sign_in new_device None (NewIPGuard 1 1 second) client_env None client_env None)) = [auth_hello new_device]"
proof -
  obtain st sent res where s: "sign_in new_device None (NewIPGuard 1 1 second) client_env None client_env None = (st, sent, res)"
    by (metis prod.collapse)
  have "relay_first new_device client_env None None (NewIPGuard 1 1 second) = Refuse (error_message 503 ''authentication service unavailable'')"
    by (simp add: relay_first_def auth_begin_def auth_hello_def message_def new_device_def validDeviceID_def device_char_def maxDeviceIDBytes_def
        maxDeviceSecretBytes_def)
  then show ?thesis using sign_in_agrees [OF s] s by simp
qed

end
