(* ===== verification/Config_Sync.thy ===== *)
theory Config_Sync
  imports Prelude "HOL-Library.Sublist"
begin

text \<open>
  Writing settings back into the configuration file of the relay, \<open>internal/config/config.go\<close>. The YAML library
  reads a file into a tree of nodes and writes a tree into a file; the functions here change the tree between the two.
  A node is a value with the fields of \<open>yaml.Node\<close> that the program uses; a mapping lists its keys and values in
  turn. The file as it was read is an argument, and \<open>None\<close> is the index that is out of range when a mapping has
  a last key without a value.
\<close>

datatype yaml_kind = DocumentNode | SequenceNode | MappingNode | ScalarNode | AliasNode

datatype yaml = Node (y_Kind: yaml_kind) (y_Tag: string) (y_Value: string) (y_Flow: bool) (y_Content: "yaml list")

definition set_content :: "yaml list \<Rightarrow> yaml \<Rightarrow> yaml" where
  "set_content cs n = Node (y_Kind n) (y_Tag n) (y_Value n) (y_Flow n) cs"

definition key_node :: "string \<Rightarrow> yaml" where
  "key_node key = Node ScalarNode ''!!str'' key False []"

text \<open>
  The loop that the three functions share: the value of the first pair with the key is changed, or a pair with a
  changed fresh value is appended.
\<close>

fun change_pair :: "string \<Rightarrow> (yaml \<Rightarrow> yaml option) \<Rightarrow> yaml \<Rightarrow> yaml list \<Rightarrow> yaml list option" where
  "change_pair key f fresh [] = map_option (\<lambda>v. [key_node key, v]) (f fresh)"
| "change_pair key f fresh [k] = (if y_Value k = key then None else map_option (\<lambda>v. [k, key_node key, v]) (f fresh))"
| "change_pair key f fresh (k # v # rest) =
     (if y_Value k = key then map_option (\<lambda>v. k # v # rest) (f v)
      else map_option (\<lambda>rest. k # v # rest) (change_pair key f fresh rest))"

definition change_child :: "string \<Rightarrow> (yaml \<Rightarrow> yaml option) \<Rightarrow> yaml \<Rightarrow> yaml \<Rightarrow> yaml option" where
  "change_child key f fresh m = map_option (\<lambda>cs. set_content cs m) (change_pair key f fresh (y_Content m))"

text \<open>What is then done to the child goes through its pointer, so the operations on it are an argument.\<close>

definition findOrAddMappingChild :: "string \<Rightarrow> (yaml \<Rightarrow> yaml option) \<Rightarrow> yaml \<Rightarrow> yaml option" where
  "findOrAddMappingChild key f m = change_child key f (Node MappingNode ''!!map'' [] False []) m"

definition as_scalar :: "string \<Rightarrow> string \<Rightarrow> yaml \<Rightarrow> yaml" where
  "as_scalar tag val n = Node ScalarNode tag val (y_Flow n) (y_Content n)"

definition setMappingScalarChild :: "string \<Rightarrow> string \<Rightarrow> string \<Rightarrow> yaml \<Rightarrow> yaml option" where
  "setMappingScalarChild key tag val m =
     change_child key (\<lambda>n. Some (as_scalar tag val n)) (Node ScalarNode tag val False []) m"

definition setMappingChild :: "string \<Rightarrow> yaml \<Rightarrow> yaml \<Rightarrow> yaml option" where
  "setMappingChild key child m = change_child key (\<lambda>_. Some child) child m"

datatype sync_error = InvalidRoot | NotAMapping | MarshalFailed

text \<open>The checks on the root that all three functions make, and the change of the top mapping.\<close>

definition change_root :: "(yaml \<Rightarrow> yaml option) \<Rightarrow> yaml \<Rightarrow> (sync_error + yaml) option" where
  "change_root f root =
     (if y_Kind root \<noteq> DocumentNode \<or> y_Content root = [] then Some (Inl InvalidRoot)
      else if y_Kind (hd (y_Content root)) \<noteq> MappingNode then Some (Inl NotAMapping)
      else map_option (\<lambda>top. Inr (set_content (top # tl (y_Content root)) root)) (f (hd (y_Content root))))"

record ServerSettingsUpdate =
  su_PublicHost :: "string option"
  su_PortRangeStart :: "int option"
  su_PortRangeEnd :: "int option"
  su_DefaultPolicy :: "string option"
  su_WebToken :: "string option"
  su_QuicListen :: "string option"
  su_TlsListen :: "string option"
  su_TlsDisabled :: "bool option"
  su_RendezvousListen :: "string option"

definition show_int :: "int \<Rightarrow> string" where
  "show_int n = (if n < 0 then CHR ''-'' # show_dec (- n) else show_dec n)"

definition show_bool :: "bool \<Rightarrow> string" where
  "show_bool b = (if b then ''true'' else ''false'')"

text \<open>A setting that is not given changes nothing.\<close>

definition opt_set :: "string \<Rightarrow> string \<Rightarrow> string option \<Rightarrow> yaml \<Rightarrow> yaml option" where
  "opt_set key tag v m = (case v of None \<Rightarrow> Some m | Some x \<Rightarrow> setMappingScalarChild key tag x m)"

definition opt_child :: "bool \<Rightarrow> string \<Rightarrow> (yaml \<Rightarrow> yaml option) \<Rightarrow> yaml \<Rightarrow> yaml option" where
  "opt_child given key f m = (if given then findOrAddMappingChild key f m else Some m)"

definition then_do :: "(yaml \<Rightarrow> yaml option) \<Rightarrow> (yaml \<Rightarrow> yaml option) \<Rightarrow> yaml \<Rightarrow> yaml option" where
  "then_do f g m = Option.bind (f m) g"

definition settings_change :: "ServerSettingsUpdate \<Rightarrow> yaml \<Rightarrow> yaml option" where
  "settings_change s =
     then_do (opt_child (su_PublicHost s \<noteq> None) ''rdp'' (opt_set ''publicHost'' ''!!str'' (su_PublicHost s)))
    (then_do (opt_child (su_PortRangeStart s \<noteq> None \<or> su_PortRangeEnd s \<noteq> None) ''rdp''
       (findOrAddMappingChild ''portRange''
         (then_do (opt_set ''start'' ''!!int'' (map_option show_int (su_PortRangeStart s)))
                  (opt_set ''end'' ''!!int'' (map_option show_int (su_PortRangeEnd s))))))
    (then_do (opt_child (su_DefaultPolicy s \<noteq> None) ''security'' (opt_set ''defaultPolicy'' ''!!str'' (su_DefaultPolicy s)))
    (then_do (opt_child (su_WebToken s \<noteq> None) ''web'' (opt_set ''token'' ''!!str'' (su_WebToken s)))
       (opt_child (su_QuicListen s \<noteq> None \<or> su_TlsListen s \<noteq> None \<or> su_TlsDisabled s \<noteq> None \<or> su_RendezvousListen s \<noteq> None) ''server''
         (then_do (opt_child (su_QuicListen s \<noteq> None) ''quic'' (opt_set ''listen'' ''!!str'' (su_QuicListen s)))
         (then_do (opt_child (su_TlsListen s \<noteq> None \<or> su_TlsDisabled s \<noteq> None) ''tls''
             (then_do (opt_set ''listen'' ''!!str'' (su_TlsListen s))
                      (opt_set ''disabled'' ''!!bool'' (map_option show_bool (su_TlsDisabled s)))))
           (opt_child (su_RendezvousListen s \<noteq> None) ''rendezvous'' (opt_set ''listen'' ''!!str'' (su_RendezvousListen s)))))))))"

definition SyncServerSettings :: "ServerSettingsUpdate \<Rightarrow> yaml \<Rightarrow> (sync_error + yaml) option" where
  "SyncServerSettings s root = change_root (settings_change s) root"

text \<open>\<open>marshalled\<close> is what the library makes of the list or map and reads back, \<open>None\<close> if it fails.\<close>

definition SyncInvitations :: "bool \<Rightarrow> yaml option \<Rightarrow> yaml \<Rightarrow> (sync_error + yaml) option" where
  "SyncInvitations none marshalled root =
     (case (if none then Some (Node SequenceNode ''!!seq'' [] True []) else map_option
         (\<lambda>doc. if y_Content doc \<noteq> [] then hd (y_Content doc) else Node SequenceNode ''!!seq'' [] False []) marshalled) of
        None \<Rightarrow> Some (Inl MarshalFailed)
      | Some node \<Rightarrow> change_root (findOrAddMappingChild ''security'' (setMappingChild ''enrollmentInvitations'' node)) root)"

definition SyncAccessPolicy :: "bool \<Rightarrow> bool \<Rightarrow> yaml option \<Rightarrow> yaml \<Rightarrow> (sync_error + yaml) option" where
  "SyncAccessPolicy every none marshalled root =
     (if y_Kind root \<noteq> DocumentNode \<or> y_Content root = [] then Some (Inl InvalidRoot)
      else if y_Kind (hd (y_Content root)) \<noteq> MappingNode then Some (Inl NotAMapping)
      else case (if none then Some (Node MappingNode ''!!map'' [] True []) else map_option
          (\<lambda>doc. if y_Content doc \<noteq> [] then hd (y_Content doc) else Node MappingNode ''!!map'' [] False []) marshalled) of
         None \<Rightarrow> Some (Inl MarshalFailed)
       | Some node \<Rightarrow> change_root (findOrAddMappingChild ''security''
           (then_do (setMappingScalarChild ''allowAllControllerTargets'' ''!!bool'' (show_bool every)) (setMappingChild ''controllerAccess'' node))) root)"

section \<open>Reading a tree\<close>

fun pair_value :: "string \<Rightarrow> yaml list \<Rightarrow> yaml option" where
  "pair_value key (k # v # rest) = (if y_Value k = key then Some v else pair_value key rest)"
| "pair_value key _ = None"

text \<open>The pairs of a node that is not a mapping are not written and so not read.\<close>

definition child :: "string \<Rightarrow> yaml \<Rightarrow> yaml option" where
  "child key n = (if y_Kind n = MappingNode then pair_value key (y_Content n) else None)"

fun node_at :: "string list \<Rightarrow> yaml \<Rightarrow> yaml option" where
  "node_at [] n = Some n"
| "node_at (k # ks) n = Option.bind (child k n) (node_at ks)"

definition scalar_at :: "string list \<Rightarrow> string \<Rightarrow> string \<Rightarrow> yaml \<Rightarrow> bool" where
  "scalar_at p tag val n \<longleftrightarrow> (case node_at p n of
     Some x \<Rightarrow> y_Kind x = ScalarNode \<and> y_Tag x = tag \<and> y_Value x = val | None \<Rightarrow> False)"

definition mapping_ok :: "yaml \<Rightarrow> bool" where
  "mapping_ok n \<longleftrightarrow> y_Kind n = MappingNode \<and> even (length (y_Content n))"

text \<open>Each section on the way is missing or a mapping.\<close>

fun open_path :: "string list \<Rightarrow> yaml \<Rightarrow> bool" where
  "open_path (k # k' # ks) n \<longleftrightarrow> (case child k n of None \<Rightarrow> True | Some c \<Rightarrow> mapping_ok c \<and> open_path (k' # ks) c)"
| "open_path _ n \<longleftrightarrow> True"

section \<open>What a change does\<close>

lemma change_pair_total:
  assumes "even (length cs)" "f (case pair_value key cs of Some v \<Rightarrow> v | None \<Rightarrow> fresh) = Some v'"
  shows "\<exists>cs'. change_pair key f fresh cs = Some cs' \<and> even (length cs')
    \<and> (\<forall>k. pair_value k cs' = (if k = key then Some v' else pair_value k cs))"
  using assms
proof (induction cs rule: induct_list012)
  case 1
  then show ?case by (simp add: key_node_def)
next
  case (2 k)
  then show ?case by simp
next
  case (3 k v rest)
  show ?case
  proof (cases "y_Value k = key")
    case True
    then show ?thesis using 3 by auto
  next
    case False
    then obtain cs' where cs': "change_pair key f fresh rest = Some cs'" "even (length cs')"
      "\<forall>k. pair_value k cs' = (if k = key then Some v' else pair_value k rest)"
      using 3 by auto
    then show ?thesis using False by auto
  qed
qed

lemma change_child_total:
  assumes "mapping_ok m" "f (case child key m of Some v \<Rightarrow> v | None \<Rightarrow> fresh) = Some v'"
  shows "\<exists>m'. change_child key f fresh m = Some m' \<and> mapping_ok m'
    \<and> (\<forall>k. child k m' = (if k = key then Some v' else child k m))"
proof -
  have "f (case pair_value key (y_Content m) of Some v \<Rightarrow> v | None \<Rightarrow> fresh) = Some v'"
    using assms by (simp add: child_def mapping_ok_def)
  then obtain cs' where cs: "change_pair key f fresh (y_Content m) = Some cs'" "even (length cs')"
    "\<forall>k. pair_value k cs' = (if k = key then Some v' else pair_value k (y_Content m))"
    using change_pair_total [where cs = "y_Content m" and f = f and key = key and fresh = fresh and v' = v'] assms(1) unfolding mapping_ok_def by blast
  then show ?thesis using assms(1) by (simp add: change_child_def set_content_def mapping_ok_def child_def)
qed

text \<open>
  A change writes certain scalars: it succeeds on any mapping where their sections are open, they can be read
  afterwards, what no written path touches is as before, and so is the openness of other sections.
\<close>

type_synonym writes = "(string list \<times> string \<times> string) list"

definition apart :: "writes \<Rightarrow> string list \<Rightarrow> bool" where
  "apart W q \<longleftrightarrow> (\<forall>(p, _, _) \<in> set W. \<not> prefix p q \<and> \<not> prefix q p)"

definition writes_ok :: "writes \<Rightarrow> yaml \<Rightarrow> yaml \<Rightarrow> bool" where
  "writes_ok W m m' \<longleftrightarrow> mapping_ok m' \<and> (\<forall>(p, tag, val) \<in> set W. scalar_at p tag val m')
     \<and> (\<forall>q. apart W q \<longrightarrow> node_at q m' = node_at q m) \<and> (\<forall>q. apart W q \<longrightarrow> open_path q m \<longrightarrow> open_path q m')"

definition writes_all :: "(yaml \<Rightarrow> yaml option) \<Rightarrow> writes \<Rightarrow> bool" where
  "writes_all f W \<longleftrightarrow> (\<forall>m. mapping_ok m \<and> (\<forall>(p, _, _) \<in> set W. open_path p m) \<longrightarrow> (\<exists>m'. f m = Some m' \<and> writes_ok W m m'))"

lemma writes_allD:
  "writes_all f W \<Longrightarrow> mapping_ok m \<Longrightarrow> (\<And>p t v. (p, t, v) \<in> set W \<Longrightarrow> open_path p m) \<Longrightarrow> \<exists>m'. f m = Some m' \<and> writes_ok W m m'"
  unfolding writes_all_def by blast

lemma writes_nothing: "writes_all Some []"
  by (simp add: writes_all_def writes_ok_def)

lemma writes_scalar: "writes_all (setMappingScalarChild key tag val) [([key], tag, val)]"
  unfolding writes_all_def
proof (intro allI impI)
  fix m
  assume "mapping_ok m \<and> (\<forall>(p, _, _) \<in> set [([key], tag, val)]. open_path p m)"
  then have m: "mapping_ok m" by simp
  let ?f = "\<lambda>n. Some (as_scalar tag val n)" and ?fresh = "Node ScalarNode tag val False []"
  obtain m' where m': "change_child key ?f ?fresh m = Some m'" "mapping_ok m'"
    "\<forall>k. child k m' = (if k = key then Some (as_scalar tag val (case child key m of Some v \<Rightarrow> v | None \<Rightarrow> ?fresh)) else child k m)"
    using change_child_total [OF m, where f = ?f and key = key and fresh = ?fresh, OF refl] by blast
  have "node_at q m' = node_at q m \<and> (open_path q m \<longrightarrow> open_path q m')" if "apart [([key], tag, val)] q" for q
  proof (cases q)
    case Nil
    then show ?thesis using that by (simp add: apart_def)
  next
    case (Cons k ks)
    then have "k \<noteq> key" using that by (auto simp: apart_def)
    then show ?thesis using m'(3) Cons by (cases ks) simp_all
  qed
  moreover have "scalar_at [key] tag val m'" using m'(3) by (simp add: scalar_at_def as_scalar_def)
  ultimately show "\<exists>m'. setMappingScalarChild key tag val m = Some m' \<and> writes_ok [([key], tag, val)] m m'"
    using m'(1,2) by (simp add: setMappingScalarChild_def writes_ok_def)
qed

text \<open>Two changes one after the other, where neither touches what the other writes.\<close>

lemma writes_then:
  assumes "writes_all f W" "writes_all g V" "\<forall>(p, _, _) \<in> set W. apart V p"
  shows "writes_all (then_do f g) (W @ V)"
  unfolding writes_all_def
proof (intro allI impI)
  fix m
  assume m: "mapping_ok m \<and> (\<forall>(p, _, _) \<in> set (W @ V). open_path p m)"
  obtain m1 where m1: "f m = Some m1" "writes_ok W m m1" using writes_allD [OF assms(1), of m] m by fastforce
  have apart: "apart W p" if "(p, t, v) \<in> set V" for p t v using assms(3) that by (fastforce simp: apart_def)
  then have "open_path p m1" if "(p, t, v) \<in> set V" for p t v using m1(2) m that by (fastforce simp: writes_ok_def)
  then obtain m2 where m2: "g m1 = Some m2" "writes_ok V m1 m2"
    using writes_allD [OF assms(2), of m1] m1(2) by (auto simp: writes_ok_def)
  have "scalar_at p t v m2" if "(p, t, v) \<in> set W" for p t v
    using that m1(2) m2(2) assms(3) by (fastforce simp: writes_ok_def scalar_at_def)
  moreover have "apart (W @ V) q \<Longrightarrow> apart W q \<and> apart V q" for q by (simp add: apart_def)
  ultimately have "writes_ok (W @ V) m m2" using m1(2) m2(2) by (auto simp: writes_ok_def)
  then show "\<exists>m'. then_do f g m = Some m' \<and> writes_ok (W @ V) m m'" using m1(1) m2(1) by (simp add: then_do_def)
qed

text \<open>A change inside a section.\<close>

definition inside :: "string \<Rightarrow> writes \<Rightarrow> writes" where
  "inside key W = map (\<lambda>(p, t, v). (key # p, t, v)) W"

lemma open_inside:
  assumes "open_path (key # p) m" "p \<noteq> []"
  shows "case child key m of None \<Rightarrow> True | Some c \<Rightarrow> mapping_ok c \<and> open_path p c"
  using assms by (cases p) (simp_all split: option.splits)

lemma open_empty: "open_path p (Node MappingNode t v b [])"
proof (cases p)
  case (Cons k ks)
  then show ?thesis by (cases ks) (simp_all add: child_def)
qed simp

lemma writes_inside:
  assumes "writes_all f W" "W \<noteq> []" "\<forall>(p, _, _) \<in> set W. p \<noteq> []"
  shows "writes_all (findOrAddMappingChild key f) (inside key W)"
  unfolding writes_all_def
proof (intro allI impI)
  fix m
  assume m: "mapping_ok m \<and> (\<forall>(p, _, _) \<in> set (inside key W). open_path p m)"
  let ?fresh = "Node MappingNode ''!!map'' [] False []"
  let ?c = "case child key m of Some v \<Rightarrow> v | None \<Rightarrow> ?fresh"
  have sub: "case child key m of None \<Rightarrow> True | Some c \<Rightarrow> mapping_ok c \<and> open_path p c" if "(p, t, v) \<in> set W" for p t v
    using that m assms(3) by (intro open_inside) (fastforce simp: inside_def)+
  obtain w where w: "w \<in> set W" using assms(2) by (cases W) auto
  have c: "mapping_ok ?c"
  proof (cases "child key m")
    case (Some c)
    then show ?thesis using sub [of "fst w" "fst (snd w)" "snd (snd w)"] w by simp
  qed (simp add: mapping_ok_def)
  have "open_path p ?c" if "(p, t, v) \<in> set W" for p t v
    using sub [OF that] by (cases "child key m") (simp_all add: open_empty)
  then obtain c' where c': "f ?c = Some c'" "writes_ok W ?c c'" using writes_allD [OF assms(1) c] by blast
  then obtain m' where m': "change_child key f ?fresh m = Some m'" "mapping_ok m'"
    "\<forall>k. child k m' = (if k = key then Some c' else child k m)"
    using change_child_total [where m = m and f = f and key = key and fresh = ?fresh and v' = c'] m by blast
  have "node_at q m' = node_at q m \<and> (open_path q m \<longrightarrow> open_path q m')" if q: "apart (inside key W) q" for q
  proof (cases q)
    case Nil
    then show ?thesis using q w by (force simp: apart_def inside_def)
  next
    case (Cons k ks)
    show ?thesis
    proof (cases "k = key")
      case False
      then show ?thesis using m'(3) Cons by (cases ks) simp_all
    next
      case True
      then have ks: "apart W ks" using q Cons by (fastforce simp: apart_def inside_def)
      then have ne: "ks \<noteq> []" using w by (cases w) (auto simp: apart_def)
      have n: "node_at ks c' = node_at ks ?c" and o: "open_path ks ?c \<longrightarrow> open_path ks c'"
        using c'(2) ks by (simp_all add: writes_ok_def)
      have "node_at q m' = node_at ks c'" using m'(3) Cons True by simp
      moreover have "node_at ks ?fresh = None" using ne by (cases ks) (simp_all add: child_def)
      then have "node_at q m = node_at ks ?c" using Cons True by (cases "child key m") simp_all
      moreover have "open_path q m \<Longrightarrow> open_path q m'"
        using ne o m'(3) Cons True c'(2) open_inside [of key ks m] open_empty [of ks]
        by (cases ks; cases "child key m") (auto simp: writes_ok_def)
      ultimately show ?thesis using n by simp
    qed
  qed
  moreover have "scalar_at (key # p) t v m'" if "(p, t, v) \<in> set W" for p t v
    using that c'(2) m'(3) by (fastforce simp: writes_ok_def scalar_at_def)
  ultimately have "writes_ok (inside key W) m m'" using m'(2) by (auto simp: writes_ok_def inside_def)
  then show "\<exists>m'. findOrAddMappingChild key f m = Some m' \<and> writes_ok (inside key W) m m'"
    using m'(1) by (simp add: findOrAddMappingChild_def)
qed

section \<open>The settings\<close>

definition assigned :: "ServerSettingsUpdate \<Rightarrow> writes" where
  "assigned s =
     (let one = (\<lambda>path tag v. case v of None \<Rightarrow> [] | Some x \<Rightarrow> [(path, tag, x)]) in
      one [''rdp'', ''publicHost''] ''!!str'' (su_PublicHost s)
      @ one [''rdp'', ''portRange'', ''start''] ''!!int'' (map_option show_int (su_PortRangeStart s))
      @ one [''rdp'', ''portRange'', ''end''] ''!!int'' (map_option show_int (su_PortRangeEnd s))
      @ one [''security'', ''defaultPolicy''] ''!!str'' (su_DefaultPolicy s)
      @ one [''web'', ''token''] ''!!str'' (su_WebToken s)
      @ one [''server'', ''quic'', ''listen''] ''!!str'' (su_QuicListen s)
      @ one [''server'', ''tls'', ''listen''] ''!!str'' (su_TlsListen s)
      @ one [''server'', ''tls'', ''disabled''] ''!!bool'' (map_option show_bool (su_TlsDisabled s))
      @ one [''server'', ''rendezvous'', ''listen''] ''!!str'' (su_RendezvousListen s))"

definition one_write :: "string \<Rightarrow> string \<Rightarrow> string option \<Rightarrow> writes" where
  "one_write key tag v = (case v of None \<Rightarrow> [] | Some x \<Rightarrow> [([key], tag, x)])"

lemma writes_opt_set: "writes_all (opt_set key tag v) (one_write key tag v)"
proof (cases v)
  case None
  then show ?thesis using writes_nothing by (simp add: opt_set_def one_write_def writes_all_def)
next
  case (Some x)
  then have "opt_set key tag v = setMappingScalarChild key tag x" by (simp add: opt_set_def fun_eq_iff)
  then show ?thesis using writes_scalar Some by (simp add: one_write_def)
qed

lemma writes_opt_child:
  assumes "writes_all f W" "given \<longleftrightarrow> W \<noteq> []" "\<forall>(p, _, _) \<in> set W. p \<noteq> []"
  shows "writes_all (opt_child given key f) (inside key W)"
proof (cases given)
  case True
  then have "opt_child given key f = findOrAddMappingChild key f" by (simp add: opt_child_def fun_eq_iff)
  then show ?thesis using writes_inside [OF assms(1) _ assms(3)] True assms(2) by simp
next
  case False
  then have "opt_child given key f = Some" "W = []" using assms(2) by (simp_all add: opt_child_def fun_eq_iff)
  then show ?thesis using writes_nothing by (simp add: inside_def)
qed

lemma writes_simps [simp]:
  "one_write key tag v = [] \<longleftrightarrow> v = None" "inside key W = [] \<longleftrightarrow> W = []"
  "(p, t, x) \<in> set (one_write key tag v) \<longleftrightarrow> p = [key] \<and> t = tag \<and> v = Some x"
  "(p, t, x) \<in> set (inside key W) \<longleftrightarrow> (\<exists>q. p = key # q \<and> (q, t, x) \<in> set W)"
  by (auto simp: one_write_def inside_def split: option.splits)

lemma writes_range:
  assumes "given \<longleftrightarrow> a \<noteq> None \<or> b \<noteq> None"
  shows "writes_all (opt_child given ''rdp''
       (findOrAddMappingChild ''portRange'' (then_do (opt_set ''start'' ''!!int'' a) (opt_set ''end'' ''!!int'' b))))
     (inside ''rdp'' (inside ''portRange'' (one_write ''start'' ''!!int'' a @ one_write ''end'' ''!!int'' b)))"
proof (cases given)
  case True
  let ?W = "one_write ''start'' ''!!int'' a @ one_write ''end'' ''!!int'' b"
  have "writes_all (then_do (opt_set ''start'' ''!!int'' a) (opt_set ''end'' ''!!int'' b)) ?W"
    by (intro writes_then writes_opt_set) (auto simp: apart_def)
  moreover have "?W \<noteq> []" using True assms by auto
  moreover have "\<forall>(p, _, _) \<in> set ?W. p \<noteq> []" by auto
  ultimately have "writes_all (findOrAddMappingChild ''portRange'' (then_do (opt_set ''start'' ''!!int'' a) (opt_set ''end'' ''!!int'' b)))
      (inside ''portRange'' ?W)" by (rule writes_inside)
  then show ?thesis by (rule writes_opt_child) (use True assms in auto)
next
  case False
  then have "opt_child given ''rdp'' f = Some" for f by (simp add: opt_child_def fun_eq_iff)
  moreover have "a = None" "b = None" using False assms by auto
  ultimately show ?thesis using writes_nothing by (simp add: inside_def one_write_def)
qed

lemma writes_section:
  assumes "given \<longleftrightarrow> v \<noteq> None"
  shows "writes_all (opt_child given section (opt_set key tag v)) (inside section (one_write key tag v))"
  by (rule writes_opt_child [OF writes_opt_set]) (use assms in auto)

lemma writes_tls:
  assumes "given \<longleftrightarrow> a \<noteq> None \<or> b \<noteq> None"
  shows "writes_all (opt_child given ''tls'' (then_do (opt_set ''listen'' ''!!str'' a) (opt_set ''disabled'' ''!!bool'' b)))
    (inside ''tls'' (one_write ''listen'' ''!!str'' a @ one_write ''disabled'' ''!!bool'' b))"
proof (rule writes_opt_child)
  show "writes_all (then_do (opt_set ''listen'' ''!!str'' a) (opt_set ''disabled'' ''!!bool'' b))
      (one_write ''listen'' ''!!str'' a @ one_write ''disabled'' ''!!bool'' b)"
    by (intro writes_then writes_opt_set) (auto simp: apart_def)
qed (use assms in auto)

lemma writes_server:
  assumes "given \<longleftrightarrow> q \<noteq> None \<or> a \<noteq> None \<or> b \<noteq> None \<or> r \<noteq> None" "gt \<longleftrightarrow> a \<noteq> None \<or> b \<noteq> None"
  shows "writes_all (opt_child given ''server''
      (then_do (opt_child (q \<noteq> None) ''quic'' (opt_set ''listen'' ''!!str'' q))
         (then_do (opt_child gt ''tls'' (then_do (opt_set ''listen'' ''!!str'' a) (opt_set ''disabled'' ''!!bool'' b)))
           (opt_child (r \<noteq> None) ''rendezvous'' (opt_set ''listen'' ''!!str'' r)))))
    (inside ''server'' (inside ''quic'' (one_write ''listen'' ''!!str'' q)
        @ inside ''tls'' (one_write ''listen'' ''!!str'' a @ one_write ''disabled'' ''!!bool'' b)
        @ inside ''rendezvous'' (one_write ''listen'' ''!!str'' r)))"
proof (rule writes_opt_child)
  show "writes_all (then_do (opt_child (q \<noteq> None) ''quic'' (opt_set ''listen'' ''!!str'' q))
         (then_do (opt_child gt ''tls'' (then_do (opt_set ''listen'' ''!!str'' a) (opt_set ''disabled'' ''!!bool'' b)))
           (opt_child (r \<noteq> None) ''rendezvous'' (opt_set ''listen'' ''!!str'' r))))
      (inside ''quic'' (one_write ''listen'' ''!!str'' q)
        @ inside ''tls'' (one_write ''listen'' ''!!str'' a @ one_write ''disabled'' ''!!bool'' b)
        @ inside ''rendezvous'' (one_write ''listen'' ''!!str'' r))"
    by (rule writes_then [OF writes_section writes_then [OF writes_tls writes_section]]) (auto simp: apart_def assms(2))
qed (use assms in auto)

lemma writes_settings: "writes_all (settings_change s)
   (inside ''rdp'' (one_write ''publicHost'' ''!!str'' (su_PublicHost s))
    @ inside ''rdp'' (inside ''portRange'' (one_write ''start'' ''!!int'' (map_option show_int (su_PortRangeStart s))
        @ one_write ''end'' ''!!int'' (map_option show_int (su_PortRangeEnd s))))
    @ inside ''security'' (one_write ''defaultPolicy'' ''!!str'' (su_DefaultPolicy s))
    @ inside ''web'' (one_write ''token'' ''!!str'' (su_WebToken s))
    @ inside ''server'' (inside ''quic'' (one_write ''listen'' ''!!str'' (su_QuicListen s))
        @ inside ''tls'' (one_write ''listen'' ''!!str'' (su_TlsListen s)
            @ one_write ''disabled'' ''!!bool'' (map_option show_bool (su_TlsDisabled s)))
        @ inside ''rendezvous'' (one_write ''listen'' ''!!str'' (su_RendezvousListen s))))"
  unfolding settings_change_def
  by (rule writes_then [OF writes_section writes_then [OF writes_range writes_then [OF writes_section
          writes_then [OF writes_section writes_server]]]]) (auto simp: apart_def)

lemma assigned_writes: "assigned s =
   (inside ''rdp'' (one_write ''publicHost'' ''!!str'' (su_PublicHost s))
    @ inside ''rdp'' (inside ''portRange'' (one_write ''start'' ''!!int'' (map_option show_int (su_PortRangeStart s))
        @ one_write ''end'' ''!!int'' (map_option show_int (su_PortRangeEnd s))))
    @ inside ''security'' (one_write ''defaultPolicy'' ''!!str'' (su_DefaultPolicy s))
    @ inside ''web'' (one_write ''token'' ''!!str'' (su_WebToken s))
    @ inside ''server'' (inside ''quic'' (one_write ''listen'' ''!!str'' (su_QuicListen s))
        @ inside ''tls'' (one_write ''listen'' ''!!str'' (su_TlsListen s)
            @ one_write ''disabled'' ''!!bool'' (map_option show_bool (su_TlsDisabled s)))
        @ inside ''rendezvous'' (one_write ''listen'' ''!!str'' (su_RendezvousListen s))))"
  by (simp add: assigned_def Let_def inside_def one_write_def split: option.split)

text \<open>
  C34: The settings are written and nothing else is. On a file whose sections on the way to a given setting are
  missing or mappings, the update succeeds, each given setting can be read back from the new tree with its tag and
  value, and at every path that is not above or below a given setting the tree is as it was.
\<close>

theorem settings_roundtrip:
  assumes "y_Kind root = DocumentNode" "y_Content root = m # rest" "mapping_ok m"
    "\<forall>(p, _, _) \<in> set (assigned s). open_path p m"
  shows "\<exists>m'. SyncServerSettings s root = Some (Inr (set_content (m' # rest) root))
    \<and> (\<forall>(p, tag, val) \<in> set (assigned s). scalar_at p tag val m')
    \<and> (\<forall>q. apart (assigned s) q \<longrightarrow> node_at q m' = node_at q m)"
proof -
  have "writes_all (settings_change s) (assigned s)" unfolding assigned_writes by (rule writes_settings)
  then obtain m' where "settings_change s m = Some m'" "writes_ok (assigned s) m m'"
    using writes_allD [of _ _ m] assms(3,4) by fastforce
  then show ?thesis using assms(1,2,3)
    by (intro exI [of _ m']) (simp add: SyncServerSettings_def change_root_def writes_ok_def mapping_ok_def)
qed

text \<open>
  A section that is there but empty is a scalar in the tree. What is put below it is not read, and so not written to the
  file, and the update reports success all the same.
\<close>

lemma empty_section_lost:
  assumes "child key m = Some section" "y_Kind section = ScalarNode" "y_Content section = []" "mapping_ok m"
  shows "\<exists>m'. findOrAddMappingChild key (setMappingScalarChild k tag val) m = Some m' \<and> node_at [key, k] m' = None"
proof -
  obtain section' where s: "setMappingScalarChild k tag val section = Some section'" "y_Kind section' = ScalarNode"
    using assms(2,3) by (simp add: setMappingScalarChild_def change_child_def set_content_def)
  then obtain m' where "findOrAddMappingChild key (setMappingScalarChild k tag val) m = Some m'" "child key m' = Some section'"
    using change_child_total [where m = m and f = "setMappingScalarChild k tag val" and key = key
        and fresh = "Node MappingNode ''!!map'' [] False []" and v' = section'] assms(1,4)
    by (auto simp: findOrAddMappingChild_def)
  then show ?thesis using s(2) by (simp add: child_def)
qed

section \<open>A file\<close>

definition sample_file :: yaml where
  "sample_file = Node DocumentNode [] [] False [Node MappingNode ''!!map'' [] False
     [key_node ''rdp'', Node MappingNode ''!!map'' [] False [key_node ''publicHost'', Node ScalarNode ''!!str'' ''old'' False []]]]"

definition sample_update :: ServerSettingsUpdate where
  "sample_update = \<lparr>su_PublicHost = Some ''new'', su_PortRangeStart = Some 20000, su_PortRangeEnd = None, su_DefaultPolicy = Some ''allow'',
     su_WebToken = None, su_QuicListen = None, su_TlsListen = None, su_TlsDisabled = Some True, su_RendezvousListen = None\<rparr>"

theorem settings_roundtrip_witness:
  "\<exists>m'. SyncServerSettings sample_update sample_file = Some (Inr (set_content [m'] sample_file))
    \<and> scalar_at [''rdp'', ''publicHost''] ''!!str'' ''new'' m' \<and> scalar_at [''server'', ''tls'', ''disabled''] ''!!bool'' ''true'' m'"
proof -
  let ?top = "hd (y_Content sample_file)"
  have t: "y_Kind sample_file = DocumentNode" "y_Content sample_file = ?top # []" "mapping_ok ?top"
    by (simp_all add: sample_file_def mapping_ok_def)
  have "\<forall>(p, _, _) \<in> set (assigned sample_update). open_path p ?top"
    by (simp add: assigned_def sample_update_def sample_file_def child_def key_node_def mapping_ok_def)
  from settings_roundtrip [OF t this] obtain m' where
    "SyncServerSettings sample_update sample_file = Some (Inr (set_content [m'] sample_file))"
    "\<forall>(p, tag, val) \<in> set (assigned sample_update). scalar_at p tag val m'" by blast
  then show ?thesis by (intro exI [of _ m']) (simp add: assigned_def sample_update_def show_bool_def)
qed

section \<open>Accepting a configuration\<close>

text \<open>
  The fields of the record that the library fills and the program looks at here or in the console. A time that is
  zero is \<open>None\<close>, and so is a map that is nil.
\<close>

record EnrollmentInvitation =
  ei_DeviceID :: string
  ei_Token :: string
  ei_ExpiresAt :: "time option"

record RelayConfig =
  rc_QUICListen :: string
  rc_CertFile :: string
  rc_KeyFile :: string
  rc_AllowEphemeralCertificate :: bool
  rc_TLSListen :: string
  rc_TLSDisabled :: bool
  rc_RendezvousListen :: string
  rc_PublicHost :: string
  rc_PortRangeStart :: u16
  rc_PortRangeEnd :: u16
  rc_DefaultPolicy :: string
  rc_EnrollmentToken :: string
  rc_Invitations :: "EnrollmentInvitation list"
  rc_AllowAllControllerTargets :: bool
  rc_ControllerAccess :: "(string, string list) fmap option"
  rc_WebToken :: string

text \<open>
  \<open>strings.TrimSpace\<close>. The spaces of Unicode are recognised by their UTF-8 bytes, from the left or, in a string that is reversed,
  from the right; no other character has one of these sequences inside.
\<close>

definition space2 :: "nat \<Rightarrow> nat \<Rightarrow> bool" where
  "space2 a b \<longleftrightarrow> a = 0xC2 \<and> (b = 0x85 \<or> b = 0xA0)"

definition space3 :: "nat \<Rightarrow> nat \<Rightarrow> nat \<Rightarrow> bool" where
  "space3 a b c \<longleftrightarrow> (a, b, c) = (0xE1, 0x9A, 0x80) \<or> (a, b, c) = (0xE2, 0x81, 0x9F) \<or> (a, b, c) = (0xE3, 0x80, 0x80)
     \<or> a = 0xE2 \<and> b = 0x80 \<and> (c = 0xA8 \<or> c = 0xA9 \<or> c = 0xAF \<or> 0x80 \<le> c \<and> c \<le> 0x8A)"

fun strip_spaces :: "(nat \<Rightarrow> nat \<Rightarrow> bool) \<Rightarrow> (nat \<Rightarrow> nat \<Rightarrow> nat \<Rightarrow> bool) \<Rightarrow> string \<Rightarrow> string" where
  "strip_spaces two three [] = []"
| "strip_spaces two three (a # as) =
     (if of_char a \<in> {9, 10, 11, 12, 13, 32 :: nat} then strip_spaces two three as
      else case as of
        [] \<Rightarrow> a # as
      | b # bs \<Rightarrow>
          if two (of_char a) (of_char b) then strip_spaces two three bs
          else (case bs of
              [] \<Rightarrow> a # as
            | c # cs \<Rightarrow> if three (of_char a) (of_char b) (of_char c) then strip_spaces two three cs else a # as))"

definition TrimSpace :: "string \<Rightarrow> string" where
  "TrimSpace s = rev (strip_spaces (\<lambda>a b. space2 b a) (\<lambda>a b c. space3 c b a) (rev (strip_spaces space2 space3 s)))"

definition blank_string :: "string \<Rightarrow> bool" where
  "blank_string s \<longleftrightarrow> TrimSpace s = []"

datatype config_error = SharedTokenUnsupported | InvitationIncomplete nat | InvitationExpired nat | DuplicateInvitation string
  | PublicHostRequired | BadDefaultPolicy | CertificatePair | CertificateRequired | TLSListenRequired | QUICListenRequired

fun check_invitations :: "time \<Rightarrow> nat \<Rightarrow> string set \<Rightarrow> EnrollmentInvitation list \<Rightarrow> config_error option" where
  "check_invitations now i seen [] = None"
| "check_invitations now i seen (ei # invs) =
     (if blank_string (ei_DeviceID ei) \<or> length (ei_Token ei) < 32 \<or> ei_ExpiresAt ei = None then Some (InvitationIncomplete i)
      else if \<not> the (ei_ExpiresAt ei) > now then Some (InvitationExpired i)
      else if ei_DeviceID ei \<in> seen then Some (DuplicateInvitation (ei_DeviceID ei))
      else check_invitations now (i + 1) (insert (ei_DeviceID ei) seen) invs)"

text \<open>The checks of \<open>LoadRelayConfig\<close>, and those of \<open>SyncRawYamlToConfigFile\<close> before it replaces the file.\<close>

definition load_check :: "time \<Rightarrow> RelayConfig \<Rightarrow> config_error option" where
  "load_check now cfg =
     (if rc_EnrollmentToken cfg \<noteq> [] then Some SharedTokenUnsupported
      else case check_invitations now 0 {} (rc_Invitations cfg) of
        Some e \<Rightarrow> Some e
      | None \<Rightarrow>
          if blank_string (rc_PublicHost cfg) then Some PublicHostRequired
          else if rc_DefaultPolicy cfg \<noteq> ''allow'' \<and> rc_DefaultPolicy cfg \<noteq> ''deny'' then Some BadDefaultPolicy
          else if (rc_CertFile cfg = []) \<noteq> (rc_KeyFile cfg = []) then Some CertificatePair
          else if rc_CertFile cfg = [] \<and> \<not> rc_AllowEphemeralCertificate cfg then Some CertificateRequired
          else if \<not> rc_TLSDisabled cfg \<and> blank_string (rc_TLSListen cfg) then Some TLSListenRequired
          else None)"

definition raw_check :: "RelayConfig \<Rightarrow> config_error option" where
  "raw_check cfg = (if blank_string (rc_QUICListen cfg) then Some QUICListenRequired else None)"

lemma check_invitations_ok:
  assumes "check_invitations now i seen invs = None"
  shows "distinct (map ei_DeviceID invs) \<and> set (map ei_DeviceID invs) \<inter> seen = {}
    \<and> (\<forall>ei \<in> set invs. \<not> blank_string (ei_DeviceID ei) \<and> 32 \<le> length (ei_Token ei) \<and> (\<exists>t. ei_ExpiresAt ei = Some t \<and> now < t))"
  using assms
proof (induction invs arbitrary: i seen)
  case (Cons ei invs)
  then have "check_invitations now (i + 1) (insert (ei_DeviceID ei) seen) invs = None" by (simp split: if_splits)
  from Cons.IH [OF this] Cons.prems show ?case by (auto split: if_splits)
qed simp

text \<open>
  What a relay starts with. A configuration that is loaded has at most one invitation per device, each for a named device, with a
  token of at least 32 bytes and not yet expired; it names the public host, a policy, and a certificate with
  its key or the permission to do without.
\<close>

theorem loaded_config_sound:
  assumes "load_check now cfg = None"
  shows "distinct (map ei_DeviceID (rc_Invitations cfg))
    \<and> list_all (\<lambda>ei. \<not> blank_string (ei_DeviceID ei) \<and> 32 \<le> length (ei_Token ei) \<and> (\<exists>t. ei_ExpiresAt ei = Some t \<and> now < t)) (rc_Invitations cfg)
    \<and> \<not> blank_string (rc_PublicHost cfg) \<and> rc_DefaultPolicy cfg \<in> {''allow'', ''deny''} \<and> (rc_CertFile cfg = []) = (rc_KeyFile cfg = [])
    \<and> (rc_CertFile cfg \<noteq> [] \<or> rc_AllowEphemeralCertificate cfg) \<and> rc_EnrollmentToken cfg = []"
proof -
  have "check_invitations now 0 {} (rc_Invitations cfg) = None" using assms by (auto simp: load_check_def split: if_splits option.splits)
  from check_invitations_ok [OF this] show ?thesis using assms
    by (auto simp: load_check_def list_all_iff split: if_splits option.splits)
qed

definition console_config :: RelayConfig where
  "console_config = \<lparr>rc_QUICListen = '':443'', rc_CertFile = [], rc_KeyFile = [], rc_AllowEphemeralCertificate = True, rc_TLSListen = '':443'',
     rc_TLSDisabled = False, rc_RendezvousListen = '':21116'', rc_PublicHost = [], rc_PortRangeStart = 20000, rc_PortRangeEnd = 39999,
     rc_DefaultPolicy = ''deny'', rc_EnrollmentToken = [], rc_Invitations = [], rc_AllowAllControllerTargets = False, rc_ControllerAccess = None,
     rc_WebToken = ''token''\<rparr>"

text \<open>The console writes a configuration with which the relay does not start again.\<close>

lemma raw_config_unloadable: "raw_check console_config = None \<and> load_check now console_config = Some PublicHostRequired"
  by (simp add: raw_check_def load_check_def console_config_def blank_string_def TrimSpace_def space2_def space3_def)

theorem loaded_config_sound_witness:
  "\<not> blank_string (rc_PublicHost (console_config\<lparr>rc_PublicHost := ''relay''\<rparr>))"
proof -
  have "load_check 0 (console_config\<lparr>rc_PublicHost := ''relay''\<rparr>) = None"
    by (simp add: load_check_def console_config_def blank_string_def TrimSpace_def space2_def space3_def)
  from loaded_config_sound [OF this] show ?thesis by blast
qed

end
