(* ===== verification/Agent_Protocol.thy ===== *)
theory Agent_Protocol
  imports Agent_Manager
begin

text \<open>
  The protocol of one connection to the relay, as a relation on its phases, and the lemma that every step of
  the manager is, for every connection, a step of the protocol. From it follows the history of a connection:
  what must have happened for it to be where it is.
\<close>

section \<open>The protocol\<close>

text \<open>An \<open>AUTH\<close> message that presents the device and the secret of \<open>a\<close>.\<close>

definition presents :: "ControlMessage \<Rightarrow> auth \<Rightarrow> bool" where
  "presents msg a \<longleftrightarrow> m_Type msg = MsgTypeAuth \<and> validDeviceID (m_DeviceID msg) \<and> m_SecretHash msg = []
     \<and> au_DeviceID a = m_DeviceID msg \<and> au_Secret a = m_Secret msg \<and> au_SecretHash a = hashSecret (m_Secret msg)"

definition stored_secret :: "DB \<Rightarrow> auth \<Rightarrow> bool" where
  "stored_secret db a \<longleftrightarrow> (\<exists>r. fmlookup (agents db) (au_DeviceID a) = Some r \<and> a_Enabled r \<and> a_SecretHash r = au_SecretHash a)"

definition not_disabled :: "DB \<Rightarrow> string \<Rightarrow> bool" where
  "not_disabled db dev \<longleftrightarrow> (\<forall>r. fmlookup (agents db) dev = Some r \<longrightarrow> a_Enabled r)"

definition invited :: "DB \<Rightarrow> time \<Rightarrow> auth \<Rightarrow> bool" where
  "invited db now a \<longleftrightarrow> ValidateEnrollmentInvitation (au_DeviceID a) (au_Token a) now db
     \<and> minDeviceSecretBytes \<le> length (au_Secret a)"

inductive conn_step :: "env \<Rightarrow> manager_event \<Rightarrow> nat \<Rightarrow> AgentManager \<Rightarrow> phase \<Rightarrow> phase \<Rightarrow> bool"
  for e ev c m where
  same: "conn_step e ev c m p p"
| ended: "conn_step e ev c m p Ended"
| connect: "ev = MConnect addr \<Longrightarrow> c = am_next m \<Longrightarrow> conn_step e ev c m p AwaitAuth"
| ask: "ev = MMessage c msg \<Longrightarrow> am_db m = Some db \<Longrightarrow> presents msg a \<Longrightarrow> au_New a \<Longrightarrow> not_disabled db (au_DeviceID a) \<Longrightarrow>
    conn_step e ev c m AwaitAuth (AwaitRetry a)"
| secret: "ev = MMessage c msg \<Longrightarrow> am_db m = Some db \<Longrightarrow> presents msg a \<Longrightarrow> \<not> au_New a \<Longrightarrow> stored_secret db a \<Longrightarrow>
    conn_step e ev c m AwaitAuth (AwaitInit a)"
| enroll: "ev = MMessage c msg \<Longrightarrow> am_db m = Some db \<Longrightarrow> presents msg a \<Longrightarrow> au_New a \<Longrightarrow> not_disabled db (au_DeviceID a) \<Longrightarrow>
    invited db (e_now e) a \<Longrightarrow> conn_step e ev c m AwaitAuth (AwaitInit a)"
| retry: "ev = MMessage c msg \<Longrightarrow> am_db m = Some db \<Longrightarrow> m_Type msg = MsgTypeAuth \<Longrightarrow> m_DeviceID msg = au_DeviceID a \<Longrightarrow>
    m_Secret msg = au_Secret a \<Longrightarrow> invited db (e_now e) (a\<lparr>au_Token := tok\<rparr>) \<Longrightarrow>
    conn_step e ev c m (AwaitRetry a) (AwaitInit (a\<lparr>au_Token := tok\<rparr>))"
| control: "ev = MMessage c msg \<Longrightarrow> controllerCanAccess m (au_DeviceID a) tid \<Longrightarrow> online_session tid m = Some (tc, s) \<Longrightarrow>
    \<not> public_id sid \<Longrightarrow> conn_step e ev c m (AwaitInit a) (Controlling a tid sid tc)"
| allocate: "ev = MMessage c msg \<Longrightarrow> m_Type msg = MsgTypeRegister \<Longrightarrow>
    GetOrAllocatePort (au_DeviceID a) (portManager m) = (pm, Inr port) \<Longrightarrow>
    conn_step e ev c m (AwaitInit a) (Allocated a msg port)"
| persist: "ev = MContinue c \<Longrightarrow> conn_step e ev c m (Allocated a msg port) (Persisted a msg port)"
| listen: "ev = MContinue c \<Longrightarrow> \<not> port_in_use port m \<Longrightarrow> conn_step e ev c m (Persisted a msg port) (Bound a msg)"
| list: "ev = MContinue c \<Longrightarrow> conn_step e ev c m (Bound a msg) (Listed a msg)"
| serve: "ev = MContinue c \<Longrightarrow> conn_step e ev c m (Listed a msg) (Serving a)"
| leave: "ev = MHangup c \<Longrightarrow> conn_step e ev c m (Serving a) (Leaving a)"

inductive_cases conn_stepE: "conn_step e ev c m p q"

section \<open>Phases\<close>

lemma phase_of_cong: "am_conns m' = am_conns m \<Longrightarrow> phase_of m' c = phase_of m c"
  by (simp add: phase_of_def)

lemma phase_set_phase:
  "phase_of (set_phase c p m) c' = (if c' = c \<and> fmlookup (am_conns m) c \<noteq> None then p else phase_of m c')"
  by (cases "fmlookup (am_conns m) c") (simp_all add: phase_of_def set_phase_def)

lemma phase_missing: "fmlookup (am_conns m) c = None \<Longrightarrow> phase_of m c = Ended"
  by (simp add: phase_of_def)

lemma phase_finish: "phase_of (finish e c m) c' = (if c' = c then Ended else phase_of m c')"
proof (cases "fmlookup (am_conns m) c")
  case None
  then show ?thesis by (simp add: finish_def phase_missing)
next
  case (Some k)
  let ?m = "m\<lparr>connectionGuard := release (e_now e) (c_ticket k) (connectionGuard m)\<rparr>"
  have "phase_of ?m c' = phase_of m c'" by (rule phase_of_cong) simp
  then show ?thesis using Some phase_set_phase [of c Ended ?m c'] by (simp add: finish_def)
qed

lemma am_conns_update [simp]: "am_conns (update_session c f m) = am_conns m"
  by (simp add: update_session_def split: option.splits)

lemma am_conns_close [simp]: "am_conns (close_live e dev m) = am_conns m"
  by (simp add: close_live_def split: option.splits)

lemma am_conns_online [simp]: "am_conns (registerOnlineAgent e c s m) = am_conns m"
  by (simp add: registerOnlineAgent_def Let_def)

lemma am_conns_drop [simp]: "am_conns (drop_online c s m) = am_conns m"
  by (simp add: drop_online_def)

lemma phase_set_streams [simp]: "phase_of (set_streams c f m) c' = phase_of m c'"
  by (cases "fmlookup (am_conns m) c") (auto simp: set_streams_def phase_of_def)

lemma phase_on_stream [simp]: "phase_of (on_stream c opened written answer m) c' = phase_of m c'"
proof -
  have "am_conns (update_session tc f m) = am_conns m" for tc f by simp
  then show ?thesis using phase_of_cong [of "update_session _ _ m" m c'] by (simp add: on_stream_def split: phase.split)
qed

text \<open>From an operation of connection \<open>c\<close> to a new phase, or to none.\<close>

definition moves :: "nat \<Rightarrow> phase \<Rightarrow> AgentManager \<Rightarrow> AgentManager \<Rightarrow> bool" where
  "moves c p m m' \<longleftrightarrow> (\<forall>c'. phase_of m' c' = (if c' = c then p else phase_of m c'))"

lemma moves_finish: "am_conns m' = am_conns m \<Longrightarrow> moves c Ended m (finish e c m')"
  using phase_of_cong [of m' m] by (simp add: moves_def phase_finish)

lemma moves_set_phase:
  assumes "am_conns m' = am_conns m" "phase_of m c \<noteq> Ended"
  shows "moves c p m (set_phase c p m')"
proof -
  have "fmlookup (am_conns m') c \<noteq> None" using assms phase_missing [of m c] by metis
  then show ?thesis using phase_of_cong [OF assms(1)] by (simp add: moves_def phase_set_phase)
qed

lemma moves_conns: "am_conns m'' = am_conns m' \<Longrightarrow> moves c p m m' \<Longrightarrow> moves c p m m''"
  using phase_of_cong [of m'' m'] by (simp add: moves_def)

lemma moves_step:
  "moves c p m m' \<Longrightarrow> conn_step e ev c m (phase_of m c) p \<Longrightarrow> conn_step e ev c' m (phase_of m c') (phase_of m' c')"
  by (cases "c' = c") (simp_all add: moves_def conn_step.same)

section \<open>The handshake\<close>

lemma enroll_check_cases:
  "enroll_check e a db \<noteq> NeedInvitation a'"
  "enroll_check e a db = Checked a' \<longleftrightarrow> a' = a \<and> length (au_Token a) \<le> maxEnrollmentTokenBytes \<and> \<not> e_fails e 4
     \<and> invited db (e_now e) a"
  by (auto simp: enroll_check_def invited_def)

lemma enroll_begin_Need: "enroll_begin e addr a db g = (g', NeedInvitation a') \<Longrightarrow> a' = a"
  by (auto simp: enroll_begin_def enroll_check_cases split: prod.splits bool.splits if_splits)

lemma enroll_begin_Checked:
  assumes "enroll_begin e addr a db g = (g', Checked a')"
  shows "invited db (e_now e) a' \<and> (\<exists>tok. a' = a\<lparr>au_Token := tok\<rparr>)"
proof -
  have "a' = a \<or> a' = a\<lparr>au_Token := au_Secret a\<rparr>" "invited db (e_now e) a'"
    using assms by (auto simp: enroll_begin_def enroll_check_cases split: prod.splits bool.splits if_splits)
  moreover have "a = a\<lparr>au_Token := au_Token a\<rparr>" by simp
  ultimately show ?thesis by metis
qed

lemma presents_auth_of [simp]:
  "presents msg (auth_of msg\<lparr>au_New := n, au_Token := t\<rparr>) \<longleftrightarrow>
     m_Type msg = MsgTypeAuth \<and> validDeviceID (m_DeviceID msg) \<and> m_SecretHash msg = []"
  "presents msg (auth_of msg\<lparr>au_New := n\<rparr>) \<longleftrightarrow>
     m_Type msg = MsgTypeAuth \<and> validDeviceID (m_DeviceID msg) \<and> m_SecretHash msg = []"
  "presents msg (auth_of msg) \<longleftrightarrow>
     m_Type msg = MsgTypeAuth \<and> validDeviceID (m_DeviceID msg) \<and> m_SecretHash msg = []"
  by (simp_all add: presents_def auth_of_def)

text \<open>The ways through \<open>auth_begin\<close> that do not end the connection.\<close>

lemma auth_begin_paths:
  assumes "auth_begin e addr msg dbo g = (g', st)" "\<forall>x. st \<noteq> Refuse x"
  obtains db where "dbo = Some db" "m_Type msg = MsgTypeAuth" "validDeviceID (m_DeviceID msg)" "m_SecretHash msg = []"
    "stored_secret db (auth_of msg) \<and> st = Checked (auth_of msg)
     \<or> (\<exists>tok. enroll_begin e addr (auth_of msg\<lparr>au_New := True, au_Token := tok\<rparr>) db g = (g', st)
          \<and> not_disabled db (m_DeviceID msg))"
proof -
  have c: "m_Type msg = MsgTypeAuth" "validDeviceID (m_DeviceID msg)" "m_SecretHash msg = []" "m_Secret msg \<noteq> []"
    "\<not> maxDeviceSecretBytes < length (m_Secret msg)"
    using assms by (auto simp: auth_begin_def split: if_splits)
  obtain db where db: "dbo = Some db" using assms by (cases dbo) (auto simp: auth_begin_def split: if_splits)
  have ok: "\<not> e_fails e 0" using assms c by (auto simp: auth_begin_def db split: if_splits)
  note unf = assms(1) [unfolded auth_begin_def db]
  have tok: "auth_of msg\<lparr>au_New := True\<rparr> = auth_of msg\<lparr>au_New := True, au_Token := m_EnrollmentToken msg\<rparr>"
    by (simp add: auth_of_def)
  have "stored_secret db (auth_of msg) \<and> st = Checked (auth_of msg)
     \<or> (\<exists>tok. enroll_begin e addr (auth_of msg\<lparr>au_New := True, au_Token := tok\<rparr>) db g = (g', st)
          \<and> not_disabled db (m_DeviceID msg))"
  proof (cases "fmlookup (agents db) (m_DeviceID msg)")
    case None
    then have "enroll_begin e addr (auth_of msg\<lparr>au_New := True\<rparr>) db g = (g', st)"
      using unf c ok by (simp add: GetAgentByDeviceID_def)
    then have "enroll_begin e addr (auth_of msg\<lparr>au_New := True, au_Token := m_EnrollmentToken msg\<rparr>) db g = (g', st)"
      by (simp only: tok [symmetric])
    then show ?thesis using None by (auto simp: not_disabled_def)
  next
    case (Some r)
    have "\<not> a_Enabled r \<Longrightarrow> st = Refuse (error_message 403 ''device is disabled'')"
      using unf c ok Some by (simp add: GetAgentByDeviceID_def)
    then have r: "a_Enabled r" using assms(2) by blast
    show ?thesis
    proof (cases "a_SecretHash r = au_SecretHash (auth_of msg)")
      case True
      then have "st = Checked (auth_of msg)"
        using unf c ok r Some by (simp add: GetAgentByDeviceID_def)
      moreover have "au_DeviceID (auth_of msg) = m_DeviceID msg" by (simp add: auth_of_def)
      ultimately show ?thesis using Some r True by (simp add: stored_secret_def)
    next
      case False
      then have "(case re_enroll e msg db of None \<Rightarrow> (g, Refuse (error_message 401 ''invalid secret''))
          | Some tok \<Rightarrow> enroll_begin e addr (auth_of msg\<lparr>au_New := True, au_Token := tok\<rparr>) db g) = (g', st)"
        using unf c ok r Some by (simp add: GetAgentByDeviceID_def)
      then obtain tok where "enroll_begin e addr (auth_of msg\<lparr>au_New := True, au_Token := tok\<rparr>) db g = (g', st)"
        using assms(2) by (cases "re_enroll e msg db") auto
      then show ?thesis using r Some by (auto simp: not_disabled_def)
    qed
  qed
  then show thesis using that db c by blast
qed

lemma auth_begin_step:
  assumes "auth_begin e addr msg (am_db m) g = (g', st)" "st = NeedInvitation a \<or> st = Checked a" "ev = MMessage c msg"
  shows "conn_step e ev c m AwaitAuth (if st = Checked a then AwaitInit a else AwaitRetry a)"
proof -
  have "\<forall>x. st \<noteq> Refuse x" using assms(2) by auto
  from auth_begin_paths [OF assms(1) this] obtain db where db: "am_db m = Some db"
    and c: "m_Type msg = MsgTypeAuth" "validDeviceID (m_DeviceID msg)" "m_SecretHash msg = []"
    and st: "stored_secret db (auth_of msg) \<and> st = Checked (auth_of msg)
     \<or> (\<exists>tok. enroll_begin e addr (auth_of msg\<lparr>au_New := True, au_Token := tok\<rparr>) db g = (g', st)
          \<and> not_disabled db (m_DeviceID msg))" .
  from st show ?thesis
  proof
    assume "stored_secret db (auth_of msg) \<and> st = Checked (auth_of msg)"
    then show ?thesis
      using assms(2) c db by (auto intro!: conn_step.secret [OF assms(3)]) (simp add: auth_of_def)
  next
    assume "\<exists>tok. enroll_begin e addr (auth_of msg\<lparr>au_New := True, au_Token := tok\<rparr>) db g = (g', st)
          \<and> not_disabled db (m_DeviceID msg)"
    then obtain tok where tok: "enroll_begin e addr (auth_of msg\<lparr>au_New := True, au_Token := tok\<rparr>) db g = (g', st)"
      "not_disabled db (m_DeviceID msg)" by blast
    have dev: "au_DeviceID (auth_of msg\<lparr>au_New := True, au_Token := t\<rparr>) = m_DeviceID msg" for t by (simp add: auth_of_def)
    show ?thesis
    proof (cases "st = Checked a")
      case True
      obtain t where "a = auth_of msg\<lparr>au_New := True, au_Token := t\<rparr>" "invited db (e_now e) a"
        using enroll_begin_Checked [OF tok(1) [unfolded True]] by auto
      then show ?thesis using True c db tok(2) dev by (simp add: conn_step.enroll [OF assms(3) db])
    next
      case False
      then have a: "a = auth_of msg\<lparr>au_New := True, au_Token := tok\<rparr>"
        using assms(2) tok(1) enroll_begin_Need by blast
      then show ?thesis using False c db tok(2) dev by (simp add: conn_step.ask [OF assms(3) db])
    qed
  qed
qed

lemma auth_retry_step:
  assumes "auth_retry e a msg (am_db m) = st" "ev = MMessage c msg" "\<forall>x. st \<noteq> Refuse x"
  shows "\<exists>tok. st = Checked (a\<lparr>au_Token := tok\<rparr>) \<and> conn_step e ev c m (AwaitRetry a) (AwaitInit (a\<lparr>au_Token := tok\<rparr>))"
proof -
  obtain db where db: "am_db m = Some db" using assms by (cases "am_db m") (auto simp: auth_retry_def split: if_splits)
  have c: "m_Type msg = MsgTypeAuth" "m_DeviceID msg = au_DeviceID a" "m_Secret msg = au_Secret a"
    "st = enroll_check e (a\<lparr>au_Token := m_EnrollmentToken msg\<rparr>) db"
    using assms by (auto simp: auth_retry_def db split: if_splits)
  have st: "st = Checked (a\<lparr>au_Token := m_EnrollmentToken msg\<rparr>)"
  proof (cases st)
    case (Checked a')
    then show ?thesis using c(4) enroll_check_cases(2) by metis
  next
    case (NeedInvitation a')
    then show ?thesis using c(4) enroll_check_cases(1) by metis
  qed (use assms(3) in auto)
  then have "invited db (e_now e) (a\<lparr>au_Token := m_EnrollmentToken msg\<rparr>)" using c(4) enroll_check_cases(2) by metis
  then show ?thesis using st c(1-3) conn_step.retry [OF assms(2) db] by blast
qed

section \<open>Controllers\<close>

lemma connect_response_simps [simp]:
  "m_Type (connect_response host q) = MsgTypeConnectResponse" "m_SessionID (connect_response host q) = q_session q"
  by (simp_all add: connect_response_def message_def)

lemma connect_accepted:
  assumes "HandleConnectRequest (Some p) req host rnd ok c = (c', out, Inr resp)" "m_Type resp \<noteq> MsgTypeError"
  obtains q where "resp = connect_response host q" "\<not> public_id (q_session q)" "q_targetID q = m_TargetDeviceID req"
    "q_controllerID q = p_DeviceID p"
proof -
  obtain c1 st where c1: "connect_prepare p req rnd c = (c1, st)" by force
  show thesis
  proof (cases st)
    case (Reply r)
    then have "\<exists>e code. r = error_message code e"
      using c1 by (auto simp: connect_prepare_def Let_def split: sum.splits option.splits prod.splits if_splits)
    then show thesis using assms c1 Reply by (auto simp: HandleConnectRequest_def)
  next
    case (Fails e)
    then show thesis using assms(1) c1 by (simp add: HandleConnectRequest_def)
  next
    case (Prepared q)
    then show thesis
      using assms c1 connect_prepare_Prepared [OF c1 [unfolded Prepared]] that [of q]
      by (auto simp: HandleConnectRequest_def connect_notify_def connect_commit_def split: if_splits prod.splits)
  qed
qed

lemma moves_end_controller:
  "end_controller e c a sid tc m1 = (m', out) \<Longrightarrow> am_conns m1 = am_conns m \<Longrightarrow> moves c Ended m m'"
  by (auto simp: end_controller_def intro!: moves_finish split: prod.splits)

lemma moves_refuse: "refuse e c msg m1 = (m', out) \<Longrightarrow> am_conns m1 = am_conns m \<Longrightarrow> moves c Ended m m'"
  by (auto simp: refuse_def intro!: moves_finish)

text \<open>The cases of the request of a controller.\<close>

lemma controller_connect_cases:
  assumes "phase_of m c \<noteq> Ended" "am_conns m1 = am_conns m" "controller_connect e c a msg tc m1 = (m', out)"
  shows "moves c Ended m m' \<or> (\<exists>sid. \<not> public_id sid \<and> moves c (Controlling a (m_TargetDeviceID msg) sid tc) m m')"
proof -
  obtain co o1 r where h: "HandleConnectRequest (Some (controller_peer c a msg)) msg (PublicHost (am_config m1)) (e_rnd e)
      (e_notify e) (coord m1) = (co, o1, r)" by (rule prod_cases3)
  have fin: "moves c Ended m (finish e c (m1\<lparr>coordinator := co\<rparr>))" using assms(2) by (intro moves_finish) simp
  show ?thesis
  proof (cases r)
    case (Inl x)
    then have "m' = finish e c (m1\<lparr>coordinator := co\<rparr>)" using assms(3) h by (simp add: controller_connect_def)
    then show ?thesis using fin by simp
  next
    case (Inr resp)
    let ?m = "update_session tc (registerControllerRoute (m_SessionID resp) c) (m1\<lparr>coordinator := co\<rparr>)"
    have conns: "am_conns ?m = am_conns m" using assms(2) by simp
    show ?thesis
    proof (cases "m_Type resp = MsgTypeError")
      case True
      then have "m' = finish e c (m1\<lparr>coordinator := co\<rparr>)" using assms(3) h Inr by (simp add: controller_connect_def)
      then show ?thesis using fin by simp
    next
      case err: False
      obtain m2 o2 where end': "end_controller e c a (m_SessionID resp) tc ?m = (m2, o2)" by force
      have sid: "\<not> public_id (m_SessionID resp)"
        using connect_accepted [OF h [unfolded Inr] err] connect_response_simps(2) by metis
      have "m' = (if e_sent e then set_phase c (Controlling a (m_TargetDeviceID msg) (m_SessionID resp) tc) ?m else m2)"
        using assms(3) h Inr err end' by (auto simp: controller_connect_def Let_def)
      then show ?thesis
        using sid moves_end_controller [OF end' conns] moves_set_phase [OF conns assms(1)] by (cases "e_sent e") auto
    qed
  qed
qed

lemma controller_start_cases:
  assumes "phase_of m c = AwaitInit a" "controller_start e c a msg m = (m', out)"
  shows "moves c Ended m m' \<or> (\<exists>tc s sid. moves c (Controlling a (m_TargetDeviceID msg) sid tc) m m'
      \<and> controllerCanAccess m (au_DeviceID a) (m_TargetDeviceID msg) \<and> online_session (m_TargetDeviceID msg) m = Some (tc, s)
      \<and> \<not> public_id sid)"
proof -
  let ?tid = "m_TargetDeviceID msg"
  consider (refused) r1 m1 where "refuse e c r1 m1 = (m', out)" "am_conns m1 = am_conns m"
    | (go) dbo tc s where "controllerCanAccess m (au_DeviceID a) ?tid" "online_session ?tid m = Some (tc, s)"
        "controller_connect e c a msg tc (m\<lparr>am_db := dbo\<rparr>) = (m', out)"
    using assms(2) by (auto simp: controller_start_def split: if_splits option.splits)
  then show ?thesis
  proof cases
    case refused
    then show ?thesis using moves_refuse by blast
  next
    case go
    have "phase_of m c \<noteq> Ended" using assms(1) by simp
    from controller_connect_cases [OF this _ go(3)] show ?thesis using go(1,2) by auto
  qed
qed

section \<open>Every step of the manager is a step of the protocol\<close>

lemma moves_same: "am_conns m' = am_conns m \<Longrightarrow> conn_step e ev c m (phase_of m c) (phase_of m' c)"
  using phase_of_cong [of m' m c] by (simp add: conn_step.same)

lemma moves_ended: "moves c Ended m m' \<Longrightarrow> conn_step e ev c' m (phase_of m c') (phase_of m' c')"
  by (rule moves_step [OF _ conn_step.ended])

lemma auth_done_step:
  assumes "auth_done e c st m1 = (m', out)" "am_conns m1 = am_conns m" "phase_of m c \<noteq> Ended"
    "\<And>a. st = NeedInvitation a \<Longrightarrow> conn_step e ev c m (phase_of m c) (AwaitRetry a)"
    "\<And>a. st = Checked a \<Longrightarrow> conn_step e ev c m (phase_of m c) (AwaitInit a)"
  shows "conn_step e ev c' m (phase_of m c') (phase_of m' c')"
proof (cases st)
  case (Refuse msg)
  then have "refuse e c msg m1 = (m', out)" using assms(1) by (simp add: auth_done_def)
  then show ?thesis using moves_refuse [OF _ assms(2)] moves_ended by blast
next
  case (NeedInvitation a)
  then have "m' = set_phase c (AwaitRetry a) m1" using assms(1) by (simp add: auth_done_def)
  then show ?thesis using moves_step [OF moves_set_phase [OF assms(2,3)]] assms(4) NeedInvitation by blast
next
  case (Checked a)
  show ?thesis
  proof (cases "e_sent e")
    case True
    then have "m' = set_phase c (AwaitInit a) m1" using assms(1) Checked by (simp add: auth_done_def)
    then show ?thesis using moves_step [OF moves_set_phase [OF assms(2,3)]] assms(5) Checked by blast
  next
    case False
    then have "m' = finish e c m1" using assms(1) Checked by (simp add: auth_done_def)
    then show ?thesis using moves_ended [OF moves_finish [OF assms(2)]] by blast
  qed
qed

lemma register_start_step:
  assumes "register_start e c a msg m = (m', out)" "phase_of m c = AwaitInit a" "ev = MMessage c msg" "m_Type msg = MsgTypeRegister"
  shows "conn_step e ev c' m (phase_of m c') (phase_of m' c')"
proof -
  obtain pm r where p: "GetOrAllocatePort (au_DeviceID a) (portManager m) = (pm, r)" by force
  consider (refused) x m1 where "refuse e c x m1 = (m', out)" "am_conns m1 = am_conns m"
    | (go) port where "r = Inr port"
        "m' = set_phase c (Allocated a msg port) (close_live e (au_DeviceID a) (m\<lparr>portManager := pm\<rparr>))"
    using assms(1) p by (cases r) (auto simp: register_start_def split: if_splits)
  then show ?thesis
  proof cases
    case refused
    then show ?thesis using moves_refuse moves_ended by blast
  next
    case go
    have "moves c (Allocated a msg port) m m'"
      unfolding go(2) using assms(2) by (intro moves_set_phase) simp_all
    then show ?thesis
      using moves_step conn_step.allocate [OF assms(3,4)] p go(1) assms(2) by metis
  qed
qed

lemma on_message_step:
  assumes "on_message e c msg m = (m', out)"
  shows "conn_step e (MMessage c msg) c' m (phase_of m c') (phase_of m' c')"
proof (cases "phase_of m c")
  case AwaitAuth
  let ?addr = "case fmlookup (am_conns m) c of Some k \<Rightarrow> c_addr k | None \<Rightarrow> None"
  obtain g st where g: "auth_begin e ?addr msg (am_db m) (enrollmentGuard m) = (g, st)" by force
  have "auth_done e c st (m\<lparr>enrollmentGuard := g\<rparr>) = (m', out)"
    using assms AwaitAuth g by (simp add: on_message_def)
  then show ?thesis
    using auth_begin_step [OF g _ refl] AwaitAuth by (rule_tac auth_done_step) fastforce+
next
  case (AwaitRetry a)
  then have d: "auth_done e c (auth_retry e a msg (am_db m)) m = (m', out)" using assms by (simp add: on_message_def)
  have st: "\<exists>tok. auth_retry e a msg (am_db m) = Checked (a\<lparr>au_Token := tok\<rparr>)
      \<and> conn_step e (MMessage c msg) c m (AwaitRetry a) (AwaitInit (a\<lparr>au_Token := tok\<rparr>))"
    if "\<forall>x. auth_retry e a msg (am_db m) \<noteq> Refuse x" using auth_retry_step [OF refl refl that] .
  show ?thesis
  proof (rule auth_done_step [OF d refl])
    show "phase_of m c \<noteq> Ended" using AwaitRetry by simp
    show "conn_step e (MMessage c msg) c m (phase_of m c) (AwaitRetry b)"
      if "auth_retry e a msg (am_db m) = NeedInvitation b" for b using st that by auto
    show "conn_step e (MMessage c msg) c m (phase_of m c) (AwaitInit b)"
      if "auth_retry e a msg (am_db m) = Checked b" for b using st that AwaitRetry by auto
  qed
next
  case (AwaitInit a)
  consider (controller) "controller_start e c a msg m = (m', out)"
    | (agent) "m_Type msg = MsgTypeRegister" "register_start e c a msg m = (m', out)" | (other) "m' = finish e c m"
    using assms AwaitInit by (auto simp: on_message_def split: if_splits)
  then show ?thesis
  proof cases
    case controller
    from controller_start_cases [OF AwaitInit this] show ?thesis
      using moves_ended moves_step conn_step.control [OF refl] AwaitInit by metis
  next
    case agent
    then show ?thesis using register_start_step [OF _ AwaitInit refl] by blast
  next
    case other
    then show ?thesis using moves_ended [OF moves_finish] by blast
  qed
next
  case (Serving a)
  then have "am_conns m' = am_conns m" using assms by (auto simp: on_message_def split: option.splits prod.splits)
  then show ?thesis by (rule moves_same)
qed (use assms in \<open>auto simp: on_message_def intro: conn_step.same\<close>)

lemma on_continue_step:
  assumes "on_continue e c m = (m', out)"
  shows "conn_step e (MContinue c) c' m (phase_of m c') (phase_of m' c')"
proof (cases "phase_of m c")
  case (Allocated a msg port)
  then have "register_persist e c a msg port m = (m', out)" using assms by (simp add: on_continue_def)
  then consider (refused) x where "refuse e c x m = (m', out)"
    | (go) db where "m' = set_phase c (Persisted a msg port) (m\<lparr>am_db := Some db\<rparr>)"
    by (auto simp: register_persist_def split: option.splits)
  then show ?thesis
  proof cases
    case refused
    then show ?thesis using moves_refuse [OF _ refl] moves_ended by blast
  next
    case go
    have "moves c (Persisted a msg port) m m'" unfolding go using Allocated by (intro moves_set_phase) simp_all
    then show ?thesis using moves_step conn_step.persist [OF refl] Allocated by metis
  qed
next
  case (Persisted a msg port)
  then have "register_listen e c a msg port m = (m', out)" using assms by (simp add: on_continue_def)
  then consider (refused) x where "refuse e c x m = (m', out)"
    | (go) ss where "\<not> port_in_use port m" "m' = set_phase c (Bound a msg) (m\<lparr>am_sessions := ss\<rparr>)"
    by (auto simp: register_listen_def split: if_splits)
  then show ?thesis
  proof cases
    case refused
    then show ?thesis using moves_refuse [OF _ refl] moves_ended by blast
  next
    case go
    have "moves c (Bound a msg) m m'" unfolding go(2) using Persisted by (intro moves_set_phase) simp_all
    then show ?thesis using moves_step conn_step.listen [OF refl go(1)] Persisted by metis
  qed
next
  case (Bound a msg)
  show ?thesis
  proof (cases "fmlookup (am_sessions m) c")
    case (Some s)
    then have m': "m' = set_phase c (Listed a msg) (registerOnlineAgent e c s m)" using assms Bound by (simp add: on_continue_def)
    have "moves c (Listed a msg) m m'" unfolding m' using Bound by (intro moves_set_phase) simp_all
    then show ?thesis using moves_step conn_step.list [OF refl] Bound by metis
  qed (use assms Bound in \<open>simp add: on_continue_def conn_step.same\<close>)
next
  case (Listed a msg)
  show ?thesis
  proof (cases "fmlookup (am_sessions m) c")
    case (Some s)
    then have "register_peer c a msg s m = (m', out)" using assms Listed by (simp add: on_continue_def)
    then have "moves c (Serving a) m m'" using Listed by (auto simp: register_peer_def intro!: moves_set_phase)
    then show ?thesis using moves_step conn_step.serve [OF refl] Listed by metis
  qed (use assms Listed in \<open>simp add: on_continue_def conn_step.same\<close>)
next
  case (Leaving a)
  show ?thesis
  proof (cases "fmlookup (am_sessions m) c")
    case (Some s)
    then have "m' = unregisterOnlineAgent e c s m" using assms Leaving by (simp add: on_continue_def)
    then have "moves c Ended m m'" by (auto simp: unregisterOnlineAgent_def Let_def intro!: moves_finish)
    then show ?thesis by (rule moves_ended)
  qed (use assms Leaving in \<open>simp add: on_continue_def conn_step.same\<close>)
qed (use assms in \<open>auto simp: on_continue_def intro: conn_step.same split: option.splits\<close>)

lemma on_hangup_step:
  assumes "on_hangup e c m = (m', out)"
  shows "conn_step e (MHangup c) c' m (phase_of m c') (phase_of m' c')"
proof (cases "phase_of m c")
  case (Serving a)
  then have "unregister_peer e c a m = (m', out)" using assms by (simp add: on_hangup_def)
  then have "moves c (Leaving a) m m'" using Serving by (auto simp: unregister_peer_def intro!: moves_set_phase split: prod.splits)
  then show ?thesis using moves_step conn_step.leave [OF refl] Serving by metis
next
  case (Controlling a tid sid tc)
  then have "end_controller e c a sid tc m = (m', out)" using assms by (simp add: on_hangup_def)
  then show ?thesis using moves_end_controller [OF _ refl] moves_ended by blast
qed (use assms moves_ended [OF moves_finish [OF refl]] in \<open>auto simp: on_hangup_def intro: conn_step.same\<close>)

lemma accept_connection_step: "conn_step e (MConnect addr) c m (phase_of m c) (phase_of (accept_connection e addr m) c)"
proof (cases "c = am_next m")
  case True
  then show ?thesis
    by (auto simp: accept_connection_def phase_of_def intro: conn_step.same conn_step.connect split: prod.splits option.splits)
next
  case False
  then have "phase_of (accept_connection e addr m) c = phase_of m c"
    by (auto simp: accept_connection_def phase_of_def split: prod.splits option.splits)
  then show ?thesis by (simp add: conn_step.same)
qed

lemma manager_step_conn:
  "conn_step e ev c m (phase_of m c) (phase_of (fst (manager_step (e, ev) m)) c)"
proof (cases ev)
  case (MConnect addr)
  then show ?thesis using accept_connection_step by simp
next
  case (MMessage c' msg)
  obtain m' out where "on_message e c' msg m = (m', out)" by force
  then show ?thesis using on_message_step MMessage by simp
next
  case (MContinue c')
  obtain m' out where "on_continue e c' m = (m', out)" by force
  then show ?thesis using on_continue_step MContinue by simp
next
  case (MHangup c')
  obtain m' out where "on_hangup e c' m = (m', out)" by force
  then show ?thesis using on_hangup_step MHangup by simp
qed (auto intro!: moves_same simp: on_relay_def on_tcp_def UpdateAccessPolicy_def DisconnectDevice_def ReleaseDevicePort_def
      manager_Close_def conn_step.same split: option.splits prod.splits)

section \<open>History\<close>

text \<open>The identity of a connection that was let in.\<close>

fun phase_auth :: "phase \<Rightarrow> auth option" where
  "phase_auth (AwaitInit a) = Some a"
| "phase_auth (Allocated a msg port) = Some a"
| "phase_auth (Persisted a msg port) = Some a"
| "phase_auth (Bound a msg) = Some a"
| "phase_auth (Listed a msg) = Some a"
| "phase_auth (Serving a) = Some a"
| "phase_auth (Leaving a) = Some a"
| "phase_auth (Controlling a tid sid tc) = Some a"
| "phase_auth _ = None"

definition wf_auth :: "auth \<Rightarrow> bool" where
  "wf_auth a \<longleftrightarrow> validDeviceID (au_DeviceID a) \<and> au_SecretHash a = hashSecret (au_Secret a)"

fun wf_phase :: "phase \<Rightarrow> bool" where
  "wf_phase (AwaitRetry a) = (wf_auth a \<and> au_New a)"
| "wf_phase p = (case phase_auth p of Some a \<Rightarrow> wf_auth a | None \<Rightarrow> True)"

definition phases_wf :: "AgentManager \<Rightarrow> bool" where
  "phases_wf m \<longleftrightarrow> (\<forall>c. wf_phase (phase_of m c))"

text \<open>The event proves that connection \<open>c\<close> may act as \<open>a\<close>: by the stored secret or by an invitation.\<close>

definition proves :: "env \<Rightarrow> manager_event \<Rightarrow> nat \<Rightarrow> AgentManager \<Rightarrow> auth \<Rightarrow> bool" where
  "proves e ev c m a \<longleftrightarrow> (\<exists>msg db. ev = MMessage c msg \<and> am_db m = Some db \<and> m_Type msg = MsgTypeAuth
     \<and> m_DeviceID msg = au_DeviceID a \<and> m_Secret msg = au_Secret a
     \<and> (if au_New a then invited db (e_now e) a else stored_secret db a))"

lemma conn_step_wf: "conn_step e ev c m p q \<Longrightarrow> wf_phase p \<Longrightarrow> wf_phase q"
  by (induction rule: conn_step.induct) (auto simp: presents_def wf_auth_def)

lemma conn_step_auth:
  "conn_step e ev c m p q \<Longrightarrow> wf_phase p \<Longrightarrow> phase_auth q = Some a \<Longrightarrow> phase_auth p \<noteq> Some a \<Longrightarrow> proves e ev c m a"
  by (induction rule: conn_step.induct) (auto simp: presents_def proves_def)

lemma conn_step_control:
  "conn_step e ev c m p (Controlling a tid sid tc) \<Longrightarrow> p \<noteq> Controlling a tid sid tc \<Longrightarrow>
     p = AwaitInit a \<and> controllerCanAccess m (au_DeviceID a) tid \<and> (\<exists>s. online_session tid m = Some (tc, s)) \<and> \<not> public_id sid"
  by (erule conn_stepE) auto

lemma manager_step_conn':
  "conn_step (fst ev) (snd ev) c m (phase_of m c) (phase_of (fst (manager_step ev m)) c)"
  by (cases ev) (simp only: fst_conv snd_conv manager_step_conn)

lemma manager_step_wf:
  assumes "phases_wf m"
  shows "phases_wf (fst (manager_step ev m))"
  unfolding phases_wf_def
proof
  fix c
  show "wf_phase (phase_of (fst (manager_step ev m)) c)"
    using assms by (intro conn_step_wf [OF manager_step_conn']) (simp add: phases_wf_def)
qed

interpretation protocol: event_system manager_step manager_run "\<lambda>_. True" phases_wf
  by unfold_locales (auto simp: manager_step_wf case_prod_unfold)

lemma NewAgentManager_phase [simp]: "phase_of (NewAgentManager now cfg every acc dbo pm acl) c = Ended"
  by (simp add: phase_of_def NewAgentManager_def)

lemma NewAgentManager_wf: "phases_wf (NewAgentManager now cfg every acc dbo pm acl)"
  by (simp add: phases_wf_def)

text \<open>How the session of a controller came about.\<close>

lemma granted_history:
  assumes "phase_of (fst (manager_run evs (NewAgentManager now cfg every acc dbo pm acl))) c = Controlling a tid sid tc"
  shows "\<exists>es1 ev es2 s. evs = es1 @ ev # es2
    \<and> (let m1 = fst (manager_run es1 (NewAgentManager now cfg every acc dbo pm acl)) in
         phase_of m1 c = AwaitInit a \<and> controllerCanAccess m1 (au_DeviceID a) tid
         \<and> online_session tid m1 = Some (tc, s)) \<and> \<not> public_id sid"
proof -
  let ?m = "NewAgentManager now cfg every acc dbo pm acl" and ?p = "Controlling a tid sid tc"
  obtain es1 ev es2 where es: "evs = es1 @ ev # es2"
    "phase_of (fst (manager_run es1 ?m)) c \<noteq> ?p"
    "phase_of (fst (manager_step ev (fst (manager_run es1 ?m)))) c = ?p"
    by (rule protocol.origin [where P = "\<lambda>m. phase_of m c = ?p", OF assms]) simp_all
  have "conn_step (fst ev) (snd ev) c (fst (manager_run es1 ?m)) (phase_of (fst (manager_run es1 ?m)) c) ?p"
    using manager_step_conn' [of ev c] es(3) by metis
  from conn_step_control [OF this es(2)] obtain s where "phase_of (fst (manager_run es1 ?m)) c = AwaitInit a"
    "controllerCanAccess (fst (manager_run es1 ?m)) (au_DeviceID a) tid"
    "online_session tid (fst (manager_run es1 ?m)) = Some (tc, s)" "\<not> public_id sid" by blast
  then show ?thesis
    using es(1) by (intro exI [of _ es1] exI [of _ ev] exI [of _ es2] exI [of _ s]) (simp add: Let_def)
qed

section \<open>Properties\<close>

text \<open>
  The protocol of a connection. Every step of the manager, whatever its event and whichever goroutine it
  belongs to, takes every connection along the relation of the protocol: let in only by an \<open>AUTH\<close> message
  with the stored secret of an enabled device or with a usable invitation, in control of a target only if the
  policy allows it and the target is online, bound to a public port only if no open session has it.
\<close>

theorem manager_protocol:
  "conn_step e ev c m (phase_of m c) (phase_of (fst (manager_step (e, ev) m)) c)"
  by (rule manager_step_conn)

text \<open>
  Nobody gets in unproven. If after a run from the start of the relay a connection acts as some device,
  then the run holds an \<open>AUTH\<close> message on that connection with that device and a secret of that hash, and
  at that moment the database had this secret for the device, which was enabled, or an invitation for the
  device that had neither expired nor been consumed, and the secret had at least 32 bytes.
\<close>

theorem authenticated_only:
  assumes "phase_auth (phase_of (fst (manager_run evs (NewAgentManager now cfg every acc dbo pm acl))) c) = Some a"
  shows "\<exists>es1 e ev es2. evs = es1 @ (e, ev) # es2
    \<and> proves e ev c (fst (manager_run es1 (NewAgentManager now cfg every acc dbo pm acl))) a
    \<and> au_SecretHash a = hashSecret (au_Secret a) \<and> validDeviceID (au_DeviceID a)"
proof -
  let ?m = "NewAgentManager now cfg every acc dbo pm acl"
  have "wf_phase (phase_of (fst (manager_run evs ?m)) c)"
    using protocol.run_good [OF NewAgentManager_wf list_all_True] by (simp add: phases_wf_def)
  then have wf: "wf_auth a" using assms by (cases "phase_of (fst (manager_run evs ?m)) c") auto
  obtain es1 ev es2 where es: "evs = es1 @ ev # es2" "phases_wf (fst (manager_run es1 ?m))"
    "phase_auth (phase_of (fst (manager_run es1 ?m)) c) \<noteq> Some a"
    "phase_auth (phase_of (fst (manager_step ev (fst (manager_run es1 ?m)))) c) = Some a"
    by (rule protocol.good_origin [where P = "\<lambda>m. phase_auth (phase_of m c) = Some a", OF NewAgentManager_wf list_all_True assms])
      simp_all
  have "proves (fst ev) (snd ev) c (fst (manager_run es1 ?m)) a"
    using es(2-4) by (intro conn_step_auth [OF manager_step_conn']) (simp_all add: phases_wf_def)
  then show ?thesis using es(1) wf by (metis prod.collapse wf_auth_def)
qed

end
