(* ===== verification/Agent_Online.thy ===== *)
theory Agent_Online
  imports Agent_Protocol
begin

text \<open>
  The agents that are online: the invariant that ties together the phases of the connections, the sessions,
  the table by device and the routes to controllers, that every step of the manager keeps it, and what
  follows for the ports, the sessions and the datagrams.
\<close>

section \<open>The invariant\<close>

text \<open>Phases before a session exists, and phases in which it does.\<close>

fun before_session :: "phase \<Rightarrow> bool" where
  "before_session AwaitAuth = True"
| "before_session (AwaitRetry a) = True"
| "before_session (AwaitInit a) = True"
| "before_session (Allocated a msg port) = True"
| "before_session (Persisted a msg port) = True"
| "before_session _ = False"

fun session_device :: "phase \<Rightarrow> string option" where
  "session_device (Bound a msg) = Some (au_DeviceID a)"
| "session_device (Listed a msg) = Some (au_DeviceID a)"
| "session_device (Serving a) = Some (au_DeviceID a)"
| "session_device (Leaving a) = Some (au_DeviceID a)"
| "session_device _ = None"

fun is_bound :: "phase \<Rightarrow> bool" where
  "is_bound (Bound a msg) = True"
| "is_bound _ = False"

text \<open>The four parts: the sessions, the table, the open sessions, and the routes.\<close>

definition sessions_wf :: "(nat \<Rightarrow> phase) \<Rightarrow> (nat, AgentSession) fmap \<Rightarrow> nat \<Rightarrow> bool" where
  "sessions_wf ph ss n \<longleftrightarrow>
     (\<forall>c s. fmlookup ss c = Some s \<longrightarrow> as_conn s = c \<and> agent_session_ok s \<and> c < n \<and> \<not> before_session (ph c))
     \<and> (\<forall>c dev. session_device (ph c) = Some dev \<longrightarrow> (\<exists>s. fmlookup ss c = Some s \<and> as_DeviceID s = dev))
     \<and> (\<forall>c. n \<le> c \<longrightarrow> ph c = Ended)"

definition table_wf :: "(nat, AgentSession) fmap \<Rightarrow> (string, nat) fmap \<Rightarrow> bool" where
  "table_wf ss by \<longleftrightarrow> (\<forall>dev c. fmlookup by dev = Some c \<longrightarrow> (\<exists>s. fmlookup ss c = Some s \<and> as_DeviceID s = dev))"

definition open_wf :: "(nat \<Rightarrow> phase) \<Rightarrow> (nat, AgentSession) fmap \<Rightarrow> (string, nat) fmap \<Rightarrow> bool" where
  "open_wf ph ss by \<longleftrightarrow>
     (\<forall>c s. fmlookup ss c = Some s \<longrightarrow> as_closed s \<or> fmlookup by (as_DeviceID s) = Some c \<or> is_bound (ph c))
     \<and> (\<forall>c c' s s'. fmlookup ss c = Some s \<and> fmlookup ss c' = Some s' \<and> \<not> as_closed s \<and> \<not> as_closed s'
          \<and> as_PublicPort s = as_PublicPort s' \<longrightarrow> c = c')"

definition routes_wf :: "(nat \<Rightarrow> phase) \<Rightarrow> (nat, AgentSession) fmap \<Rightarrow> bool" where
  "routes_wf ph ss \<longleftrightarrow> (\<forall>c s sid tr. fmlookup ss c = Some s \<and> fmlookup (controllerRoutes s) sid = Some tr \<longrightarrow>
     (\<exists>a. ph tr = Controlling a (as_DeviceID s) sid c))"

definition online_ok :: "(nat \<Rightarrow> phase) \<Rightarrow> (nat, AgentSession) fmap \<Rightarrow> (string, nat) fmap \<Rightarrow> nat \<Rightarrow> bool" where
  "online_ok ph ss by n \<longleftrightarrow> sessions_wf ph ss n \<and> table_wf ss by \<and> open_wf ph ss by \<and> routes_wf ph ss"

definition manager_ok :: "AgentManager \<Rightarrow> bool" where
  "manager_ok m \<longleftrightarrow> phases_wf m \<and> online_ok (phase_of m) (am_sessions m) (agentsByDevice m) (am_next m)"

section \<open>Changes that keep it\<close>

lemma before_not_bound: "before_session p \<Longrightarrow> \<not> is_bound p"
  by (cases p) simp_all

lemma open_listed:
  "open_wf ph ss by \<Longrightarrow> fmlookup ss c = Some s \<Longrightarrow> \<not> as_closed s \<Longrightarrow> \<not> is_bound (ph c) \<Longrightarrow>
     fmlookup by (as_DeviceID s) = Some c"
  unfolding open_wf_def by blast

lemma open_port:
  "open_wf ph ss by \<Longrightarrow> fmlookup ss c = Some s \<Longrightarrow> fmlookup ss c' = Some s' \<Longrightarrow> \<not> as_closed s \<Longrightarrow> \<not> as_closed s' \<Longrightarrow>
     as_PublicPort s = as_PublicPort s' \<Longrightarrow> c = c'"
  unfolding open_wf_def by blast

lemma open_wfI:
  "(\<And>c s. fmlookup ss c = Some s \<Longrightarrow> \<not> as_closed s \<Longrightarrow> \<not> is_bound (ph c) \<Longrightarrow> fmlookup by (as_DeviceID s) = Some c) \<Longrightarrow>
   (\<And>c c' s s'. fmlookup ss c = Some s \<Longrightarrow> fmlookup ss c' = Some s' \<Longrightarrow> \<not> as_closed s \<Longrightarrow> \<not> as_closed s' \<Longrightarrow>
     as_PublicPort s = as_PublicPort s' \<Longrightarrow> c = c') \<Longrightarrow> open_wf ph ss by"
  unfolding open_wf_def by blast

lemma open_wf_cong:
  assumes "open_wf ph ss by" "\<And>c. is_bound (ph c) \<Longrightarrow> is_bound (ph' c)"
    "\<And>c s'. fmlookup ss' c = Some s' \<Longrightarrow> \<exists>s. fmlookup ss c = Some s \<and> as_DeviceID s = as_DeviceID s'
       \<and> as_PublicPort s = as_PublicPort s' \<and> (as_closed s \<longrightarrow> as_closed s')"
  shows "open_wf ph' ss' by"
proof (rule open_wfI)
  fix c s' assume h: "fmlookup ss' c = Some s'" "\<not> as_closed s'" "\<not> is_bound (ph' c)"
  then obtain s where "fmlookup ss c = Some s" "as_DeviceID s = as_DeviceID s'" "\<not> as_closed s" using assms(3) by blast
  then show "fmlookup by (as_DeviceID s') = Some c" using open_listed [OF assms(1)] assms(2) h(3) by metis
next
  fix c c' s s' assume h: "fmlookup ss' c = Some s" "fmlookup ss' c' = Some s'" "\<not> as_closed s" "\<not> as_closed s'"
    "as_PublicPort s = as_PublicPort s'"
  obtain t where t: "fmlookup ss c = Some t" "as_PublicPort t = as_PublicPort s" "\<not> as_closed t" using assms(3) h(1,3) by blast
  obtain t' where t': "fmlookup ss c' = Some t'" "as_PublicPort t' = as_PublicPort s'" "\<not> as_closed t'" using assms(3) h(2,4) by blast
  show "c = c'" using open_port [OF assms(1) t(1) t'(1) t(3) t'(3)] t(2) t'(2) h(5) by simp
qed

text \<open>A session that is only used or closed.\<close>

definition carries_on :: "AgentSession \<Rightarrow> AgentSession \<Rightarrow> bool" where
  "carries_on s s' \<longleftrightarrow> as_conn s' = as_conn s \<and> as_DeviceID s' = as_DeviceID s \<and> as_PublicPort s' = as_PublicPort s
     \<and> controllerRoutes s' = controllerRoutes s \<and> (as_closed s \<longrightarrow> as_closed s')
     \<and> (agent_session_ok s \<longrightarrow> agent_session_ok s')"

lemma online_ok_use:
  assumes "online_ok ph ss by n" "fmlookup ss c = Some s" "carries_on s s'"
  shows "online_ok ph (fmupd c s' ss) by n"
proof -
  have i: "as_conn s' = as_conn s" "as_DeviceID s' = as_DeviceID s" "as_PublicPort s' = as_PublicPort s"
    "controllerRoutes s' = controllerRoutes s" "\<not> as_closed s' \<Longrightarrow> \<not> as_closed s" "agent_session_ok s \<Longrightarrow> agent_session_ok s'"
    using assms(3) by (auto simp: carries_on_def)
  have "session_device (ph c) = Some dev \<Longrightarrow> as_DeviceID s = dev" for dev
    using assms(1,2) by (force simp: online_ok_def sessions_wf_def)
  then have "sessions_wf ph (fmupd c s' ss) n"
    using assms(1,2) i by (auto simp: online_ok_def sessions_wf_def split: if_splits)
  moreover have "table_wf (fmupd c s' ss) by"
    unfolding table_wf_def
  proof (intro allI impI)
    fix dev c' assume "fmlookup by dev = Some c'"
    then obtain s0 where "fmlookup ss c' = Some s0" "as_DeviceID s0 = dev"
      using assms(1) by (auto simp: online_ok_def table_wf_def)
    then show "\<exists>s. fmlookup (fmupd c s' ss) c' = Some s \<and> as_DeviceID s = dev"
      using assms(2) i(2) by (cases "c' = c") auto
  qed
  moreover have "open_wf ph (fmupd c s' ss) by"
    using assms(1,2) i by (rule_tac open_wf_cong [where ss = ss]) (auto simp: online_ok_def split: if_splits)
  moreover have "routes_wf ph (fmupd c s' ss)"
    using assms(1,2) i by (auto simp: online_ok_def routes_wf_def split: if_splits)
  ultimately show ?thesis by (simp add: online_ok_def)
qed

lemma online_ok_drop:
  assumes "online_ok ph ss by n" "\<And>c s. fmlookup by dev = Some c \<Longrightarrow> fmlookup ss c = Some s \<Longrightarrow> as_closed s"
  shows "online_ok ph ss (fmdrop dev by) n"
proof -
  have "open_wf ph ss (fmdrop dev by)"
  proof (rule open_wfI)
    fix c s assume h: "fmlookup ss c = Some s" "\<not> as_closed s" "\<not> is_bound (ph c)"
    then have "fmlookup by (as_DeviceID s) = Some c" using assms(1) open_listed by (auto simp: online_ok_def)
    moreover have "as_DeviceID s \<noteq> dev" using assms(2) h(1,2) calculation by blast
    ultimately show "fmlookup (fmdrop dev by) (as_DeviceID s) = Some c" by simp
  qed (use assms(1) open_port in \<open>auto simp: online_ok_def\<close>)
  then show ?thesis using assms(1) by (auto simp: online_ok_def table_wf_def)
qed

text \<open>A connection before its session: to another such phase, or to its end.\<close>

lemma online_ok_phase:
  assumes "online_ok ph ss by n" "before_session (ph c)" "before_session q \<or> q = Ended"
  shows "online_ok (ph(c := q)) ss by n"
proof -
  have c: "fmlookup ss c = None" "c < n"
    using assms(1,2) by (auto simp: online_ok_def sessions_wf_def) (metis before_session.simps not_le option.exhaust)+
  have q: "session_device q = None" using assms(3) by (cases q) auto
  have nc: "\<And>a tid sid tc. ph c \<noteq> Controlling a tid sid tc" using assms(2) by (cases "ph c") auto
  have "sessions_wf (ph(c := q)) ss n"
    using assms(1) c q by (auto simp: online_ok_def sessions_wf_def split: if_splits)
  moreover have "open_wf (ph(c := q)) ss by"
    using assms(1) before_not_bound [OF assms(2)]
    by (rule_tac open_wf_cong [where ss = ss and ph = ph]) (auto simp: online_ok_def)
  moreover have "routes_wf (ph(c := q)) ss"
    using assms(1) nc unfolding online_ok_def routes_wf_def by (metis fun_upd_other)
  ultimately show ?thesis using assms(1) by (simp add: online_ok_def)
qed

lemma online_ok_connect:
  assumes "online_ok ph ss by n"
  shows "online_ok (ph(n := AwaitAuth)) ss by (n + 1)"
proof -
  have n: "fmlookup ss n = None" "ph n = Ended"
    using assms by (auto simp: online_ok_def sessions_wf_def) (metis less_irrefl option.exhaust)
  have "sessions_wf (ph(n := AwaitAuth)) ss (n + 1)"
    using assms n by (auto simp: online_ok_def sessions_wf_def less_Suc_eq)
  moreover have "open_wf (ph(n := AwaitAuth)) ss by"
    using assms n by (rule_tac open_wf_cong [where ss = ss and ph = ph]) (auto simp: online_ok_def)
  moreover have "routes_wf (ph(n := AwaitAuth)) ss"
    using assms n(2) unfolding online_ok_def routes_wf_def by (metis fun_upd_other phase.distinct)
  ultimately show ?thesis using assms by (simp add: online_ok_def)
qed

text \<open>A session comes into being on a port that no open session has.\<close>

lemma online_ok_listen:
  assumes "online_ok ph ss by n" "before_session (ph c)" "as_conn s = c" "agent_session_ok s" "as_DeviceID s = au_DeviceID a"
    "controllerRoutes s = fmempty" "\<And>c' s'. fmlookup ss c' = Some s' \<Longrightarrow> \<not> as_closed s' \<Longrightarrow> as_PublicPort s' \<noteq> as_PublicPort s"
  shows "online_ok (ph(c := Bound a msg)) (fmupd c s ss) by n"
proof -
  have c: "fmlookup ss c = None" "c < n"
    using assms(1,2) by (auto simp: online_ok_def sessions_wf_def) (metis before_session.simps not_le option.exhaust)+
  have nc: "\<And>a tid sid tc. ph c \<noteq> Controlling a tid sid tc" using assms(2) by (cases "ph c") auto
  have "sessions_wf (ph(c := Bound a msg)) (fmupd c s ss) n"
    using assms(1,3-5) c by (auto simp: online_ok_def sessions_wf_def)
  moreover have "table_wf (fmupd c s ss) by"
    using assms(1) c(1) unfolding online_ok_def table_wf_def by (metis fmupd_lookup option.distinct(1))
  moreover have "open_wf (ph(c := Bound a msg)) (fmupd c s ss) by"
  proof (rule open_wfI)
    fix c' s' assume h: "fmlookup (fmupd c s ss) c' = Some s'" "\<not> as_closed s'" "\<not> is_bound ((ph(c := Bound a msg)) c')"
    then have "c' \<noteq> c" by auto
    then show "fmlookup by (as_DeviceID s') = Some c'" using assms(1) open_listed h by (auto simp: online_ok_def)
  next
    fix c1 c2 s1 s2 assume h: "fmlookup (fmupd c s ss) c1 = Some s1" "fmlookup (fmupd c s ss) c2 = Some s2"
      "\<not> as_closed s1" "\<not> as_closed s2" "as_PublicPort s1 = as_PublicPort s2"
    show "c1 = c2"
    proof (cases "c1 = c \<or> c2 = c")
      case True
      then show ?thesis using h assms(7) [of c1 s1] assms(7) [of c2 s2] by (auto split: if_splits)
    next
      case False
      then show ?thesis using h assms(1) open_port by (auto simp: online_ok_def)
    qed
  qed
  moreover have "routes_wf (ph(c := Bound a msg)) (fmupd c s ss)"
    using assms(1,6) nc unfolding online_ok_def routes_wf_def by (metis fmempty_lookup fmupd_lookup fun_upd_other option.distinct(1) option.inject)
  ultimately show ?thesis by (simp add: online_ok_def)
qed

text \<open>A session enters the table; the one it replaces is closed.\<close>

lemma online_ok_list:
  assumes "online_ok ph ss by n" "ph c = Bound a msg" "fmlookup ss c = Some s"
    "\<And>c0 s0. fmlookup by (as_DeviceID s) = Some c0 \<Longrightarrow> fmlookup ss c0 = Some s0 \<Longrightarrow> as_closed s0"
  shows "online_ok (ph(c := Listed a msg)) ss (fmupd (as_DeviceID s) c by) n"
proof -
  have "sessions_wf (ph(c := Listed a msg)) ss n"
    using assms(1,2) unfolding online_ok_def sessions_wf_def
    by (auto split: if_splits)
  moreover have "table_wf ss (fmupd (as_DeviceID s) c by)"
    using assms(1,3) by (auto simp: online_ok_def table_wf_def)
  moreover have "open_wf (ph(c := Listed a msg)) ss (fmupd (as_DeviceID s) c by)"
  proof (rule open_wfI)
    fix c' s' assume h: "fmlookup ss c' = Some s'" "\<not> as_closed s'" "\<not> is_bound ((ph(c := Listed a msg)) c')"
    show "fmlookup (fmupd (as_DeviceID s) c by) (as_DeviceID s') = Some c'"
    proof (cases "c' = c")
      case False
      then have l: "fmlookup by (as_DeviceID s') = Some c'" using assms(1) open_listed h by (auto simp: online_ok_def)
      moreover have "as_DeviceID s' \<noteq> as_DeviceID s" using assms(4) [of c' s'] h(1,2) l by auto
      ultimately show ?thesis by simp
    qed (use h(1) assms(3) in simp)
  qed (use assms(1) open_port in \<open>auto simp: online_ok_def\<close>)
  moreover have "routes_wf (ph(c := Listed a msg)) ss"
    using assms(1,2) unfolding online_ok_def routes_wf_def by (metis fun_upd_other phase.distinct)
  ultimately show ?thesis by (simp add: online_ok_def)
qed

text \<open>From one phase of a session to a later one, or to the end.\<close>

lemma online_ok_later:
  assumes "online_ok ph ss by n" "session_device (ph c) = Some dev" "\<not> is_bound (ph c)"
    "q = Ended \<or> session_device q = Some dev \<and> \<not> is_bound q"
  shows "online_ok (ph(c := q)) ss by n"
proof -
  have nc: "\<And>a tid sid tc. ph c \<noteq> Controlling a tid sid tc" using assms(2) by (cases "ph c") auto
  have q: "\<not> before_session q" "session_device q = None \<or> session_device q = Some dev" using assms(4) by (cases q; auto)+
  have "c < n" using assms(1,2) by (auto simp: online_ok_def sessions_wf_def) (metis not_le option.distinct(1) session_device.simps)
  then have "sessions_wf (ph(c := q)) ss n"
    using assms(1,2) q unfolding online_ok_def sessions_wf_def by (auto split: if_splits)
  moreover have "open_wf (ph(c := q)) ss by"
    using assms(1,3) by (rule_tac open_wf_cong [where ss = ss and ph = ph]) (auto simp: online_ok_def)
  moreover have "routes_wf (ph(c := q)) ss"
    using assms(1) nc unfolding online_ok_def routes_wf_def by (metis fun_upd_other)
  ultimately show ?thesis using assms(1) by (simp add: online_ok_def)
qed

text \<open>A controller gets its route and loses it.\<close>

lemma online_ok_control:
  assumes "online_ok ph ss by n" "before_session (ph c)" "fmlookup ss tc = Some s" "\<not> public_id sid"
  shows "online_ok (ph(c := Controlling a (as_DeviceID s) sid tc)) (fmupd tc (registerControllerRoute sid c s) ss) by n"
proof -
  let ?q = "Controlling a (as_DeviceID s) sid tc" and ?s = "registerControllerRoute sid c s"
  have c: "fmlookup ss c = None" "c < n" "c \<noteq> tc"
    using assms(1-3) by (auto simp: online_ok_def sessions_wf_def) (metis before_session.simps not_le option.exhaust)+
  have nc: "\<And>a tid sid tc. ph c \<noteq> Controlling a tid sid tc" using assms(2) by (cases "ph c") auto
  have s: "as_conn ?s = as_conn s" "as_DeviceID ?s = as_DeviceID s" "as_closed ?s = as_closed s" "as_PublicPort ?s = as_PublicPort s"
    "agent_session_ok s \<Longrightarrow> agent_session_ok ?s"
    using assms(4) by (auto simp: registerControllerRoute_def agent_session_ok_def private_routes_def)
  have "session_device (ph tc) = Some dev \<Longrightarrow> as_DeviceID s = dev" for dev
    using assms(1,3) by (force simp: online_ok_def sessions_wf_def)
  then have "sessions_wf (ph(c := ?q)) (fmupd tc ?s ss) n"
    using assms(1,3) c s by (auto simp: online_ok_def sessions_wf_def split: if_splits)
  moreover have "table_wf (fmupd tc ?s ss) by"
    using assms(1,3) s(2) unfolding online_ok_def table_wf_def by (metis fmupd_lookup option.inject)
  moreover have "open_wf (ph(c := ?q)) (fmupd tc ?s ss) by"
    using assms(1,3) s before_not_bound [OF assms(2)] by (rule_tac open_wf_cong [where ss = ss and ph = ph]) (auto simp: online_ok_def split: if_splits)
  moreover have "routes_wf (ph(c := ?q)) (fmupd tc ?s ss)"
    using assms(1,3) nc s(2) unfolding online_ok_def routes_wf_def
    by (auto simp: registerControllerRoute_def split: if_splits) metis+
  ultimately show ?thesis by (simp add: online_ok_def)
qed

lemma online_ok_uncontrol:
  assumes "online_ok ph ss by n" "ph c = Controlling a tid sid tc" "fmlookup ss tc = Some s"
  shows "online_ok (ph(c := Ended)) (fmupd tc (unregisterControllerRoute sid c s) ss) by n"
proof -
  let ?s = "unregisterControllerRoute sid c s"
  have not_bound: "\<not> is_bound (ph c)" using assms(2) by simp
  have s: "as_conn ?s = as_conn s" "as_DeviceID ?s = as_DeviceID s" "as_closed ?s = as_closed s" "as_PublicPort ?s = as_PublicPort s"
    "agent_session_ok s \<Longrightarrow> agent_session_ok ?s"
    by (auto simp: unregisterControllerRoute_def agent_session_ok_def private_routes_def)
  have r: "fmlookup (controllerRoutes ?s) i = Some tr \<Longrightarrow> fmlookup (controllerRoutes s) i = Some tr \<and> (i = sid \<longrightarrow> tr \<noteq> c)" for i tr
    by (auto simp: unregisterControllerRoute_def split: if_splits)
  have "session_device (ph tc) = Some dev \<Longrightarrow> as_DeviceID s = dev" for dev
    using assms(1,3) by (force simp: online_ok_def sessions_wf_def)
  then have "sessions_wf (ph(c := Ended)) (fmupd tc ?s ss) n"
    using assms(1,3) s by (auto simp: online_ok_def sessions_wf_def split: if_splits)
  moreover have "table_wf (fmupd tc ?s ss) by"
    using assms(1,3) s(2) unfolding online_ok_def table_wf_def by (metis fmupd_lookup option.inject)
  moreover have "open_wf (ph(c := Ended)) (fmupd tc ?s ss) by"
    using assms s not_bound by (rule_tac open_wf_cong [where ss = ss and ph = ph]) (auto simp: online_ok_def split: if_splits)
  moreover have "routes_wf (ph(c := Ended)) (fmupd tc ?s ss)"
    unfolding routes_wf_def
  proof (intro allI impI, elim conjE)
    fix c' s' i tr
    assume l: "fmlookup (fmupd tc ?s ss) c' = Some s'" "fmlookup (controllerRoutes s') i = Some tr"
    obtain s0 where s0: "fmlookup ss c' = Some s0" "fmlookup (controllerRoutes s0) i = Some tr" "as_DeviceID s' = as_DeviceID s0"
      "c' = tc \<longrightarrow> i = sid \<longrightarrow> tr \<noteq> c"
      using l assms(3) s(2) r by (cases "c' = tc") auto
    then obtain b where b: "ph tr = Controlling b (as_DeviceID s0) i c'"
      using assms(1) unfolding online_ok_def routes_wf_def by blast
    then have "tr \<noteq> c" using assms(2) s0(4) by auto
    then show "\<exists>a. (ph(c := Ended)) tr = Controlling a (as_DeviceID s') i c'" using b s0(3) by simp
  qed
  ultimately show ?thesis by (simp add: online_ok_def)
qed

lemma online_ok_uncontrol_gone:
  assumes "online_ok ph ss by n" "ph c = Controlling a tid sid tc" "fmlookup ss tc = None"
  shows "online_ok (ph(c := Ended)) ss by n"
proof -
  have not_bound: "\<not> is_bound (ph c)" using assms(2) by simp
  have "routes_wf (ph(c := Ended)) ss"
    using assms unfolding online_ok_def routes_wf_def by (metis fun_upd_other option.distinct(1) phase.inject(9))
  moreover have "sessions_wf (ph(c := Ended)) ss n"
    using assms(1) by (auto simp: online_ok_def sessions_wf_def split: if_splits)
  moreover have "open_wf (ph(c := Ended)) ss by"
    using assms(1) not_bound by (rule_tac open_wf_cong [where ss = ss and ph = ph]) (auto simp: online_ok_def)
  ultimately show ?thesis using assms(1) by (simp add: online_ok_def)
qed

text \<open>Every session in the table is closed and the table emptied.\<close>

lemma online_ok_clear:
  assumes "online_ok ph ss by n" "\<And>c s. fmlookup ss c = Some s \<Longrightarrow> carries_on s (f c s)"
    "\<And>c s. c |\<in>| fmran by \<Longrightarrow> as_closed (f c s)"
  shows "online_ok ph (fmmap_keys f ss) fmempty n"
proof -
  have f: "as_conn (f c s) = c" "as_DeviceID (f c s) = as_DeviceID s" "as_PublicPort (f c s) = as_PublicPort s"
    "controllerRoutes (f c s) = controllerRoutes s" "\<not> as_closed (f c s) \<Longrightarrow> \<not> as_closed s" "agent_session_ok (f c s)"
    if "fmlookup ss c = Some s" for c s
    using assms(1) assms(2) [OF that] that by (auto simp: carries_on_def online_ok_def sessions_wf_def)
  have "sessions_wf ph (fmmap_keys f ss) n"
    unfolding sessions_wf_def
  proof (intro conjI allI impI)
    fix c s assume "fmlookup (fmmap_keys f ss) c = Some s"
    then obtain t where "fmlookup ss c = Some t" "s = f c t" by auto
    then show "as_conn s = c" "agent_session_ok s" "c < n" "\<not> before_session (ph c)"
      using assms(1) f by (auto simp: online_ok_def sessions_wf_def)
  next
    fix c dev assume "session_device (ph c) = Some dev"
    then obtain t where "fmlookup ss c = Some t" "as_DeviceID t = dev"
      using assms(1) unfolding online_ok_def sessions_wf_def by blast
    then show "\<exists>s. fmlookup (fmmap_keys f ss) c = Some s \<and> as_DeviceID s = dev" using f(2) by simp
  next
    fix c assume "n \<le> c"
    then show "ph c = Ended" using assms(1) by (simp add: online_ok_def sessions_wf_def)
  qed
  moreover have "open_wf ph (fmmap_keys f ss) fmempty"
    unfolding open_wf_def
  proof (intro conjI allI impI)
    fix c s assume "fmlookup (fmmap_keys f ss) c = Some s"
    then obtain s0 where s0: "fmlookup ss c = Some s0" "s = f c s0" by auto
    show "as_closed s \<or> fmlookup fmempty (as_DeviceID s) = Some c \<or> is_bound (ph c)"
    proof (cases "as_closed s0 \<or> is_bound (ph c)")
      case True
      then show ?thesis using s0 f by blast
    next
      case False
      then have "fmlookup by (as_DeviceID s0) = Some c" using assms(1) s0(1) by (auto simp: online_ok_def open_wf_def)
      then show ?thesis using assms(3) s0(2) by (meson fmranI)
    qed
  next
    fix c c' s s'
    assume h: "fmlookup (fmmap_keys f ss) c = Some s \<and> fmlookup (fmmap_keys f ss) c' = Some s' \<and> \<not> as_closed s \<and> \<not> as_closed s'
      \<and> as_PublicPort s = as_PublicPort s'"
    then obtain t t' where "fmlookup ss c = Some t" "fmlookup ss c' = Some t'" "s = f c t" "s' = f c' t'" by auto
    then show "c = c'" using assms(1) f h unfolding online_ok_def open_wf_def by metis
  qed
  moreover have "routes_wf ph (fmmap_keys f ss)"
    unfolding routes_wf_def
  proof (intro allI impI, elim conjE)
    fix c s sid tr assume h: "fmlookup (fmmap_keys f ss) c = Some s" "fmlookup (controllerRoutes s) sid = Some tr"
    then obtain t where "fmlookup ss c = Some t" "s = f c t" by auto
    then show "\<exists>a. ph tr = Controlling a (as_DeviceID s) sid c"
      using assms(1) f h(2) unfolding online_ok_def routes_wf_def by metis
  qed
  ultimately show ?thesis by (simp add: online_ok_def table_wf_def)
qed

section \<open>Every step keeps it\<close>

lemma carries_on_refl [simp]: "carries_on s s"
  by (simp add: carries_on_def)

lemma carries_on_Close [simp]: "carries_on s (as_Close order s)"
  by (auto simp: carries_on_def as_Close_def agent_session_ok_def private_routes_def invs)

lemma closed_Close [simp]: "as_closed (as_Close order s)"
  by (simp add: as_Close_def)

lemma carries_on_relay:
  assumes "relay_step acl ev now s = (s', r)" "loop_event ev"
  shows "carries_on s s'"
proof -
  have "as_conn s' = as_conn s \<and> as_DeviceID s' = as_DeviceID s \<and> as_PublicPort s' = as_PublicPort s
      \<and> controllerRoutes s' = controllerRoutes s \<and> as_closed s' = as_closed s"
    using assms
    by (cases ev) (auto simp: loop_event_def receive_from_client_def receive_from_agent_def NextPacketID_def Let_def
        split: if_splits prod.splits option.splits sum.splits)
  moreover have "orderly_route ev" using assms(2) by (cases ev) (simp_all add: loop_event_def orderly_route_def)
  ultimately show ?thesis using relay_step_ok [OF _ _ assms(1)] by (simp add: carries_on_def)
qed

lemma carries_on_desktop: "carries_on s (fst (open_desktop opened written answer s))"
proof -
  have "fst (open_desktop opened written answer s) \<in> {s, s\<lparr>as_nextConnID := as_nextConnID s + 1\<rparr>}"
    by (auto simp: open_desktop_def NextConnID_def Let_def split: sum.splits)
  then show ?thesis by (auto simp: carries_on_def agent_session_ok_def private_routes_def)
qed

lemma carries_on_tcp:
  assumes "accept_tcp now acl addr remote opened written answer s g = (s', g', r)"
  shows "carries_on s s'"
proof -
  have "s' = s \<or> s' = fst (open_desktop opened written answer s)"
    using assms by (auto simp: accept_tcp_def handleTCPClient_def split: prod.splits option.splits if_splits)
  then show ?thesis using carries_on_desktop by (auto simp: carries_on_def)
qed

lemma carries_on_fields:
  "carries_on s (s\<lparr>as_LastSeen := t\<rparr>)" "carries_on s (s\<lparr>as_LastSeen := t, as_RDPOnline := b\<rparr>)"
  "carries_on s (s\<lparr>as_LastSeen := t, as_Sessions := Remove i (as_Sessions s)\<rparr>)"
  by (simp_all add: carries_on_def agent_session_ok_def private_routes_def invs)

lemma carries_on_control: "carries_on s (fst (control_message e c msg s m))"
  by (simp add: control_message_def Let_def carries_on_fields)

text \<open>The parts of the state that the auxiliary operations leave alone.\<close>

lemma finish_parts [simp]:
  "am_sessions (finish e c m) = am_sessions m" "agentsByDevice (finish e c m) = agentsByDevice m" "am_next (finish e c m) = am_next m"
  "am_db (finish e c m) = am_db m" "coordinator (finish e c m) = coordinator m" "portManager (finish e c m) = portManager m"
  by (simp_all add: finish_def set_phase_def split: option.splits)

lemma set_phase_parts [simp]:
  "am_sessions (set_phase c p m) = am_sessions m" "agentsByDevice (set_phase c p m) = agentsByDevice m"
  "am_next (set_phase c p m) = am_next m" "am_db (set_phase c p m) = am_db m"
  by (simp_all add: set_phase_def split: option.splits)

lemma update_session_parts [simp]:
  "agentsByDevice (update_session c f m) = agentsByDevice m" "am_next (update_session c f m) = am_next m"
  "am_db (update_session c f m) = am_db m"
  "am_sessions (update_session c f m) = (case fmlookup (am_sessions m) c of
     Some s \<Rightarrow> fmupd c (f s) (am_sessions m) | None \<Rightarrow> am_sessions m)"
  by (simp_all add: update_session_def split: option.splits)

lemma close_live_parts [simp]:
  "agentsByDevice (close_live e dev m) = agentsByDevice m" "am_next (close_live e dev m) = am_next m"
  "am_db (close_live e dev m) = am_db m"
  by (simp_all add: close_live_def split: option.splits)

definition online :: "AgentManager \<Rightarrow> bool" where
  "online m \<longleftrightarrow> online_ok (phase_of m) (am_sessions m) (agentsByDevice m) (am_next m)"

text \<open>A step that only changes the phase of a connection, or one session, or neither.\<close>

lemma moves_phase: "moves c p m m' \<Longrightarrow> phase_of m' = (phase_of m)(c := p)"
  by (auto simp: moves_def)

lemma online_moves:
  assumes "online m" "moves c q m m'" "before_session (phase_of m c)" "before_session q \<or> q = Ended"
    "am_sessions m' = am_sessions m" "agentsByDevice m' = agentsByDevice m" "am_next m' = am_next m"
  shows "online m'"
  using online_ok_phase [of "phase_of m" _ _ _ c q] assms by (simp add: online_def moves_phase)

lemma online_use:
  assumes "online m" "am_conns m' = am_conns m" "agentsByDevice m' = agentsByDevice m" "am_next m' = am_next m"
    "am_sessions m' = am_sessions m
     \<or> (\<exists>c s s'. fmlookup (am_sessions m) c = Some s \<and> carries_on s s' \<and> am_sessions m' = fmupd c s' (am_sessions m))"
  shows "online m'"
proof -
  have "phase_of m' = phase_of m" using phase_of_cong [OF assms(2)] by auto
  then show ?thesis using assms online_ok_use [of "phase_of m"] by (auto simp: online_def)
qed

lemma online_update_session:
  assumes "online m" "\<And>s. fmlookup (am_sessions m) c = Some s \<Longrightarrow> carries_on s (f s)"
  shows "online (update_session c f m)"
  using assms by (intro online_use [OF assms(1)]) (auto split: option.split)

lemma online_close_live: "online m \<Longrightarrow> online (close_live e dev m)"
  by (auto simp: close_live_def intro: online_update_session split: option.split)

lemma close_live_closed:
  "fmlookup (agentsByDevice m) dev = Some c \<Longrightarrow> fmlookup (am_sessions (close_live e dev m)) c = Some s \<Longrightarrow> as_closed s"
  by (auto simp: close_live_def split: option.splits)

lemma close_live_keeps:
  assumes "fmlookup (am_sessions m) c = Some s"
  obtains t where "fmlookup (am_sessions (close_live e dev m)) c = Some t" "as_DeviceID t = as_DeviceID s"
proof -
  have d: "as_DeviceID (as_Close order u) = as_DeviceID u" for order u by (simp add: as_Close_def)
  show thesis
  proof (cases "fmlookup (agentsByDevice m) dev")
    case None
    then show thesis using that assms by (simp add: close_live_def)
  next
    case (Some c')
    show thesis
    proof (cases "c' = c")
      case True
      then show thesis using that assms d Some by (simp add: close_live_def)
    next
      case False
      then have "fmlookup (am_sessions (close_live e dev m)) c = Some s"
        using assms Some by (simp add: close_live_def split: option.splits)
      then show thesis using that by blast
    qed
  qed
qed

lemma online_same:
  assumes "online m" "am_conns m' = am_conns m" "am_sessions m' = am_sessions m" "agentsByDevice m' = agentsByDevice m"
    "am_next m' = am_next m"
  shows "online m'"
  using assms by (intro online_use [OF assms(1)]) simp_all

text \<open>The phase of a connection before its session changes.\<close>

lemma online_set_phase:
  assumes "online m" "before_session (phase_of m c)" "before_session q"
  shows "online (set_phase c q m)"
proof -
  have "phase_of m c \<noteq> Ended" using assms(2) by auto
  then show ?thesis using online_moves [OF assms(1) moves_set_phase [OF refl] assms(2)] assms(3) by simp
qed

lemma online_finish:
  assumes "online m" "before_session (phase_of m c)"
  shows "online (finish e c m)"
  using online_moves [OF assms(1) moves_finish [OF refl] assms(2)] by simp

text \<open>The phase of a connection with a session.\<close>

lemma online_later:
  assumes "online m" "session_device (phase_of m c) = Some dev" "\<not> is_bound (phase_of m c)" "moves c q m m'"
    "q = Ended \<or> session_device q = Some dev \<and> \<not> is_bound q"
    "am_sessions m' = am_sessions m" "agentsByDevice m' = agentsByDevice m" "am_next m' = am_next m"
  shows "online m'"
  using online_ok_later [of "phase_of m" _ _ _ c dev q] assms by (simp add: online_def moves_phase)

text \<open>A device leaves the table when its session is closed.\<close>

lemma online_drop:
  assumes "online m" "\<And>c s. fmlookup (agentsByDevice m) dev = Some c \<Longrightarrow> fmlookup (am_sessions m) c = Some s \<Longrightarrow> as_closed s"
    "am_conns m' = am_conns m" "am_sessions m' = am_sessions m" "agentsByDevice m' = fmdrop dev (agentsByDevice m)"
    "am_next m' = am_next m"
  shows "online m'"
proof -
  have "phase_of m' = phase_of m" using phase_of_cong [OF assms(3)] by auto
  then show ?thesis using online_ok_drop [of "phase_of m" _ _ _ dev] assms by (simp add: online_def)
qed

section \<open>Messages\<close>

lemma online_auth_done:
  assumes "auth_done e c st m1 = (m', out)" "online m" "am_conns m1 = am_conns m" "am_sessions m1 = am_sessions m"
    "agentsByDevice m1 = agentsByDevice m" "am_next m1 = am_next m" "before_session (phase_of m c)"
  shows "online m'"
proof -
  have ne: "phase_of m c \<noteq> Ended" using assms(7) by auto
  have "m' = finish e c m1 \<or> (\<exists>p. before_session p \<and> m' = set_phase c p m1)"
  proof (cases st)
    case (NeedInvitation a)
    then have "before_session (AwaitRetry a) \<and> m' = set_phase c (AwaitRetry a) m1" using assms(1) by (simp add: auth_done_def)
    then show ?thesis by blast
  next
    case (Checked a)
    then have "m' = (if e_sent e then set_phase c (AwaitInit a) m1 else finish e c m1)" "before_session (AwaitInit a)"
      using assms(1) by (auto simp: auth_done_def)
    then show ?thesis by (cases "e_sent e") (metis (full_types))+
  qed (use assms(1) in \<open>simp add: auth_done_def refuse_def\<close>)
  then obtain q where "before_session q \<or> q = Ended" "moves c q m m'" "am_sessions m' = am_sessions m"
    "agentsByDevice m' = agentsByDevice m" "am_next m' = am_next m"
    using moves_finish [OF assms(3)] moves_set_phase [OF assms(3) ne] assms(4-6) by fastforce
  then show ?thesis using online_moves [OF assms(2) _ assms(7)] by blast
qed

lemma online_refuse:
  assumes "refuse e c x m1 = (m', out)" "online m" "am_conns m1 = am_conns m" "am_sessions m1 = am_sessions m"
    "agentsByDevice m1 = agentsByDevice m" "am_next m1 = am_next m" "before_session (phase_of m c)"
  shows "online m'"
proof -
  have m': "m' = finish e c m1" using assms(1) by (simp add: refuse_def)
  show ?thesis using online_moves [OF assms(2) moves_finish [OF assms(3)] assms(7)] assms(4-6) unfolding m' by simp
qed

lemma online_session_table:
  assumes "online m" "online_session tid m = Some (tc, s)"
  shows "fmlookup (am_sessions m) tc = Some s \<and> as_DeviceID s = tid"
proof -
  have "fmlookup (agentsByDevice m) tid = Some tc" "fmlookup (am_sessions m) tc = Some s"
    using assms(2) by (auto simp: online_session_def split: option.splits)
  then show ?thesis using assms(1) by (force simp: online_def online_ok_def table_wf_def)
qed

text \<open>The route of a controller, at its start and at its end.\<close>

lemma online_control:
  assumes "online m" "before_session (phase_of m c)" "fmlookup (am_sessions m) tc = Some s" "as_DeviceID s = tid" "\<not> public_id sid"
    "moves c (Controlling a tid sid tc) m m'" "am_sessions m' = fmupd tc (registerControllerRoute sid c s) (am_sessions m)"
    "agentsByDevice m' = agentsByDevice m" "am_next m' = am_next m"
  shows "online m'"
  using online_ok_control [of "phase_of m" _ _ _ c tc s sid a] assms by (simp add: online_def moves_phase)

lemma online_uncontrol:
  assumes "online m" "phase_of m c = Controlling a tid sid tc" "moves c Ended m m'"
    "am_sessions m' = (case fmlookup (am_sessions m) tc of
       Some s \<Rightarrow> fmupd tc (unregisterControllerRoute sid c s) (am_sessions m) | None \<Rightarrow> am_sessions m)"
    "agentsByDevice m' = agentsByDevice m" "am_next m' = am_next m"
  shows "online m'"
  using online_ok_uncontrol [of "phase_of m" _ _ _ c a tid sid tc] online_ok_uncontrol_gone [of "phase_of m" _ _ _ c a tid sid tc] assms
  by (cases "fmlookup (am_sessions m) tc") (simp_all add: online_def moves_phase)

lemma end_controller_parts:
  assumes "end_controller e c a sid tc m = (m', out)"
  shows "am_sessions m' = (case fmlookup (am_sessions m) tc of
       Some s \<Rightarrow> fmupd tc (unregisterControllerRoute sid c s) (am_sessions m) | None \<Rightarrow> am_sessions m)"
    "agentsByDevice m' = agentsByDevice m" "am_next m' = am_next m" "am_db m' = am_db m"
  using assms by (auto simp: end_controller_def split: prod.splits option.splits)

lemma online_controller_connect:
  assumes "online m" "before_session (phase_of m c)" "am_conns m1 = am_conns m" "am_sessions m1 = am_sessions m"
    "agentsByDevice m1 = agentsByDevice m" "am_next m1 = am_next m"
    "fmlookup (am_sessions m) tc = Some s" "as_DeviceID s = m_TargetDeviceID msg"
    "controller_connect e c a msg tc m1 = (m', out)"
  shows "online m'"
proof -
  have ne: "phase_of m c \<noteq> Ended" using assms(2) by auto
  obtain co o1 r where h: "HandleConnectRequest (Some (controller_peer c a msg)) msg (PublicHost (am_config m1)) (e_rnd e)
      (e_notify e) (coord m1) = (co, o1, r)" by (rule prod_cases3)
  let ?f = "finish e c (m1\<lparr>coordinator := co\<rparr>)"
  have fin: "online ?f"
    using assms(3-6) by (intro online_moves [OF assms(1) moves_finish [of _ m] assms(2)]) simp_all
  show ?thesis
  proof (cases "\<exists>resp. r = Inr resp \<and> m_Type resp \<noteq> MsgTypeError")
    case False
    then have "m' = ?f" using assms(9) h by (auto simp: controller_connect_def split: sum.splits if_splits)
    then show ?thesis using fin by simp
  next
    case True
    then obtain resp where resp: "r = Inr resp" "m_Type resp \<noteq> MsgTypeError" by blast
    let ?sid = "m_SessionID resp" and ?tid = "m_TargetDeviceID msg"
    let ?m = "update_session tc (registerControllerRoute ?sid c) (m1\<lparr>coordinator := co\<rparr>)"
    let ?c = "set_phase c (Controlling a ?tid ?sid tc) ?m"
    have conns: "am_conns ?m = am_conns m" using assms(3) by simp
    have mv: "moves c (Controlling a ?tid ?sid tc) m ?c" by (rule moves_set_phase [OF conns ne])
    have sid: "\<not> public_id ?sid"
      using connect_accepted [OF h [unfolded resp(1)] resp(2)] connect_response_simps(2) by metis
    have on: "online ?c"
      using assms(4-8) by (intro online_control [OF assms(1,2) _ _ sid mv]) simp_all
    show ?thesis
    proof (cases "e_sent e")
      case True
      then have "m' = ?c" using assms(9) h resp by (simp add: controller_connect_def Let_def)
      then show ?thesis using on by simp
    next
      case False
      then obtain o2 where end': "end_controller e c a ?sid tc ?m = (m', o2)"
        using assms(9) h resp by (auto simp: controller_connect_def Let_def split: prod.splits)
      have "moves c Ended ?c m'"
        using moves_end_controller [OF end' conns] mv by (simp add: moves_def)
      moreover have "phase_of ?c c = Controlling a ?tid ?sid tc" using mv by (simp add: moves_def)
      moreover have "am_sessions m' = (case fmlookup (am_sessions ?c) tc of
          Some s \<Rightarrow> fmupd tc (unregisterControllerRoute ?sid c s) (am_sessions ?c) | None \<Rightarrow> am_sessions ?c)"
        using end_controller_parts(1) [OF end'] by (simp only: set_phase_parts)
      ultimately show ?thesis
        using online_uncontrol [OF on] end_controller_parts(2,3) [OF end'] by (simp only: set_phase_parts)
    qed
  qed
qed

lemma online_on_message:
  assumes "online m" "on_message e c msg m = (m', out)"
  shows "online m'"
proof (cases "phase_of m c")
  case AwaitAuth
  let ?addr = "case fmlookup (am_conns m) c of Some k \<Rightarrow> c_addr k | None \<Rightarrow> None"
  obtain g st where g: "auth_begin e ?addr msg (am_db m) (enrollmentGuard m) = (g, st)" by force
  have "auth_done e c st (m\<lparr>enrollmentGuard := g\<rparr>) = (m', out)"
    using assms AwaitAuth g by (simp add: on_message_def)
  from online_auth_done [OF this assms(1)] show ?thesis using AwaitAuth by simp
next
  case (AwaitRetry a)
  then have "auth_done e c (auth_retry e a msg (am_db m)) m = (m', out)" using assms by (simp add: on_message_def)
  from online_auth_done [OF this assms(1)] show ?thesis using AwaitRetry by simp
next
  case (AwaitInit a)
  then have b: "before_session (phase_of m c)" by simp
  consider (controller) "controller_start e c a msg m = (m', out)"
    | (agent) "register_start e c a msg m = (m', out)" | (other) "m' = finish e c m"
    using assms AwaitInit by (auto simp: on_message_def split: if_splits)
  then show ?thesis
  proof cases
    case controller
    then consider (refused) r1 m1 where "refuse e c r1 m1 = (m', out)" "am_conns m1 = am_conns m" "am_sessions m1 = am_sessions m"
        "agentsByDevice m1 = agentsByDevice m" "am_next m1 = am_next m"
      | (go) dbo tc s where "online_session (m_TargetDeviceID msg) m = Some (tc, s)"
          "controller_connect e c a msg tc (m\<lparr>am_db := dbo\<rparr>) = (m', out)"
      by (auto simp: controller_start_def split: if_splits option.splits)
    then show ?thesis
    proof cases
      case refused
      then show ?thesis using online_refuse [OF _ assms(1) _ _ _ _ b] by blast
    next
      case go
      show ?thesis
        using online_session_table [OF assms(1) go(1)]
        by (intro online_controller_connect [OF assms(1) b _ _ _ _ _ _ go(2), where s = s]) simp_all
    qed
  next
    case agent
    obtain pm r where p: "GetOrAllocatePort (au_DeviceID a) (portManager m) = (pm, r)" by force
    from agent consider (refused) x m1 where "refuse e c x m1 = (m', out)" "am_conns m1 = am_conns m" "am_sessions m1 = am_sessions m"
        "agentsByDevice m1 = agentsByDevice m" "am_next m1 = am_next m"
      | (go) port where "m' = set_phase c (Allocated a msg port) (close_live e (au_DeviceID a) (m\<lparr>portManager := pm\<rparr>))"
      using p by (cases r) (auto simp: register_start_def split: if_splits)
    then show ?thesis
    proof cases
      case refused
      then show ?thesis using online_refuse [OF _ assms(1) _ _ _ _ b] by blast
    next
      case go
      let ?m = "close_live e (au_DeviceID a) (m\<lparr>portManager := pm\<rparr>)"
      have "online ?m" by (intro online_close_live online_same [OF assms(1)]) simp_all
      then show ?thesis using AwaitInit phase_of_cong [of ?m m c] unfolding go by (intro online_set_phase) simp_all
    qed
  next
    case other
    then show ?thesis using online_moves [OF assms(1) moves_finish [OF refl] b] by simp
  qed
next
  case (Serving a)
  then have "m' = m \<or> (\<exists>s. fmlookup (am_sessions m) c = Some s
      \<and> m' = update_session c (\<lambda>_. fst (control_message e c msg s m)) m)"
    using assms by (auto simp: on_message_def split: option.splits prod.splits)
  then show ?thesis
  proof (elim disjE exE conjE)
    fix s assume s: "fmlookup (am_sessions m) c = Some s"
      "m' = update_session c (\<lambda>_. fst (control_message e c msg s m)) m"
    show ?thesis unfolding s(2) by (rule online_update_session [OF assms(1)]) (use s(1) carries_on_control in auto)
  qed (use assms(1) in simp)
qed (use assms in \<open>auto simp: on_message_def\<close>)

section \<open>The other events\<close>

lemma new_session_ok: "wf_auth a \<Longrightarrow> agent_session_ok (new_session e c a host port cfg)"
  by (auto simp: new_session_def agent_session_ok_def private_routes_def keyed_def NewSessionManagerWithLimits_def
      wf_auth_def validDeviceID_def New_sessions_ok [unfolded NewSessionManagerWithLimits_def])

lemma online_register_listen:
  assumes "online m" "wf_phase (phase_of m c)" "phase_of m c = Persisted a msg port" "register_listen e c a msg port m = (m', out)"
  shows "online m'"
proof -
  have b: "before_session (phase_of m c)" using assms(3) by simp
  have wf: "wf_auth a" using assms(2,3) by simp
  let ?s = "new_session e c a (m_Hostname msg) port (am_config m)"
  from assms(4) consider (refused) x where "refuse e c x m = (m', out)"
    | (go) "\<not> port_in_use port m" "m' = set_phase c (Bound a msg) (m\<lparr>am_sessions := fmupd c ?s (am_sessions m)\<rparr>)"
    by (auto simp: register_listen_def split: if_splits)
  then show ?thesis
  proof cases
    case refused
    then show ?thesis using online_refuse [OF _ assms(1) _ _ _ _ b] by blast
  next
    case go
    have mv: "moves c (Bound a msg) m m'" unfolding go(2) using assms(3) by (intro moves_set_phase) simp_all
    have free: "fmlookup (am_sessions m) c' = Some s' \<Longrightarrow> \<not> as_closed s' \<Longrightarrow> as_PublicPort s' \<noteq> as_PublicPort ?s" for c' s'
      using go(1) by (auto simp: port_in_use_def new_session_def dest: fmranI)
    have "online_ok ((phase_of m)(c := Bound a msg)) (fmupd c ?s (am_sessions m)) (agentsByDevice m) (am_next m)"
      by (rule online_ok_listen [OF assms(1) [unfolded online_def] b _ new_session_ok [OF wf] _ _ free])
        (simp_all add: new_session_def)
    then show ?thesis by (simp add: online_def moves_phase [OF mv]) (simp add: go(2))
  qed
qed

lemma online_registerOnlineAgent:
  assumes "online m" "phase_of m c = Bound a msg" "fmlookup (am_sessions m) c = Some s"
  shows "online (set_phase c (Listed a msg) (registerOnlineAgent e c s m))"
proof -
  let ?m = "close_live e (as_DeviceID s) m" and ?m' = "set_phase c (Listed a msg) (registerOnlineAgent e c s m)"
  have on: "online ?m" using assms(1) by (rule online_close_live)
  have ph: "phase_of ?m = phase_of m" using phase_of_cong [of ?m m] by auto
  have mv: "moves c (Listed a msg) m ?m'" using assms(2) by (intro moves_set_phase) simp_all
  obtain t where t: "fmlookup (am_sessions ?m) c = Some t" "as_DeviceID t = as_DeviceID s"
    using close_live_keeps [OF assms(3)] by blast
  have "online_ok ((phase_of m)(c := Listed a msg)) (am_sessions ?m) (fmupd (as_DeviceID t) c (agentsByDevice m)) (am_next m)"
    by (rule online_ok_list [where ph = "phase_of m"])
      (use on [unfolded online_def ph] assms(2) t close_live_closed [of m "as_DeviceID s" _ e] in auto)
  then show ?thesis
    using t(2) unfolding online_def moves_phase [OF mv] by (simp add: registerOnlineAgent_def Let_def)
qed

lemma online_unregisterOnlineAgent:
  assumes "online m" "phase_of m c = Leaving a" "fmlookup (am_sessions m) c = Some s"
  shows "online (unregisterOnlineAgent e c s m)"
proof -
  let ?m = "update_session c (as_Close (e_order e)) m"
  let ?d = "update_session c (as_Close (e_order e)) (drop_online c s m)"
  have on: "online ?m" using assms(1) by (rule online_update_session) simp
  have cl: "fmlookup (am_sessions ?m) c = Some (as_Close (e_order e) s)" using assms(3) by simp
  have same: "am_sessions (drop_online c s m) = am_sessions m" by (simp add: drop_online_def)
  have d: "online ?d"
  proof (cases "fmlookup (agentsByDevice m) (as_DeviceID s) = Some c")
    case True
    show ?thesis
      by (rule online_drop [OF on, where dev = "as_DeviceID s"])
        (use True cl assms(3) in \<open>auto simp: drop_online_def\<close>)
  next
    case False
    then show ?thesis using on by (simp add: drop_online_def)
  qed
  have ph: "phase_of ?d c = Leaving a" using phase_of_cong [of ?d m c] assms(2) by simp
  show ?thesis
    by (rule online_later [OF d, where c = c and q = Ended])
      (use ph in \<open>auto simp: unregisterOnlineAgent_def Let_def intro!: moves_finish\<close>)
qed

lemma online_on_continue:
  assumes "online m" "on_continue e c m = (m', out)" "wf_phase (phase_of m c)"
  shows "online m'"
proof (cases "phase_of m c")
  case (Allocated a msg port)
  then have b: "before_session (phase_of m c)" by simp
  from assms(2) Allocated have "register_persist e c a msg port m = (m', out)" by (simp add: on_continue_def)
  then consider (refused) x where "refuse e c x m = (m', out)"
    | (go) db where "m' = set_phase c (Persisted a msg port) (m\<lparr>am_db := Some db\<rparr>)"
    by (auto simp: register_persist_def split: option.splits)
  then show ?thesis
  proof cases
    case refused
    then show ?thesis using online_refuse [OF _ assms(1) _ _ _ _ b] by blast
  next
    case (go db)
    have "online (m\<lparr>am_db := Some db\<rparr>)" by (rule online_same [OF assms(1)]) simp_all
    then show ?thesis
      unfolding go using b phase_of_cong [of "m\<lparr>am_db := Some db\<rparr>" m c] by (intro online_set_phase) simp_all
  qed
next
  case (Persisted a msg port)
  then show ?thesis using online_register_listen [OF assms(1,3)] assms(2) by (simp add: on_continue_def)
next
  case (Bound a msg)
  then show ?thesis
    using assms online_registerOnlineAgent by (auto simp: on_continue_def split: option.splits)
next
  case (Listed a msg)
  show ?thesis
  proof (cases "fmlookup (am_sessions m) c")
    case (Some s)
    then have r: "register_peer c a msg s m = (m', out)" using assms Listed by (simp add: on_continue_def)
    have "moves c (Serving a) m m'" using r Listed by (auto simp: register_peer_def intro!: moves_set_phase)
    then show ?thesis using r Listed by (intro online_later [OF assms(1)]) (auto simp: register_peer_def)
  qed (use assms Listed in \<open>simp add: on_continue_def\<close>)
next
  case (Leaving a)
  then show ?thesis
    using assms online_unregisterOnlineAgent by (auto simp: on_continue_def split: option.splits)
qed (use assms in \<open>auto simp: on_continue_def split: option.splits\<close>)

lemma online_on_hangup:
  assumes "online m" "on_hangup e c m = (m', out)"
  shows "online m'"
proof (cases "phase_of m c")
  case (Serving a)
  then have r: "unregister_peer e c a m = (m', out)" using assms by (simp add: on_hangup_def)
  have "moves c (Leaving a) m m'" using r Serving by (auto simp: unregister_peer_def intro!: moves_set_phase split: prod.splits)
  then show ?thesis using r Serving by (intro online_later [OF assms(1)]) (auto simp: unregister_peer_def split: prod.splits)
next
  case (Controlling a tid sid tc)
  then have r: "end_controller e c a sid tc m = (m', out)" using assms by (simp add: on_hangup_def)
  show ?thesis
    by (rule online_uncontrol [OF assms(1) Controlling moves_end_controller [OF r refl] end_controller_parts(1-3) [OF r]])
qed (use assms in \<open>auto simp: on_hangup_def intro: online_finish\<close>)

lemma online_accept_connection:
  assumes "online m"
  shows "online (accept_connection e addr m)"
proof -
  obtain g t where g: "Acquire (e_now e) addr (connectionGuard m) = (g, t)" by force
  show ?thesis
  proof (cases t)
    case None
    then show ?thesis using g by (simp add: accept_connection_def online_same [OF assms])
  next
    case (Some k)
    let ?m = "accept_connection e addr m"
    have "phase_of ?m = (phase_of m)(am_next m := AwaitAuth)"
      using g Some by (auto simp: accept_connection_def phase_of_def)
    then show ?thesis
      using online_ok_connect [OF assms [unfolded online_def]] g Some by (simp add: online_def) (simp add: accept_connection_def)
  qed
qed

lemma online_on_relay:
  assumes "online m"
  shows "online (fst (on_relay e c ev m))"
proof -
  have "fst (on_relay e c ev m) = m \<or> (\<exists>s. fmlookup (am_sessions m) c = Some s \<and> loop_event ev
      \<and> fst (on_relay e c ev m) = update_session c (\<lambda>_. fst (relay_step (am_acl m) ev (e_now e) s)) m)"
    by (auto simp: on_relay_def split: option.split prod.split)
  then show ?thesis
  proof (elim disjE exE conjE)
    fix s assume s: "fmlookup (am_sessions m) c = Some s" "loop_event ev"
      "fst (on_relay e c ev m) = update_session c (\<lambda>_. fst (relay_step (am_acl m) ev (e_now e) s)) m"
    obtain s' r where r: "relay_step (am_acl m) ev (e_now e) s = (s', r)" by force
    show ?thesis unfolding s(3)
      by (rule online_update_session [OF assms]) (use s(1) carries_on_relay [OF r s(2)] r in auto)
  qed (use assms in simp)
qed

lemma online_on_tcp:
  assumes "online m"
  shows "online (on_tcp e c addr remote opened written answer m)"
proof (cases "\<exists>s. fmlookup (am_sessions m) c = Some s \<and> \<not> as_closed s")
  case True
  then obtain s where s: "fmlookup (am_sessions m) c = Some s" "\<not> as_closed s" by blast
  obtain s' g r where r: "accept_tcp (e_now e) (am_acl m) addr remote opened written answer s (publicTCPGuard m) = (s', g, r)"
    by (rule prod_cases3)
  have on: "online (m\<lparr>publicTCPGuard := g\<rparr>)" by (rule online_same [OF assms]) simp_all
  have eq: "on_tcp e c addr remote opened written answer m = update_session c (\<lambda>_. s') (m\<lparr>publicTCPGuard := g\<rparr>)"
    using s r by (simp add: on_tcp_def)
  show ?thesis unfolding eq
    by (rule online_update_session [OF on]) (use s(1) carries_on_tcp [OF r] in auto)
qed (use assms in \<open>auto simp: on_tcp_def split: option.split\<close>)

lemma online_set_streams:
  assumes "online m"
  shows "online (set_streams c f m)"
proof -
  have "phase_of (set_streams c f m) = phase_of m" by auto
  moreover have "am_sessions (set_streams c f m) = am_sessions m" "agentsByDevice (set_streams c f m) = agentsByDevice m"
    "am_next (set_streams c f m) = am_next m" by (simp_all add: set_streams_def split: option.split)
  ultimately show ?thesis using assms by (simp add: online_def)
qed

lemma online_on_stream:
  assumes "online m"
  shows "online (on_stream c opened written answer m)"
proof -
  have "online (update_session tc (\<lambda>s. fst (open_desktop (opened \<and> \<not> as_closed s) written answer s)) m)" for tc
    by (rule online_update_session [OF assms]) (rule carries_on_desktop)
  then show ?thesis using assms online_set_streams by (simp add: on_stream_def split: phase.split)
qed

lemma online_DisconnectDevice:
  assumes "online m"
  shows "online (fst (DisconnectDevice e dev m))"
proof (cases "online_session dev m")
  case (Some cs)
  then obtain c s where c: "online_session dev m = Some (c, s)" by (cases cs) simp
  then have l: "fmlookup (agentsByDevice m) dev = Some c" "fmlookup (am_sessions m) c = Some s"
    by (auto simp: online_session_def split: option.splits)
  let ?m = "update_session c (as_Close (e_order e)) m"
  have on: "online ?m" by (rule online_update_session [OF assms]) simp
  show ?thesis
    by (rule online_drop [OF on, where dev = dev]) (use c l in \<open>auto simp: DisconnectDevice_def\<close>)
qed (use assms in \<open>simp add: DisconnectDevice_def\<close>)

lemma online_Close:
  assumes "online m"
  shows "online (manager_Close e m)"
proof -
  have "phase_of (manager_Close e m) = phase_of m" using phase_of_cong [of "manager_Close e m" m] by (auto simp: manager_Close_def)
  moreover have "online_ok (phase_of m) (fmmap_keys (\<lambda>c s. if listed c m then as_Close (e_order e) s else s) (am_sessions m))
      fmempty (am_next m)"
    by (rule online_ok_clear [OF assms [unfolded online_def]]) (simp_all add: listed_def)
  ultimately show ?thesis by (simp add: online_def) (simp add: manager_Close_def)
qed

lemma manager_step_online:
  assumes "online m" "phases_wf m"
  shows "online (fst (manager_step (e, ev) m))"
proof (cases ev)
  case (MMessage c msg)
  obtain m' out where "on_message e c msg m = (m', out)" by force
  then show ?thesis using MMessage online_on_message [OF assms(1)] by simp
next
  case (MContinue c)
  obtain m' out where "on_continue e c m = (m', out)" by force
  then show ?thesis using MContinue online_on_continue [OF assms(1)] assms(2) by (simp add: phases_wf_def)
next
  case (MHangup c)
  obtain m' out where "on_hangup e c m = (m', out)" by force
  then show ?thesis using MHangup online_on_hangup [OF assms(1)] by simp
next
  case (MRelay c r)
  then show ?thesis using online_on_relay [OF assms(1)] by (simp add: case_prod_unfold)
qed (use online_same [OF assms(1)] in \<open>auto simp: UpdateAccessPolicy_def ReleaseDevicePort_def assms(1) online_accept_connection
      online_on_tcp online_on_stream online_set_streams online_DisconnectDevice online_Close\<close>)

lemma manager_step_ok: "manager_ok m \<Longrightarrow> manager_ok (fst (manager_step ev m))"
  using manager_step_online [of m "fst ev" "snd ev"] manager_step_wf [of m ev] by (simp add: manager_ok_def online_def)

interpretation agents: event_system manager_step manager_run "\<lambda>_. True" manager_ok
  by unfold_locales (auto simp: manager_step_ok case_prod_unfold)

lemma NewAgentManager_ok: "manager_ok (NewAgentManager now cfg every acc dbo pm acl)"
  by (simp add: manager_ok_def NewAgentManager_wf online_ok_def sessions_wf_def table_wf_def open_wf_def routes_wf_def)
    (simp add: NewAgentManager_def)

lemma run_manager_ok: "manager_ok (fst (manager_run evs (NewAgentManager now cfg every acc dbo pm acl)))"
  by (rule agents.run_good [OF NewAgentManager_ok list_all_True])

section \<open>Properties\<close>

text \<open>
  C16: The public ports. After any run from the start of the relay, two open sessions never share a public
  port; an open session belongs to the connection that has its number, which is past its handshake; and it
  is the one that the table lists for its device, unless its goroutine has bound the port and not yet
  entered the table.
\<close>

theorem one_session_per_port:
  assumes "m = fst (manager_run evs (NewAgentManager now cfg every acc dbo pm acl))"
    "fmlookup (am_sessions m) c = Some s" "\<not> as_closed s"
  shows "as_conn s = c \<and> \<not> before_session (phase_of m c)
    \<and> (fmlookup (agentsByDevice m) (as_DeviceID s) = Some c \<or> (\<exists>a msg. phase_of m c = Bound a msg \<and> au_DeviceID a = as_DeviceID s))
    \<and> (\<forall>c' s'. fmlookup (am_sessions m) c' = Some s' \<and> \<not> as_closed s' \<and> as_PublicPort s' = as_PublicPort s \<longrightarrow> c' = c)"
proof -
  have ok: "online_ok (phase_of m) (am_sessions m) (agentsByDevice m) (am_next m)"
    using run_manager_ok assms(1) by (simp add: manager_ok_def)
  then have wf: "sessions_wf (phase_of m) (am_sessions m) (am_next m)" "open_wf (phase_of m) (am_sessions m) (agentsByDevice m)"
    by (simp_all add: online_ok_def)
  have "as_conn s = c" "\<not> before_session (phase_of m c)" using wf(1) assms(2) unfolding sessions_wf_def by blast+
  moreover have "fmlookup (agentsByDevice m) (as_DeviceID s) = Some c \<or> is_bound (phase_of m c)"
    using open_listed [OF wf(2) assms(2,3)] by blast
  moreover have "\<exists>a msg. phase_of m c = Bound a msg \<and> au_DeviceID a = as_DeviceID s" if b: "is_bound (phase_of m c)"
  proof -
    obtain a msg where p: "phase_of m c = Bound a msg" using b by (cases "phase_of m c") simp_all
    then have "session_device (phase_of m c) = Some (au_DeviceID a)" by simp
    then obtain t where "fmlookup (am_sessions m) c = Some t" "as_DeviceID t = au_DeviceID a"
      using wf(1) unfolding sessions_wf_def by blast
    then show ?thesis using p assms(2) by auto
  qed
  moreover have "\<forall>c' s'. fmlookup (am_sessions m) c' = Some s' \<and> \<not> as_closed s' \<and> as_PublicPort s' = as_PublicPort s \<longrightarrow> c' = c"
    using open_port [OF wf(2) _ assms(2) _ assms(3)] by blast
  ultimately show ?thesis by blast
qed

text \<open>The events by which data goes between a controller and an agent.\<close>

lemma to_controller_route:
  assumes "relay_step acl ev now s = (s', Some (ToController tr d))"
  shows "\<not> as_closed s \<and> (\<exists>hdr payload. DecodeUDP d = Inr (hdr, payload) \<and> fmlookup (controllerRoutes s) (SessionID hdr) = Some tr)"
  using assms
  by (cases ev) (auto simp: receive_from_agent_def controllerRoute_def split: if_splits sum.splits option.splits prod.splits)

lemma on_datagram_accepted:
  assumes "on_datagram c d m = Some (tc, r)"
  shows "\<exists>a tid sid hdr payload s. phase_of m c = Controlling a tid sid tc \<and> r = ToAgent [d] \<and> DecodeUDP d = Inr (hdr, payload)
    \<and> SessionID hdr = sid \<and> fmlookup (am_sessions m) tc = Some s \<and> \<not> as_closed s"
  using assms
  by (auto simp: on_datagram_def controller_datagram_def split: phase.splits option.splits if_splits sum.splits)

text \<open>
  Data passes only between a controller and the agent it was granted. After any run, if an event hands a
  datagram of agent \<open>tc\<close> to the connection \<open>c\<close> of a controller, or a datagram of \<open>c\<close> to the agent \<open>tc\<close>, then
  \<open>c\<close> is in its session with that agent, the datagram carries the number of this session, and earlier in the
  run, when the session was set up, \<open>c\<close> was authenticated as the device of the controller and the policy
  allowed that device the target, which was online as \<open>tc\<close>.
\<close>

theorem controller_data_granted:
  assumes "m = fst (manager_run evs (NewAgentManager now cfg every acc dbo pm acl))"
    "(\<exists>e ev. snd (snd (manager_step (e, MRelay tc ev) m)) = Some (tc, ToController c d))
     \<or> (\<exists>e r. snd (snd (manager_step (e, MDatagram c d) m)) = Some (tc, r))"
  shows "\<exists>a tid sid hdr payload. phase_of m c = Controlling a tid sid tc \<and> DecodeUDP d = Inr (hdr, payload)
    \<and> SessionID hdr = sid \<and> (\<exists>es1 es2 s. evs = es1 @ es2
      \<and> (let m1 = fst (manager_run es1 (NewAgentManager now cfg every acc dbo pm acl)) in
           phase_of m1 c = AwaitInit a \<and> controllerCanAccess m1 (au_DeviceID a) tid \<and> online_session tid m1 = Some (tc, s)))"
proof -
  have "routes_wf (phase_of m) (am_sessions m)"
    using run_manager_ok assms(1) by (simp add: manager_ok_def online_ok_def)
  then have route: "fmlookup (am_sessions m) tc = Some s \<Longrightarrow> fmlookup (controllerRoutes s) sid = Some c \<Longrightarrow>
      \<exists>a. phase_of m c = Controlling a (as_DeviceID s) sid tc" for s sid unfolding routes_wf_def by blast
  have "\<exists>a tid sid hdr payload. phase_of m c = Controlling a tid sid tc \<and> DecodeUDP d = Inr (hdr, payload) \<and> SessionID hdr = sid"
    using assms(2)
  proof (elim disjE exE)
    fix e ev assume "snd (snd (manager_step (e, MRelay tc ev) m)) = Some (tc, ToController c d)"
    then obtain s s' where "fmlookup (am_sessions m) tc = Some s" "relay_step (am_acl m) ev (e_now e) s = (s', Some (ToController c d))"
      by (auto simp: on_relay_def split: option.splits if_splits prod.splits)
    then show ?thesis using to_controller_route route by blast
  next
    fix e r assume "snd (snd (manager_step (e, MDatagram c d) m)) = Some (tc, r)"
    then show ?thesis using on_datagram_accepted by fastforce
  qed
  then obtain a tid sid hdr payload where ph: "phase_of m c = Controlling a tid sid tc"
    and hdr: "DecodeUDP d = Inr (hdr, payload)" "SessionID hdr = sid" by blast
  obtain es1 ev es2 s where "evs = es1 @ ev # es2"
    "let m1 = fst (manager_run es1 (NewAgentManager now cfg every acc dbo pm acl)) in
       phase_of m1 c = AwaitInit a \<and> controllerCanAccess m1 (au_DeviceID a) tid \<and> online_session tid m1 = Some (tc, s)"
    using granted_history [OF ph [unfolded assms(1)]] by (auto simp: Let_def)
  then show ?thesis using ph hdr by blast
qed

end
