(* ===== verification/Agent_Lifecycle.thy ===== *)
theory Agent_Lifecycle
  imports Agent_Online
begin

text \<open>
  The life of an agent on the relay from \<open>REGISTER\<close> to the end of its control stream: when the
  registration completes and what it leaves, what the end takes away, which steps write credentials,
  and how many connections one address can have.
\<close>

section \<open>Registration\<close>

text \<open>The goroutine of an agent from \<open>REGISTER\<close> to its control loop.\<close>

definition registration :: "env \<Rightarrow> env \<Rightarrow> env \<Rightarrow> env \<Rightarrow> env \<Rightarrow> nat \<Rightarrow> ControlMessage \<Rightarrow> (env \<times> manager_event) list" where
  "registration e1 e2 e3 e4 e5 c msg =
     [(e1, MMessage c msg), (e2, MContinue c), (e3, MContinue c), (e4, MContinue c), (e5, MContinue c)]"

lemma phase_present: "phase_of m c \<noteq> Ended \<Longrightarrow> \<exists>k. fmlookup (am_conns m) c = Some k"
  by (auto simp: phase_of_def split: option.splits)

lemma set_phase_present:
  "fmlookup (am_conns m) c = Some k \<Longrightarrow> set_phase c p m = m\<lparr>am_conns := fmupd c (k\<lparr>c_phase := p\<rparr>) (am_conns m)\<rparr>"
  by (simp add: set_phase_def)

lemma close_live_frame:
  "close_live e dev m = m\<lparr>am_sessions := am_sessions (close_live e dev m)\<rparr>"
  by (simp add: close_live_def update_session_def split: option.split)

lemma close_live_session:
  "fmlookup (am_sessions (close_live e dev m)) c = (if fmlookup (agentsByDevice m) dev = Some c
     then map_option (as_Close (e_order e)) (fmlookup (am_sessions m) c) else fmlookup (am_sessions m) c)"
  by (auto simp: close_live_def split: option.split)

lemma manager_run_Cons: "fst (manager_run (ev # evs) m) = fst (manager_run evs (fst (manager_step ev m)))"
  by (simp add: case_prod_unfold)

lemma step_register:
  assumes "phase_of m c = AwaitInit a" "m_Type msg = MsgTypeRegister" "m_DeviceID msg = [] \<or> m_DeviceID msg = au_DeviceID a"
    "GetOrAllocatePort (au_DeviceID a) (portManager m) = (pm, Inr port)"
  shows "fst (manager_step (e, MMessage c msg) m)
    = set_phase c (Allocated a msg port) (close_live e (au_DeviceID a) (m\<lparr>portManager := pm\<rparr>))"
  using assms by (auto simp: on_message_def register_start_def)

lemma step_persist:
  assumes "phase_of m c = Allocated a msg port" "am_db m = Some db" "persist_row e a msg port db = Some db'"
  shows "fst (manager_step (e, MContinue c) m) = set_phase c (Persisted a msg port) (m\<lparr>am_db := Some db'\<rparr>)"
  using assms by (simp add: on_continue_def register_persist_def)

lemma step_listen:
  assumes "phase_of m c = Persisted a msg port" "e_tcp e" "e_udp e" "\<not> port_in_use port m"
  shows "fst (manager_step (e, MContinue c) m) = set_phase c (Bound a msg) (m\<lparr>am_sessions :=
      fmupd c (new_session e c a (m_Hostname msg) port (am_config m)) (am_sessions m)\<rparr>)"
  using assms by (simp add: on_continue_def register_listen_def)

lemma step_list:
  assumes "phase_of m c = Bound a msg" "fmlookup (am_sessions m) c = Some s"
  shows "fst (manager_step (e, MContinue c) m) = set_phase c (Listed a msg) (registerOnlineAgent e c s m)"
  using assms by (simp add: on_continue_def)

lemma step_serve:
  assumes "phase_of m c = Listed a msg" "fmlookup (am_sessions m) c = Some s"
  shows "manager_step (e, MContinue c) m = (set_phase c (Serving a) (m\<lparr>coordinator := RegisterPeer (au_DeviceID a) (m_Hostname msg)
      (Some c) (m_Candidates msg) (as_PublicPort s) (coordinator m)\<rparr>), [(c, port_assign m s)], None)"
  using assms by (simp add: on_continue_def register_peer_def)

text \<open>Only the phase of the connection and the parts named change.\<close>

lemma set_phase_more [simp]:
  "coordinator (set_phase c p m) = coordinator m" "portManager (set_phase c p m) = portManager m"
  "agentsByPort (set_phase c p m) = agentsByPort m" "am_config (set_phase c p m) = am_config m"
  by (simp_all add: set_phase_def split: option.splits)

lemma close_live_more [simp]:
  "coordinator (close_live e dev m) = coordinator m" "portManager (close_live e dev m) = portManager m"
  "agentsByPort (close_live e dev m) = agentsByPort m" "am_config (close_live e dev m) = am_config m"
  by (simp_all add: close_live_def update_session_def split: option.splits)

lemma registerOnlineAgent_parts [simp]:
  "agentsByDevice (registerOnlineAgent e c s m) = fmupd (as_DeviceID s) c (agentsByDevice m)"
  "agentsByPort (registerOnlineAgent e c s m) = fmupd (as_PublicPort s) c (agentsByPort m)"
  "am_sessions (registerOnlineAgent e c s m) = am_sessions (close_live e (as_DeviceID s) m)"
  "am_db (registerOnlineAgent e c s m) = am_db m" "coordinator (registerOnlineAgent e c s m) = coordinator m"
  by (simp_all add: registerOnlineAgent_def Let_def)

lemma phase_set_same [simp]: "phase_of m c \<noteq> Ended \<Longrightarrow> phase_of (set_phase c p m) c = p"
  using phase_present [of m c] by (auto simp: phase_set_phase)

text \<open>What a registration leaves, for a connection of which no session is listed yet.\<close>

definition registered :: "nat \<Rightarrow> auth \<Rightarrow> ControlMessage \<Rightarrow> u16 \<Rightarrow> DB \<Rightarrow> AgentManager \<Rightarrow> AgentManager \<Rightarrow> bool" where
  "registered c a msg port db' m m' \<longleftrightarrow> phase_of m' c = Serving a \<and> am_db m' = Some db'
     \<and> (\<exists>s. online_session (au_DeviceID a) m' = Some (c, s) \<and> \<not> as_closed s \<and> as_DeviceID s = au_DeviceID a
          \<and> as_PublicPort s = port \<and> as_Hostname s = m_Hostname msg \<and> controllerRoutes s = fmempty)
     \<and> agent_by_port port m' = Some c
     \<and> (\<exists>p. fmlookup (peers (coordinator m')) (au_DeviceID a) = Some p \<and> p_Writer p = Some c \<and> p_PublicPort p = port)
     \<and> (\<forall>old. fmlookup (agentsByDevice m) (au_DeviceID a) = Some old \<longrightarrow>
          (\<forall>s. fmlookup (am_sessions m') old = Some s \<longrightarrow> old = c \<or> as_closed s))
     \<and> (\<forall>dev. dev \<noteq> au_DeviceID a \<longrightarrow> fmlookup (agentsByDevice m') dev = fmlookup (agentsByDevice m) dev)
     \<and> (\<forall>c'. c' \<noteq> c \<and> fmlookup (agentsByDevice m) (au_DeviceID a) \<noteq> Some c' \<longrightarrow>
          fmlookup (am_sessions m') c' = fmlookup (am_sessions m) c' \<and> phase_of m' c' = phase_of m c')"

lemma registration_run:
  assumes "phase_of m c = AwaitInit a" "m_Type msg = MsgTypeRegister" "m_DeviceID msg = [] \<or> m_DeviceID msg = au_DeviceID a"
    "GetOrAllocatePort (au_DeviceID a) (portManager m) = (pm, Inr port)"
    "am_db m = Some db" "persist_row e2 a msg port db = Some db'" "e_tcp e3" "e_udp e3"
    "fmlookup (agentsByDevice m) (au_DeviceID a) \<noteq> Some c"
    "\<forall>c' s'. fmlookup (am_sessions m) c' = Some s' \<and> \<not> as_closed s' \<and> as_PublicPort s' = port \<longrightarrow>
       fmlookup (agentsByDevice m) (au_DeviceID a) = Some c'"
  shows "registered c a msg port db' m (fst (manager_run (registration e1 e2 e3 e4 e5 c msg) m))"
proof -
  let ?dev = "au_DeviceID a"
  define m1 where "m1 = set_phase c (Allocated a msg port) (close_live e1 ?dev (m\<lparr>portManager := pm\<rparr>))"
  define m2 where "m2 = set_phase c (Persisted a msg port) (m1\<lparr>am_db := Some db'\<rparr>)"
  define s where "s = new_session e3 c a (m_Hostname msg) port (am_config m2)"
  define m3 where "m3 = set_phase c (Bound a msg) (m2\<lparr>am_sessions := fmupd c s (am_sessions m2)\<rparr>)"
  define m4 where "m4 = set_phase c (Listed a msg) (registerOnlineAgent e4 c s m3)"
  define m5 where "m5 = set_phase c (Serving a) (m4\<lparr>coordinator := RegisterPeer ?dev (m_Hostname msg) (Some c)
      (m_Candidates msg) port (coordinator m4)\<rparr>)"
  have s: "as_DeviceID s = ?dev" "as_PublicPort s = port" "\<not> as_closed s" "as_Hostname s = m_Hostname msg" "controllerRoutes s = fmempty"
    by (simp_all add: s_def new_session_def)
  have mv1: "moves c (Allocated a msg port) m m1" unfolding m1_def using assms(1) by (intro moves_set_phase) simp_all
  then have p1: "phase_of m1 c = Allocated a msg port" by (simp add: moves_def)
  have mv2: "moves c (Persisted a msg port) m1 m2" unfolding m2_def using p1 by (intro moves_set_phase) simp_all
  then have p2: "phase_of m2 c = Persisted a msg port" by (simp add: moves_def)
  have mv3: "moves c (Bound a msg) m2 m3" unfolding m3_def using p2 by (intro moves_set_phase) simp_all
  then have p3: "phase_of m3 c = Bound a msg" by (simp add: moves_def)
  have mv4: "moves c (Listed a msg) m3 m4" unfolding m4_def using p3 by (intro moves_set_phase) simp_all
  then have p4: "phase_of m4 c = Listed a msg" by (simp add: moves_def)
  have mv5: "moves c (Serving a) m4 m5" unfolding m5_def using p4 by (intro moves_set_phase) simp_all
  have by1: "agentsByDevice m1 = agentsByDevice m" "agentsByDevice m2 = agentsByDevice m" "agentsByDevice m3 = agentsByDevice m"
    by (simp_all add: m1_def m2_def m3_def)
  have ss1: "fmlookup (am_sessions m2) c' = (if fmlookup (agentsByDevice m) ?dev = Some c'
      then map_option (as_Close (e_order e1)) (fmlookup (am_sessions m) c') else fmlookup (am_sessions m) c')" for c'
    by (simp add: m1_def m2_def close_live_session)
  have ss3: "fmlookup (am_sessions m3) c' = (if c' = c then Some s else fmlookup (am_sessions m2) c')" for c'
    by (simp add: m3_def)
  have ss5: "fmlookup (am_sessions m5) c' = (if fmlookup (agentsByDevice m) ?dev = Some c'
      then map_option (as_Close (e_order e4)) (fmlookup (am_sessions m3) c') else fmlookup (am_sessions m3) c')" for c'
    by (simp add: m4_def m5_def close_live_session by1 s)
  have free: "\<not> port_in_use port m2"
  proof
    assume "port_in_use port m2"
    then obtain c' s' where h: "fmlookup (am_sessions m2) c' = Some s'" "\<not> as_closed s'" "as_PublicPort s' = port"
      by (auto simp: port_in_use_def elim!: fmranE)
    show False
    proof (cases "fmlookup (agentsByDevice m) ?dev = Some c'")
      case True
      then show False using h(1,2) ss1 by auto
    next
      case False
      then show False using h ss1 assms(10) by auto
    qed
  qed
  have st1: "fst (manager_step (e1, MMessage c msg) m) = m1"
    unfolding m1_def by (rule step_register [OF assms(1-4)])
  have st2: "fst (manager_step (e2, MContinue c) m1) = m2"
    unfolding m2_def by (rule step_persist [OF p1 _ assms(6)]) (simp add: m1_def assms(5))
  have st3: "fst (manager_step (e3, MContinue c) m2) = m3"
    unfolding m3_def s_def by (rule step_listen [OF p2 assms(7,8) free])
  have s3: "fmlookup (am_sessions m3) c = Some s" by (simp add: ss3)
  have st4: "fst (manager_step (e4, MContinue c) m3) = m4" unfolding m4_def by (rule step_list [OF p3 s3])
  have s4: "fmlookup (am_sessions m4) c = Some s" using ss5 [of c] assms(9) s3 by (simp add: m5_def)
  have st5: "fst (manager_step (e5, MContinue c) m4) = m5" unfolding m5_def using step_serve [OF p4 s4] s(2) by simp
  have run: "fst (manager_run (registration e1 e2 e3 e4 e5 c msg) m) = m5"
    by (simp only: registration_def manager_run_Cons st1 st2 st3 st4 st5 manager_run.simps(1) fst_conv)
  have "am_db m5 = Some db'" by (simp add: m5_def m4_def m3_def m2_def)
  moreover have "agentsByDevice m5 = fmupd ?dev c (agentsByDevice m)" "agentsByPort m5 = fmupd port c (agentsByPort m)"
    by (simp_all add: m5_def m4_def s by1) (simp add: m3_def m2_def m1_def)
  moreover have "fmlookup (am_sessions m5) c = Some s" using s4 by (simp add: m5_def)
  moreover have "fmlookup (peers (coordinator m5)) ?dev \<noteq> None \<and> (\<forall>p. fmlookup (peers (coordinator m5)) ?dev = Some p \<longrightarrow>
      p_Writer p = Some c \<and> p_PublicPort p = port)"
    by (simp add: m5_def RegisterPeer_def Let_def)
  moreover have "phase_of m5 c' = (if c' = c then Serving a else phase_of m c')" for c'
    using mv1 mv2 mv3 mv4 mv5 by (simp add: moves_def)
  moreover have "fmlookup (agentsByDevice m) ?dev = Some old \<Longrightarrow> fmlookup (am_sessions m5) old = Some t \<Longrightarrow> as_closed t" for old t
    using ss5 [of old] by auto
  ultimately show ?thesis
    unfolding run registered_def using s ss1 ss3 ss5 by (auto simp: online_session_def agent_by_port_def)
qed

lemma before_unlisted:
  assumes "manager_ok m" "before_session (phase_of m c)"
  shows "fmlookup (am_sessions m) c = None \<and> fmlookup (agentsByDevice m) dev \<noteq> Some c"
proof -
  have wf: "sessions_wf (phase_of m) (am_sessions m) (am_next m)" "table_wf (am_sessions m) (agentsByDevice m)"
    using assms(1) by (simp_all add: manager_ok_def online_ok_def)
  then have "fmlookup (am_sessions m) c = None" using assms(2) unfolding sessions_wf_def by (metis option.exhaust)
  then show ?thesis using wf(2) unfolding table_wf_def by force
qed

section \<open>Credentials\<close>

text \<open>The device of a connection whose handshake or registration is under way.\<close>

fun coming_in :: "phase \<Rightarrow> string option" where
  "coming_in (AwaitRetry a) = Some (au_DeviceID a)"
| "coming_in (AwaitInit a) = Some (au_DeviceID a)"
| "coming_in (Allocated a msg port) = Some (au_DeviceID a)"
| "coming_in (Persisted a msg port) = Some (au_DeviceID a)"
| "coming_in (Bound a msg) = Some (au_DeviceID a)"
| "coming_in _ = None"

text \<open>What a step of a goroutine does to the database.\<close>

definition db_move :: "env \<Rightarrow> AgentManager \<Rightarrow> DB \<Rightarrow> DB \<Rightarrow> bool" where
  "db_move e m db db' \<longleftrightarrow> db' = db
     \<or> (\<exists>dev host port. db' = UpdateAgentRegistration (e_now e) dev host port db)
     \<or> (\<exists>dev. db' = UpdateAgentLastSeen dev (e_now e) db)
     \<or> (\<exists>c a host port. phase_auth (phase_of m c) = Some a \<and> coming_in (phase_of m c) = Some (au_DeviceID a) \<and> au_New a
          \<and> CreateAgentWithEnrollment (e_now e) (new_row a host port) (au_Token a) (e_now e) db = Inr db')"

lemma db_move_same [simp]: "db_move e m db db"
  by (simp add: db_move_def)

lemma enroll_row_move:
  assumes "enroll_row e a host port db = Some db'" "phase_auth (phase_of m c) = Some a"
    "coming_in (phase_of m c) = Some (au_DeviceID a)" "au_New a"
  shows "db_move e m db db'"
  using assms by (auto simp: enroll_row_def db_move_def split: if_splits sum.splits)

lemma persist_row_move:
  assumes "persist_row e a msg port db = Some db'" "phase_auth (phase_of m c) = Some a"
    "coming_in (phase_of m c) = Some (au_DeviceID a)"
  shows "db_move e m db db'"
proof (cases "au_New a")
  case True
  then show ?thesis using assms enroll_row_move by (simp add: persist_row_def)
next
  case False
  then show ?thesis using assms(1) by (auto simp: persist_row_def db_move_def split: if_splits)
qed

lemma controller_connect_db: "am_db (fst (controller_connect e c a msg tc m)) = am_db m"
  by (auto simp: controller_connect_def end_controller_def Let_def split: prod.split sum.split)

lemma auth_done_db: "am_db (fst (auth_done e c st m)) = am_db m"
  by (simp add: auth_done_def refuse_def split: auth_step.split)

lemma on_message_db:
  assumes "am_db m = Some db" "am_db (fst (on_message e c msg m)) = Some db'"
  shows "db_move e m db db'"
proof (cases "phase_of m c")
  case AwaitAuth
  then have "am_db (fst (on_message e c msg m)) = am_db m" by (simp add: on_message_def auth_done_db split: prod.split)
  then show ?thesis using assms by simp
next
  case (AwaitRetry a)
  then have "am_db (fst (on_message e c msg m)) = am_db m" by (simp add: on_message_def auth_done_db)
  then show ?thesis using assms by simp
next
  case (AwaitInit a)
  have "am_db (fst (on_message e c msg m)) = am_db m
      \<or> (\<exists>dbo. enroll_controller e a (m_Hostname msg) (am_db m) = Some dbo \<and> am_db (fst (on_message e c msg m)) = dbo)"
    using AwaitInit by (auto simp: on_message_def controller_start_def register_start_def refuse_def controller_connect_db
        split: option.split prod.split sum.split)
  then show ?thesis
  proof (elim disjE exE conjE)
    fix dbo assume dbo: "enroll_controller e a (m_Hostname msg) (am_db m) = Some dbo" "am_db (fst (on_message e c msg m)) = dbo"
    show ?thesis
    proof (cases "au_New a")
      case True
      then have "enroll_row e a (m_Hostname msg) 0 db = Some db'" using dbo assms by (auto simp: enroll_controller_def)
      then show ?thesis using enroll_row_move [of e a "m_Hostname msg" 0 db db' m c] AwaitInit True by simp
    qed (use dbo assms in \<open>auto simp: enroll_controller_def\<close>)
  qed (use assms in simp)
next
  case (Serving a)
  then have "am_db (fst (on_message e c msg m)) = am_db m" by (simp add: on_message_def split: option.split prod.split)
  then show ?thesis using assms by simp
qed (use assms in \<open>simp_all add: on_message_def\<close>)

lemma drop_online_db: "am_db (drop_online c s m) = am_db m"
  by (simp add: drop_online_def)

lemma on_continue_db:
  assumes "am_db m = Some db" "am_db (fst (on_continue e c m)) = Some db'"
  shows "db_move e m db db'"
proof (cases "phase_of m c")
  case (Allocated a msg port)
  then have "db' = db \<or> persist_row e a msg port db = Some db'"
    using assms by (auto simp: on_continue_def register_persist_def refuse_def split: option.splits)
  then show ?thesis using persist_row_move [of e a msg port db db' m c] Allocated by auto
next
  case (Leaving a)
  then have "db' = db \<or> (\<exists>dev. db' = UpdateAgentLastSeen dev (e_now e) db)"
    using assms drop_online_db [of c _ m] by (auto simp: on_continue_def unregisterOnlineAgent_def Let_def split: option.splits)
  then show ?thesis by (auto simp: db_move_def)
qed (use assms in \<open>auto simp: on_continue_def register_listen_def refuse_def register_peer_def
      split: option.splits if_splits\<close>)

lemma manager_db:
  assumes "am_db m = Some db" "am_db (fst (manager_step (e, ev) m)) = Some db'" "\<forall>x. ev \<noteq> MConsole x"
  shows "db_move e m db db'"
proof (cases ev)
  case (MMessage c msg)
  then show ?thesis using on_message_db [OF assms(1)] assms(2) by (simp add: case_prod_unfold)
next
  case (MContinue c)
  then show ?thesis using on_continue_db [OF assms(1)] assms(2) by (simp add: case_prod_unfold)
next
  case (MHangup c)
  then have "am_db (fst (manager_step (e, ev) m)) = am_db m"
    by (simp add: on_hangup_def unregister_peer_def end_controller_def split: prod.split phase.split)
  then show ?thesis using assms by simp
next
  case (MConnect addr)
  then show ?thesis using assms by (simp add: accept_connection_def split: prod.splits option.splits)
next
  case (MRelay c r)
  then have "am_db (fst (manager_step (e, ev) m)) = am_db m"
    by (auto simp: on_relay_def split: option.split prod.split)
  then show ?thesis using assms by simp
next
  case (MTcp c addr remote opened written answer)
  then have "am_db (fst (manager_step (e, ev) m)) = am_db m"
    by (auto simp: on_tcp_def split: option.split prod.split)
  then show ?thesis using assms by simp
next
  case (MStream c opened written answer)
  then have "am_db (fst (manager_step (e, ev) m)) = am_db m"
    by (auto simp: on_stream_def set_streams_def split: option.split phase.split)
  then show ?thesis using assms by simp
next
  case (MStreamDone c)
  then have "am_db (fst (manager_step (e, ev) m)) = am_db m"
    by (auto simp: set_streams_def split: option.split)
  then show ?thesis using assms by simp
next
  case (MDisconnect dev)
  then have "am_db (fst (manager_step (e, ev) m)) = am_db m"
    by (auto simp: DisconnectDevice_def split: option.split)
  then show ?thesis using assms by simp
qed (use assms in \<open>simp_all add: UpdateAccessPolicy_def ReleaseDevicePort_def manager_Close_def\<close>)

lemma update_agent_hash:
  "(\<And>r. a_SecretHash (g r) = a_SecretHash r) \<Longrightarrow>
     map_option a_SecretHash (fmlookup (agents (update_agent dev' g db)) dev) = map_option a_SecretHash (fmlookup (agents db) dev)"
  by (auto simp: update_agent_def split: option.split)


section \<open>Properties\<close>

text \<open>
  A registration completes. In any run, when an agent that is past its handshake sends \<open>REGISTER\<close>, the
  port manager has a port for it, the row is written and the port can be bound, then its goroutine ends up
  in the control loop: the device is online on this port with a fresh session and no routes, found by device
  and by port, known to the signaling server, the session it replaces is closed, and every other device and
  connection is as before. Nothing else is asked of the database.
\<close>

theorem registration_completes:
  assumes "m = fst (manager_run evs (NewAgentManager now cfg every acc dbo pm0 acl))" "phase_of m c = AwaitInit a"
    "m_Type msg = MsgTypeRegister" "m_DeviceID msg = [] \<or> m_DeviceID msg = au_DeviceID a"
    "GetOrAllocatePort (au_DeviceID a) (portManager m) = (pm, Inr port)"
    "am_db m = Some db" "persist_row e2 a msg port db = Some db'" "e_tcp e3" "e_udp e3"
    "\<forall>c' s'. fmlookup (am_sessions m) c' = Some s' \<and> \<not> as_closed s' \<and> as_PublicPort s' = port \<longrightarrow>
       fmlookup (agentsByDevice m) (au_DeviceID a) = Some c'"
  shows "registered c a msg port db' m (fst (manager_run (registration e1 e2 e3 e4 e5 c msg) m))"
proof -
  have "fmlookup (agentsByDevice m) (au_DeviceID a) \<noteq> Some c"
    using before_unlisted [of m c] run_manager_ok assms(1,2) by simp
  then show ?thesis by (rule registration_run [OF assms(2-9) _ assms(10)])
qed

text \<open>
  A disabled device comes online. That a device is enabled is only looked at in the handshake: when the
  console disables the device of a connection that is past it and disconnects the device, the connection
  registers all the same, and the device is online while its row says that it is disabled.
\<close>

theorem disabled_device_registers:
  assumes "m = fst (manager_run evs (NewAgentManager now cfg every acc dbo pm0 acl))" "phase_of m c = AwaitInit a" "\<not> au_New a"
    "m_Type msg = MsgTypeRegister" "m_DeviceID msg = []"
    "GetOrAllocatePort (au_DeviceID a) (portManager m) = (pm, Inr port)"
    "am_db m = Some db" "fmlookup (agents db) (au_DeviceID a) = Some r" "\<not> e_fails e2 5" "e_tcp e3" "e_udp e3"
    "\<forall>c' s'. fmlookup (am_sessions m) c' = Some s' \<longrightarrow> as_PublicPort s' \<noteq> port"
  shows "let m' = fst (manager_run ([(d1, MConsole (DbEnabled (au_DeviceID a) False)), (d2, MDisconnect (au_DeviceID a))]
             @ registration e1 e2 e3 e4 e5 c msg) m)
    in phase_of m' c = Serving a \<and> (\<exists>s. online_session (au_DeviceID a) m' = Some (c, s) \<and> \<not> as_closed s)
      \<and> (\<exists>db' r'. am_db m' = Some db' \<and> fmlookup (agents db') (au_DeviceID a) = Some r' \<and> \<not> a_Enabled r')"
proof -
  let ?dev = "au_DeviceID a" and ?db = "SetAgentEnabled (au_DeviceID a) False db"
  define m1 where "m1 = m\<lparr>am_db := Some ?db\<rparr>"
  define m2 where "m2 = fst (DisconnectDevice d2 ?dev m1)"
  have run: "fst (manager_run ([(d1, MConsole (DbEnabled ?dev False)), (d2, MDisconnect ?dev)] @ registration e1 e2 e3 e4 e5 c msg) m)
      = fst (manager_run (registration e1 e2 e3 e4 e5 c msg) m2)"
    by (simp add: manager_run_Cons m1_def m2_def assms(7) del: manager_run.simps(2))
  have conns: "am_conns m2 = am_conns m" and db2: "am_db m2 = Some ?db" and pm2: "portManager m2 = portManager m"
    by (auto simp: m2_def m1_def DisconnectDevice_def update_session_def split: option.split)
  have ph2: "phase_of m2 c = AwaitInit a" using phase_of_cong [OF conns] assms(2) by simp
  have ok2: "manager_ok m2"
    using agents.step_good [of m "(d1, MConsole (DbEnabled ?dev False))"] agents.step_good [of m1 "(d2, MDisconnect ?dev)"]
      run_manager_ok assms(1,7) by (simp add: m1_def m2_def)
  have port2: "as_PublicPort s' \<noteq> port" if l: "fmlookup (am_sessions m2) c' = Some s'" for c' s'
  proof -
    have "\<exists>t. fmlookup (am_sessions m) c' = Some t \<and> as_PublicPort s' = as_PublicPort t"
      using l by (auto simp: m2_def m1_def DisconnectDevice_def as_Close_def split: option.splits if_splits)
    then show ?thesis using assms(12) by metis
  qed
  obtain db' where db': "persist_row e2 a msg port ?db = Some db'" "db' = UpdateAgentRegistration (e_now e2) ?dev (m_Hostname msg) port ?db"
    using assms(3,9) by (simp add: persist_row_def)
  have "\<exists>r'. fmlookup (agents db') ?dev = Some r' \<and> \<not> a_Enabled r'"
    using assms(8) by (simp add: db'(2) UpdateAgentRegistration_def SetAgentEnabled_def update_agent_def)
  moreover have "registered c a msg port db' m2 (fst (manager_run (registration e1 e2 e3 e4 e5 c msg) m2))"
    using before_unlisted [OF ok2, of c ?dev] ph2 port2
    by (intro registration_run [OF ph2 assms(4) _ _ db2 db'(1) assms(10,11)]) (auto simp: assms(5,6) pm2)
  ultimately show ?thesis unfolding run Let_def registered_def by blast
qed

text \<open>
  The end of an agent. When the control stream of an agent that is online breaks, its goroutine ends with
  the session closed, the device and its port out of the tables if it was this session that they listed, the
  peer of this connection gone from the signaling server, and the time noted in the database; other sessions and
  devices are untouched.
\<close>

theorem unregistration_completes:
  assumes "m = fst (manager_run evs (NewAgentManager now cfg every acc dbo pm acl))" "phase_of m c = Serving a"
    "m' = fst (manager_run [(e1, MHangup c), (e2, MContinue c)] m)"
  shows "phase_of m' c = Ended \<and> (\<exists>s. fmlookup (am_sessions m') c = Some s \<and> as_closed s)
    \<and> agentsByDevice m' = (if fmlookup (agentsByDevice m) (au_DeviceID a) = Some c then fmdrop (au_DeviceID a) (agentsByDevice m)
        else agentsByDevice m)
    \<and> (\<forall>p. fmlookup (peers (coordinator m')) (au_DeviceID a) = Some p \<longrightarrow> p_Writer p \<noteq> Some c)
    \<and> am_db m' = map_option (UpdateAgentLastSeen (au_DeviceID a) (e_now e2)) (am_db m)
    \<and> (\<forall>c'. c' \<noteq> c \<longrightarrow> fmlookup (am_sessions m') c' = fmlookup (am_sessions m) c' \<and> phase_of m' c' = phase_of m c')"
proof -
  have "sessions_wf (phase_of m) (am_sessions m) (am_next m)"
    using run_manager_ok assms(1) by (simp add: manager_ok_def online_ok_def)
  moreover have "session_device (phase_of m c) = Some (au_DeviceID a)" using assms(2) by simp
  ultimately obtain s where s: "fmlookup (am_sessions m) c = Some s" "as_DeviceID s = au_DeviceID a"
    unfolding sessions_wf_def by blast
  obtain co out where u: "UnregisterPeer (au_DeviceID a) (Some c) (e_ids e1) (coordinator m) = (co, out)" by force
  define m1 where "m1 = set_phase c (Leaving a) (m\<lparr>coordinator := co\<rparr>)"
  have mv1: "moves c (Leaving a) m m1" unfolding m1_def using assms(2) by (intro moves_set_phase) simp_all
  then have p1: "phase_of m1 c = Leaving a" by (simp add: moves_def)
  have "fst (manager_step (e1, MHangup c) m) = m1"
    using assms(2) u by (simp add: on_hangup_def unregister_peer_def m1_def)
  moreover have "fst (manager_step (e2, MContinue c) m1) = unregisterOnlineAgent e2 c s m1"
    using p1 s(1) by (simp add: on_continue_def m1_def)
  ultimately have m': "m' = unregisterOnlineAgent e2 c s m1"
    by (simp only: assms(3) manager_run_Cons manager_run.simps(1) fst_conv)
  have mv2: "moves c Ended m1 m'" unfolding m' by (auto simp: unregisterOnlineAgent_def Let_def intro!: moves_finish)
  have "am_sessions (drop_online c s m1) = am_sessions m" "am_db (drop_online c s m1) = am_db m"
    "coordinator (drop_online c s m1) = co" by (simp_all add: drop_online_def m1_def)
  then have "am_sessions m' = fmupd c (as_Close (e_order e2) s) (am_sessions m)"
    "am_db m' = map_option (UpdateAgentLastSeen (au_DeviceID a) (e_now e2)) (am_db m)" "coordinator m' = co"
    using s by (simp_all add: m' unregisterOnlineAgent_def Let_def update_session_def)
  moreover have "agentsByDevice m' = (if fmlookup (agentsByDevice m) (au_DeviceID a) = Some c
      then fmdrop (au_DeviceID a) (agentsByDevice m) else agentsByDevice m)"
    using s(2) by (simp add: m' unregisterOnlineAgent_def Let_def drop_online_def m1_def)
  moreover have "fmlookup (peers co) (au_DeviceID a) = Some p \<Longrightarrow> p_Writer p \<noteq> Some c" for p
    using u by (auto simp: UnregisterPeer_def Let_def split: option.splits if_splits)
  ultimately show ?thesis using mv1 mv2 by (auto simp: moves_def)
qed

text \<open>
  C9: Credentials are only written against an invitation. In any step of the manager that is not the console
  writing to the database, if the secret stored for a device changes, then a connection that was let in as
  this device through enrolment wrote its own secret, at that very moment its token was that of an invitation
  for the device which had neither expired nor been consumed, and it is consumed now.
\<close>

theorem credentials_by_invitation:
  assumes "am_db m = Some db" "am_db (fst (manager_step (e, ev) m)) = Some db'" "\<forall>x. ev \<noteq> MConsole x"
    "map_option a_SecretHash (fmlookup (agents db') dev) \<noteq> map_option a_SecretHash (fmlookup (agents db) dev)"
  shows "\<exists>c a i. phase_auth (phase_of m c) = Some a \<and> au_New a \<and> au_DeviceID a = dev
    \<and> fmlookup (enrollment_invitations db) dev = Some i \<and> usable (au_Token a) (e_now e) i
    \<and> fmlookup (enrollment_invitations db') dev = Some (i\<lparr>i_ConsumedAt := Some (e_now e)\<rparr>)
    \<and> (\<exists>r. fmlookup (agents db') dev = Some r \<and> a_SecretHash r = au_SecretHash a)"
proof -
  have "db_move e m db db'" by (rule manager_db [OF assms(1-3)])
  moreover have "db' \<noteq> db" using assms(4) by auto
  moreover have "db' \<noteq> UpdateAgentRegistration (e_now e) dev' host port db" for dev' host port
    using assms(4) update_agent_hash [of "\<lambda>r. r\<lparr>a_Hostname := host, a_PublicPort := port, a_LastSeen := e_now e\<rparr>" dev' db dev]
    by (auto simp: UpdateAgentRegistration_def)
  moreover have "db' \<noteq> UpdateAgentLastSeen dev' (e_now e) db" for dev'
    using assms(4) update_agent_hash [of "\<lambda>r. r\<lparr>a_LastSeen := e_now e\<rparr>" dev' db dev]
    by (auto simp: UpdateAgentLastSeen_def)
  ultimately obtain c a host port where a: "phase_auth (phase_of m c) = Some a" "au_New a"
    and en: "CreateAgentWithEnrollment (e_now e) (new_row a host port) (au_Token a) (e_now e) db = Inr db'"
    unfolding db_move_def by blast
  obtain i where i: "fmlookup (enrollment_invitations db) (au_DeviceID a) = Some i" "usable (au_Token a) (e_now e) i"
    "agents db' = fmupd (au_DeviceID a) (enrolled_row (fmlookup (agents db) (au_DeviceID a)) (new_row a host port) (e_now e)) (agents db)"
    "enrollment_invitations db' = fmupd (au_DeviceID a) (i\<lparr>i_ConsumedAt := Some (e_now e)\<rparr>) (enrollment_invitations db)"
    using en by (auto simp: CreateAgentWithEnrollment_def new_row_def split: option.splits if_splits)
  have "dev = au_DeviceID a" using assms(4) i(3) by (auto split: if_splits)
  moreover have "a_SecretHash (enrolled_row old (new_row a host port) t) = au_SecretHash a" for old t
    by (simp add: enrolled_row_def new_row_def split: option.split)
  ultimately show ?thesis using a i by auto
qed

end
