(* ===== verification/Agent_Slots.thy ===== *)
theory Agent_Slots
  imports Agent_Online Guard_Slots
begin

text \<open>
  The connections of one address: every connection that has not ended holds exactly one slot of the guard of
  its address, and every slot that is taken belongs to such a connection. So the guard's bound is a bound on
  the connections, and no path through the handlers loses a slot.
\<close>

section \<open>The slots of the connections\<close>

definition conn_slot :: "AgentManager \<Rightarrow> nat \<Rightarrow> (nat \<times> string) option" where
  "conn_slot m c = map_option (\<lambda>k. (c_ticket k, addressKey (c_addr k))) (fmlookup (am_conns m) c)"

text \<open>The slot that a connection holds.\<close>

definition slot :: "AgentManager \<Rightarrow> nat \<Rightarrow> (nat \<times> string) option" where
  "slot m c = (if phase_of m c = Ended then None else conn_slot m c)"

section \<open>What a handler does to its connection\<close>

text \<open>Nothing; or its end, with the slot given back; or another phase.\<close>

definition quiet :: "AgentManager \<Rightarrow> AgentManager \<Rightarrow> bool" where
  "quiet m m' \<longleftrightarrow> conn_slot m' = conn_slot m \<and> phase_of m' = phase_of m \<and> connectionGuard m' = connectionGuard m \<and> am_next m' = am_next m"

inductive outcome :: "nat \<Rightarrow> AgentManager \<Rightarrow> AgentManager \<Rightarrow> bool" for c m where
  quiet: "quiet m m' \<Longrightarrow> outcome c m m'"
| finish: "quiet m m1 \<Longrightarrow> phase_of m c \<noteq> Ended \<Longrightarrow> outcome c m (finish e c m1)"
| phase: "quiet m m1 \<Longrightarrow> phase_of m c \<noteq> Ended \<Longrightarrow> p \<noteq> Ended \<Longrightarrow> outcome c m (set_phase c p m1)"

lemma quietI:
  assumes "am_conns m' = am_conns m" "connectionGuard m' = connectionGuard m" "am_next m' = am_next m"
  shows "quiet m m'"
  using assms phase_of_cong [OF assms(1)] by (auto simp: quiet_def conn_slot_def fun_eq_iff)

lemma quiet_refl [simp]: "quiet m m"
  by (simp add: quiet_def)

lemma guard_update [simp]: "connectionGuard (update_session c f m) = connectionGuard m"
  by (simp add: update_session_def split: option.split)

lemma guard_close [simp]: "connectionGuard (close_live e dev m) = connectionGuard m"
  by (simp add: close_live_def split: option.split)

lemma guard_online [simp]: "connectionGuard (registerOnlineAgent e c s m) = connectionGuard m" "am_next (registerOnlineAgent e c s m) = am_next m"
  by (simp_all add: registerOnlineAgent_def Let_def)

lemma guard_drop [simp]: "connectionGuard (drop_online c s m) = connectionGuard m" "am_next (drop_online c s m) = am_next m"
  by (simp_all add: drop_online_def)

lemma quiet_streams: "quiet m (set_streams c f m)"
proof -
  have "conn_slot (set_streams c f m) = conn_slot m"
    by (auto simp: conn_slot_def set_streams_def fun_eq_iff split: option.split)
  moreover have "phase_of (set_streams c f m) = phase_of m" by auto
  ultimately show ?thesis by (simp add: quiet_def set_streams_def split: option.split)
qed

lemma quiet_trans: "quiet m m1 \<Longrightarrow> quiet m1 m2 \<Longrightarrow> quiet m m2"
  by (simp add: quiet_def)

lemma outcome_refuse: "quiet m m1 \<Longrightarrow> phase_of m c \<noteq> Ended \<Longrightarrow> outcome c m (fst (refuse e c msg m1))"
  by (simp add: refuse_def outcome.finish)

lemma outcome_auth_done:
  "quiet m m1 \<Longrightarrow> phase_of m c \<noteq> Ended \<Longrightarrow> outcome c m (fst (auth_done e c st m1))"
  by (auto simp: auth_done_def intro: outcome_refuse outcome.finish outcome.phase split: auth_step.split)

lemma outcome_end_controller:
  assumes "quiet m m1" "phase_of m c \<noteq> Ended"
  shows "outcome c m (fst (end_controller e c a sid tc m1))"
proof -
  have "quiet m (update_session tc f (m1\<lparr>coordinator := co\<rparr>))" for f co
    by (rule quiet_trans [OF assms(1)]) (rule quietI, simp_all)
  then show ?thesis using assms(2) by (auto simp: end_controller_def intro: outcome.finish split: prod.split)
qed

lemma outcome_controller_connect:
  assumes "quiet m m1" "phase_of m c \<noteq> Ended"
  shows "outcome c m (fst (controller_connect e c a msg tc m1))"
proof -
  have q: "quiet m (m1\<lparr>coordinator := co\<rparr>)" "quiet m (update_session tc f (m1\<lparr>coordinator := co\<rparr>))" for f co
    by (rule quiet_trans [OF assms(1)], rule quietI, simp_all)+
  have "outcome c m (fst (let m' = update_session tc f (m1\<lparr>coordinator := co\<rparr>) in
      if e_sent e then (set_phase c (Controlling a tid sid tc) m', out1)
      else (case end_controller e c a sid tc m' of (m', out') \<Rightarrow> (m', out2 @ out'))))" for f co tid sid out1 out2
    using outcome.phase [OF q(2) assms(2)] outcome_end_controller [OF q(2) assms(2)]
    by (simp add: Let_def case_prod_unfold)
  then show ?thesis
    unfolding controller_connect_def using outcome.finish [OF q(1) assms(2)]
    by (auto split: prod.split sum.split)
qed

lemma outcome_on_message: "outcome c m (fst (on_message e c msg m))"
proof (cases "phase_of m c = Ended")
  case True
  then show ?thesis by (simp add: on_message_def outcome.quiet)
next
  case ne: False
  show ?thesis
  proof (cases "phase_of m c")
    case AwaitAuth
    have "quiet m (m\<lparr>enrollmentGuard := g\<rparr>)" for g by (rule quietI) simp_all
    then show ?thesis using AwaitAuth ne by (auto simp: on_message_def intro: outcome_auth_done split: prod.split)
  next
    case (AwaitRetry a)
    then show ?thesis using ne by (simp add: on_message_def outcome_auth_done)
  next
    case (AwaitInit a)
    have q: "quiet m (m\<lparr>am_db := d\<rparr>)" "quiet m (m\<lparr>portManager := pm\<rparr>)" "quiet m (close_live e dev (m\<lparr>portManager := pm\<rparr>))" for d pm dev
      by (rule quietI, simp_all)+
    have "outcome c m (fst (controller_start e c a msg m))"
      using ne q by (auto simp: controller_start_def intro: outcome_refuse outcome_controller_connect split: option.split)
    moreover have "outcome c m (fst (register_start e c a msg m))"
      using ne q by (auto simp: register_start_def intro: outcome_refuse outcome.phase split: prod.split sum.split)
    ultimately show ?thesis using AwaitInit ne by (simp add: on_message_def outcome.finish)
  next
    case (Serving a)
    have "quiet m (update_session c f m)" for f by (rule quietI) simp_all
    then show ?thesis using Serving by (auto simp: on_message_def intro: outcome.quiet split: option.split prod.split)
  qed (simp_all add: on_message_def outcome.quiet)
qed

lemma outcome_on_continue: "outcome c m (fst (on_continue e c m))"
proof (cases "phase_of m c = Ended")
  case True
  then show ?thesis by (simp add: on_continue_def outcome.quiet)
next
  case ne: False
  have q: "quiet m (m\<lparr>am_db := d\<rparr>)" "quiet m (m\<lparr>am_sessions := ss\<rparr>)" "quiet m (registerOnlineAgent e c s m)"
    "quiet m (m\<lparr>coordinator := co\<rparr>)"
    "quiet m (let m = update_session c f (drop_online c s m) in m\<lparr>am_db := map_option h (am_db m)\<rparr>)" for d ss s co f h
    by (rule quietI, simp_all add: Let_def)+
  have "outcome c m (fst (register_persist e c a msg port m))" for a msg port
    using ne q(1) by (auto simp: register_persist_def intro: outcome_refuse outcome.phase split: option.split)
  moreover have "outcome c m (fst (register_listen e c a msg port m))" for a msg port
    using ne q(2) by (auto simp: register_listen_def intro: outcome_refuse outcome.phase)
  moreover have "outcome c m (fst (register_peer c a msg s m))" for a msg s
    using ne q(4) by (auto simp: register_peer_def intro: outcome.phase)
  moreover have "outcome c m (unregisterOnlineAgent e c s m)" for s
    using outcome.finish [OF q(5) ne] by (simp add: unregisterOnlineAgent_def Let_def)
  moreover have "outcome c m (set_phase c (Listed a msg) (registerOnlineAgent e c s m))" for a msg s
    using ne q(3) by (auto intro: outcome.phase)
  ultimately show ?thesis by (auto simp: on_continue_def outcome.quiet split: phase.split option.split)
qed

lemma outcome_on_hangup: "outcome c m (fst (on_hangup e c m))"
proof (cases "phase_of m c = Ended")
  case True
  then show ?thesis by (simp add: on_hangup_def outcome.quiet)
next
  case ne: False
  have q: "quiet m (m\<lparr>coordinator := co\<rparr>)" for co by (rule quietI) simp_all
  show ?thesis
  proof (cases "phase_of m c")
    case (Serving a)
    then show ?thesis using ne q by (auto simp: on_hangup_def unregister_peer_def intro: outcome.phase split: prod.split)
  next
    case (Controlling a tid sid tc)
    then show ?thesis using ne outcome_end_controller by (simp add: on_hangup_def)
  qed (use ne outcome.finish [OF quiet_refl ne] in \<open>simp_all add: on_hangup_def outcome.quiet\<close>)
qed

section \<open>Every step keeps the slots\<close>

definition guarded :: "AgentManager \<Rightarrow> bool" where
  "guarded m \<longleftrightarrow> slots_ok (connectionGuard m) (slot m) \<and> (\<forall>c. am_next m \<le> c \<longrightarrow> fmlookup (am_conns m) c = None)"

lemma guarded_quiet: "guarded m \<Longrightarrow> quiet m m' \<Longrightarrow> guarded m'"
proof -
  assume g: "guarded m" and q: "quiet m m'"
  have "slot m' = slot m" using q by (simp add: quiet_def slot_def fun_eq_iff)
  moreover have "fmlookup (am_conns m') c = None \<longleftrightarrow> fmlookup (am_conns m) c = None" for c
  proof -
    have "conn_slot x c = None \<longleftrightarrow> fmlookup (am_conns x) c = None" for x by (simp add: conn_slot_def)
    moreover have "conn_slot m' c = conn_slot m c" using q by (simp add: quiet_def)
    ultimately show ?thesis by metis
  qed
  ultimately show "guarded m'" using g q by (simp add: guarded_def quiet_def)
qed

lemma conn_slot_set_phase [simp]: "conn_slot (set_phase c p m) = conn_slot m"
  by (auto simp: conn_slot_def set_phase_def fun_eq_iff split: option.split)

lemma set_phase_guard [simp]: "connectionGuard (set_phase c p m) = connectionGuard m"
  by (simp add: set_phase_def)

lemma conns_set_phase [simp]: "fmlookup (am_conns (set_phase c p m)) c' = None \<longleftrightarrow> fmlookup (am_conns m) c' = None"
  by (auto simp: set_phase_def split: option.split)

lemma guarded_phase:
  assumes "guarded m" "phase_of m c \<noteq> Ended" "p \<noteq> Ended"
  shows "guarded (set_phase c p m)"
proof -
  have "slot (set_phase c p m) = slot m" using assms(2,3) by (auto simp: slot_def phase_set_phase fun_eq_iff)
  then show ?thesis using assms(1) by (simp add: guarded_def)
qed

lemma guarded_finish:
  assumes "guarded m" "phase_of m c \<noteq> Ended"
  shows "guarded (finish e c m)"
proof -
  obtain k where k: "fmlookup (am_conns m) c = Some k" using assms(2) by (auto simp: phase_of_def split: option.splits)
  let ?m = "m\<lparr>connectionGuard := release (e_now e) (c_ticket k) (connectionGuard m)\<rparr>"
  have f: "finish e c m = set_phase c Ended ?m" using k by (simp add: finish_def)
  have "conn_slot (finish e c m) = conn_slot m" by (simp add: f) (simp add: conn_slot_def fun_eq_iff)
  then have "slot (finish e c m) = (slot m)(c := None)"
    by (auto simp: slot_def phase_finish fun_eq_iff)
  moreover have "slot m c = Some (c_ticket k, addressKey (c_addr k))" using assms(2) k by (simp add: slot_def conn_slot_def)
  moreover have "connectionGuard (finish e c m) = release (e_now e) (c_ticket k) (connectionGuard m)" by (simp add: f)
  moreover have "fmlookup (am_conns (finish e c m)) c' = None \<longleftrightarrow> fmlookup (am_conns m) c' = None" for c' by (simp add: f)
  ultimately show ?thesis using assms(1) slots_release [of "connectionGuard m" "slot m" c] by (simp add: guarded_def)
qed

lemma guarded_outcome: "outcome c m m' \<Longrightarrow> guarded m \<Longrightarrow> guarded m'"
proof (induction rule: outcome.induct)
  case (quiet m')
  then show ?case using guarded_quiet by blast
next
  case (finish m1 e)
  then show ?case using guarded_finish [OF guarded_quiet] by (simp add: quiet_def)
next
  case (phase m1 p)
  then show ?case using guarded_phase [OF guarded_quiet] by (simp add: quiet_def)
qed

lemma guarded_accept:
  assumes "guarded m"
  shows "guarded (accept_connection e addr m)"
proof -
  obtain g r where g: "Acquire (e_now e) addr (connectionGuard m) = (g, r)" by force
  show ?thesis
  proof (cases r)
    case None
    have "slot (m\<lparr>connectionGuard := g\<rparr>) = slot m" by (simp add: slot_def phase_of_def conn_slot_def fun_eq_iff)
    then show ?thesis
      using assms slots_refused [of "connectionGuard m" "slot m" "e_now e" addr g] g None by (simp add: guarded_def accept_connection_def)
  next
    case (Some t)
    let ?m = "accept_connection e addr m"
    have free: "slot m (am_next m) = None" using assms by (simp add: guarded_def slot_def conn_slot_def)
    have "slot ?m = (slot m)(am_next m := Some (t, addressKey addr))"
      using g Some by (auto simp: accept_connection_def slot_def phase_of_def conn_slot_def fun_eq_iff)
    moreover have "connectionGuard ?m = g" "\<forall>c. am_next ?m \<le> c \<longrightarrow> fmlookup (am_conns ?m) c = None"
      using g Some assms by (auto simp: accept_connection_def guarded_def)
    ultimately show ?thesis
      using assms slots_acquire [of "connectionGuard m" "slot m" "e_now e" addr g t] g Some free by (simp add: guarded_def)
  qed
qed

lemma manager_step_guarded:
  assumes "guarded m"
  shows "guarded (fst (manager_step (e, ev) m))"
proof (cases ev)
  case (MConnect addr)
  then show ?thesis using assms guarded_accept by simp
next
  case (MMessage c msg)
  then show ?thesis using guarded_outcome [OF outcome_on_message assms] by (simp add: case_prod_unfold)
next
  case (MContinue c)
  then show ?thesis using guarded_outcome [OF outcome_on_continue assms] by (simp add: case_prod_unfold)
next
  case (MHangup c)
  then show ?thesis using guarded_outcome [OF outcome_on_hangup assms] by (simp add: case_prod_unfold)
next
  case (MStreamDone c)
  then show ?thesis using guarded_quiet [OF assms quiet_streams] by simp
next
  case (MStream c opened written answer)
  have "quiet m (set_streams c f (update_session tc h m))" for f tc h
    by (rule quiet_trans [OF _ quiet_streams]) (rule quietI, simp_all)
  then have "quiet m (on_stream c opened written answer m)" by (simp add: on_stream_def split: phase.split)
  then show ?thesis using MStream guarded_quiet [OF assms] by simp
qed (use assms in \<open>auto intro!: guarded_quiet [OF assms] quietI simp: on_relay_def on_tcp_def UpdateAccessPolicy_def DisconnectDevice_def
      ReleaseDevicePort_def manager_Close_def case_prod_unfold split: option.split\<close>)

interpretation connections: event_system manager_step manager_run "\<lambda>_. True" guarded
proof (unfold_locales, goal_cases)
  case (3 m ev)
  then show ?case using manager_step_guarded [of m "fst ev" "snd ev"] by simp
qed (simp_all add: case_prod_unfold)

lemma NewAgentManager_guarded: "guarded (NewAgentManager now cfg every acc dbo pm acl)"
proof -
  have "guard_ok (NewIPGuard a b w) \<and> tickets (NewIPGuard a b w) = fmempty" for a b w by (simp add: invs) (simp add: NewIPGuard_def)
  then show ?thesis by (simp add: guarded_def slots_ok_def slot_def) (simp add: NewAgentManager_def)
qed


text \<open>The connections of an address are as many as the slots taken for it.\<close>

definition connections_of :: "string \<Rightarrow> AgentManager \<Rightarrow> nat set" where
  "connections_of key m = {c. phase_of m c \<noteq> Ended \<and> (\<exists>k. fmlookup (am_conns m) c = Some k \<and> addressKey (c_addr k) = key)}"

lemma slot_connections: "{c. \<exists>t. slot m c = Some (t, key)} = connections_of key m"
  by (auto simp: slot_def conn_slot_def connections_of_def)

lemma manager_step_bound: "maxConcurrent (connectionGuard (fst (manager_step ev m))) = maxConcurrent (connectionGuard m)"
proof -
  have fin: "maxConcurrent (connectionGuard (finish e c m1)) = maxConcurrent (connectionGuard m1)" for e c m1
    by (auto simp: finish_def set_phase_def release_def Let_def split: option.split)
  have out: "outcome c m m' \<Longrightarrow> maxConcurrent (connectionGuard m') = maxConcurrent (connectionGuard m)" for c m'
    by (induction rule: outcome.induct) (simp_all add: quiet_def fin)
  obtain e v where ev: "ev = (e, v)" by force
  show ?thesis
  proof (cases v)
    case (MConnect addr)
    then show ?thesis using Acquire_bound [of "e_now e" addr "connectionGuard m"] ev
      by (auto simp: accept_connection_def split: prod.splits option.splits)
  qed (use ev out [OF outcome_on_message] out [OF outcome_on_continue] out [OF outcome_on_hangup] in
      \<open>auto simp: case_prod_unfold on_relay_def on_tcp_def on_stream_def set_streams_def UpdateAccessPolicy_def
        DisconnectDevice_def ReleaseDevicePort_def manager_Close_def split: option.split phase.split\<close>)
qed

lemma manager_run_bound: "maxConcurrent (connectionGuard (fst (manager_run evs m))) = maxConcurrent (connectionGuard m)"
  by (induction evs arbitrary: m) (simp_all add: case_prod_unfold manager_step_bound)

section \<open>Property\<close>

text \<open>
  C18: No slot is lost and none is shared. After any run of the relay the number of connections from one
  address that have not ended is exactly what the guard counts for that address, and it never exceeds the
  bound of the configuration, 16 if that is not positive.
\<close>

theorem connections_bounded:
  assumes "m = fst (manager_run evs (NewAgentManager now cfg every acc dbo pm acl))"
  shows "card (connections_of key m) = active_of key (connectionGuard m)
    \<and> card (connections_of key m) \<le> nat (if MaxConnectionsPerIP cfg \<le> 0 then 16 else MaxConnectionsPerIP cfg)"
proof -
  have g: "slots_ok (connectionGuard m) (slot m)"
    using connections.run_good [OF NewAgentManager_guarded list_all_True] assms by (simp add: guarded_def)
  have "card (connections_of key m) = active_of key (connectionGuard m) \<and> active_of key (connectionGuard m) \<le> maxConcurrent (connectionGuard m)"
    using slots_count [OF g, of key] slot_connections [of m key] by simp
  moreover have "maxConcurrent (connectionGuard m) = nat (if MaxConnectionsPerIP cfg \<le> 0 then 16 else MaxConnectionsPerIP cfg)"
    by (simp add: assms manager_run_bound) (simp add: NewAgentManager_def NewIPGuard_def)
  ultimately show ?thesis by simp
qed

end
