(* ===== verification/Agent_Scenario.thy ===== *)
theory Agent_Scenario
  imports Agent_Lifecycle Agent_Slots
begin

text \<open>
  A run of the relay from its start: the device \<open>pc\<close> logs in and registers, the device \<open>me\<close> logs in and
  connects to it as a controller, and a datagram goes from the one to the other. It shows that the hypotheses of the properties
  of the manager hold in a run that does what the program is for.
\<close>

definition sample_env :: env where
  "sample_env = \<lparr>e_now = 0, e_fails = (\<lambda>_. False), e_sent = True, e_notify = True, e_rnd = Some [1, 2, 3], e_order = [],
     e_ids = [], e_rows = [], e_tcp = True, e_udp = True, e_error = []\<rparr>"

definition sample_row :: "string \<Rightarrow> AgentRecord" where
  "sample_row dev = \<lparr>a_DeviceID = dev, a_Hostname = ''host'', a_SecretHash = hashSecret ''secret'', a_PublicPort = 0,
     a_Enabled = True, a_CreatedAt = 0, a_LastSeen = 0\<rparr>"

definition sample_db :: DB where
  "sample_db = empty_db\<lparr>agents := fmupd ''pc'' (sample_row ''pc'') (fmupd ''me'' (sample_row ''me'') fmempty)\<rparr>"

definition sample_config :: relay_config where
  "sample_config = \<lparr>PublicHost = ''relay'', MaxConnectionsPerIP = 5, MaxConnectionRatePerMinute = 9, MaxEnrollmentRatePerMinute = 0,
     MaxPublicTCPPerIP = 0, MaxPublicTCPRatePerSecond = 0, EnrollmentInvitations = [], SessionIdleTimeout = 9,
     MaxSessionsPerAgent = 0, MaxUDPSessionsPerIP = 0, MaxSessionCreateRate = 0, ReassemblyTimeout = 9, DatagramPayload = 1000\<rparr>"

definition sample_manager :: AgentManager where
  "sample_manager = NewAgentManager 7 sample_config False (fmupd ''pc'' [''me''] fmempty) (Some sample_db)
     \<lparr>startPort = 20000, endPort = 20001, deviceToPort = fmempty, portToDevice = fmempty\<rparr> \<lparr>defaultAllow = True, staticPrefixes = [], tempIPs = fmempty\<rparr>"

definition sample_auth :: "string \<Rightarrow> ControlMessage" where
  "sample_auth dev = (message MsgTypeAuth)\<lparr>m_DeviceID := dev, m_Secret := ''secret''\<rparr>"


definition sample_handshake :: "string \<Rightarrow> nat \<Rightarrow> (env \<times> manager_event) list" where
  "sample_handshake dev c = [(sample_env, MConnect None), (sample_env, MMessage c (sample_auth dev))]"

lemmas sample_simps = sample_handshake_def sample_manager_def NewAgentManager_def accept_connection_def Acquire_def addressKey_def NewIPGuard_def
     sample_env_def sample_config_def current_entry_def or_limit_def on_message_def phase_of_def sample_auth_def message_def auth_begin_def
     validDeviceID_def device_char_def maxDeviceIDBytes_def maxDeviceSecretBytes_def sample_db_def empty_db_def GetAgentByDeviceID_def sample_row_def auth_of_def
     install_invitations_def auth_done_def set_phase_def Let_def
     register_start_def GetOrAllocatePort_def free_port_def port_list_def close_live_def on_continue_def register_persist_def persist_row_def
     UpdateAgentRegistration_def update_agent_def register_listen_def port_in_use_def new_session_def registerOnlineAgent_def
     register_peer_def RegisterPeer_def validateCandidates_def MaxCandidateCount_def
     controller_start_def controllerCanAccess_def access_list_def isAllowed_def enroll_controller_def online_session_def
     controller_connect_def HandleConnectRequest_def connect_prepare_def controller_peer_def coord_def SetAuthorizer_def authorized_def
     generate_id_def connect_commit_def sessionCountLocked_def connect_notify_def connect_response_def connect_notice_def
     MaxActiveSessions_def MaxActiveSessionsPerPeer_def update_session_def registerControllerRoute_def NewSessionCoordinator_def


text \<open>The device is past its handshake; it registers.\<close>

lemma sample_waits: "phase_of (fst (manager_run (sample_handshake ''pc'' 0) sample_manager)) 0 = AwaitInit (auth_of (sample_auth ''pc''))"
  by (simp add: sample_simps)

definition sample_events :: "(env \<times> manager_event) list" where
  "sample_events = sample_handshake ''pc'' 0 @ [(sample_env, MMessage 0 (message MsgTypeRegister))]
     @ [(sample_env, MContinue 0), (sample_env, MContinue 0), (sample_env, MContinue 0), (sample_env, MContinue 0)] @ sample_handshake ''me'' 1
     @ [(sample_env, MMessage 1 ((message MsgTypeConnectRequest)\<lparr>m_TargetDeviceID := ''pc''\<rparr>))]"


lemma sample_controls: "phase_of (fst (manager_run sample_events sample_manager)) 1 = Controlling (auth_of (sample_auth ''me'')) ''pc'' 0x80000008 0"
  by (simp add: sample_simps sample_events_def)

lemma sample_open:
  "map_option as_closed (fmlookup (am_sessions (fst (manager_run sample_events sample_manager))) 0) = Some False"
  by (simp add: sample_simps sample_events_def)

lemma sample_listed: "fmlookup (agentsByDevice (fst (manager_run sample_events sample_manager))) ''pc'' = Some 0"
  by (simp add: sample_simps sample_events_def)

section \<open>The hypotheses hold\<close>

theorem authenticated_only_witness:
  "\<exists>es1 e ev es2. sample_events = es1 @ (e, ev) # es2
    \<and> proves e ev 1 (fst (manager_run es1 sample_manager)) (auth_of (sample_auth ''me''))"
proof -
  have "phase_auth (phase_of (fst (manager_run sample_events sample_manager)) 1) = Some (auth_of (sample_auth ''me''))"
    by (simp only: sample_controls phase_auth.simps)
  from authenticated_only [OF this [unfolded sample_manager_def], folded sample_manager_def] show ?thesis by blast
qed

theorem one_session_per_port_witness:
  "\<exists>s. fmlookup (am_sessions (fst (manager_run sample_events sample_manager))) 0 = Some s \<and> as_conn s = 0"
proof -
  obtain s where s: "fmlookup (am_sessions (fst (manager_run sample_events sample_manager))) 0 = Some s" "\<not> as_closed s"
    using sample_open by auto
  from one_session_per_port [OF refl s(1) [unfolded sample_manager_def] s(2)] show ?thesis using s(1) by blast
qed

definition sample_datagram :: bytes where
  "sample_datagram = EncodeUDP [] 0x80000008 1 0 1 [5]"

lemma sample_datagram_accepted: "controller_datagram 0x80000008 sample_datagram = Some sample_datagram"
  by code_simp

lemma sample_passes:
  "snd (snd (manager_step (sample_env, MDatagram 1 sample_datagram) (fst (manager_run sample_events sample_manager))))
    = Some (0, ToAgent [sample_datagram])"
  using sample_controls sample_open sample_datagram_accepted by (auto simp: on_datagram_def)

theorem controller_data_granted_witness:
  "\<exists>a tid sid. phase_of (fst (manager_run sample_events sample_manager)) 1 = Controlling a tid sid 0
    \<and> (\<exists>hdr payload. DecodeUDP sample_datagram = Inr (hdr, payload) \<and> SessionID hdr = sid)"
proof -
  have "(\<exists>e ev. snd (snd (manager_step (e, MRelay 0 ev) (fst (manager_run sample_events sample_manager)))) = Some (0, ToController 1 sample_datagram))
     \<or> (\<exists>e r. snd (snd (manager_step (e, MDatagram 1 sample_datagram) (fst (manager_run sample_events sample_manager)))) = Some (0, r))"
    using sample_passes by blast
  from controller_data_granted [OF refl this [unfolded sample_manager_def], folded sample_manager_def] show ?thesis by blast
qed


lemma sample_state:
  "am_sessions (fst (manager_run (sample_handshake ''pc'' 0) sample_manager)) = fmempty"
  "am_db (fst (manager_run (sample_handshake ''pc'' 0) sample_manager)) = Some sample_db"
  "GetOrAllocatePort (au_DeviceID (auth_of (sample_auth ''pc''))) (portManager (fst (manager_run (sample_handshake ''pc'' 0) sample_manager)))
    = (\<lparr>startPort = 20000, endPort = 20001, deviceToPort = fmupd ''pc'' 20000 fmempty, portToDevice = fmupd 20000 ''pc'' fmempty\<rparr>, Inr 20000)"
  by (simp_all add: sample_simps)

lemma sample_persists:
  "persist_row sample_env (auth_of (sample_auth ''pc'')) (message MsgTypeRegister) 20000 sample_db
    = Some (UpdateAgentRegistration 0 ''pc'' [] 20000 sample_db)"
  by (simp add: persist_row_def auth_of_def sample_auth_def message_def sample_env_def)

theorem registration_completes_witness:
  "registered 0 (auth_of (sample_auth ''pc'')) (message MsgTypeRegister) 20000 (UpdateAgentRegistration 0 ''pc'' [] 20000 sample_db)
    (fst (manager_run (sample_handshake ''pc'' 0) sample_manager))
    (fst (manager_run (registration sample_env sample_env sample_env sample_env sample_env 0 (message MsgTypeRegister))
      (fst (manager_run (sample_handshake ''pc'' 0) sample_manager))))"
  unfolding sample_manager_def
  by (rule registration_completes [OF refl sample_waits [unfolded sample_manager_def] _ _ sample_state(3) [unfolded sample_manager_def]
        sample_state(2) [unfolded sample_manager_def] sample_persists])
    (simp_all add: message_def sample_env_def sample_state(1) [unfolded sample_manager_def])

theorem disabled_device_registers_witness:
  "\<exists>es a. phase_of (fst (manager_run es (fst (manager_run (sample_handshake ''pc'' 0) sample_manager)))) 0 = Serving a"
proof -
  have "fmlookup (agents sample_db) (au_DeviceID (auth_of (sample_auth ''pc''))) = Some (sample_row ''pc'')"
    by (simp add: sample_db_def auth_of_def sample_auth_def message_def)
  from disabled_device_registers [OF refl sample_waits [unfolded sample_manager_def] _ _ _ sample_state(3) [unfolded sample_manager_def]
      sample_state(2) [unfolded sample_manager_def] this, of "message MsgTypeRegister" sample_env sample_env sample_env sample_env sample_env]
  show ?thesis
    unfolding sample_manager_def
    by (simp add: message_def sample_env_def sample_state(1) [unfolded sample_manager_def] auth_of_def sample_auth_def Let_def
        del: manager_run.simps) blast
qed

lemma sample_serves: "phase_of (fst (manager_run sample_events sample_manager)) 0 = Serving (auth_of (sample_auth ''pc''))"
  by (simp add: sample_simps sample_events_def)

theorem unregistration_completes_witness:
  "phase_of (fst (manager_run [(sample_env, MHangup 0), (sample_env, MContinue 0)] (fst (manager_run sample_events sample_manager)))) 0 = Ended"
  unfolding sample_manager_def
  using unregistration_completes [OF refl sample_serves [unfolded sample_manager_def] refl] by blast

theorem connections_bounded_witness:
  "card (connections_of ''unknown'' (fst (manager_run sample_events sample_manager))) \<le> 5"
proof -
  have "nat (if MaxConnectionsPerIP sample_config \<le> 0 then 16 else MaxConnectionsPerIP sample_config) = 5"
    by (simp add: sample_config_def)
  then show ?thesis
    using connections_bounded [OF refl, of "''unknown''" sample_events 7 sample_config] unfolding sample_manager_def by metis
qed

text \<open>A new device with an invitation.\<close>

definition sample_secret :: string where
  "sample_secret = ''0123456789abcdef0123456789abcdef''"

definition enroll_events :: "(env \<times> manager_event) list" where
  "enroll_events = [(sample_env, MConsole (DbUpsertInvitation ''new'' ''token'' 9)), (sample_env, MConnect None),
     (sample_env, MMessage 0 ((message MsgTypeAuth)\<lparr>m_DeviceID := ''new'', m_Secret := sample_secret, m_EnrollmentToken := ''token''\<rparr>)),
     (sample_env, MMessage 0 (message MsgTypeRegister))]"

lemmas enroll_simps = UpsertEnrollmentInvitation_def enroll_begin_def Allow_def release_def enroll_check_def maxEnrollmentTokenBytes_def
  minDeviceSecretBytes_def ValidateEnrollmentInvitation_def usable_def sample_secret_def enroll_row_def CreateAgentWithEnrollment_def
  new_row_def enrolled_row_def

lemma enroll_stored:
  "\<exists>db. am_db (fst (manager_run enroll_events sample_manager)) = Some db \<and> fmlookup (agents db) ''new'' = None
    \<and> (\<exists>db'. am_db (fst (manager_step (sample_env, MContinue 0) (fst (manager_run enroll_events sample_manager)))) = Some db'
         \<and> fmlookup (agents db') ''new'' \<noteq> None)"
  by (simp add: sample_simps enroll_events_def enroll_simps)

theorem credentials_by_invitation_witness:
  "\<exists>c a. phase_auth (phase_of (fst (manager_run enroll_events sample_manager)) c) = Some a \<and> au_DeviceID a = ''new''"
proof -
  obtain db db' where db: "am_db (fst (manager_run enroll_events sample_manager)) = Some db"
    "am_db (fst (manager_step (sample_env, MContinue 0) (fst (manager_run enroll_events sample_manager)))) = Some db'"
    "fmlookup (agents db) ''new'' = None" "fmlookup (agents db') ''new'' \<noteq> None"
    using enroll_stored by blast
  have "map_option a_SecretHash (fmlookup (agents db') ''new'') \<noteq> map_option a_SecretHash (fmlookup (agents db) ''new'')"
    using db(3,4) by simp
  from credentials_by_invitation [OF db(1,2) _ this] show ?thesis by blast
qed

end
