(* ===== verification/Web_Console.thy ===== *)
theory Web_Console
  imports Agent_Client Config_Sync Agent_Scenario
begin

text \<open>
  The web console of the relay, \<open>internal/web/server.go\<close>: who may use it, and the handlers that change something. A
  handler is a function on the console's state; what the HTTP and JSON libraries make of a request is its argument, the status is a
  result, and so is what is written to the configuration file, which \<open>Config_Sync\<close> models. What is shown
  by the requests that only read is left out.
\<close>

section \<open>State\<close>

record Console =
  wc_cfg :: RelayConfig
  wc_path :: string
  wc_manager :: AgentManager

datatype file_write = WriteInvitations "EnrollmentInvitation list" | WriteAccess bool "(string, string list) fmap"
  | WriteRaw RelayConfig | WriteSettings ServerSettingsUpdate

datatype http_method = GET | POST | PATCH | DELETE | OtherMethod

datatype answer = Shown | Done | Denied nat | Created string string time string

type_synonym console_result = "Console \<times> answer \<times> file_write list"

text \<open>The database is the one of the agent manager; there may be none.\<close>

definition console_db :: "Console \<Rightarrow> DB option" where
  "console_db c = am_db (wc_manager c)"

definition on_db :: "(DB \<Rightarrow> DB) \<Rightarrow> Console \<Rightarrow> Console" where
  "on_db f c = c\<lparr>wc_manager := (wc_manager c)\<lparr>am_db := map_option f (am_db (wc_manager c))\<rparr>\<rparr>"

text \<open>Writing the file happens only if the relay knows its name, and an error of it is only logged.\<close>

definition sync :: "file_write \<Rightarrow> Console \<Rightarrow> file_write list" where
  "sync w c = (if wc_path c \<noteq> [] then [w] else [])"

section \<open>Who may use the console\<close>

text \<open>The \<open>Authorization\<close> header, empty if there is none, and the cookie.\<close>

definition bearer :: string where "bearer = ''Bearer ''"

definition request_token :: "string \<Rightarrow> string option \<Rightarrow> string \<times> bool" where
  "request_token header cookie =
     (if take (length bearer) header = bearer then (drop (length bearer) header, True)
      else (case cookie of Some v \<Rightarrow> (v, False) | None \<Rightarrow> ([], False)))"

text \<open>The result is the cookie to set, if any, or \<open>None\<close> for a refusal.\<close>

definition authWrap :: "RelayConfig \<Rightarrow> string \<Rightarrow> string option \<Rightarrow> string option option" where
  "authWrap cfg header cookie =
     (let token = TrimSpace (rc_WebToken cfg) in
      if token = [] then None
      else case request_token header cookie of
        (given, used) \<Rightarrow> if given \<noteq> token then None else Some (if used then Some token else None))"

section \<open>Devices\<close>

definition handle_delete :: "env \<Rightarrow> string \<Rightarrow> Console \<Rightarrow> console_result" where
  "handle_delete e dev c =
     (if console_db c \<noteq> None \<and> e_fails e 0 then (c, Denied 500, [])
      else let c = on_db (DeleteAgent dev) c;
               m = fst (DisconnectDevice e dev (wc_manager c))
           in (c\<lparr>wc_manager := ReleaseDevicePort dev m\<rparr>, Done, []))"

definition handle_disconnect :: "env \<Rightarrow> string \<Rightarrow> Console \<Rightarrow> console_result" where
  "handle_disconnect e dev c = (c\<lparr>wc_manager := fst (DisconnectDevice e dev (wc_manager c))\<rparr>, Done, [])"

definition handle_toggle :: "env \<Rightarrow> string \<Rightarrow> bool option \<Rightarrow> Console \<Rightarrow> console_result" where
  "handle_toggle e dev body c = (case body of
     None \<Rightarrow> (c, Denied 400, [])
   | Some enabled \<Rightarrow>
       if console_db c \<noteq> None \<and> e_fails e 0 then (c, Denied 500, [])
       else let c = on_db (SetAgentEnabled dev enabled) c in
         (if \<not> enabled then c\<lparr>wc_manager := fst (DisconnectDevice e dev (wc_manager c))\<rparr> else c, Done, []))"

fun split_path :: "string \<Rightarrow> string list" where
  "split_path [] = [[]]"
| "split_path (x # xs) = (if x = CHR ''/'' then [] # split_path xs
     else (case split_path xs of p # ps \<Rightarrow> (x # p) # ps | [] \<Rightarrow> [[x]]))"

text \<open>\<open>path\<close> is what follows \<open>/api/devices/\<close>.\<close>

definition handleDeviceAction :: "env \<Rightarrow> http_method \<Rightarrow> string \<Rightarrow> bool option \<Rightarrow> Console \<Rightarrow> console_result" where
  "handleDeviceAction e method path body c =
     (let parts = split_path path; dev = hd parts in
      if dev = [] then (c, Denied 400, [])
      else if length parts = 1 then (if method = DELETE then handle_delete e dev c else (c, Denied 405, []))
      else if method \<noteq> POST then (c, Denied 405, [])
      else if parts ! 1 = ''disconnect'' then handle_disconnect e dev c
      else if parts ! 1 = ''toggle'' then handle_toggle e dev body c
      else (c, Denied 404, []))"

section \<open>Invitations\<close>

text \<open>
  The expiry of an invitation. Durations are counted in 64 bits, so a large number of days wraps around. \<open>parse\<close> is
  \<open>parseExpiresAt\<close>, six layouts of the library one after the other.
\<close>

definition days_duration :: "64 word \<Rightarrow> time" where
  "days_duration days = sint (days * 24 * 3600000000000)"

definition resolveInvitationExpiry :: "(string \<Rightarrow> time option) \<Rightarrow> time \<Rightarrow> string \<Rightarrow> 64 word \<Rightarrow> time option" where
  "resolveInvitationExpiry parse now expiresAt days =
     (if \<not> blank_string expiresAt then (case parse expiresAt of
        None \<Rightarrow> None
      | Some t \<Rightarrow> if \<not> t > now then None else Some t)
      else Some (now + days_duration (if sint days \<le> 0 then 30 else days)))"

definition console_device_id :: "string \<Rightarrow> bool" where
  "console_device_id dev \<longleftrightarrow> \<not> (dev = [] \<or> length dev > 64) \<and> list_all device_char dev"

definition invitation_token :: "string \<Rightarrow> bytes option \<Rightarrow> string option" where
  "invitation_token given rnd =
     (let token = TrimSpace given in if length token < 32 then map_option hex_encode rnd else Some token)"

fun set_invitation :: "string \<Rightarrow> string \<Rightarrow> time \<Rightarrow> EnrollmentInvitation list \<Rightarrow> EnrollmentInvitation list" where
  "set_invitation dev token expires [] = [\<lparr>ei_DeviceID = dev, ei_Token = token, ei_ExpiresAt = Some expires\<rparr>]"
| "set_invitation dev token expires (x # xs) =
     (if ei_DeviceID x = dev then x\<lparr>ei_Token := token, ei_ExpiresAt := Some expires\<rparr> # xs
      else x # set_invitation dev token expires xs)"

fun set_expiry :: "string \<Rightarrow> time \<Rightarrow> EnrollmentInvitation list \<Rightarrow> EnrollmentInvitation list" where
  "set_expiry dev expires [] = []"
| "set_expiry dev expires (x # xs) =
     (if ei_DeviceID x = dev then x\<lparr>ei_ExpiresAt := Some expires\<rparr> # xs else x # set_expiry dev expires xs)"

definition with_invitations :: "(EnrollmentInvitation list \<Rightarrow> EnrollmentInvitation list) \<Rightarrow> Console \<Rightarrow> Console" where
  "with_invitations f c = c\<lparr>wc_cfg := (wc_cfg c)\<lparr>rc_Invitations := f (rc_Invitations (wc_cfg c))\<rparr>\<rparr>"

text \<open>
  The file for the device that the answer contains: the values stand between quotes as they are, nothing is
  escaped.
\<close>

definition newline :: string where "newline = [CHR 0x0A]"

definition in_quotes :: "string \<Rightarrow> string" where
  "in_quotes s = CHR 0x22 # s @ [CHR 0x22]"

definition client_yaml :: "string \<Rightarrow> string \<Rightarrow> string \<Rightarrow> string \<Rightarrow> string" where
  "client_yaml address rendezvous dev token =
     ''server:'' @ newline
     @ ''  address: '' @ in_quotes address @ newline
     @ ''  rendezvousAddress: '' @ in_quotes rendezvous @ newline
     @ newline
     @ ''device:'' @ newline
     @ ''  id: '' @ in_quotes dev @ newline
     @ ''  secret: '' @ in_quotes token @ newline
     @ ''  enrollmentToken: '' @ in_quotes token @ newline"

fun after_last_colon :: "string \<Rightarrow> string option" where
  "after_last_colon [] = None"
| "after_last_colon (x # xs) = (case after_last_colon xs of
     Some p \<Rightarrow> Some p | None \<Rightarrow> if x = CHR '':'' then Some xs else None)"

definition extractPort :: "string \<Rightarrow> string \<Rightarrow> string" where
  "extractPort addr fallback = (case after_last_colon addr of Some p \<Rightarrow> p | None \<Rightarrow> fallback)"

definition client_file :: "RelayConfig \<Rightarrow> string \<Rightarrow> string \<Rightarrow> string" where
  "client_file cfg dev token = client_yaml
     (rc_PublicHost cfg @ '':'' @ extractPort (rc_QUICListen cfg) ''443'')
     (rc_PublicHost cfg @ '':'' @ extractPort (rc_RendezvousListen cfg) ''21116'') dev token"

text \<open>A request to make an invitation: device, token, expiry, number of days; \<open>None\<close> if it cannot be decoded.\<close>

definition create_invitation ::
  "env \<Rightarrow> (string \<Rightarrow> time option) \<Rightarrow> (string \<times> string \<times> string \<times> 64 word) option \<Rightarrow> Console \<Rightarrow> console_result" where
  "create_invitation e parse body c = (case body of
     None \<Rightarrow> (c, Denied 400, [])
   | Some (dev, given, expiresAt, days) \<Rightarrow>
       let dev = TrimSpace dev in
       if \<not> console_device_id dev then (c, Denied 400, [])
       else (case resolveInvitationExpiry parse (e_now e) expiresAt days of
         None \<Rightarrow> (c, Denied 400, [])
       | Some expires \<Rightarrow> (case invitation_token given (e_rnd e) of
           None \<Rightarrow> (c, Denied 500, [])
         | Some token \<Rightarrow>
             if console_db c \<noteq> None \<and> e_fails e 0 then (c, Denied 500, [])
             else let c = with_invitations (set_invitation dev token expires) (on_db (UpsertEnrollmentInvitation dev token expires) c) in
               (c, Created dev token expires (client_file (wc_cfg c) dev token),
                sync (WriteInvitations (rc_Invitations (wc_cfg c))) c))))"

definition delete_invitation :: "env \<Rightarrow> string \<Rightarrow> Console \<Rightarrow> console_result" where
  "delete_invitation e dev c =
     (if console_db c \<noteq> None \<and> e_fails e 0 then (c, Denied 500, [])
      else let c = with_invitations (filter (\<lambda>x. ei_DeviceID x \<noteq> dev)) (on_db (DeleteEnrollmentInvitation dev) c) in
        (c, Done, sync (WriteInvitations (rc_Invitations (wc_cfg c))) c))"

definition patch_invitation ::
  "env \<Rightarrow> (string \<Rightarrow> time option) \<Rightarrow> string \<Rightarrow> (string \<times> 64 word) option \<Rightarrow> Console \<Rightarrow> console_result" where
  "patch_invitation e parse dev body c = (case body of
     None \<Rightarrow> (c, Denied 400, [])
   | Some (expiresAt, days) \<Rightarrow>
       if blank_string expiresAt \<and> sint days \<le> 0 then (c, Denied 400, [])
       else (case resolveInvitationExpiry parse (e_now e) expiresAt days of
         None \<Rightarrow> (c, Denied 400, [])
       | Some expires \<Rightarrow>
           if console_db c \<noteq> None \<and> e_fails e 0 then (c, Denied 500, [])
           else (case map_option (UpdateEnrollmentInvitationExpiry dev expires) (console_db c) of
             Some (Inl _) \<Rightarrow> (c, Denied 404, [])
           | r \<Rightarrow>
               let c = (case r of Some (Inr db) \<Rightarrow> on_db (\<lambda>_. db) c | _ \<Rightarrow> c);
                   c = with_invitations (set_expiry dev expires) c
               in (c, Done, sync (WriteInvitations (rc_Invitations (wc_cfg c))) c))))"

definition handleInvitations ::
  "env \<Rightarrow> (string \<Rightarrow> time option) \<Rightarrow> http_method \<Rightarrow> (string \<times> string \<times> string \<times> 64 word) option \<Rightarrow> Console \<Rightarrow> console_result" where
  "handleInvitations e parse method body c =
     (if method = GET then (c, if console_db c \<noteq> None \<and> e_fails e 0 then Denied 500 else Shown, [])
      else if method = POST then create_invitation e parse body c else (c, Denied 405, []))"

definition handleInvitationAction ::
  "env \<Rightarrow> (string \<Rightarrow> time option) \<Rightarrow> http_method \<Rightarrow> string \<Rightarrow> (string \<times> 64 word) option \<Rightarrow> Console \<Rightarrow> console_result" where
  "handleInvitationAction e parse method dev body c =
     (if dev = [] then (c, Denied 400, [])
      else case method of
        DELETE \<Rightarrow> delete_invitation e dev c
      | PATCH \<Rightarrow> patch_invitation e parse dev body c
      | _ \<Rightarrow> (c, Denied 405, []))"

section \<open>Access policy and settings\<close>

definition handleAccess :: "http_method \<Rightarrow> (bool \<times> (string, string list) fmap option) option \<Rightarrow> Console \<Rightarrow> console_result" where
  "handleAccess method body c =
     (if method = GET then (c, Shown, [])
      else if method \<noteq> POST then (c, Denied 405, [])
      else case body of
        None \<Rightarrow> (c, Denied 400, [])
      | Some (every, acc) \<Rightarrow>
          let acc = (case acc of Some a \<Rightarrow> a | None \<Rightarrow> fmempty);
              c = c\<lparr>wc_manager := UpdateAccessPolicy every (Some acc) (wc_manager c),
                wc_cfg := (wc_cfg c)\<lparr>rc_AllowAllControllerTargets := every, rc_ControllerAccess := Some acc\<rparr>\<rparr>
          in (c, Done, sync (WriteAccess every acc) c))"

text \<open>
  A whole file as text: \<open>decoded\<close> is the record that the library fills from it, \<open>None\<close> for a syntax error, and
  \<open>written\<close> says whether the file could be replaced.
\<close>

definition replace_config :: "RelayConfig option \<Rightarrow> bool \<Rightarrow> Console \<Rightarrow> console_result" where
  "replace_config decoded written c =
     (if wc_path c = [] then (c, Denied 400, [])
      else case decoded of
        None \<Rightarrow> (c, Denied 400, [])
      | Some n \<Rightarrow>
          if raw_check n \<noteq> None \<or> \<not> written then (c, Denied 400, [])
          else (c\<lparr>wc_cfg := (wc_cfg c)\<lparr>rc_PublicHost := rc_PublicHost n, rc_PortRangeStart := rc_PortRangeStart n,
                  rc_PortRangeEnd := rc_PortRangeEnd n, rc_DefaultPolicy := rc_DefaultPolicy n,
                  rc_AllowAllControllerTargets := rc_AllowAllControllerTargets n, rc_ControllerAccess := rc_ControllerAccess n,
                  rc_WebToken := (if rc_WebToken n \<noteq> [] then rc_WebToken n else rc_WebToken (wc_cfg c))\<rparr>,
                wc_manager := UpdateAccessPolicy (rc_AllowAllControllerTargets n) (rc_ControllerAccess n) (wc_manager c)\<rparr>,
              Done, [WriteRaw n]))"

definition given :: "'a option \<Rightarrow> 'a \<Rightarrow> 'a" where
  "given v old = (case v of Some x \<Rightarrow> x | None \<Rightarrow> old)"

definition apply_settings :: "ServerSettingsUpdate \<Rightarrow> RelayConfig \<Rightarrow> RelayConfig" where
  "apply_settings s cfg = cfg\<lparr>
     rc_PublicHost := given (su_PublicHost s) (rc_PublicHost cfg),
     rc_PortRangeStart := given (map_option word_of_int (su_PortRangeStart s)) (rc_PortRangeStart cfg),
     rc_PortRangeEnd := given (map_option word_of_int (su_PortRangeEnd s)) (rc_PortRangeEnd cfg),
     rc_DefaultPolicy := given (su_DefaultPolicy s) (rc_DefaultPolicy cfg),
     rc_WebToken := given (su_WebToken s) (rc_WebToken cfg),
     rc_QUICListen := given (map_option TrimSpace (su_QuicListen s)) (rc_QUICListen cfg),
     rc_TLSListen := given (map_option TrimSpace (su_TlsListen s)) (rc_TLSListen cfg),
     rc_TLSDisabled := given (su_TlsDisabled s) (rc_TLSDisabled cfg),
     rc_RendezvousListen := given (map_option TrimSpace (su_RendezvousListen s)) (rc_RendezvousListen cfg)\<rparr>"

datatype config_request = RawYaml "RelayConfig option" bool | Settings ServerSettingsUpdate

definition handleConfig :: "http_method \<Rightarrow> config_request option \<Rightarrow> Console \<Rightarrow> console_result" where
  "handleConfig method body c =
     (if method = GET then (c, Shown, [])
      else if method \<noteq> POST then (c, Denied 405, [])
      else case body of
        None \<Rightarrow> (c, Denied 400, [])
      | Some (RawYaml decoded written) \<Rightarrow> replace_config decoded written c
      | Some (Settings s) \<Rightarrow> (c\<lparr>wc_cfg := apply_settings s (wc_cfg c)\<rparr>, Done, sync (WriteSettings s) c))"

section \<open>Requests\<close>

datatype console_request =
    DeviceAction http_method string "bool option"
  | Invitations http_method "(string \<times> string \<times> string \<times> 64 word) option"
  | InvitationAction http_method string "(string \<times> 64 word) option"
  | Access http_method "(bool \<times> (string, string list) fmap option) option"
  | Config http_method "config_request option"

text \<open>The routes of \<open>StartServer\<close>: every handler is behind \<open>authWrap\<close>.\<close>

definition serve_request ::
  "env \<Rightarrow> (string \<Rightarrow> time option) \<Rightarrow> string \<Rightarrow> string option \<Rightarrow> console_request \<Rightarrow> Console \<Rightarrow> console_result" where
  "serve_request e parse header cookie req c = (case authWrap (wc_cfg c) header cookie of
     None \<Rightarrow> (c, Denied 401, [])
   | Some _ \<Rightarrow> (case req of
       DeviceAction method path body \<Rightarrow> handleDeviceAction e method path body c
     | Invitations method body \<Rightarrow> handleInvitations e parse method body c
     | InvitationAction method dev body \<Rightarrow> handleInvitationAction e parse method dev body c
     | Access method body \<Rightarrow> handleAccess method body c
     | Config method body \<Rightarrow> handleConfig method body c))"

section \<open>Changes of the file\<close>

text \<open>
  One tick of \<open>startConfigWatcher\<close>, \<open>cmd/relay/main.go\<close>: \<open>stat\<close> is the time of the last change of the file, \<open>parsed\<close> the
  record that the library fills from it, and the state begins with the time of the change seen last. The query of the invitation
  with number \<open>i\<close> may fail.
\<close>

fun reload_invitations :: "env \<Rightarrow> nat \<Rightarrow> EnrollmentInvitation list \<Rightarrow> Console \<Rightarrow> Console" where
  "reload_invitations e i [] c = c"
| "reload_invitations e i (x # xs) c = reload_invitations e (i + 1) xs
     (case ei_ExpiresAt x of
        Some t \<Rightarrow> if e_fails e i then c else on_db (UpsertEnrollmentInvitation (ei_DeviceID x) (ei_Token x) t) c
      | None \<Rightarrow> c)"

definition watcher_tick :: "env \<Rightarrow> time option \<Rightarrow> RelayConfig option \<Rightarrow> time \<times> Console \<Rightarrow> time \<times> Console" where
  "watcher_tick e stat parsed st = (case st of (lastMod, c) \<Rightarrow> (case stat of
     None \<Rightarrow> (lastMod, c)
   | Some t \<Rightarrow>
       if \<not> t > lastMod then (lastMod, c)
       else (case parsed of
         None \<Rightarrow> (t, c)
       | Some n \<Rightarrow>
           if load_check (e_now e) n \<noteq> None then (t, c)
           else let c = reload_invitations e 0 (rc_Invitations n) c in
             (t, c\<lparr>wc_cfg := (wc_cfg c)\<lparr>rc_Invitations := rc_Invitations n,
                  rc_AllowAllControllerTargets := rc_AllowAllControllerTargets n, rc_ControllerAccess := rc_ControllerAccess n\<rparr>,
                wc_manager := UpdateAccessPolicy (rc_AllowAllControllerTargets n) (rc_ControllerAccess n) (wc_manager c)\<rparr>))))"

section \<open>Nobody without the token\<close>

lemmas console_handlers = handleDeviceAction_def handle_delete_def handle_disconnect_def handle_toggle_def handleInvitations_def
  create_invitation_def handleInvitationAction_def delete_invitation_def patch_invitation_def handleAccess_def handleConfig_def
  replace_config_def

text \<open>No handler answers with the status of a missing token.\<close>

lemma devices_401: "fst (snd (handleDeviceAction e method path body c)) \<noteq> Denied 401"
  by (simp add: handleDeviceAction_def handle_delete_def handle_disconnect_def handle_toggle_def Let_def split: option.split)

lemma invitations_401: "fst (snd (handleInvitations e parse method body' c)) \<noteq> Denied 401"
  by (simp add: handleInvitations_def create_invitation_def Let_def split: option.split prod.split)

lemma patch_401: "fst (snd (patch_invitation e parse dev body c)) \<noteq> Denied 401"
  by (simp add: patch_invitation_def Let_def split: option.split sum.split prod.split)

lemma invitation_401: "fst (snd (handleInvitationAction e parse method dev body c)) \<noteq> Denied 401"
  using patch_401 by (simp add: handleInvitationAction_def delete_invitation_def Let_def split: http_method.split)

lemma access_401: "fst (snd (handleAccess method body c)) \<noteq> Denied 401"
  by (simp add: handleAccess_def Let_def split: option.split prod.split)

lemma config_401: "fst (snd (handleConfig method body c)) \<noteq> Denied 401"
  by (simp add: handleConfig_def replace_config_def Let_def split: option.split config_request.split)

lemma authWrap_passes:
  "authWrap cfg header cookie \<noteq> None \<longleftrightarrow> TrimSpace (rc_WebToken cfg) \<noteq> [] \<and> fst (request_token header cookie) = TrimSpace (rc_WebToken cfg)"
  by (auto simp: authWrap_def Let_def split: prod.split)

text \<open>
  C13: The console is behind its token. A request is refused as unauthorised exactly when the console has no token or the
  request does not carry it, and a header that names another token is not made good by a cookie; then nothing at
  all happens. So whatever changes the relay or its configuration file through the console carried the token.
\<close>

theorem console_guarded:
  assumes "serve_request e parse header cookie req c = (c', a, out)"
  shows "(a = Denied 401 \<longleftrightarrow> TrimSpace (rc_WebToken (wc_cfg c)) = [] \<or> fst (request_token header cookie) \<noteq> TrimSpace (rc_WebToken (wc_cfg c)))
    \<and> (a = Denied 401 \<longrightarrow> c' = c \<and> out = [])"
proof (cases "authWrap (wc_cfg c) header cookie")
  case None
  then have "c' = c" "a = Denied 401" "out = []" using assms by (simp_all add: serve_request_def)
  then show ?thesis using None authWrap_passes [of "wc_cfg c" header cookie] by auto
next
  case (Some x)
  have "a \<noteq> Denied 401"
    using assms Some devices_401 invitations_401 invitation_401 access_401 config_401
    by (cases req) (simp_all add: serve_request_def, (metis fst_conv snd_conv)+)
  then show ?thesis using Some authWrap_passes [of "wc_cfg c" header cookie] by auto
qed

section \<open>From the invitation to the device\<close>

lemma created:
  assumes "create_invitation e parse body c = (c', Created dev token expires yaml, out)"
  shows "console_device_id dev \<and> (32 \<le> length token \<or> (\<exists>rnd. e_rnd e = Some rnd \<and> token = hex_encode rnd))
    \<and> yaml = client_file (wc_cfg c) dev token
    \<and> c' = with_invitations (set_invitation dev token expires) (on_db (UpsertEnrollmentInvitation dev token expires) c)
    \<and> out = sync (WriteInvitations (rc_Invitations (wc_cfg c'))) c'"
  using assms by (auto simp: create_invitation_def invitation_token_def Let_def not_less client_file_def with_invitations_def
      on_db_def split: option.splits if_splits prod.splits)

lemma console_device_id_valid: "console_device_id dev \<Longrightarrow> validDeviceID dev"
  by (simp add: console_device_id_def validDeviceID_def maxDeviceIDBytes_def)

lemma console_db_invited [simp]:
  "console_db (with_invitations f (on_db g c)) = map_option g (console_db c)"
  by (simp add: console_db_def with_invitations_def on_db_def)

lemma hex_encode_length: "length (hex_encode bs) = 2 * length bs"
  by (induction bs) (simp_all add: hex_encode_def)

text \<open>
  A device that is new, with the identity and invitation that the console hands out, is let in at the first attempt, as
  long as the invitation is neither expired nor consumed, the attempt is within the rate and no query fails.
\<close>

lemma invited_device_enrols:
  assumes "handleInvitations e parse POST body c = (c', Created dev token expires yaml, out)"
    "console_db c = Some db" "GetAgentByDeviceID dev db = None"
    "list_all (\<lambda>i. i_TokenHash i = enrollmentTokenHash token \<longrightarrow> i_ConsumedAt i = None)
       (case fmlookup (enrollment_invitations db) dev of Some i \<Rightarrow> [i] | None \<Rightarrow> [])"
    "case e_rnd e of Some rnd \<Rightarrow> length rnd = 24 | None \<Rightarrow> True" "length token \<le> maxDeviceSecretBytes"
    "e_now e1 < expires" "\<And>n. \<not> e_fails e1 n" "snd (Allow (e_now e1) addr g)"
    "cfg = \<lparr>dc_ID = dev, dc_Secret = token, dc_EnrollmentToken = token\<rparr>"
  shows "\<exists>a. sign_in cfg addr g e1 (console_db c') e2 db2 = (Checked a, [auth_hello cfg], Inr ())
    \<and> au_New a \<and> au_Token a = token \<and> au_DeviceID a = dev"
proof -
  have d: "console_device_id dev" "32 \<le> length token \<or> (\<exists>rnd. e_rnd e = Some rnd \<and> token = hex_encode rnd)"
    "c' = with_invitations (set_invitation dev token expires) (on_db (UpsertEnrollmentInvitation dev token expires) c)"
    using created [of e parse body c c' dev token expires yaml out] assms(1) by (auto simp: handleInvitations_def)
  have cfg: "dc_ID cfg = dev" "dc_Secret cfg = token" using assms(10) by simp_all
  have len: "32 \<le> length token" using d(2) assms(5) by (auto simp: hex_encode_length)
  then have ne: "token \<noteq> []" by auto
  have db: "console_db c' = Some (UpsertEnrollmentInvitation dev token expires db)" using d(3) assms(2) by simp
  have unknown: "GetAgentByDeviceID dev (UpsertEnrollmentInvitation dev token expires db) = None"
    using assms(3) by (simp add: GetAgentByDeviceID_def UpsertEnrollmentInvitation_def Let_def)
  have usable: "ValidateEnrollmentInvitation dev token (e_now e1) (UpsertEnrollmentInvitation dev token expires db)"
    using assms(4,7) ne d(1)
    by (auto simp: ValidateEnrollmentInvitation_def UpsertEnrollmentInvitation_def usable_def console_device_id_def Let_def split: option.splits)
  let ?a = "(auth_of (auth_hello cfg))\<lparr>au_New := True\<rparr>" let ?b = "?a\<lparr>au_Token := token\<rparr>"
  have a: "au_Token ?a = []" "au_DeviceID ?a = dev" "au_Secret ?a = token"
    using cfg by (simp_all add: auth_of_def auth_hello_def message_def)
  obtain g' where "Allow (e_now e1) addr g = (g', True)" using assms(9) by (metis prod.collapse)
  then have "enroll_begin e1 addr ?a (UpsertEnrollmentInvitation dev token expires db) g = (g', Checked ?b)"
    using a usable len assms(6,8)
    by (simp add: enroll_begin_def enroll_check_def minDeviceSecretBytes_def maxDeviceSecretBytes_def maxEnrollmentTokenBytes_def)
  then have first: "relay_first cfg e1 addr (console_db c') g = Checked ?b"
    using unknown ne cfg assms(6,8) console_device_id_valid [OF d(1)]
    by (simp add: relay_first_def auth_begin_def db auth_hello_def message_def)
  then have "sign_in cfg addr g e1 (console_db c') e2 db2 = (Checked ?b, [auth_hello cfg], Inr ())"
    by (simp add: sign_in_def Let_def relay_second_def authenticateControl_def relay_answer_def auth_verdict_def message_def)
  then show ?thesis using a by simp
qed

section \<open>What the console writes\<close>

text \<open>Whether one invitation passes the checks of \<open>LoadRelayConfig\<close>, apart from the others.\<close>

definition sound_invitation :: "time \<Rightarrow> EnrollmentInvitation \<Rightarrow> bool" where
  "sound_invitation now x \<longleftrightarrow> \<not> blank_string (ei_DeviceID x) \<and> 32 \<le> length (ei_Token x)
     \<and> (case ei_ExpiresAt x of Some t \<Rightarrow> now < t | None \<Rightarrow> False)"

lemma check_invitations_iff:
  "check_invitations now i seen xs = None
    \<longleftrightarrow> list_all (sound_invitation now) xs \<and> distinct (map ei_DeviceID xs) \<and> set (map ei_DeviceID xs) \<inter> seen = {}"
  by (induction now i seen xs rule: check_invitations.induct)
    (auto simp: sound_invitation_def not_less split: option.splits)

lemma load_check_iff:
  "load_check now cfg = None \<longleftrightarrow> list_all (sound_invitation now) (rc_Invitations cfg) \<and> distinct (map ei_DeviceID (rc_Invitations cfg))
    \<and> load_check now (cfg\<lparr>rc_Invitations := []\<rparr>) = None"
  using check_invitations_iff [of now 0 "{}" "rc_Invitations cfg"] by (auto simp: load_check_def split: option.split)

lemma set_invitation_ids:
  "map ei_DeviceID (set_invitation dev token expires xs) = map ei_DeviceID xs @ (if dev \<in> ei_DeviceID ` set xs then [] else [dev])"
  by (induction xs) auto

lemma set_invitation_sound:
  assumes "list_all (sound_invitation now) xs"
  shows "list_all (sound_invitation now) (set_invitation dev token expires xs)
    \<longleftrightarrow> sound_invitation now \<lparr>ei_DeviceID = dev, ei_Token = token, ei_ExpiresAt = Some expires\<rparr>"
  using assms by (induction xs) (auto simp: sound_invitation_def)

lemma strip_nothing:
  assumes "of_char a \<notin> {9, 10, 11, 12, 13, 32 :: nat}" "\<And>y. \<not> two (of_char a) y" "\<And>y z. \<not> three (of_char a) y z"
  shows "strip_spaces two three (a # as) = a # as"
  using assms by (simp split: list.split)

lemma device_char_plain:
  assumes "device_char x"
  shows "of_char x \<notin> {9, 10, 11, 12, 13, 32 :: nat}" "\<not> space2 (of_char x) y" "\<not> space2 y (of_char x)" "\<not> space3 (of_char x) y z"
    "\<not> space3 y z (of_char x)"
  using assms unfolding device_char_def space2_def space3_def Let_def by auto

lemma device_id_not_blank:
  assumes "console_device_id dev"
  shows "\<not> blank_string dev"
proof -
  obtain a as where dev: "dev = a # as" "list_all device_char dev" using assms by (cases dev) (auto simp: console_device_id_def)
  obtain b bs where rev: "rev dev = b # bs" using dev by (cases "rev dev") auto
  have "b \<in> set dev" using rev by (metis list.set_intros(1) set_rev)
  then have "device_char a" "device_char b" using dev by (auto simp: list_all_iff)
  then have "strip_spaces space2 space3 dev = dev" "strip_spaces (\<lambda>a b. space2 b a) (\<lambda>a b c. space3 c b a) (rev dev) = rev dev"
    using strip_nothing [of a space2 space3 as] strip_nothing [of b "\<lambda>a b. space2 b a" "\<lambda>a b c. space3 c b a" bs] device_char_plain dev(1) rev
    by metis+
  then show ?thesis using dev(1) by (simp add: blank_string_def TrimSpace_def)
qed

text \<open>
  C33: An invitation from the console keeps the relay from starting once it is expired. The console adds it to the configuration file and
  nothing takes it out again, also when it is consumed. With it the configuration loads as it did before as long as the
  invitation is not expired, and not at all afterwards: neither at a start nor when the file is changed.
\<close>

theorem invitation_blocks_restart:
  assumes "handleInvitations e parse POST body c = (c', Created dev token expires yaml, out)"
    "case e_rnd e of Some rnd \<Rightarrow> length rnd = 24 | None \<Rightarrow> True" "load_check now (wc_cfg c) = None" "wc_path c \<noteq> []"
  shows "out = [WriteInvitations (rc_Invitations (wc_cfg c'))] \<and> (load_check now (wc_cfg c') = None \<longleftrightarrow> now < expires)
    \<and> (expires \<le> now \<longrightarrow> snd (watcher_tick (e'\<lparr>e_now := now\<rparr>) stat (Some (wc_cfg c')) (lastMod, later)) = later)"
proof -
  have d: "console_device_id dev" "32 \<le> length token \<or> (\<exists>rnd. e_rnd e = Some rnd \<and> token = hex_encode rnd)"
    "c' = with_invitations (set_invitation dev token expires) (on_db (UpsertEnrollmentInvitation dev token expires) c)"
    "out = sync (WriteInvitations (rc_Invitations (wc_cfg c'))) c'"
    using created [of e parse body c c' dev token expires yaml out] assms(1) by (auto simp: handleInvitations_def)
  have len: "32 \<le> length token" using d(2) assms(2) by (auto simp: hex_encode_length)
  have cfg': "wc_cfg c' = (wc_cfg c)\<lparr>rc_Invitations := set_invitation dev token expires (rc_Invitations (wc_cfg c))\<rparr>" "wc_path c' = wc_path c"
    using d(3) by (simp_all add: with_invitations_def on_db_def)
  have old: "list_all (sound_invitation now) (rc_Invitations (wc_cfg c))" "distinct (map ei_DeviceID (rc_Invitations (wc_cfg c)))"
    "load_check now ((wc_cfg c)\<lparr>rc_Invitations := []\<rparr>) = None"
    using assms(3) load_check_iff [of now "wc_cfg c"] by blast+
  have "sound_invitation now \<lparr>ei_DeviceID = dev, ei_Token = token, ei_ExpiresAt = Some expires\<rparr> \<longleftrightarrow> now < expires"
    using len device_id_not_blank [OF d(1)] by (simp add: sound_invitation_def)
  then have "load_check now (wc_cfg c') = None \<longleftrightarrow> now < expires"
    using old set_invitation_sound [OF old(1), of dev token expires]
    by (subst load_check_iff) (auto simp: cfg'(1) set_invitation_ids)
  moreover have "out = [WriteInvitations (rc_Invitations (wc_cfg c'))]" using d(4) cfg'(2) assms(4) by (simp add: sync_def)
  ultimately show ?thesis by (simp add: watcher_tick_def split: option.split)
qed

section \<open>Numbers of days\<close>

text \<open>
  How far an invitation may reach. A number of days up to 106751 gives just this expiry, and the next 106751 numbers one that
  lies in the past, for the duration is counted in 64 bits.
\<close>

theorem days_expiry:
  assumes "blank_string expiresAt" "0 < d" "d \<le> 213502"
  shows "\<exists>t. resolveInvitationExpiry parse now expiresAt (word_of_int d) = Some t
    \<and> (if d \<le> 106751 then t = now + d * 86400 * second else t < now)"
proof -
  have sd: "sint (word_of_int d :: 64 word) = d" using assms(2,3) by (simp add: sint_sbintrunc' signed_take_bit_int_eq_self)
  have "word_of_int d * 24 * 3600000000000 = (word_of_int (d * 86400000000000) :: 64 word)" by (simp add: algebra_simps)
  moreover have "sint (word_of_int n :: 64 word) = signed_take_bit 63 n" for n by (simp add: sint_sbintrunc')
  ultimately have dur: "days_duration (word_of_int d) = signed_take_bit 63 (d * 86400000000000)"
    by (simp only: days_duration_def)
  have r: "resolveInvitationExpiry parse now expiresAt (word_of_int d) = Some (now + days_duration (word_of_int d))"
    using assms(1,2) sd by (simp add: resolveInvitationExpiry_def)
  show ?thesis
  proof (cases "d \<le> 106751")
    case True
    then have "signed_take_bit 63 (d * 86400000000000) = d * 86400000000000"
      using assms(2) by (intro signed_take_bit_int_eq_self) simp_all
    then show ?thesis using r dur True by simp
  next
    case False
    have "signed_take_bit 63 (d * 86400000000000) = signed_take_bit 63 (d * 86400000000000 - 2 ^ 64)"
      by (simp add: signed_take_bit_eq_iff_take_bit_eq take_bit_eq_mod)
    also have "\<dots> = d * 86400000000000 - 2 ^ 64"
      using False assms(3) by (intro signed_take_bit_int_eq_self) simp_all
    finally show ?thesis using r dur False assms(3) by simp
  qed
qed

section \<open>A console\<close>

definition sample_console :: Console where
  "sample_console = \<lparr>wc_cfg = console_config\<lparr>rc_PublicHost := ''relay''\<rparr>, wc_path = ''relay.yaml'', wc_manager = sample_manager\<rparr>"

definition console_env :: env where
  "console_env = client_env\<lparr>e_rnd := Some (replicate 24 0)\<rparr>"

definition sample_token :: string where "sample_token = hex_encode (replicate 24 0)"

lemma sample_token_length [simp]: "length sample_token = 48"
  by (simp add: sample_token_def hex_encode_length)

definition sample_invitation :: "string \<times> string \<times> string \<times> 64 word" where
  "sample_invitation = (''new'', [], [], 1)"

lemma trim_new: "TrimSpace ''new'' = ''new''" "TrimSpace [] = []"
  by (simp_all add: TrimSpace_def space2_def space3_def)

lemma sample_invited:
  "\<exists>c' yaml out. handleInvitations console_env Map.empty POST (Some sample_invitation) sample_console
    = (c', Created ''new'' sample_token (86400 * second) yaml, out)"
  by (simp add: handleInvitations_def create_invitation_def sample_invitation_def trim_new console_device_id_def device_char_def
      resolveInvitationExpiry_def blank_string_def days_duration_def invitation_token_def console_env_def client_env_def sample_token_def Let_def)

lemma sample_console_db: "console_db sample_console = Some sample_db"
  by (simp add: console_db_def sample_console_def sample_manager_def NewAgentManager_def install_invitations_def sample_config_def)

theorem console_guarded_witness:
  "serve_request console_env Map.empty [] None (Access POST None) sample_console = (sample_console, Denied 401, [])"
proof -
  obtain c' a out where r: "serve_request console_env Map.empty [] None (Access POST None) sample_console = (c', a, out)" by (metis prod.collapse)
  have "fst (request_token [] None) = []" by (simp add: request_token_def bearer_def)
  then show ?thesis using console_guarded [OF r] r by (cases "TrimSpace (rc_WebToken (wc_cfg sample_console)) = []") auto
qed

theorem invitation_blocks_restart_witness:
  "\<exists>c' :: Console. load_check 0 (wc_cfg c') = None \<and> load_check (86400 * second) (wc_cfg c') \<noteq> None"
proof -
  obtain c' yaml out where r: "handleInvitations console_env Map.empty POST (Some sample_invitation) sample_console
      = (c', Created ''new'' sample_token (86400 * second) yaml, out)" using sample_invited by blast
  have "load_check now (wc_cfg sample_console) = None" for now
    by (simp add: load_check_def sample_console_def console_config_def blank_string_def TrimSpace_def space2_def space3_def)
  moreover have "case e_rnd console_env of Some rnd \<Rightarrow> length rnd = 24 | None \<Rightarrow> True" by (simp add: console_env_def)
  moreover have "wc_path sample_console \<noteq> []" by (simp add: sample_console_def)
  ultimately have "load_check 0 (wc_cfg c') = None" "load_check (86400 * second) (wc_cfg c') \<noteq> None"
    using invitation_blocks_restart [OF r, of 0] invitation_blocks_restart [OF r, of "86400 * second"] by simp_all
  then show ?thesis by blast
qed

theorem days_expiry_witness: "\<exists>t. resolveInvitationExpiry Map.empty 0 [] (word_of_int 106752) = Some t \<and> t < 0"
proof -
  have "blank_string []" by (simp add: blank_string_def trim_new)
  from days_expiry [OF this, of 106752 Map.empty 0] show ?thesis by simp
qed

end
