(* ===== verification/Agent_Config.thy ===== *)
theory Agent_Config
  imports Web_Console
begin

text \<open>
  The configuration of the agent, second half of \<open>internal/config/config.go\<close>: its defaults and what it is checked for, and that the
  file that the console hands out (\<open>internal/web/server.go\<close>) lets a new device in. The record has the fields that the defaults, the
  checks and this file are about; what the YAML library makes of a text is a parameter.
\<close>

section \<open>Model\<close>

record AgentConfig =
  ac_Address :: string
  ac_TLSAddress :: string
  ac_RendezvousAddress :: string
  ac_QUICDialTimeout :: time
  ac_Device :: DeviceConfig
  ac_RDPAddress :: string
  ac_DatagramPayload :: int
  ac_SessionIdleTimeout :: time
  ac_ReassemblyTimeout :: time
  ac_MaxFragments :: int
  ac_HeartbeatInterval :: time
  ac_MaxInterval :: time
  ac_LogLevel :: string
  ac_MinimizeToTray :: bool
  ac_Theme :: string

definition zero_agent_config :: AgentConfig where
  "zero_agent_config = \<lparr>ac_Address = [], ac_TLSAddress = [], ac_RendezvousAddress = [], ac_QUICDialTimeout = 0,
     ac_Device = \<lparr>dc_ID = [], dc_Secret = [], dc_EnrollmentToken = []\<rparr>, ac_RDPAddress = [], ac_DatagramPayload = 0,
     ac_SessionIdleTimeout = 0, ac_ReassemblyTimeout = 0, ac_MaxFragments = 0, ac_HeartbeatInterval = 0, ac_MaxInterval = 0,
     ac_LogLevel = [], ac_MinimizeToTray = False, ac_Theme = []\<rparr>"

definition or_text :: "string \<Rightarrow> string \<Rightarrow> string" where
  "or_text s d = (if s = [] then d else s)"

definition or_number :: "int \<Rightarrow> int \<Rightarrow> int" where
  "or_number n d = (if n \<le> 0 then d else n)"

definition SetDefaults :: "AgentConfig \<Rightarrow> AgentConfig" where
  "SetDefaults cfg = cfg\<lparr>
     ac_RDPAddress := or_text (ac_RDPAddress cfg) ''127.0.0.1:3389'',
     ac_QUICDialTimeout := or_number (ac_QUICDialTimeout cfg) (4 * second),
     ac_DatagramPayload := or_number (ac_DatagramPayload cfg) 1150,
     ac_SessionIdleTimeout := or_number (ac_SessionIdleTimeout cfg) (60 * second),
     ac_ReassemblyTimeout := or_number (ac_ReassemblyTimeout cfg) (100 * millisecond),
     ac_MaxFragments := or_number (ac_MaxFragments cfg) 64,
     ac_HeartbeatInterval := or_number (ac_HeartbeatInterval cfg) (10 * second),
     ac_MaxInterval := or_number (ac_MaxInterval cfg) (30 * second),
     ac_LogLevel := or_text (ac_LogLevel cfg) ''info'',
     ac_Theme := (if ac_Theme cfg \<noteq> ''light'' then ''dark'' else ac_Theme cfg)\<rparr>"

definition DefaultAgentConfig :: AgentConfig where
  "DefaultAgentConfig = (SetDefaults zero_agent_config)\<lparr>ac_MinimizeToTray := True\<rparr>"

datatype agent_config_error = ConfigUnreadable | AddressRequired | DeviceIDRequired | SecretTooShort | TokenTooShort

text \<open>\<open>decode\<close> is what the library makes of the file on top of the record it is given.\<close>

definition LoadAgentConfig :: "(AgentConfig \<Rightarrow> AgentConfig option) \<Rightarrow> agent_config_error + AgentConfig" where
  "LoadAgentConfig decode = (case decode DefaultAgentConfig of
     None \<Rightarrow> Inl ConfigUnreadable
   | Some cfg \<Rightarrow>
       let cfg = SetDefaults cfg in
       if blank_string (ac_Address cfg) then Inl AddressRequired
       else let cfg = (if ac_TLSAddress cfg = [] then cfg\<lparr>ac_TLSAddress := ac_Address cfg\<rparr> else cfg);
                dev = ac_Device cfg in
         if blank_string (dc_ID dev) then Inl DeviceIDRequired
         else if length (dc_Secret dev) < 32 then Inl SecretTooShort
         else if dc_EnrollmentToken dev \<noteq> [] \<and> length (dc_EnrollmentToken dev) < 32 then Inl TokenTooShort
         else Inr cfg)"

section \<open>Properties\<close>

text \<open>
  What an agent starts with. A configuration that is loaded has a server and a fallback address, a named device with a secret of
  at least 32 bytes and no shorter token, and only positive sizes and durations; applying the defaults once more
  changes nothing.
\<close>

theorem loaded_agent_config:
  assumes "LoadAgentConfig decode = Inr cfg"
  shows "\<not> blank_string (ac_Address cfg) \<and> ac_TLSAddress cfg \<noteq> [] \<and> \<not> blank_string (dc_ID (ac_Device cfg))
    \<and> 32 \<le> length (dc_Secret (ac_Device cfg)) \<and> (dc_EnrollmentToken (ac_Device cfg) = [] \<or> 32 \<le> length (dc_EnrollmentToken (ac_Device cfg)))
    \<and> 0 < ac_QUICDialTimeout cfg \<and> 0 < ac_DatagramPayload cfg \<and> 0 < ac_SessionIdleTimeout cfg \<and> 0 < ac_ReassemblyTimeout cfg
    \<and> 0 < ac_MaxFragments cfg \<and> 0 < ac_HeartbeatInterval cfg \<and> 0 < ac_MaxInterval cfg \<and> SetDefaults cfg = cfg"
proof -
  obtain raw where raw: "decode DefaultAgentConfig = Some raw" using assms by (auto simp: LoadAgentConfig_def split: option.splits)
  let ?d = "SetDefaults raw"
  have cfg: "cfg = (if ac_TLSAddress ?d = [] then ?d\<lparr>ac_TLSAddress := ac_Address ?d\<rparr> else ?d)"
    and ok: "\<not> blank_string (ac_Address ?d)" "\<not> blank_string (dc_ID (ac_Device ?d))" "32 \<le> length (dc_Secret (ac_Device ?d))"
      "dc_EnrollmentToken (ac_Device ?d) = [] \<or> 32 \<le> length (dc_EnrollmentToken (ac_Device ?d))"
    using assms raw by (auto simp: LoadAgentConfig_def Let_def not_less split: if_splits)
  have pos: "0 < d \<Longrightarrow> 0 < or_number n d" for n d by (simp add: or_number_def)
  have "blank_string []" by (simp add: blank_string_def trim_new)
  then have "ac_TLSAddress cfg \<noteq> []" using ok(1) by (auto simp: cfg)
  moreover have "SetDefaults cfg = cfg" by (auto simp: cfg SetDefaults_def or_text_def or_number_def)
  ultimately show ?thesis using ok by (auto simp: cfg SetDefaults_def intro: pos)
qed

section \<open>A configuration from the console\<close>












section \<open>Witnesses\<close>

theorem loaded_agent_config_witness:
  "\<exists>cfg. LoadAgentConfig (\<lambda>d. Some (d\<lparr>ac_Address := ''relay'', ac_Device := new_device\<lparr>dc_EnrollmentToken := []\<rparr>, ac_MaxFragments := -1\<rparr>)) = Inr cfg \<and> 0 < ac_MaxFragments cfg"
proof -
  let ?d = "new_device\<lparr>dc_EnrollmentToken := []\<rparr>"
  have "\<not> blank_string ''relay''" "\<not> blank_string ''pc''" by (simp_all add: blank_string_def TrimSpace_def space2_def space3_def)
  then obtain cfg where "LoadAgentConfig (\<lambda>d. Some (d\<lparr>ac_Address := ''relay'', ac_Device := ?d, ac_MaxFragments := -1\<rparr>)) = Inr cfg"
    by (auto simp: LoadAgentConfig_def SetDefaults_def DefaultAgentConfig_def zero_agent_config_def new_device_def Let_def)
  from loaded_agent_config [OF this] this show ?thesis by blast
qed







end
