(* ===== verification/Switched_Off.thy ===== *)
theory Switched_Off
  imports Web_Console
begin

text \<open>
  What the switch of the console (\<open>internal/web/server.go\<close>) that disables a device achieves on the relay
  (\<open>internal/relay/agent_manager.go\<close>): an invariant of every later run of the agent manager keeps
  the device out, as long as the console does not let it in again and no handshake was under way.
\<close>

section \<open>The row of the device\<close>

definition off :: "string \<Rightarrow> DB \<Rightarrow> bool" where
  "off dev db \<longleftrightarrow> (\<exists>r. fmlookup (agents db) dev = Some r \<and> \<not> a_Enabled r)"

text \<open>Statements that do not let the device in again: they neither enable, delete nor enrol it.\<close>

definition stays_off :: "string \<Rightarrow> db_event \<Rightarrow> bool" where
  "stays_off dev x \<longleftrightarrow> (case x of DbEnabled d on \<Rightarrow> d = dev \<longrightarrow> \<not> on | DbDeleteAgent d \<Rightarrow> d \<noteq> dev
     | DbEnroll clock a tok now \<Rightarrow> a_DeviceID a \<noteq> dev | _ \<Rightarrow> True)"

lemma off_update:
  assumes "off dev db" "\<And>r. a_Enabled (g r) = a_Enabled r"
  shows "off dev (update_agent d g db)"
proof -
  obtain r where r: "fmlookup (agents db) dev = Some r" "\<not> a_Enabled r" using assms(1) by (auto simp: off_def)
  have "\<not> a_Enabled (g r)" using r(2) assms(2) [of r] by simp
  then show ?thesis using r by (cases "fmlookup (agents db) d"; cases "d = dev") (simp_all add: off_def update_agent_def)
qed

lemma off_Enroll:
  assumes "off dev db" "a_DeviceID a \<noteq> dev" "CreateAgentWithEnrollment clock a tok now db = Inr db'"
  shows "off dev db'"
  using assms by (auto simp: off_def CreateAgentWithEnrollment_def split: option.splits if_splits)

lemma off_Enabled: "off dev db \<Longrightarrow> d = dev \<longrightarrow> \<not> on \<Longrightarrow> off dev (SetAgentEnabled d on db)"
  by (auto simp: off_def SetAgentEnabled_def update_agent_def split: option.split)

lemma db_step_off:
  assumes "off dev db" "stays_off dev x"
  shows "off dev (fst (db_step x db))"
proof (cases x)
  case (DbEnroll clock a tok now)
  then show ?thesis using assms off_Enroll by (auto simp: stays_off_def split: sum.splits)
next
  case (DbRegistration clock d host port)
  then show ?thesis using off_update [OF assms(1)] by (simp add: UpdateAgentRegistration_def)
next
  case (DbLastSeen d t)
  then show ?thesis using off_update [OF assms(1)] by (simp add: UpdateAgentLastSeen_def)
next
  case (DbEnabled d on)
  then show ?thesis using off_Enabled [OF assms(1)] assms(2) by (simp add: stays_off_def)
qed (use assms in \<open>auto simp: stays_off_def off_def UpsertEnrollmentInvitation_def UpdateEnrollmentInvitationExpiry_def
      DeleteEnrollmentInvitation_def DeleteAgent_def Let_def split: sum.splits option.splits\<close>)

lemma db_move_off:
  assumes "db_move e m db db'" "off dev db" "\<And>c. coming_in (phase_of m c) \<noteq> Some dev"
  shows "off dev db'"
  using assms(1) unfolding db_move_def
proof (elim disjE exE conjE)
  fix c a host port
  assume a: "coming_in (phase_of m c) = Some (au_DeviceID a)"
    and en: "CreateAgentWithEnrollment (e_now e) (new_row a host port) (au_Token a) (e_now e) db = Inr db'"
  have "a_DeviceID (new_row a host port) \<noteq> dev" using assms(3) [of c] a by (auto simp: new_row_def)
  then show ?thesis using off_Enroll [OF assms(2) _ en] by blast
qed (use assms(2) in \<open>auto simp: UpdateAgentRegistration_def UpdateAgentLastSeen_def intro: off_update\<close>)

section \<open>The connections\<close>

text \<open>A device that is off does not begin a handshake that leads anywhere.\<close>

lemma conn_step_coming:
  "conn_step e ev c m p q \<Longrightarrow> coming_in q = Some dev \<Longrightarrow> am_db m = Some db \<Longrightarrow> off dev db \<Longrightarrow> coming_in p = Some dev"
  by (induction rule: conn_step.induct) (auto simp: off_def not_disabled_def stored_secret_def)

text \<open>The manager keeps its database.\<close>

lemma enroll_controller_keeps: "enroll_controller e a host (Some db) = Some dbo \<Longrightarrow> dbo \<noteq> None"
  by (auto simp: enroll_controller_def split: if_splits)

lemma on_message_keeps:
  assumes "am_db m = Some db"
  shows "am_db (fst (on_message e c msg m)) \<noteq> None"
proof (cases "phase_of m c")
  case (AwaitInit a)
  have "am_db (fst (on_message e c msg m)) = am_db m
      \<or> (\<exists>dbo. enroll_controller e a (m_Hostname msg) (am_db m) = Some dbo \<and> am_db (fst (on_message e c msg m)) = dbo)"
    using AwaitInit by (auto simp: on_message_def controller_start_def register_start_def refuse_def controller_connect_db
        split: option.split prod.split sum.split)
  then show ?thesis using assms enroll_controller_keeps by auto
qed (use assms in \<open>simp_all add: on_message_def auth_done_db split: prod.split option.split\<close>)

lemma on_continue_keeps: "am_db m = Some db \<Longrightarrow> am_db (fst (on_continue e c m)) \<noteq> None"
  using drop_online_db [of c _ m]
  by (auto simp: on_continue_def register_persist_def register_listen_def register_peer_def refuse_def
      unregisterOnlineAgent_def Let_def split: phase.split option.split)

lemma manager_step_keeps:
  assumes "am_db m = Some db"
  shows "am_db (fst (manager_step (e, ev) m)) \<noteq> None"
  using assms on_message_keeps [OF assms] on_continue_keeps [OF assms]
  by (cases ev) (auto simp: case_prod_unfold on_hangup_def unregister_peer_def end_controller_def accept_connection_def
      on_relay_def on_tcp_def on_stream_def set_streams_def DisconnectDevice_def UpdateAccessPolicy_def
      ReleaseDevicePort_def manager_Close_def split: phase.split option.split prod.split)

text \<open>A device comes online only by the registration of a connection that is bound for it.\<close>

lemma controller_connect_listed:
  "agentsByDevice (fst (controller_connect e c a msg tc m)) = agentsByDevice m"
  by (auto simp: controller_connect_def end_controller_def Let_def split: prod.split sum.split)

lemma on_message_listed: "agentsByDevice (fst (on_message e c msg m)) = agentsByDevice m"
  by (auto simp: on_message_def auth_done_def refuse_def controller_start_def controller_connect_listed register_start_def
      split: phase.split prod.split option.split auth_step.split sum.split)

lemma on_continue_listed:
  assumes "fmlookup (agentsByDevice m) dev = None" "fmlookup (agentsByDevice (fst (on_continue e c m))) dev \<noteq> None"
  shows "\<exists>a msg s. phase_of m c = Bound a msg \<and> fmlookup (am_sessions m) c = Some s \<and> as_DeviceID s = dev"
  using assms
  by (auto simp: on_continue_def register_persist_def register_listen_def register_peer_def refuse_def
      unregisterOnlineAgent_def drop_online_def Let_def split: phase.splits option.splits if_splits)

lemma manager_step_listed:
  assumes "fmlookup (agentsByDevice m) dev = None" "fmlookup (agentsByDevice (fst (manager_step (e, ev) m))) dev \<noteq> None"
  shows "\<exists>c a msg s. phase_of m c = Bound a msg \<and> fmlookup (am_sessions m) c = Some s \<and> as_DeviceID s = dev"
proof (cases ev)
  case (MContinue c)
  then show ?thesis using on_continue_listed [OF assms(1), of e c] assms(2) by (auto simp: case_prod_unfold)
qed (use assms on_message_listed in \<open>auto simp: case_prod_unfold on_hangup_def unregister_peer_def end_controller_def
      accept_connection_def on_relay_def on_tcp_def on_stream_def set_streams_def DisconnectDevice_def UpdateAccessPolicy_def
      ReleaseDevicePort_def manager_Close_def split: phase.splits option.splits prod.splits if_splits\<close>)

section \<open>The invariant\<close>

definition barred :: "string \<Rightarrow> AgentManager \<Rightarrow> bool" where
  "barred dev m \<longleftrightarrow> manager_ok m \<and> (\<exists>db. am_db m = Some db \<and> off dev db)
     \<and> (\<forall>c. coming_in (phase_of m c) \<noteq> Some dev) \<and> fmlookup (agentsByDevice m) dev = None"

definition harmless :: "string \<Rightarrow> env \<times> manager_event \<Rightarrow> bool" where
  "harmless dev ev \<longleftrightarrow> (\<forall>x. snd ev = MConsole x \<longrightarrow> stays_off dev x)"

lemma barred_step:
  assumes "barred dev m" "harmless dev ev"
  shows "barred dev (fst (manager_step ev m))"
proof -
  obtain e x where ev: "ev = (e, x)" by fastforce
  let ?m = "fst (manager_step (e, x) m)"
  obtain db where db: "am_db m = Some db" "off dev db" using assms(1) by (auto simp: barred_def)
  have ok: "manager_ok m" and idle: "\<And>c. coming_in (phase_of m c) \<noteq> Some dev"
    and out: "fmlookup (agentsByDevice m) dev = None" using assms(1) by (simp_all add: barred_def)
  obtain db' where db': "am_db ?m = Some db'" using manager_step_keeps [OF db(1), of e x] by blast
  have "off dev db'"
  proof (cases "\<exists>y. x = MConsole y")
    case True
    then show ?thesis using assms(2) db db' db_step_off by (auto simp: harmless_def ev)
  next
    case False
    then have "db_move e m db db'" using manager_db [OF db(1) db'] by blast
    then show ?thesis using db_move_off db(2) idle by blast
  qed
  moreover have "coming_in (phase_of ?m c) \<noteq> Some dev" for c
    using conn_step_coming [OF manager_step_conn [of e x c m] _ db] idle by blast
  moreover have "fmlookup (agentsByDevice ?m) dev = None"
  proof (rule ccontr)
    assume "fmlookup (agentsByDevice ?m) dev \<noteq> None"
    from manager_step_listed [OF out this] obtain c a msg s where
      b: "phase_of m c = Bound a msg" "fmlookup (am_sessions m) c = Some s" "as_DeviceID s = dev" by blast
    have "\<exists>s. fmlookup (am_sessions m) c = Some s \<and> as_DeviceID s = au_DeviceID a"
      using ok b(1) by (auto simp: manager_ok_def online_ok_def sessions_wf_def)
    then show False using idle [of c] b by simp
  qed
  moreover have "manager_ok ?m" using manager_step_ok [OF ok, of "(e, x)"] .
  ultimately show ?thesis using db' by (simp add: barred_def ev)
qed

interpretation off_runs: event_system manager_step manager_run "harmless dev" "barred dev" for dev
  by unfold_locales (auto simp: barred_step case_prod_unfold)

section \<open>Signing in\<close>

lemma off_refused:
  assumes "off dev db" "dc_ID cfg = dev" "dev \<noteq> []"
  shows "\<exists>msg sent err. sign_in cfg addr g e1 (Some db) e2 db2 = (Refuse msg, sent, Inl err)"
proof -
  have "\<exists>msg. relay_first cfg e1 addr (Some db) g = Refuse msg"
    using assms by (auto simp: off_def relay_first_def auth_begin_def auth_hello_def message_def GetAgentByDeviceID_def)
  then obtain msg where "relay_first cfg e1 addr (Some db) g = Refuse msg" by blast
  moreover from this have "m_Type msg = MsgTypeError" "m_Code msg \<noteq> 428"
    using refuse_codes(3) [of e1 addr "auth_hello cfg" "Some db" g msg] by (simp_all add: relay_first_def)
  ultimately show ?thesis
    by (simp add: sign_in_def Let_def relay_second_def authenticateControl_def relay_answer_def auth_verdict_def)
qed

lemma disconnected_not_online:
  assumes "\<And>k. fmlookup (agentsByDevice m) dev = Some k \<Longrightarrow> fmlookup (am_sessions m) k \<noteq> None"
  shows "fmlookup (agentsByDevice (fst (DisconnectDevice e dev m))) dev = None"
  using assms by (auto simp: DisconnectDevice_def online_session_def update_session_def split: option.splits)

section \<open>Properties\<close>

text \<open>
  C12: A device that the console switches off is out. In any state of the relay, when the console's request
  is done, the device is not online any more and no sign-in in its name succeeds, whatever secret or invitation it
  brings. If in addition no handshake or registration of the device was under way at that moment, this
  stays so in every run of the relay that follows, whatever all connections and the console do, until the console
  enables or deletes the device: the device does not come online, no sign-in in its name succeeds,
  and no connection even gets past its handshake for it. A connection on which the device acts as a controller is not ended.
\<close>

theorem switched_off_is_out:
  assumes "handleDeviceAction e POST (dev @ ''/toggle'') (Some False) c = (c', Done, out)" "CHR ''/'' \<notin> set dev"
    "wc_manager c = fst (manager_run es (NewAgentManager now cfg every acc dbo pm acl))"
    "console_db c = Some db" "GetAgentByDeviceID dev db \<noteq> None"
  shows "fmlookup (agentsByDevice (wc_manager c')) dev = None
    \<and> (\<forall>device addr g e1 e2 db2. dc_ID device = dev \<longrightarrow>
        (\<exists>msg sent err. sign_in device addr g e1 (console_db c') e2 db2 = (Refuse msg, sent, Inl err)))
    \<and> (\<forall>evs m. (\<forall>conn. coming_in (phase_of (wc_manager c) conn) \<noteq> Some dev) \<and> list_all (harmless dev) evs
        \<and> m = fst (manager_run evs (wc_manager c')) \<longrightarrow>
        fmlookup (agentsByDevice m) dev = None \<and> (\<forall>conn. coming_in (phase_of m conn) \<noteq> Some dev)
        \<and> (\<forall>device addr g e1 e2 db2. dc_ID device = dev \<longrightarrow>
            (\<exists>msg sent err. sign_in device addr g e1 (am_db m) e2 db2 = (Refuse msg, sent, Inl err))))"
proof -
  have "split_path (dev @ ''/toggle'') = [dev, ''toggle'']"
    using assms(2) by (induction dev) (auto simp: eval_nat_numeral)
  then have dev: "dev \<noteq> []" and t: "handle_toggle e dev (Some False) c = (c', Done, out)"
    using assms(1) by (auto simp: handleDeviceAction_def Let_def split: if_splits)
  let ?m = "(wc_manager c)\<lparr>am_db := Some (SetAgentEnabled dev False db)\<rparr>"
  have step1: "fst (manager_step (e, MConsole (DbEnabled dev False)) (wc_manager c)) = ?m"
    using assms(4) by (simp add: console_db_def)
  have m': "wc_manager c' = fst (DisconnectDevice e dev ?m)"
    using t assms(4) by (auto simp: handle_toggle_def on_db_def console_db_def Let_def split: if_splits)
  have step2: "fst (manager_step (e, MDisconnect dev) ?m) = wc_manager c'" by (simp add: m')
  have ok0: "manager_ok (wc_manager c)" unfolding assms(3) by (rule run_manager_ok)
  have ok1: "manager_ok ?m" using manager_step_ok [OF ok0, of "(e, MConsole (DbEnabled dev False))"] step1 by metis
  have ok2: "manager_ok (wc_manager c')" using manager_step_ok [OF ok1, of "(e, MDisconnect dev)"] step2 by metis
  have "am_db (wc_manager c') = Some (SetAgentEnabled dev False db)"
    unfolding m' by (simp add: DisconnectDevice_def update_session_def split: option.split prod.split)
  moreover have off: "off dev (SetAgentEnabled dev False db)"
    using assms(5) by (auto simp: off_def SetAgentEnabled_def update_agent_def GetAgentByDeviceID_def)
  ultimately have db: "am_db (wc_manager c') = Some (SetAgentEnabled dev False db)" "off dev (SetAgentEnabled dev False db)"
    by blast+
  have gone: "fmlookup (agentsByDevice (wc_manager c')) dev = None"
    unfolding m'
  proof (rule disconnected_not_online)
    fix k assume "fmlookup (agentsByDevice ?m) dev = Some k"
    then show "fmlookup (am_sessions ?m) k \<noteq> None"
      using ok1 by (fastforce simp: manager_ok_def online_ok_def table_wf_def)
  qed
  have phases: "phase_of (wc_manager c') conn = phase_of (wc_manager c) conn" for conn
    unfolding m' by (rule phase_of_cong) (simp add: DisconnectDevice_def split: option.split)
  have later: "barred dev m" if "\<forall>conn. coming_in (phase_of (wc_manager c) conn) \<noteq> Some dev"
    "list_all (harmless dev) evs" "m = fst (manager_run evs (wc_manager c'))" for evs m
    unfolding that(3) using that(1) ok2 db gone phases by (intro off_runs.run_good [OF _ that(2)]) (simp add: barred_def)
  have refused: "\<exists>msg sent err. sign_in device addr g e1 (am_db m) e2 db2 = (Refuse msg, sent, Inl err)"
    if "am_db m = Some db1" "off dev db1" "dc_ID device = dev" for m db1 device addr g e1 e2 db2
    unfolding that(1) by (rule off_refused [OF that(2,3) dev])
  have "\<exists>msg sent err. sign_in device addr g e1 (am_db m) e2 db2 = (Refuse msg, sent, Inl err)"
    if "\<forall>conn. coming_in (phase_of (wc_manager c) conn) \<noteq> Some dev" "list_all (harmless dev) evs"
      "m = fst (manager_run evs (wc_manager c'))" "dc_ID device = dev" for evs m device addr g e1 e2 db2
    using later [OF that(1-3)] refused [OF _ _ that(4)] unfolding barred_def by blast
  moreover have "\<exists>msg sent err. sign_in device addr g e1 (console_db c') e2 db2 = (Refuse msg, sent, Inl err)"
    if "dc_ID device = dev" for device addr g e1 e2 db2
    unfolding console_db_def by (rule refused [OF db that])
  moreover have "fmlookup (agentsByDevice m) dev = None" "coming_in (phase_of m conn) \<noteq> Some dev"
    if "\<forall>conn. coming_in (phase_of (wc_manager c) conn) \<noteq> Some dev" "list_all (harmless dev) evs"
      "m = fst (manager_run evs (wc_manager c'))" for evs m conn
    using later [OF that] unfolding barred_def by blast+
  ultimately show ?thesis using gone by (intro conjI allI impI) simp_all
qed

text \<open>In the witness the device tries to sign in and to register after it was switched off.\<close>

theorem switched_off_is_out_witness:
  "\<exists>c'. handleDeviceAction client_env POST (''pc'' @ ''/toggle'') (Some False) sample_console = (c', Done, [])
    \<and> fmlookup (agentsByDevice (fst (manager_run (sample_handshake ''pc'' 0) (wc_manager c')))) ''pc'' = None"
proof -
  have "handleDeviceAction client_env POST (''pc'' @ ''/toggle'') (Some False) sample_console = handle_toggle client_env ''pc'' (Some False) sample_console"
    by (simp add: handleDeviceAction_def Let_def)
  also have "\<exists>c'. \<dots> = (c', Done, [])" by (simp add: handle_toggle_def Let_def client_env_def)
  finally obtain c' where r: "handleDeviceAction client_env POST (''pc'' @ ''/toggle'') (Some False) sample_console = (c', Done, [])" by blast
  have m: "wc_manager sample_console = fst (manager_run [] sample_manager)" by (simp add: sample_console_def)
  have row: "GetAgentByDeviceID ''pc'' sample_db \<noteq> None" by (simp add: GetAgentByDeviceID_def sample_db_def)
  have idle: "\<forall>conn. coming_in (phase_of (wc_manager sample_console) conn) \<noteq> Some ''pc''"
    by (simp add: sample_console_def sample_manager_def)
  have ok: "list_all (harmless ''pc'') (sample_handshake ''pc'' 0)"
    by (simp add: sample_handshake_def harmless_def)
  have "CHR ''/'' \<notin> set ''pc''" by simp
  note out = switched_off_is_out [OF r this m [unfolded sample_manager_def] sample_console_db row]
  have "fmlookup (agentsByDevice (fst (manager_run (sample_handshake ''pc'' 0) (wc_manager c')))) ''pc'' = None"
    using out [THEN conjunct2, THEN conjunct2, rule_format, of "sample_handshake ''pc'' 0", OF conjI [OF idle conjI [OF ok refl]]]
    by (rule conjunct1)
  then show ?thesis using r by blast
qed

end
