(* ===== verification/Log_Hub.thy ===== *)
theory Log_Hub
  imports Prelude "HOL-Library.Sublist"
begin

text \<open>
  The log that the console shows, \<open>internal/web/logs.go\<close>: the last entries, and a channel with 50 places for each reader. A channel is a
  number, and its contents are a list; channels are numbered as they are made.
\<close>

section \<open>Model\<close>

record LogEntry =
  le_Timestamp :: string
  le_Message :: string

record LogHub =
  history :: "LogEntry list"
  maxSize :: nat
  log_clients :: "(nat, LogEntry list) fmap"
  log_next :: nat

definition channel_size :: nat where "channel_size = 50"

definition NewLogHub :: "nat \<Rightarrow> LogHub" where
  "NewLogHub n = \<lparr>history = [], maxSize = n, log_clients = fmempty, log_next = 0\<rparr>"

text \<open>The hub of the program.\<close>

definition Hub :: LogHub where "Hub = NewLogHub 200"

text \<open>A full channel misses the entry.\<close>

definition offer_entry :: "LogEntry \<Rightarrow> LogEntry list \<Rightarrow> LogEntry list" where
  "offer_entry x q = (if length q < channel_size then q @ [x] else q)"

definition write_log :: "LogEntry \<Rightarrow> LogHub \<Rightarrow> LogHub" where
  "write_log x h =
     (let kept = (if length (history h) \<ge> maxSize h then tl (history h) else history h)
      in h\<lparr>history := kept @ [x], log_clients := fmmap (offer_entry x) (log_clients h)\<rparr>)"

definition Subscribe :: "LogHub \<Rightarrow> LogHub \<times> nat \<times> LogEntry list" where
  "Subscribe h = (h\<lparr>log_clients := fmupd (log_next h) [] (log_clients h), log_next := log_next h + 1\<rparr>, log_next h, history h)"

definition Unsubscribe :: "nat \<Rightarrow> LogHub \<Rightarrow> LogHub" where
  "Unsubscribe ch h = h\<lparr>log_clients := fmdrop ch (log_clients h)\<rparr>"

text \<open>The loop of \<open>handleLogs\<close> takes an entry out of its channel.\<close>

definition take_entry :: "nat \<Rightarrow> LogHub \<Rightarrow> LogHub \<times> LogEntry option" where
  "take_entry ch h = (case fmlookup (log_clients h) ch of
     Some (x # q) \<Rightarrow> (h\<lparr>log_clients := fmupd ch q (log_clients h)\<rparr>, Some x)
   | _ \<Rightarrow> (h, None))"

section \<open>Runs\<close>

datatype log_event = LWrite LogEntry | LSubscribe | LUnsubscribe nat | LTake nat

text \<open>\<open>shown\<close> is what each reader has put on its page, first the copy of the history.\<close>

type_synonym log_state = "LogHub \<times> (nat \<Rightarrow> LogEntry list)"

fun log_step :: "log_event \<Rightarrow> log_state \<Rightarrow> log_state" where
  "log_step (LWrite x) (h, shown) = (write_log x h, shown)"
| "log_step LSubscribe (h, shown) = (case Subscribe h of (h, ch, copy) \<Rightarrow> (h, shown(ch := copy)))"
| "log_step (LUnsubscribe ch) (h, shown) = (Unsubscribe ch h, shown)"
| "log_step (LTake ch) (h, shown) = (case take_entry ch h of
     (h, Some x) \<Rightarrow> (h, shown(ch := shown ch @ [x])) | (h, None) \<Rightarrow> (h, shown))"

definition log_run :: "log_event list \<Rightarrow> log_state" where
  "log_run es = fold log_step es (Hub, \<lambda>_. [])"

text \<open>Everything that was written.\<close>

definition written :: "log_event list \<Rightarrow> LogEntry list" where
  "written es = concat (map (\<lambda>e. case e of LWrite x \<Rightarrow> [x] | _ \<Rightarrow> []) es)"

text \<open>What is true of the log \<open>l\<close> so far. A reader sees entries of the log in their order, and its channel is behind what it has shown.\<close>

definition last_entries :: "nat \<Rightarrow> 'a list \<Rightarrow> 'a list" where
  "last_entries n xs = drop (length xs - n) xs"

definition log_ok :: "LogEntry list \<Rightarrow> log_state \<Rightarrow> bool" where
  "log_ok l st = (case st of (h, shown) \<Rightarrow>
     maxSize h = 200 \<and> history h = last_entries 200 l \<and> fset (fmdom (log_clients h)) \<subseteq> {..<log_next h}
     \<and> (\<forall>ch q. fmlookup (log_clients h) ch = Some q \<longrightarrow> length q \<le> channel_size \<and> subseq (shown ch @ q) l)
     \<and> (\<forall>ch. subseq (shown ch) l))"

lemma last_entries_snoc:
  "0 < n \<Longrightarrow> last_entries n (xs @ [x]) = (if length (last_entries n xs) \<ge> n then tl (last_entries n xs) else last_entries n xs) @ [x]"
  by (auto simp: last_entries_def tl_drop drop_Suc [symmetric] Suc_diff_le not_le min_def)

lemma subseq_snoc: "subseq xs ys \<Longrightarrow> subseq xs (ys @ [y])" "subseq xs ys \<Longrightarrow> subseq (xs @ [y]) (ys @ [y])"
  by (metis append_Nil2 list_emb_append_mono list_emb_Nil) (simp add: subseq_append)

lemma offer_entry_bounded: "length q \<le> channel_size \<Longrightarrow> length (offer_entry x q) \<le> channel_size"
  by (simp add: offer_entry_def)

lemma log_step_ok:
  assumes "log_ok l st"
  shows "log_ok (l @ written [e]) (log_step e st)"
proof -
  obtain h shown where st: "st = (h, shown)" by (cases st)
  show ?thesis
  proof (cases e)
    case (LWrite x)
    have "subseq (shown ch @ offer_entry x q) (l @ [x])" if "subseq (shown ch @ q) l" for ch q
      using that subseq_snoc(2) [OF that(1), of x] by (auto simp: offer_entry_def intro: subseq_snoc(1))
    then show ?thesis using assms LWrite last_entries_snoc [of 200 l x]
      by (auto simp: st log_ok_def write_log_def Let_def written_def intro: subseq_snoc(1) offer_entry_bounded)
  next
    case LSubscribe
    have "subseq (last_entries 200 l) l" by (simp add: last_entries_def suffix_drop suffix_imp_subseq)
    then show ?thesis using assms LSubscribe by (auto simp: st log_ok_def Subscribe_def written_def)
  next
    case (LUnsubscribe ch)
    then show ?thesis using assms by (auto simp: st log_ok_def Unsubscribe_def written_def)
  next
    case (LTake ch)
    show ?thesis
    proof (cases "take_entry ch h")
      case (Pair h' r)
      show ?thesis
      proof (cases r)
        case None
        then show ?thesis using assms LTake Pair by (auto simp: st written_def take_entry_def split: option.splits list.splits)
      next
        case (Some x)
        then obtain q where q: "fmlookup (log_clients h) ch = Some (x # q)" "h' = h\<lparr>log_clients := fmupd ch q (log_clients h)\<rparr>"
          using Pair by (auto simp: take_entry_def split: option.splits list.splits)
        moreover have "\<forall>ch q. fmlookup (log_clients h) ch = Some q \<longrightarrow> length q \<le> channel_size \<and> subseq (shown ch @ q) l"
          using assms by (simp add: st log_ok_def)
        ultimately have "length (x # q) \<le> channel_size" "subseq (shown ch @ x # q) l" by blast+
        moreover have "ch < log_next h" using assms fmdomI [OF q(1)] by (auto simp: st log_ok_def)
        moreover have "subseq (shown ch @ [x]) l" using \<open>subseq (shown ch @ x # q) l\<close>
          by (metis append.assoc append_Cons append_Nil prefixI prefix_imp_subseq subseq_order.order_trans)
        ultimately show ?thesis using assms LTake Pair Some q(2) by (auto simp: st log_ok_def written_def)
      qed
    qed
  qed
qed

text \<open>
  The console shows the log. Whatever readers come and go, the hub keeps the last 200 entries; every reader is shown entries of
  the log in their order and none twice, first the kept ones, and at most 50 wait for it.
\<close>

theorem log_shown:
  assumes "log_run es = (h, shown)"
  shows "history h = last_entries 200 (written es) \<and> subseq (shown ch) (written es)
    \<and> (case fmlookup (log_clients h) ch of Some q \<Rightarrow> length q \<le> channel_size \<and> subseq (shown ch @ q) (written es) | None \<Rightarrow> True)"
proof -
  have run: "log_ok l st \<Longrightarrow> log_ok (l @ written es) (fold log_step es st)" for l st
  proof (induction es arbitrary: l st)
    case (Cons e es)
    from Cons.IH [OF log_step_ok [OF Cons.prems, of e]] show ?case by (simp add: written_def)
  qed (simp add: written_def)
  have "log_ok [] (Hub, \<lambda>_. [])" by (simp add: log_ok_def Hub_def NewLogHub_def last_entries_def)
  from run [OF this] show ?thesis using assms by (auto simp: log_run_def log_ok_def split: option.split)
qed

theorem log_shown_witness:
  "\<exists>h shown. log_run [LWrite x, LSubscribe, LWrite y, LTake 0] = (h, shown) \<and> subseq (shown 0) [x, y] \<and> shown 0 = [x, y]"
proof -
  obtain h shown where run: "log_run [LWrite x, LSubscribe, LWrite y, LTake 0] = (h, shown)" by (metis prod.collapse)
  have "written [LWrite x, LSubscribe, LWrite y, LTake 0] = [x, y]" by (simp add: written_def)
  moreover have "shown 0 = [x, y]"
    using run by (auto simp: log_run_def Hub_def NewLogHub_def write_log_def Subscribe_def take_entry_def offer_entry_def channel_size_def)
  ultimately show ?thesis using log_shown [OF run, of 0] run by auto
qed

end
