(* ===== verification/Tcp_Proxy.thy ===== *)
theory Tcp_Proxy
  imports Prelude "HOL-Library.Sublist"
begin

text \<open>
  The proxy that joins a TCP connection and a stream, \<open>internal/tcp/proxy.go\<close>, and the one that joins two connections,
  \<open>internal/tcp/bridge.go\<close>. Two goroutines copy, one in each direction; a function waits for the first to
  end, closes both sides, and waits for the other. What a source has still to deliver is a list of chunks, each what one read
  returns, followed by its end; a run of the goroutines is a list of events, and an event that cannot happen
  changes nothing.
\<close>

section \<open>Model\<close>

datatype copy_error = ErrEOF | ErrClosed | ErrOther string

datatype direction = StreamToTCP | TCPToStream

text \<open>
  One direction: what is still to come, what has been written, the counter, and the result of the copy once it is over, where
  \<open>Some None\<close> is no error.
\<close>

record pipe =
  pi_source :: "bytes list"
  pi_written :: bytes
  pi_count :: nat
  pi_result :: "copy_error option option"

record proxy =
  px_in :: pipe
  px_out :: pipe
  px_first :: "direction option"
  px_closed :: bool

fun pipe_of :: "direction \<Rightarrow> proxy \<Rightarrow> pipe" where
  "pipe_of StreamToTCP p = px_in p"
| "pipe_of TCPToStream p = px_out p"

fun on_pipe :: "direction \<Rightarrow> (pipe \<Rightarrow> pipe) \<Rightarrow> proxy \<Rightarrow> proxy" where
  "on_pipe StreamToTCP f p = p\<lparr>px_in := f (px_in p)\<rparr>"
| "on_pipe TCPToStream f p = p\<lparr>px_out := f (px_out p)\<rparr>"

definition new_pipe :: "bytes list \<Rightarrow> pipe" where
  "new_pipe chunks = \<lparr>pi_source = chunks, pi_written = [], pi_count = 0, pi_result = None\<rparr>"

definition NewProxy :: "bytes list \<Rightarrow> bytes list \<Rightarrow> proxy" where
  "NewProxy stream tcp = \<lparr>px_in = new_pipe stream, px_out = new_pipe tcp, px_first = None, px_closed = False\<rparr>"

text \<open>A copy ends: its result goes into the channel, where the first one is remembered as such.\<close>

definition end_copy :: "direction \<Rightarrow> copy_error option \<Rightarrow> proxy \<Rightarrow> proxy" where
  "end_copy d r p = (on_pipe d (\<lambda>q. q\<lparr>pi_result := Some r\<rparr>) p)\<lparr>px_first := (case px_first p of None \<Rightarrow> Some d | f \<Rightarrow> f)\<rparr>"

text \<open>
  \<open>Copied\<close> is a read and a write of all of it, \<open>WriteFails\<close> a read and a write of which only some bytes get
  through, \<open>SourceEnds\<close> the end of the source, \<open>ReadFails\<close> a read that fails. \<open>CloseBoth\<close> is \<open>Close\<close> once the first copy
  is over, after which the other goroutine finds its connections closed.
\<close>

datatype proxy_event = Copied direction | WriteFails direction nat copy_error | SourceEnds direction
  | ReadFails direction copy_error | CloseBoth | FindsClosed direction

definition next_chunk :: "nat \<Rightarrow> pipe \<Rightarrow> pipe" where
  "next_chunk n q = (case pi_source q of
     [] \<Rightarrow> q
   | x # xs \<Rightarrow> q\<lparr>pi_source := xs, pi_written := pi_written q @ take n x, pi_count := pi_count q + length x\<rparr>)"

definition running :: "direction \<Rightarrow> proxy \<Rightarrow> bool" where
  "running d p \<longleftrightarrow> pi_result (pipe_of d p) = None"

fun proxy_step :: "proxy_event \<Rightarrow> proxy \<Rightarrow> proxy" where
  "proxy_step (Copied d) p =
     (if running d p \<and> \<not> px_closed p \<and> pi_source (pipe_of d p) \<noteq> []
      then on_pipe d (next_chunk (length (hd (pi_source (pipe_of d p))))) p else p)"
| "proxy_step (WriteFails d n err) p =
     (if running d p \<and> pi_source (pipe_of d p) \<noteq> [] then end_copy d (Some err) (on_pipe d (next_chunk n) p) else p)"
| "proxy_step (SourceEnds d) p =
     (if running d p \<and> \<not> px_closed p \<and> pi_source (pipe_of d p) = [] then end_copy d None p else p)"
| "proxy_step (ReadFails d err) p = (if running d p then end_copy d (Some err) p else p)"
| "proxy_step CloseBoth p = (if px_first p \<noteq> None then p\<lparr>px_closed := True\<rparr> else p)"
| "proxy_step (FindsClosed d) p = (if running d p \<and> px_closed p then end_copy d (Some ErrClosed) p else p)"

definition proxy_run :: "proxy_event list \<Rightarrow> proxy \<Rightarrow> proxy" where
  "proxy_run es p = fold proxy_step es p"

definition isRealError :: "copy_error option \<Rightarrow> bool" where
  "isRealError r \<longleftrightarrow> r \<noteq> None \<and> r \<noteq> Some ErrEOF \<and> r \<noteq> Some ErrClosed"

fun other :: "direction \<Rightarrow> direction" where
  "other StreamToTCP = TCPToStream" | "other TCPToStream = StreamToTCP"

text \<open>What \<open>Run\<close> and \<open>Bridge\<close> return, once both copies are over and the sides are closed.\<close>

definition proxy_result :: "proxy \<Rightarrow> copy_error option option" where
  "proxy_result p = (case px_first p of
     None \<Rightarrow> None
   | Some d \<Rightarrow> (case (pi_result (pipe_of d p), pi_result (pipe_of (other d) p)) of
       (Some err1, Some err2) \<Rightarrow>
         if \<not> px_closed p then None
         else if isRealError err1 then Some err1 else if isRealError err2 then Some err2 else Some None
     | _ \<Rightarrow> None))"

section \<open>What arrives\<close>

text \<open>All bytes of a direction, those written and those to come, and what a copy that ended without error means.\<close>

definition pipe_ok :: "bytes \<Rightarrow> pipe \<Rightarrow> bool" where
  "pipe_ok sent q \<longleftrightarrow> prefix (pi_written q) sent \<and> length (pi_written q) \<le> pi_count q
     \<and> pi_count q + length (concat (pi_source q)) = length sent
     \<and> (pi_result q = None \<longrightarrow> sent = pi_written q @ concat (pi_source q))
     \<and> (pi_result q = Some None \<longrightarrow> pi_written q = sent)"

definition proxy_ok :: "(direction \<Rightarrow> bytes) \<Rightarrow> proxy \<Rightarrow> bool" where
  "proxy_ok sent p \<longleftrightarrow> pipe_ok (sent StreamToTCP) (px_in p) \<and> pipe_ok (sent TCPToStream) (px_out p)
     \<and> (px_first p = None \<longrightarrow> running StreamToTCP p \<and> running TCPToStream p \<and> \<not> px_closed p)
     \<and> (case px_first p of Some d \<Rightarrow> \<not> running d p | None \<Rightarrow> True)"

lemma pipe_of_on_pipe [simp]: "pipe_of d (on_pipe d' f p) = (if d = d' then f (pipe_of d p) else pipe_of d p)"
  by (cases d; cases d') simp_all

lemma on_pipe_rest [simp]: "px_first (on_pipe d f p) = px_first p" "px_closed (on_pipe d f p) = px_closed p"
  by (cases d; simp)+

lemma pipe_of_fields [simp]: "pipe_of d (p\<lparr>px_first := x\<rparr>) = pipe_of d p" "pipe_of d (p\<lparr>px_closed := y\<rparr>) = pipe_of d p"
  by (cases d; simp)+

lemma end_copy_simps [simp]:
  "pipe_of d (end_copy d' r p) = (if d = d' then (pipe_of d p)\<lparr>pi_result := Some r\<rparr> else pipe_of d p)"
  "px_first (end_copy d' r p) = (case px_first p of None \<Rightarrow> Some d' | f \<Rightarrow> f)" "px_closed (end_copy d' r p) = px_closed p"
  by (simp_all add: end_copy_def)

lemma next_chunk_result [simp]: "pi_result (next_chunk n q) = pi_result q"
  by (simp add: next_chunk_def split: list.split)

lemma proxy_ok_iff:
  "proxy_ok sent p \<longleftrightarrow> (\<forall>d. pipe_ok (sent d) (pipe_of d p))
     \<and> (px_first p = None \<longrightarrow> (\<forall>d. running d p) \<and> \<not> px_closed p)
     \<and> (case px_first p of Some d \<Rightarrow> \<not> running d p | None \<Rightarrow> True)"
proof -
  have "(\<forall>d. P d) \<longleftrightarrow> P StreamToTCP \<and> P TCPToStream" for P by (metis direction.exhaust)
  then show ?thesis by (simp add: proxy_ok_def)
qed

lemma chunk_written:
  assumes "pipe_ok sent q" "pi_result q = None" "pi_source q \<noteq> []"
  shows "pipe_ok sent (next_chunk (length (hd (pi_source q))) q)"
    and "pipe_ok sent ((next_chunk n q)\<lparr>pi_result := Some (Some err)\<rparr>)"
proof -
  obtain x xs where q: "pi_source q = x # xs" using assms(3) by (cases "pi_source q") auto
  have "sent = pi_written q @ concat (pi_source q)" "pi_count q + length (concat (pi_source q)) = length sent"
    using assms(1,2) unfolding pipe_ok_def by blast+
  then have sent: "sent = pi_written q @ x @ concat xs" and "pi_count q = length (pi_written q)" using q by simp_all
  moreover note sent
  moreover have "prefix (pi_written q @ take n x) (pi_written q @ x @ concat xs)"
    by (metis append_take_drop_id append.assoc prefixI same_prefix_prefix)
  ultimately show "pipe_ok sent (next_chunk (length (hd (pi_source q))) q)"
    "pipe_ok sent ((next_chunk n q)\<lparr>pi_result := Some (Some err)\<rparr>)"
    using q assms(2) by (simp_all add: pipe_ok_def next_chunk_def)
qed

lemma ended_pipe:
  assumes "pipe_ok sent q" "pi_result q = None" "r = None \<longrightarrow> pi_source q = []"
  shows "pipe_ok sent (q\<lparr>pi_result := Some r\<rparr>)"
  using assms by (auto simp: pipe_ok_def)

lemma proxy_step_ok:
  assumes "proxy_ok sent p"
  shows "proxy_ok sent (proxy_step e p)"
proof -
  have pipes: "pipe_ok (sent d) (pipe_of d p)" for d using assms by (simp add: proxy_ok_iff)
  have ends: "proxy_ok sent (end_copy d r p')"
    if "running d p'" "pipe_ok (sent d) ((pipe_of d p')\<lparr>pi_result := Some r\<rparr>)" "\<And>d'. d' \<noteq> d \<Longrightarrow> pipe_of d' p' = pipe_of d' p"
      "px_first p' = px_first p" "px_closed p' = px_closed p" "\<And>d. running d p' = running d p" for d r p'
    using that assms pipes by (auto simp: proxy_ok_iff running_def split: option.splits if_splits)
  show ?thesis
  proof (cases e)
    case (Copied d)
    then show ?thesis using assms chunk_written(1) [OF pipes [of d]]
      by (auto simp: proxy_ok_iff running_def split: option.splits)
  next
    case (WriteFails d n err)
    then show ?thesis using assms ends [of d "on_pipe d (next_chunk n) p" "Some err"] chunk_written(2) [OF pipes [of d]]
      by (auto simp: running_def)
  next
    case (SourceEnds d)
    then show ?thesis using assms ends [of d p None] ended_pipe [OF pipes [of d]] by (auto simp: running_def)
  next
    case (ReadFails d err)
    then show ?thesis using assms ends [of d p "Some err"] ended_pipe [OF pipes [of d]] by (auto simp: running_def)
  next
    case CloseBoth
    then show ?thesis using assms by (auto simp: proxy_ok_iff running_def split: option.splits)
  next
    case (FindsClosed d)
    then show ?thesis using assms ends [of d p "Some ErrClosed"] ended_pipe [OF pipes [of d]] by (auto simp: running_def)
  qed
qed

lemma proxy_run_ok: "proxy_ok (\<lambda>d. case d of StreamToTCP \<Rightarrow> concat a | TCPToStream \<Rightarrow> concat b) (proxy_run es (NewProxy a b))"
proof -
  have "proxy_ok sent p \<Longrightarrow> proxy_ok sent (fold proxy_step es p)" for sent p
    by (induction es arbitrary: p) (simp_all add: proxy_step_ok)
  moreover have "proxy_ok (\<lambda>d. case d of StreamToTCP \<Rightarrow> concat a | TCPToStream \<Rightarrow> concat b) (NewProxy a b)"
    by (simp add: proxy_ok_def NewProxy_def new_pipe_def pipe_ok_def running_def)
  ultimately show ?thesis by (simp add: proxy_run_def)
qed

text \<open>
  The proxy passes on what it gets. However reads, writes and failures of the two directions interleave, what is written in a
  direction is a beginning of what its source sent, the counter is between the two, and a copy that ends without an error has
  passed on everything. A proxy that returns has closed both sides.
\<close>

theorem proxy_passes_on:
  assumes "proxy_run es (NewProxy a b) = p"
  shows "prefix (pi_written (px_in p)) (concat a) \<and> prefix (pi_written (px_out p)) (concat b)
    \<and> length (pi_written (px_in p)) \<le> pi_count (px_in p) \<and> pi_count (px_in p) \<le> length (concat a)
    \<and> length (pi_written (px_out p)) \<le> pi_count (px_out p) \<and> pi_count (px_out p) \<le> length (concat b)
    \<and> (pi_result (px_in p) = Some None \<longrightarrow> pi_written (px_in p) = concat a)
    \<and> (pi_result (px_out p) = Some None \<longrightarrow> pi_written (px_out p) = concat b)
    \<and> (proxy_result p \<noteq> None \<longrightarrow> px_closed p)"
proof -
  have "pipe_ok (concat a) (px_in p)" "pipe_ok (concat b) (px_out p)"
    using proxy_run_ok [of a b es] assms by (simp_all add: proxy_ok_def)
  moreover have "proxy_result p \<noteq> None \<longrightarrow> px_closed p" by (auto simp: proxy_result_def split: option.splits if_splits)
  ultimately show ?thesis by (auto simp: pipe_ok_def)
qed

section \<open>A half close\<close>

text \<open>
  A half close cuts the other direction off. When one direction has come to its end, the write side of its destination is
  closed so that the other direction may go on; but the function then closes both connections, so what the other
  source still sends is lost, and no error is returned.
\<close>

theorem half_close_loses:
  assumes "p = proxy_run es (NewProxy a b)" "px_first p = None" "pi_source (pipe_of d p) = []" "concat (pi_source (pipe_of (other d) p)) \<noteq> []"
    "p' = proxy_run (es @ [SourceEnds d, CloseBoth, FindsClosed (other d)]) (NewProxy a b)"
  shows "proxy_result p' = Some None \<and> pi_written (pipe_of d p') = (case d of StreamToTCP \<Rightarrow> concat a | TCPToStream \<Rightarrow> concat b)
    \<and> strict_prefix (pi_written (pipe_of (other d) p')) (case d of StreamToTCP \<Rightarrow> concat b | TCPToStream \<Rightarrow> concat a)"
proof -
  have ok: "proxy_ok (\<lambda>d. case d of StreamToTCP \<Rightarrow> concat a | TCPToStream \<Rightarrow> concat b) p" using proxy_run_ok assms(1) by simp
  have r: "running d' p" "\<not> px_closed p" for d' using ok assms(2) by (simp_all add: proxy_ok_iff)
  have other: "other d \<noteq> d" "d \<noteq> other d" by (cases d; simp)+
  have p': "p' = end_copy (other d) (Some ErrClosed) ((end_copy d None p)\<lparr>px_closed := True\<rparr>)"
    using assms(1,2,3,5) r other by (simp add: proxy_run_def running_def)
  have w: "pi_written (pipe_of d' p') = pi_written (pipe_of d' p)" for d' by (simp add: p')
  have "proxy_result p' = Some None" using assms(2) other by (simp add: p' proxy_result_def isRealError_def)
  moreover have sent: "(case d' of StreamToTCP \<Rightarrow> concat a | TCPToStream \<Rightarrow> concat b) = pi_written (pipe_of d' p) @ concat (pi_source (pipe_of d' p))" for d'
    using ok r(1) [of d'] by (simp add: proxy_ok_iff pipe_ok_def running_def)
  ultimately show ?thesis using sent [of d] sent [of "other d"] assms(3,4) w [of StreamToTCP] w [of TCPToStream] by (cases d) (auto simp: strict_prefix_def)
qed

theorem proxy_passes_on_witness:
  "prefix (pi_written (px_in (proxy_run [Copied StreamToTCP, SourceEnds TCPToStream] (NewProxy [[1, 2], [3]] [])))) [1, 2, 3]"
  using proxy_passes_on [OF refl, of "[Copied StreamToTCP, SourceEnds TCPToStream]" "[[1, 2], [3]]" "[]"] by simp

theorem half_close_loses_witness:
  "proxy_result (proxy_run [Copied StreamToTCP, SourceEnds StreamToTCP, CloseBoth, FindsClosed TCPToStream] (NewProxy [[1]] [[2]])) = Some None"
proof -
  have "px_first (proxy_run [Copied StreamToTCP] (NewProxy [[1]] [[2]])) = None"
    "pi_source (pipe_of StreamToTCP (proxy_run [Copied StreamToTCP] (NewProxy [[1]] [[2]]))) = []"
    "concat (pi_source (pipe_of (other StreamToTCP) (proxy_run [Copied StreamToTCP] (NewProxy [[1]] [[2]])))) \<noteq> []"
    by (simp_all add: proxy_run_def NewProxy_def new_pipe_def next_chunk_def running_def)
  from half_close_loses [OF refl this refl] show ?thesis by simp
qed

end
