(* ===== verification/Agent_Candidates.thy ===== *)
theory Agent_Candidates
  imports Agent_Scenario
begin

text \<open>
  Which addresses the relay gives a controller for its target. The table of peers of the signaling server is written
  by the registrations of agents; over the runs of the manager it is traced back to the message that an entry comes from.
\<close>

section \<open>The table of peers\<close>

text \<open>The peer that a registration makes.\<close>

definition announced :: "CandidateInfo list \<Rightarrow> CandidateInfo list" where
  "announced cands = (case validateCandidates cands of Inr vs \<Rightarrow> vs | Inl _ \<Rightarrow> [])"

lemma HandleConnectRequest_peers: "peers (fst (HandleConnectRequest p req host rnd ok c)) = peers c"
  by (cases "generate_id c") (auto simp: HandleConnectRequest_def connect_prepare_def connect_commit_def connect_notify_def CloseSession_def
      Let_def dest: generate_id_private split: option.split sum.split)

lemma coord_peers [simp]: "peers (coord m) = peers (coordinator m)"
  by (simp add: coord_def SetAuthorizer_def)

lemma CloseSession_peers: "peers (fst (CloseSession sid cid c)) = peers c"
  by (simp add: CloseSession_def split: option.split)

lemma UnregisterPeer_peers:
  "fmlookup (peers (fst (UnregisterPeer dev w ids c))) d = Some p \<Longrightarrow> fmlookup (peers c) d = Some p"
  by (auto simp: UnregisterPeer_def Let_def split: option.splits if_splits)

lemma coordinator_parts [simp]:
  "coordinator (finish e c m) = coordinator m" "coordinator (set_phase c p m) = coordinator m"
  "coordinator (update_session c f m) = coordinator m" "coordinator (close_live e dev m) = coordinator m"
  "coordinator (set_streams c g m) = coordinator m" "coordinator (drop_online c s m) = coordinator m"
  by (auto simp: finish_def set_phase_def update_session_def close_live_def set_streams_def drop_online_def split: option.split)

lemma refuse_coordinator [simp]: "coordinator (fst (refuse e c msg m)) = coordinator m"
  by (simp add: refuse_def)

lemma auth_done_coordinator [simp]: "coordinator (fst (auth_done e c st m)) = coordinator m"
  by (simp add: auth_done_def split: auth_step.split)

lemma end_controller_peers: "peers (coordinator (fst (end_controller e c a sid tc m))) = peers (coordinator m)"
  using CloseSession_peers [of sid "au_DeviceID a" "coordinator m"]
  by (cases "CloseSession sid (au_DeviceID a) (coordinator m)") (simp add: end_controller_def)

lemma controller_connect_peers: "peers (coordinator (fst (controller_connect e c a msg tc m))) = peers (coordinator m)"
proof -
  obtain co o1 r where h: "HandleConnectRequest (Some (controller_peer c a msg)) msg (PublicHost (am_config m)) (e_rnd e)
      (e_notify e) (coord m) = (co, o1, r)" by (rule prod_cases3)
  then have "peers co = peers (coordinator m)"
    using HandleConnectRequest_peers [of "Some (controller_peer c a msg)" msg "PublicHost (am_config m)" "e_rnd e" "e_notify e" "coord m"] by simp
  then show ?thesis
    using h by (cases r) (auto simp: controller_connect_def Let_def case_prod_unfold end_controller_peers)
qed

lemma on_message_peers: "peers (coordinator (fst (on_message e c msg m))) = peers (coordinator m)"
  by (cases "phase_of m c") (auto simp: on_message_def controller_start_def register_start_def controller_connect_peers
      split: prod.split option.split sum.split)

lemma on_hangup_peers:
  "fmlookup (peers (coordinator (fst (on_hangup e c m)))) d = Some p \<Longrightarrow> fmlookup (peers (coordinator m)) d = Some p"
  by (cases "phase_of m c") (auto simp: on_hangup_def unregister_peer_def case_prod_unfold end_controller_peers intro: UnregisterPeer_peers)

text \<open>An entry that is new is made by the goroutine of a registration, from its message.\<close>

definition peer_of :: "nat \<Rightarrow> auth \<Rightarrow> ControlMessage \<Rightarrow> u16 \<Rightarrow> ActivePeer" where
  "peer_of c a msg port = \<lparr>p_DeviceID = au_DeviceID a, p_Hostname = m_Hostname msg, p_Writer = Some c,
     p_Candidates = announced (m_Candidates msg), p_PublicPort = port\<rparr>"

lemma on_continue_peers:
  assumes "fmlookup (peers (coordinator (fst (on_continue e c m)))) d = Some p" "fmlookup (peers (coordinator m)) d \<noteq> Some p"
  shows "\<exists>a msg port. phase_of m c = Listed a msg \<and> p = peer_of c a msg port \<and> d = au_DeviceID a"
proof (cases "phase_of m c")
  case (Listed a msg)
  then show ?thesis
    using assms by (auto simp: on_continue_def register_peer_def RegisterPeer_def peer_of_def announced_def split: option.splits if_splits)
qed (use assms in \<open>auto simp: on_continue_def register_persist_def register_listen_def registerOnlineAgent_def
      unregisterOnlineAgent_def Let_def split: option.splits if_splits\<close>)

lemma manager_peers:
  assumes "fmlookup (peers (coordinator (fst (manager_step (e, ev) m)))) d = Some p" "fmlookup (peers (coordinator m)) d \<noteq> Some p"
  shows "\<exists>c a msg port. ev = MContinue c \<and> phase_of m c = Listed a msg \<and> p = peer_of c a msg port \<and> d = au_DeviceID a"
proof (cases ev)
  case (MMessage c msg)
  then show ?thesis using assms on_message_peers [of e c msg m] by (simp add: case_prod_unfold)
next
  case (MContinue c)
  then show ?thesis using assms on_continue_peers [of e c m d p] by (simp add: case_prod_unfold)
next
  case (MHangup c)
  then show ?thesis using assms on_hangup_peers [of e c m d p] by (simp add: case_prod_unfold)
qed (use assms in \<open>auto simp: accept_connection_def on_relay_def on_tcp_def on_stream_def DisconnectDevice_def UpdateAccessPolicy_def
      ReleaseDevicePort_def manager_Close_def split: prod.splits option.splits phase.splits if_splits\<close>)

section \<open>Where a peer comes from\<close>

text \<open>The registration that a connection is busy with.\<close>

fun registers :: "phase \<Rightarrow> (auth \<times> ControlMessage) option" where
  "registers (Allocated a msg port) = Some (a, msg)"
| "registers (Persisted a msg port) = Some (a, msg)"
| "registers (Bound a msg) = Some (a, msg)"
| "registers (Listed a msg) = Some (a, msg)"
| "registers _ = None"

lemma conn_step_registers:
  "conn_step e ev c m p q \<Longrightarrow> registers q = Some (a, msg) \<Longrightarrow> registers p \<noteq> Some (a, msg) \<Longrightarrow>
     p = AwaitInit a \<and> ev = MMessage c msg \<and> m_Type msg = MsgTypeRegister"
  by (induction rule: conn_step.induct) auto

text \<open>In a run: the moment at which the relay read the registration \<open>msg\<close> of device \<open>dev\<close> on connection \<open>t\<close>, which had just signed in.\<close>

definition registration_read :: "(env \<times> manager_event) list \<Rightarrow> AgentManager \<Rightarrow> nat \<Rightarrow> string \<Rightarrow> ControlMessage \<Rightarrow> bool" where
  "registration_read evs m t dev msg \<longleftrightarrow> (\<exists>es1 e es2 a. evs = es1 @ (e, MMessage t msg) # es2
     \<and> phase_of (fst (manager_run es1 m)) t = AwaitInit a \<and> au_DeviceID a = dev \<and> m_Type msg = MsgTypeRegister)"

lemma registers_origin:
  assumes "registers (phase_of (fst (manager_run evs (NewAgentManager now cfg every acc dbo pm acl))) t) = Some (a, msg)"
  shows "registration_read evs (NewAgentManager now cfg every acc dbo pm acl) t (au_DeviceID a) msg"
proof -
  let ?m = "NewAgentManager now cfg every acc dbo pm acl"
  obtain es1 ev es2 where es: "evs = es1 @ ev # es2" "registers (phase_of (fst (manager_run es1 ?m)) t) \<noteq> Some (a, msg)"
    "registers (phase_of (fst (manager_step ev (fst (manager_run es1 ?m)))) t) = Some (a, msg)"
    by (rule protocol.origin [where P = "\<lambda>m. registers (phase_of m t) = Some (a, msg)", OF assms]) simp_all
  from conn_step_registers [OF manager_step_conn' es(3,2)] show ?thesis
    using es(1) unfolding registration_read_def by (metis prod.collapse)
qed

lemma registration_read_later: "registration_read evs m t dev msg \<Longrightarrow> registration_read (evs @ evs') m t dev msg"
  unfolding registration_read_def by (metis append.assoc append_Cons)

lemma peer_origin:
  assumes "fmlookup (peers (coordinator (fst (manager_run evs (NewAgentManager now cfg every acc dbo pm acl))))) dev = Some p"
  shows "\<exists>t msg. p_Writer p = Some t \<and> p_Candidates p = announced (m_Candidates msg) \<and> p_Hostname p = m_Hostname msg
    \<and> registration_read evs (NewAgentManager now cfg every acc dbo pm acl) t dev msg"
proof -
  let ?m = "NewAgentManager now cfg every acc dbo pm acl"
  have none: "fmlookup (peers (coordinator ?m)) dev \<noteq> Some p" by (simp add: NewAgentManager_def NewSessionCoordinator_def)
  obtain es1 ev es2 where es: "evs = es1 @ ev # es2" "fmlookup (peers (coordinator (fst (manager_run es1 ?m)))) dev \<noteq> Some p"
    "fmlookup (peers (coordinator (fst (manager_step ev (fst (manager_run es1 ?m)))))) dev = Some p"
    using protocol.origin [where P = "\<lambda>m. fmlookup (peers (coordinator m)) dev = Some p", OF assms none] by blast
  obtain e ev' where ev: "ev = (e, ev')" by force
  from manager_peers [OF es(3) [unfolded ev] es(2)] obtain t a msg port where p: "phase_of (fst (manager_run es1 ?m)) t = Listed a msg"
    "p = peer_of t a msg port" "dev = au_DeviceID a" by blast
  have "registration_read es1 ?m t (au_DeviceID a) msg" using p(1) by (intro registers_origin) simp
  then show ?thesis using p(2,3) registration_read_later es(1) by (auto simp: peer_of_def)
qed

section \<open>The answer to a controller\<close>

lemma refuse_out [simp]: "snd (refuse e c msg m) = [(c, msg)]"
  by (simp add: refuse_def)

lemma enroll_begin_refusal: "enroll_begin e addr a db g = (g', Refuse r) \<Longrightarrow> m_Type r = MsgTypeError"
  by (auto simp: enroll_begin_def enroll_check_def split: if_splits prod.splits bool.splits)

lemma auth_begin_refusal: "auth_begin e addr msg dbo g = (g', Refuse r) \<Longrightarrow> m_Type r = MsgTypeError"
  by (auto simp: auth_begin_def split: if_splits option.splits dest: enroll_begin_refusal)

lemma auth_retry_refusal: "auth_retry e a msg dbo = Refuse r \<Longrightarrow> m_Type r = MsgTypeError"
  by (auto simp: auth_retry_def enroll_check_def split: if_splits option.splits)

lemma auth_done_out:
  "(c', r) \<in> set (snd (auth_done e c st m)) \<Longrightarrow> (\<And>x. st = Refuse x \<Longrightarrow> m_Type x = MsgTypeError) \<Longrightarrow>
     m_Type r = MsgTypeError \<or> m_Type r = MsgTypeAuthOK"
  by (auto simp: auth_done_def message_def split: auth_step.splits if_splits)

lemma forwarded_type: "(c', r) \<in> set (forwarded (ForwardCandidateExchange sid from to' cands co)) \<Longrightarrow> m_Type r = MsgTypeCandidateExchange"
  by (auto simp: forwarded_def ForwardCandidateExchange_def Let_def message_def split: sum.splits option.splits if_splits)

lemma CloseSession_type: "CloseSession sid cid co = (co', out) \<Longrightarrow> (c', r) \<in> set out \<Longrightarrow> m_Type r = MsgTypeSessionClose"
  by (auto simp: CloseSession_def message_def split: option.splits if_splits)

lemma HandleConnectRequest_out:
  "HandleConnectRequest p req host rnd ok co = (co', out, r) \<Longrightarrow> (c', x) \<in> set out \<Longrightarrow>
     m_Type x = MsgTypeConnectNotify \<or> m_Type x = MsgTypeSessionClose"
  by (auto simp: HandleConnectRequest_def connect_notify_def connect_notice_def message_def
      split: prod.splits connect_step.splits option.splits if_splits dest: CloseSession_type)

lemma HandleConnectRequest_rnd:
  "HandleConnectRequest (Some p) req host None ok co = (co', out, Inr resp) \<Longrightarrow> m_Type resp = MsgTypeError"
  by (auto simp: HandleConnectRequest_def connect_prepare_def Let_def split: sum.splits option.splits if_splits prod.splits)

lemma end_controller_out: "(c', x) \<in> set (snd (end_controller e c a sid tc m)) \<Longrightarrow> m_Type x = MsgTypeSessionClose"
  by (auto simp: end_controller_def split: prod.splits dest: CloseSession_type)

text \<open>A connect response on the controller's own connection: the request was granted over the state of that moment.\<close>

lemma controller_connect_response:
  assumes "(c', resp) \<in> set (snd (controller_connect e c a req tc m))" "m_Type resp = MsgTypeConnectResponse"
  shows "c' = c \<and> (\<exists>co out rnd. HandleConnectRequest (Some (controller_peer c a req)) req (PublicHost (am_config m)) (Some rnd)
      (e_notify e) (coord m) = (co, out, Inr resp) \<and> set out \<subseteq> set (snd (controller_connect e c a req tc m)))"
proof -
  let ?h = "\<lambda>rnd. HandleConnectRequest (Some (controller_peer c a req)) req (PublicHost (am_config m)) rnd (e_notify e) (coord m)"
  obtain co out r where h: "?h (e_rnd e) = (co, out, r)" by (rule prod_cases3)
  note types = HandleConnectRequest_out [OF h] end_controller_out
  obtain resp' where r: "r = Inr resp'" using assms h types(1)
    by (cases r) (fastforce simp: controller_connect_def)+
  then have "c' = c \<and> resp = resp' \<and> set out \<subseteq> set (snd (controller_connect e c a req tc m))"
    using assms h types by (fastforce simp: controller_connect_def Let_def case_prod_unfold split: if_splits)
  moreover obtain rnd where "e_rnd e = Some rnd"
    using h r HandleConnectRequest_rnd calculation assms(2) by (cases "e_rnd e") fastforce+
  ultimately show ?thesis using h r by auto
qed

lemma controller_start_response:
  assumes "(c', resp) \<in> set (snd (controller_start e c a req m))" "m_Type resp = MsgTypeConnectResponse"
  shows "c' = c \<and> (\<exists>co out rnd. HandleConnectRequest (Some (controller_peer c a req)) req (PublicHost (am_config m)) (Some rnd)
      (e_notify e) (coord m) = (co, out, Inr resp) \<and> set out \<subseteq> set (snd (controller_start e c a req m)))"
proof -
  obtain dbo tc where s: "controller_start e c a req m = controller_connect e c a req tc (m\<lparr>am_db := dbo\<rparr>)"
    using assms by (auto simp: controller_start_def split: if_splits option.splits)
  have "controllerCanAccess (m\<lparr>am_db := dbo\<rparr>) = controllerCanAccess m"
    by (simp add: fun_eq_iff controllerCanAccess_def access_list_def)
  then have "coord (m\<lparr>am_db := dbo\<rparr>) = coord m" by (simp add: coord_def)
  then show ?thesis using controller_connect_response [OF assms(1) [unfolded s] assms(2)] s by simp
qed

lemma on_message_response:
  assumes "(c', resp) \<in> set (snd (on_message e c req m))" "m_Type resp = MsgTypeConnectResponse"
  shows "\<exists>a. phase_of m c = AwaitInit a \<and> snd (on_message e c req m) = snd (controller_start e c a req m)"
proof (cases "phase_of m c")
  case AwaitAuth
  then show ?thesis using assms by (auto simp: on_message_def split: prod.splits dest!: auth_done_out dest: auth_begin_refusal)
next
  case (AwaitRetry a)
  then show ?thesis using assms by (auto simp: on_message_def dest!: auth_done_out dest: auth_retry_refusal)
next
  case (AwaitInit a)
  then show ?thesis using assms by (auto simp: on_message_def register_start_def split: if_splits prod.splits sum.splits)
next
  case (Serving a)
  then show ?thesis using assms
    by (auto simp: on_message_def control_message_def Let_def pong_def message_def split: option.splits prod.splits if_splits dest: forwarded_type)
next
  case (Controlling a tid sid tc)
  then show ?thesis using assms
    by (auto simp: on_message_def controller_message_def pong_def message_def split: if_splits dest: forwarded_type)
qed (use assms in \<open>auto simp: on_message_def\<close>)

lemma connect_response_target: "m_TargetDeviceID (connect_response host q) = q_targetID q"
  by (simp add: connect_response_def)

section \<open>Properties\<close>

text \<open>
  The addresses a controller is given are those its target registered. When the relay, after any run from its
  start, answers a message on some connection with a connect response, that connection asked for the target, and the
  candidates in the answer are the valid ones of a registration: of the message that the relay read earlier in the run,
  right after the target itself had signed in there, on the connection \<open>t\<close> to which the notice of this session goes now.
  No other message of the run changes them, so what the target told the relay of its addresses afterwards is not in
  the answer, and neither is what any other device claimed; a list the relay could not accept gives none.
\<close>

theorem target_candidates_registered:
  assumes "m = fst (manager_run evs (NewAgentManager now cfg every acc dbo pm acl))"
    "(c', resp) \<in> set (fst (snd (manager_step (e, MMessage c req) m)))" "m_Type resp = MsgTypeConnectResponse"
  shows "c' = c \<and> m_TargetDeviceID resp = m_TargetDeviceID req
    \<and> (\<exists>t reg notice. registration_read evs (NewAgentManager now cfg every acc dbo pm acl) t (m_TargetDeviceID req) reg
      \<and> m_Candidates resp = (case validateCandidates (m_Candidates reg) of Inr valid \<Rightarrow> valid | Inl _ \<Rightarrow> [])
      \<and> (t, notice) \<in> set (fst (snd (manager_step (e, MMessage c req) m))) \<and> m_Type notice = MsgTypeConnectNotify
      \<and> m_SessionID notice = m_SessionID resp \<and> m_SessionToken notice = m_SessionToken resp)"
proof -
  have out: "fst (snd (manager_step (e, MMessage c req) m)) = snd (on_message e c req m)" by (simp add: case_prod_unfold)
  obtain a where a: "snd (on_message e c req m) = snd (controller_start e c a req m)"
    using on_message_response assms(2,3) out by metis
  obtain co o1 rnd where h: "HandleConnectRequest (Some (controller_peer c a req)) req (PublicHost (am_config m)) (Some rnd)
      (e_notify e) (coord m) = (co, o1, Inr resp)" "set o1 \<subseteq> set (fst (snd (manager_step (e, MMessage c req) m)))" "c' = c"
    using controller_start_response [of c' resp e c a req m] assms(2,3) out a by metis
  obtain q p where q: "resp = connect_response (PublicHost (am_config m)) q" "o1 = [(q_targetWriter q, connect_notice q)]"
    "fmlookup (peers (coordinator m)) (m_TargetDeviceID req) = Some p" "q_targetCandidates q = p_Candidates p" "p_Writer p = Some (q_targetWriter q)"
    using connect_granted [OF h(1) assms(3)] by auto
  obtain t reg where t: "p_Writer p = Some t" "p_Candidates p = announced (m_Candidates reg)"
    "registration_read evs (NewAgentManager now cfg every acc dbo pm acl) t (m_TargetDeviceID req) reg"
    using peer_origin [OF q(3) [unfolded assms(1)]] by blast
  have "m_Type resp \<noteq> MsgTypeError" using assms(3) by simp
  then have target: "m_TargetDeviceID resp = m_TargetDeviceID req"
    using connect_accepted [OF h(1)] by (metis connect_response_target)
  have notice: "(t, connect_notice q) \<in> set (fst (snd (manager_step (e, MMessage c req) m)))"
    using h(2) q(2,5) t(1) by auto
  have "m_Candidates resp = (case validateCandidates (m_Candidates reg) of Inr valid \<Rightarrow> valid | Inl _ \<Rightarrow> [])"
    using q(1,4) t(2) by (simp add: connect_response_def announced_def)
  moreover have "m_Type (connect_notice q) = MsgTypeConnectNotify" "m_SessionID (connect_notice q) = m_SessionID resp"
    "m_SessionToken (connect_notice q) = m_SessionToken resp"
    by (simp_all add: q(1) connect_response_def connect_notice_def message_def)
  ultimately show ?thesis using h(3) target t(3) notice by blast
qed

definition sample_announced :: CandidateInfo where
  "sample_announced = \<lparr>c_Protocol = ''udp'', c_Type = ''lan'', c_Address = ''10.0.0.5:4000'', c_Priority = 1\<rparr>"

definition sample_registers :: "(env \<times> manager_event) list" where
  "sample_registers = sample_handshake ''pc'' 0 @ [(sample_env, MMessage 0 ((message MsgTypeRegister)\<lparr>m_Candidates := [sample_announced]\<rparr>))]
     @ [(sample_env, MContinue 0), (sample_env, MContinue 0), (sample_env, MContinue 0), (sample_env, MContinue 0)] @ sample_handshake ''me'' 1"

lemma sample_candidate: "validate_each [] [sample_announced] = Inr [sample_announced]"
  by code_simp

lemma sample_answer:
  "(1, (message MsgTypeConnectResponse)\<lparr>m_DeviceID := ''me'', m_TargetDeviceID := ''pc'', m_SessionID := 0x80000008, m_SessionToken := hex_encode [1, 2, 3],
      m_Candidates := [sample_announced], m_PublicHost := ''relay'', m_PublicPort := 20000, m_PunchRole := ''controller''\<rparr>)
   \<in> set (fst (snd (manager_step (sample_env, MMessage 1 ((message MsgTypeConnectRequest)\<lparr>m_TargetDeviceID := ''pc''\<rparr>))
       (fst (manager_run sample_registers sample_manager)))))"
  by (simp add: sample_simps sample_registers_def sample_candidate del: validate_each.simps(2))

theorem target_candidates_registered_witness:
  "\<exists>t reg. registration_read sample_registers sample_manager t ''pc'' reg
    \<and> (case validateCandidates (m_Candidates reg) of Inr valid \<Rightarrow> valid | Inl _ \<Rightarrow> []) = [sample_announced]"
proof -
  note t = target_candidates_registered [OF refl sample_answer [unfolded sample_manager_def], folded sample_manager_def]
  have "m_TargetDeviceID ((message MsgTypeConnectRequest)\<lparr>m_TargetDeviceID := ''pc''\<rparr>) = ''pc''" by simp
  then obtain t reg where "registration_read sample_registers sample_manager t ''pc'' reg"
    "(case validateCandidates (m_Candidates reg) of Inr valid \<Rightarrow> valid | Inl _ \<Rightarrow> []) = [sample_announced]"
    using t by (auto simp del: manager_step.simps)
  then show ?thesis by blast
qed

end
