(* ===== verification/Js_String.thy ===== *)
theory Js_String
  imports Prelude
begin

text \<open>
  Operations of JavaScript strings that the bundled style engine uses, over lists of characters.
  Positions are integers because the code computes with negative ones.
\<close>

abbreviation newline :: char where "newline \<equiv> CHR 0x0A"
abbreviation tab :: char where "tab \<equiv> CHR 0x09"
abbreviation return_char :: char where "return_char \<equiv> CHR 0x0D"

text \<open>\<open>s.split(c)\<close> for one character, which never gives an empty list, and \<open>xs.join(s)\<close>.\<close>

fun split_char :: "char \<Rightarrow> string \<Rightarrow> string list" where
  "split_char c [] = [[]]"
| "split_char c (x # xs) =
     (if x = c then [] # split_char c xs
      else case split_char c xs of p # ps \<Rightarrow> (x # p) # ps | [] \<Rightarrow> [[x]])"

fun join :: "string \<Rightarrow> string list \<Rightarrow> string" where
  "join sep [] = []"
| "join sep [x] = x"
| "join sep (x # y # ys) = x @ sep @ join sep (y # ys)"

lemma split_char_nonempty [simp]: "split_char c s \<noteq> []"
  by (induction s) (auto split: list.splits)

lemma split_char_step [simp]:
  "x \<noteq> c \<Longrightarrow> split_char c (x # xs) = (x # hd (split_char c xs)) # tl (split_char c xs)"
  by (cases "split_char c xs") simp_all

declare split_char.simps(2) [simp del]

lemma split_char_sep [simp]: "split_char c (c # xs) = [] # split_char c xs"
  by (simp add: split_char.simps)

lemma join_Cons: "xs \<noteq> [] \<Longrightarrow> join sep (x # xs) = x @ sep @ join sep xs"
  by (cases xs) simp_all

lemma join_Cons_append [simp]: "join sep ((x @ y) # ys) = x @ join sep (y # ys)"
  by (cases ys) simp_all

lemma join_split [simp]: "join [c] (split_char c s) = s"
proof (induction s)
  case (Cons x xs)
  show ?case
  proof (cases "x = c")
    case True
    then show ?thesis using Cons by (simp add: join_Cons)
  next
    case False
    have "join [c] ((x # hd (split_char c xs)) # tl (split_char c xs))
        = [x] @ join [c] (hd (split_char c xs) # tl (split_char c xs))"
      using join_Cons_append [of "[c]" "[x]"] by simp
    then show ?thesis using False Cons by simp
  qed
qed simp

lemma split_char_parts: "p \<in> set (split_char c s) \<Longrightarrow> c \<notin> set p"
proof (induction s arbitrary: p)
  case (Cons x xs)
  show ?case
  proof (cases "x = c")
    case True
    then show ?thesis using Cons by auto
  next
    case False
    have "set (split_char c xs) = insert (hd (split_char c xs)) (set (tl (split_char c xs)))"
      by (metis list.simps(15) list.collapse split_char_nonempty)
    with Cons False show ?thesis by auto
  qed
qed simp

lemma split_char_id: "c \<notin> set s \<Longrightarrow> split_char c s = [s]"
  by (induction s) auto

lemma split_char_append_sep: "split_char c (xs @ c # ys) = split_char c xs @ split_char c ys"
proof (induction xs)
  case (Cons x xs)
  then show ?case by (cases "x = c") (simp_all add: hd_append tl_append2)
qed simp

text \<open>\<open>s.slice(i, j)\<close> and \<open>s.slice(i)\<close> with the wrap of negative positions.\<close>

definition js_pos :: "int \<Rightarrow> nat \<Rightarrow> nat" where
  "js_pos i n = (if i < 0 then nat (int n + i) else min (nat i) n)"

definition js_slice :: "int \<Rightarrow> int \<Rightarrow> 'a list \<Rightarrow> 'a list" where
  "js_slice i j s = take (js_pos j (length s) - js_pos i (length s)) (drop (js_pos i (length s)) s)"

definition js_from :: "int \<Rightarrow> 'a list \<Rightarrow> 'a list" where
  "js_from i s = drop (js_pos i (length s)) s"

text \<open>Replacing every character of a class, \<open>s.replace(/[...]/g, c)\<close>, and dropping them.\<close>

definition blank :: "(char \<Rightarrow> bool) \<Rightarrow> string \<Rightarrow> string" where
  "blank P s = map (\<lambda>c. if P c then CHR '' '' else c) s"

definition is_digit :: "char \<Rightarrow> bool" where
  "is_digit c \<longleftrightarrow> 48 \<le> (of_char c :: nat) \<and> (of_char c :: nat) \<le> 57"

definition is_js_space :: "char \<Rightarrow> bool" where
  "is_js_space c \<longleftrightarrow> c \<in> {CHR '' '', tab, newline, CHR 0x0B, CHR 0x0C, return_char, CHR 0xA0}"

definition strip_visible :: "string \<Rightarrow> string" where
  "strip_visible s = filter is_js_space s"

text \<open>\<open>t.replace(/[^\n]+$/, "")\<close> drops what follows the last newline.\<close>

definition drop_last_line :: "string \<Rightarrow> string" where
  "drop_last_line s = rev (dropWhile (\<lambda>c. c \<noteq> newline) (rev s))"

definition js_trim :: "string \<Rightarrow> string" where
  "js_trim s = rev (dropWhile is_js_space (rev (dropWhile is_js_space s)))"

fun prefix_at :: "string \<Rightarrow> string \<Rightarrow> bool" where
  "prefix_at [] s = True"
| "prefix_at (x # xs) [] = False"
| "prefix_at (x # xs) (y # ys) = (x = y \<and> prefix_at xs ys)"

text \<open>\<open>s.indexOf(w)\<close>, \<open>None\<close> for -1, and \<open>s.includes(w)\<close>.\<close>

fun js_index :: "string \<Rightarrow> string \<Rightarrow> nat option" where
  "js_index w [] = (if w = [] then Some 0 else None)"
| "js_index w (x # xs) = (if prefix_at w (x # xs) then Some 0 else map_option Suc (js_index w xs))"

definition has_text :: "string \<Rightarrow> string \<Rightarrow> bool" where
  "has_text w s = (js_index w s \<noteq> None)"

lemma prefix_at_iff: "prefix_at w s \<longleftrightarrow> (\<exists>r. s = w @ r)"
  by (induction w s rule: prefix_at.induct) auto

lemma js_index_Some: "js_index w s = Some n \<Longrightarrow> \<exists>r. drop n s = w @ r"
  by (induction s arbitrary: n) (auto simp: prefix_at_iff split: if_splits)

lemma has_text_char: "has_text [c] s \<longleftrightarrow> c \<in> set s"
  by (induction s) (auto simp: has_text_def)

end
