(* ===== verification/Css_Position.thy ===== *)
theory Css_Position
  imports Js_String
begin

text \<open>
  Source positions of the style engine bundled for the two web interfaces (\<open>tailwind.js\<close>): the
  offset of a line and column, the position some characters further on, the range of a node that an
  error points at, and the position of an offset, which is found by a binary search over the offsets
  at which the lines start.
\<close>

record position =
  pos_line :: int
  pos_column :: int

section \<open>From a position to an offset\<close>

text \<open>
  The loop of \<open>sourceOffset\<close> at index \<open>s\<close> with the line and column of that character; the result is 0
  when the position is never met.
\<close>

fun offset_loop :: "string \<Rightarrow> int \<Rightarrow> int \<Rightarrow> int \<Rightarrow> position \<Rightarrow> int" where
  "offset_loop [] s line column p = 0"
| "offset_loop (x # xs) s line column p =
     (if line = pos_line p \<and> column = pos_column p then s
      else if x = newline then offset_loop xs (s + 1) (line + 1) 1 p
      else offset_loop xs (s + 1) line (column + 1) p)"

definition sourceOffset :: "string \<Rightarrow> position \<Rightarrow> int option \<Rightarrow> int" where
  "sourceOffset css p known = (case known of Some offset \<Rightarrow> offset | None \<Rightarrow> offset_loop css 0 1 1 p)"

section \<open>Moving on from a position\<close>

text \<open>The characters from one index to another; beyond the end every character counts as no newline.\<close>

fun advance :: "string \<Rightarrow> nat \<Rightarrow> position \<Rightarrow> position" where
  "advance xs 0 p = p"
| "advance [] (Suc n) p = advance [] n (p\<lparr>pos_column := pos_column p + 1\<rparr>)"
| "advance (x # xs) (Suc n) p = advance xs n
     (if x = newline then \<lparr>pos_line = pos_line p + 1, pos_column = 1\<rparr>
      else p\<lparr>pos_column := pos_column p + 1\<rparr>)"

record css_node =
  node_start :: position
  node_end :: "position option"

definition positionInside :: "string \<Rightarrow> css_node \<Rightarrow> int \<Rightarrow> position" where
  "positionInside css n index = advance (drop (nat (sourceOffset css (node_start n) None)) css) (nat index) (node_start n)"

text \<open>
  \<open>positionBy\<close> and \<open>rangeBy\<close>: the options name a word, or a start or an index, and an end or an end
  index; an index of zero counts as none where the code tests its truth. Looking for a word in a node
  without an end reads a property of \<open>undefined\<close> and fails.
\<close>

record range_options =
  opt_word :: string
  opt_start :: "position option"
  opt_end :: "position option"
  opt_index :: int
  opt_endIndex :: "int option"

definition node_text :: "string \<Rightarrow> css_node \<Rightarrow> position \<Rightarrow> string" where
  "node_text css n stop = js_slice (sourceOffset css (node_start n) None) (sourceOffset css stop None) css"

definition positionBy :: "string \<Rightarrow> css_node \<Rightarrow> range_options \<Rightarrow> position option" where
  "positionBy css n opts =
     (if opt_index opts \<noteq> 0 then Some (positionInside css n (opt_index opts))
      else if opt_word opts \<noteq> [] then
        (case node_end n of None \<Rightarrow> None
         | Some stop \<Rightarrow> (case js_index (opt_word opts) (node_text css n stop) of
             Some s \<Rightarrow> Some (positionInside css n (int s)) | None \<Rightarrow> Some (node_start n)))
      else Some (node_start n))"

definition default_end :: "css_node \<Rightarrow> position" where
  "default_end n = (case node_end n of
     Some p \<Rightarrow> p\<lparr>pos_column := pos_column p + 1\<rparr>
   | None \<Rightarrow> (node_start n)\<lparr>pos_column := pos_column (node_start n) + 1\<rparr>)"

definition option_start :: "string \<Rightarrow> css_node \<Rightarrow> range_options \<Rightarrow> position" where
  "option_start css n opts = (case opt_start opts of
     Some p \<Rightarrow> p
   | None \<Rightarrow> if opt_index opts \<noteq> 0 then positionInside css n (opt_index opts) else node_start n)"

definition option_end :: "string \<Rightarrow> css_node \<Rightarrow> range_options \<Rightarrow> position" where
  "option_end css n opts = (case opt_end opts of
     Some p \<Rightarrow> p
   | None \<Rightarrow> (case opt_endIndex opts of
       Some i \<Rightarrow> positionInside css n i
     | None \<Rightarrow> if opt_index opts \<noteq> 0 then positionInside css n (opt_index opts + 1) else default_end n))"

definition no_empty_range :: "position \<Rightarrow> position \<Rightarrow> position \<times> position" where
  "no_empty_range t i =
     (t, if pos_line i < pos_line t \<or> pos_line i = pos_line t \<and> pos_column i \<le> pos_column t
         then t\<lparr>pos_column := pos_column t + 1\<rparr> else i)"

definition rangeBy :: "string \<Rightarrow> css_node \<Rightarrow> range_options \<Rightarrow> (position \<times> position) option" where
  "rangeBy css n opts =
     (if opt_word opts \<noteq> [] then
        (case node_end n of None \<Rightarrow> None
         | Some stop \<Rightarrow> Some (case js_index (opt_word opts) (node_text css n stop) of
             Some s \<Rightarrow> no_empty_range (positionInside css n (int s))
                         (positionInside css n (int s + int (length (opt_word opts))))
           | None \<Rightarrow> no_empty_range (node_start n) (default_end n)))
      else Some (no_empty_range (option_start css n opts) (option_end css n opts)))"

section \<open>From an offset to a position\<close>

text \<open>The offsets at which the lines start.\<close>

fun line_starts :: "int \<Rightarrow> string list \<Rightarrow> int list" where
  "line_starts a [] = []"
| "line_starts a (l # ls) = a # line_starts (a + int (length l) + 1) ls"

text \<open>The binary search between \<open>n\<close> and \<open>s\<close>; the code's loop returns \<open>n\<close> when it ends.\<close>

function search_line :: "int list \<Rightarrow> int \<Rightarrow> int \<Rightarrow> int \<Rightarrow> int" where
  "search_line i e n s =
     (if n < s then
        (let a = n + (s - n) div 2 in
         if e < i ! nat a then search_line i e n (a - 1)
         else if e \<ge> i ! nat (a + 1) then search_line i e (a + 1) s
         else a)
      else n)"
  by pat_completeness auto
termination
  by (relation "measure (\<lambda>(i, e, n, s). nat (s - n))") auto

declare search_line.simps [simp del]

definition fromOffset :: "string \<Rightarrow> int \<Rightarrow> position" where
  "fromOffset css e =
     (let i = line_starts 0 (split_char newline css);
          n = (if e \<ge> last i then int (length i) - 1 else search_line i e 0 (int (length i) - 2))
      in \<lparr>pos_line = n + 1, pos_column = e - i ! nat n + 1\<rparr>)"

section \<open>The order of positions\<close>

definition before_pos :: "position \<Rightarrow> position \<Rightarrow> bool" where
  "before_pos p q \<longleftrightarrow> pos_line p < pos_line q \<or> pos_line p = pos_line q \<and> pos_column p < pos_column q"

definition origin :: position where "origin = \<lparr>pos_line = 1, pos_column = 1\<rparr>"

lemma before_pos_trans: "before_pos p q \<Longrightarrow> before_pos q r \<Longrightarrow> before_pos p r"
  by (auto simp: before_pos_def)

lemma before_pos_irrefl [simp]: "\<not> before_pos p p"
  by (simp add: before_pos_def)

lemma advance_Nil: "advance [] n p = p\<lparr>pos_column := pos_column p + int n\<rparr>"
  by (induction n arbitrary: p) simp_all

lemma advance_before: "0 < n \<Longrightarrow> before_pos p (advance xs n p)"
proof (induction xs arbitrary: n p)
  case Nil
  then show ?case by (simp add: advance_Nil before_pos_def)
next
  case (Cons x xs)
  then obtain m where n: "n = Suc m" by (cases n) auto
  let ?q = "if x = newline then \<lparr>pos_line = pos_line p + 1, pos_column = 1\<rparr>
      else p\<lparr>pos_column := pos_column p + 1\<rparr>"
  have "before_pos p ?q" by (simp add: before_pos_def)
  moreover have "advance (x # xs) n p = advance xs m ?q" by (simp add: n)
  ultimately show ?case
    using Cons.IH [of m ?q] before_pos_trans [of p ?q] by (cases "m = 0") auto
qed

lemma advance_add: "advance xs (m + n) p = advance (drop m xs) n (advance xs m p)"
proof (induction m arbitrary: xs p)
  case (Suc m)
  then show ?case by (cases xs) simp_all
qed simp

lemma advance_same_line: "newline \<notin> set l \<Longrightarrow> n \<le> length l \<Longrightarrow>
    advance (l @ r) n p = p\<lparr>pos_column := pos_column p + int n\<rparr>"
proof (induction l arbitrary: n p)
  case (Cons x l)
  then show ?case by (cases n) auto
qed simp

lemma advance_line: "newline \<notin> set l \<Longrightarrow>
    advance (l @ newline # r) (Suc (length l + n)) p = advance r n \<lparr>pos_line = pos_line p + 1, pos_column = 1\<rparr>"
  by (induction l arbitrary: p) auto

section \<open>The offsets of the lines\<close>

lemma length_line_starts [simp]: "length (line_starts a ls) = length ls"
  by (induction ls arbitrary: a) simp_all

lemma line_starts_mono: "j < k \<Longrightarrow> k < length ls \<Longrightarrow> line_starts a ls ! j < line_starts a ls ! k"
proof (induction ls arbitrary: a j k)
  case (Cons l ls)
  have first: "b \<le> line_starts b ls ! m" if "m < length ls" for b m
    using that
  proof (induction ls arbitrary: b m)
    case (Cons l ls)
    have "b + int (length l) + 1 \<le> line_starts (b + int (length l) + 1) ls ! m'" if "m' < length ls" for m'
      using that by (rule Cons.IH)
    then show ?case using Cons.prems by (cases m) (simp, fastforce)
  qed simp
  show ?case
  proof (cases j)
    case 0
    then obtain k' where "k = Suc k'" "k' < length ls" using Cons.prems by (cases k) auto
    then show ?thesis using 0 first [of k' "a + int (length l) + 1"] by simp
  next
    case (Suc j')
    then obtain k' where "k = Suc k'" "k' < length ls" "j' < k'" using Cons.prems by (cases k) auto
    then show ?thesis using Suc Cons.IH [of j' k'] by simp
  qed
qed simp

text \<open>The position of an offset in the line that contains it.\<close>

lemma advance_lines:
  assumes "\<forall>l\<in>set ls. newline \<notin> set l" "n < length ls" "line_starts a ls ! n \<le> e"
    "Suc n < length ls \<Longrightarrow> e < line_starts a ls ! Suc n"
  shows "advance (join [newline] ls) (nat (e - a)) \<lparr>pos_line = r, pos_column = 1\<rparr>
    = \<lparr>pos_line = r + int n, pos_column = e - line_starts a ls ! n + 1\<rparr>"
  using assms
proof (induction ls arbitrary: a n r)
  case (Cons l ls)
  show ?case
  proof (cases ls)
    case Nil
    let ?k = "nat (e - a)"
    have "advance l ?k p = p\<lparr>pos_column := pos_column p + int ?k\<rparr>" for p
    proof (cases "?k \<le> length l")
      case True
      then show ?thesis using advance_same_line [of l ?k "[]"] Cons.prems(1) by simp
    next
      case False
      then have "advance l ?k p = advance [] (?k - length l) (advance l (length l) p)"
        using advance_add [of l "length l" "?k - length l" p] by simp
      then show ?thesis
        using False advance_same_line [of l "length l" "[]" p] Cons.prems(1) by (simp add: advance_Nil)
    qed
    then show ?thesis using Cons.prems Nil by simp
  next
    case (Cons l' ls')
    let ?b = "a + int (length l) + 1"
    have join: "join [newline] (l # ls) = l @ newline # join [newline] ls" by (simp add: Cons join_Cons)
    have l: "newline \<notin> set l" using Cons.prems(1) by simp
    show ?thesis
    proof (cases n)
      case 0
      then have "nat (e - a) \<le> length l" using Cons.prems(3,4) Cons by simp
      then show ?thesis
        using 0 Cons.prems(3) advance_same_line [OF l, of "nat (e - a)" "newline # join [newline] ls"]
        unfolding join by simp
    next
      case (Suc m)
      have m: "m < length ls" "line_starts ?b ls ! m \<le> e"
        "Suc m < length ls \<Longrightarrow> e < line_starts ?b ls ! Suc m"
        using Cons.prems(2-4) Suc by simp_all
      have "?b \<le> line_starts ?b ls ! m"
        using line_starts_mono [of 0 m ls ?b] m(1) Cons by (cases m) auto
      then have "nat (e - a) = Suc (length l + nat (e - ?b))" using m(2) by simp
      then have "advance (join [newline] (l # ls)) (nat (e - a)) \<lparr>pos_line = r, pos_column = 1\<rparr>
          = advance (join [newline] ls) (nat (e - ?b)) \<lparr>pos_line = r + 1, pos_column = 1\<rparr>"
        unfolding join using advance_line [OF l] by simp
      then show ?thesis
        using Cons.IH [OF _ m, of "r + 1"] Cons.prems(1) Suc by simp
    qed
  qed
qed simp

text \<open>The binary search ends at the line that contains the offset.\<close>

lemma search_line_finds:
  assumes "0 \<le> n" "n \<le> s" "s + 1 < int (length i)" "i ! nat n \<le> e" "e < i ! nat (s + 1)"
    "\<And>j k. j < k \<Longrightarrow> k < length i \<Longrightarrow> i ! j < i ! k" "m = search_line i e n s"
  shows "0 \<le> m \<and> m + 1 < int (length i) \<and> i ! nat m \<le> e \<and> e < i ! nat (m + 1)"
  using assms
proof (induction i e n s rule: search_line.induct)
  case (1 i e n s)
  let ?a = "n + (s - n) div 2"
  show ?case
  proof (cases "n < s")
    case False
    then have "m = n" using "1.prems"(7) by (simp add: search_line.simps [of i e n s])
    then show ?thesis using False "1.prems" by simp
  next
    case True
    then have a: "n \<le> ?a" "?a < s" by simp_all
    consider "e < i ! nat ?a" | "\<not> e < i ! nat ?a" "i ! nat (?a + 1) \<le> e"
      | "\<not> e < i ! nat ?a" "\<not> i ! nat (?a + 1) \<le> e" by blast
    then show ?thesis
    proof cases
      case 1
      then have "n \<noteq> ?a" using "1.prems"(4) by auto
      then have "n \<le> ?a - 1" using a by simp
      moreover have "m = search_line i e n (?a - 1)"
        using "1.prems"(7) True 1 by (subst (asm) search_line.simps) (simp add: Let_def)
      ultimately show ?thesis
        using "1.IH"(1) [OF True refl 1] "1.prems" a 1 by simp
    next
      case 2
      moreover from this have "m = search_line i e (?a + 1) s"
        using "1.prems"(7) True by (subst (asm) search_line.simps) (simp add: Let_def)
      ultimately show ?thesis
        using "1.IH"(2) [OF True refl] "1.prems" a by simp
    next
      case 3
      then have "m = ?a"
        using "1.prems"(7) True by (subst (asm) search_line.simps) (simp add: Let_def)
      then show ?thesis using 3 "1.prems" a by simp
    qed
  qed
qed

lemma fromOffset_advance:
  assumes "0 \<le> e"
  shows "fromOffset css e = advance css (nat e) origin"
proof -
  let ?ls = "split_char newline css"
  let ?i = "line_starts 0 ?ls"
  define n where "n = (if e \<ge> last ?i then int (length ?i) - 1 else search_line ?i e 0 (int (length ?i) - 2))"
  have len: "0 < length ?ls" by simp
  have ne: "?i \<noteq> []" using len by (metis length_line_starts length_greater_0_conv)
  have last: "last ?i = ?i ! (length ?ls - 1)" using ne by (simp add: last_conv_nth)
  have zero: "?i ! 0 = 0" using len by (cases ?ls) auto
  have "0 \<le> n \<and> n < int (length ?ls) \<and> ?i ! nat n \<le> e \<and> (n + 1 < int (length ?ls) \<longrightarrow> e < ?i ! nat (n + 1))"
  proof (cases "e \<ge> last ?i")
    case True
    have "nat n = length ?ls - 1" using True by (simp add: n_def)
    then have "?i ! nat n \<le> e" using True last by metis
    then show ?thesis using True len by (simp add: n_def)
  next
    case False
    then have two: "2 \<le> length ?ls"
      using assms last zero len by (cases "length ?ls = 1") auto
    have "nat (int (length ?ls) - 2 + 1) = length ?ls - 1" using two by simp
    then have "0 \<le> n \<and> n + 1 < int (length ?i) \<and> ?i ! nat n \<le> e \<and> e < ?i ! nat (n + 1)"
      using False two zero assms last line_starts_mono [of _ _ ?ls 0]
      by (intro search_line_finds [of 0 "int (length ?ls) - 2"]) (auto simp: n_def)
    then show ?thesis by simp
  qed
  then have n: "0 \<le> n" "nat n < length ?ls" "?i ! nat n \<le> e"
    "Suc (nat n) < length ?ls \<Longrightarrow> e < ?i ! Suc (nat n)"
    by (auto simp: nat_add_distrib)
  have "advance css (nat e) origin = \<lparr>pos_line = 1 + int (nat n), pos_column = e - ?i ! nat n + 1\<rparr>"
    using advance_lines [OF _ n(2,3,4), of 1] split_char_parts [of _ newline css]
    by (fastforce simp: origin_def)
  then show ?thesis
    using n(1) by (simp add: fromOffset_def Let_def n_def)
qed

lemma offset_loop_advance:
  "k < length xs \<Longrightarrow> offset_loop xs s l c (advance xs k \<lparr>pos_line = l, pos_column = c\<rparr>) = s + int k"
proof (induction xs arbitrary: k s l c)
  case (Cons x xs)
  show ?case
  proof (cases k)
    case (Suc m)
    let ?p = "\<lparr>pos_line = l, pos_column = c\<rparr>"
    have "before_pos ?p (advance (x # xs) k ?p)" using Suc by (intro advance_before) simp
    then have "\<not> (l = pos_line (advance (x # xs) k ?p) \<and> c = pos_column (advance (x # xs) k ?p))"
      by (auto simp: before_pos_def)
    then show ?thesis using Suc Cons by auto
  qed simp
qed simp

lemma offset_loop_beyond:
  "length xs \<le> k \<Longrightarrow> offset_loop xs s l c (advance xs k \<lparr>pos_line = l, pos_column = c\<rparr>) = 0"
proof (induction xs arbitrary: k s l c)
  case (Cons x xs)
  then obtain m where k: "k = Suc m" "length xs \<le> m" by (cases k) auto
  let ?p = "\<lparr>pos_line = l, pos_column = c\<rparr>"
  have "before_pos ?p (advance (x # xs) k ?p)" using k by (intro advance_before) simp
  then have "\<not> (l = pos_line (advance (x # xs) k ?p) \<and> c = pos_column (advance (x # xs) k ?p))"
    by (auto simp: before_pos_def)
  then show ?case using k Cons.IH by auto
qed simp

lemma sourceOffset_fromOffset:
  "0 \<le> e \<Longrightarrow> sourceOffset css (fromOffset css e) None = (if e < int (length css) then e else 0)"
  using offset_loop_advance [of "nat e" css 0 1 1] offset_loop_beyond [of css "nat e" 0 1 1]
  by (auto simp: sourceOffset_def fromOffset_advance origin_def not_less)

lemma positionInside_fromOffset:
  assumes "node_start n = fromOffset css a" "0 \<le> a" "a < int (length css)" "0 \<le> k"
  shows "positionInside css n k = fromOffset css (a + k)"
proof -
  have "sourceOffset css (node_start n) None = a" using assms by (simp add: sourceOffset_fromOffset)
  moreover have "nat (a + k) = nat a + nat k" using assms by simp
  ultimately show ?thesis
    using assms advance_add [of css "nat a" "nat k" origin]
    by (simp add: positionInside_def fromOffset_advance)
qed

lemma fromOffset_before: "0 \<le> d \<Longrightarrow> d < e \<Longrightarrow> before_pos (fromOffset css d) (fromOffset css e)"
proof -
  assume d: "0 \<le> d" "d < e"
  have "nat d + nat (e - d) = nat e" using d by simp
  then have "advance css (nat e) origin = advance (drop (nat d) css) (nat (e - d)) (advance css (nat d) origin)"
    using advance_add [of css "nat d" "nat (e - d)" origin] by simp
  then show ?thesis using d advance_before by (simp add: fromOffset_advance)
qed

section \<open>Properties\<close>

text \<open>
  The binary search finds the right line. For every offset into a source text, or beyond its end,
  \<open>fromOffset\<close> gives the line and column that counting the characters from the beginning one by one
  gives: a newline starts the next line at column 1, every other character is one column.
\<close>

theorem from_offset_exact:
  assumes "0 \<le> e"
  shows "fromOffset css e = advance css (nat e) \<lparr>pos_line = 1, pos_column = 1\<rparr>"
  using fromOffset_advance [OF assms] by (simp add: origin_def)

lemma from_offset_exact_witness:
  "fromOffset [CHR ''a'', newline, newline, CHR ''b'', CHR ''c''] 4 = \<lparr>pos_line = 3, pos_column = 2\<rparr>"
  using from_offset_exact [of 4 "[CHR ''a'', newline, newline, CHR ''b'', CHR ''c'']"]
  by (simp add: eval_nat_numeral)

text \<open>
  Offsets and positions are inverse inside the text, and only there. The offset of the position of
  an offset is that offset; but from the end of the text on it is 0, as for no position at all, so
  that the end of a source is taken for its beginning.
\<close>

theorem offset_roundtrip:
  assumes "0 \<le> e"
  shows "sourceOffset css (fromOffset css e) None = (if e < int (length css) then e else 0)"
  using assms by (rule sourceOffset_fromOffset)

lemma offset_roundtrip_witness:
  "sourceOffset [CHR ''a'', newline, CHR ''b''] (fromOffset [CHR ''a'', newline, CHR ''b''] 2) None = 2
   \<and> length [CHR ''a'', newline, CHR ''b''] = 3"
  using offset_roundtrip [of 2 "[CHR ''a'', newline, CHR ''b'']"] by simp

text \<open>
  A warning about a word points at the word. Let a node start and end at offsets inside its source;
  if the word occurs in the node's text, then the range reported starts at the position of the word's
  first character and ends just after its last one, and the word is what the source has there.
\<close>

theorem range_of_word:
  assumes "node_start n = fromOffset css a" "node_end n = Some (fromOffset css b)" "0 \<le> a" "a < b"
    "b < int (length css)" "opt_word opts \<noteq> []" "js_index (opt_word opts) (node_text css n (fromOffset css b)) = Some s"
  shows "rangeBy css n opts = Some (fromOffset css (a + int s), fromOffset css (a + int s + int (length (opt_word opts))))
    \<and> take (length (opt_word opts)) (drop (nat a + s) css) = opt_word opts"
proof -
  let ?w = "opt_word opts"
  have txt_eq: "node_text css n (fromOffset css b) = take (nat (b - a)) (drop (nat a) css)"
    using assms(1,3-5) by (simp add: node_text_def sourceOffset_fromOffset js_slice_def js_pos_def nat_diff_distrib)
  from js_index_Some [OF assms(7)] obtain r where r: "drop s (take (nat (b - a)) (drop (nat a) css)) = ?w @ r"
    unfolding txt_eq by blast
  then have "take (nat (b - a) - s) (drop (nat a + s) css) = ?w @ r"
    by (simp add: drop_take add.commute)
  then have found: "take (length ?w) (drop (nat a + s) css) = ?w"
    by (metis append_eq_conv_conj append_take_drop_id append.assoc)
  have pos: "positionInside css n (int s) = fromOffset css (a + int s)"
    "positionInside css n (int s + int (length ?w)) = fromOffset css (a + int s + int (length ?w))"
    using positionInside_fromOffset [OF assms(1,3)] assms(4,5) by (simp_all add: add.assoc)
  have "before_pos (fromOffset css (a + int s)) (fromOffset css (a + int s + int (length ?w)))"
    using assms(3,6) by (intro fromOffset_before) auto
  then have "no_empty_range (fromOffset css (a + int s)) (fromOffset css (a + int s + int (length ?w)))
      = (fromOffset css (a + int s), fromOffset css (a + int s + int (length ?w)))"
    by (auto simp: no_empty_range_def before_pos_def)
  then show ?thesis
    using assms(2,6,7) found pos by (simp add: rangeBy_def)
qed

lemma range_of_word_witness:
  "rangeBy ''a b;'' \<lparr>node_start = fromOffset ''a b;'' 0, node_end = Some (fromOffset ''a b;'' 3)\<rparr>
     \<lparr>opt_word = ''b'', opt_start = None, opt_end = None, opt_index = 0, opt_endIndex = None\<rparr>
   = Some (fromOffset ''a b;'' 2, fromOffset ''a b;'' 3)"
proof -
  let ?n = "\<lparr>node_start = fromOffset ''a b;'' 0, node_end = Some (fromOffset ''a b;'' 3)\<rparr>"
  have "js_index ''b'' (node_text ''a b;'' ?n (fromOffset ''a b;'' 3)) = Some 2"
    by (simp add: node_text_def sourceOffset_fromOffset js_slice_def js_pos_def eval_nat_numeral)
  then show ?thesis
    using range_of_word [of ?n "''a b;''" 0 3 "\<lparr>opt_word = ''b'', opt_start = None, opt_end = None,
      opt_index = 0, opt_endIndex = None\<rparr>" 2] by simp
qed

end
