(* ===== verification/Css_Error.thy ===== *)
theory Css_Error
  imports Js_String
begin

text \<open>
  The syntax error of the style engine bundled for the two web interfaces (class \<open>CssSyntaxError\<close> of
  \<open>tailwind.js\<close>): its message, the lines of the source it shows around the error with a caret under the
  column, and its text. Colours are not modelled: the bundle's colour library is an empty stub, whose
  functions are the identity on strings, and \<open>toString\<close> asks for none.
\<close>

text \<open>
  A missing file, source or plugin is the empty string, which the code treats alike. An error made
  from a line and a column has no end; one made from two positions has one.
\<close>

record css_error =
  reason :: string
  err_file :: string
  err_source :: string
  err_plugin :: string
  err_line :: "int option"
  err_column :: int
  err_endColumn :: "int option"

definition setMessage :: "css_error \<Rightarrow> string" where
  "setMessage e =
     (if err_plugin e \<noteq> [] then err_plugin e @ '': '' else [])
     @ (if err_file e \<noteq> [] then err_file e else ''<css input>'')
     @ (case err_line e of Some line \<Rightarrow> '':'' @ show_dec line @ '':'' @ show_dec (err_column e) | None \<Rightarrow> [])
     @ '': '' @ reason e"

section \<open>The source around an error\<close>

text \<open>\<open>t.split(/\r?\n/)\<close>: the carriage return before a newline goes with it.\<close>

definition drop_return :: "string \<Rightarrow> string" where
  "drop_return l = (if l \<noteq> [] \<and> last l = return_char then butlast l else l)"

definition split_lines :: "string \<Rightarrow> string list" where
  "split_lines s = (let ps = split_char newline s in map drop_return (butlast ps) @ [last ps])"

text \<open>The gutter of line \<open>p\<close>, its number right-aligned in \<open>c\<close> columns.\<close>

definition gutter :: "nat \<Rightarrow> int \<Rightarrow> string" where
  "gutter c p = '' '' @ js_from (- int c) ('' '' @ show_dec p) @ '' | ''"

text \<open>
  The part of a line of more than 160 characters that is shown. Without an end column the end of the
  part is \<open>NaN\<close>, which \<open>slice\<close> takes for 0.
\<close>

definition excerpt :: "css_error \<Rightarrow> string \<Rightarrow> string" where
  "excerpt e f =
     (let v = 20; y = max 0 (err_column e - v);
          w = (case err_endColumn e of Some c \<Rightarrow> max (err_column e + v) (c + v) | None \<Rightarrow> 0)
      in js_slice y w f)"

definition shown_line :: "css_error \<Rightarrow> nat \<Rightarrow> int \<Rightarrow> string \<Rightarrow> string" where
  "shown_line e c p f =
     (let h = gutter c p in
      if err_line e = Some p then
        (if length f > 160 then
           (let S = blank is_digit h
                    @ blank (\<lambda>x. x \<noteq> tab) (js_slice 0 (min (err_column e - 1) (20 - 1)) f)
            in ''>'' @ h @ excerpt e f @ [newline] @ '' '' @ S @ ''^'')
         else
           (let b = blank is_digit h @ blank (\<lambda>x. x \<noteq> tab) (js_slice 0 (err_column e - 1) f)
            in ''>'' @ h @ f @ [newline] @ '' '' @ b @ ''^''))
      else '' '' @ h @ f)"

definition first_shown :: "int \<Rightarrow> int" where
  "first_shown line = max (line - 3) 0"

definition last_shown :: "string list \<Rightarrow> int \<Rightarrow> int" where
  "last_shown ls line = min (line + 2) (int (length ls))"

definition shown_lines :: "css_error \<Rightarrow> string list" where
  "shown_lines e = (case err_line e of
     None \<Rightarrow> []
   | Some line \<Rightarrow>
       (let a = split_lines (err_source e); o' = first_shown line; l = last_shown a line;
            c = length (show_dec l)
        in map (\<lambda>(d, f). shown_line e c (o' + 1 + int d) f) (enumerate 0 (js_slice o' l a))))"

definition showSourceCode :: "css_error \<Rightarrow> string" where
  "showSourceCode e = (if err_source e = [] then [] else join [newline] (shown_lines e))"

definition error_text :: "css_error \<Rightarrow> string" where
  "error_text e = (let code = showSourceCode e in
     ''CssSyntaxError'' @ '': '' @ setMessage e
     @ (if code \<noteq> [] then [newline, newline] @ code @ [newline] else code))"

section \<open>Proofs\<close>

lemma js_slice_in:
  "0 \<le> i \<Longrightarrow> i \<le> j \<Longrightarrow> j \<le> int (length s) \<Longrightarrow> js_slice i j s = take (nat (j - i)) (drop (nat i) s)"
  by (simp add: js_slice_def js_pos_def nat_diff_distrib)

lemma nth_upto_int: "k < nat (j - i + 1) \<Longrightarrow> [i..j] ! k = i + int k"
  by (rule nth_upto) linarith

lemma shown_slice:
  assumes "0 \<le> i" "i \<le> j" "j \<le> int (length a)"
  shows "map (\<lambda>(d, f). g (i + 1 + int d) f) (enumerate 0 (js_slice i j a))
    = map (\<lambda>p. g p (a ! nat (p - 1))) [i + 1..j]"
proof (rule nth_equalityI)
  fix k assume "k < length (map (\<lambda>(d, f). g (i + 1 + int d) f) (enumerate 0 (js_slice i j a)))"
  then have k: "k < nat (j - i)" using assms by (simp add: js_slice_in)
  then have "[i + 1..j] ! k = i + 1 + int k" by (intro nth_upto_int) simp
  then show "map (\<lambda>(d, f). g (i + 1 + int d) f) (enumerate 0 (js_slice i j a)) ! k
      = map (\<lambda>p. g p (a ! nat (p - 1))) [i + 1..j] ! k"
    using k assms by (simp add: js_slice_in nth_enumerate_eq nat_add_distrib)
qed (use assms in \<open>simp add: js_slice_in\<close>)

lemma gutter_width:
  assumes "1 \<le> p" "p \<le> l" "l \<le> p + 4"
  shows "length (gutter (length (show_dec l)) p) = length (show_dec l) + 4"
proof -
  have "length (show_dec l) \<le> Suc (length (show_dec p))"
    using assms by (intro length_show_dec_near) auto
  then show ?thesis by (simp add: gutter_def js_from_def js_pos_def nat_diff_distrib)
qed

lemma length_split_char_pos: "0 < length (split_char c s)"
  by simp

lemma gutter_no_newline: "0 \<le> p \<Longrightarrow> newline \<notin> set (gutter c p)"
proof
  assume p: "0 \<le> p" "newline \<in> set (gutter c p)"
  then have "newline \<in> set (show_dec p)"
    by (auto simp: gutter_def js_from_def dest: in_set_dropD)
  from show_dec_chars [OF p(1) this] show False by simp
qed

lemma blank_length [simp]: "length (blank P s) = length s"
  by (simp add: blank_def)

lemma blank_no_newline [simp]: "newline \<notin> set s \<Longrightarrow> newline \<notin> set (blank P s)"
  by (auto simp: blank_def)

text \<open>The two output lines of the error's line, and the caret below one character of the first.\<close>

lemma caret_lines:
  assumes "newline \<notin> set h" "newline \<notin> set k" "newline \<notin> set r" "length r < length k"
    "r' = blank P r" "h' = blank Q h"
  shows "\<exists>u v. ''>'' @ h @ k @ [newline] @ '' '' @ (h' @ r') @ ''^'' = u @ [newline] @ v
    \<and> newline \<notin> set u \<and> newline \<notin> set v \<and> last v = CHR ''^''
    \<and> length v \<le> length u \<and> u ! (length v - 1) = k ! length r"
  using assms by (intro exI [of _ "''>'' @ h @ k"] exI [of _ "'' '' @ (h' @ r') @ ''^''"])
    (simp add: nth_append)

lemma js_slice_prefix:
  "0 \<le> j \<Longrightarrow> j \<le> int (length s) \<Longrightarrow> js_slice 0 j s = take (nat j) s"
  by (simp add: js_slice_in)

lemma nth_window:
  "a + m = k \<Longrightarrow> Suc k \<le> w \<Longrightarrow> k < length f
    \<Longrightarrow> m < length (take (w - a) (drop a f)) \<and> take (w - a) (drop a f) ! m = f ! k"
  by auto

lemma excerpt_at:
  assumes "1 \<le> err_column e" "err_column e \<le> int (length f)" "err_endColumn e = Some d"
  shows "nat (min (err_column e - 1) 19) < length (excerpt e f)
    \<and> excerpt e f ! nat (min (err_column e - 1) 19) = f ! nat (err_column e - 1)"
proof -
  let ?y = "max 0 (err_column e - 20)" and ?w = "max (err_column e + 20) (d + 20)"
  have ex: "excerpt e f = take (js_pos ?w (length f) - nat ?y) (drop (nat ?y) f)"
    using assms by (simp add: excerpt_def Let_def js_slice_def js_pos_def min_def)
  have w: "nat (err_column e) \<le> js_pos ?w (length f)"
    using assms by (auto simp: js_pos_def)
  have "nat ?y + nat (min (err_column e - 1) 19) = nat (err_column e - 1)"
  proof -
    have "?y + min (err_column e - 1) 19 = err_column e - 1" by arith
    then show ?thesis using assms by (simp add: nat_add_distrib [symmetric])
  qed
  then show ?thesis unfolding ex using w assms by (intro nth_window) auto
qed

section \<open>Properties\<close>

text \<open>
  The code frame is a window on the source. For an error on a line the source has, the lines shown
  are those from two before to two after it, clipped to the source, each with its own number and its
  own text, and their gutters are equally wide whatever the number of digits, so that the text is
  aligned.
\<close>

theorem code_frame_window:
  assumes "err_line e = Some line" "1 \<le> line" "line \<le> int (length (split_lines (err_source e)))"
    "l = min (line + 2) (int (length (split_lines (err_source e))))" "c = length (show_dec l)"
  shows "shown_lines e = map (\<lambda>p. shown_line e c p (split_lines (err_source e) ! nat (p - 1))) [max 1 (line - 2)..l]
    \<and> (\<forall>p\<in>set [max 1 (line - 2)..l]. length (gutter c p) = c + 4)"
proof -
  have "max (line - 3) 0 + 1 = max 1 (line - 2)" by simp
  moreover have "map (\<lambda>(d, f). shown_line e c (max (line - 3) 0 + 1 + int d) f)
      (enumerate 0 (js_slice (max (line - 3) 0) l (split_lines (err_source e))))
    = map (\<lambda>p. shown_line e c p (split_lines (err_source e) ! nat (p - 1))) [max (line - 3) 0 + 1..l]"
    using assms by (intro shown_slice) auto
  ultimately have "shown_lines e
      = map (\<lambda>p. shown_line e c p (split_lines (err_source e) ! nat (p - 1))) [max 1 (line - 2)..l]"
    using assms(1,4,5) by (simp add: shown_lines_def first_shown_def last_shown_def Let_def)
  moreover have "length (gutter c p) = c + 4" if "p \<in> set [max 1 (line - 2)..l]" for p
    using that assms unfolding assms(5) by (intro gutter_width) auto
  ultimately show ?thesis by blast
qed

lemma code_frame_window_witness:
  "shown_lines \<lparr>reason = ''x'', err_file = [], err_source = [CHR ''a'', newline, CHR ''b''], err_plugin = [],
     err_line = Some 2, err_column = 1, err_endColumn = None\<rparr>
   = [''  1 | a'', ''> 2 | b'' @ [newline] @ ''    | ^'']"
proof -
  let ?e = "\<lparr>reason = ''x'', err_file = [], err_source = [CHR ''a'', newline, CHR ''b''], err_plugin = [],
     err_line = Some 2, err_column = 1, err_endColumn = None\<rparr>"
  have "split_lines (err_source ?e) = [''a'', ''b'']" by code_simp
  moreover have "show_dec 2 = ''2''" by code_simp
  ultimately have "shown_lines ?e = map (\<lambda>p. shown_line ?e 1 p ([''a'', ''b''] ! nat (p - 1))) [max 1 (2 - 2)..2]"
    using code_frame_window [of ?e 2 2 1] by simp
  also have "\<dots> = [''  1 | a'', ''> 2 | b'' @ [newline] @ ''    | ^'']" by code_simp
  finally show ?thesis .
qed

text \<open>
  C39: The caret stands under the error. Where the error is at a column its line has, the line is shown
  as two lines of output, and the character above the caret, which ends the second, is the character
  of the source at that column; a line of more than 160 characters, of which only a part is shown, needs
  an end position for that.
\<close>

theorem caret_under_error:
  assumes "err_line e = Some p" "0 < p" "1 \<le> err_column e" "err_column e \<le> int (length f)"
    "newline \<notin> set f" "length f \<le> 160 \<or> err_endColumn e = Some d"
  shows "\<exists>u v. shown_line e c p f = u @ [newline] @ v \<and> newline \<notin> set u \<and> newline \<notin> set v
    \<and> last v = CHR ''^'' \<and> length v \<le> length u \<and> u ! (length v - 1) = f ! nat (err_column e - 1)"
proof (cases "length f \<le> 160")
  case True
  let ?r = "js_slice 0 (err_column e - 1) f"
  have "length ?r = nat (err_column e - 1)" "newline \<notin> set ?r"
    using assms by (auto simp: js_slice_prefix dest: in_set_takeD)
  then show ?thesis
    using caret_lines [of "gutter c p" f ?r "blank (\<lambda>x. x \<noteq> tab) ?r" "\<lambda>x. x \<noteq> tab" "blank is_digit (gutter c p)"
      is_digit] True assms gutter_no_newline [of p c]
    by (simp add: shown_line_def Let_def)
next
  case False
  let ?r = "js_slice 0 (min (err_column e - 1) (20 - 1)) f"
  have "length ?r = nat (min (err_column e - 1) 19)" "newline \<notin> set ?r"
    using assms by (auto simp: js_slice_prefix dest: in_set_takeD)
  moreover have "newline \<notin> set (excerpt e f)"
    using assms(5) by (auto simp: excerpt_def js_slice_def Let_def dest!: in_set_takeD in_set_dropD)
  ultimately show ?thesis
    using caret_lines [of "gutter c p" "excerpt e f" ?r "blank (\<lambda>x. x \<noteq> tab) ?r" "\<lambda>x. x \<noteq> tab"
      "blank is_digit (gutter c p)" is_digit] False assms gutter_no_newline [of p c] excerpt_at [of e f d]
    by (simp add: shown_line_def Let_def)
qed

lemma caret_under_error_witness:
  "\<exists>u v. shown_line \<lparr>reason = ''x'', err_file = [], err_source = ''a b'', err_plugin = [],
     err_line = Some 1, err_column = 3, err_endColumn = None\<rparr> 1 1 ''a b'' = u @ [newline] @ v
   \<and> newline \<notin> set u \<and> newline \<notin> set v \<and> last v = CHR ''^'' \<and> length v \<le> length u \<and> u ! (length v - 1) = CHR ''b''"
  using caret_under_error [of "\<lparr>reason = ''x'', err_file = [], err_source = ''a b'', err_plugin = [],
     err_line = Some 1, err_column = 3, err_endColumn = None\<rparr>" 1 "''a b''" undefined 1]
  by (simp add: eval_nat_numeral)

text \<open>Without an end position, a long line is shown with nothing of its text.\<close>

lemma long_line_not_shown:
  assumes "err_line e = Some p" "160 < length f" "err_endColumn e = None"
  shows "shown_line e c p f = ''>'' @ gutter c p @ [newline] @ '' ''
    @ blank is_digit (gutter c p) @ blank (\<lambda>x. x \<noteq> tab) (js_slice 0 (min (err_column e - 1) 19) f) @ ''^''"
  using assms by (simp add: shown_line_def excerpt_def Let_def js_slice_def js_pos_def)

end
