(* ===== verification/Css_Stringifier.thy ===== *)
theory Css_Stringifier
  imports Js_String
begin

text \<open>
  The printer of style sheets bundled for the two web interfaces (class \<open>Stringifier\<close> of
  \<open>tailwind.js\<close>). A node keeps in its \<open>raws\<close> the text the parser found around its parts; a node without
  them, which a plugin made, is printed in the style found elsewhere in the same tree, and failing that
  in a default style. What is found is kept in a cache at the root of the tree.

  A tree is a value here, and the place of a node in it (has it a parent, is it the first child of the
  root, how many ancestors below the root has it) is an argument where the code follows parent pointers.
  Documents, which hold several roots, are not modelled.
\<close>

section \<open>Trees\<close>

datatype raw_key = Before | Between | After | Left | Right | Indent | AfterName | Important | OwnSemicolon

text \<open>The raws that are text, the semicolon after the last declaration, and a value as it was written.\<close>

record raws =
  texts :: "raw_key \<rightharpoonup> string"
  semicolon :: "bool option"
  written :: "(string \<times> string) option"

datatype css =
    Root raws "css list"
  | AtRule raws string string "css list option"
  | Rule raws string "css list"
  | Decl raws string string bool
  | Comment raws string

fun raws_of :: "css \<Rightarrow> raws" where
  "raws_of (Root r ns) = r"
| "raws_of (AtRule r name params ns) = r"
| "raws_of (Rule r sel ns) = r"
| "raws_of (Decl r p v imp) = r"
| "raws_of (Comment r t) = r"

fun nodes_of :: "css \<Rightarrow> css list option" where
  "nodes_of (Root r ns) = Some ns"
| "nodes_of (AtRule r name params ns) = ns"
| "nodes_of (Rule r sel ns) = Some ns"
| "nodes_of (Decl r p v imp) = None"
| "nodes_of (Comment r t) = None"

abbreviation own_raw :: "raw_key \<Rightarrow> css \<Rightarrow> string option" where
  "own_raw k e \<equiv> texts (raws_of e) k"

fun is_decl :: "css \<Rightarrow> bool" where
  "is_decl (Decl r p v imp) = True"
| "is_decl _ = False"

fun is_comment :: "css \<Rightarrow> bool" where
  "is_comment (Comment r t) = True"
| "is_comment _ = False"

fun is_root :: "css \<Rightarrow> bool" where
  "is_root (Root r ns) = True"
| "is_root _ = False"

text \<open>
  \<open>walk\<close> visits the nodes below a node in the order of the text. Each is listed with its depth, 1 for a
  child, and whether it is the first child of its parent.
\<close>

fun walk :: "nat \<Rightarrow> css \<Rightarrow> (nat \<times> bool \<times> css) list"
and walk_nodes :: "nat \<Rightarrow> bool \<Rightarrow> css list \<Rightarrow> (nat \<times> bool \<times> css) list" where
  "walk d (Root r ns) = walk_nodes (Suc d) True ns"
| "walk d (AtRule r name params (Some ns)) = walk_nodes (Suc d) True ns"
| "walk d (AtRule r name params None) = []"
| "walk d (Rule r sel ns) = walk_nodes (Suc d) True ns"
| "walk d (Decl r p v imp) = []"
| "walk d (Comment r t) = []"
| "walk_nodes d first [] = []"
| "walk_nodes d first (n # ns) = (d, first, n) # walk d n @ walk_nodes d False ns"

text \<open>The callbacks stop the walk at the first node that gives a value.\<close>

fun first_some :: "('a \<Rightarrow> 'b option) \<Rightarrow> 'a list \<Rightarrow> 'b option" where
  "first_some f [] = None"
| "first_some f (x # xs) = (case f x of Some y \<Rightarrow> Some y | None \<Rightarrow> first_some f xs)"

definition walk_find :: "(nat \<Rightarrow> bool \<Rightarrow> css \<Rightarrow> 'a option) \<Rightarrow> css \<Rightarrow> 'a option" where
  "walk_find f root = first_some (\<lambda>(d, first, n). f d first n) (walk 0 root)"

section \<open>The style of a tree\<close>

datatype style = BeforeClose | BeforeComment | BeforeDecl | BeforeOpen | BeforeRule | Colon
  | CommentLeft | CommentRight | EmptyBody | IndentBy | PlainBefore | PlainAfter

text \<open>The table of defaults; there is none for a plain \<open>before\<close>, and \<open>after\<close> is a newline.\<close>

fun default_style :: "style \<Rightarrow> string" where
  "default_style PlainAfter = [newline]"
| "default_style BeforeClose = [newline]"
| "default_style BeforeComment = [newline]"
| "default_style BeforeDecl = [newline]"
| "default_style BeforeOpen = '' ''"
| "default_style BeforeRule = [newline]"
| "default_style Colon = '': ''"
| "default_style CommentLeft = '' ''"
| "default_style CommentRight = '' ''"
| "default_style EmptyBody = []"
| "default_style IndentBy = ''    ''"
| "default_style PlainBefore = []"

definition default_semicolon :: bool where
  "default_semicolon = False"

text \<open>Cut down to its white space, without what follows the last newline.\<close>

definition only_space :: "string \<Rightarrow> string" where
  "only_space t = strip_visible (if newline \<in> set t then drop_last_line t else t)"

definition rawBeforeClose :: "css \<Rightarrow> string option" where
  "rawBeforeClose root = map_option only_space (walk_find (\<lambda>d first i.
     case nodes_of i of Some ns \<Rightarrow> if length ns > 0 then own_raw After i else None | None \<Rightarrow> None) root)"

definition beforeComment_found :: "css \<Rightarrow> string option" where
  "beforeComment_found root = map_option only_space (walk_find (\<lambda>d first i.
     if is_comment i then own_raw Before i else None) root)"

definition beforeDecl_found :: "css \<Rightarrow> string option" where
  "beforeDecl_found root = map_option only_space (walk_find (\<lambda>d first i.
     if is_decl i then own_raw Before i else None) root)"

definition rawBeforeOpen :: "css \<Rightarrow> string option" where
  "rawBeforeOpen root = walk_find (\<lambda>d first i. if \<not> is_decl i then own_raw Between i else None) root"

definition rawBeforeRule :: "css \<Rightarrow> string option" where
  "rawBeforeRule root = map_option only_space (walk_find (\<lambda>d first i.
     if nodes_of i \<noteq> None \<and> (d \<noteq> 1 \<or> \<not> first) then own_raw Before i else None) root)"

definition rawColon :: "css \<Rightarrow> string option" where
  "rawColon root = map_option (filter (\<lambda>c. is_js_space c \<or> c = CHR '':'')) (walk_find (\<lambda>d first i.
     if is_decl i then own_raw Between i else None) root)"

definition rawEmptyBody :: "css \<Rightarrow> string option" where
  "rawEmptyBody root = walk_find (\<lambda>d first i. if nodes_of i = Some [] then own_raw After i else None) root"

definition rawIndent :: "css \<Rightarrow> string option" where
  "rawIndent root = (case own_raw Indent root of
     Some (c # cs) \<Rightarrow> Some (c # cs)
   | _ \<Rightarrow> map_option (\<lambda>t. strip_visible (last (split_char newline t)))
           (walk_find (\<lambda>d first i. if d = 2 then own_raw Before i else None) root))"

definition rawSemicolon :: "css \<Rightarrow> bool option" where
  "rawSemicolon root = walk_find (\<lambda>d first i.
     case nodes_of i of Some (n # ns) \<Rightarrow> if is_decl (last (n # ns)) then semicolon (raws_of i) else None
     | _ \<Rightarrow> None) root"

section \<open>The cache\<close>

record raw_cache =
  styles :: "style \<rightharpoonup> string"
  semicolon_style :: "bool option"

definition no_cache :: raw_cache where
  "no_cache = \<lparr>styles = Map.empty, semicolon_style = None\<rparr>"

definition memo :: "style \<Rightarrow> (raw_cache \<Rightarrow> string option \<times> raw_cache) \<Rightarrow> raw_cache \<Rightarrow> string \<times> raw_cache" where
  "memo i f c = (case styles c i of
     Some v \<Rightarrow> (v, c)
   | None \<Rightarrow> let (n, c') = f c; v = (case n of Some v \<Rightarrow> v | None \<Rightarrow> default_style i)
             in (v, c'\<lparr>styles := (styles c')(i \<mapsto> v)\<rparr>))"

text \<open>The detectors that fall back on another style go through the cache of that one.\<close>

definition found_BeforeRule :: "css \<Rightarrow> raw_cache \<Rightarrow> string \<times> raw_cache" where
  "found_BeforeRule root = memo BeforeRule (\<lambda>c. (rawBeforeRule root, c))"

definition rawBeforeDecl :: "css \<Rightarrow> raw_cache \<Rightarrow> string option \<times> raw_cache" where
  "rawBeforeDecl root c = (case beforeDecl_found root of
     Some v \<Rightarrow> (Some v, c)
   | None \<Rightarrow> let (v, c') = found_BeforeRule root c in (Some v, c'))"

definition found_BeforeDecl :: "css \<Rightarrow> raw_cache \<Rightarrow> string \<times> raw_cache" where
  "found_BeforeDecl root = memo BeforeDecl (rawBeforeDecl root)"

definition rawBeforeComment :: "css \<Rightarrow> raw_cache \<Rightarrow> string option \<times> raw_cache" where
  "rawBeforeComment root c = (case beforeComment_found root of
     Some v \<Rightarrow> (Some v, c)
   | None \<Rightarrow> let (v, c') = found_BeforeDecl root c in (Some v, c'))"

text \<open>
  The style \<open>i\<close> of the tree for a node that has a parent. The detector is chosen by the name of the
  style; the two styles of comments, which have none, are the first raw of the tree under their own key.
\<close>

fun found :: "css \<Rightarrow> style \<Rightarrow> raw_cache \<Rightarrow> string \<times> raw_cache" where
  "found root BeforeClose = memo BeforeClose (\<lambda>c. (rawBeforeClose root, c))"
| "found root BeforeComment = memo BeforeComment (rawBeforeComment root)"
| "found root BeforeDecl = found_BeforeDecl root"
| "found root BeforeOpen = memo BeforeOpen (\<lambda>c. (rawBeforeOpen root, c))"
| "found root BeforeRule = found_BeforeRule root"
| "found root Colon = memo Colon (\<lambda>c. (rawColon root, c))"
| "found root CommentLeft = memo CommentLeft (\<lambda>c. (walk_find (\<lambda>d first l. own_raw Left l) root, c))"
| "found root CommentRight = memo CommentRight (\<lambda>c. (walk_find (\<lambda>d first l. own_raw Right l) root, c))"
| "found root EmptyBody = memo EmptyBody (\<lambda>c. (rawEmptyBody root, c))"
| "found root IndentBy = memo IndentBy (\<lambda>c. (rawIndent root, c))"
| "found root PlainBefore = (\<lambda>c. (default_style PlainBefore, c))"
| "found root PlainAfter = (\<lambda>c. (default_style PlainAfter, c))"

section \<open>Raws with the style as a fallback\<close>

text \<open>
  The place of a node: without a parent, or below one, of which we say whether it is a root, whether the
  node is its first child, and how many ancestors below the root the node has.
\<close>

datatype place = Top | Under bool bool nat

fun depth_of :: "place \<Rightarrow> nat" where
  "depth_of Top = 0"
| "depth_of (Under in_root first d) = d"

definition beforeAfter :: "css \<Rightarrow> place \<Rightarrow> css \<Rightarrow> style \<Rightarrow> raw_cache \<Rightarrow> string \<times> raw_cache" where
  "beforeAfter root pl e t c =
     (let (i, c1) = (if is_decl e then found root BeforeDecl c
                     else if is_comment e then found root BeforeComment c
                     else if t = PlainBefore then found root BeforeRule c
                     else found root BeforeClose c)
      in if newline \<in> set i then
           (let (a, c2) = found root IndentBy c1
            in (i @ concat (replicate (depth_of pl) a), c2))
         else (i, c1))"

definition raw :: "css \<Rightarrow> place \<Rightarrow> css \<Rightarrow> raw_key \<Rightarrow> style \<Rightarrow> raw_cache \<Rightarrow> string \<times> raw_cache" where
  "raw root pl e t i c = (case own_raw t e of
     Some n \<Rightarrow> (n, c)
   | None \<Rightarrow>
       (case pl of
          Top \<Rightarrow> (if i = PlainBefore then [] else default_style i, c)
        | Under in_root first d \<Rightarrow>
            if i = PlainBefore \<and> in_root \<and> first then ([], c)
            else if i = PlainBefore \<or> i = PlainAfter then beforeAfter root pl e i c
            else found root i c))"

definition raw_semicolon :: "css \<Rightarrow> place \<Rightarrow> css \<Rightarrow> raw_cache \<Rightarrow> bool \<times> raw_cache" where
  "raw_semicolon root pl e c = (case semicolon (raws_of e) of
     Some n \<Rightarrow> (n, c)
   | None \<Rightarrow>
       if pl = Top then (default_semicolon, c)
       else (case semicolon_style c of
         Some v \<Rightarrow> (v, c)
       | None \<Rightarrow> let v = (case rawSemicolon root of Some v \<Rightarrow> v | None \<Rightarrow> default_semicolon)
                 in (v, c\<lparr>semicolon_style := Some v\<rparr>)))"

definition rawValue :: "css \<Rightarrow> string \<Rightarrow> string" where
  "rawValue e i = (case written (raws_of e) of
     Some (v, r) \<Rightarrow> if v = i then r else i | None \<Rightarrow> i)"

section \<open>Printing\<close>

text \<open>The last child that is not a comment; the first one stands in when all are.\<close>

fun last_statement :: "css list \<Rightarrow> nat \<Rightarrow> nat" where
  "last_statement ns 0 = 0"
| "last_statement ns (Suc t) = (if is_comment (ns ! Suc t) then last_statement ns t else Suc t)"

definition start_rule :: "css \<Rightarrow> string" where
  "start_rule e = (case e of Rule r sel ns \<Rightarrow> rawValue e sel | _ \<Rightarrow> [])"

definition start_atrule :: "css \<Rightarrow> string" where
  "start_atrule e = (case e of
     AtRule r name params ns \<Rightarrow>
       (let n = (if params \<noteq> [] then rawValue e params else []) in
        ''@'' @ name
        @ (case texts r AfterName of Some a \<Rightarrow> a | None \<Rightarrow> if n \<noteq> [] then '' '' else []) @ n)
   | _ \<Rightarrow> [])"

definition or_empty :: "string option \<Rightarrow> string" where
  "or_empty v = (case v of Some s \<Rightarrow> s | None \<Rightarrow> [])"

definition print_comment :: "css \<Rightarrow> place \<Rightarrow> css \<Rightarrow> string \<Rightarrow> raw_cache \<Rightarrow> string \<times> raw_cache" where
  "print_comment root pl e t c =
     (let (l, c1) = raw root pl e Left CommentLeft c;
          (r, c2) = raw root pl e Right CommentRight c1
      in (''/*'' @ l @ t @ r @ ''*/'', c2))"

definition print_decl :: "css \<Rightarrow> place \<Rightarrow> css \<Rightarrow> string \<Rightarrow> string \<Rightarrow> bool \<Rightarrow> bool \<Rightarrow> raw_cache \<Rightarrow> string \<times> raw_cache" where
  "print_decl root pl e p v imp semi c =
     (let (i, c1) = raw root pl e Between Colon c
      in (p @ i @ rawValue e v
          @ (if imp then (case own_raw Important e of Some (x # xs) \<Rightarrow> x # xs | _ \<Rightarrow> '' !important'') else [])
          @ (if semi then '';'' else []), c1))"

text \<open>The children of a node: of a root, they are at depth 0.\<close>

definition child_place :: "css \<Rightarrow> place \<Rightarrow> bool \<Rightarrow> place" where
  "child_place e pl first = Under (is_root e) first (if is_root e then 0 else Suc (depth_of pl))"

text \<open>
  \<open>stringify\<close> dispatches on the type of the node; \<open>body\<close> prints the children, each after what stands
  before it, with a semicolon for all but the last statement, which has one when the style says so;
  \<open>block\<close> puts braces around it. The output is what the builder is given, in order.
\<close>

function (sequential) stringify :: "css \<Rightarrow> place \<Rightarrow> css \<Rightarrow> bool \<Rightarrow> raw_cache \<Rightarrow> string \<times> raw_cache"
and block :: "css \<Rightarrow> place \<Rightarrow> css \<Rightarrow> string \<Rightarrow> css list \<Rightarrow> raw_cache \<Rightarrow> string \<times> raw_cache"
and body :: "css \<Rightarrow> place \<Rightarrow> css \<Rightarrow> css list \<Rightarrow> raw_cache \<Rightarrow> string \<times> raw_cache"
and body_from :: "css \<Rightarrow> (bool \<Rightarrow> place) \<Rightarrow> (nat \<Rightarrow> bool) \<Rightarrow> nat \<Rightarrow> css list \<Rightarrow> raw_cache \<Rightarrow> string \<times> raw_cache" where
  "stringify root pl (Root r ns) semi c =
     (let (out, c') = body root pl (Root r ns) ns c in (out @ or_empty (texts r After), c'))"
| "stringify root pl (Comment r t) semi c = print_comment root pl (Comment r t) t c"
| "stringify root pl (Decl r p v imp) semi c = print_decl root pl (Decl r p v imp) p v imp semi c"
| "stringify root pl (AtRule r name params None) semi c =
     (start_atrule (AtRule r name params None) @ or_empty (texts r Between) @ (if semi then '';'' else []), c)"
| "stringify root pl (AtRule r name params (Some ns)) semi c =
     block root pl (AtRule r name params (Some ns)) (start_atrule (AtRule r name params (Some ns))) ns c"
| "stringify root pl (Rule r sel ns) semi c =
     (let (out, c') = block root pl (Rule r sel ns) (start_rule (Rule r sel ns)) ns c
      in (out @ or_empty (texts r OwnSemicolon), c'))"
| "block root pl e start ns c =
     (let (i, c1) = raw root pl e Between BeforeOpen c;
          (out, c2) = (if ns \<noteq> [] then body root pl e ns c1 else ([], c1));
          (n, c3) = (if ns \<noteq> [] then raw root pl e After PlainAfter c2 else raw root pl e After EmptyBody c2)
      in (start @ i @ ''{'' @ out @ n @ ''}'', c3))"
| "body root pl e ns c =
     (let (s, c1) = raw_semicolon root pl e c
      in body_from root (child_place e pl) (\<lambda>n. last_statement ns (length ns - 1) \<noteq> n \<or> s) 0 ns c1)"
| "body_from root pls semis k [] c = ([], c)"
| "body_from root pls semis k (s # ss) c =
     (let (a, c1) = raw root (pls (k = 0)) s Before PlainBefore c;
          (out, c2) = stringify root (pls (k = 0)) s (semis k) c1;
          (rest, c3) = body_from root pls semis (Suc k) ss c2
      in (a @ out @ rest, c3))"
  by pat_completeness auto
termination
  by (relation "measure (\<lambda>x. case x of
        Inl (Inl (root, pl, e, semi, c)) \<Rightarrow> 3 * size e
      | Inl (Inr (root, pl, e, start, ns, c)) \<Rightarrow> 3 * size_list size ns + 2
      | Inr (Inl (root, pl, e, ns, c)) \<Rightarrow> 3 * size_list size ns + 1
      | Inr (Inr (root, pls, semis, k, ns, c)) \<Rightarrow> 3 * size_list size ns)") auto

section \<open>The style without the cache\<close>

definition or_default :: "style \<Rightarrow> string option \<Rightarrow> string" where
  "or_default i v = (case v of Some s \<Rightarrow> s | None \<Rightarrow> default_style i)"

fun style_of :: "css \<Rightarrow> style \<Rightarrow> string" where
  "style_of root BeforeClose = or_default BeforeClose (rawBeforeClose root)"
| "style_of root BeforeRule = or_default BeforeRule (rawBeforeRule root)"
| "style_of root BeforeDecl = (case beforeDecl_found root of Some v \<Rightarrow> v
     | None \<Rightarrow> or_default BeforeRule (rawBeforeRule root))"
| "style_of root BeforeComment = (case beforeComment_found root of Some v \<Rightarrow> v
     | None \<Rightarrow> (case beforeDecl_found root of Some v \<Rightarrow> v
         | None \<Rightarrow> or_default BeforeRule (rawBeforeRule root)))"
| "style_of root BeforeOpen = or_default BeforeOpen (rawBeforeOpen root)"
| "style_of root Colon = or_default Colon (rawColon root)"
| "style_of root CommentLeft = or_default CommentLeft (walk_find (\<lambda>d first l. own_raw Left l) root)"
| "style_of root CommentRight = or_default CommentRight (walk_find (\<lambda>d first l. own_raw Right l) root)"
| "style_of root EmptyBody = or_default EmptyBody (rawEmptyBody root)"
| "style_of root IndentBy = or_default IndentBy (rawIndent root)"
| "style_of root PlainBefore = default_style PlainBefore"
| "style_of root PlainAfter = default_style PlainAfter"

definition semicolon_of :: "css \<Rightarrow> bool" where
  "semicolon_of root = (case rawSemicolon root of Some v \<Rightarrow> v | None \<Rightarrow> default_semicolon)"

text \<open>A cache holds nothing but the styles of its tree.\<close>

definition cache_ok :: "css \<Rightarrow> raw_cache \<Rightarrow> bool" where
  "cache_ok root c \<longleftrightarrow> (\<forall>i v. styles c i = Some v \<longrightarrow> v = style_of root i)
     \<and> (\<forall>v. semicolon_style c = Some v \<longrightarrow> v = semicolon_of root)"

definition plain_beforeAfter :: "css \<Rightarrow> place \<Rightarrow> css \<Rightarrow> style \<Rightarrow> string" where
  "plain_beforeAfter root pl e t =
     (let i = style_of root (if is_decl e then BeforeDecl else if is_comment e then BeforeComment
                             else if t = PlainBefore then BeforeRule else BeforeClose)
      in if newline \<in> set i then i @ concat (replicate (depth_of pl) (style_of root IndentBy)) else i)"

definition plain_raw :: "css \<Rightarrow> place \<Rightarrow> css \<Rightarrow> raw_key \<Rightarrow> style \<Rightarrow> string" where
  "plain_raw root pl e t i = (case own_raw t e of
     Some n \<Rightarrow> n
   | None \<Rightarrow>
       (case pl of
          Top \<Rightarrow> default_style i
        | Under in_root first d \<Rightarrow>
            if i = PlainBefore \<and> in_root \<and> first then []
            else if i = PlainBefore \<or> i = PlainAfter then plain_beforeAfter root pl e i
            else style_of root i))"

definition plain_semicolon :: "css \<Rightarrow> place \<Rightarrow> css \<Rightarrow> bool" where
  "plain_semicolon root pl e = (case semicolon (raws_of e) of
     Some n \<Rightarrow> n | None \<Rightarrow> if pl = Top then default_semicolon else semicolon_of root)"

text \<open>The text of a tree, with no state.\<close>

definition braces :: "css \<Rightarrow> place \<Rightarrow> css \<Rightarrow> string \<Rightarrow> css list \<Rightarrow> string \<Rightarrow> string" where
  "braces root pl e start ns inner =
     start @ plain_raw root pl e Between BeforeOpen @ ''{'' @ inner
     @ plain_raw root pl e After (if ns \<noteq> [] then PlainAfter else EmptyBody) @ ''}''"

definition semis_of :: "css \<Rightarrow> place \<Rightarrow> css \<Rightarrow> css list \<Rightarrow> nat \<Rightarrow> bool" where
  "semis_of root pl e ns = (\<lambda>n. last_statement ns (length ns - 1) \<noteq> n \<or> plain_semicolon root pl e)"

fun render :: "css \<Rightarrow> place \<Rightarrow> css \<Rightarrow> bool \<Rightarrow> string"
and render_nodes :: "css \<Rightarrow> (bool \<Rightarrow> place) \<Rightarrow> (nat \<Rightarrow> bool) \<Rightarrow> nat \<Rightarrow> css list \<Rightarrow> string" where
  "render root pl (Root r ns) semi =
     render_nodes root (child_place (Root r ns) pl) (semis_of root pl (Root r ns) ns) 0 ns @ or_empty (texts r After)"
| "render root pl (Comment r t) semi =
     ''/*'' @ plain_raw root pl (Comment r t) Left CommentLeft @ t
       @ plain_raw root pl (Comment r t) Right CommentRight @ ''*/''"
| "render root pl (Decl r p v imp) semi =
     p @ plain_raw root pl (Decl r p v imp) Between Colon @ rawValue (Decl r p v imp) v
       @ (if imp then (case texts r Important of Some (x # xs) \<Rightarrow> x # xs | _ \<Rightarrow> '' !important'') else [])
       @ (if semi then '';'' else [])"
| "render root pl (AtRule r name params None) semi =
     start_atrule (AtRule r name params None) @ or_empty (texts r Between) @ (if semi then '';'' else [])"
| "render root pl (AtRule r name params (Some ns)) semi =
     (let e = AtRule r name params (Some ns) in
      braces root pl e (start_atrule e) ns (render_nodes root (child_place e pl) (semis_of root pl e ns) 0 ns))"
| "render root pl (Rule r sel ns) semi =
     (let e = Rule r sel ns in
      braces root pl e (start_rule e) ns (render_nodes root (child_place e pl) (semis_of root pl e ns) 0 ns)
      @ or_empty (texts r OwnSemicolon))"
| "render_nodes root pls semis k [] = []"
| "render_nodes root pls semis k (s # ss) =
     plain_raw root (pls (k = 0)) s Before PlainBefore @ render root (pls (k = 0)) s (semis k)
     @ render_nodes root pls semis (Suc k) ss"

section \<open>The cache is transparent\<close>

definition cached :: "css \<Rightarrow> 'a \<times> raw_cache \<Rightarrow> 'a \<Rightarrow> bool" where
  "cached root r v \<longleftrightarrow> fst r = v \<and> cache_ok root (snd r)"

lemma cachedE: "cached root r v \<Longrightarrow> (\<And>c. r = (v, c) \<Longrightarrow> cache_ok root c \<Longrightarrow> P) \<Longrightarrow> P"
  by (cases r) (simp add: cached_def)

lemma cached_pair [simp]: "cached root (w, c) v \<longleftrightarrow> w = v \<and> cache_ok root c"
  by (simp add: cached_def)

lemma cached_memo:
  assumes "cache_ok root c" "cached root (f c) n" "or_default i n = style_of root i"
  shows "cached root (memo i f c) (style_of root i)"
  using assms by (cases "f c")
    (auto simp: memo_def cache_ok_def or_default_def cached_def Let_def split: option.splits)

lemma cached_BeforeRule: "cache_ok root c \<Longrightarrow> cached root (found_BeforeRule root c) (style_of root BeforeRule)"
  unfolding found_BeforeRule_def by (rule cached_memo [where n = "rawBeforeRule root"]) simp_all

lemma cached_BeforeDecl:
  assumes "cache_ok root c"
  shows "cached root (found_BeforeDecl root c) (style_of root BeforeDecl)"
proof -
  have "cached root (rawBeforeDecl root c) (Some (style_of root BeforeDecl))"
    using assms cached_BeforeRule [OF assms]
    by (auto simp: rawBeforeDecl_def elim!: cachedE split: option.splits)
  then show ?thesis
    unfolding found_BeforeDecl_def by (intro cached_memo [OF assms]) (auto simp: or_default_def)
qed

lemma cached_BeforeComment:
  assumes "cache_ok root c"
  shows "cached root (memo BeforeComment (rawBeforeComment root) c) (style_of root BeforeComment)"
proof -
  have "cached root (rawBeforeComment root c) (Some (style_of root BeforeComment))"
    using assms cached_BeforeDecl [OF assms]
    by (auto simp: rawBeforeComment_def elim!: cachedE split: option.splits)
  then show ?thesis
    by (intro cached_memo [OF assms]) (auto simp: or_default_def)
qed

lemma cached_detector:
  "cache_ok root c \<Longrightarrow> or_default i n = style_of root i \<Longrightarrow> cached root (memo i (Pair n) c) (style_of root i)"
  by (rule cached_memo) simp_all

lemma cached_found: "cache_ok root c \<Longrightarrow> cached root (found root i c) (style_of root i)"
  by (cases i) (auto simp del: style_of.simps
    intro: cached_detector cached_BeforeRule cached_BeforeDecl cached_BeforeComment style_of.simps [symmetric]
    simp: style_of.simps(11,12))

lemma cached_beforeAfter:
  assumes "cache_ok root c"
  shows "cached root (beforeAfter root pl e t c) (plain_beforeAfter root pl e t)"
proof -
  let ?i = "if is_decl e then BeforeDecl else if is_comment e then BeforeComment
    else if t = PlainBefore then BeforeRule else BeforeClose"
  have eq: "(if is_decl e then found root BeforeDecl c else if is_comment e then found root BeforeComment c
      else if t = PlainBefore then found root BeforeRule c else found root BeforeClose c) = found root ?i c"
    by simp
  obtain c1 where c1: "found root ?i c = (style_of root ?i, c1)" "cache_ok root c1"
    using cached_found [OF assms] by (rule cachedE)
  obtain c2 where "found root IndentBy c1 = (style_of root IndentBy, c2)" "cache_ok root c2"
    using cached_found [OF c1(2)] by (rule cachedE)
  then show ?thesis
    unfolding beforeAfter_def eq c1(1) using c1(2) by (simp add: plain_beforeAfter_def Let_def)
qed

lemma cached_raw: "cache_ok root c \<Longrightarrow> cached root (raw root pl e t i c) (plain_raw root pl e t i)"
  by (auto simp: raw_def plain_raw_def intro: cached_beforeAfter cached_found split: option.split place.split)

lemma cached_semicolon: "cache_ok root c \<Longrightarrow> cached root (raw_semicolon root pl e c) (plain_semicolon root pl e)"
  by (auto simp: raw_semicolon_def plain_semicolon_def cache_ok_def semicolon_of_def Let_def split: option.split)

declare style_of.simps [simp del] stringify.simps [simp del] block.simps [simp del]
  body.simps [simp del] body_from.simps [simp del]

lemma cached_map: "cached root r v \<Longrightarrow> cached root (let (out, c) = r in (g out, c)) (g v)"
  by (auto elim!: cachedE)

lemma cached_bind:
  "cached root r v \<Longrightarrow> (\<And>c. cache_ok root c \<Longrightarrow> cached root (k v c) w) \<Longrightarrow> cached root (let (x, c) = r in k x c) w"
  by (auto elim!: cachedE)

lemma cached_comment:
  "cache_ok root c \<Longrightarrow> cached root (print_comment root pl (Comment r t) t c) (render root pl (Comment r t) semi)"
  unfolding print_comment_def by (intro cached_bind [OF cached_raw] cached_bind [OF cached_raw]) simp_all

lemma cached_decl:
  "cache_ok root c \<Longrightarrow>
     cached root (print_decl root pl (Decl r p v imp) p v imp semi c) (render root pl (Decl r p v imp) semi)"
  unfolding print_decl_def by (intro cached_bind [OF cached_raw]) simp_all

lemma cached_stringify:
  "cache_ok root c \<Longrightarrow> cached root (stringify root pl e semi c) (render root pl e semi)"
  "cache_ok root c \<Longrightarrow> cached root (block root pl e start ns c)
     (braces root pl e start ns (render_nodes root (child_place e pl) (semis_of root pl e ns) 0 ns))"
  "cache_ok root c \<Longrightarrow> cached root (body root pl e ns c)
     (render_nodes root (child_place e pl) (semis_of root pl e ns) 0 ns)"
  "cache_ok root c \<Longrightarrow> cached root (body_from root pls semis k ns c) (render_nodes root pls semis k ns)"
proof (induction root pl e semi c and root pl e start ns c and root pl e ns c and root pls semis k ns c
    rule: stringify_block_body_body_from.induct)
  case (1 root pl r ns semi c)
  then show ?case
    unfolding stringify.simps render.simps by (intro cached_map [where g = "\<lambda>out. out @ or_empty (texts r After)"])
next
  case (2 root pl r t semi c)
  then show ?case unfolding stringify.simps by (rule cached_comment)
next
  case (3 root pl r p v imp semi c)
  then show ?case unfolding stringify.simps by (rule cached_decl)
next
  case (4 root pl r name params semi c)
  then show ?case by (simp add: stringify.simps)
next
  case (5 root pl r name params ns semi c)
  then show ?case by (simp add: stringify.simps Let_def)
next
  case (6 root pl r sel ns semi c)
  then show ?case
    unfolding stringify.simps render.simps Let_def
    by (intro cached_map [unfolded Let_def, where g = "\<lambda>out. out @ or_empty (texts r OwnSemicolon)"])
next
  case (7 root pl e start ns c)
  obtain c1 where c1: "raw root pl e Between BeforeOpen c = (plain_raw root pl e Between BeforeOpen, c1)"
    "cache_ok root c1"
    using cached_raw [OF 7(2)] by (rule cachedE)
  let ?inner = "render_nodes root (child_place e pl) (semis_of root pl e ns) 0 ns"
  have "cached root (if ns \<noteq> [] then body root pl e ns c1 else ([], c1)) ?inner"
    using 7(1) [OF c1(1) [symmetric]] c1(2) by simp
  then obtain c2 where c2: "(if ns \<noteq> [] then body root pl e ns c1 else ([], c1)) = (?inner, c2)" "cache_ok root c2"
    by (rule cachedE)
  have "cached root (if ns \<noteq> [] then raw root pl e After PlainAfter c2 else raw root pl e After EmptyBody c2)
      (plain_raw root pl e After (if ns \<noteq> [] then PlainAfter else EmptyBody))"
    using cached_raw [OF c2(2)] by simp
  then show ?case
    unfolding block.simps c1(1) Let_def prod.case c2(1)
    by (auto simp: braces_def elim!: cachedE)
next
  case (8 root pl e ns c)
  obtain c1 where c1: "raw_semicolon root pl e c = (plain_semicolon root pl e, c1)" "cache_ok root c1"
    using cached_semicolon [OF 8(2)] by (rule cachedE)
  then show ?case using 8(1) by (simp add: body.simps semis_of_def)
next
  case (9 root pls semis k c)
  then show ?case by (simp add: body_from.simps)
next
  case (10 root pls semis k s ss c)
  obtain c1 where c1: "raw root (pls (k = 0)) s Before PlainBefore c
      = (plain_raw root (pls (k = 0)) s Before PlainBefore, c1)" "cache_ok root c1"
    using cached_raw [OF 10(3)] by (rule cachedE)
  obtain c2 where c2: "stringify root (pls (k = 0)) s (semis k) c1
      = (render root (pls (k = 0)) s (semis k), c2)" "cache_ok root c2"
    using 10(1) [OF c1(1) [symmetric]] c1(2) by (auto elim: cachedE)
  have "cached root (body_from root pls semis (Suc k) ss c2) (render_nodes root pls semis (Suc k) ss)"
    using 10(2) [OF c1(1) [symmetric] refl c2(1) [symmetric]] c2(2) by simp
  then show ?case
    by (auto simp: body_from.simps c1(1) c2(1) elim!: cachedE)
qed

section \<open>A tree without raws\<close>

definition no_raws :: raws where
  "no_raws = \<lparr>texts = Map.empty, semicolon = None, written = None\<rparr>"

fun bare :: "css \<Rightarrow> bool"
and bare_nodes :: "css list \<Rightarrow> bool" where
  "bare (Root r ns) = (r = no_raws \<and> bare_nodes ns)"
| "bare (AtRule r name params (Some ns)) = (r = no_raws \<and> bare_nodes ns)"
| "bare (AtRule r name params None) = (r = no_raws)"
| "bare (Rule r sel ns) = (r = no_raws \<and> bare_nodes ns)"
| "bare (Decl r p v imp) = (r = no_raws)"
| "bare (Comment r t) = (r = no_raws)"
| "bare_nodes [] = True"
| "bare_nodes (n # ns) = (bare n \<and> bare_nodes ns)"

text \<open>
  The default layout: every node on a line of its own, four spaces deeper than the block it stands in, a
  space before the brace, a colon and a space in a declaration, and a semicolon after every declaration
  and at-rule without a block that is not the last statement of its block.
\<close>

definition new_line :: "nat \<Rightarrow> string" where
  "new_line d = newline # concat (replicate d ''    '')"

fun wants_semicolon :: "css \<Rightarrow> bool" where
  "wants_semicolon (Decl r p v imp) = True"
| "wants_semicolon (AtRule r name params None) = True"
| "wants_semicolon _ = False"

fun layout :: "nat \<Rightarrow> css \<Rightarrow> string"
and layout_nodes :: "bool \<Rightarrow> nat \<Rightarrow> nat \<Rightarrow> nat \<Rightarrow> css list \<Rightarrow> string" where
  "layout d (Root r ns) = layout_nodes True 0 (last_statement ns (length ns - 1)) 0 ns"
| "layout d (Comment r t) = ''/* '' @ t @ '' */''"
| "layout d (Decl r p v imp) = p @ '': '' @ v @ (if imp then '' !important'' else [])"
| "layout d (AtRule r name params None) = ''@'' @ name @ (if params = [] then [] else '' '' @ params)"
| "layout d (AtRule r name params (Some ns)) =
     ''@'' @ name @ (if params = [] then [] else '' '' @ params) @ '' {''
     @ layout_nodes False (Suc d) (last_statement ns (length ns - 1)) 0 ns
     @ (if ns = [] then [] else new_line d) @ ''}''"
| "layout d (Rule r sel ns) =
     sel @ '' {'' @ layout_nodes False (Suc d) (last_statement ns (length ns - 1)) 0 ns
     @ (if ns = [] then [] else new_line d) @ ''}''"
| "layout_nodes in_root d stop k [] = []"
| "layout_nodes in_root d stop k (s # ss) =
     (if in_root \<and> k = 0 then [] else new_line d) @ layout d s
     @ (if k \<noteq> stop \<and> wants_semicolon s then '';'' else []) @ layout_nodes in_root d stop (Suc k) ss"

lemma bare_raws [simp]: "bare e \<Longrightarrow> raws_of e = no_raws"
  by (cases e rule: bare.cases) auto

lemma bare_walk:
  "bare e \<Longrightarrow> (d, first, n) \<in> set (walk k e) \<Longrightarrow> raws_of n = no_raws"
  "bare_nodes ns \<Longrightarrow> (d, first, n) \<in> set (walk_nodes k f ns) \<Longrightarrow> raws_of n = no_raws"
  by (induction k e and k f ns rule: walk_walk_nodes.induct) auto

lemma first_some_None: "first_some f xs = None \<longleftrightarrow> (\<forall>x\<in>set xs. f x = None)"
  by (induction xs) (auto split: option.splits)

lemma walk_find_bare:
  assumes "bare root" "\<And>d first n. raws_of n = no_raws \<Longrightarrow> f d first n = None"
  shows "walk_find f root = None"
  using assms bare_walk(1) [OF assms(1)] by (fastforce simp: walk_find_def first_some_None)

lemma no_raws_sel [simp]:
  "texts no_raws k = None" "semicolon no_raws = None" "written no_raws = None"
  by (simp_all add: no_raws_def)

lemma bare_style:
  assumes "bare root"
  shows "style_of root i = default_style i" "\<not> semicolon_of root"
proof -
  note defs = rawBeforeClose_def rawBeforeRule_def beforeDecl_found_def beforeComment_found_def
    rawBeforeOpen_def rawColon_def rawEmptyBody_def rawIndent_def or_default_def
  have none: "walk_find f root = None" if "\<And>d first n. raws_of n = no_raws \<Longrightarrow> f d first n = None"
    for f :: "nat \<Rightarrow> bool \<Rightarrow> css \<Rightarrow> string option"
    using walk_find_bare [OF assms that] .
  show "style_of root i = default_style i"
    by (cases i) (simp_all add: style_of.simps defs none assms split: option.split)
  have "rawSemicolon root = None"
    unfolding rawSemicolon_def by (rule walk_find_bare [OF assms]) (auto split: option.split list.split)
  then show "\<not> semicolon_of root" by (simp add: semicolon_of_def default_semicolon_def)
qed

lemma bare_plain_raw:
  assumes "bare root" "bare e"
  shows "plain_raw root pl e Between BeforeOpen = '' ''" "plain_raw root pl e Between Colon = '': ''"
    "plain_raw root pl e Left CommentLeft = '' ''" "plain_raw root pl e Right CommentRight = '' ''"
    "plain_raw root pl e After EmptyBody = []" "plain_raw root pl e After PlainAfter = new_line (depth_of pl)"
    "plain_raw root (Under in_root first d) e Before PlainBefore = (if in_root \<and> first then [] else new_line d)"
    "plain_semicolon root pl e = False"
  using assms by (auto simp: plain_raw_def plain_beforeAfter_def plain_semicolon_def bare_style new_line_def
    default_semicolon_def split: place.split)

lemma bare_semis: "bare root \<Longrightarrow> bare e \<Longrightarrow> semis_of root pl e ns = (\<lambda>n. last_statement ns (length ns - 1) \<noteq> n)"
  by (simp add: semis_of_def bare_plain_raw)

lemma bare_render:
  "bare root \<Longrightarrow> bare e \<Longrightarrow> render root pl e semi
     = layout (depth_of pl) e @ (if semi \<and> wants_semicolon e then '';'' else [])"
  "bare root \<Longrightarrow> bare_nodes ns \<Longrightarrow> (\<And>first. pls first = Under in_root first d) \<Longrightarrow> semis = (\<lambda>n. stop \<noteq> n)
     \<Longrightarrow> render_nodes root pls semis k ns = layout_nodes in_root d stop k ns"
proof (induction root pl e semi and root pls semis k ns arbitrary: and in_root d stop
    rule: render_render_nodes.induct)
qed (auto simp: bare_plain_raw bare_semis braces_def start_rule_def start_atrule_def rawValue_def or_empty_def
    child_place_def Let_def)

lemma no_cache_ok: "cache_ok root no_cache"
  by (simp add: cache_ok_def no_cache_def)

section \<open>Properties\<close>

text \<open>
  C37: The style cache changes nothing. From a cache that holds styles of the tree, as the empty one does,
  printing any node at any place of the tree gives the text that detecting every style afresh gives, and
  leaves such a cache, so that printing again, or printing a part first, gives the same text.
\<close>

theorem stringify_refines:
  assumes "cache_ok root c"
  shows "fst (stringify root pl e semi c) = render root pl e semi \<and> cache_ok root (snd (stringify root pl e semi c))"
  using cached_stringify(1) [OF assms] by (simp add: cached_def)

lemma stringify_refines_witness:
  "fst (stringify (Rule no_raws ''a'' []) Top (Rule no_raws ''a'' []) False no_cache) = ''a {}''"
proof -
  have "render (Rule no_raws ''a'' []) Top (Rule no_raws ''a'' []) False = ''a {}''"
    using bare_render(1) [of "Rule no_raws ''a'' []" "Rule no_raws ''a'' []" Top False] by (simp del: render.simps)
  then show ?thesis
    using stringify_refines [OF no_cache_ok, of "Rule no_raws ''a'' []" Top "Rule no_raws ''a'' []" False] by simp
qed

text \<open>
  The default layout. A style sheet that carries no formatting of its own, as one that plugins built,
  is printed with every node on its own line, four spaces per level, and semicolons exactly after the
  declarations and block-less at-rules that are not the last statement of their block.
\<close>

theorem default_layout:
  assumes "bare (Root r ns)"
  shows "fst (stringify (Root r ns) Top (Root r ns) False no_cache) = layout 0 (Root r ns)"
  using cached_stringify(1) [OF no_cache_ok, of "Root r ns" Top "Root r ns" False] bare_render(1) [OF assms assms, of Top False]
  by (simp add: cached_def)

lemma default_layout_witness:
  "fst (stringify (Root no_raws [Rule no_raws ''a'' [Decl no_raws ''top'' ''0'' False, Decl no_raws ''left'' ''0'' True],
      AtRule no_raws ''import'' ''x'' None]) Top
     (Root no_raws [Rule no_raws ''a'' [Decl no_raws ''top'' ''0'' False, Decl no_raws ''left'' ''0'' True],
      AtRule no_raws ''import'' ''x'' None]) False no_cache)
   = ''a {'' @ [newline] @ ''    top: 0;'' @ [newline] @ ''    left: 0 !important'' @ [newline] @ ''}''
     @ [newline] @ ''@import x''"
  by (subst default_layout) (simp_all add: new_line_def)

end
