(* ===== verification/Css_List.thy ===== *)
theory Css_List
  imports Js_String
begin

text \<open>
  Lists in values of style sheets (module \<open>list\<close> of the style engine bundled in \<open>tailwind.js\<close>): a value
  is cut at its separators, but not at those inside quotes or parentheses or after a backslash.
\<close>

record list_scan =
  depth :: nat
  in_quote :: "char option"
  escape :: bool

definition scan_start :: list_scan where
  "scan_start = \<lparr>depth = 0, in_quote = None, escape = False\<rparr>"

text \<open>One character: the new state, and whether it is a separator.\<close>

definition scan_char :: "char set \<Rightarrow> list_scan \<Rightarrow> char \<Rightarrow> list_scan \<times> bool" where
  "scan_char seps st f =
     (if escape st then (st\<lparr>escape := False\<rparr>, False)
      else if f = CHR 0x5C then (st\<lparr>escape := True\<rparr>, False)
      else case in_quote st of
        Some q \<Rightarrow> (if f = q then st\<lparr>in_quote := None\<rparr> else st, False)
      | None \<Rightarrow>
          if f = CHR 0x22 \<or> f = CHR 0x27 then (st\<lparr>in_quote := Some f\<rparr>, False)
          else if f = CHR ''('' then (st\<lparr>depth := depth st + 1\<rparr>, False)
          else if f = CHR '')'' then (st\<lparr>depth := depth st - 1\<rparr>, False)
          else (st, depth st = 0 \<and> f \<in> seps))"

text \<open>
  \<open>n\<close> holds the item so far; an empty item is dropped, except the one at the end when \<open>keep_last\<close> is set.
\<close>

fun split_items :: "char set \<Rightarrow> bool \<Rightarrow> list_scan \<Rightarrow> string \<Rightarrow> string \<Rightarrow> string list" where
  "split_items seps keep_last st n [] = (if keep_last \<or> n \<noteq> [] then [js_trim n] else [])"
| "split_items seps keep_last st n (f # fs) =
     (let (st', cut) = scan_char seps st f in
      if cut then (if n \<noteq> [] then [js_trim n] else []) @ split_items seps keep_last st' [] fs
      else split_items seps keep_last st' (n @ [f]) fs)"

definition list_split :: "string \<Rightarrow> char set \<Rightarrow> bool \<Rightarrow> string list" where
  "list_split s seps keep_last = split_items seps keep_last scan_start [] s"

definition list_comma :: "string \<Rightarrow> string list" where
  "list_comma s = list_split s {CHR '',''} True"

definition list_space :: "string \<Rightarrow> string list" where
  "list_space s = list_split s {CHR '' '', newline, tab} False"

section \<open>Items\<close>

text \<open>The state after a text in which nothing is a separator, if there is none.\<close>

fun scan_item :: "char set \<Rightarrow> list_scan \<Rightarrow> string \<Rightarrow> list_scan option" where
  "scan_item seps st [] = Some st"
| "scan_item seps st (f # fs) =
     (let (st', cut) = scan_char seps st f in if cut then None else scan_item seps st' fs)"

text \<open>An item: a text that is not empty, closes all it opens, and has separators only inside.\<close>

definition list_item :: "char set \<Rightarrow> string \<Rightarrow> bool" where
  "list_item seps x \<longleftrightarrow> x \<noteq> [] \<and> scan_item seps scan_start x = Some scan_start"

definition plain_separator :: "char set \<Rightarrow> char \<Rightarrow> bool" where
  "plain_separator seps c \<longleftrightarrow> c \<in> seps \<and> c \<notin> {CHR 0x5C, CHR 0x22, CHR 0x27, CHR ''('', CHR '')''}"

lemma split_items_text:
  "scan_item seps st x = Some st' \<Longrightarrow>
     split_items seps keep_last st n (x @ rest) = split_items seps keep_last st' (n @ x) rest"
  by (induction x arbitrary: st n) (auto split: prod.splits if_splits)

lemma split_items_join:
  "xs \<noteq> [] \<Longrightarrow> list_all (list_item seps) xs \<Longrightarrow> plain_separator seps c \<Longrightarrow>
     split_items seps keep_last scan_start [] (join [c] xs) = map js_trim xs"
proof (induction xs rule: induct_list012)
  case (2 x)
  then show ?case using split_items_text [of seps scan_start x scan_start keep_last "[]" "[]"]
    by (simp add: list_item_def)
next
  case (3 x y ys)
  have "scan_char seps scan_start c = (scan_start, True)"
    using 3(5) by (auto simp: plain_separator_def scan_char_def scan_start_def)
  then show ?case
    using 3 split_items_text [of seps scan_start x scan_start keep_last "[]" "[c] @ join [c] (y # ys)"]
    by (simp add: list_item_def)
qed simp

section \<open>Properties\<close>

text \<open>
  Splitting undoes joining. Items that close their own quotes and parentheses, and hold separators only
  inside those or after a backslash, joined by a separator and split again, come back one by one, trimmed:
  a comma inside \<open>rgb(1, 2)\<close> or a quoted string is never taken for the end of an item.
\<close>

theorem list_split_join:
  assumes "xs \<noteq> []" "list_all (list_item seps) xs" "plain_separator seps c"
  shows "list_split (join [c] xs) seps keep_last = map js_trim xs"
  using split_items_join [OF assms] by (simp add: list_split_def)

lemma list_split_join_witness:
  "list_split (join '','' [''rgb(1, 2)'', '' b'']) {CHR '',''} True = [''rgb(1, 2)'', ''b'']"
proof -
  have "list_all (list_item {CHR '',''}) [''rgb(1, 2)'', '' b'']"
    by (simp add: list_item_def scan_char_def scan_start_def)
  moreover have "plain_separator {CHR '',''} CHR '',''" by (simp add: plain_separator_def)
  ultimately show ?thesis
    using list_split_join [of "[''rgb(1, 2)'', '' b'']" "{CHR '',''}" "CHR '',''" True]
    by (simp add: js_trim_def is_js_space_def)
qed

end
