(* ===== verification/Css_Candidates.thy ===== *)
theory Css_Candidates
  imports Js_String
begin

text \<open>
  How the style engine bundled in \<open>tailwind.js\<close> finds the class names of a page: the text is cut into
  lines, each line that was not seen before is given to the extractor, and what the extractor found in a
  line is kept in a cache of bounded size, the class \<open>QuickLRU\<close>, as the engine makes it: without an age
  limit and without a callback.
\<close>

section \<open>The cache\<close>

text \<open>Two generations of entries; \<open>lru_size\<close> counts those of the young one.\<close>

record 'v lru =
  young :: "string \<rightharpoonup> 'v"
  old :: "string \<rightharpoonup> 'v"
  lru_size :: nat

definition lru_new :: "'v lru" where
  "lru_new = \<lparr>young = Map.empty, old = Map.empty, lru_size = 0\<rparr>"

text \<open>\<open>_set\<close>: when the young generation is full it becomes the old one, which is dropped.\<close>

definition lru_insert :: "nat \<Rightarrow> string \<Rightarrow> 'v \<Rightarrow> 'v lru \<Rightarrow> 'v lru" where
  "lru_insert maxSize k v l =
     (let y = (young l)(k \<mapsto> v) in
      if Suc (lru_size l) \<ge> maxSize then \<lparr>young = Map.empty, old = y, lru_size = 0\<rparr>
      else \<lparr>young = y, old = old l, lru_size = Suc (lru_size l)\<rparr>)"

definition lru_set :: "nat \<Rightarrow> string \<Rightarrow> 'v \<Rightarrow> 'v lru \<Rightarrow> 'v lru" where
  "lru_set maxSize k v l =
     (if young l k \<noteq> None then l\<lparr>young := (young l)(k \<mapsto> v)\<rparr> else lru_insert maxSize k v l)"

definition lru_has :: "string \<Rightarrow> 'v lru \<Rightarrow> bool" where
  "lru_has k l \<longleftrightarrow> young l k \<noteq> None \<or> old l k \<noteq> None"

text \<open>Reading an old entry moves it to the young generation.\<close>

definition lru_get :: "nat \<Rightarrow> string \<Rightarrow> 'v lru \<Rightarrow> 'v option \<times> 'v lru" where
  "lru_get maxSize k l = (case young l k of
     Some v \<Rightarrow> (Some v, l)
   | None \<Rightarrow> (case old l k of
       Some v \<Rightarrow> (Some v, lru_insert maxSize k v (l\<lparr>old := (old l)(k := None)\<rparr>))
     | None \<Rightarrow> (None, l)))"

definition lru_inv :: "nat \<Rightarrow> 'v lru \<Rightarrow> bool" where
  "lru_inv maxSize l \<longleftrightarrow> finite (dom (young l)) \<and> finite (dom (old l))
     \<and> lru_size l = card (dom (young l)) \<and> lru_size l < maxSize \<and> card (dom (old l)) \<le> maxSize"

text \<open>What the cache holds for a key; an entry may be dropped at any time, but never changed.\<close>

definition lru_look :: "'v lru \<Rightarrow> string \<rightharpoonup> 'v" where
  "lru_look l k = (case young l k of Some v \<Rightarrow> Some v | None \<Rightarrow> old l k)"

section \<open>Extraction\<close>

text \<open>
  \<open>O2\<close>: \<open>e\<close> is the extractor, \<open>t\<close> the candidates so far and \<open>i\<close> the lines seen; the token \<open>!*\<close> is no
  candidate. The \<open>WeakMap\<close> of the code holds one cache per extractor, made when it is first used, which
  is the argument \<open>l\<close>.
\<close>

record extraction =
  candidates :: "string set"
  seen_lines :: "string set"
  line_cache :: "string list lru"

definition cache_limit :: nat where
  "cache_limit = 25000"

definition extract_line :: "(string \<Rightarrow> string list) \<Rightarrow> extraction \<Rightarrow> string \<Rightarrow> extraction" where
  "extract_line e s line =
     (let n = js_trim line in
      if n \<in> seen_lines s then s
      else
        let s = s\<lparr>seen_lines := insert n (seen_lines s)\<rparr> in
        if lru_has n (line_cache s) then
          (let (v, l) = lru_get cache_limit n (line_cache s) in
           s\<lparr>candidates := candidates s \<union> set (case v of Some xs \<Rightarrow> xs | None \<Rightarrow> []), line_cache := l\<rparr>)
        else
          (let found = filter (\<lambda>x. x \<noteq> ''!*'') (e n) in
           s\<lparr>candidates := candidates s \<union> set found,
             line_cache := lru_set cache_limit n (remdups found) (line_cache s)\<rparr>))"

definition extract_candidates :: "(string \<Rightarrow> string list) \<Rightarrow> string \<Rightarrow> extraction \<Rightarrow> extraction" where
  "extract_candidates e content s = foldl (extract_line e) s (split_char newline content)"

section \<open>Proofs\<close>

lemma lru_inv_new: "0 < maxSize \<Longrightarrow> lru_inv maxSize lru_new"
  by (simp add: lru_inv_def lru_new_def)

lemma lru_inv_insert:
  assumes "lru_inv maxSize l" "young l k = None"
  shows "lru_inv maxSize (lru_insert maxSize k v l)"
proof -
  have "k \<notin> dom (young l)" using assms(2) by auto
  then have "card (dom ((young l)(k \<mapsto> v))) = Suc (lru_size l)"
    using assms(1) by (simp add: lru_inv_def)
  then show ?thesis using assms(1) by (auto simp: lru_inv_def lru_insert_def Let_def)
qed

lemma lru_inv_set: "lru_inv maxSize l \<Longrightarrow> lru_inv maxSize (lru_set maxSize k v l)"
  using lru_inv_insert [of maxSize l k v]
  by (auto simp: lru_set_def lru_inv_def insert_absorb domI)

lemma lru_inv_get: "lru_inv maxSize l \<Longrightarrow> lru_inv maxSize (snd (lru_get maxSize k l))"
proof -
  assume inv: "lru_inv maxSize l"
  have "lru_inv maxSize (l\<lparr>old := (old l)(k := None)\<rparr>)"
    using inv by (auto simp: lru_inv_def intro: le_trans [OF card_Diff1_le])
  then show ?thesis
    using inv by (auto simp: lru_get_def lru_inv_insert split: option.split)
qed

lemma lru_look_insert:
  "lru_look (lru_insert maxSize k v l) k' = Some w \<Longrightarrow> (if k' = k then w = v else lru_look l k' = Some w)"
  by (auto simp: lru_look_def lru_insert_def Let_def split: option.splits if_splits)

lemma lru_look_insert_same [simp]: "lru_look (lru_insert maxSize k v l) k = Some v"
  by (simp add: lru_look_def lru_insert_def Let_def)

lemma lru_look_set:
  "lru_look (lru_set maxSize k v l) k' = Some w \<Longrightarrow> (if k' = k then w = v else lru_look l k' = Some w)"
  using lru_look_insert [of maxSize k v l k' w]
  by (auto simp: lru_set_def lru_look_def split: option.splits if_splits)

lemma lru_look_set_same [simp]: "lru_look (lru_set maxSize k v l) k = Some v"
  using lru_look_insert_same [of maxSize k v l] by (auto simp: lru_set_def lru_look_def)

lemma lru_get_value [simp]: "fst (lru_get maxSize k l) = lru_look l k"
  by (simp add: lru_get_def lru_look_def split: option.split)

lemma lru_look_get: "lru_look (snd (lru_get maxSize k l)) k' = Some w \<Longrightarrow> lru_look l k' = Some w"
proof (cases "young l k = None \<and> old l k \<noteq> None")
  case True
  then obtain v where v: "young l k = None" "old l k = Some v" by auto
  assume "lru_look (snd (lru_get maxSize k l)) k' = Some w"
  then have "if k' = k then w = v else lru_look (l\<lparr>old := (old l)(k := None)\<rparr>) k' = Some w"
    using v by (intro lru_look_insert) (simp add: lru_get_def)
  then show ?thesis using v by (auto simp: lru_look_def split: if_splits option.splits)
qed (auto simp: lru_get_def split: option.splits)

lemma lru_has_look: "lru_has k l \<longleftrightarrow> lru_look l k \<noteq> None"
  by (auto simp: lru_has_def lru_look_def split: option.splits)

text \<open>The candidates of a line, and what every state of the extraction keeps.\<close>

definition found_in :: "(string \<Rightarrow> string list) \<Rightarrow> string \<Rightarrow> string set" where
  "found_in e n = {x \<in> set (e n). x \<noteq> ''!*''}"

definition extraction_ok :: "(string \<Rightarrow> string list) \<Rightarrow> extraction \<Rightarrow> bool" where
  "extraction_ok e s \<longleftrightarrow> lru_inv cache_limit (line_cache s)
     \<and> (\<forall>k xs. lru_look (line_cache s) k = Some xs \<longrightarrow> set xs = found_in e k)
     \<and> (\<forall>n\<in>seen_lines s. found_in e n \<subseteq> candidates s)"

lemma extraction_ok_update:
  assumes "extraction_ok e s" "lru_inv cache_limit l"
    "\<And>k xs. lru_look l k = Some xs \<Longrightarrow> set xs = found_in e k"
  shows "extraction_ok e \<lparr>candidates = candidates s \<union> found_in e n, seen_lines = insert n (seen_lines s), line_cache = l\<rparr>"
  using assms by (fastforce simp: extraction_ok_def)

lemma extract_line_step:
  assumes "extraction_ok e s"
  shows "candidates (extract_line e s line) = candidates s \<union> found_in e (js_trim line)
    \<and> seen_lines (extract_line e s line) = insert (js_trim line) (seen_lines s)
    \<and> extraction_ok e (extract_line e s line)"
proof -
  let ?n = "js_trim line" and ?l = "line_cache s"
  consider "?n \<in> seen_lines s" | xs where "?n \<notin> seen_lines s" "lru_look ?l ?n = Some xs"
    | "?n \<notin> seen_lines s" "lru_look ?l ?n = None"
    by fastforce
  then show ?thesis
  proof cases
    case 1
    then show ?thesis using assms by (auto simp: extract_line_def extraction_ok_def Let_def)
  next
    case 2
    obtain l where l: "lru_get cache_limit ?n ?l = (Some xs, l)"
      using lru_get_value [of cache_limit ?n ?l] 2(2) by (cases "lru_get cache_limit ?n ?l") auto
    have inv: "lru_inv cache_limit l"
      using assms lru_inv_get [of cache_limit ?l ?n] l by (simp add: extraction_ok_def)
    have look: "set ys = found_in e k" if "lru_look l k = Some ys" for k ys
      using assms lru_look_get [of cache_limit ?n ?l k ys] l that by (simp add: extraction_ok_def)
    have "set xs = found_in e ?n" using assms 2(2) by (simp add: extraction_ok_def)
    then have "extract_line e s line = \<lparr>candidates = candidates s \<union> found_in e ?n,
        seen_lines = insert ?n (seen_lines s), line_cache = l\<rparr>"
      using 2 l by (simp add: extract_line_def Let_def lru_has_look)
    then show ?thesis using extraction_ok_update [OF assms inv look] by simp
  next
    case 3
    let ?f = "remdups (filter (\<lambda>x. x \<noteq> ''!*'') (e ?n))"
    have inv: "lru_inv cache_limit (lru_set cache_limit ?n ?f ?l)"
      using assms by (simp add: extraction_ok_def lru_inv_set)
    have look: "set xs = found_in e k" if "lru_look (lru_set cache_limit ?n ?f ?l) k = Some xs" for k xs
      using lru_look_set [OF that] assms by (simp add: extraction_ok_def found_in_def split: if_splits)
    have "extract_line e s line = \<lparr>candidates = candidates s \<union> found_in e ?n,
        seen_lines = insert ?n (seen_lines s), line_cache = lru_set cache_limit ?n ?f ?l\<rparr>"
      using 3 by (simp add: extract_line_def Let_def lru_has_look found_in_def)
    then show ?thesis using extraction_ok_update [OF assms inv look] by simp
  qed
qed

lemma extract_lines:
  "extraction_ok e s \<Longrightarrow> candidates (foldl (extract_line e) s ls) = candidates s \<union> (\<Union>l\<in>set ls. found_in e (js_trim l))
     \<and> extraction_ok e (foldl (extract_line e) s ls)"
  by (induction ls arbitrary: s) (use extract_line_step in \<open>auto simp: Un_assoc\<close>)

section \<open>Properties\<close>

text \<open>
  Caching and skipping lines lose nothing. Whatever was extracted before, with the same extractor, a text
  adds to the candidates exactly what the extractor finds in its lines, the token \<open>!*\<close> apart; and the
  state keeps its invariant: entries of the cache are what the extractor finds, both generations of the
  cache stay within the limit, and no line is skipped whose candidates are missing.
\<close>

theorem extraction_exact:
  assumes "extraction_ok e s"
  shows "candidates (extract_candidates e content s)
      = candidates s \<union> (\<Union>l\<in>set (split_char newline content). found_in e (js_trim l))
    \<and> extraction_ok e (extract_candidates e content s)"
  using extract_lines [OF assms] by (simp add: extract_candidates_def)

lemma extraction_exact_witness:
  "candidates (extract_candidates (\<lambda>n. [n, ''!*'']) [CHR ''a'', newline, CHR '' '', CHR ''b'']
     \<lparr>candidates = {}, seen_lines = {}, line_cache = lru_new\<rparr>) = {''a'', ''b''}"
proof -
  have "extraction_ok (\<lambda>n. [n, ''!*'']) \<lparr>candidates = {}, seen_lines = {}, line_cache = lru_new\<rparr>"
    using lru_inv_new [of cache_limit]
    by (simp add: extraction_ok_def cache_limit_def lru_look_def lru_new_def)
  then show ?thesis
    by (subst extraction_exact [THEN conjunct1])
      (auto simp: found_in_def js_trim_def is_js_space_def)
qed

end
