(* ===== verification/Css_Cascade.thy ===== *)
theory Css_Cascade
  imports Js_String
begin

text \<open>
  How the prefixer of the style engine bundled in \<open>tailwind.js\<close> inserts prefixed copies of a declaration
  (its classes \<open>Prefixer\<close> and \<open>Declaration\<close>, and \<open>group\<close> of \<open>Prefixes\<close>): the copies stand above it, indented
  so that the property names are aligned below each other.

  A block is the list of its nodes. The names a property has without its prefix and under its newer
  spelling (\<open>hack\<close>) and the vendors' prefixes come from tables of the bundle and are parameters, and so is
  the prefix of an enclosing block. The text before a declaration is the one \<open>raw\<close> resolves.
\<close>

section \<open>Blocks\<close>

text \<open>\<open>max_length\<close> and \<open>cascaded\<close> are what the prefixer remembers at a declaration; 0 and false are not kept.\<close>

record css_decl =
  decl_prop :: string
  decl_val :: string
  before_text :: string
  max_length :: nat
  cascaded :: bool

datatype item = Item css_decl | Other

definition removeNote :: "string \<Rightarrow> string" where
  "removeNote p = hd (split_char CHR '' '' p)"

text \<open>\<open>withPrefix\<close> and \<open>otherPrefixes\<close>.\<close>

definition withPrefix :: "string list \<Rightarrow> string \<Rightarrow> bool" where
  "withPrefix vendors v = list_ex (\<lambda>p. has_text p v) vendors"

definition otherPrefixes :: "string list \<Rightarrow> string \<Rightarrow> string \<Rightarrow> bool" where
  "otherPrefixes vendors v p = list_ex (\<lambda>q. q \<noteq> p \<and> has_text q v) vendors"

definition is_word :: "char \<Rightarrow> bool" where
  "is_word c = (let n = (of_char c :: nat) in
     48 \<le> n \<and> n \<le> 57 \<or> 65 \<le> n \<and> n \<le> 90 \<or> 97 \<le> n \<and> n \<le> 122 \<or> n = 95)"

text \<open>\<open>r.replace(/^-\w+-/, "")\<close>.\<close>

definition drop_vendor :: "string \<Rightarrow> string" where
  "drop_vendor r = (case r of
     [] \<Rightarrow> []
   | x # xs \<Rightarrow> if x = CHR ''-'' \<and> takeWhile is_word xs \<noteq> [] \<and> prefix_at ''-'' (dropWhile is_word xs)
               then tl (dropWhile is_word xs) else r)"

definition unprefixed :: "(string \<Rightarrow> string) \<Rightarrow> string \<Rightarrow> string" where
  "unprefixed hack p = (let t = hack (drop_vendor p) in if t = ''flex-direction'' then ''flex-flow'' else t)"

text \<open>The declarations that the walks up and down from a declaration of the property \<open>s\<close> visit.\<close>

fun group_up :: "(string \<Rightarrow> string) \<Rightarrow> string list \<Rightarrow> string \<Rightarrow> item list \<Rightarrow> css_decl list" where
  "group_up hack vendors s [] = []"
| "group_up hack vendors s (Other # xs) = group_up hack vendors s xs"
| "group_up hack vendors s (Item c # xs) =
     (if decl_prop c = s \<and> \<not> withPrefix vendors (decl_val c) \<or> unprefixed hack (decl_prop c) \<noteq> s then []
      else c # group_up hack vendors s xs)"

fun group_down :: "(string \<Rightarrow> string) \<Rightarrow> string list \<Rightarrow> string \<Rightarrow> item list \<Rightarrow> css_decl list" where
  "group_down hack vendors s [] = []"
| "group_down hack vendors s (Other # xs) = group_down hack vendors s xs"
| "group_down hack vendors s (Item c # xs) =
     (if unprefixed hack (decl_prop c) \<noteq> s then []
      else c # (if decl_prop c = s \<and> \<not> withPrefix vendors (decl_val c) then [] else group_down hack vendors s xs))"

text \<open>The state of \<open>process\<close>: the nodes above the declaration, the declaration, the nodes below it.\<close>

record decl_block =
  above :: "item list"
  this :: css_decl
  below :: "item list"

record prefix_tables =
  hack :: "string \<Rightarrow> string"
  vendors :: "string list"
  cascade_option :: bool

definition up :: "prefix_tables \<Rightarrow> decl_block \<Rightarrow> css_decl list" where
  "up pf b = group_up (hack pf) (vendors pf) (unprefixed (hack pf) (decl_prop (this b))) (rev (above b))"

definition down :: "prefix_tables \<Rightarrow> decl_block \<Rightarrow> css_decl list" where
  "down pf b = group_down (hack pf) (vendors pf) (unprefixed (hack pf) (decl_prop (this b))) (below b)"

definition nodes :: "decl_block \<Rightarrow> item list" where
  "nodes b = above b @ Item (this b) # below b"

section \<open>Alignment\<close>

definition needCascade :: "prefix_tables \<Rightarrow> css_decl \<Rightarrow> bool \<times> css_decl" where
  "needCascade pf e =
     (let c = cascaded e \<or> cascade_option pf \<and> newline \<in> set (before_text e) in (c, e\<lparr>cascaded := c\<rparr>))"

definition maxPrefixed :: "string list \<Rightarrow> css_decl \<Rightarrow> nat \<times> css_decl" where
  "maxPrefixed ps t =
     (if max_length t \<noteq> 0 then (max_length t, t)
      else let i = foldl (\<lambda>i n. max i (length (removeNote n))) 0 ps in (i, t\<lparr>max_length := i\<rparr>))"

definition spaces :: "nat \<Rightarrow> string" where
  "spaces n = replicate n CHR '' ''"

definition calcBefore :: "string list \<Rightarrow> css_decl \<Rightarrow> string \<Rightarrow> string \<times> css_decl" where
  "calcBefore ps t p =
     (let (m, t') = maxPrefixed ps t; s = int m - int (length (removeNote p)); a = before_text t'
      in (if s > 0 then a @ spaces (nat s) else a, t'))"

text \<open>\<open>restoreBefore\<close> puts the shortest last line of the group above in the place of the declaration's own.\<close>

definition last_line :: "string \<Rightarrow> string" where
  "last_line s = last (split_char newline s)"

definition shortest_line :: "string \<Rightarrow> css_decl list \<Rightarrow> string" where
  "shortest_line i ns = foldl (\<lambda>i n. let a = last_line (before_text n) in if length a < length i then a else i) i ns"

definition restoreBefore :: "prefix_tables \<Rightarrow> decl_block \<Rightarrow> decl_block" where
  "restoreBefore pf b =
     (let t = split_char newline (before_text (this b)); i = shortest_line (last t) (up pf b)
      in b\<lparr>this := (this b)\<lparr>before_text := join [newline] (butlast t @ [i])\<rparr>\<rparr>)"

section \<open>Insertion\<close>

definition isAlready :: "prefix_tables \<Rightarrow> decl_block \<Rightarrow> string \<Rightarrow> bool" where
  "isAlready pf b t \<longleftrightarrow> list_ex (\<lambda>n. decl_prop n = t) (up pf b) \<or> list_ex (\<lambda>n. decl_prop n = t) (down pf b)"

definition same_decl :: "css_decl \<Rightarrow> item \<Rightarrow> bool" where
  "same_decl n a = (case a of Item c \<Rightarrow> decl_prop c = decl_prop n \<and> decl_val c = decl_val n | Other \<Rightarrow> False)"

text \<open>A copy with the prefix goes in above, unless the block has it; the result says whether it did.\<close>

definition insert_prefixed :: "prefix_tables \<Rightarrow> string list \<Rightarrow> string \<Rightarrow> decl_block \<Rightarrow> bool \<times> decl_block" where
  "insert_prefixed pf ps p b =
     (let n = (this b)\<lparr>decl_prop := p @ decl_prop (this b)\<rparr> in
      if list_ex (same_decl n) (nodes b) then (False, b)
      else
        (let (c, e) = needCascade pf (this b) in
         if c then (let (a, e') = calcBefore ps e p
                    in (True, b\<lparr>above := above b @ [Item (n\<lparr>before_text := a\<rparr>)], this := e'\<rparr>))
         else (True, b\<lparr>above := above b @ [Item n], this := e\<rparr>)))"

definition add_prefix :: "prefix_tables \<Rightarrow> string list \<Rightarrow> string \<Rightarrow> decl_block \<Rightarrow> bool \<times> decl_block" where
  "add_prefix pf ps p b =
     (if isAlready pf b (p @ decl_prop (this b)) \<or> otherPrefixes (vendors pf) (decl_val (this b)) p then (False, b)
      else insert_prefixed pf ps p b)"

fun add_prefixes :: "prefix_tables \<Rightarrow> string list \<Rightarrow> string list \<Rightarrow> decl_block \<Rightarrow> string list \<times> decl_block" where
  "add_prefixes pf s [] b = (s, b)"
| "add_prefixes pf s (a # n) b =
     (let (added, b') = add_prefix pf (s @ [a]) a b
      in add_prefixes pf (if added then s @ [a] else s) n b')"

text \<open>Inside a block with a prefix, only that prefix is added.\<close>

definition prefixer_process :: "prefix_tables \<Rightarrow> string option \<Rightarrow> string list \<Rightarrow> decl_block \<Rightarrow> string list \<times> decl_block" where
  "prefixer_process pf parent ps b =
     add_prefixes pf [] (filter (\<lambda>a. parent = None \<or> parent = Some (removeNote a)) ps) b"

definition declaration_process :: "prefix_tables \<Rightarrow> string option \<Rightarrow> string list \<Rightarrow> decl_block \<Rightarrow> decl_block" where
  "declaration_process pf parent ps b =
     (let (c, e) = needCascade pf (this b); b = b\<lparr>this := e\<rparr> in
      if \<not> c then snd (prefixer_process pf parent ps b)
      else
        (let (i, b) = prefixer_process pf parent ps b in
         if i = [] then b
         else (let b = restoreBefore pf b; (a, e) = calcBefore i (this b) []
               in b\<lparr>this := e\<lparr>before_text := a\<rparr>\<rparr>)))"

section \<open>Removal\<close>

text \<open>
  When the first declaration of a group is removed, the others lose the indentation that aligned them:
  the first deeper one decides how much.
\<close>

fun reduce_down :: "nat \<Rightarrow> nat option \<Rightarrow> (string \<Rightarrow> string) \<Rightarrow> string list \<Rightarrow> string \<Rightarrow> item list \<Rightarrow> item list" where
  "reduce_down n s hck vs p [] = []"
| "reduce_down n s hck vs p (Other # xs) = Other # reduce_down n s hck vs p xs"
| "reduce_down n s hck vs p (Item c # xs) =
     (if unprefixed hck (decl_prop c) \<noteq> p then Item c # xs
      else
        (let i = split_char newline (before_text c); deeper = length (last i) > n;
             s' = (if deeper \<and> s = None then Some (length (last i) - n) else s);
             c' = (if deeper then c\<lparr>before_text := join [newline] (butlast i @ [js_slice 0 (- int (the s')) (last i)])\<rparr> else c)
         in Item c' # (if decl_prop c = p \<and> \<not> withPrefix vs (decl_val c) then xs else reduce_down n s' hck vs p xs)))"

definition reduceSpaces :: "prefix_tables \<Rightarrow> decl_block \<Rightarrow> decl_block" where
  "reduceSpaces pf b =
     (if up pf b \<noteq> [] then b
      else b\<lparr>below := reduce_down (length (last_line (before_text (this b)))) None (hack pf) (vendors pf)
               (unprefixed (hack pf) (decl_prop (this b))) (below b)\<rparr>)"

section \<open>Proofs\<close>

definition item_decls :: "item list \<Rightarrow> css_decl set" where
  "item_decls xs = {c. Item c \<in> set xs}"

lemma item_decls_simps [simp]:
  "item_decls [] = {}" "item_decls (Other # xs) = item_decls xs"
  "item_decls (Item c # xs) = insert c (item_decls xs)" "item_decls (xs @ ys) = item_decls xs \<union> item_decls ys"
  "item_decls (map Item cs) = set cs" "item_decls (rev xs) = item_decls xs"
  by (auto simp: item_decls_def)

lemma group_up_sub: "set (group_up h vs s xs) \<subseteq> item_decls xs"
  by (induction h vs s xs rule: group_up.induct) auto

lemma group_down_sub: "set (group_down h vs s xs) \<subseteq> item_decls xs"
  by (induction h vs s xs rule: group_down.induct) auto

lemma group_up_above:
  "group_up h vs s ys = [] \<Longrightarrow> set (group_up h vs s (map Item cs @ ys)) \<subseteq> set cs"
  by (induction cs) auto

lemma foldl_max_length [simp]: "foldl (\<lambda>i n. max i (length (removeNote n))) 0 [p] = length (removeNote p)"
  by simp

lemma length_spaces [simp]: "length (spaces n) = n"
  by (simp add: spaces_def)

lemma last_line_spaces: "last_line (x @ spaces k) = last_line x @ spaces k"
proof (induction k)
  case (Suc k)
  have "split_char newline (y @ [CHR '' '']) = butlast (split_char newline y) @ [last (split_char newline y) @ '' '']" for y
  proof (induction y)
    case (Cons a y)
    obtain p ps where "split_char newline y = p # ps" by (cases "split_char newline y") simp_all
    then show ?case using Cons by (cases "a = newline"; cases ps) simp_all
  qed simp
  then have *: "last_line (y @ [CHR '' '']) = last_line y @ '' ''" for y by (simp add: last_line_def)
  have "spaces (Suc k) = spaces k @ '' ''" by (simp add: spaces_def replicate_append_same)
  then show ?case using Suc * [of "x @ spaces k"] by simp
qed (simp add: spaces_def)

lemma shortest_line_same:
  "(\<And>n. n \<in> set ns \<Longrightarrow> length i \<le> length (last_line (before_text n))) \<Longrightarrow> shortest_line i ns = i"
  unfolding shortest_line_def by (induction ns) (simp_all add: Let_def leD)

text \<open>The copies for some prefixes, and the block between two insertions.\<close>

definition copies_of :: "css_decl \<Rightarrow> nat \<Rightarrow> string list \<Rightarrow> css_decl list \<Rightarrow> bool" where
  "copies_of e m ps cs \<longleftrightarrow>
     map (\<lambda>c. (decl_prop c, decl_val c, before_text c)) cs
     = map (\<lambda>p. (p @ decl_prop e, decl_val e, before_text e @ spaces (m - length p))) ps"

definition between :: "css_decl \<Rightarrow> nat \<Rightarrow> item list \<Rightarrow> item list \<Rightarrow> string list \<Rightarrow> css_decl list \<Rightarrow> decl_block" where
  "between e m pre post qs cs =
     \<lparr>above = pre @ map Item cs, this = e\<lparr>max_length := if qs = [] then 0 else m, cascaded := True\<rparr>, below = post\<rparr>"

text \<open>Prefixes that can be added to \<open>e\<close> in its block, longest first.\<close>

definition addable :: "prefix_tables \<Rightarrow> string list \<Rightarrow> item list \<Rightarrow> css_decl \<Rightarrow> item list \<Rightarrow> bool" where
  "addable pf ps pre e post \<longleftrightarrow>
     distinct ps \<and> ps \<noteq> [] \<and> hd ps \<noteq> [] \<and> \<not> withPrefix (vendors pf) (decl_val e)
     \<and> (\<forall>p\<in>set ps. removeNote p = p \<and> p \<noteq> [] \<and> length p \<le> length (hd ps)
          \<and> (\<forall>c\<in>item_decls pre \<union> item_decls post. decl_prop c \<noteq> p @ decl_prop e))"

lemma calcBefore_pad:
  assumes "maxPrefixed ps t = (m, t')" "length (removeNote p) \<le> m"
  shows "calcBefore ps t p = (before_text t' @ spaces (m - length (removeNote p)), t')"
proof -
  have "nat (int m - int (length (removeNote p))) = m - length (removeNote p)" by simp
  then show ?thesis using assms by (auto simp: calcBefore_def Let_def spaces_def)
qed

lemma add_prefix_step:
  assumes ok: "addable pf (qs @ p # rest) pre e post" and copies: "copies_of e m qs cs"
    and m: "m = length (hd (qs @ p # rest))"
  shows "\<exists>c. add_prefix pf (qs @ [p]) p (between e m pre post qs cs)
      = (True, between e m pre post (qs @ [p]) (cs @ [c])) \<and> copies_of e m (qs @ [p]) (cs @ [c])"
proof -
  let ?b = "between e m pre post qs cs" and ?t = "p @ decl_prop e"
  have props: "map decl_prop cs = map (\<lambda>q. q @ decl_prop e) qs"
    using arg_cong [OF copies [unfolded copies_of_def], of "map fst"] by (simp add: comp_def)
  have "decl_prop c \<noteq> ?t" if "c \<in> set cs" for c
  proof -
    have "decl_prop c \<in> (\<lambda>q. q @ decl_prop e) ` set qs"
      using arg_cong [OF props, of set] that by auto
    then show ?thesis using ok by (auto simp: addable_def)
  qed
  then have fresh: "decl_prop c \<noteq> ?t" if "c \<in> item_decls (nodes ?b)" for c
    using that ok by (auto simp: nodes_def between_def addable_def)
  have "set (up pf ?b) \<union> set (down pf ?b) \<subseteq> item_decls (nodes ?b)"
    using group_up_sub group_down_sub by (fastforce simp: up_def down_def nodes_def)
  then have already: "\<not> isAlready pf ?b ?t"
    using fresh by (auto simp: isAlready_def list_ex_iff)
  have none: "\<not> list_ex (same_decl n) (nodes ?b)" if "decl_prop n = ?t" for n
    using fresh that by (auto simp: list_ex_iff same_decl_def item_decls_def split: item.splits)
  have other: "\<not> otherPrefixes (vendors pf) (decl_val e) p"
    using ok by (auto simp: addable_def otherPrefixes_def withPrefix_def list_ex_iff)
  have p: "removeNote p = p" "p \<noteq> []" "length p \<le> m"
    using ok m by (auto simp: addable_def)
  have max: "maxPrefixed (qs @ [p]) (this ?b) = (m, e\<lparr>max_length := m, cascaded := True\<rparr>)"
  proof (cases qs)
    case Nil
    then show ?thesis using p m by (simp add: maxPrefixed_def between_def Let_def)
  next
    case (Cons q qs')
    then have "m \<noteq> 0" using ok m by (simp add: addable_def)
    then show ?thesis using Cons by (simp add: maxPrefixed_def between_def)
  qed
  let ?c = "(this ?b)\<lparr>decl_prop := ?t, before_text := before_text e @ spaces (m - length p)\<rparr>"
  have "calcBefore (qs @ [p]) (this ?b) p
      = (before_text e @ spaces (m - length p), e\<lparr>max_length := m, cascaded := True\<rparr>)"
    using calcBefore_pad [OF max, of p] p by simp
  then have "add_prefix pf (qs @ [p]) p ?b = (True, between e m pre post (qs @ [p]) (cs @ [?c]))"
    using already other none [of "(this ?b)\<lparr>decl_prop := ?t\<rparr>"]
    by (simp add: add_prefix_def insert_prefixed_def needCascade_def between_def)
  moreover have "copies_of e m (qs @ [p]) (cs @ [?c])"
    using copies by (simp add: copies_of_def between_def)
  ultimately show ?thesis by blast
qed

lemma add_prefixes_all:
  assumes "addable pf (qs @ ps) pre e post" "copies_of e m qs cs" "m = length (hd (qs @ ps))"
  shows "\<exists>cs'. add_prefixes pf qs ps (between e m pre post qs cs) = (qs @ ps, between e m pre post (qs @ ps) cs')
    \<and> copies_of e m (qs @ ps) cs'"
  using assms
proof (induction ps arbitrary: qs cs)
  case (Cons p ps)
  obtain c where c: "add_prefix pf (qs @ [p]) p (between e m pre post qs cs)
      = (True, between e m pre post (qs @ [p]) (cs @ [c]))" "copies_of e m (qs @ [p]) (cs @ [c])"
    using add_prefix_step [OF Cons.prems] by blast
  have "\<exists>cs'. add_prefixes pf (qs @ [p]) ps (between e m pre post (qs @ [p]) (cs @ [c]))
      = ((qs @ [p]) @ ps, between e m pre post ((qs @ [p]) @ ps) cs') \<and> copies_of e m ((qs @ [p]) @ ps) cs'"
    by (rule Cons.IH) (use Cons.prems c in simp_all)
  then show ?case using c(1) by simp
qed auto

lemma restoreBefore_same:
  assumes "\<And>n. n \<in> set (up pf b) \<Longrightarrow> length (last_line (before_text (this b))) \<le> length (last_line (before_text n))"
  shows "restoreBefore pf b = b"
  using shortest_line_same [of "up pf b", OF assms] by (simp add: restoreBefore_def last_line_def Let_def)

lemma copies_not_shorter:
  assumes "copies_of e m ps cs" "c \<in> set cs"
  shows "length (last_line (before_text e)) \<le> length (last_line (before_text c))"
proof -
  have "map before_text cs = map (\<lambda>p. before_text e @ spaces (m - length p)) ps"
    using arg_cong [OF assms(1) [unfolded copies_of_def], of "map (\<lambda>x. snd (snd x))"] by (simp add: comp_def)
  moreover have "before_text c \<in> set (map before_text cs)" using assms(2) by simp
  ultimately have "before_text c \<in> (\<lambda>p. before_text e @ spaces (m - length p)) ` set ps" by simp
  then show ?thesis by (elim imageE) (simp add: last_line_spaces)
qed

section \<open>Properties\<close>

text \<open>
  The visual cascade. A declaration that starts a line of its own, and whose block has none of the
  prefixed forms, gets one copy for every prefix right above it, in order, each with the same value; and
  every copy is indented by as much as its prefix is shorter than the longest, the declaration itself by
  the length of the longest, so that the unprefixed names stand in one column.
\<close>

theorem cascade_aligned:
  assumes "addable pf ps pre e post" "cascade_option pf" "newline \<in> set (before_text e)" "max_length e = 0"
    "up pf \<lparr>above = pre, this = e, below = post\<rparr> = []" "m = length (hd ps)"
  shows "\<exists>cs e'. declaration_process pf None ps \<lparr>above = pre, this = e, below = post\<rparr>
      = \<lparr>above = pre @ map Item cs, this = e', below = post\<rparr>
    \<and> map (\<lambda>c. (decl_prop c, decl_val c, before_text c)) cs
      = map (\<lambda>p. (p @ decl_prop e, decl_val e, before_text e @ spaces (m - length p))) ps
    \<and> decl_prop e' = decl_prop e \<and> decl_val e' = decl_val e \<and> before_text e' = before_text e @ spaces m"
proof -
  let ?e = "e\<lparr>cascaded := True\<rparr>"
  have start: "\<lparr>above = pre, this = ?e, below = post\<rparr> = between e m pre post [] []"
    using assms(4) by (simp add: between_def)
  obtain cs where cs: "add_prefixes pf [] ps (between e m pre post [] []) = (ps, between e m pre post ps cs)"
    "copies_of e m ps cs"
    using add_prefixes_all [of pf "[]" ps pre e post m "[]"] assms(1,6) by (auto simp: copies_of_def)
  let ?b = "between e m pre post ps cs"
  have "set (up pf ?b) \<subseteq> set cs"
    using group_up_above [of "hack pf" "vendors pf" _ "rev pre" "rev cs"] assms(5)
    by (simp add: up_def between_def rev_map)
  then have restore: "restoreBefore pf ?b = ?b"
    using copies_not_shorter [OF cs(2)] by (intro restoreBefore_same) (auto simp: between_def)
  have "ps \<noteq> []" "m \<noteq> 0" using assms(1,6) by (auto simp: addable_def)
  then have "maxPrefixed ps (this ?b) = (m, this ?b)"
    by (simp add: maxPrefixed_def between_def)
  then have "calcBefore ps (this ?b) [] = (before_text e @ spaces m, this ?b)"
    using calcBefore_pad [of ps "this ?b" m "this ?b" "[]"] by (simp add: between_def removeNote_def)
  then have "declaration_process pf None ps \<lparr>above = pre, this = e, below = post\<rparr>
      = ?b\<lparr>this := (this ?b)\<lparr>before_text := before_text e @ spaces m\<rparr>\<rparr>"
    using assms(2,3) \<open>ps \<noteq> []\<close> start cs(1) restore
    by (simp add: declaration_process_def prefixer_process_def needCascade_def Let_def)
  then show ?thesis
    using cs(2) by (intro exI [of _ cs] exI [of _ "(this ?b)\<lparr>before_text := before_text e @ spaces m\<rparr>"])
      (simp add: between_def copies_of_def)
qed

lemma cascade_aligned_witness:
  "\<exists>cs e'. declaration_process \<lparr>hack = (\<lambda>p. p), vendors = [''-webkit-'', ''-ms-''], cascade_option = True\<rparr> None
      [''-webkit-'', ''-ms-''] \<lparr>above = [], this = \<lparr>decl_prop = ''mask'', decl_val = ''none'', before_text = newline # ''  '',
        max_length = 0, cascaded = False\<rparr>, below = []\<rparr> = \<lparr>above = map Item cs, this = e', below = []\<rparr>
    \<and> map (\<lambda>c. (decl_prop c, decl_val c, before_text c)) cs
      = [(''-webkit-mask'', ''none'', newline # ''  ''), (''-ms-mask'', ''none'', newline # ''      '')]
    \<and> decl_prop e' = ''mask'' \<and> decl_val e' = ''none'' \<and> before_text e' = newline # ''          ''"
proof -
  let ?pf = "\<lparr>hack = (\<lambda>p. p), vendors = [''-webkit-'', ''-ms-''], cascade_option = True\<rparr>"
  let ?e = "\<lparr>decl_prop = ''mask'', decl_val = ''none'', before_text = newline # ''  '', max_length = 0, cascaded = False\<rparr>"
  have "addable ?pf [''-webkit-'', ''-ms-''] [] ?e []"
    by (simp add: addable_def withPrefix_def has_text_def removeNote_def)
  moreover have "up ?pf \<lparr>above = [], this = ?e, below = []\<rparr> = []" by (simp add: up_def)
  ultimately show ?thesis
    using cascade_aligned [of ?pf "[''-webkit-'', ''-ms-'']" "[]" ?e "[]" 8]
    by (simp add: spaces_def eval_nat_numeral)
qed

end
