(* ===== verification/Css_Warnings.thy ===== *)
theory Css_Warnings
  imports Js_String
begin

text \<open>
  Warnings of the style engine bundled in \<open>tailwind.js\<close>: the options of its prefixer and the warnings
  about them, the deprecation notice of \<open>postcss.plugin\<close>, and the types named when an arbitrary value is
  ambiguous between several utilities.
\<close>

section \<open>The options of the prefixer\<close>

text \<open>
  The arguments of the plugin function: an options object, an array of queries, a query, a missing value,
  \<open>null\<close>. An option that is a string is the list of that one query.
\<close>

record prefixer_options =
  browser :: "string list option"
  browserslist :: "string list option"
  overrideBrowserslist :: "string list option"
  browsers :: "string list option"

datatype arg = Options prefixer_options | Queries "string list" | Query string | Undefined | Null

datatype targets = NoTargets | Given "string list" | Arguments "arg list"

definition no_options :: prefixer_options where
  "no_options = \<lparr>browser = None, browserslist = None, overrideBrowserslist = None, browsers = None\<rparr>"

fun options_of :: "arg \<Rightarrow> prefixer_options" where
  "options_of (Options opts) = opts"
| "options_of _ = no_options"

fun falsy :: "arg \<Rightarrow> bool" where
  "falsy Undefined = True"
| "falsy Null = True"
| "falsy (Query q) = (q = [])"
| "falsy _ = False"

fun is_object :: "arg \<Rightarrow> bool" where
  "is_object (Options opts) = True"
| "is_object (Queries qs) = True"
| "is_object Null = True"
| "is_object _ = False"

fun is_array :: "arg \<Rightarrow> bool" where
  "is_array (Queries qs) = True"
| "is_array _ = False"

fun targets_of :: "arg \<Rightarrow> targets" where
  "targets_of (Queries qs) = Given qs"
| "targets_of _ = NoTargets"

text \<open>The warning about the option \<open>browsers\<close>.\<close>

definition browsers_notice :: string where
  "browsers_notice = join [newline]
     [[], ''  Replace Autoprefixer `browsers` option to Browserslist config.'',
      ''  Use `browserslist` key in `package.json` or `.browserslistrc` file.'',
      [],
      ''  Using `browsers` option can cause errors. Browserslist config can'',
      ''  be used for Babel, Autoprefixer, postcss-normalize and other tools.'',
      [],
      ''  If you really need to use option, rename it to `overrideBrowserslist`.'',
      [],
      ''  Learn more at:'',
      ''  https://github.com/browserslist/browserslist#readme'',
      ''  https://twitter.com/browserslist'',
      [], []]"

text \<open>Which argument is the options object, and which the queries.\<close>

definition split_args :: "arg list \<Rightarrow> arg \<times> targets" where
  "split_args r =
     (case r of
        [Options opts] \<Rightarrow> (Options opts, NoTargets)
      | _ \<Rightarrow>
        if length r = 0 \<or> length r = 1 \<and> falsy (hd r) then (Undefined, NoTargets)
        else if length r \<le> 2 \<and> (is_array (hd r) \<or> falsy (hd r)) then
          (if length r = 2 then r ! 1 else Undefined, targets_of (hd r))
        else if is_object (last r) then (last r, Arguments (butlast r))
        else (Undefined, Arguments r))"

text \<open>The targets and the warnings, or the error.\<close>

definition prefixer :: "arg list \<Rightarrow> string + targets \<times> string list" where
  "prefixer args =
     (let (a, r) = split_args args; e = options_of a in
      if browser e \<noteq> None then Inl ''Change `browser` option to `overrideBrowserslist` in Autoprefixer''
      else if browserslist e \<noteq> None then Inl ''Change `browserslist` option to `overrideBrowserslist` in Autoprefixer''
      else case overrideBrowserslist e of Some qs \<Rightarrow> Inr (Given qs, [])
      | None \<Rightarrow> (case browsers e of Some qs \<Rightarrow> Inr (Given qs, [browsers_notice]) | None \<Rightarrow> Inr (r, [])))"

text \<open>Before it runs, the prefixer says when no target needs a prefix; the table always has two keys.\<close>

definition targets_notice :: string where
  "targets_notice = join [newline]
     [''Autoprefixer target browsers do not need any prefixes.You do not need Autoprefixer anymore.'',
      ''Check your Browserslist config to be sure that your targets are set up correctly.'',
      [],
      ''  Learn more at:'',
      ''  https://github.com/postcss/autoprefixer#readme'',
      ''  https://github.com/browserslist/browserslist#readme'',
      [], []]"

definition check_targets :: "string list \<Rightarrow> nat \<Rightarrow> nat \<Rightarrow> string list" where
  "check_targets selected selectors keys =
     (if selected \<noteq> [] \<and> \<not> (selectors > 0 \<or> keys > 2) then [targets_notice] else [])"

section \<open>The deprecation notice\<close>

text \<open>
  The wrapper that \<open>postcss.plugin\<close> returns: its state is whether it has warned. The second message, for a
  Chinese environment, is in UTF-8.
\<close>

definition plugin_notice :: "string \<Rightarrow> string" where
  "plugin_notice e = e @ '': postcss.plugin was deprecated. Migration guide:'' @ [newline]
     @ ''https://evilmartians.com/chronicles/postcss-8-plugin-migration''"

definition plugin_notice_cn :: "string \<Rightarrow> string" where
  "plugin_notice_cn e = e @ '': '' @ [CHR 0xE9, CHR 0x87, CHR 0x8C, CHR 0xE9, CHR 0x9D, CHR 0xA2]
     @ '' postcss.plugin ''
     @ [CHR 0xE8, CHR 0xA2, CHR 0xAB, CHR 0xE5, CHR 0xBC, CHR 0x83, CHR 0xE7, CHR 0x94, CHR 0xA8] @ ''. ''
     @ [CHR 0xE8, CHR 0xBF, CHR 0x81, CHR 0xE7, CHR 0xA7, CHR 0xBB, CHR 0xE6, CHR 0x8C, CHR 0x87,
        CHR 0xE5, CHR 0x8D, CHR 0x97] @ '':'' @ [newline]
     @ ''https://www.w3ctech.com/topic/2226''"

definition plugin_call :: "string \<Rightarrow> bool \<Rightarrow> string \<Rightarrow> bool \<Rightarrow> bool \<times> string list" where
  "plugin_call e console lang warned =
     (if console \<and> \<not> warned
      then (True, plugin_notice e # (if prefix_at ''cn'' lang then [plugin_notice_cn e] else []))
      else (warned, []))"

fun plugin_calls :: "nat \<Rightarrow> string \<Rightarrow> bool \<Rightarrow> string \<Rightarrow> bool \<Rightarrow> bool \<times> string list" where
  "plugin_calls 0 e console lang warned = (warned, [])"
| "plugin_calls (Suc n) e console lang warned =
     (let (w, out) = plugin_call e console lang warned; (w', out') = plugin_calls n e console lang w
      in (w', out @ out'))"

section \<open>Ambiguous arbitrary values\<close>

text \<open>
  Every utility that matches has a list of types without repetition. A type that several have is struck
  from all of them, by a loop over the lists and their types that deletes as it goes.
\<close>

definition shared_elsewhere :: "string list list \<Rightarrow> nat \<Rightarrow> string \<Rightarrow> bool" where
  "shared_elsewhere y k S = list_ex (\<lambda>j. j \<noteq> k \<and> S \<in> set (y ! j)) [0..<length y]"

definition strike :: "string list list \<Rightarrow> nat \<Rightarrow> string \<Rightarrow> string list list" where
  "strike y k S = (if shared_elsewhere y k S then map (\<lambda>T. removeAll S T) y else y)"

definition strike_list :: "string list list \<Rightarrow> nat \<Rightarrow> string list list" where
  "strike_list y k = foldl (\<lambda>y S. strike y k S) y (y ! k)"

definition strike_shared :: "string list list \<Rightarrow> string list list" where
  "strike_shared y = foldl strike_list y [0..<length y]"

text \<open>The rules a type would give, and the message about all of them.\<close>

fun replace_first :: "char \<Rightarrow> string \<Rightarrow> string \<Rightarrow> string" where
  "replace_first c w [] = []"
| "replace_first c w (x # xs) = (if x = c then w @ xs else x # replace_first c w xs)"

definition rule_lines :: "string \<Rightarrow> string" where
  "rule_lines B = join [newline] (map (\<lambda>N. ''      '' @ N) (map js_trim (js_slice 1 (- 1) (split_char newline B))))"

definition ambiguous_line :: "string \<Rightarrow> string \<Rightarrow> string list \<Rightarrow> string" where
  "ambiguous_line r E rules =
     (let T = join [newline, newline] (map rule_lines rules) in
      ''  Use `'' @ replace_first CHR ''['' (''['' @ E @ '':'') r @ ''` for `'' @ js_trim T @ ''`'')"

definition ambiguous_notice :: "string \<Rightarrow> (string list \<times> string list) list \<Rightarrow> string list" where
  "ambiguous_notice r matches =
     (let y = strike_shared (map fst matches);
          w = concat (map (\<lambda>k. case y ! k of E # Es \<Rightarrow> [ambiguous_line r E (snd (matches ! k))] | [] \<Rightarrow> [])
                [0..<length y])
      in [''The class `'' @ r @ ''` is ambiguous and matches multiple utilities.''] @ w
         @ [''If this is content and not a class, replace it with `''
             @ replace_first CHR '']'' ''&rsqb;'' (replace_first CHR ''['' ''&lsqb;'' r)
             @ ''` to silence this warning.''])"

section \<open>Proofs\<close>

definition struck :: "string set \<Rightarrow> string list list \<Rightarrow> string list list" where
  "struck D y = map (filter (\<lambda>S. S \<notin> D)) y"

lemma shared_struck:
  "shared_elsewhere (struck D y) k S \<longleftrightarrow> S \<notin> D \<and> shared_elsewhere y k S"
  by (auto simp: shared_elsewhere_def struck_def list_ex_iff)

lemma strike_struck:
  "strike (struck D y) k S = struck (D \<union> (if shared_elsewhere y k S then {S} else {})) y"
  unfolding strike_def shared_struck
  by (auto simp: removeAll_filter_not_eq struck_def intro!: filter_cong)

lemma struck_empty [simp]: "struck {} y = y"
  by (simp add: struck_def map_idI)

lemma strike_fold:
  "foldl (\<lambda>y S. strike y k S) (struck D y) L = struck (D \<union> {S \<in> set L. shared_elsewhere y k S}) y"
proof (induction L arbitrary: D)
  case (Cons S L)
  have "D \<union> (if shared_elsewhere y k S then {S} else {}) \<union> {S' \<in> set L. shared_elsewhere y k S'}
      = D \<union> {S' \<in> set (S # L). shared_elsewhere y k S'}"
    by auto
  then show ?case using Cons by (simp add: strike_struck)
qed simp

lemma strike_list_struck:
  assumes "k < length y"
  shows "strike_list (struck D y) k = struck (D \<union> {S \<in> set (y ! k). shared_elsewhere y k S}) y"
proof -
  have "D \<union> {S \<in> set (struck D y ! k). shared_elsewhere y k S} = D \<union> {S \<in> set (y ! k). shared_elsewhere y k S}"
    using assms by (auto simp: struck_def)
  then show ?thesis by (simp add: strike_list_def strike_fold)
qed

lemma strike_lists_struck:
  "\<forall>k\<in>set ks. k < length y \<Longrightarrow>
     foldl strike_list (struck D y) ks = struck (D \<union> (\<Union>k\<in>set ks. {S \<in> set (y ! k). shared_elsewhere y k S})) y"
  by (induction ks arbitrary: D) (simp_all add: strike_list_struck Un_assoc)

lemma shared_elsewhere_iff: "shared_elsewhere y k S \<longleftrightarrow> (\<exists>j<length y. j \<noteq> k \<and> S \<in> set (y ! j))"
  by (auto simp: shared_elsewhere_def list_ex_iff)

lemma shared_in_any:
  assumes "k < length y" "S \<in> set (y ! k)"
  shows "S \<in> (\<Union>i<length y. {S \<in> set (y ! i). shared_elsewhere y i S}) \<longleftrightarrow> shared_elsewhere y k S"
  using assms by (auto simp: shared_elsewhere_iff)

section \<open>Properties\<close>

text \<open>
  The deleting loop keeps exactly the types of one utility only. After it, the list of the k-th
  utility has the types that no other utility has, in their order, whatever the order of the deletions.
\<close>

theorem strike_shared_exact:
  assumes "k < length y"
  shows "strike_shared y ! k = filter (\<lambda>S. \<forall>j<length y. j \<noteq> k \<longrightarrow> S \<notin> set (y ! j)) (y ! k)"
proof -
  let ?D = "\<Union>k<length y. {S \<in> set (y ! k). shared_elsewhere y k S}"
  have eq: "strike_shared y = struck ?D y"
    using strike_lists_struck [of "[0..<length y]" y "{}"]
    by (simp add: strike_shared_def atLeast0LessThan)
  have iff: "S \<notin> ?D \<longleftrightarrow> (\<forall>j<length y. j \<noteq> k \<longrightarrow> S \<notin> set (y ! j))" if "S \<in> set (y ! k)" for S
    by (subst shared_in_any [OF assms that]) (auto simp: shared_elsewhere_iff)
  show ?thesis
    unfolding eq struck_def nth_map [OF assms] by (rule filter_cong [OF refl iff])
qed

lemma strike_shared_exact_witness:
  "strike_shared [[''color'', ''length''], [''length'', ''number'']] ! 1 = [''number'']"
  by (subst strike_shared_exact) (simp_all add: less_Suc_eq)

text \<open>
  The options of the prefixer. With any number of queries before an options object, the deprecated
  options are errors; otherwise the option meant for it decides, then the one that is warned about, and
  only without either the queries given as arguments.
\<close>

theorem prefixer_precedence:
  assumes "[] \<notin> set qs"
  shows "prefixer (map Query qs @ [Options e]) =
    (if browser e \<noteq> None then Inl ''Change `browser` option to `overrideBrowserslist` in Autoprefixer''
     else if browserslist e \<noteq> None then Inl ''Change `browserslist` option to `overrideBrowserslist` in Autoprefixer''
     else if overrideBrowserslist e \<noteq> None then Inr (Given (the (overrideBrowserslist e)), [])
     else if browsers e \<noteq> None then Inr (Given (the (browsers e)), [browsers_notice])
     else Inr (if qs = [] then NoTargets else Arguments (map Query qs), []))"
proof -
  have "split_args (map Query qs @ [Options e]) = (Options e, if qs = [] then NoTargets else Arguments (map Query qs))"
  proof (cases qs)
    case Nil
    then show ?thesis by (simp add: split_args_def)
  next
    case (Cons q qs')
    then show ?thesis using assms
      by (auto simp: split_args_def split: list.split arg.split)
  qed
  then show ?thesis
    by (auto simp: prefixer_def split: option.split)
qed

lemma prefixer_precedence_witness:
  "prefixer [Query ''ie 9'', Options (no_options\<lparr>overrideBrowserslist := Some [''ie 8'']\<rparr>)] = Inr (Given [''ie 8''], [])"
  using prefixer_precedence [of "[''ie 9'']" "no_options\<lparr>overrideBrowserslist := Some [''ie 8'']\<rparr>"]
  by (simp add: no_options_def)

text \<open>
  The deprecation notice is given once. However often a deprecated plugin is called, the notice comes
  with the first call and never again.
\<close>

theorem plugin_notice_once:
  "snd (plugin_calls (Suc n) e True lang False) = snd (plugin_call e True lang False)"
proof -
  have "plugin_calls n e True lang True = (True, [])" by (induction n) (simp_all add: plugin_call_def)
  then show ?thesis by (simp add: plugin_call_def)
qed

end
