(* ===== verification/Spec2Isabelle.thy ===== *)
theory Spec2Isabelle
  imports Reassembly_Correct Replay_Window P2p_Data Punch_Packet Tcp_Header Udp_Sessions Ip_Guard Port_Manager Acl P2p_Delivery Signaling Tls_Mux Udp_Punch Tcp_Dial Local_Proxy Lan_Candidates Agent_Config Switched_Off Log_Hub Tcp_Proxy Agent_Candidates Css_Position Css_Error Css_Stringifier Css_List Css_Candidates Css_Cascade Css_Warnings
begin

text \<open>
  RDPulse gives access to the remote desktop of machines behind routers. An agent on the machine connects to a
  relay and gets a public port; clients of that port are relayed to the agent, TCP as streams and UDP as
  datagrams. A controller on another machine connects to the relay too, asks for a target, and then talks to it
  through the relay or, when the two sides manage to punch a hole, directly. The development models the
  program's own logic; it was translated from the Go packages under \<open>internal/\<close> and from the script
  \<open>tailwind.js\<close> that the two web interfaces ship.

  \<^bold>\<open>Layout.\<close> Each theory opens with the files it models; a definition has the name of the function
  it models wherever HOL allows it.
  \<^item> \<open>Prelude\<close>: bytes, big-endian integers, slices, counting on finite maps, the collections \<open>wire\<close> and \<open>invs\<close>.
  \<^item> Interfaces (locales): \<open>Wire_Format\<close> (formats of datagrams and streams, and stacking them), \<open>Lease\<close> (a
    registry that leases names), \<open>Rate_Window\<close> (fixed-window rate limiters), \<open>Runs\<close> (steps, runs, invariants
    and histories). Each is interpreted on the definitions of the code, in the theory of the component:
    datagrams, authenticated datagrams, TCP headers and multiplexer frames; the port manager; the session
    manager and the per-address guard; the agent manager (three invariants, and a fourth for a device that is
    switched off), the dispatcher, the attempts at a punch, the registry of direct sessions, their listener and dialer.
  \<^item> \<open>Crypto\<close>, \<open>Netip\<close>, \<open>Js_String\<close>: what the program uses of the standard libraries of Go and JavaScript.
  \<^item> Wire formats, \<open>internal/protocol\<close>: \<open>Udp_Datagram\<close> (\<open>udp.go\<close>), \<open>P2p_Data\<close>, \<open>Punch_Packet\<close>, \<open>Tcp_Header\<close>,
    \<open>Control_Message\<close>.
  \<^item> UDP over datagrams, \<open>internal/udp\<close>: \<open>Fragmentation\<close>, \<open>Reassembly\<close> and \<open>Reassembly_Correct\<close>,
    \<open>Replay_Window\<close>, \<open>Udp_Sessions\<close>. \<open>Reassembly_Source\<close> traces the bytes of a packet that comes out to the fragments it
    came from.
  \<^item> The agent's side of a punched path, \<open>internal/agent\<close>: \<open>P2p_Delivery\<close>; the controller's path manager,
    \<open>internal/path\<close>: \<open>Path_Manager\<close>; the multiplexer over TLS, \<open>internal/transport/tlsmux\<close>: \<open>Tls_Mux\<close>.
  \<^item> Direct connections, \<open>internal/punch\<close> and \<open>internal/agent\<close>: \<open>Udp_Dispatcher\<close> (who shares the punch socket), \<open>Udp_Punch\<close>
    (one attempt), \<open>P2p_Registry\<close> (\<open>p2p_sessions.go\<close>), \<open>Direct_Tcp\<close> (the handshake of \<open>tcp_punch.go\<close> and the listener of
    \<open>direct_tcp.go\<close>), \<open>Tcp_Dial\<close> (the race of \<open>dialTCPAuth\<close>), and \<open>Direct_Session\<close>, which leads from the grant of the relay to
    the joined connection. \<open>Rendezvous\<close> (\<open>internal/rendezvous\<close>, \<open>internal/nat\<close>) is how a machine learns its outer
    address, \<open>Lan_Candidates\<close> which candidates it has, \<open>Candidate_Refresh\<close> how its peers learn a new one, \<open>Tcp_Proxy\<close> (\<open>internal/tcp\<close>) how joined connections are copied,
    \<open>Local_Proxy\<close> (\<open>internal/controller\<close>) the end of a session that the local client talks to.
  \<^item> \<open>Agent_Client\<close>: the sign-in of agents and controllers, \<open>internal/agent/auth.go\<close>, against the relay's side of it.
  \<^item> The relay: \<open>Ip_Guard\<close> (\<open>internal/ratelimit\<close>), \<open>Acl\<close> (\<open>internal/acl\<close>), \<open>Port_Manager\<close>, \<open>Storage\<close>
    (\<open>internal/storage\<close>), \<open>Signaling\<close> (\<open>internal/signaling\<close>), \<open>Agent_Session\<close> (\<open>relay/agent.go\<close>), and
    \<open>Agent_Manager\<close> (\<open>relay/agent_manager.go\<close>), which composes them. \<open>Agent_Protocol\<close>, \<open>Agent_Online\<close>, \<open>Guard_Slots\<close>,
    \<open>Agent_Slots\<close> and \<open>Agent_Lifecycle\<close> are its proofs, \<open>Agent_Scenario\<close> a run in which they apply, and
    \<open>Agent_Candidates\<close> traces the addresses that a controller is given.
  \<^item> Its administration: \<open>Config_Sync\<close> (\<open>internal/config\<close>: checks of a configuration, and writing settings into its file),
    \<open>Web_Console\<close> (\<open>internal/web/server.go\<close> and the watcher of \<open>cmd/relay\<close>), \<open>Switched_Off\<close> (the runs of the relay after
    a device is switched off), \<open>Agent_Config\<close> (the agent's half of \<open>internal/config\<close>, and what it reads of the text that
    the console hands out with an invitation), \<open>Log_Hub\<close> (\<open>internal/web/logs.go\<close>).
  \<^item> The style engine of \<open>tailwind.js\<close>: \<open>Css_Position\<close> (offsets, lines and ranges), \<open>Css_Error\<close>,
    \<open>Css_Stringifier\<close>, \<open>Css_List\<close>, \<open>Css_Candidates\<close>, \<open>Css_Cascade\<close>, \<open>Css_Warnings\<close>.

  \<^bold>\<open>Conventions.\<close> A struct is a record, an integer of a fixed width a word, a Go map a finite map (a missing
  key reads as 0 where the map counts), an error or early return a value. What the code takes from outside is
  an argument: the clock (\<open>now\<close>, nanoseconds), random draws, iteration orders of maps, whether a write succeeds.
  A method under a mutex is one function on the state; a goroutine is a sequence of events, and a run is any
  interleaving of events. A callback is a function on a state of the caller. Loops are structural recursion or
  recursion on a measure; no definition needs fuel. The loop that draws the number of a session takes the draws as a list,
  and it is shown from which draws it returns.

  \<^bold>\<open>How the parts interact.\<close> A client's packet enters \<open>receive_from_client\<close>: the rules of \<open>Acl\<close>, the session of
  its address in \<open>Udp_Sessions\<close>, then \<open>Fragment\<close>. What comes back from the agent enters
  \<open>receive_from_agent\<close>: a route to a controller if the number of the datagram has one, else
  \<open>FeedAppend\<close> and the session. A connection to the relay runs through \<open>on_message\<close>, \<open>on_continue\<close> and
  \<open>on_hangup\<close> of \<open>Agent_Manager\<close>, whose state holds the database, the guards, the ports, the signaling server
  and a session per agent. On a punched path the two sides seal datagrams with \<open>p2p_encode\<close>, and the agent
  runs \<open>P2p_Delivery\<close> (replay window and reassembler) where the relay would run its session. The console works on the state
  of the agent manager and its database; the file it writes is read again by the watcher and at a start.

  \<^bold>\<open>What is shown.\<close>
  \<^item> Wire formats: decoders accept exactly the encodings of valid messages (and exactly the authentic ones),
    streams of messages can be cut in one way only.
  \<^item> UDP: a fragmented packet is put together from its fragments in any order and however often repeated, and
    nothing else ever comes out; the buffers stay within their bounds; the replay window agrees with a
    reference that remembers every number; end to end over a punched path, in both directions, each
    packet is delivered at most once and unchanged, unless the network sends datagrams of the receiver back to it.
  \<^item> Resources: sessions, rates (twice the limit in any window), slots, signaling sessions and multiplexer queues
    stay within their bounds; leases of ports are stable and distinct; no slot of a connection is lost.
  \<^item> The relay: the protocol of a connection as a relation that every step refines; nobody acts as a device
    without its secret or an invitation; credentials change only against an invitation, which is consumed; data
    passes only between a controller and the agent it was granted; datagrams of clients and controllers never
    cross; two open sessions never share a port; a registration completes and an end cleans up.
  \<^item> Paths: which path is selected, that a receiver that waits for a change of path is woken, and the states
    in which direct traffic is lost.
  \<^item> Direct connections: an attempt ends with an authentic peer, and two sides that hear each other end with each
    other; a direct TCP connection is joined exactly for a session in force and its token, a session that is granted leads
    to one, and the race of dialled connections leaks none; the table of sessions refines the messages of the relay.
  \<^item> Administration: the two sides of a sign-in agree; nothing happens through the console without its token; the text that
    comes with an invitation lets a new device in when its values need no quoting; a device that is switched off, and was
    not just coming in, stays out in every later run until the console lets it in again; settings written to the file are
    found there and nothing else changes.
  \<^item> Style engine: positions are exact, the printer refines an uncached reference, line caches lose no
    candidate, prefixed copies are aligned, the caret stands under the error.
  \<^item> Flaws: \<open>disabled_receiver_deaf\<close>, \<open>acl_temporary\<close>, \<open>eof_overtakes_data\<close>, \<open>reinstalled_token\<close>,
    \<open>disabled_device_registers\<close>, \<open>offset_roundtrip\<close>, \<open>tcp_transcript_replays\<close>, \<open>reflected_probe_confirms\<close>,
    \<open>reflected_packet_delivered\<close>, \<open>target_candidates_registered\<close>, \<open>many_addresses_lost\<close>, \<open>invitation_blocks_restart\<close>, \<open>days_expiry\<close>, \<open>half_close_loses\<close>, \<open>known_device_asked\<close>,
    \<open>empty_section_lost\<close> and \<open>raw_config_unloadable\<close> state behaviour that the code has and does not mean.

  \<^bold>\<open>Not modelled.\<close> Sockets, timers and goroutines as such (QUIC, TLS, accept loops, the backoff of
  reconnects, which is in floating point); the JSON, YAML and HTTP libraries; SQLite itself, whose statements are functions
  on tables; the requests of the console that only read, pages, the desktop application and the Windows service; of
  \<open>tailwind.js\<close> the tokenizer and parser, the selector parser, the tables of utilities and browsers, and the
  generation of rules. In the agent manager the connect request of a controller is one event, while
  \<open>Signaling\<close> treats its critical sections apart.
\<close>

end
